(* ===== verification/Prelude.thy ===== *)
theory Prelude
  imports Complex_Main
begin

text \<open>
  Shared vocabulary of the development: the exceptions the Python code raises, results
  as sums (\<open>Inl\<close> an exception, \<open>Inr\<close> a returned value) with their sequencing operator,
  the type synonyms that name the program's scalar types, and generic lemmas on results,
  on association lists used as insertion-ordered dictionaries, and on integers.
\<close>

named_theorems derisk_simps \<open>rewrite rules about the direction in which risk may move\<close>
named_theorems result_simps \<open>rewrite rules about results and their sequencing\<close>

subsection \<open>Exceptions and results\<close>

datatype py_exc =
    ValueError
  | TypeError
  | KeyError
  | AssertionError
  | PermissionError
  | BreakerNotTripped
  | DivisionByZero
  | AttributeError
  | IndexError
  | RuntimeError

type_synonym 'a result = "py_exc + 'a"

definition rbind :: "'a result \<Rightarrow> ('a \<Rightarrow> 'b result) \<Rightarrow> 'b result" where
  "rbind r f = (case r of Inl e \<Rightarrow> Inl e | Inr a \<Rightarrow> f a)"

definition guard :: "bool \<Rightarrow> py_exc \<Rightarrow> unit result" where
  "guard ok e = (if ok then Inr () else Inl e)"

lemma rbind_Inl [simp]: "rbind (Inl e) f = Inl e"
  by (simp add: rbind_def)

lemma rbind_Inr [simp]: "rbind (Inr a) f = f a"
  by (simp add: rbind_def)

lemma rbind_assoc [result_simps]: "rbind (rbind r f) g = rbind r (\<lambda>a. rbind (f a) g)"
  by (cases r) simp_all

lemma rbind_eq_Inr [result_simps]: "rbind r f = Inr b \<longleftrightarrow> (\<exists>a. r = Inr a \<and> f a = Inr b)"
  by (cases r) simp_all

lemma rbind_eq_Inl [result_simps]:
  "rbind r f = Inl e \<longleftrightarrow> r = Inl e \<or> (\<exists>a. r = Inr a \<and> f a = Inl e)"
  by (cases r) simp_all

lemma rbind_cong [fundef_cong]:
  "r = r' \<Longrightarrow> (\<And>a. r' = Inr a \<Longrightarrow> f a = g a) \<Longrightarrow> rbind r f = rbind r' g"
  by (cases r') simp_all

lemma guard_eq_Inr [simp]: "guard ok e = Inr u \<longleftrightarrow> ok"
  by (simp add: guard_def)

lemma guard_eq_Inl [simp]: "guard ok e = Inl e' \<longleftrightarrow> \<not> ok \<and> e' = e"
  by (auto simp: guard_def)

lemma guard_True [simp]: "guard True e = Inr ()"
  by (simp add: guard_def)

lemma guard_False [simp]: "guard False e = Inl e"
  by (simp add: guard_def)

lemma sum_not_Inl: "(\<forall>e. r \<noteq> Inl e) \<longleftrightarrow> (\<exists>a. r = Inr a)"
  by (cases r) simp_all

definition opt_list :: "'a option \<Rightarrow> 'a list" where
  "opt_list x = (case x of None \<Rightarrow> [] | Some a \<Rightarrow> [a])"

lemma opt_list_simps [simp]: "opt_list None = []" "opt_list (Some a) = [a]"
  by (simp_all add: opt_list_def)

subsection \<open>Scalar types of the program\<close>

type_synonym mint = string
type_synonym lamports = int
type_synonym bps = int
type_synonym millis = int
type_synonym decimal = rat

subsection \<open>Python dictionaries as insertion-ordered association lists\<close>

text \<open>
  \<open>d[k] = v\<close> keeps the position of an existing key and appends a new one;
  \<open>d.pop(k, None)\<close> removes the key; iteration is in list order.
\<close>

fun dict_set :: "'k \<Rightarrow> 'v \<Rightarrow> ('k \<times> 'v) list \<Rightarrow> ('k \<times> 'v) list" where
  "dict_set k v [] = [(k, v)]"
| "dict_set k v ((k', v') # d) = (if k = k' then (k, v) # d else (k', v') # dict_set k v d)"

definition dict_pop :: "'k \<Rightarrow> ('k \<times> 'v) list \<Rightarrow> ('k \<times> 'v) list" where
  "dict_pop k d = filter (\<lambda>(k', v). k' \<noteq> k) d"

abbreviation dict_keys :: "('k \<times> 'v) list \<Rightarrow> 'k list" where
  "dict_keys d \<equiv> map fst d"

abbreviation dict_values :: "('k \<times> 'v) list \<Rightarrow> 'v list" where
  "dict_values d \<equiv> map snd d"

lemma map_of_dict_set [simp]: "map_of (dict_set k v d) = (map_of d)(k \<mapsto> v)"
  by (induction k v d rule: dict_set.induct) (auto simp: fun_eq_iff)

lemma map_of_dict_pop [simp]: "map_of (dict_pop k d) = (map_of d)(k := None)"
  by (induction d) (auto simp: dict_pop_def fun_eq_iff)

lemma set_keys_dict_set [simp]: "set (dict_keys (dict_set k v d)) = insert k (set (dict_keys d))"
  by (induction k v d rule: dict_set.induct) auto

lemma set_keys_dict_pop [simp]: "set (dict_keys (dict_pop k d)) = set (dict_keys d) - {k}"
  by (auto simp: dict_pop_def)

lemma distinct_dict_set [simp]: "distinct (dict_keys d) \<Longrightarrow> distinct (dict_keys (dict_set k v d))"
proof (induction k v d rule: dict_set.induct)
  case (2 k v k' v' d)
  then show ?case by (auto simp del: set_map simp: set_keys_dict_set)
qed simp

lemma distinct_dict_pop [simp]: "distinct (dict_keys d) \<Longrightarrow> distinct (dict_keys (dict_pop k d))"
  by (auto simp: dict_pop_def distinct_map_filter)

lemma dict_pop_absent [simp]: "k \<notin> set (dict_keys d) \<Longrightarrow> dict_pop k d = d"
  by (induction d) (auto simp: dict_pop_def)

lemma sum_values_dict_set:
  fixes w :: "'v \<Rightarrow> int"
  assumes "distinct (dict_keys d)"
  shows "sum_list (map w (dict_values (dict_set k v d))) =
    sum_list (map w (dict_values (dict_pop k d))) + w v"
  using assms
proof (induction k v d rule: dict_set.induct)
  case (1 k v)
  then show ?case by (simp add: dict_pop_def)
next
  case (2 k v k' v' d)
  show ?case
  proof (cases "k = k'")
    case True
    with "2.prems" have "dict_pop k d = d" by (intro dict_pop_absent) simp
    then show ?thesis using True by (simp add: dict_pop_def)
  next
    case False
    with 2 show ?thesis by (simp add: dict_pop_def)
  qed
qed

lemma dict_pop_set: "dict_pop k (dict_set k v d) = dict_pop k d"
  by (induction k v d rule: dict_set.induct) (auto simp: dict_pop_def)

lemma dict_set_same: "map_of d k = Some v \<Longrightarrow> dict_set k v d = d"
  by (induction d) (auto split: if_splits)

subsection \<open>Truncation towards zero (Python \<open>int(x)\<close> on a Decimal)\<close>

definition trunc :: "rat \<Rightarrow> int" where
  "trunc x = (if 0 \<le> x then \<lfloor>x\<rfloor> else \<lceil>x\<rceil>)"

lemma trunc_of_int [simp]: "trunc (of_int n) = n"
  by (simp add: trunc_def)

lemma trunc_nonneg: "0 \<le> x \<Longrightarrow> 0 \<le> trunc x"
  by (simp add: trunc_def)

lemma trunc_mono: "x \<le> y \<Longrightarrow> trunc x \<le> trunc y"
proof -
  assume "x \<le> y"
  moreover have "\<lceil>x\<rceil> \<le> \<lfloor>y\<rfloor>" if "x < 0" and "0 \<le> y"
    using that by (intro order.trans [of "\<lceil>x\<rceil>" 0 "\<lfloor>y\<rfloor>"]) (simp_all add: ceiling_le_iff)
  ultimately show ?thesis
    by (auto simp: trunc_def floor_mono ceiling_mono)
qed

lemma trunc_le_of_int: "x \<le> of_int n \<Longrightarrow> trunc x \<le> n"
  using trunc_mono [of x "of_int n"] by simp

lemma trunc_ge_of_int: "of_int n \<le> x \<Longrightarrow> n \<le> trunc x"
  using trunc_mono [of "of_int n" x] by simp

lemma trunc_minus: "trunc (- x) = - trunc x"
  by (auto simp: trunc_def ceiling_minus floor_minus)

subsection \<open>Integer division\<close>

lemma int_div_less_iff:
  fixes a b c :: int
  assumes "0 < b"
  shows "a div b < c \<longleftrightarrow> a < c * b"
proof
  assume "a div b < c"
  then have "(a div b + 1) * b \<le> c * b" using assms by (intro mult_right_mono) simp_all
  then have "a div b * b + b \<le> c * b" by (simp add: distrib_right)
  moreover have "a < a div b * b + b"
    using div_mult_mod_eq [of a b] pos_mod_bound [OF assms, of a] by linarith
  ultimately show "a < c * b" by linarith
next
  assume lt: "a < c * b"
  have "a div b * b \<le> a" using assms div_mult_mod_eq [of a b] pos_mod_sign [of b a] by linarith
  with lt have "a div b * b < c * b" by linarith
  with assms show "a div b < c" by simp
qed

subsection \<open>Numbers printed by \<open>str\<close>\<close>

fun digit_char :: "nat \<Rightarrow> char" where
  "digit_char d = char_of (48 + d)"

fun str_nat :: "nat \<Rightarrow> string" where
  "str_nat n = (if n < 10 then [digit_char n] else str_nat (n div 10) @ [digit_char (n mod 10)])"

definition str_int :: "int \<Rightarrow> string" where
  "str_int i = (if i < 0 then ''-'' @ str_nat (nat (- i)) else str_nat (nat i))"

declare str_nat.simps [simp del]

text \<open>A printed number can be read back, so different numbers are printed differently.\<close>

definition num_of :: "string \<Rightarrow> nat" where
  "num_of s = foldl (\<lambda>n c. n * 10 + (of_char c - 48)) 0 s"

lemma num_of_snoc: "num_of (s @ [c]) = num_of s * 10 + (of_char c - 48)"
  by (simp add: num_of_def)

lemma digit_char_value: "d < 10 \<Longrightarrow> (of_char (digit_char d) :: nat) - 48 = d"
  by (simp add: of_char_of)

lemma num_of_str_nat: "num_of (str_nat n) = n"
proof (induction n rule: str_nat.induct)
  case (1 n)
  show ?case
  proof (cases "n < 10")
    case True
    have "num_of ([] @ [digit_char n]) = n" unfolding num_of_snoc using True by (simp add: num_of_def of_char_of)
    with True show ?thesis by (subst str_nat.simps) simp
  next
    case False
    then have "num_of (str_nat n) = num_of (str_nat (n div 10)) * 10 + (of_char (digit_char (n mod 10)) - 48)"
      by (subst str_nat.simps) (simp only: num_of_snoc if_False)
    also have "\<dots> = n div 10 * 10 + n mod 10"
      using 1 False digit_char_value [of "n mod 10"] by simp
    finally show ?thesis by simp
  qed
qed

lemma str_int_inj: "0 \<le> i \<Longrightarrow> 0 \<le> j \<Longrightarrow> str_int i = str_int j \<longleftrightarrow> i = j"
  by (auto simp: str_int_def) (metis num_of_str_nat eq_nat_nat_iff)

subsection \<open>Ordered lists of checks\<close>

text \<open>
  A gate runs its checks in a fixed order: the fast path stops at the first check that reports a
  hit, the audit path runs them all and collects the hits.
\<close>

fun first_hit :: "('c \<Rightarrow> 'h option) \<Rightarrow> 'c list \<Rightarrow> 'h option" where
  "first_hit check [] = None"
| "first_hit check (c # cs) = (case check c of None \<Rightarrow> first_hit check cs | Some h \<Rightarrow> Some h)"

fun all_hits :: "('c \<Rightarrow> 'h option) \<Rightarrow> 'c list \<Rightarrow> 'h list" where
  "all_hits check [] = []"
| "all_hits check (c # cs) = opt_list (check c) @ all_hits check cs"

lemma first_hit_all_hits:
  "first_hit check cs = (case all_hits check cs of [] \<Rightarrow> None | h # hs \<Rightarrow> Some h)"
  by (induction cs) (auto split: option.splits)

lemma all_hits_empty_iff: "all_hits check cs = [] \<longleftrightarrow> (\<forall>c \<in> set cs. check c = None)"
  by (induction cs) (auto simp: opt_list_def split: option.splits)

lemma first_hit_None_iff: "first_hit check cs = None \<longleftrightarrow> (\<forall>c \<in> set cs. check c = None)"
  by (induction cs) (auto split: option.splits)

lemma set_all_hits: "set (all_hits check cs) = {h. \<exists>c \<in> set cs. check c = Some h}"
  by (induction cs) (auto simp: opt_list_def split: option.splits)

lemma first_hit_cong: "(\<And>c. c \<in> set cs \<Longrightarrow> f c = g c) \<Longrightarrow> first_hit f cs = first_hit g cs"
  by (induction cs) (auto split: option.splits)

lemma all_hits_cong: "(\<And>c. c \<in> set cs \<Longrightarrow> f c = g c) \<Longrightarrow> all_hits f cs = all_hits g cs"
  by (induction cs) auto

end
