(* ===== verification/Rounding.thy ===== *)
theory Rounding
  imports Prelude
begin

text \<open>
  Arithmetic of the two inexact number types of the program. A Python \<open>Decimal\<close> operation
  returns the exact result rounded to 28 significant decimal digits, ties to even (the
  default context, and the context \<open>risk/sizing.py\<close> pins); a \<open>float\<close> operation returns the
  exact result rounded to 53 significant binary digits, ties to even. Values are rationals,
  an operation is the exact operation followed by \<open>round_sig\<close>. Exponent overflow and
  underflow, NaN and the sign of zero are outside the model.

  The laws a client needs (monotone, odd, exact on representable numbers) form the locale
  \<open>sig_rounding\<close>; its lemmas are proved once and instantiated for both formats.
\<close>

subsection \<open>Rounding to an integer, ties to even\<close>

definition half_even :: "rat \<Rightarrow> int" where
  "half_even x =
     (let f = \<lfloor>x\<rfloor>; d = x - of_int f in
      if d < 1 / 2 then f else if 1 / 2 < d then f + 1 else if even f then f else f + 1)"

lemma half_even_of_int [simp]: "half_even (of_int n) = n"
  by (simp add: half_even_def)

lemma half_even_bounds: "\<lfloor>x\<rfloor> \<le> half_even x" "half_even x \<le> \<lfloor>x\<rfloor> + 1"
  by (simp_all add: half_even_def Let_def)

lemma half_even_mono: "x \<le> y \<Longrightarrow> half_even x \<le> half_even y"
proof -
  assume le: "x \<le> y"
  then have "\<lfloor>x\<rfloor> \<le> \<lfloor>y\<rfloor>" by (rule floor_mono)
  then consider "\<lfloor>x\<rfloor> = \<lfloor>y\<rfloor>" | "\<lfloor>x\<rfloor> + 1 \<le> \<lfloor>y\<rfloor>" by linarith
  then show ?thesis
  proof cases
    case 1
    with le show ?thesis by (auto simp: half_even_def Let_def)
  next
    case 2
    with half_even_bounds [of x] half_even_bounds [of y] show ?thesis by linarith
  qed
qed

lemma half_even_le: "x \<le> of_int n \<Longrightarrow> half_even x \<le> n"
  using half_even_mono [of x "of_int n"] by simp

lemma half_even_ge: "of_int n \<le> x \<Longrightarrow> n \<le> half_even x"
  using half_even_mono [of "of_int n" x] by simp

subsection \<open>Powers of the base and the magnitude of a number\<close>

definition bpow :: "nat \<Rightarrow> int \<Rightarrow> rat" where
  "bpow b e = (if 0 \<le> e then of_nat b ^ nat e else 1 / of_nat b ^ nat (- e))"

lemma bpow_powi: "bpow b e = of_nat b powi e"
  by (simp add: bpow_def power_int_def field_simps)

lemma bpow_pos: "0 < b \<Longrightarrow> 0 < bpow b e"
  by (simp add: bpow_def)

lemma bpow_add: "0 < b \<Longrightarrow> bpow b (e + f) = bpow b e * bpow b f"
  by (simp add: bpow_powi power_int_add)

lemma bpow_0 [simp]: "bpow b 0 = 1"
  by (simp add: bpow_def)

lemma bpow_of_nat: "bpow b (int n) = of_int (int b ^ n)"
  by (simp add: bpow_def)

lemma bpow_strict_mono: "1 < b \<Longrightarrow> e < f \<Longrightarrow> bpow b e < bpow b f"
  by (simp add: bpow_powi power_int_strict_increasing)

lemma bpow_less_iff: "1 < b \<Longrightarrow> bpow b e < bpow b f \<longleftrightarrow> e < f"
  using bpow_strict_mono [of b e f] bpow_strict_mono [of b f e]
  by (cases e f rule: linorder_cases) auto

lemma bpow_le_iff: "1 < b \<Longrightarrow> bpow b e \<le> bpow b f \<longleftrightarrow> e \<le> f"
  using bpow_less_iff [of b f e] by (simp flip: not_less)

function ndigits :: "int \<Rightarrow> int \<Rightarrow> int" where
  "ndigits b n = (if 1 < b \<and> 0 < n then ndigits b (n div b) + 1 else 0)"
  by pat_completeness auto
termination
proof (relation "measure (\<lambda>(b, n). nat n)")
  fix b n :: int
  assume *: "1 < b \<and> 0 < n"
  then have "n div b < n" by (intro int_div_less_self) simp_all
  with * show "((b, n div b), (b, n)) \<in> measure (\<lambda>(b, n). nat n)" by simp
qed simp

declare ndigits.simps [simp del]

definition mag :: "nat \<Rightarrow> rat \<Rightarrow> int" where
  "mag b x =
     (let (p, q) = quotient_of x;
          k = ndigits (int b) p - ndigits (int b) q in
      if bpow b k \<le> x then k else k - 1)"

lemma ndigits_nonneg: "0 \<le> ndigits b n"
  by (induction b n rule: ndigits.induct) (subst ndigits.simps, simp)

lemma ndigits_bpow:
  assumes "1 < b" and "0 < n"
  shows "bpow b (ndigits (int b) n - 1) \<le> of_int n \<and> of_int n < bpow b (ndigits (int b) n)"
  using assms(2)
proof (induction "int b" n rule: ndigits.induct)
  case (1 n)
  define k where "k = ndigits (int b) (n div int b)"
  have unfold: "ndigits (int b) n = k + 1"
    using assms(1) 1(2) by (subst ndigits.simps) (simp add: k_def)
  have b0: "0 < b" using assms(1) by simp
  show ?case
  proof (cases "n div int b = 0")
    case True
    then have "k = 0" by (simp add: k_def ndigits.simps)
    moreover have "n < int b"
      using True 1(2) assms(1) by (simp add: zdiv_eq_0_iff)
    moreover have "bpow b 1 = of_int (int b)" by (simp add: bpow_def)
    ultimately show ?thesis using 1(2) unfold by simp
  next
    case False
    then have "0 < n div int b"
      using 1(2) assms(1) by (simp add: order_less_le pos_imp_zdiv_nonneg_iff)
    then have IH: "bpow b (k - 1) \<le> of_int (n div int b)" "of_int (n div int b) < bpow b k"
      using 1 assms(1) by (simp_all add: k_def)
    have "0 \<le> k" by (simp add: k_def ndigits_nonneg)
    then have "of_int (n div int b) < (of_int (int b ^ nat k) :: rat)"
      using IH(2) by (simp add: bpow_def)
    then have "n div int b + 1 \<le> int b ^ nat k"
      by (simp only: of_int_less_iff)
    then have "(n div int b + 1) * int b \<le> int b ^ nat k * int b"
      by (intro mult_right_mono) simp_all
    moreover have "n < (n div int b + 1) * int b"
      using assms(1) by (simp add: algebra_simps) (metis add.commute b0 mult_div_mod_eq
        add_less_cancel_left of_nat_0_less_iff pos_mod_bound)
    ultimately have "of_int n < (of_int (int b ^ nat k * int b) :: rat)"
      by (simp only: of_int_less_iff)
    also have "\<dots> = bpow b (k + 1)"
      using \<open>0 \<le> k\<close> b0 by (simp add: bpow_add) (simp add: bpow_def)
    finally have upper: "of_int n < bpow b (k + 1)" .
    have "bpow b k = bpow b (k - 1) * of_int (int b)"
      using bpow_add [OF b0, of "k - 1" 1] by (simp add: bpow_def [of b 1])
    also have "\<dots> \<le> of_int (n div int b) * of_int (int b)"
      using IH(1) by (intro mult_right_mono) simp_all
    also have "\<dots> = of_int (n div int b * int b)" by simp
    also have "\<dots> \<le> of_int n"
      using b0 1(2) by (simp only: of_int_le_iff) (simp add: div_times_less_eq_dividend minus_mod_eq_div_mult [symmetric])
    finally show ?thesis using upper unfold by simp
  qed
qed

lemma mag_bounds:
  assumes "1 < b" and "0 < x"
  shows "bpow b (mag b x) \<le> x" and "x < bpow b (mag b x + 1)"
proof -
  obtain p q where pq: "quotient_of x = (p, q)" by (cases "quotient_of x")
  have q: "0 < q" using pq by (rule quotient_of_denom_pos)
  have x: "x = of_int p / of_int q" using pq by (rule quotient_of_div)
  have p: "0 < p" using assms(2) q by (simp add: x zero_less_divide_iff)
  define i j where "i = ndigits (int b) p" and "j = ndigits (int b) q"
  have pi: "bpow b (i - 1) \<le> of_int p" "of_int p < bpow b i"
    using ndigits_bpow [OF assms(1) p] by (simp_all add: i_def)
  have qj: "bpow b (j - 1) \<le> of_int q" "of_int q < bpow b j"
    using ndigits_bpow [OF assms(1) q] by (simp_all add: j_def)
  have upper: "x < bpow b (i - j + 1)"
  proof -
    have "x * bpow b (j - 1) \<le> x * of_int q" using qj(1) assms(2) by simp
    also have "\<dots> = of_int p" using q by (simp add: x)
    also have "\<dots> < bpow b i" by (rule pi(2))
    also have "\<dots> = bpow b (i - j + 1) * bpow b (j - 1)"
      using assms(1) by (simp flip: bpow_add)
    finally show ?thesis using bpow_pos [of b "j - 1"] assms(1) by simp
  qed
  have lower: "bpow b (i - j - 1) \<le> x"
  proof -
    have "bpow b (i - j - 1) * of_int q \<le> bpow b (i - j - 1) * bpow b j"
      using qj(2) bpow_pos [of b "i - j - 1"] assms(1) by simp
    also have "\<dots> = bpow b (i - 1)" using assms(1) by (simp flip: bpow_add)
    also have "\<dots> \<le> of_int p" by (rule pi(1))
    also have "\<dots> = x * of_int q" using q by (simp add: x)
    finally show ?thesis using q by simp
  qed
  have "mag b x = (if bpow b (i - j) \<le> x then i - j else i - j - 1)"
    by (simp add: mag_def pq i_def j_def)
  then show "bpow b (mag b x) \<le> x" and "x < bpow b (mag b x + 1)"
    using upper lower by (auto split: if_splits)
qed

lemma mag_less:
  assumes "1 < b" and "0 < x" and "x < bpow b e"
  shows "mag b x < e"
  using mag_bounds(1) [OF assms(1,2)] assms(3) bpow_less_iff [OF assms(1), of "mag b x" e]
  by linarith

lemma mag_mono:
  assumes "1 < b" and "0 < x" and "x \<le> y"
  shows "mag b x \<le> mag b y"
  using mag_less [OF assms(1,2), of "mag b y + 1"] mag_bounds(2) [OF assms(1), of y] assms(2,3)
  by linarith

subsection \<open>Rounding to a number of significant digits\<close>

definition round_pos :: "nat \<Rightarrow> nat \<Rightarrow> rat \<Rightarrow> rat" where
  "round_pos b p x =
     (let e = mag b x - int p + 1 in of_int (half_even (x / bpow b e)) * bpow b e)"

definition round_sig :: "nat \<Rightarrow> nat \<Rightarrow> rat \<Rightarrow> rat" where
  "round_sig b p x = (if x = 0 then 0 else if 0 < x then round_pos b p x else - round_pos b p (- x))"

definition rep_sig :: "nat \<Rightarrow> nat \<Rightarrow> rat \<Rightarrow> bool" where
  "rep_sig b p x \<longleftrightarrow> (\<exists>m e. x = of_int m * bpow b e \<and> \<bar>m\<bar> \<le> int b ^ p)"

lemma round_pos_scale:
  assumes "1 < b" and "0 < p" and "0 < x"
  defines "e \<equiv> mag b x - int p + 1"
  shows "int b ^ (p - 1) \<le> half_even (x / bpow b e)" and "half_even (x / bpow b e) \<le> int b ^ p"
proof -
  have pos: "0 < bpow b e" using assms(1) by (simp add: bpow_pos)
  have "bpow b (mag b x) = bpow b (int (p - 1)) * bpow b e"
    and "bpow b (mag b x + 1) = bpow b (int p) * bpow b e"
    using assms(1,2) by (simp_all add: e_def of_nat_diff flip: bpow_add)
  then have "bpow b (int (p - 1)) \<le> x / bpow b e" and "x / bpow b e \<le> bpow b (int p)"
    using mag_bounds [OF assms(1,3)] pos by (simp_all add: field_simps)
  then show "int b ^ (p - 1) \<le> half_even (x / bpow b e)"
    and "half_even (x / bpow b e) \<le> int b ^ p"
    by (auto intro: half_even_ge half_even_le simp: bpow_of_nat simp del: of_int_power)
qed

lemma round_pos_bounds:
  assumes "1 < b" and "0 < p" and "0 < x"
  shows "bpow b (mag b x) \<le> round_pos b p x" and "round_pos b p x \<le> bpow b (mag b x + 1)"
proof -
  define e where "e = mag b x - int p + 1"
  have pos: "0 < bpow b e" using assms(1) by (simp add: bpow_pos)
  have split: "bpow b (mag b x) = of_int (int b ^ (p - 1)) * bpow b e"
    "bpow b (mag b x + 1) = of_int (int b ^ p) * bpow b e"
    unfolding bpow_of_nat [symmetric]
    using assms(1,2) by (simp_all add: e_def of_nat_diff flip: bpow_add)
  have r: "round_pos b p x = of_int (half_even (x / bpow b e)) * bpow b e"
    by (simp add: round_pos_def e_def Let_def)
  note s = round_pos_scale [OF assms, folded e_def]
  show "bpow b (mag b x) \<le> round_pos b p x"
    unfolding split r using s(1) pos by (intro mult_right_mono) (simp_all only: of_int_le_iff less_imp_le)
  show "round_pos b p x \<le> bpow b (mag b x + 1)"
    unfolding split r using s(2) pos by (intro mult_right_mono) (simp_all only: of_int_le_iff less_imp_le)
qed

lemma round_pos_mono:
  assumes "1 < b" and "0 < p" and "0 < x" and "x \<le> y"
  shows "round_pos b p x \<le> round_pos b p y"
proof (cases "mag b x = mag b y")
  case True
  then show ?thesis
    using assms(1,4) bpow_pos [of b "mag b y - int p + 1"]
    by (auto simp: round_pos_def Let_def divide_right_mono intro!: mult_right_mono half_even_mono)
next
  case False
  with mag_mono [OF assms(1,3,4)] have "mag b x + 1 \<le> mag b y" by linarith
  then have "bpow b (mag b x + 1) \<le> bpow b (mag b y)"
    using assms(1) by (simp add: bpow_le_iff)
  with round_pos_bounds(2) [OF assms(1-3)] round_pos_bounds(1) [OF assms(1,2), of y] assms(3,4)
  show ?thesis by linarith
qed

lemma round_pos_exact:
  assumes "1 < b" and "0 < p" and "0 < x" and "rep_sig b p x"
  shows "round_pos b p x = x"
proof -
  obtain m f where x: "x = of_int m * bpow b f" and m: "\<bar>m\<bar> \<le> int b ^ p"
    using assms(4) by (auto simp: rep_sig_def)
  define e where "e = mag b x - int p + 1"
  have b0: "0 < b" using assms(1) by simp
  have pos: "0 < bpow b e" using b0 by (simp add: bpow_pos)
  have "\<exists>n. x / bpow b e = of_int n"
  proof (cases "e \<le> f")
    case True
    have "x / bpow b e = of_int m * bpow b (f - e)"
      using pos b0 by (simp add: x field_simps flip: bpow_add)
    also have "\<dots> = of_int (m * int b ^ nat (f - e))"
      using True by (simp add: bpow_def)
    finally show ?thesis by blast
  next
    case False
    have "0 < of_int m * bpow b f" using assms(3) x by simp
    then have m0: "0 < m" using bpow_pos [OF b0, of f] by (simp add: zero_less_mult_iff)
    have "x \<le> of_int (int b ^ p) * bpow b f"
      unfolding x using m bpow_pos [OF b0, of f]
      by (intro mult_right_mono) (simp_all only: of_int_le_iff less_imp_le abs_le_iff)
    also have "\<dots> = bpow b (int p + f)" by (simp only: bpow_add [OF b0] bpow_of_nat)
    finally have le: "x \<le> bpow b (int p + f)" .
    have "bpow b (int p + f) \<le> x"
      using mag_bounds(1) [OF assms(1,3)] bpow_le_iff [OF assms(1), of "int p + f" "mag b x"] False
      by (simp add: e_def)
    with le have "x = bpow b (int p + f)" by simp
    moreover have "mag b x = int p + f"
      using le False mag_less [OF assms(1,3), of "int p + f + 1"]
        bpow_strict_mono [OF assms(1), of "int p + f" "int p + f + 1"]
      by (simp add: e_def)
    ultimately have "x / bpow b e = bpow b (int (p - 1))"
      using pos b0 assms(2) by (simp add: e_def of_nat_diff field_simps flip: bpow_add)
    then show ?thesis by (auto simp: bpow_of_nat simp del: of_int_power)
  qed
  then obtain n where n: "x / bpow b e = of_int n" ..
  then have "round_pos b p x = of_int n * bpow b e"
    by (simp add: round_pos_def e_def Let_def)
  also have "\<dots> = x" using n pos by (simp add: field_simps)
  finally show ?thesis .
qed

lemma rep_round_pos:
  assumes "1 < b" and "0 < p" and "0 < x"
  shows "rep_sig b p (round_pos b p x)"
proof -
  have "0 \<le> half_even (x / bpow b (mag b x - int p + 1))"
    using round_pos_scale(1) [OF assms] by (rule order.trans [rotated]) simp
  then have "\<bar>half_even (x / bpow b (mag b x - int p + 1))\<bar> \<le> int b ^ p"
    using round_pos_scale(2) [OF assms] by simp
  then show ?thesis by (auto simp: rep_sig_def round_pos_def Let_def)
qed

lemma rep_sig_minus: "rep_sig b p (- x) \<longleftrightarrow> rep_sig b p x"
proof -
  have "rep_sig b p (- y)" if "rep_sig b p y" for y
    using that unfolding rep_sig_def by (metis abs_minus_cancel minus_mult_left of_int_minus)
  from this [of x] this [of "- x"] show ?thesis by auto
qed

lemma rep_sig_scaled: "\<bar>m\<bar> \<le> int b ^ p \<Longrightarrow> rep_sig b p (of_int m * bpow b e)"
  by (auto simp: rep_sig_def)

lemma rep_sig_of_int: "\<bar>m\<bar> \<le> int b ^ p \<Longrightarrow> rep_sig b p (of_int m)"
  using rep_sig_scaled [of m b p 0] by simp

lemma rep_sig_frac: "\<bar>m\<bar> \<le> int b ^ p \<Longrightarrow> rep_sig b p (of_int m / of_nat b ^ k)"
  using rep_sig_scaled [of m b p "- int k"] by (cases "k = 0") (simp_all add: bpow_def)

subsection \<open>The contract of a rounding\<close>

locale sig_rounding =
  fixes rnd :: "rat \<Rightarrow> rat" and rep :: "rat \<Rightarrow> bool"
  assumes rnd_mono: "x \<le> y \<Longrightarrow> rnd x \<le> rnd y"
    and rnd_minus: "rnd (- x) = - rnd x"
    and rnd_exact: "rep x \<Longrightarrow> rnd x = x"
    and rep_rnd: "rep (rnd x)"
    and rnd_positive: "0 < x \<Longrightarrow> 0 < rnd x"
    and rep_0: "rep 0"
    and rep_1: "rep 1"
begin

lemma rnd_0: "rnd 0 = 0"
  by (rule rnd_exact [OF rep_0])

lemma rnd_1: "rnd 1 = 1"
  by (rule rnd_exact [OF rep_1])

lemma rnd_idem: "rnd (rnd x) = rnd x"
  by (rule rnd_exact [OF rep_rnd])

lemma rnd_le_rep: "x \<le> y \<Longrightarrow> rep y \<Longrightarrow> rnd x \<le> y"
  using rnd_mono [of x y] by (simp add: rnd_exact)

lemma rnd_ge_rep: "y \<le> x \<Longrightarrow> rep y \<Longrightarrow> y \<le> rnd x"
  using rnd_mono [of y x] by (simp add: rnd_exact)

lemma rnd_nonneg: "0 \<le> x \<Longrightarrow> 0 \<le> rnd x"
  by (rule rnd_ge_rep [OF _ rep_0])

lemma rnd_nonpos: "x \<le> 0 \<Longrightarrow> rnd x \<le> 0"
  by (rule rnd_le_rep [OF _ rep_0])

lemma rnd_zero_iff: "rnd x = 0 \<longleftrightarrow> x = 0"
  using rnd_positive [of x] rnd_positive [of "- x"]
  by (cases x "0 :: rat" rule: linorder_cases) (auto simp: rnd_0 rnd_minus)

lemma rnd_le_0_iff: "rnd x \<le> 0 \<longleftrightarrow> x \<le> 0"
  using rnd_positive [of x] rnd_nonpos [of x] by linarith

lemma rnd_shrink:
  assumes "rep y" and "0 \<le> y" and "u \<le> 1"
  shows "rnd (y * u) \<le> y"
  using assms by (intro rnd_le_rep) (auto simp: mult_left_le)

lemma rnd_unit:
  assumes "0 \<le> x" and "x \<le> 1"
  shows "0 \<le> rnd x" and "rnd x \<le> 1"
  using assms by (auto intro: rnd_nonneg rnd_le_rep rep_1)

end

lemma sig_rounding_round_sig:
  assumes b: "1 < b" and p: "0 < p"
  shows "sig_rounding (round_sig b p) (rep_sig b p)"
proof
  have pos: "0 < round_pos b p x" if "0 < x" for x
    using round_pos_bounds(1) [OF b p that] bpow_pos [of b "mag b x"] b by simp
  show "round_sig b p x \<le> round_sig b p y" if "x \<le> y" for x y
    using that round_pos_mono [OF b p, of x y] round_pos_mono [OF b p, of "- y" "- x"]
      pos [of y] pos [of "- x"]
    by (auto simp: round_sig_def)
  show "round_sig b p (- x) = - round_sig b p x" for x
    by (simp add: round_sig_def)
  show "round_sig b p x = x" if "rep_sig b p x" for x
    using that round_pos_exact [OF b p, of x] round_pos_exact [OF b p, of "- x"]
    by (auto simp: round_sig_def rep_sig_minus)
  show "rep_sig b p (round_sig b p x)" for x
    using rep_round_pos [OF b p, of x] rep_round_pos [OF b p, of "- x"] rep_sig_of_int [of 0 b p]
    by (auto simp: round_sig_def rep_sig_minus)
  show "0 < round_sig b p x" if "0 < x" for x
    using that pos by (simp add: round_sig_def)
  show "rep_sig b p 0" using rep_sig_of_int [of 0 b p] by simp
  show "rep_sig b p 1" using rep_sig_of_int [of 1 b p] b by simp
qed

subsection \<open>Decimal and float operations\<close>

definition dec :: "rat \<Rightarrow> decimal" where
  "dec x = round_sig 10 28 x"

abbreviation dec_rep :: "rat \<Rightarrow> bool" where
  "dec_rep \<equiv> rep_sig 10 28"

definition dadd :: "decimal \<Rightarrow> decimal \<Rightarrow> decimal" where
  "dadd x y = dec (x + y)"

definition dsub :: "decimal \<Rightarrow> decimal \<Rightarrow> decimal" where
  "dsub x y = dec (x - y)"

definition dmul :: "decimal \<Rightarrow> decimal \<Rightarrow> decimal" where
  "dmul x y = dec (x * y)"

definition ddiv :: "decimal \<Rightarrow> decimal \<Rightarrow> decimal" where
  "ddiv x y = dec (x / y)"

definition flt :: "rat \<Rightarrow> rat" where
  "flt x = round_sig 2 53 x"

abbreviation flt_rep :: "rat \<Rightarrow> bool" where
  "flt_rep \<equiv> rep_sig 2 53"

definition fsub :: "rat \<Rightarrow> rat \<Rightarrow> rat" where
  "fsub x y = flt (x - y)"

interpretation dec: sig_rounding dec dec_rep
proof -
  have "sig_rounding (round_sig 10 28) (rep_sig 10 28)"
    by (rule sig_rounding_round_sig) simp_all
  moreover have "dec = round_sig 10 28"
    by (simp add: fun_eq_iff dec_def)
  ultimately show "sig_rounding dec dec_rep" by simp
qed

interpretation flt: sig_rounding flt flt_rep
proof -
  have "sig_rounding (round_sig 2 53) (rep_sig 2 53)"
    by (rule sig_rounding_round_sig) simp_all
  moreover have "flt = round_sig 2 53"
    by (simp add: fun_eq_iff flt_def)
  ultimately show "sig_rounding flt flt_rep" by simp
qed

lemmas dec_ops = dadd_def dsub_def dmul_def ddiv_def

lemma dec_rep_of_int: "\<bar>m\<bar> \<le> 10 ^ 28 \<Longrightarrow> dec_rep (of_int m)"
  using rep_sig_of_int [of m 10 28] by simp

lemma dec_rep_frac: "\<bar>m\<bar> \<le> 10 ^ 28 \<Longrightarrow> dec_rep (of_int m / 10 ^ k)"
  using rep_sig_frac [of m 10 28 k] by simp

lemma dec_of_int: "\<bar>m\<bar> \<le> 10 ^ 28 \<Longrightarrow> dec (of_int m) = of_int m"
  by (rule dec.rnd_exact [OF dec_rep_of_int])

lemma dec_frac: "\<bar>m\<bar> \<le> 10 ^ 28 \<Longrightarrow> dec (of_int m / 10 ^ k) = of_int m / 10 ^ k"
  by (rule dec.rnd_exact [OF dec_rep_frac])

lemma dec_rep_ops [simp]:
  "dec_rep (dec x)" "dec_rep (dadd x y)" "dec_rep (dsub x y)" "dec_rep (dmul x y)" "dec_rep (ddiv x y)"
  by (simp_all add: dec_ops dec.rep_rnd)

lemma dmul_nonneg: "0 \<le> x \<Longrightarrow> 0 \<le> y \<Longrightarrow> 0 \<le> dmul x y"
  by (simp add: dmul_def dec.rnd_nonneg)

lemma ddiv_nonneg: "0 \<le> x \<Longrightarrow> 0 \<le> y \<Longrightarrow> 0 \<le> ddiv x y"
  by (simp add: ddiv_def dec.rnd_nonneg)

lemma dmul_pos: "0 < x \<Longrightarrow> 0 < y \<Longrightarrow> 0 < dmul x y"
  by (simp add: dmul_def dec.rnd_positive)

lemma ddiv_pos: "0 < x \<Longrightarrow> 0 < y \<Longrightarrow> 0 < ddiv x y"
  by (simp add: ddiv_def dec.rnd_positive)

lemma dmul_mono: "0 \<le> x \<Longrightarrow> 0 \<le> y \<Longrightarrow> x \<le> x' \<Longrightarrow> y \<le> y' \<Longrightarrow> dmul x y \<le> dmul x' y'"
  unfolding dmul_def by (intro dec.rnd_mono mult_mono) simp_all

lemma ddiv_mono: "0 < z \<Longrightarrow> x \<le> y \<Longrightarrow> ddiv x z \<le> ddiv y z"
  unfolding ddiv_def by (intro dec.rnd_mono divide_right_mono) simp_all

lemma dmul_shrink: "dec_rep x \<Longrightarrow> 0 \<le> x \<Longrightarrow> u \<le> 1 \<Longrightarrow> dmul x u \<le> x"
  unfolding dmul_def by (rule dec.rnd_shrink)

end
