(* ===== verification/Contracts.thy ===== *)
theory Contracts
  imports Rounding
begin

text \<open>
  The frozen data contracts of \<open>aats/contracts\<close> that the risk lane and the controller
  exchange: \<open>RiskConfig\<close> and \<open>BreakerState\<close> (\<open>risk.py\<close>), the intent union and its
  de-risk-only factory (\<open>intents.py\<close>), positions and the legal transitions of the
  per-position state machine (\<open>positions.py\<close>), event time, fills and decision signals.
  A pydantic class is a record together with a checking constructor \<open>mk_*\<close> that runs the
  class's validators in the source's order. The validators that reject a value of the wrong
  dynamic type (a float where an integer is required) hold here by typing.
\<close>

subsection \<open>Audit strings and identifiers\<close>

text \<open>
  An f-string is represented by its literal text and the list of the interpolated numbers; a
  deterministic identifier by its kind, the mint and its numeric components. For
  \<open>make_client_intent_id\<close> the identifier is the hashed pre-image.
\<close>

datatype audit = Audit string "rat list"

datatype client_id = Cid string mint "rat list"

subsection \<open>RiskConfig\<close>

record risk_config =
  per_trade_cap_lamports :: lamports
  max_aggregate_lamports :: lamports
  daily_risk_tranche_lamports :: lamports
  daily_loss_limit_pct :: decimal
  daily_loss_floor_lamports :: lamports
  max_slippage_bps :: bps
  snipe_threshold :: rat
  veto_threshold :: rat
  jito_tip_cap_frac :: decimal
  kelly_fraction_cap :: decimal
  n_wallets_max :: int
  blast_radius_cap_lamports :: lamports
  t_dms_seconds :: int
  pre_calibration_haircut_bps :: bps

definition default_risk_config :: risk_config where
  "default_risk_config =
     \<lparr>per_trade_cap_lamports = 100000000,
      max_aggregate_lamports = 500000000,
      daily_risk_tranche_lamports = 500000000,
      daily_loss_limit_pct = 3,
      daily_loss_floor_lamports = 300000000,
      max_slippage_bps = 300,
      snipe_threshold = 65 / 100,
      veto_threshold = 30 / 100,
      jito_tip_cap_frac = 30 / 100,
      kelly_fraction_cap = 25 / 100,
      n_wallets_max = 1,
      blast_radius_cap_lamports = 100000000,
      t_dms_seconds = 60,
      pre_calibration_haircut_bps = 150\<rparr>"

definition floor_invariants :: "risk_config \<Rightarrow> bool" where
  "floor_invariants c \<longleftrightarrow>
     per_trade_cap_lamports c \<le> 100000000 \<and>
     max_aggregate_lamports c \<le> 500000000 \<and>
     daily_loss_limit_pct c \<le> 3 \<and>
     kelly_fraction_cap c \<le> 25 / 100 \<and>
     jito_tip_cap_frac c \<le> 30 / 100 \<and>
     150 \<le> pre_calibration_haircut_bps c"

definition mk_RiskConfig :: "risk_config \<Rightarrow> risk_config result" where
  "mk_RiskConfig c = (if floor_invariants c then Inr c else Inl ValueError)"

subsection \<open>BreakerState\<close>

datatype breaker_status = ARMED | TRIPPED

text \<open>
  A UTC day key \<open>'YYYY-MM-DD'\<close> is its number of days since the epoch; the ISO time of a trip is
  the block time in milliseconds it was formatted from.
\<close>

record breaker_state =
  status :: breaker_status
  tripped_at_utc :: "millis option"
  daily_net_pnl_lamports :: lamports
  daily_net_pnl_day_utc :: "int option"
  threshold_breached :: "audit option"

definition mk_BreakerState :: "breaker_state \<Rightarrow> breaker_state result" where
  "mk_BreakerState s =
     (if status s = TRIPPED \<and> tripped_at_utc s = None then Inl ValueError
      else if status s = TRIPPED \<and> threshold_breached s = None then Inl ValueError
      else if daily_net_pnl_lamports s \<noteq> 0 \<and> daily_net_pnl_day_utc s = None then Inl ValueError
      else Inr s)"

definition breaker_state_ok :: "breaker_state \<Rightarrow> bool" where
  "breaker_state_ok s \<longleftrightarrow>
     (status s = TRIPPED \<longrightarrow> tripped_at_utc s \<noteq> None \<and> threshold_breached s \<noteq> None) \<and>
     (daily_net_pnl_lamports s \<noteq> 0 \<longrightarrow> daily_net_pnl_day_utc s \<noteq> None)"

lemma mk_BreakerState_iff: "mk_BreakerState s = Inr t \<longleftrightarrow> t = s \<and> breaker_state_ok s"
  by (auto simp: mk_BreakerState_def breaker_state_ok_def)

subsection \<open>Event time\<close>

record event_time =
  slot :: int
  block_time_ms :: millis
  wall_clock_ms :: millis

definition mk_EventTime :: "event_time \<Rightarrow> event_time result" where
  "mk_EventTime t =
     (if slot t < 0 \<or> block_time_ms t < 0 \<or> wall_clock_ms t < 0 then Inl ValueError
      else if block_time_ms t = 0 then Inl ValueError
      else Inr t)"

subsection \<open>Cost stack and intents\<close>

record cost_stack =
  expected_edge_bps :: bps
  jito_tip_bps :: bps
  priority_fee_bps :: bps
  cs_entry_slippage_bps :: bps
  amm_fee_bps :: bps
  exit_slippage_bps :: bps
  adverse_selection_bps :: bps
  total_cost_bps :: bps

definition mk_CostStack :: "cost_stack \<Rightarrow> cost_stack result" where
  "mk_CostStack cs = (if adverse_selection_bps cs < 150 then Inl ValueError else Inr cs)"

datatype exit_mode = Secure | Fast

record entry_intent =
  en_client_intent_id :: client_id
  en_mint :: mint
  en_event_time :: event_time
  en_sol_in_lamports :: lamports
  en_slippage_bps :: bps
  en_tip_lamports :: lamports
  en_cu_price_microlamports :: int
  en_target_slot :: int
  en_cost_stack :: cost_stack
  en_venue :: string
  en_wallet_id :: string

definition mk_EntryIntent :: "entry_intent \<Rightarrow> entry_intent result" where
  "mk_EntryIntent i =
     (if en_target_slot i < slot (en_event_time i) + 5 then Inl ValueError
      else if expected_edge_bps (en_cost_stack i) \<le> total_cost_bps (en_cost_stack i)
      then Inl ValueError
      else Inr i)"

record exit_intent =
  ex_client_intent_id :: client_id
  ex_mint :: mint
  ex_fraction_bps :: bps
  ex_exit_mode :: exit_mode
  ex_reason :: audit

definition mk_ExitIntent :: "exit_intent \<Rightarrow> exit_intent result" where
  "mk_ExitIntent i =
     (if 0 \<le> ex_fraction_bps i \<and> ex_fraction_bps i \<le> 10000 then Inr i else Inl ValueError)"

record reduce_intent =
  rd_client_intent_id :: client_id
  rd_mint :: mint
  rd_fraction_bps :: bps
  rd_reason :: audit

definition mk_ReduceIntent :: "reduce_intent \<Rightarrow> reduce_intent result" where
  "mk_ReduceIntent i =
     (if 1 \<le> rd_fraction_bps i \<and> rd_fraction_bps i \<le> 10000 then Inr i else Inl ValueError)"

record veto_intent =
  vt_client_intent_id :: client_id
  vt_mint :: mint
  vt_reason :: audit

text \<open>The closed union of what reaches execution; the only risk-increasing variant is \<open>Entry\<close>.\<close>

datatype intent =
    Entry entry_intent
  | Exit exit_intent
  | Reduce reduce_intent
  | Veto veto_intent

fun derisk_intent :: "intent \<Rightarrow> bool" where
  "derisk_intent (Entry _) = False"
| "derisk_intent (Exit i) = (0 \<le> ex_fraction_bps i \<and> ex_fraction_bps i \<le> 10000)"
| "derisk_intent (Reduce i) = (1 \<le> rd_fraction_bps i \<and> rd_fraction_bps i \<le> 10000)"
| "derisk_intent (Veto _) = True"

text \<open>\<open>DeRiskIntentFactory\<close>: the three constructors the de-risk path is handed.\<close>

definition factory_exit :: "client_id \<Rightarrow> mint \<Rightarrow> bps \<Rightarrow> exit_mode \<Rightarrow> audit \<Rightarrow> intent result" where
  "factory_exit cid m fr mode why =
     map_sum id Exit
       (mk_ExitIntent \<lparr>ex_client_intent_id = cid, ex_mint = m, ex_fraction_bps = fr,
                       ex_exit_mode = mode, ex_reason = why\<rparr>)"

definition factory_reduce :: "client_id \<Rightarrow> mint \<Rightarrow> bps \<Rightarrow> audit \<Rightarrow> intent result" where
  "factory_reduce cid m fr why =
     map_sum id Reduce
       (mk_ReduceIntent \<lparr>rd_client_intent_id = cid, rd_mint = m, rd_fraction_bps = fr,
                         rd_reason = why\<rparr>)"

definition factory_veto :: "client_id \<Rightarrow> mint \<Rightarrow> audit \<Rightarrow> intent result" where
  "factory_veto cid m why =
     Inr (Veto \<lparr>vt_client_intent_id = cid, vt_mint = m, vt_reason = why\<rparr>)"

subsection \<open>Fills, signals and launch events\<close>

record fill_result =
  landed :: bool
  fl_reason :: string
  tokens_out :: int
  effective_price :: decimal
  fl_entry_slippage_bps :: bps

record decision_signal =
  sg_mint :: mint
  p_calibrated :: rat
  uncertainty :: rat
  surface :: string

record launch_event =
  le_mint :: mint
  le_event_time :: event_time
  sol_reserve_lamports :: lamports
  token_reserve_base :: int
  data_staleness_ms :: millis

subsection \<open>Positions and the per-position state machine\<close>

datatype fsm_state = IDLE | ENTERING | OPEN | CLOSING | CLOSED | VETOED

definition FSM_LEGAL_TRANSITIONS :: "(fsm_state \<times> fsm_state) set" where
  "FSM_LEGAL_TRANSITIONS =
     {(IDLE, ENTERING), (ENTERING, OPEN), (ENTERING, VETOED), (OPEN, CLOSING), (CLOSING, CLOSED)}"

definition validate_fsm_transition :: "fsm_state \<Rightarrow> fsm_state \<Rightarrow> unit result" where
  "validate_fsm_transition cur nxt =
     (if (cur, nxt) \<in> FSM_LEGAL_TRANSITIONS then Inr () else Inl ValueError)"

datatype pos_status = Open_status | Closed_status

datatype completeness = Complete | Censored

record position =
  pos_mint :: mint
  pos_token :: string
  pos_surface :: string
  fsm_state :: fsm_state
  entry_slot :: int
  sol_in_lamports :: lamports
  tokens_out_base :: int
  entry_slippage_bps :: bps
  exit_config_label :: string
  pos_exit_mode :: exit_mode
  tp_hit :: int
  tp_total :: int
  trailing_armed :: bool
  hard_stop_price_lamports :: lamports
  realized_pnl_net_lamports :: "lamports option"
  unrealized_pnl_net_lamports :: lamports
  cost_breakdown :: cost_stack
  pos_status :: pos_status
  completeness_status :: completeness

definition mk_Position :: "position \<Rightarrow> position result" where
  "mk_Position p =
     (if pos_status p = Closed_status \<and> realized_pnl_net_lamports p = None
      then Inl ValueError else Inr p)"

subsection \<open>Facts about the contracts\<close>

lemma mk_EntryIntent_iff:
  "mk_EntryIntent i = Inr j \<longleftrightarrow>
     j = i \<and> slot (en_event_time i) + 5 \<le> en_target_slot i \<and>
     total_cost_bps (en_cost_stack i) < expected_edge_bps (en_cost_stack i)"
  by (auto simp: mk_EntryIntent_def)

lemma factory_exit_iff:
  "factory_exit cid m fr mode why = Inr x \<longleftrightarrow>
     0 \<le> fr \<and> fr \<le> 10000 \<and>
     x = Exit \<lparr>ex_client_intent_id = cid, ex_mint = m, ex_fraction_bps = fr,
               ex_exit_mode = mode, ex_reason = why\<rparr>"
  by (auto simp: factory_exit_def mk_ExitIntent_def)

lemma factory_reduce_iff:
  "factory_reduce cid m fr why = Inr x \<longleftrightarrow>
     1 \<le> fr \<and> fr \<le> 10000 \<and>
     x = Reduce \<lparr>rd_client_intent_id = cid, rd_mint = m, rd_fraction_bps = fr, rd_reason = why\<rparr>"
  by (auto simp: factory_reduce_def mk_ReduceIntent_def)

lemmas factory_iffs = factory_exit_iff factory_reduce_iff

lemma factory_derisk [derisk_simps]:
  "factory_exit cid m fr mode why = Inr x \<Longrightarrow> derisk_intent x"
  "factory_reduce cid m fr why = Inr x \<Longrightarrow> derisk_intent x"
  "factory_veto cid m why = Inr x \<Longrightarrow> derisk_intent x"
  by (auto simp: factory_iffs factory_veto_def)

lemma validate_fsm_transition_iff:
  "validate_fsm_transition cur nxt = Inr u \<longleftrightarrow>
     cur = IDLE \<and> nxt = ENTERING \<or> cur = ENTERING \<and> nxt = OPEN \<or> cur = ENTERING \<and> nxt = VETOED \<or>
     cur = OPEN \<and> nxt = CLOSING \<or> cur = CLOSING \<and> nxt = CLOSED"
  by (auto simp: validate_fsm_transition_def FSM_LEGAL_TRANSITIONS_def)

subsection \<open>Sample values\<close>

definition demo_position :: position where
  "demo_position =
     \<lparr>pos_mint = ''m'', pos_token = ''m'', pos_surface = ''pump'', fsm_state = OPEN, entry_slot = 1,
      sol_in_lamports = 1000, tokens_out_base = 10, entry_slippage_bps = 0,
      exit_config_label = ''secure_balanced'', pos_exit_mode = Secure, tp_hit = 0, tp_total = 3,
      trailing_armed = False, hard_stop_price_lamports = 60, realized_pnl_net_lamports = None,
      unrealized_pnl_net_lamports = 0,
      cost_breakdown = \<lparr>expected_edge_bps = 300, jito_tip_bps = 0, priority_fee_bps = 0,
        cs_entry_slippage_bps = 0, amm_fee_bps = 0, exit_slippage_bps = 0, adverse_selection_bps = 150,
        total_cost_bps = 150\<rparr>,
      pos_status = Open_status, completeness_status = Complete\<rparr>"

definition demo_fill :: fill_result where
  "demo_fill = \<lparr>landed = True, fl_reason = ''ok'', tokens_out = 10, effective_price = 60,
                fl_entry_slippage_bps = 0\<rparr>"

end
