(* ===== verification/Interfaces.thy ===== *)
theory Interfaces
  imports Contracts
begin

text \<open>
  The contracts that several components of the risk lane promise their callers, as locales.
  \<open>ratchet\<close>: a step may move a level in one direction only (a stop may only tighten, a floor
  may only rise, a latch may only close). \<open>derisk_stage\<close>: a step emits intents that only shed
  risk. Each component interprets them on its own step function, in its own theory.
\<close>

subsection \<open>Levels that move one way\<close>

locale ratchet =
  fixes step :: "'s \<Rightarrow> 'e \<Rightarrow> 's" and level :: "'s \<Rightarrow> 'l::linorder" and inv :: "'s \<Rightarrow> bool"
  assumes step_level: "inv s \<Longrightarrow> level s \<le> level (step s e)"
    and step_inv: "inv s \<Longrightarrow> inv (step s e)"
begin

lemma run_inv: "inv s \<Longrightarrow> inv (foldl step s es)"
  by (induction es arbitrary: s) (simp_all add: step_inv)

lemma run_level: "inv s \<Longrightarrow> level s \<le> level (foldl step s es)"
proof (induction es arbitrary: s)
  case (Cons e es)
  have "level s \<le> level (step s e)" using Cons.prems by (rule step_level)
  also have "\<dots> \<le> level (foldl step (step s e) es)"
    using Cons.prems by (intro Cons.IH step_inv)
  finally show ?case by simp
qed simp

lemma run_level_suffix: "inv s \<Longrightarrow> level (foldl step s es) \<le> level (foldl step s (es @ es'))"
  using run_level [OF run_inv [of s es], of es'] by simp

end

subsection \<open>Stages that only shed risk\<close>

locale derisk_stage =
  fixes decide :: "'s \<Rightarrow> 'i \<Rightarrow> ('s \<times> intent list) result" and inv :: "'s \<Rightarrow> bool"
  assumes decide_derisk: "inv s \<Longrightarrow> decide s i = Inr (t, out) \<Longrightarrow> \<forall>x \<in> set out. derisk_intent x"
    and decide_inv: "inv s \<Longrightarrow> decide s i = Inr (t, out) \<Longrightarrow> inv t"
begin

fun run :: "'s \<Rightarrow> 'i list \<Rightarrow> ('s \<times> intent list) result" where
  "run s [] = Inr (s, [])"
| "run s (i # is) =
     rbind (decide s i) (\<lambda>(t, out). rbind (run t is) (\<lambda>(u, out'). Inr (u, out @ out')))"

lemma run_derisk: "inv s \<Longrightarrow> run s is = Inr (t, out) \<Longrightarrow> inv t \<and> (\<forall>x \<in> set out. derisk_intent x)"
proof (induction "is" arbitrary: s t out)
  case (Cons i "is")
  then obtain u o1 o2 where step: "decide s i = Inr (u, o1)" and rest: "run u is = Inr (t, o2)"
    and out: "out = o1 @ o2"
    by (auto simp: result_simps split: prod.splits)
  from step Cons.prems(1) have "inv u" and "\<forall>x \<in> set o1. derisk_intent x"
    using decide_inv decide_derisk by blast+
  with Cons.IH [OF \<open>inv u\<close> rest] out show ?case by auto
qed simp

end

subsection \<open>Cells with a time to live\<close>

text \<open>
  The contract of a keyed flag or value that expires: \<open>put\<close> stores a value for \<open>ttl\<close> seconds,
  \<open>get\<close> reads it at a clock reading and may drop an expired entry. A read changes no later read.
  \<open>valid\<close> is the payload check of \<open>put\<close>.
\<close>

locale ttl_cell =
  fixes put :: "'s \<Rightarrow> 'k \<Rightarrow> 'v \<Rightarrow> int \<Rightarrow> millis \<Rightarrow> 's"
    and get :: "'s \<Rightarrow> 'k \<Rightarrow> millis \<Rightarrow> 's \<times> 'v option"
    and valid :: "'v \<Rightarrow> bool"
  assumes get_put_live: "valid v \<Longrightarrow> t < now + ttl * 1000 \<Longrightarrow> snd (get (put s k v ttl now) k t) = Some v"
    and get_put_expired: "valid v \<Longrightarrow> now + ttl * 1000 \<le> t \<Longrightarrow> snd (get (put s k v ttl now) k t) = None"
    and get_put_other: "k' \<noteq> k \<Longrightarrow> snd (get (put s k v ttl now) k' t) = snd (get s k' t)"
    and get_get: "t \<le> t' \<Longrightarrow> snd (get (fst (get s k t)) k' t') = snd (get s k' t')"
begin

lemma reads_invisible:
  "\<forall>(k, t) \<in> set reads. t \<le> now \<Longrightarrow>
     snd (get (foldl (\<lambda>s (k, t). fst (get s k t)) s reads) k' now) = snd (get s k' now)"
  by (induction reads arbitrary: s) (auto simp: get_get)

lemma get_put_reads:
  assumes "\<forall>(k, t) \<in> set reads. t \<le> t'" and "valid v"
  shows "snd (get (foldl (\<lambda>s (k, t). fst (get s k t)) (put s k v ttl now) reads) k t') =
    (if t' < now + ttl * 1000 then Some v else None)"
  by (simp add: reads_invisible [OF assms(1)] get_put_live [OF assms(2)] get_put_expired [OF assms(2)])

end

subsection \<open>Claims that are granted once per window\<close>

text \<open>
  The contract of an atomic set-if-absent with expiry: a granted claim refuses every other claim
  on its key until it expires, a refused claim changes nothing, and keys do not interfere.
\<close>

locale once_window =
  fixes claim :: "'s \<Rightarrow> 'k \<Rightarrow> 'v \<Rightarrow> int \<Rightarrow> millis \<Rightarrow> 's \<times> bool"
    and held :: "'s \<Rightarrow> 'k \<Rightarrow> millis \<Rightarrow> bool"
  assumes claim_granted_iff: "snd (claim s k v ttl now) \<longleftrightarrow> \<not> held s k now"
    and claim_holds: "snd (claim s k v ttl now) \<Longrightarrow>
          held (fst (claim s k v ttl now)) k t \<longleftrightarrow> t < now + ttl * 1000"
    and claim_refused: "\<not> snd (claim s k v ttl now) \<Longrightarrow> held (fst (claim s k v ttl now)) k t = held s k t"
    and claim_other: "k' \<noteq> k \<Longrightarrow> held (fst (claim s k v ttl now)) k' t = held s k' t"
begin

text \<open>The grants of a sequence of claims (key, value, time to live, clock reading).\<close>

fun grants :: "'s \<Rightarrow> ('k \<times> 'v \<times> int \<times> millis) list \<Rightarrow> bool list" where
  "grants s [] = []"
| "grants s ((k, v, ttl, now) # cs) = snd (claim s k v ttl now) # grants (fst (claim s k v ttl now)) cs"

lemma grants_none:
  "\<forall>(k', v, ttl, t) \<in> set cs. k' = k \<and> held s k t \<Longrightarrow> grants s cs = replicate (length cs) False"
proof (induction cs arbitrary: s)
  case (Cons c cs)
  obtain k' v ttl t where c: "c = (k', v, ttl, t)" by (cases c)
  with Cons.prems have k: "k' = k" and "held s k t" by auto
  then have no: "\<not> snd (claim s k v ttl t)" by (simp add: claim_granted_iff)
  then have "\<forall>(k', v', ttl', t') \<in> set cs. k' = k \<and> held (fst (claim s k v ttl t)) k t'"
    using Cons.prems by (simp add: claim_refused)
  from Cons.IH [OF this] no c k show ?case by simp
qed simp

lemma grants_at_most_one:
  assumes "\<forall>(k', v, ttl, t) \<in> set cs. k' = k" and "\<not> held s k now"
    and "cs = (k, v0, ttl0, now) # cs'" and "\<forall>(k', v, ttl, t) \<in> set cs'. t < now + ttl0 * 1000"
  shows "grants s cs = True # replicate (length cs') False"
proof -
  have g: "snd (claim s k v0 ttl0 now)" using assms(2) by (simp add: claim_granted_iff)
  then have "grants (fst (claim s k v0 ttl0 now)) cs' = replicate (length cs') False"
    using assms(1,3,4) by (intro grants_none [where k = k]) (auto simp: claim_holds)
  with g assms(3) show ?thesis by simp
qed

end

subsection \<open>Position stores\<close>

text \<open>The contract of the live position table: keyed by the position's own mint.\<close>

locale position_store =
  fixes save :: "'s \<Rightarrow> position \<Rightarrow> 's" and load :: "'s \<Rightarrow> mint \<Rightarrow> position option"
    and del :: "'s \<Rightarrow> mint \<Rightarrow> 's"
  assumes load_save: "load (save s p) m = (if m = pos_mint p then Some p else load s m)"
    and load_del: "load (del s m') m = (if m = m' then None else load s m)"
begin

lemma save_twice: "pos_mint p = pos_mint q \<Longrightarrow> load (save (save s p) q) m = load (save s q) m"
  by (simp add: load_save)

lemma save_del: "load (del (save s p) (pos_mint p)) m = load (del s (pos_mint p)) m"
  by (simp add: load_save load_del)

end

subsection \<open>Sizing engines\<close>

text \<open>
  What the SNIPE loop relies on from the sizing engine it is given: a returned size respects the
  per-trade cap and the aggregate headroom.
\<close>

locale sizing_engine =
  fixes compute_size :: "rat \<Rightarrow> rat \<Rightarrow> lamports \<Rightarrow> risk_config \<Rightarrow> lamports result"
  assumes size_headroom: "compute_size p u agg c = Inr sol \<Longrightarrow> agg + sol \<le> max agg (max_aggregate_lamports c)"
    and size_cap: "compute_size p u agg c = Inr sol \<Longrightarrow> sol \<le> max 0 (per_trade_cap_lamports c)"
begin

lemma size_within_cap: "compute_size p u agg c = Inr sol \<Longrightarrow> agg \<le> max_aggregate_lamports c \<Longrightarrow>
  agg + sol \<le> max_aggregate_lamports c"
  using size_headroom [of p u agg c sol] by simp

end

subsection \<open>Gates that run an ordered list of checks\<close>

text \<open>
  What the pre-trade gates promise: \<open>check t i c\<close> is the hit check \<open>c\<close> reports on input \<open>i\<close> under the
  thresholds \<open>t\<close>, \<open>order\<close> the order of the checks, \<open>tighter t t'\<close> says that \<open>t'\<close> is at least as strict.
  The fast path and the audit path then agree on the verdict, the fast path reports the first hit
  of the audit path, and a stricter gate passes no more inputs.
\<close>

locale ordered_gate =
  fixes check :: "'t \<Rightarrow> 'i \<Rightarrow> 'c \<Rightarrow> 'h option" and order :: "'c list"
    and tighter :: "'t \<Rightarrow> 't \<Rightarrow> bool"
  assumes check_tighter: "tighter t t' \<Longrightarrow> check t i c \<noteq> None \<Longrightarrow> check t' i c \<noteq> None"
begin

definition fast :: "'t \<Rightarrow> 'i \<Rightarrow> 'h list" where
  "fast t i = opt_list (first_hit (check t i) order)"

definition scan :: "'t \<Rightarrow> 'i \<Rightarrow> 'h list" where
  "scan t i = all_hits (check t i) order"

lemma fast_take_scan: "fast t i = take 1 (scan t i)"
  by (simp add: fast_def scan_def first_hit_all_hits split: list.splits)

lemma fast_empty_iff: "fast t i = [] \<longleftrightarrow> scan t i = []"
  by (simp add: fast_take_scan)

lemma scan_empty_iff: "scan t i = [] \<longleftrightarrow> (\<forall>c \<in> set order. check t i c = None)"
  by (simp add: scan_def all_hits_empty_iff)

lemma tighter_passes_less: "tighter t t' \<Longrightarrow> scan t' i = [] \<Longrightarrow> scan t i = []"
  unfolding scan_empty_iff by (metis check_tighter)

end

subsection \<open>Conviction multipliers\<close>

text \<open>
  What the down-weighting gates promise: a decision carries a multiplier in the unit interval, zero
  when it rejects and one when it passes, and \<open>apply\<close> scales a size by it, rounding down. A size that
  went through any number of such decisions is then never above the original, and one rejection
  takes it to zero.
\<close>

locale conviction_gate =
  fixes mult :: "'d \<Rightarrow> decimal" and rejected :: "'d \<Rightarrow> bool" and ok :: "'d \<Rightarrow> bool"
    and apply_size :: "'d \<Rightarrow> lamports \<Rightarrow> lamports result"
  assumes mult_unit: "ok d \<Longrightarrow> 0 \<le> mult d \<and> mult d \<le> 1"
    and rejected_zero: "ok d \<Longrightarrow> rejected d \<Longrightarrow> mult d = 0"
    and apply_def_ok: "0 \<le> n \<Longrightarrow> apply_size d n = Inr (min \<lfloor>dmul (of_int n) (mult d)\<rfloor> n)"
begin

lemma apply_bounds:
  assumes "ok d" and "0 \<le> n" and "apply_size d n = Inr m"
  shows "0 \<le> m \<and> m \<le> n" and "rejected d \<Longrightarrow> m = 0"
proof -
  have m: "m = min \<lfloor>dmul (of_int n) (mult d)\<rfloor> n"
    using assms(2,3) by (simp add: apply_def_ok)
  have "0 \<le> dmul (of_int n) (mult d)"
    using mult_unit [OF assms(1)] assms(2) by (intro dmul_nonneg) simp_all
  with m assms(2) show "0 \<le> m \<and> m \<le> n" by simp
  show "m = 0" if "rejected d"
    using rejected_zero [OF assms(1) that] m assms(2) by (simp add: dmul_def dec.rnd_0)
qed

fun apply_all :: "'d list \<Rightarrow> lamports \<Rightarrow> lamports result" where
  "apply_all [] n = Inr n"
| "apply_all (d # ds) n = rbind (apply_size d n) (apply_all ds)"

lemma apply_all_bounds:
  "\<forall>d \<in> set ds. ok d \<Longrightarrow> 0 \<le> n \<Longrightarrow>
     \<exists>m. apply_all ds n = Inr m \<and> 0 \<le> m \<and> m \<le> n \<and> ((\<exists>d \<in> set ds. rejected d) \<longrightarrow> m = 0)"
proof (induction ds arbitrary: n)
  case (Cons d ds)
  obtain k where k: "apply_size d n = Inr k" using apply_def_ok [OF Cons.prems(2)] by blast
  from apply_bounds [OF _ Cons.prems(2) k] Cons.prems(1)
  have kb: "0 \<le> k" "k \<le> n" and kr: "rejected d \<Longrightarrow> k = 0" by simp_all
  from Cons.IH [OF _ kb(1)] Cons.prems(1) obtain m where
    m: "apply_all ds k = Inr m" "0 \<le> m" "m \<le> k" "(\<exists>d \<in> set ds. rejected d) \<longrightarrow> m = 0" by auto
  with k kb kr show ?case by auto
qed simp

end

end
