(* ===== verification/Stop_Rules.thy ===== *)
theory Stop_Rules
  imports Interfaces
begin

text \<open>
  The survivable hard stop (\<open>aats/risk/survivable_stop.py\<close>), the ordered rule engine
  (\<open>aats/risk/rule_engine.py\<close>) and the in-process stop enforcer
  (\<open>aats/risk/secondary_enforcer.py\<close>). Prices are Decimals, kept as the rationals of theory
  \<open>Rounding\<close>; the venue that executes an exit is a function parameter.
\<close>

subsection \<open>The stop state\<close>

record stop_state =
  st_mint :: mint
  st_entry_fill_price :: decimal
  trigger_price :: decimal
  hard_stop_drawdown_bps :: bps

definition mk_StopThresholds :: "bps \<Rightarrow> bps result" where
  "mk_StopThresholds d = (if 0 < d \<and> d \<le> 10000 then Inr d else Inl ValueError)"

definition derive_stop_trigger_price :: "decimal \<Rightarrow> bps \<Rightarrow> decimal result" where
  "derive_stop_trigger_price entry drawdown =
     (if entry \<le> 0 then Inl ValueError
      else Inr (dmul entry (ddiv (dsub 10000 (of_int drawdown)) 10000)))"

definition mk_StopState :: "stop_state \<Rightarrow> stop_state result" where
  "mk_StopState s =
     (if trigger_price s \<le> 0 then Inl ValueError
      else if trigger_price s > st_entry_fill_price s then Inl ValueError
      else Inr s)"

definition stop_at_entry :: "mint \<Rightarrow> decimal \<Rightarrow> bps option \<Rightarrow> stop_state result" where
  "stop_at_entry m entry thresholds =
     (let th = (case thresholds of None \<Rightarrow> 4000 | Some d \<Rightarrow> d) in
      rbind (derive_stop_trigger_price entry th) (\<lambda>trigger.
      mk_StopState \<lparr>st_mint = m, st_entry_fill_price = entry, trigger_price = trigger,
                    hard_stop_drawdown_bps = th\<rparr>))"

definition is_breached :: "stop_state \<Rightarrow> decimal \<Rightarrow> bool" where
  "is_breached s mark \<longleftrightarrow> mark \<le> trigger_price s"

definition tighten :: "stop_state \<Rightarrow> decimal \<Rightarrow> stop_state result" where
  "tighten s proposed =
     (if proposed < trigger_price s then Inl ValueError
      else if proposed = trigger_price s then Inr s
      else if proposed > st_entry_fill_price s then Inl ValueError
      else mk_StopState (s\<lparr>trigger_price := proposed\<rparr>))"

definition stop_ok :: "stop_state \<Rightarrow> bool" where
  "stop_ok s \<longleftrightarrow> 0 < trigger_price s \<and> trigger_price s \<le> st_entry_fill_price s"

text \<open>A caller that proposes a new trigger and keeps the old stop when the proposal is refused.\<close>

definition try_tighten :: "stop_state \<Rightarrow> decimal \<Rightarrow> stop_state" where
  "try_tighten s proposed = (case tighten s proposed of Inl _ \<Rightarrow> s | Inr t \<Rightarrow> t)"

subsection \<open>The rule engine\<close>

datatype rule_priority = RP_NARRATIVE_FAILURE | RP_HARD_STOP | RP_TAKE_PROFIT

datatype rule_outcome_kind = NO_OP | FULL_EXIT | SCALE_OUT

record tp_level =
  tp_trigger_price :: decimal
  tp_fraction_bps :: bps

definition mk_TakeProfitLevel :: "tp_level \<Rightarrow> tp_level result" where
  "mk_TakeProfitLevel l =
     (if tp_trigger_price l \<le> 0 then Inl ValueError
      else if \<not> (1 \<le> tp_fraction_bps l \<and> tp_fraction_bps l \<le> 9999) then Inl ValueError
      else Inr l)"

definition is_hit :: "decimal \<Rightarrow> tp_level \<Rightarrow> bool" where
  "is_hit mark l \<longleftrightarrow> tp_trigger_price l \<le> mark"

record rule_inputs =
  ri_mint :: mint
  ri_block_time_ms :: millis
  ri_mark_price :: decimal
  ri_stop :: stop_state
  narrative_failure_flag :: bool
  take_profit_levels :: "tp_level list"

definition mk_RuleInputs :: "rule_inputs \<Rightarrow> rule_inputs result" where
  "mk_RuleInputs i =
     (if ri_block_time_ms i < 0 then Inl ValueError
      else if st_mint (ri_stop i) \<noteq> ri_mint i then Inl ValueError
      else Inr i)"

record rule_outcome =
  ro_kind :: rule_outcome_kind
  ro_intent :: "intent option"
  ro_priority :: "rule_priority option"
  ro_reason :: audit

definition rule_full_exit :: "rule_inputs \<Rightarrow> rule_priority \<Rightarrow> string \<Rightarrow> audit \<Rightarrow> rule_outcome result" where
  "rule_full_exit i prio prio_name why =
     rbind (factory_exit (Cid (''rule_exit:'' @ prio_name) (ri_mint i) [of_int (ri_block_time_ms i)])
              (ri_mint i) 10000 Secure why) (\<lambda>x.
     Inr \<lparr>ro_kind = FULL_EXIT, ro_intent = Some x, ro_priority = Some prio, ro_reason = why\<rparr>)"

definition rule_scale_out :: "rule_inputs \<Rightarrow> tp_level \<Rightarrow> rule_outcome result" where
  "rule_scale_out i level =
     (let why = Audit ''take_profit_hit''
                  [ri_mark_price i, tp_trigger_price level, of_int (tp_fraction_bps level)] in
      rbind (factory_reduce (Cid ''rule_tp'' (ri_mint i) [of_int (ri_block_time_ms i), tp_trigger_price level])
               (ri_mint i) (tp_fraction_bps level) why) (\<lambda>x.
      Inr \<lparr>ro_kind = SCALE_OUT, ro_intent = Some x, ro_priority = Some RP_TAKE_PROFIT,
           ro_reason = why\<rparr>))"

text \<open>Python's \<open>max(hit, key=...)\<close>: the first element with the largest key.\<close>

fun max_level :: "tp_level \<Rightarrow> tp_level list \<Rightarrow> tp_level" where
  "max_level best [] = best"
| "max_level best (l # ls) =
     max_level (if tp_trigger_price l > tp_trigger_price best then l else best) ls"

definition rule_evaluate :: "rule_inputs \<Rightarrow> rule_outcome result" where
  "rule_evaluate i =
     (if narrative_failure_flag i
      then rule_full_exit i RP_NARRATIVE_FAILURE ''narrative_failure'' (Audit ''narrative_failure'' [])
      else if is_breached (ri_stop i) (ri_mark_price i)
      then rule_full_exit i RP_HARD_STOP ''hard_stop''
             (Audit ''hard_stop_breach'' [ri_mark_price i, trigger_price (ri_stop i)])
      else case filter (is_hit (ri_mark_price i)) (take_profit_levels i) of
          [] \<Rightarrow> Inr \<lparr>ro_kind = NO_OP, ro_intent = None, ro_priority = None,
                     ro_reason = Audit ''no_rule_fired'' []\<rparr>
        | l # ls \<Rightarrow> rule_scale_out i (max_level l ls))"

subsection \<open>The in-process enforcer\<close>

record mark_tick =
  mt_mint :: mint
  mt_mark_price :: decimal
  mt_block_time_ms :: millis

definition mk_MarkTick :: "mark_tick \<Rightarrow> mark_tick result" where
  "mk_MarkTick t = (if mt_block_time_ms t < 0 then Inl ValueError else Inr t)"

type_synonym enforcer = "(mint \<times> (stop_state \<times> position)) list"

definition enf_register :: "enforcer \<Rightarrow> stop_state \<Rightarrow> position \<Rightarrow> enforcer" where
  "enf_register e stop pos = dict_set (st_mint stop) (stop, pos) e"

definition enf_deregister :: "enforcer \<Rightarrow> mint \<Rightarrow> enforcer" where
  "enf_deregister e m = dict_pop m e"

definition enf_tighten :: "enforcer \<Rightarrow> mint \<Rightarrow> decimal \<Rightarrow> (enforcer \<times> stop_state) result" where
  "enf_tighten e m proposed =
     (case map_of e m of
        None \<Rightarrow> Inl KeyError
      | Some (stop, pos) \<Rightarrow>
          rbind (tighten stop proposed) (\<lambda>stop'. Inr (dict_set m (stop', pos) e, stop')))"

definition armed_mints :: "enforcer \<Rightarrow> mint set" where
  "armed_mints e = set (dict_keys e)"

definition enf_decide :: "enforcer \<Rightarrow> mark_tick \<Rightarrow> bool" where
  "enf_decide e t =
     (case map_of e (mt_mint t) of
        None \<Rightarrow> False
      | Some (stop, pos) \<Rightarrow> is_breached stop (mt_mark_price t))"

text \<open>
  The result is the new enforcer, the intent handed to the venue with its position (if any)
  and the venue's fill.
\<close>

definition enf_on_tick ::
    "(intent \<Rightarrow> position \<Rightarrow> fill_result) \<Rightarrow> enforcer \<Rightarrow> mark_tick \<Rightarrow>
     (enforcer \<times> (intent \<times> position) option \<times> fill_result option) result" where
  "enf_on_tick venue_exit e t =
     (if \<not> enf_decide e t then Inr (e, None, None)
      else case map_of e (mt_mint t) of
          None \<Rightarrow> Inl KeyError
        | Some (stop, pos) \<Rightarrow>
            rbind (factory_exit (Cid ''stop_exit'' (mt_mint t) [of_int (mt_block_time_ms t)])
                     (mt_mint t) 10000 Secure
                     (Audit ''hard_stop_breach'' [mt_mark_price t, trigger_price stop])) (\<lambda>x.
            Inr (dict_pop (mt_mint t) e, Some (x, pos), Some (venue_exit x pos))))"

subsection \<open>Facts about stops\<close>

lemma mk_StopState_iff: "mk_StopState s = Inr t \<longleftrightarrow> t = s \<and> stop_ok s"
  by (auto simp: mk_StopState_def stop_ok_def)

lemma tighten_Inr:
  "tighten s x = Inr t \<Longrightarrow>
     trigger_price s \<le> trigger_price t \<and> (stop_ok s \<longrightarrow> stop_ok t) \<and>
     st_mint t = st_mint s \<and> st_entry_fill_price t = st_entry_fill_price s"
  by (auto simp: tighten_def mk_StopState_iff split: if_splits)

lemma tighten_accepts_iff:
  "stop_ok s \<Longrightarrow>
     (\<exists>t. tighten s x = Inr t) \<longleftrightarrow> trigger_price s \<le> x \<and> x \<le> st_entry_fill_price s"
  by (auto simp: tighten_def mk_StopState_iff stop_ok_def)

lemma try_tighten_facts:
  "trigger_price s \<le> trigger_price (try_tighten s x)"
  "stop_ok s \<Longrightarrow> stop_ok (try_tighten s x)"
  "st_mint (try_tighten s x) = st_mint s"
  "st_entry_fill_price (try_tighten s x) = st_entry_fill_price s"
  by (auto simp: try_tighten_def split: sum.splits dest: tighten_Inr)

interpretation stop_ratchet: ratchet try_tighten trigger_price stop_ok
  by unfold_locales (simp_all add: try_tighten_facts)

lemma run_tighten_frame:
  "st_mint (foldl try_tighten s xs) = st_mint s \<and>
   st_entry_fill_price (foldl try_tighten s xs) = st_entry_fill_price s"
  by (induction xs arbitrary: s) (simp_all add: try_tighten_facts)

lemma stop_factor_unit:
  assumes "0 < d" and "d < 10000"
  shows "0 < ddiv (dsub 10000 (of_int d)) 10000 \<and> ddiv (dsub 10000 (of_int d)) 10000 \<le> 1"
proof -
  have "dsub 10000 (of_int d) = of_int (10000 - d)"
    unfolding dsub_def using dec_of_int [of "10000 - d"] assms by simp
  then show ?thesis
    using assms by (auto simp: ddiv_def dec.rnd_positive intro!: dec.rnd_le_rep dec.rep_1)
qed

lemma stop_at_entry_returns:
  assumes "0 < entry" and "dec_rep entry" and "0 < d" and "d < 10000"
  shows "\<exists>s. stop_at_entry m entry (Some d) = Inr s \<and> stop_ok s \<and> st_mint s = m \<and>
    st_entry_fill_price s = entry \<and>
    trigger_price s = dmul entry (ddiv (dsub 10000 (of_int d)) 10000)"
proof -
  have "0 < dmul entry (ddiv (dsub 10000 (of_int d)) 10000)"
    and "dmul entry (ddiv (dsub 10000 (of_int d)) 10000) \<le> entry"
    using stop_factor_unit [OF assms(3,4)] assms by (auto intro: dmul_pos dmul_shrink)
  then show ?thesis
    using assms by (simp add: stop_at_entry_def derive_stop_trigger_price_def mk_StopState_def stop_ok_def)
qed

subsection \<open>Facts about the rule engine\<close>

lemma max_level_in: "max_level l ls \<in> set (l # ls)"
  by (induction l ls rule: max_level.induct) auto

lemma max_level_ge: "tp_trigger_price l \<le> tp_trigger_price (max_level l ls)"
  by (induction l ls rule: max_level.induct) (auto intro: order.trans less_imp_le)

lemma max_level_max: "x \<in> set (l # ls) \<Longrightarrow> tp_trigger_price x \<le> tp_trigger_price (max_level l ls)"
proof (induction l ls rule: max_level.induct)
  case (2 best l ls)
  let ?b = "if tp_trigger_price l > tp_trigger_price best then l else best"
  consider "x = best \<or> x = l" | "x \<in> set ls" using "2.prems" by auto
  then show ?case
  proof cases
    case 1
    then have "tp_trigger_price x \<le> tp_trigger_price ?b" by auto
    with max_level_ge [of ?b ls] show ?thesis by simp
  next
    case 2
    with "2.IH" show ?thesis by simp
  qed
qed simp

lemma rule_full_exit_eq:
  "rule_full_exit i prio name why = Inr
     \<lparr>ro_kind = FULL_EXIT,
      ro_intent = Some (Exit \<lparr>ex_client_intent_id =
          Cid (''rule_exit:'' @ name) (ri_mint i) [of_int (ri_block_time_ms i)],
        ex_mint = ri_mint i, ex_fraction_bps = 10000, ex_exit_mode = Secure, ex_reason = why\<rparr>),
      ro_priority = Some prio, ro_reason = why\<rparr>"
  by (simp add: rule_full_exit_def factory_exit_def mk_ExitIntent_def)

lemma rule_scale_out_iff:
  "rule_scale_out i l = Inr out \<Longrightarrow>
     ro_kind out = SCALE_OUT \<and> ro_priority out = Some RP_TAKE_PROFIT \<and>
     (\<exists>r. ro_intent out = Some (Reduce r) \<and> rd_mint r = ri_mint i \<and>
          rd_fraction_bps r = tp_fraction_bps l \<and> 1 \<le> tp_fraction_bps l \<and> tp_fraction_bps l \<le> 10000)"
  by (auto simp: rule_scale_out_def Let_def result_simps factory_reduce_iff)

lemma rule_scale_out_returns:
  "1 \<le> tp_fraction_bps l \<Longrightarrow> tp_fraction_bps l \<le> 9999 \<Longrightarrow> \<exists>out. rule_scale_out i l = Inr out"
  by (auto simp: rule_scale_out_def Let_def factory_reduce_def mk_ReduceIntent_def)

text \<open>The engine as a de-risk stage: it keeps no state and emits at most one intent.\<close>

definition rule_stage :: "unit \<Rightarrow> rule_inputs \<Rightarrow> (unit \<times> intent list) result" where
  "rule_stage u i =
     rbind (rule_evaluate i) (\<lambda>out. Inr ((), case ro_intent out of None \<Rightarrow> [] | Some x \<Rightarrow> [x]))"

lemma rule_evaluate_derisk:
  "rule_evaluate i = Inr out \<Longrightarrow> ro_intent out = Some x \<Longrightarrow> derisk_intent x"
  by (auto simp: rule_evaluate_def rule_full_exit_eq split: if_splits list.splits
      dest!: rule_scale_out_iff)

interpretation rules: derisk_stage rule_stage "\<lambda>_. True"
  by unfold_locales
    (auto simp: rule_stage_def result_simps rule_evaluate_derisk split: option.splits)

subsection \<open>Properties\<close>

text \<open>
  A hard stop is tighten-only: after any sequence of proposals, accepted or refused, the
  trigger is at least the original one and at most the entry price, mint and entry price are
  unchanged, and every mark that breached the original stop still breaches it.
\<close>

theorem stop_never_widens:
  assumes "stop_ok s" and t_def: "t = foldl try_tighten s proposals"
  shows "stop_ok t \<and> trigger_price s \<le> trigger_price t \<and> st_mint t = st_mint s \<and>
    st_entry_fill_price t = st_entry_fill_price s \<and>
    (\<forall>mark. is_breached s mark \<longrightarrow> is_breached t mark)"
proof -
  have "trigger_price s \<le> trigger_price t" and "stop_ok t"
    unfolding t_def using assms(1) by (rule stop_ratchet.run_level, rule stop_ratchet.run_inv)
  then show ?thesis
    using run_tighten_frame [of s proposals] by (auto simp: t_def is_breached_def)
qed

text \<open>
  For a positive entry price and a drawdown strictly between 0 and 10000 bps the fixed stop
  is built, with the trigger the Decimal product of the entry price and the drawdown factor,
  positive and not above the entry price.
\<close>

theorem stop_built_at_entry:
  assumes "0 < entry" and "dec_rep entry" and "0 < d" and "d < 10000"
  shows "\<exists>s. stop_at_entry m entry (Some d) = Inr s \<and> 0 < trigger_price s \<and>
    trigger_price s \<le> entry \<and>
    trigger_price s = dmul entry (ddiv (dsub 10000 (of_int d)) 10000)"
  using stop_at_entry_returns [OF assms, of m] by (auto simp: stop_ok_def)

text \<open>
  The rule engine answers every validated input, with the documented priority: a narrative
  failure or else a breached stop is a full secure exit of the input's mint; a take-profit
  reduction happens only when neither holds, for a level that is hit and whose trigger is the
  highest of the hit levels; otherwise nothing is emitted.
\<close>

theorem rule_engine_priority:
  assumes "\<forall>l \<in> set (take_profit_levels i). mk_TakeProfitLevel l = Inr l"
  shows "\<exists>out. rule_evaluate i = Inr out \<and>
    (if narrative_failure_flag i \<or> is_breached (ri_stop i) (ri_mark_price i)
     then ro_kind out = FULL_EXIT \<and>
          ro_priority out = Some (if narrative_failure_flag i then RP_NARRATIVE_FAILURE else RP_HARD_STOP) \<and>
          (\<exists>x. ro_intent out = Some (Exit x) \<and> ex_mint x = ri_mint i \<and> ex_fraction_bps x = 10000 \<and>
               ex_exit_mode x = Secure)
     else if \<exists>l \<in> set (take_profit_levels i). is_hit (ri_mark_price i) l
     then ro_kind out = SCALE_OUT \<and>
          (\<exists>x l. ro_intent out = Some (Reduce x) \<and> rd_mint x = ri_mint i \<and>
             l \<in> set (take_profit_levels i) \<and> is_hit (ri_mark_price i) l \<and>
             rd_fraction_bps x = tp_fraction_bps l \<and>
             (\<forall>l' \<in> set (take_profit_levels i). is_hit (ri_mark_price i) l' \<longrightarrow>
                tp_trigger_price l' \<le> tp_trigger_price l))
     else ro_kind out = NO_OP \<and> ro_intent out = None)"
proof (cases "filter (is_hit (ri_mark_price i)) (take_profit_levels i)")
  case Nil
  then have "\<forall>l \<in> set (take_profit_levels i). \<not> is_hit (ri_mark_price i) l"
    by (simp add: filter_empty_conv)
  with Nil show ?thesis by (auto simp: rule_evaluate_def rule_full_exit_eq)
next
  case (Cons l ls)
  define best where "best = max_level l ls"
  have hits: "set (l # ls) = {x \<in> set (take_profit_levels i). is_hit (ri_mark_price i) x}"
    using arg_cong [OF Cons, of set] by auto
  have best: "best \<in> set (take_profit_levels i)" "is_hit (ri_mark_price i) best"
    using max_level_in [of l ls] hits by (auto simp: best_def)
  have top: "tp_trigger_price l' \<le> tp_trigger_price best"
    if "l' \<in> set (take_profit_levels i)" "is_hit (ri_mark_price i) l'" for l'
    unfolding best_def using that hits by (intro max_level_max) blast
  obtain out where out: "rule_scale_out i best = Inr out"
    using assms best(1) rule_scale_out_returns [of best i]
    by (force simp: mk_TakeProfitLevel_def split: if_splits)
  show ?thesis
  proof (cases "narrative_failure_flag i \<or> is_breached (ri_stop i) (ri_mark_price i)")
    case True
    then show ?thesis by (auto simp: rule_evaluate_def rule_full_exit_eq)
  next
    case False
    then have "rule_evaluate i = Inr out"
      using Cons out by (simp add: rule_evaluate_def best_def)
    then show ?thesis using False rule_scale_out_iff [OF out] best top by auto
  qed
qed

text \<open>
  The in-process enforcer fires exactly on an armed, breached mint: the venue is handed one
  full secure exit of that mint with the registered position, the mint is disarmed, every other
  stop is kept, and a further tick on that mint fires nothing.
\<close>

theorem enforcer_fires_once:
  "(enf_decide e t \<longrightarrow>
     (\<exists>stop pos x e'. map_of e (mt_mint t) = Some (stop, pos) \<and> mt_mark_price t \<le> trigger_price stop \<and>
        enf_on_tick venue e t = Inr (e', Some (Exit x, pos), Some (venue (Exit x) pos)) \<and>
        ex_mint x = mt_mint t \<and> ex_fraction_bps x = 10000 \<and> ex_exit_mode x = Secure \<and>
        armed_mints e' = armed_mints e - {mt_mint t} \<and>
        (\<forall>t'. mt_mint t' = mt_mint t \<longrightarrow> enf_on_tick venue e' t' = Inr (e', None, None)))) \<and>
   (\<not> enf_decide e t \<longrightarrow> enf_on_tick venue e t = Inr (e, None, None))"
proof (cases "map_of e (mt_mint t)")
  case None
  then show ?thesis by (simp add: enf_decide_def enf_on_tick_def)
next
  case (Some r)
  then show ?thesis
    by (cases r) (auto simp: enf_decide_def enf_on_tick_def factory_exit_def mk_ExitIntent_def
        armed_mints_def is_breached_def simp flip: set_map)
qed

subsection \<open>Witnesses\<close>

definition stop_100_60 :: stop_state where
  "stop_100_60 = \<lparr>st_mint = ''m'', st_entry_fill_price = 100, trigger_price = 60, hard_stop_drawdown_bps = 4000\<rparr>"

definition rule_inputs_at :: "decimal \<Rightarrow> rule_inputs" where
  "rule_inputs_at mark =
     \<lparr>ri_mint = ''m'', ri_block_time_ms = 1, ri_mark_price = mark, ri_stop = stop_100_60,
      narrative_failure_flag = False,
      take_profit_levels = [\<lparr>tp_trigger_price = 150, tp_fraction_bps = 3000\<rparr>,
                            \<lparr>tp_trigger_price = 200, tp_fraction_bps = 2500\<rparr>]\<rparr>"

theorem stop_never_widens_witness:
  "is_breached (foldl try_tighten stop_100_60 [80, 50, 90]) 60"
proof -
  have "stop_ok stop_100_60" by (simp add: stop_ok_def stop_100_60_def)
  from stop_never_widens [OF this refl, of "[80, 50, 90]"] show ?thesis
    by (simp add: is_breached_def stop_100_60_def)
qed

theorem stop_built_at_entry_witness:
  "\<exists>s. stop_at_entry ''m'' 100 (Some 4000) = Inr s \<and> trigger_price s = 60"
proof -
  have "dec_rep 100" using dec_rep_of_int [of 100] by simp
  moreover have "dmul 100 (ddiv (dsub 10000 4000) 10000) = 60" by code_simp
  ultimately show ?thesis using stop_built_at_entry [of 100 4000 "''m''"] by auto
qed

theorem rule_engine_priority_witness:
  "\<exists>out. rule_evaluate (rule_inputs_at 210) = Inr out \<and> ro_kind out = SCALE_OUT"
  using rule_engine_priority [of "rule_inputs_at 210"]
  by (auto simp: rule_inputs_at_def stop_100_60_def mk_TakeProfitLevel_def is_breached_def is_hit_def)

theorem enforcer_fires_once_witness:
  "\<exists>x e'. enf_on_tick (\<lambda>_ _. demo_fill) [(''m'', (stop_100_60, demo_position))]
       \<lparr>mt_mint = ''m'', mt_mark_price = 60, mt_block_time_ms = 1\<rparr> =
     Inr (e', Some (Exit x, demo_position), Some demo_fill) \<and> armed_mints e' = {}"
  using enforcer_fires_once [of "[(''m'', (stop_100_60, demo_position))]"
      "\<lparr>mt_mint = ''m'', mt_mark_price = 60, mt_block_time_ms = 1\<rparr>" "\<lambda>_ _. demo_fill"]
  by (auto simp: enf_decide_def is_breached_def stop_100_60_def armed_mints_def)

end
