(* ===== verification/Deadman.thy ===== *)
theory Deadman
  imports Interfaces
begin

text \<open>
  The dead-man's switch, \<open>aats/risk/deadman.py\<close>: a heartbeat watchdog that flattens every open
  position once when no heartbeat has been seen for longer than \<open>T_DMS\<close>. Clock readings are
  binary64 values, and the age is their rounded difference (\<open>fsub\<close>); every operation gets the
  reading its call makes. The venue's flatten is a parameter that may raise; its calls are
  logged in \<open>dms_flattens\<close> with the age they reported. Telemetry is left out.
\<close>

subsection \<open>State and operations\<close>

datatype dms_credential = DmsStandDownToken string | OtherDmsObject

definition mint_dms_standdown_token :: "string \<Rightarrow> dms_credential result" where
  "mint_dms_standdown_token operator_id =
     (if operator_id = [] then Inl ValueError else Inr (DmsStandDownToken operator_id))"

record dms =
  t_dms :: rat
  last_beat :: rat
  dms_fired :: bool
  dms_armed :: bool
  dms_flattens :: "rat list"

definition new_dms :: "rat \<Rightarrow> rat \<Rightarrow> dms result" where
  "new_dms t_dms_secs now =
     (if t_dms_secs \<le> 0 then Inl ValueError
      else Inr \<lparr>t_dms = flt t_dms_secs, last_beat = now, dms_fired = False, dms_armed = True,
                dms_flattens = []\<rparr>)"

definition dms_heartbeat :: "dms \<Rightarrow> rat \<Rightarrow> dms" where
  "dms_heartbeat d now = d\<lparr>last_beat := now\<rparr>"

definition heartbeat_age_seconds :: "dms \<Rightarrow> rat \<Rightarrow> rat" where
  "heartbeat_age_seconds d now = fsub now (last_beat d)"

definition dms_check :: "(rat \<Rightarrow> py_exc option) \<Rightarrow> dms \<Rightarrow> rat \<Rightarrow> dms \<times> bool result" where
  "dms_check flatten d now =
     (if \<not> dms_armed d \<or> dms_fired d then (d, Inr False)
      else let age = heartbeat_age_seconds d now in
           if age \<le> t_dms d then (d, Inr False)
           else let d' = d\<lparr>dms_fired := True, dms_flattens := dms_flattens d @ [age]\<rparr> in
                case flatten age of Some e \<Rightarrow> (d', Inl e) | None \<Rightarrow> (d', Inr True))"

definition dms_stand_down :: "dms \<Rightarrow> dms_credential \<Rightarrow> dms \<times> unit result" where
  "dms_stand_down d cred =
     (case cred of
        OtherDmsObject \<Rightarrow> (d, Inl PermissionError)
      | DmsStandDownToken _ \<Rightarrow> (d\<lparr>dms_armed := False\<rparr>, Inr ()))"

definition dms_rearm :: "dms \<Rightarrow> dms_credential \<Rightarrow> rat \<Rightarrow> dms \<times> unit result" where
  "dms_rearm d cred now =
     (case cred of
        OtherDmsObject \<Rightarrow> (d, Inl PermissionError)
      | DmsStandDownToken _ \<Rightarrow>
          (d\<lparr>dms_armed := True, dms_fired := False, last_beat := now\<rparr>, Inr ()))"

subsection \<open>Runs\<close>

datatype dms_event =
    Beat rat
  | Check rat
  | Stand_down dms_credential
  | Rearm dms_credential rat

definition dms_step :: "(rat \<Rightarrow> py_exc option) \<Rightarrow> dms \<Rightarrow> dms_event \<Rightarrow> dms" where
  "dms_step flatten d ev =
     (case ev of
        Beat now \<Rightarrow> dms_heartbeat d now
      | Check now \<Rightarrow> fst (dms_check flatten d now)
      | Stand_down c \<Rightarrow> fst (dms_stand_down d c)
      | Rearm c now \<Rightarrow> fst (dms_rearm d c now))"

definition dms_operator_event :: "dms_event \<Rightarrow> bool" where
  "dms_operator_event ev =
     (case ev of
        Stand_down (DmsStandDownToken _) \<Rightarrow> True
      | Rearm (DmsStandDownToken _) _ \<Rightarrow> True
      | _ \<Rightarrow> False)"

text \<open>Every event the loop, the watchdog, the market or the reasoner can cause.\<close>

definition dms_automated_step :: "(rat \<Rightarrow> py_exc option) \<Rightarrow> dms \<Rightarrow> dms_event \<Rightarrow> dms" where
  "dms_automated_step flatten d ev = (if dms_operator_event ev then d else dms_step flatten d ev)"

lemma dms_automated_cases:
  assumes "\<not> dms_operator_event ev"
  shows "dms_step flatten d ev =
    (case ev of Beat now \<Rightarrow> d\<lparr>last_beat := now\<rparr>
     | Check now \<Rightarrow>
         (if dms_armed d \<and> \<not> dms_fired d \<and> t_dms d < heartbeat_age_seconds d now
          then d\<lparr>dms_fired := True, dms_flattens := dms_flattens d @ [heartbeat_age_seconds d now]\<rparr> else d)
     | _ \<Rightarrow> d)"
  using assms
  by (auto simp: dms_step_def dms_operator_event_def dms_heartbeat_def dms_check_def Let_def
      dms_stand_down_def dms_rearm_def split: dms_event.splits dms_credential.splits option.splits)

interpretation dms_latch: ratchet "dms_automated_step flatten" dms_fired "\<lambda>_. True"
  for flatten :: "rat \<Rightarrow> py_exc option"
  by unfold_locales
    (auto simp: dms_automated_step_def dms_automated_cases split: dms_event.splits)

lemma dms_automated_frame:
  "dms_armed (dms_automated_step flatten d ev) = dms_armed d"
  "t_dms (dms_automated_step flatten d ev) = t_dms d"
  by (auto simp: dms_automated_step_def dms_automated_cases split: dms_event.splits)

lemma dms_automated_run:
  "\<forall>ev \<in> set evs. \<not> dms_operator_event ev \<Longrightarrow>
     foldl (dms_step flatten) d evs = foldl (dms_automated_step flatten) d evs"
  by (induction evs arbitrary: d) (simp_all add: dms_automated_step_def)

lemma dms_run_flattens:
  "dms_armed d \<Longrightarrow>
     length (dms_flattens (foldl (dms_automated_step flatten) d evs)) =
       length (dms_flattens d) +
       (if \<not> dms_fired d \<and> dms_fired (foldl (dms_automated_step flatten) d evs) then 1 else 0) \<and>
     dms_armed (foldl (dms_automated_step flatten) d evs)"
proof (induction evs arbitrary: d)
  case (Cons ev evs)
  let ?d = "dms_automated_step flatten d ev"
  have "length (dms_flattens ?d) = length (dms_flattens d) + (if \<not> dms_fired d \<and> dms_fired ?d then 1 else 0)"
    and "dms_fired d \<longrightarrow> dms_fired ?d"
    by (auto simp: dms_automated_step_def dms_automated_cases split: dms_event.splits)
  moreover have "dms_fired ?d \<longrightarrow> dms_fired (foldl (dms_automated_step flatten) ?d evs)"
    using dms_latch.run_level [of ?d flatten evs] by simp
  ultimately show ?case
    using Cons.IH [of ?d] Cons.prems by (auto simp: dms_automated_frame)
qed simp

lemma dms_silence_fires:
  assumes "dms_armed d" and "\<not> dms_fired d"
  shows "dms_fired (foldl (dms_automated_step flatten) d (map Check ts)) \<longleftrightarrow>
    (\<exists>now \<in> set ts. t_dms d < fsub now (last_beat d))"
  using assms
proof (induction ts arbitrary: d)
  case (Cons now ts)
  show ?case
  proof (cases "t_dms d < fsub now (last_beat d)")
    case True
    then have "dms_fired (dms_automated_step flatten d (Check now))"
      using Cons.prems
      by (simp add: dms_automated_step_def dms_automated_cases dms_operator_event_def heartbeat_age_seconds_def)
    then have "dms_fired (foldl (dms_automated_step flatten) d (map Check (now # ts)))"
      using dms_latch.run_level [of "dms_automated_step flatten d (Check now)" flatten "map Check ts"] by simp
    with True show ?thesis by simp
  next
    case False
    then have "dms_automated_step flatten d (Check now) = d"
      by (simp add: dms_automated_step_def dms_automated_cases dms_operator_event_def heartbeat_age_seconds_def)
    with Cons False show ?thesis by simp
  qed
qed simp

subsection \<open>Properties\<close>

text \<open>
  Silence flattens the book exactly once: from an armed switch that has not fired, a watchdog
  that only checks (no heartbeat, at any cadence) fires exactly when some check sees an age above
  \<open>T_DMS\<close>, and then the venue's flatten has been called once, whether or not it raised.
\<close>

theorem dms_silence_flattens_once:
  assumes "dms_armed d" and "\<not> dms_fired d" and "d' = foldl (dms_step flatten) d (map Check ts)"
  shows "(dms_fired d' \<longleftrightarrow> (\<exists>now \<in> set ts. t_dms d < fsub now (last_beat d))) \<and>
    length (dms_flattens d') = length (dms_flattens d) + (if dms_fired d' then 1 else 0)"
proof -
  have "d' = foldl (dms_automated_step flatten) d (map Check ts)"
    unfolding assms(3) by (intro dms_automated_run) (simp add: dms_operator_event_def)
  then show ?thesis
    using dms_silence_fires [OF assms(1,2), of flatten ts] dms_run_flattens [OF assms(1), of flatten "map Check ts"]
      assms(2) by simp
qed

theorem dms_silence_flattens_once_witness:
  "length (dms_flattens (foldl (dms_step (\<lambda>_. Some ValueError))
     \<lparr>t_dms = 60, last_beat = 0, dms_fired = False, dms_armed = True, dms_flattens = []\<rparr>
     (map Check [30, 60, 61, 90]))) = 1"
proof -
  let ?d = "\<lparr>t_dms = 60, last_beat = 0, dms_fired = False, dms_armed = True, dms_flattens = []\<rparr>"
  have "fsub 61 0 = 61" by code_simp
  then show ?thesis
    using dms_silence_flattens_once [of ?d, OF _ _ refl, of "\<lambda>_. Some ValueError" "[30, 60, 61, 90]"] by auto
qed

text \<open>
  Only the operator can disarm or un-fire the switch: over every sequence of heartbeats,
  checks and requests without a genuine token, an armed switch stays armed, a fired one stays
  fired, and the flatten is called at most once more, on the move to fired.
\<close>

theorem dms_only_operator_disarms:
  assumes "dms_armed d" and "\<forall>ev \<in> set evs. \<not> dms_operator_event ev" and "d' = foldl (dms_step flatten) d evs"
  shows "dms_armed d' \<and> (dms_fired d \<longrightarrow> dms_fired d') \<and>
    length (dms_flattens d') = length (dms_flattens d) + (if \<not> dms_fired d \<and> dms_fired d' then 1 else 0)"
  using dms_run_flattens [OF assms(1), of flatten evs] dms_latch.run_level [of d flatten evs] assms(2,3)
  by (simp add: dms_automated_run)

theorem dms_only_operator_disarms_witness:
  "dms_armed (foldl (dms_step (\<lambda>_. None))
     \<lparr>t_dms = 60, last_beat = 0, dms_fired = False, dms_armed = True, dms_flattens = []\<rparr>
     [Beat 50, Stand_down OtherDmsObject, Check 100, Rearm OtherDmsObject 200])"
  using dms_only_operator_disarms [of "\<lparr>t_dms = 60, last_beat = 0, dms_fired = False, dms_armed = True, dms_flattens = []\<rparr>"
      "[Beat 50, Stand_down OtherDmsObject, Check 100, Rearm OtherDmsObject 200]", OF _ _ refl, of "\<lambda>_. None"]
  by (simp add: dms_operator_event_def)

text \<open>
  Rounding never makes the switch fire early: a switch built from a threshold fires on a
  check only when the exact time since the last heartbeat exceeds the binary64 threshold.
\<close>

theorem dms_never_fires_early:
  assumes "new_dms secs t0 = Inr d0" and "t_dms d = t_dms d0"
    and "\<not> dms_fired d" and "dms_fired (fst (dms_check flatten d now))"
  shows "flt secs < now - last_beat d"
proof -
  have t: "t_dms d = flt secs" using assms(1,2) by (auto simp: new_dms_def split: if_splits)
  have "t_dms d < fsub now (last_beat d)"
    using assms(3,4) by (auto simp: dms_check_def Let_def heartbeat_age_seconds_def split: if_splits)
  then show ?thesis
    using flt.rnd_le_rep [of "now - last_beat d" "flt secs"] by (force simp: t fsub_def flt.rep_rnd)
qed

theorem dms_never_fires_early_witness:
  "dms_fired (fst (dms_check (\<lambda>_. None)
     \<lparr>t_dms = flt 60, last_beat = 0, dms_fired = False, dms_armed = True, dms_flattens = []\<rparr> 61)) \<and>
   flt 60 < 61"
proof -
  let ?d = "\<lparr>t_dms = flt 60, last_beat = 0, dms_fired = False, dms_armed = True, dms_flattens = []\<rparr>"
  have d: "new_dms 60 0 = Inr ?d" by (simp add: new_dms_def)
  have "flt 60 = 60" "fsub 61 0 = 61" by code_simp+
  then have fires: "dms_fired (fst (dms_check (\<lambda>_. None) ?d 61))"
    by (simp add: dms_check_def heartbeat_age_seconds_def)
  with dms_never_fires_early [OF d refl _ fires] show ?thesis by simp
qed

text \<open>
  A flatten that raises is never retried by the switch: after the check on which it raised,
  no sequence of checks and heartbeats calls it again; the position book stays as it was until
  the operator re-arms the switch.
\<close>

theorem dms_failed_flatten_not_retried:
  assumes "dms_armed d" and "snd (dms_check flatten d now) = Inl e"
    and "\<forall>ev \<in> set evs. \<not> dms_operator_event ev"
    and "d' = fst (dms_check flatten d now)"
  shows "dms_fired d' \<and> dms_flattens (foldl (dms_step flatten) d' evs) = dms_flattens d'"
proof -
  have fired: "dms_fired d'" and armed: "dms_armed d'"
    using assms(1,2,4) by (auto simp: dms_check_def Let_def split: if_splits option.splits)
  have "dms_flattens (foldl (dms_automated_step flatten) d' evs) = dms_flattens d'"
    using fired
  proof (induction evs arbitrary: d')
    case (Cons ev evs)
    have "dms_flattens (dms_automated_step flatten d' ev) = dms_flattens d' \<and> dms_fired (dms_automated_step flatten d' ev)"
      using Cons.prems by (auto simp: dms_automated_step_def dms_automated_cases split: dms_event.splits)
    with Cons.IH [of "dms_automated_step flatten d' ev"] show ?case by simp
  qed simp
  with fired assms(3) show ?thesis by (simp add: dms_automated_run)
qed

theorem dms_failed_flatten_not_retried_witness:
  "length (dms_flattens (foldl (dms_step (\<lambda>_. Some ValueError))
     \<lparr>t_dms = 60, last_beat = 0, dms_fired = False, dms_armed = True, dms_flattens = []\<rparr>
     [Check 61, Check 1000])) = 1"
proof -
  let ?d = "\<lparr>t_dms = 60, last_beat = 0, dms_fired = False, dms_armed = True, dms_flattens = []\<rparr>"
  have v: "fsub 61 0 = 61" by code_simp
  have c: "dms_check (\<lambda>_. Some ValueError) ?d 61 = (?d\<lparr>dms_fired := True, dms_flattens := [61]\<rparr>, Inl ValueError)"
    by (simp add: dms_check_def heartbeat_age_seconds_def v)
  have "dms_flattens (foldl (dms_step (\<lambda>_. Some ValueError)) (fst (dms_check (\<lambda>_. Some ValueError) ?d 61)) [Check 1000]) =
      dms_flattens (fst (dms_check (\<lambda>_. Some ValueError) ?d 61))"
    by (rule dms_failed_flatten_not_retried [THEN conjunct2, of ?d _ 61 ValueError])
      (simp_all add: c dms_operator_event_def)
  then show ?thesis by (simp add: dms_step_def c)
qed

end
