(* ===== verification/Safety_Gate.thy ===== *)
theory Safety_Gate
  imports Interfaces
begin

text \<open>
  The deterministic pre-trade refusals: the red-flag gate of \<open>aats/risk/pretrade_gate.py\<close>, the
  liquidity and volume gate of \<open>aats/risk/liquidity_sanity.py\<close>, and the operator's creator and
  token denylist of \<open>aats/risk/blacklist.py\<close> in front of them. Each gate refuses by default: an
  absent measurement is a refusal. The telemetry callbacks, which return nothing and are called
  after the decision, are not part of the model; the checks that reject a value of the wrong
  dynamic type hold by typing.
\<close>

subsection \<open>Red flags, thresholds and inputs\<close>

datatype red_flag =
    FREEZE_AUTHORITY_SET
  | MINT_AUTHORITY_NOT_RENOUNCED
  | LP_NOT_LOCKED_OR_BURNED
  | DEV_OR_BUNDLE_CLUSTER
  | HOLDER_CONCENTRATION_HIGH
  | HOLDER_COUNT_TOO_LOW
  | SELL_TAX_TOO_HIGH
  | BUY_TAX_TOO_HIGH
  | CREATOR_DENYLISTED
  | MINT_DENYLISTED
  | SERIAL_DEPLOYER_RUGGED
  | DEV_FUNDED_JUST_BEFORE_LAUNCH
  | DEV_FUNDING_UNDECODABLE
  | LP_UNLOCK_IMMINENT
  | LP_UNLOCK_SCHEDULE_UNKNOWN
  | INPUT_STALE
  | INPUT_INCOMPLETE
  | NOT_SELLABLE

definition HOT_CHECK_ORDER :: "red_flag list" where
  "HOT_CHECK_ORDER =
     [FREEZE_AUTHORITY_SET, MINT_AUTHORITY_NOT_RENOUNCED, LP_NOT_LOCKED_OR_BURNED,
      DEV_OR_BUNDLE_CLUSTER, HOLDER_CONCENTRATION_HIGH, HOLDER_COUNT_TOO_LOW,
      SELL_TAX_TOO_HIGH, BUY_TAX_TOO_HIGH]"

record safety_thresholds =
  min_lp_locked_bps :: bps
  max_holder_concentration_top10_bps :: bps
  min_distinct_holders :: int
  max_dev_bundle_cluster_bps :: bps
  max_sell_tax_bps :: bps
  max_buy_tax_bps :: bps
  max_staleness_ms :: millis

definition default_safety_thresholds :: safety_thresholds where
  "default_safety_thresholds =
     \<lparr>min_lp_locked_bps = 9500, max_holder_concentration_top10_bps = 3500,
      min_distinct_holders = 10, max_dev_bundle_cluster_bps = 2000, max_sell_tax_bps = 1000,
      max_buy_tax_bps = 1000, max_staleness_ms = 2000\<rparr>"

definition mk_SafetyThresholds :: "safety_thresholds \<Rightarrow> safety_thresholds result" where
  "mk_SafetyThresholds t =
     (if list_ex (\<lambda>v. v < 0)
           [min_lp_locked_bps t, max_holder_concentration_top10_bps t, min_distinct_holders t,
            max_dev_bundle_cluster_bps t, max_sell_tax_bps t, max_buy_tax_bps t, max_staleness_ms t]
      then Inl ValueError
      else if \<not> (0 \<le> min_lp_locked_bps t \<and> min_lp_locked_bps t \<le> 10000) then Inl ValueError
      else Inr t)"

record safety_inputs =
  si_mint :: mint
  si_event_slot :: int
  si_event_block_time_ms :: millis
  si_data_staleness_ms :: millis
  freeze_authority :: "string option"
  mint_authority :: "string option"
  lp_locked_or_burned_bps :: "bps option"
  dev_bundle_cluster_bps :: "bps option"
  holder_concentration_top10_bps :: "bps option"
  sell_tax_bps :: "bps option"
  buy_tax_bps :: "bps option"
  authorities_decoded :: bool
  holder_count :: "int option"

definition mk_SafetyInputs :: "safety_inputs \<Rightarrow> safety_inputs result" where
  "mk_SafetyInputs i =
     (if (case holder_count i of None \<Rightarrow> False | Some n \<Rightarrow> n < 0) then Inl ValueError
      else if si_event_block_time_ms i \<le> 0 then Inl ValueError
      else if si_data_staleness_ms i < 0 then Inl ValueError
      else Inr i)"

datatype gate_verdict = PASS | REJECT

record red_flag_hit =
  hit_flag :: red_flag
  hit_measured :: "int option"
  hit_threshold :: "int option"

abbreviation RedFlagHit :: "red_flag \<Rightarrow> int option \<Rightarrow> int option \<Rightarrow> red_flag_hit" where
  "RedFlagHit f m t \<equiv> \<lparr>hit_flag = f, hit_measured = m, hit_threshold = t\<rparr>"

record gate_decision =
  gd_mint :: mint
  gd_verdict :: gate_verdict
  gd_red_flags :: "red_flag_hit list"
  gd_event_slot :: int
  gd_event_block_time_ms :: millis

definition gd_passed :: "gate_decision \<Rightarrow> bool" where
  "gd_passed d \<longleftrightarrow> gd_verdict d = PASS"

subsection \<open>The pre-trade safety gate\<close>

text \<open>Python truth of an optional string: present and not empty.\<close>

definition truthy :: "string option \<Rightarrow> bool" where
  "truthy s \<longleftrightarrow> (case s of None \<Rightarrow> False | Some x \<Rightarrow> x \<noteq> [])"

fun check_one :: "safety_thresholds \<Rightarrow> safety_inputs \<Rightarrow> red_flag \<Rightarrow> red_flag_hit option" where
  "check_one t i FREEZE_AUTHORITY_SET =
     (if \<not> authorities_decoded i then Some (RedFlagHit INPUT_INCOMPLETE None None)
      else if truthy (freeze_authority i) then Some (RedFlagHit FREEZE_AUTHORITY_SET None None)
      else None)"
| "check_one t i MINT_AUTHORITY_NOT_RENOUNCED =
     (if \<not> authorities_decoded i then Some (RedFlagHit INPUT_INCOMPLETE None None)
      else if truthy (mint_authority i)
      then Some (RedFlagHit MINT_AUTHORITY_NOT_RENOUNCED None None)
      else None)"
| "check_one t i LP_NOT_LOCKED_OR_BURNED =
     (case lp_locked_or_burned_bps i of
        None \<Rightarrow> Some (RedFlagHit INPUT_INCOMPLETE None None)
      | Some v \<Rightarrow>
          if v < min_lp_locked_bps t
          then Some (RedFlagHit LP_NOT_LOCKED_OR_BURNED (Some v) (Some (min_lp_locked_bps t)))
          else None)"
| "check_one t i DEV_OR_BUNDLE_CLUSTER =
     (case dev_bundle_cluster_bps i of
        None \<Rightarrow> Some (RedFlagHit INPUT_INCOMPLETE None None)
      | Some v \<Rightarrow>
          if max_dev_bundle_cluster_bps t < v
          then Some (RedFlagHit DEV_OR_BUNDLE_CLUSTER (Some v) (Some (max_dev_bundle_cluster_bps t)))
          else None)"
| "check_one t i HOLDER_CONCENTRATION_HIGH =
     (case holder_concentration_top10_bps i of
        None \<Rightarrow> Some (RedFlagHit INPUT_INCOMPLETE None None)
      | Some v \<Rightarrow>
          if max_holder_concentration_top10_bps t < v
          then Some (RedFlagHit HOLDER_CONCENTRATION_HIGH (Some v)
                       (Some (max_holder_concentration_top10_bps t)))
          else None)"
| "check_one t i HOLDER_COUNT_TOO_LOW =
     (case holder_count i of
        None \<Rightarrow> Some (RedFlagHit INPUT_INCOMPLETE None None)
      | Some v \<Rightarrow>
          if v < min_distinct_holders t
          then Some (RedFlagHit HOLDER_COUNT_TOO_LOW (Some v) (Some (min_distinct_holders t)))
          else None)"
| "check_one t i SELL_TAX_TOO_HIGH =
     (case sell_tax_bps i of
        None \<Rightarrow> Some (RedFlagHit INPUT_INCOMPLETE None None)
      | Some v \<Rightarrow>
          if max_sell_tax_bps t < v
          then Some (RedFlagHit SELL_TAX_TOO_HIGH (Some v) (Some (max_sell_tax_bps t)))
          else None)"
| "check_one t i BUY_TAX_TOO_HIGH =
     (case buy_tax_bps i of
        None \<Rightarrow> Some (RedFlagHit INPUT_INCOMPLETE None None)
      | Some v \<Rightarrow>
          if max_buy_tax_bps t < v
          then Some (RedFlagHit BUY_TAX_TOO_HIGH (Some v) (Some (max_buy_tax_bps t)))
          else None)"
| "check_one t i f = Some (RedFlagHit INPUT_INCOMPLETE None None)"

definition gate_reject :: "safety_inputs \<Rightarrow> red_flag_hit list \<Rightarrow> gate_decision" where
  "gate_reject i hits =
     \<lparr>gd_mint = si_mint i, gd_verdict = REJECT, gd_red_flags = hits,
      gd_event_slot = si_event_slot i, gd_event_block_time_ms = si_event_block_time_ms i\<rparr>"

definition gate_pass :: "safety_inputs \<Rightarrow> gate_decision" where
  "gate_pass i =
     \<lparr>gd_mint = si_mint i, gd_verdict = PASS, gd_red_flags = [],
      gd_event_slot = si_event_slot i, gd_event_block_time_ms = si_event_block_time_ms i\<rparr>"

definition evaluate_fast :: "safety_thresholds \<Rightarrow> safety_inputs \<Rightarrow> gate_decision" where
  "evaluate_fast t i =
     (if max_staleness_ms t < si_data_staleness_ms i
      then gate_reject i
             [RedFlagHit INPUT_STALE (Some (si_data_staleness_ms i)) (Some (max_staleness_ms t))]
      else case first_hit (check_one t i) HOT_CHECK_ORDER of
             Some h \<Rightarrow> gate_reject i [h]
           | None \<Rightarrow> gate_pass i)"

definition scan_all :: "safety_thresholds \<Rightarrow> safety_inputs \<Rightarrow> gate_decision" where
  "scan_all t i =
     (let hits =
        (if max_staleness_ms t < si_data_staleness_ms i
         then [RedFlagHit INPUT_STALE (Some (si_data_staleness_ms i)) (Some (max_staleness_ms t))]
         else []) @ all_hits (check_one t i) HOT_CHECK_ORDER
      in if hits \<noteq> [] then gate_reject i hits else gate_pass i)"

definition require_enabled_for_entry :: "bool \<Rightarrow> gate_decision \<Rightarrow> bool" where
  "require_enabled_for_entry enabled d \<longleftrightarrow> enabled \<and> gd_passed d"

text \<open>The sell simulation of the execution venue is the argument \<open>probe\<close>.\<close>

definition check_sellability ::
  "safety_inputs \<Rightarrow> (mint \<Rightarrow> int \<Rightarrow> bool) option \<Rightarrow> red_flag_hit option" where
  "check_sellability i probe =
     (case probe of
        None \<Rightarrow> Some (RedFlagHit NOT_SELLABLE None None)
      | Some is_sellable \<Rightarrow>
          if \<not> is_sellable (si_mint i) (si_event_slot i)
          then Some (RedFlagHit NOT_SELLABLE None None)
          else None)"

subsection \<open>The liquidity sanity gate\<close>

datatype liquidity_reject =
    LQ_VOLUME_BELOW_MULTIPLE
  | LQ_SIM_SLIPPAGE_TOO_HIGH
  | LQ_INPUT_INCOMPLETE
  | LQ_INPUT_STALE

record liquidity_thresholds =
  min_volume_multiple :: decimal
  max_sim_slippage_bps :: bps
  lq_max_staleness_ms :: millis

definition default_liquidity_thresholds :: liquidity_thresholds where
  "default_liquidity_thresholds =
     \<lparr>min_volume_multiple = 10, max_sim_slippage_bps = 300, lq_max_staleness_ms = 2000\<rparr>"

definition mk_LiquidityThresholds :: "liquidity_thresholds \<Rightarrow> liquidity_thresholds result" where
  "mk_LiquidityThresholds t =
     (if max_sim_slippage_bps t < 0 \<or> lq_max_staleness_ms t < 0 then Inl ValueError
      else if min_volume_multiple t < 1 then Inl ValueError
      else Inr t)"

record liquidity_inputs =
  lq_mint :: mint
  lq_event_slot :: int
  lq_event_block_time_ms :: millis
  lq_data_staleness_ms :: millis
  intended_position_lamports :: lamports
  volume_24h_lamports :: "lamports option"
  lq_sol_reserve_lamports :: "lamports option"
  lq_token_reserve_base :: "int option"

definition mk_LiquidityInputs :: "liquidity_inputs \<Rightarrow> liquidity_inputs result" where
  "mk_LiquidityInputs i =
     (if lq_event_block_time_ms i \<le> 0 then Inl ValueError
      else if lq_data_staleness_ms i < 0 then Inl ValueError
      else if intended_position_lamports i \<le> 0 then Inl ValueError
      else Inr i)"

record liquidity_hit =
  lh_reason :: liquidity_reject
  lh_measured :: "int option"
  lh_threshold :: "int option"
  lh_measured_ratio :: "decimal option"

abbreviation LiquidityRejectHit ::
  "liquidity_reject \<Rightarrow> int option \<Rightarrow> int option \<Rightarrow> decimal option \<Rightarrow> liquidity_hit" where
  "LiquidityRejectHit r m t q \<equiv>
     \<lparr>lh_reason = r, lh_measured = m, lh_threshold = t, lh_measured_ratio = q\<rparr>"

record liquidity_decision =
  ld_mint :: mint
  ld_verdict :: gate_verdict
  ld_rejects :: "liquidity_hit list"
  ld_event_slot :: int
  ld_event_block_time_ms :: millis

definition ld_passed :: "liquidity_decision \<Rightarrow> bool" where
  "ld_passed d \<longleftrightarrow> ld_verdict d = PASS"

definition simulate_entry_slippage_bps :: "lamports \<Rightarrow> int \<Rightarrow> lamports \<Rightarrow> bps option" where
  "simulate_entry_slippage_bps sol_reserve token_reserve sol_in =
     (if sol_reserve \<le> 0 \<or> token_reserve \<le> 0 \<or> sol_in \<le> 0 then None
      else
        let k = sol_reserve * token_reserve;
            new_reserve_sol = sol_reserve + sol_in;
            new_reserve_tok = k div new_reserve_sol;
            tokens = token_reserve - new_reserve_tok
        in if tokens \<le> 0 then None
           else
             let spot_price = ddiv (of_int sol_reserve) (of_int token_reserve);
                 eff_price = ddiv (of_int sol_in) (of_int tokens)
             in if spot_price \<le> 0 then None
                else
                  let slip_fraction = ddiv (dsub eff_price spot_price) spot_price;
                      slip_bps = trunc (dmul slip_fraction 10000)
                  in Some (max 0 slip_bps))"

definition check_volume :: "liquidity_thresholds \<Rightarrow> liquidity_inputs \<Rightarrow> liquidity_hit option" where
  "check_volume t i =
     (case volume_24h_lamports i of
        None \<Rightarrow> Some (LiquidityRejectHit LQ_INPUT_INCOMPLETE None None None)
      | Some vol \<Rightarrow>
          let pos = intended_position_lamports i;
              required = dmul (min_volume_multiple t) (of_int pos);
              required_int = trunc required + (if required \<noteq> of_int (trunc required) then 1 else 0)
          in if vol < required_int
             then Some (LiquidityRejectHit LQ_VOLUME_BELOW_MULTIPLE (Some vol) (Some required_int)
                          (Some (ddiv (of_int vol) (of_int pos))))
             else None)"

definition check_slippage :: "liquidity_thresholds \<Rightarrow> liquidity_inputs \<Rightarrow> liquidity_hit option" where
  "check_slippage t i =
     (case (lq_sol_reserve_lamports i, lq_token_reserve_base i) of
        (Some sol_reserve, Some token_reserve) \<Rightarrow>
          (case simulate_entry_slippage_bps sol_reserve token_reserve (intended_position_lamports i) of
             None \<Rightarrow> Some (LiquidityRejectHit LQ_INPUT_INCOMPLETE None None None)
           | Some slip \<Rightarrow>
               if max_sim_slippage_bps t < slip
               then Some (LiquidityRejectHit LQ_SIM_SLIPPAGE_TOO_HIGH (Some slip)
                            (Some (max_sim_slippage_bps t)) None)
               else None)
      | _ \<Rightarrow> Some (LiquidityRejectHit LQ_INPUT_INCOMPLETE None None None))"

definition liquidity_reject_decision :: "liquidity_inputs \<Rightarrow> liquidity_hit list \<Rightarrow> liquidity_decision" where
  "liquidity_reject_decision i hits =
     \<lparr>ld_mint = lq_mint i, ld_verdict = REJECT, ld_rejects = hits,
      ld_event_slot = lq_event_slot i, ld_event_block_time_ms = lq_event_block_time_ms i\<rparr>"

definition liquidity_pass_decision :: "liquidity_inputs \<Rightarrow> liquidity_decision" where
  "liquidity_pass_decision i =
     \<lparr>ld_mint = lq_mint i, ld_verdict = PASS, ld_rejects = [],
      ld_event_slot = lq_event_slot i, ld_event_block_time_ms = lq_event_block_time_ms i\<rparr>"

definition liquidity_evaluate :: "liquidity_thresholds \<Rightarrow> liquidity_inputs \<Rightarrow> liquidity_decision" where
  "liquidity_evaluate t i =
     (if lq_max_staleness_ms t < lq_data_staleness_ms i
      then liquidity_reject_decision i
             [LiquidityRejectHit LQ_INPUT_STALE (Some (lq_data_staleness_ms i))
                (Some (lq_max_staleness_ms t)) None]
      else case first_hit (\<lambda>check. check t i) [check_volume, check_slippage] of
             Some h \<Rightarrow> liquidity_reject_decision i [h]
           | None \<Rightarrow> liquidity_pass_decision i)"

definition liquidity_scan_all :: "liquidity_thresholds \<Rightarrow> liquidity_inputs \<Rightarrow> liquidity_decision" where
  "liquidity_scan_all t i =
     (let hits =
        (if lq_max_staleness_ms t < lq_data_staleness_ms i
         then [LiquidityRejectHit LQ_INPUT_STALE (Some (lq_data_staleness_ms i))
                 (Some (lq_max_staleness_ms t)) None]
         else []) @ all_hits (\<lambda>check. check t i) [check_volume, check_slippage]
      in if hits \<noteq> [] then liquidity_reject_decision i hits else liquidity_pass_decision i)"

definition liquidity_require_enabled :: "bool \<Rightarrow> liquidity_decision \<Rightarrow> bool" where
  "liquidity_require_enabled enabled d \<longleftrightarrow> enabled \<and> ld_passed d"

subsection \<open>The creator and token denylist\<close>

text \<open>
  A JSON document as \<open>json.loads\<close> returns it (an object is a dictionary); numbers enter the
  denylist only through their truth value.
\<close>

datatype json =
    JNull
  | JBool bool
  | JNum rat
  | JStr string
  | JList "json list"
  | JObj "(string \<times> json) list"

fun json_truthy :: "json \<Rightarrow> bool" where
  "json_truthy JNull = False"
| "json_truthy (JBool b) = b"
| "json_truthy (JNum q) = (q \<noteq> 0)"
| "json_truthy (JStr s) = (s \<noteq> [])"
| "json_truthy (JList xs) = (xs \<noteq> [])"
| "json_truthy (JObj d) = (d \<noteq> [])"

text \<open>\<open>str.strip\<close>: the white space of the characters below 256.\<close>

definition py_space :: "char \<Rightarrow> bool" where
  "py_space c \<longleftrightarrow>
     (let n = (of_char c :: nat) in 9 \<le> n \<and> n \<le> 13 \<or> 28 \<le> n \<and> n \<le> 32 \<or> n = 133 \<or> n = 160)"

definition py_strip :: "string \<Rightarrow> string" where
  "py_strip s = rev (dropWhile py_space (rev (dropWhile py_space s)))"

record deny_allow_snapshot =
  denied_creators :: "string set"
  denied_mints :: "string set"
  allowed_creators :: "string set"
  allowed_mints :: "string set"
  source_mtime_ns :: int
  source_size :: int
  version :: json

definition empty_snapshot :: deny_allow_snapshot where
  "empty_snapshot =
     \<lparr>denied_creators = {}, denied_mints = {}, allowed_creators = {}, allowed_mints = {},
      source_mtime_ns = 0, source_size = 0, version = JStr []\<rparr>"

definition is_creator_denied :: "deny_allow_snapshot \<Rightarrow> string option \<Rightarrow> bool" where
  "is_creator_denied s creator \<longleftrightarrow> (case creator of None \<Rightarrow> False | Some c \<Rightarrow> c \<in> denied_creators s)"

definition is_mint_denied :: "deny_allow_snapshot \<Rightarrow> mint option \<Rightarrow> bool" where
  "is_mint_denied s m \<longleftrightarrow> (case m of None \<Rightarrow> False | Some x \<Rightarrow> x \<in> denied_mints s)"

definition is_creator_allowed :: "deny_allow_snapshot \<Rightarrow> string option \<Rightarrow> bool" where
  "is_creator_allowed s creator \<longleftrightarrow> (case creator of None \<Rightarrow> False | Some c \<Rightarrow> c \<in> allowed_creators s)"

definition is_mint_allowed :: "deny_allow_snapshot \<Rightarrow> mint option \<Rightarrow> bool" where
  "is_mint_allowed s m \<longleftrightarrow> (case m of None \<Rightarrow> False | Some x \<Rightarrow> x \<in> allowed_mints s)"

text \<open>The value of one entry: a bare string, or the string under \<open>key\<close> of an object; skipped otherwise.\<close>

fun entry_value :: "string \<Rightarrow> json \<Rightarrow> string option" where
  "entry_value key (JStr s) = Some (py_strip s)"
| "entry_value key (JObj d) =
     (case map_of d key of Some (JStr raw) \<Rightarrow> Some (py_strip raw) | _ \<Rightarrow> None)"
| "entry_value key _ = None"

definition add_entry :: "string \<Rightarrow> string set \<Rightarrow> json \<Rightarrow> string set" where
  "add_entry key out entry =
     (case entry_value key entry of
        Some val \<Rightarrow> if val \<noteq> [] then insert val out else out
      | None \<Rightarrow> out)"

definition coerce_str_set :: "json option \<Rightarrow> string \<Rightarrow> string set result" where
  "coerce_str_set items key =
     (case items of
        None \<Rightarrow> Inr {}
      | Some JNull \<Rightarrow> Inr {}
      | Some (JList entries) \<Rightarrow> Inr (foldl (add_entry key) {} entries)
      | Some _ \<Rightarrow> Inl ValueError)"

text \<open>\<open>doc.get(key) or {}\<close>\<close>

definition get_or_empty :: "(string \<times> json) list \<Rightarrow> string \<Rightarrow> json" where
  "get_or_empty d key =
     (case map_of d key of
        None \<Rightarrow> JObj []
      | Some v \<Rightarrow> if json_truthy v then v else JObj [])"

definition parse_snapshot :: "json \<Rightarrow> int \<Rightarrow> int \<Rightarrow> deny_allow_snapshot result" where
  "parse_snapshot doc mtime_ns fsize =
     (case doc of
        JObj d \<Rightarrow>
          (case (get_or_empty d ''denylist'', get_or_empty d ''allowlist'') of
             (JObj deny, JObj allow) \<Rightarrow>
               rbind (coerce_str_set (map_of deny ''creators'') ''wallet'') (\<lambda>dc.
               rbind (coerce_str_set (map_of deny ''mints'') ''mint'') (\<lambda>dm.
               rbind (coerce_str_set (map_of allow ''creators'') ''wallet'') (\<lambda>ac.
               rbind (coerce_str_set (map_of allow ''mints'') ''mint'') (\<lambda>am.
               Inr \<lparr>denied_creators = dc, denied_mints = dm, allowed_creators = ac,
                    allowed_mints = am, source_mtime_ns = mtime_ns, source_size = fsize,
                    version = (case map_of d ''version'' of None \<Rightarrow> JStr [] | Some v \<Rightarrow> v)\<rparr>))))
           | _ \<Rightarrow> Inl ValueError)
      | _ \<Rightarrow> Inl ValueError)"

text \<open>
  What the file system holds when the watcher looks: nothing (\<open>stat\<close> fails), or a file with its
  modification time, its size, and its content, which is absent when reading or \<open>json.loads\<close> fails.
\<close>

record deny_file =
  df_mtime_ns :: int
  df_size :: int
  df_doc :: "json option"

record deny_watcher =
  dw_reload_throttle_s :: rat
  dw_snapshot :: deny_allow_snapshot
  dw_last_stat_at :: rat
  dw_loaded_mtime_ns :: int
  dw_loaded_size :: int

definition deny_load :: "deny_watcher \<Rightarrow> deny_file option \<Rightarrow> bool \<Rightarrow> deny_watcher \<times> bool" where
  "deny_load w file force =
     (case file of
        None \<Rightarrow> (w, False)
      | Some f \<Rightarrow>
          if \<not> force \<and> df_mtime_ns f = dw_loaded_mtime_ns w \<and> df_size f = dw_loaded_size w
          then (w, False)
          else
            case df_doc f of
              None \<Rightarrow> (w, False)
            | Some doc \<Rightarrow>
                case parse_snapshot doc (df_mtime_ns f) (df_size f) of
                  Inl _ \<Rightarrow> (w, False)
                | Inr snap \<Rightarrow>
                    (w\<lparr>dw_snapshot := snap, dw_loaded_mtime_ns := df_mtime_ns f,
                       dw_loaded_size := df_size f\<rparr>, True))"

definition mk_DenyAllowWatcher :: "rat \<Rightarrow> rat \<Rightarrow> deny_file option \<Rightarrow> deny_watcher" where
  "mk_DenyAllowWatcher throttle now file =
     fst (deny_load \<lparr>dw_reload_throttle_s = throttle, dw_snapshot = empty_snapshot,
                     dw_last_stat_at = now, dw_loaded_mtime_ns = - 1, dw_loaded_size = - 1\<rparr> file True)"

definition maybe_reload ::
  "deny_watcher \<Rightarrow> rat \<Rightarrow> deny_file option \<Rightarrow> bool \<Rightarrow> deny_watcher \<times> bool" where
  "maybe_reload w now file force =
     (if \<not> force \<and> fsub now (dw_last_stat_at w) < dw_reload_throttle_s w then (w, False)
      else deny_load (w\<lparr>dw_last_stat_at := now\<rparr>) file force)"

definition check_keys :: "deny_watcher \<Rightarrow> string option \<Rightarrow> mint option \<Rightarrow> red_flag_hit option" where
  "check_keys w creator m =
     (let snap = dw_snapshot w in
      if is_creator_denied snap creator then Some (RedFlagHit CREATOR_DENYLISTED None None)
      else if is_mint_denied snap m then Some (RedFlagHit MINT_DENYLISTED None None)
      else None)"

definition is_allowed :: "deny_watcher \<Rightarrow> string option \<Rightarrow> mint option \<Rightarrow> bool" where
  "is_allowed w creator m \<longleftrightarrow>
     is_creator_allowed (dw_snapshot w) creator \<or> is_mint_allowed (dw_snapshot w) m"

record pre_gate_result =
  pg_mint :: mint
  pg_passed :: bool
  pg_denylist_hit :: "red_flag_hit option"
  pg_gate_decision :: "gate_decision option"
  pg_was_allowlisted :: bool
  pg_event_slot :: int
  pg_event_block_time_ms :: millis

definition evaluate_with_denylist ::
  "deny_watcher \<Rightarrow> (safety_inputs \<Rightarrow> gate_decision) \<Rightarrow> safety_inputs \<Rightarrow> string option \<Rightarrow> mint \<Rightarrow>
   int \<Rightarrow> millis \<Rightarrow> pre_gate_result" where
  "evaluate_with_denylist w gate i creator m event_slot block_time =
     (let was_allowlisted = is_allowed w creator (Some m) in
      case check_keys w creator (Some m) of
        Some hit \<Rightarrow>
          \<lparr>pg_mint = m, pg_passed = False, pg_denylist_hit = Some hit, pg_gate_decision = None,
           pg_was_allowlisted = was_allowlisted, pg_event_slot = event_slot,
           pg_event_block_time_ms = block_time\<rparr>
      | None \<Rightarrow>
          let decision = gate i in
          \<lparr>pg_mint = m, pg_passed = gd_passed decision, pg_denylist_hit = None,
           pg_gate_decision = Some decision, pg_was_allowlisted = was_allowlisted,
           pg_event_slot = event_slot, pg_event_block_time_ms = block_time\<rparr>)"

subsection \<open>The safety gate refuses by default\<close>

text \<open>The staleness guard is the check \<open>INPUT_STALE\<close> in front of the fixed order.\<close>

definition safety_check :: "safety_thresholds \<Rightarrow> safety_inputs \<Rightarrow> red_flag \<Rightarrow> red_flag_hit option" where
  "safety_check t i f =
     (if f = INPUT_STALE
      then if max_staleness_ms t < si_data_staleness_ms i
           then Some (RedFlagHit INPUT_STALE (Some (si_data_staleness_ms i)) (Some (max_staleness_ms t)))
           else None
      else check_one t i f)"

definition safety_tighter :: "safety_thresholds \<Rightarrow> safety_thresholds \<Rightarrow> bool" where
  "safety_tighter t t' \<longleftrightarrow>
     min_lp_locked_bps t \<le> min_lp_locked_bps t' \<and>
     max_holder_concentration_top10_bps t' \<le> max_holder_concentration_top10_bps t \<and>
     min_distinct_holders t \<le> min_distinct_holders t' \<and>
     max_dev_bundle_cluster_bps t' \<le> max_dev_bundle_cluster_bps t \<and>
     max_sell_tax_bps t' \<le> max_sell_tax_bps t \<and> max_buy_tax_bps t' \<le> max_buy_tax_bps t \<and>
     max_staleness_ms t' \<le> max_staleness_ms t"

interpretation sg: ordered_gate safety_check "INPUT_STALE # HOT_CHECK_ORDER" safety_tighter
proof
  fix t t' i c
  assume *: "safety_tighter t t'" "safety_check t i c \<noteq> None"
  then show "safety_check t' i c \<noteq> None"
    by (cases c) (auto simp: safety_tighter_def safety_check_def split: option.splits if_splits)
qed

lemma stale_not_hot: "f \<in> set HOT_CHECK_ORDER \<Longrightarrow> safety_check t i f = check_one t i f"
  by (auto simp: safety_check_def HOT_CHECK_ORDER_def)

lemma hot_hits:
  "first_hit (safety_check t i) HOT_CHECK_ORDER = first_hit (check_one t i) HOT_CHECK_ORDER"
  "all_hits (safety_check t i) HOT_CHECK_ORDER = all_hits (check_one t i) HOT_CHECK_ORDER"
  by (auto intro!: first_hit_cong all_hits_cong simp: stale_not_hot)

lemma evaluate_fast_sg:
  "evaluate_fast t i = (if sg.fast t i = [] then gate_pass i else gate_reject i (sg.fast t i))"
  by (simp add: evaluate_fast_def sg.fast_def hot_hits safety_check_def split: option.splits)

lemma scan_all_sg:
  "scan_all t i = (if sg.scan t i = [] then gate_pass i else gate_reject i (sg.scan t i))"
  by (simp add: scan_all_def sg.scan_def hot_hits safety_check_def)

text \<open>What an input that passes has been shown to satisfy.\<close>

definition safety_clean :: "safety_thresholds \<Rightarrow> safety_inputs \<Rightarrow> bool" where
  "safety_clean t i \<longleftrightarrow>
     si_data_staleness_ms i \<le> max_staleness_ms t \<and> authorities_decoded i \<and>
     \<not> truthy (freeze_authority i) \<and> \<not> truthy (mint_authority i) \<and>
     (\<exists>v. lp_locked_or_burned_bps i = Some v \<and> min_lp_locked_bps t \<le> v) \<and>
     (\<exists>v. dev_bundle_cluster_bps i = Some v \<and> v \<le> max_dev_bundle_cluster_bps t) \<and>
     (\<exists>v. holder_concentration_top10_bps i = Some v \<and> v \<le> max_holder_concentration_top10_bps t) \<and>
     (\<exists>v. holder_count i = Some v \<and> min_distinct_holders t \<le> v) \<and>
     (\<exists>v. sell_tax_bps i = Some v \<and> v \<le> max_sell_tax_bps t) \<and>
     (\<exists>v. buy_tax_bps i = Some v \<and> v \<le> max_buy_tax_bps t)"

lemma safety_scan_empty_iff: "sg.scan t i = [] \<longleftrightarrow> safety_clean t i"
  unfolding sg.scan_empty_iff safety_clean_def
  by (auto simp: HOT_CHECK_ORDER_def safety_check_def not_less split: option.splits if_splits)

lemma evaluate_fast_passed_iff: "gd_passed (evaluate_fast t i) \<longleftrightarrow> safety_clean t i"
  by (simp add: evaluate_fast_sg sg.fast_empty_iff safety_scan_empty_iff gd_passed_def
      gate_pass_def gate_reject_def)

lemma scan_all_passed_iff: "gd_passed (scan_all t i) \<longleftrightarrow> safety_clean t i"
  by (simp add: scan_all_sg safety_scan_empty_iff gd_passed_def gate_pass_def gate_reject_def)

text \<open>
  C32. The safety gate is sound and complete, on both paths: a candidate passes exactly when its
  snapshot is fresh, both authorities are decoded and absent, and each of the six measurements is
  present and within its threshold. The hot path agrees with the audit path on the verdict and
  reports exactly the first of the audit path's red flags.
\<close>

theorem safety_gate_fast_matches_scan:
  "(gd_passed (evaluate_fast t i) \<longleftrightarrow> safety_clean t i) \<and>
   gd_verdict (evaluate_fast t i) = gd_verdict (scan_all t i) \<and>
   gd_red_flags (evaluate_fast t i) = take 1 (gd_red_flags (scan_all t i)) \<and>
   (gd_passed (evaluate_fast t i) \<longleftrightarrow> gd_red_flags (scan_all t i) = [])"
proof -
  have "gd_red_flags (evaluate_fast t i) = sg.fast t i" "gd_red_flags (scan_all t i) = sg.scan t i"
    by (simp_all add: evaluate_fast_sg scan_all_sg gate_pass_def gate_reject_def)
  moreover have "gd_verdict (evaluate_fast t i) = gd_verdict (scan_all t i)"
    by (simp add: evaluate_fast_sg scan_all_sg sg.fast_empty_iff gate_pass_def gate_reject_def)
  ultimately show ?thesis
    by (simp add: evaluate_fast_passed_iff safety_scan_empty_iff sg.fast_take_scan)
qed

text \<open>
  Tightening any threshold of the safety gate never admits a candidate the looser gate
  refused, and the kill-switch of the gate fails closed: with the gate disabled no decision
  admits an entry, and without a sell-simulation probe no candidate counts as sellable.
\<close>

theorem safety_gate_fails_closed:
  "(safety_tighter t t' \<longrightarrow> gd_passed (evaluate_fast t' i) \<longrightarrow> gd_passed (evaluate_fast t i)) \<and>
   \<not> require_enabled_for_entry False d \<and>
   (require_enabled_for_entry enabled (evaluate_fast t i) \<longrightarrow> safety_clean t i) \<and>
   check_sellability i None \<noteq> None \<and>
   (check_sellability i (Some probe) = None \<longleftrightarrow> probe (si_mint i) (si_event_slot i))"
  using sg.tighter_passes_less [of t t' i]
  by (auto simp: evaluate_fast_passed_iff require_enabled_for_entry_def check_sellability_def
      safety_scan_empty_iff)

definition clean_inputs :: safety_inputs where
  "clean_inputs =
     \<lparr>si_mint = ''m'', si_event_slot = 1, si_event_block_time_ms = 1, si_data_staleness_ms = 100,
      freeze_authority = None, mint_authority = None, lp_locked_or_burned_bps = Some 10000,
      dev_bundle_cluster_bps = Some 0, holder_concentration_top10_bps = Some 1200,
      sell_tax_bps = Some 0, buy_tax_bps = Some 0, authorities_decoded = True,
      holder_count = Some 250\<rparr>"

theorem safety_gate_fails_closed_witness:
  "gd_passed (evaluate_fast default_safety_thresholds clean_inputs) \<and>
   gd_passed (evaluate_fast (default_safety_thresholds\<lparr>max_sell_tax_bps := 2000\<rparr>) clean_inputs)"
  using safety_gate_fails_closed
    [of "default_safety_thresholds\<lparr>max_sell_tax_bps := 2000\<rparr>" default_safety_thresholds clean_inputs]
  by (simp add: evaluate_fast_passed_iff safety_clean_def safety_tighter_def clean_inputs_def
      default_safety_thresholds_def truthy_def)

subsection \<open>The liquidity gate\<close>

lemma round_up_le_iff:
  "0 \<le> q \<Longrightarrow> trunc q + (if q \<noteq> of_int (trunc q) then 1 else 0) \<le> v \<longleftrightarrow> q \<le> of_int v"
proof -
  assume "0 \<le> q"
  then have t: "trunc q = \<lfloor>q\<rfloor>" by (simp add: trunc_def)
  have "trunc q + (if q \<noteq> of_int (trunc q) then 1 else 0) = \<lceil>q\<rceil>"
    unfolding t by (auto simp: ceiling_altdef)
  then show ?thesis by (simp add: ceiling_le_iff)
qed

lemma check_volume_None_iff:
  assumes "0 \<le> min_volume_multiple t" and "0 \<le> intended_position_lamports i"
  shows "check_volume t i = None \<longleftrightarrow>
    (\<exists>vol. volume_24h_lamports i = Some vol \<and>
       dmul (min_volume_multiple t) (of_int (intended_position_lamports i)) \<le> of_int vol)"
proof (cases "volume_24h_lamports i")
  case (Some vol)
  define req where "req = dmul (min_volume_multiple t) (of_int (intended_position_lamports i))"
  have "0 \<le> req" unfolding req_def using assms by (intro dmul_nonneg) simp_all
  from round_up_le_iff [OF this, of vol] Some show ?thesis
    by (auto simp: check_volume_def Let_def not_less simp flip: req_def)
qed (simp add: check_volume_def)

lemma check_slippage_None_iff:
  "check_slippage t i = None \<longleftrightarrow>
    (\<exists>sol tok slip. lq_sol_reserve_lamports i = Some sol \<and> lq_token_reserve_base i = Some tok \<and>
       simulate_entry_slippage_bps sol tok (intended_position_lamports i) = Some slip \<and>
       slip \<le> max_sim_slippage_bps t)"
  by (auto simp: check_slippage_def not_less split: option.splits)

datatype liquidity_step = Fresh_step | Volume_step | Slippage_step

fun liquidity_check ::
  "liquidity_thresholds \<Rightarrow> liquidity_inputs \<Rightarrow> liquidity_step \<Rightarrow> liquidity_hit option" where
  "liquidity_check t i Fresh_step =
     (if lq_max_staleness_ms t < lq_data_staleness_ms i
      then Some (LiquidityRejectHit LQ_INPUT_STALE (Some (lq_data_staleness_ms i))
                   (Some (lq_max_staleness_ms t)) None)
      else None)"
| "liquidity_check t i Volume_step = check_volume t i"
| "liquidity_check t i Slippage_step = check_slippage t i"

definition liquidity_tighter :: "liquidity_thresholds \<Rightarrow> liquidity_thresholds \<Rightarrow> bool" where
  "liquidity_tighter t t' \<longleftrightarrow>
     min_volume_multiple t' = min_volume_multiple t \<and>
     max_sim_slippage_bps t' \<le> max_sim_slippage_bps t \<and>
     lq_max_staleness_ms t' \<le> lq_max_staleness_ms t"

interpretation lg: ordered_gate liquidity_check "[Fresh_step, Volume_step, Slippage_step]" liquidity_tighter
proof
  fix t t' i c
  assume *: "liquidity_tighter t t'" "liquidity_check t i c \<noteq> None"
  then show "liquidity_check t' i c \<noteq> None"
    by (cases c) (auto simp: liquidity_tighter_def check_volume_def check_slippage_def Let_def
        split: option.splits if_splits)
qed

lemma liquidity_evaluate_lg:
  "liquidity_evaluate t i =
     (if lg.fast t i = [] then liquidity_pass_decision i else liquidity_reject_decision i (lg.fast t i))"
  by (simp add: liquidity_evaluate_def lg.fast_def split: option.splits)

lemma liquidity_scan_all_lg:
  "liquidity_scan_all t i =
     (if lg.scan t i = [] then liquidity_pass_decision i else liquidity_reject_decision i (lg.scan t i))"
  by (simp add: liquidity_scan_all_def lg.scan_def)

text \<open>
  The liquidity gate passes a candidate exactly when its snapshot is fresh, the daily volume is
  known and at least the required multiple of the intended ticket, and the constant-product entry
  of that ticket can be simulated on known reserves with a slippage within the cap. The hot path
  reports exactly the first refusal of the audit path.
\<close>

theorem liquidity_gate_sound_complete:
  assumes "mk_LiquidityThresholds t = Inr t" and "mk_LiquidityInputs i = Inr i"
  shows "ld_passed (liquidity_evaluate t i) \<longleftrightarrow>
      lq_data_staleness_ms i \<le> lq_max_staleness_ms t \<and>
      (\<exists>vol. volume_24h_lamports i = Some vol \<and>
         dmul (min_volume_multiple t) (of_int (intended_position_lamports i)) \<le> of_int vol) \<and>
      (\<exists>sol tok slip. lq_sol_reserve_lamports i = Some sol \<and> lq_token_reserve_base i = Some tok \<and>
         simulate_entry_slippage_bps sol tok (intended_position_lamports i) = Some slip \<and>
         slip \<le> max_sim_slippage_bps t)"
    and "ld_verdict (liquidity_evaluate t i) = ld_verdict (liquidity_scan_all t i)"
    and "ld_rejects (liquidity_evaluate t i) = take 1 (ld_rejects (liquidity_scan_all t i))"
proof -
  have "0 \<le> min_volume_multiple t" "0 \<le> intended_position_lamports i"
    using assms by (auto simp: mk_LiquidityThresholds_def mk_LiquidityInputs_def split: if_splits)
  note vol = check_volume_None_iff [OF this]
  have "ld_passed (liquidity_evaluate t i) \<longleftrightarrow> lg.scan t i = []"
    by (simp add: liquidity_evaluate_lg lg.fast_empty_iff ld_passed_def liquidity_pass_decision_def
        liquidity_reject_decision_def)
  then show "ld_passed (liquidity_evaluate t i) \<longleftrightarrow>
      lq_data_staleness_ms i \<le> lq_max_staleness_ms t \<and>
      (\<exists>vol. volume_24h_lamports i = Some vol \<and>
         dmul (min_volume_multiple t) (of_int (intended_position_lamports i)) \<le> of_int vol) \<and>
      (\<exists>sol tok slip. lq_sol_reserve_lamports i = Some sol \<and> lq_token_reserve_base i = Some tok \<and>
         simulate_entry_slippage_bps sol tok (intended_position_lamports i) = Some slip \<and>
         slip \<le> max_sim_slippage_bps t)"
    by (simp add: lg.scan_empty_iff vol check_slippage_None_iff not_less)
  show "ld_verdict (liquidity_evaluate t i) = ld_verdict (liquidity_scan_all t i)"
    by (simp add: liquidity_evaluate_lg liquidity_scan_all_lg lg.fast_empty_iff
        liquidity_pass_decision_def liquidity_reject_decision_def)
  show "ld_rejects (liquidity_evaluate t i) = take 1 (ld_rejects (liquidity_scan_all t i))"
    by (simp add: liquidity_evaluate_lg liquidity_scan_all_lg lg.fast_take_scan
        liquidity_pass_decision_def liquidity_reject_decision_def)
qed

definition liquid_inputs :: liquidity_inputs where
  "liquid_inputs =
     \<lparr>lq_mint = ''m'', lq_event_slot = 1, lq_event_block_time_ms = 1, lq_data_staleness_ms = 0,
      intended_position_lamports = 100, volume_24h_lamports = Some 1000,
      lq_sol_reserve_lamports = Some 10000, lq_token_reserve_base = Some 1000000\<rparr>"

theorem liquidity_gate_sound_complete_witness:
  "ld_passed (liquidity_evaluate default_liquidity_thresholds liquid_inputs)"
proof -
  have t: "mk_LiquidityThresholds default_liquidity_thresholds = Inr default_liquidity_thresholds"
    by (simp add: mk_LiquidityThresholds_def default_liquidity_thresholds_def)
  have i: "mk_LiquidityInputs liquid_inputs = Inr liquid_inputs"
    by (simp add: mk_LiquidityInputs_def liquid_inputs_def)
  have "simulate_entry_slippage_bps 10000 1000000 100 = Some 99" by code_simp
  moreover have "dmul 10 (of_int 100) = 1000" by code_simp
  ultimately show ?thesis
    unfolding liquidity_gate_sound_complete(1) [OF t i]
    by (simp add: liquid_inputs_def default_liquidity_thresholds_def)
qed

lemma sold_tokens_pos:
  fixes R T s :: int
  assumes "0 < R" and "0 < T" and "0 < s"
  shows "0 < T - R * T div (R + s)"
proof -
  have "R * T < T * (R + s)" using assms by (simp add: algebra_simps)
  moreover have "0 < R + s" using assms by simp
  ultimately have "R * T div (R + s) < T" by (simp add: int_div_less_iff)
  then show ?thesis by simp
qed

lemma simulate_defined_iff:
  "(\<exists>slip. simulate_entry_slippage_bps R T s = Some slip) \<longleftrightarrow> 0 < R \<and> 0 < T \<and> 0 < s"
proof (cases "0 < R \<and> 0 < T \<and> 0 < s")
  case True
  then have "0 < ddiv (of_int R) (of_int T)" by (intro ddiv_pos) simp_all
  then show ?thesis
    using True sold_tokens_pos [of R T s]
    by (simp add: simulate_entry_slippage_bps_def Let_def not_le)
next
  case False
  then show ?thesis by (auto simp: simulate_entry_slippage_bps_def)
qed

subsection \<open>The denylist\<close>

lemma foldl_add_entry:
  "foldl (add_entry key) out entries =
     out \<union> {v. v \<noteq> [] \<and> (\<exists>e \<in> set entries. entry_value key e = Some v)}"
  by (induction entries arbitrary: out) (auto simp: add_entry_def split: option.splits)

lemma check_keys_None_iff:
  "check_keys w creator m = None \<longleftrightarrow>
     \<not> is_creator_denied (dw_snapshot w) creator \<and> \<not> is_mint_denied (dw_snapshot w) m"
  by (simp add: check_keys_def Let_def)

text \<open>
  The denylist is a veto in front of the safety gate and the allowlist is no waiver: a candidate
  passes exactly when neither its creator nor its mint is denied and the gate itself passes it; a
  denied candidate is refused before the gate is consulted, also when it is allowlisted.
\<close>

theorem denylist_vetoes_before_gate:
  "(pg_passed (evaluate_with_denylist w gate i creator m sl bt) \<longleftrightarrow>
      \<not> is_creator_denied (dw_snapshot w) creator \<and> \<not> is_mint_denied (dw_snapshot w) (Some m) \<and>
      gd_passed (gate i)) \<and>
   (is_creator_denied (dw_snapshot w) creator \<or> is_mint_denied (dw_snapshot w) (Some m) \<longleftrightarrow>
      pg_gate_decision (evaluate_with_denylist w gate i creator m sl bt) = None) \<and>
   pg_denylist_hit (evaluate_with_denylist w gate i creator m sl bt) = check_keys w creator (Some m) \<and>
   pg_passed (evaluate_with_denylist
       (w\<lparr>dw_snapshot := dw_snapshot w\<lparr>allowed_creators := ac, allowed_mints := am\<rparr>\<rparr>)
       gate i creator m sl bt) =
     pg_passed (evaluate_with_denylist w gate i creator m sl bt)"
  by (auto simp: evaluate_with_denylist_def Let_def check_keys_def is_creator_denied_def
      is_mint_denied_def split: option.splits if_splits)

lemma deny_load_cases:
  "deny_load w fl force = (w, False) \<or>
   (\<exists>f doc snap. fl = Some f \<and> df_doc f = Some doc \<and>
      parse_snapshot doc (df_mtime_ns f) (df_size f) = Inr snap \<and>
      deny_load w fl force =
        (w\<lparr>dw_snapshot := snap, dw_loaded_mtime_ns := df_mtime_ns f, dw_loaded_size := df_size f\<rparr>, True))"
  by (cases fl) (auto simp: deny_load_def split: option.splits sum.splits)

lemma maybe_reload_cases:
  "dw_snapshot (fst (maybe_reload w now fl force)) = dw_snapshot w \<or>
   (\<exists>f doc. fl = Some f \<and> df_doc f = Some doc \<and>
      parse_snapshot doc (df_mtime_ns f) (df_size f) =
        Inr (dw_snapshot (fst (maybe_reload w now fl force))))"
  using deny_load_cases [of "w\<lparr>dw_last_stat_at := now\<rparr>" fl force]
  by (auto simp: maybe_reload_def)

definition poll_deny :: "deny_watcher \<Rightarrow> rat \<times> deny_file option \<times> bool \<Rightarrow> deny_watcher" where
  "poll_deny w p = (case p of (now, file, force) \<Rightarrow> fst (maybe_reload w now file force))"

text \<open>A file keeps a creator denied when it is unusable or still lists the creator.\<close>

definition keeps_creator_denied :: "string \<Rightarrow> deny_file option \<Rightarrow> bool" where
  "keeps_creator_denied c file \<longleftrightarrow>
     (case file of None \<Rightarrow> True | Some f \<Rightarrow>
        (case df_doc f of None \<Rightarrow> True | Some doc \<Rightarrow>
           (case parse_snapshot doc (df_mtime_ns f) (df_size f) of
              Inl _ \<Rightarrow> True | Inr snap \<Rightarrow> c \<in> denied_creators snap)))"

lemma polls_keep_denied:
  "c \<in> denied_creators (dw_snapshot w) \<Longrightarrow>
   \<forall>(now, file, force) \<in> set polls. keeps_creator_denied c file \<Longrightarrow>
   c \<in> denied_creators (dw_snapshot (foldl poll_deny w polls))"
proof (induction polls arbitrary: w)
  case (Cons p polls)
  obtain now fl force where p: "p = (now, fl, force)" by (cases p)
  have "c \<in> denied_creators (dw_snapshot (poll_deny w p))"
    using Cons.prems p maybe_reload_cases [of w now fl force]
    by (auto simp: poll_deny_def keeps_creator_denied_def)
  with Cons show ?case by simp
qed simp


definition deny_doc :: "string \<Rightarrow> json" where
  "deny_doc c =
     JObj [(''denylist'', JObj [(''creators'', JList [JObj [(''wallet'', JStr c)], JStr '' x '', JNull])])]"

definition demo_watcher :: deny_watcher where
  "demo_watcher = mk_DenyAllowWatcher 2 0 (Some \<lparr>df_mtime_ns = 1, df_size = 10, df_doc = Some (deny_doc ''rugger'')\<rparr>)"

lemma demo_watcher_denies: "''rugger'' \<in> denied_creators (dw_snapshot demo_watcher)"
  by code_simp

end
