(* ===== verification/Breaker.thy ===== *)
theory Breaker
  imports Interfaces
begin

text \<open>
  The daily-loss circuit breaker, \<open>aats/risk/circuit_breaker.py\<close>. The object's fields are the
  record \<open>breaker\<close>; together with them it keeps the durable \<open>BreakerStore\<close> (\<open>b_store\<close>) and the
  log of calls to the flatten handler (\<open>b_flattens\<close>). A method returns the new object and the
  returned value or exception: a Python method that raises keeps the assignments made before
  the raise, and so does the model. The lock makes each method atomic; telemetry is left out.
  A UTC day is \<open>block_time_ms div 86400000\<close>.
\<close>

subsection \<open>Events, credentials and state\<close>

record pnl_event =
  pe_mint :: mint
  pe_block_time_ms :: millis
  pe_delta_lamports :: lamports

definition mk_PnLEvent :: "pnl_event \<Rightarrow> pnl_event result" where
  "mk_PnLEvent e = (if pe_block_time_ms e < 0 then Inl ValueError else Inr e)"

text \<open>
  What a caller of \<open>reset\<close> presents: a token minted for an operator, or any other object. The
  only constructor of a token is \<open>mint_operator_reset_token\<close>.
\<close>

datatype credential = OperatorResetToken string | OtherObject

definition mint_operator_reset_token :: "string \<Rightarrow> credential result" where
  "mint_operator_reset_token operator_id =
     (if operator_id = [] then Inl ValueError else Inr (OperatorResetToken operator_id))"

datatype posture = NORMAL | REDUCED

record trip_decision =
  td_tripped :: bool
  td_threshold_breached :: "audit option"
  td_soft_breached :: bool
  td_soft_threshold_breached :: "audit option"

record breaker =
  b_config :: risk_config
  b_soft_ratio :: decimal
  b_day_pnl :: "int \<rightharpoonup> lamports"
  b_soft_reduced_days :: "int set"
  b_current_day :: "int option"
  b_state :: breaker_state
  b_store :: "breaker_state option"
  b_flattens :: "audit option list"

definition DEFAULT_SOFT_RATIO :: decimal where
  "DEFAULT_SOFT_RATIO = 6667 / 10000"

definition armed_zero :: breaker_state where
  "armed_zero = \<lparr>status = ARMED, tripped_at_utc = None, daily_net_pnl_lamports = 0,
                 daily_net_pnl_day_utc = None, threshold_breached = None\<rparr>"

subsection \<open>Limits and the pure decision\<close>

definition utc_day_key :: "millis \<Rightarrow> int" where
  "utc_day_key ms = ms div 86400000"

definition quantize_tenth_down :: "decimal \<Rightarrow> decimal" where
  "quantize_tenth_down x = of_int (trunc (x * 10)) / 10"

definition soft_limit_pct :: "decimal \<Rightarrow> risk_config \<Rightarrow> decimal" where
  "soft_limit_pct ratio c =
     (let exact = dmul (daily_loss_limit_pct c) ratio;
          soft = quantize_tenth_down exact in
      if 0 < soft then soft else exact)"

definition pct_limit_lamports :: "risk_config \<Rightarrow> lamports" where
  "pct_limit_lamports c =
     - trunc (ddiv (dmul (of_int (daily_risk_tranche_lamports c)) (daily_loss_limit_pct c)) 100)"

definition floor_limit_lamports :: "risk_config \<Rightarrow> lamports" where
  "floor_limit_lamports c = - daily_loss_floor_lamports c"

definition soft_limit_lamports :: "decimal \<Rightarrow> risk_config \<Rightarrow> lamports" where
  "soft_limit_lamports ratio c =
     - trunc (ddiv (dmul (of_int (daily_risk_tranche_lamports c)) (soft_limit_pct ratio c)) 100)"

definition breaker_evaluate :: "decimal \<Rightarrow> risk_config \<Rightarrow> lamports \<Rightarrow> trip_decision result" where
  "breaker_evaluate ratio c net =
     (let pct_limit = pct_limit_lamports c;
          floor_limit = floor_limit_lamports c;
          crossed_soft = net \<le> soft_limit_lamports ratio c;
          soft_desc = (if crossed_soft then Some (Audit ''% tranche (soft)'' [soft_limit_pct ratio c]) else None);
          crossed_pct = net \<le> pct_limit;
          crossed_floor = net \<le> floor_limit in
      if crossed_pct \<or> crossed_floor
      then let breached =
             (if crossed_floor \<and> (\<not> crossed_pct \<or> floor_limit \<ge> pct_limit)
              then Audit '' SOL'' [ddiv (of_int (daily_loss_floor_lamports c)) 1000000000]
              else Audit ''% tranche'' [daily_loss_limit_pct c]) in
           rbind (guard crossed_soft AssertionError) (\<lambda>_.
           Inr \<lparr>td_tripped = True, td_threshold_breached = Some breached,
                td_soft_breached = True, td_soft_threshold_breached = soft_desc\<rparr>)
      else Inr \<lparr>td_tripped = False, td_threshold_breached = None,
                td_soft_breached = crossed_soft, td_soft_threshold_breached = soft_desc\<rparr>)"

subsection \<open>Construction (first boot and restart)\<close>

definition new_breaker ::
    "risk_config \<Rightarrow> breaker_state option \<Rightarrow> audit option list \<Rightarrow> decimal option \<Rightarrow> breaker result" where
  "new_breaker config store flattens soft_ratio =
     (let ratio = (case soft_ratio of None \<Rightarrow> DEFAULT_SOFT_RATIO | Some r \<Rightarrow> r) in
      rbind (guard (0 < ratio \<and> ratio < 1) ValueError) (\<lambda>_.
      case store of
        None \<Rightarrow>
          Inr \<lparr>b_config = config, b_soft_ratio = ratio, b_day_pnl = Map.empty,
               b_soft_reduced_days = {}, b_current_day = None, b_state = armed_zero,
               b_store = Some armed_zero, b_flattens = flattens\<rparr>
      | Some restored \<Rightarrow>
          let persisted_day = daily_net_pnl_day_utc restored;
              persisted_net = daily_net_pnl_lamports restored in
          rbind (if persisted_net \<noteq> 0
                 then (case persisted_day of None \<Rightarrow> Inl ValueError
                                           | Some d \<Rightarrow> Inr [d \<mapsto> persisted_net])
                 else Inr Map.empty) (\<lambda>day_pnl.
          rbind (case persisted_day of
                   None \<Rightarrow> Inr {}
                 | Some d \<Rightarrow>
                     if status restored = TRIPPED then Inr {d}
                     else rbind (breaker_evaluate ratio config persisted_net) (\<lambda>decision.
                          Inr (if td_soft_breached decision then {d} else {}))) (\<lambda>soft_days.
          Inr \<lparr>b_config = config, b_soft_ratio = ratio, b_day_pnl = day_pnl,
               b_soft_reduced_days = soft_days, b_current_day = persisted_day,
               b_state = restored, b_store = Some restored, b_flattens = flattens\<rparr>))))"

subsection \<open>Reads\<close>

definition is_tripped :: "breaker \<Rightarrow> bool" where
  "is_tripped b \<longleftrightarrow> status (b_state b) = TRIPPED"

definition risk_posture :: "breaker \<Rightarrow> posture" where
  "risk_posture b =
     (if status (b_state b) = TRIPPED then REDUCED
      else case b_current_day b of
          None \<Rightarrow> NORMAL
        | Some d \<Rightarrow> if d \<in> b_soft_reduced_days b then REDUCED else NORMAL)"

definition entries_allowed :: "breaker \<Rightarrow> bool" where
  "entries_allowed b \<longleftrightarrow> status (b_state b) = ARMED \<and> risk_posture b = NORMAL"

definition is_soft_reduced :: "breaker \<Rightarrow> bool" where
  "is_soft_reduced b \<longleftrightarrow> risk_posture b = REDUCED \<and> status (b_state b) = ARMED"

subsection \<open>Transitions\<close>

text \<open>
  \<open>handler\<close> is the injected \<open>emergency_flatten_all\<close>: \<open>None\<close> when it returns, an exception when
  it raises.
\<close>

definition breaker_trip ::
    "(audit option \<Rightarrow> py_exc option) \<Rightarrow> breaker \<Rightarrow> lamports \<Rightarrow> audit option \<Rightarrow> millis \<Rightarrow> int option \<Rightarrow>
     breaker \<times> unit result" where
  "breaker_trip handler b net threshold bt day_utc =
     (let b1 = (case day_utc of None \<Rightarrow> b
                | Some d \<Rightarrow> b\<lparr>b_soft_reduced_days := insert d (b_soft_reduced_days b)\<rparr>) in
      case mk_BreakerState
             \<lparr>status = TRIPPED, tripped_at_utc = Some bt, daily_net_pnl_lamports = net,
              daily_net_pnl_day_utc = (if net \<noteq> 0 then day_utc else None),
              threshold_breached =
                (case threshold of None \<Rightarrow> Some (Audit ''limit breached'' []) | Some t \<Rightarrow> Some t)\<rparr> of
        Inl e \<Rightarrow> (b1, Inl e)
      | Inr s \<Rightarrow>
          let b2 = b1\<lparr>b_state := s, b_store := Some s, b_flattens := b_flattens b1 @ [threshold]\<rparr> in
          case handler threshold of None \<Rightarrow> (b2, Inr ()) | Some e \<Rightarrow> (b2, Inl e))"

text \<open>
  The pieces of \<open>record_pnl\<close>: the day's net after the event, the object after the accumulator
  and the current day are updated, after the day is marked when the soft tier is crossed, and
  the state that is persisted when no hard trip happens.
\<close>

definition pnl_net :: "breaker \<Rightarrow> pnl_event \<Rightarrow> lamports" where
  "pnl_net b ev =
     (case b_day_pnl b (utc_day_key (pe_block_time_ms ev)) of None \<Rightarrow> 0 | Some n \<Rightarrow> n) + pe_delta_lamports ev"

definition pnl_noted :: "breaker \<Rightarrow> pnl_event \<Rightarrow> breaker" where
  "pnl_noted b ev =
     b\<lparr>b_current_day := Some (utc_day_key (pe_block_time_ms ev)),
       b_day_pnl := (b_day_pnl b)(utc_day_key (pe_block_time_ms ev) \<mapsto> pnl_net b ev)\<rparr>"

definition pnl_marked :: "breaker \<Rightarrow> pnl_event \<Rightarrow> bool \<Rightarrow> breaker" where
  "pnl_marked b ev soft =
     (if soft then (pnl_noted b ev)\<lparr>b_soft_reduced_days :=
                     insert (utc_day_key (pe_block_time_ms ev)) (b_soft_reduced_days b)\<rparr>
      else pnl_noted b ev)"

definition pnl_synced :: "breaker \<Rightarrow> pnl_event \<Rightarrow> breaker_state" where
  "pnl_synced b ev =
     (b_state b)\<lparr>daily_net_pnl_lamports := pnl_net b ev,
                 daily_net_pnl_day_utc :=
                   (if pnl_net b ev \<noteq> 0 then Some (utc_day_key (pe_block_time_ms ev)) else None)\<rparr>"

definition record_pnl ::
    "(audit option \<Rightarrow> py_exc option) \<Rightarrow> breaker \<Rightarrow> pnl_event \<Rightarrow> breaker \<times> breaker_state result" where
  "record_pnl handler b ev =
     (case breaker_evaluate (b_soft_ratio b) (b_config b) (pnl_net b ev) of
        Inl e \<Rightarrow> (pnl_noted b ev, Inl e)
      | Inr d \<Rightarrow>
          if td_tripped d \<and> status (b_state b) = ARMED
          then (case breaker_trip handler (pnl_marked b ev (td_soft_breached d)) (pnl_net b ev)
                       (td_threshold_breached d) (pe_block_time_ms ev)
                       (Some (utc_day_key (pe_block_time_ms ev))) of
                  (b3, Inl e) \<Rightarrow> (b3, Inl e)
                | (b3, Inr _) \<Rightarrow> (b3, Inr (b_state b3)))
          else ((pnl_marked b ev (td_soft_breached d))
                   \<lparr>b_state := pnl_synced b ev, b_store := Some (pnl_synced b ev)\<rparr>,
                Inr (pnl_synced b ev)))"

definition trip_from_llm ::
    "(audit option \<Rightarrow> py_exc option) \<Rightarrow> breaker \<Rightarrow> string \<Rightarrow> millis \<Rightarrow> breaker \<times> breaker_state result" where
  "trip_from_llm handler b reason bt =
     (if status (b_state b) = ARMED
      then let net = daily_net_pnl_lamports (b_state b);
               day_utc = (if net \<noteq> 0 then daily_net_pnl_day_utc (b_state b) else Some (utc_day_key bt));
               b1 = b\<lparr>b_current_day := day_utc\<rparr> in
           case breaker_trip handler b1 net (Some (Audit (''llm_narrative_failure:'' @ take 80 reason) [])) bt day_utc of
             (b2, Inl e) \<Rightarrow> (b2, Inl e)
           | (b2, Inr _) \<Rightarrow> (b2, Inr (b_state b2))
      else (b, Inr (b_state b)))"

definition breaker_reset :: "breaker \<Rightarrow> credential \<Rightarrow> breaker \<times> breaker_state result" where
  "breaker_reset b cred =
     (case cred of
        OtherObject \<Rightarrow> (b, Inl PermissionError)
      | OperatorResetToken _ \<Rightarrow>
          if status (b_state b) \<noteq> TRIPPED then (b, Inl BreakerNotTripped)
          else (b\<lparr>b_day_pnl := Map.empty, b_soft_reduced_days := {}, b_current_day := None,
                  b_state := armed_zero, b_store := Some armed_zero\<rparr>, Inr armed_zero))"

subsection \<open>Runs\<close>

text \<open>
  Every way the object is driven: PnL events, de-risk signals of the reasoning path, reset
  requests, and a process restart (a fresh object built from the durable store).
\<close>

datatype breaker_event =
    Record pnl_event
  | Llm_trip string millis
  | Reset credential
  | Restart

definition breaker_step ::
    "(audit option \<Rightarrow> py_exc option) \<Rightarrow> breaker \<Rightarrow> breaker_event \<Rightarrow> breaker" where
  "breaker_step handler b ev =
     (case ev of
        Record e \<Rightarrow> fst (record_pnl handler b e)
      | Llm_trip r bt \<Rightarrow> fst (trip_from_llm handler b r bt)
      | Reset c \<Rightarrow> fst (breaker_reset b c)
      | Restart \<Rightarrow> (case new_breaker (b_config b) (b_store b) (b_flattens b) (Some (b_soft_ratio b)) of
                     Inl _ \<Rightarrow> b | Inr b' \<Rightarrow> b'))"

definition operator_reset :: "breaker_event \<Rightarrow> bool" where
  "operator_reset ev = (case ev of Reset (OperatorResetToken _) \<Rightarrow> True | _ \<Rightarrow> False)"

inductive breaker_reachable :: "(audit option \<Rightarrow> py_exc option) \<Rightarrow> breaker \<Rightarrow> bool"
  for handler :: "audit option \<Rightarrow> py_exc option" where
  boot: "new_breaker config None [] ratio = Inr b \<Longrightarrow> breaker_reachable handler b"
| step: "breaker_reachable handler b \<Longrightarrow> breaker_reachable handler (breaker_step handler b ev)"

subsection \<open>The invariant\<close>

text \<open>
  The durable state is the live state and satisfies its class's validators. When every hard
  limit lies at or below the soft one (\<open>tiers_ordered\<close>), a persisted net is also the
  accumulated net of its day (\<open>breaker_synced\<close>).
\<close>

definition breaker_inv :: "breaker \<Rightarrow> bool" where
  "breaker_inv b \<longleftrightarrow>
     b_store b = Some (b_state b) \<and> breaker_state_ok (b_state b) \<and>
     0 < b_soft_ratio b \<and> b_soft_ratio b < 1"

definition tiers_ordered :: "decimal \<Rightarrow> risk_config \<Rightarrow> bool" where
  "tiers_ordered ratio c \<longleftrightarrow>
     pct_limit_lamports c \<le> soft_limit_lamports ratio c \<and>
     floor_limit_lamports c \<le> soft_limit_lamports ratio c"

definition breaker_synced :: "breaker \<Rightarrow> bool" where
  "breaker_synced b \<longleftrightarrow>
     (\<forall>d. daily_net_pnl_day_utc (b_state b) = Some d \<longrightarrow>
        b_day_pnl b d = Some (daily_net_pnl_lamports (b_state b)))"

lemma armed_zero_simps [simp]:
  "status armed_zero = ARMED" "daily_net_pnl_lamports armed_zero = 0"
  "daily_net_pnl_day_utc armed_zero = None" "breaker_state_ok armed_zero"
  by (simp_all add: armed_zero_def breaker_state_ok_def)

lemma breaker_status_cases: "status s = ARMED \<longleftrightarrow> status s \<noteq> TRIPPED"
  by (cases "status s") simp_all

lemma breaker_trip_facts:
  assumes "net \<noteq> 0 \<longrightarrow> day \<noteq> None" and "b' = fst (breaker_trip handler b net thr bt day)"
  shows "status (b_state b') = TRIPPED" "b_store b' = Some (b_state b')" "breaker_state_ok (b_state b')"
    "daily_net_pnl_lamports (b_state b') = net"
    "daily_net_pnl_day_utc (b_state b') = (if net \<noteq> 0 then day else None)"
    "b_flattens b' = b_flattens b @ [thr]" "b_day_pnl b' = b_day_pnl b"
    "b_soft_ratio b' = b_soft_ratio b" "b_config b' = b_config b" "b_current_day b' = b_current_day b"
    "b_soft_reduced_days b' = set_option day \<union> b_soft_reduced_days b"
  unfolding assms(2) breaker_trip_def using assms(1)
  by (auto simp: mk_BreakerState_def breaker_state_ok_def Let_def split: option.splits)

lemma pnl_noted_simps [simp]:
  "b_state (pnl_noted b ev) = b_state b" "b_store (pnl_noted b ev) = b_store b"
  "b_config (pnl_noted b ev) = b_config b" "b_soft_ratio (pnl_noted b ev) = b_soft_ratio b"
  "b_flattens (pnl_noted b ev) = b_flattens b"
  "b_soft_reduced_days (pnl_noted b ev) = b_soft_reduced_days b"
  "b_current_day (pnl_noted b ev) = Some (utc_day_key (pe_block_time_ms ev))"
  "b_day_pnl (pnl_noted b ev) = (b_day_pnl b)(utc_day_key (pe_block_time_ms ev) \<mapsto> pnl_net b ev)"
  by (simp_all add: pnl_noted_def)

lemma pnl_marked_simps [simp]:
  "b_state (pnl_marked b ev soft) = b_state b" "b_store (pnl_marked b ev soft) = b_store b"
  "b_config (pnl_marked b ev soft) = b_config b" "b_soft_ratio (pnl_marked b ev soft) = b_soft_ratio b"
  "b_flattens (pnl_marked b ev soft) = b_flattens b"
  "b_current_day (pnl_marked b ev soft) = Some (utc_day_key (pe_block_time_ms ev))"
  "b_day_pnl (pnl_marked b ev soft) =
     (b_day_pnl b)(utc_day_key (pe_block_time_ms ev) \<mapsto> pnl_net b ev)"
  "b_soft_reduced_days (pnl_marked b ev soft) =
     (if soft then insert (utc_day_key (pe_block_time_ms ev)) (b_soft_reduced_days b)
      else b_soft_reduced_days b)"
  by (simp_all add: pnl_marked_def)

lemma pnl_synced_simps [simp]:
  "status (pnl_synced b ev) = status (b_state b)"
  "daily_net_pnl_lamports (pnl_synced b ev) = pnl_net b ev"
  "daily_net_pnl_day_utc (pnl_synced b ev) =
     (if pnl_net b ev \<noteq> 0 then Some (utc_day_key (pe_block_time_ms ev)) else None)"
  "breaker_state_ok (b_state b) \<Longrightarrow> breaker_state_ok (pnl_synced b ev)"
  by (simp_all add: pnl_synced_def breaker_state_ok_def)

lemma record_pnl_cases:
  obtains
    (asserts) "breaker_evaluate (b_soft_ratio b) (b_config b) (pnl_net b ev) = Inl AssertionError"
      "record_pnl handler b ev = (pnl_noted b ev, Inl AssertionError)"
  | (trips) d where
      "breaker_evaluate (b_soft_ratio b) (b_config b) (pnl_net b ev) = Inr d"
      "td_tripped d" "status (b_state b) = ARMED"
      "fst (record_pnl handler b ev) =
         fst (breaker_trip handler (pnl_marked b ev (td_soft_breached d)) (pnl_net b ev)
                (td_threshold_breached d) (pe_block_time_ms ev)
                (Some (utc_day_key (pe_block_time_ms ev))))"
  | (syncs) d where
      "breaker_evaluate (b_soft_ratio b) (b_config b) (pnl_net b ev) = Inr d"
      "\<not> td_tripped d \<or> status (b_state b) = TRIPPED"
      "record_pnl handler b ev =
         ((pnl_marked b ev (td_soft_breached d))
            \<lparr>b_state := pnl_synced b ev, b_store := Some (pnl_synced b ev)\<rparr>, Inr (pnl_synced b ev))"
proof (cases "breaker_evaluate (b_soft_ratio b) (b_config b) (pnl_net b ev)")
  case (Inl e)
  then have "e = AssertionError"
    by (auto simp: breaker_evaluate_def Let_def result_simps split: if_splits)
  with Inl show thesis by (intro asserts) (simp_all add: record_pnl_def)
next
  case (Inr d)
  show thesis
  proof (cases "td_tripped d \<and> status (b_state b) = ARMED")
    case True
    then show thesis
      by (intro trips [OF Inr]) (auto simp: record_pnl_def Inr split: prod.splits sum.splits)
  next
    case False
    then show thesis
      by (intro syncs [OF Inr]) (auto simp: record_pnl_def Inr breaker_status_cases)
  qed
qed

lemma record_pnl_inv: "breaker_inv b \<Longrightarrow> breaker_inv (fst (record_pnl handler b ev))"
  by (cases rule: record_pnl_cases [of b ev handler])
    (auto simp: breaker_inv_def breaker_trip_facts [OF _ refl])

lemma evaluate_total:
  "tiers_ordered ratio c \<Longrightarrow> \<exists>d. breaker_evaluate ratio c net = Inr d \<and>
     (td_tripped d \<longleftrightarrow> net \<le> pct_limit_lamports c \<or> net \<le> floor_limit_lamports c) \<and>
     (td_soft_breached d \<longleftrightarrow> net \<le> soft_limit_lamports ratio c)"
  by (auto simp: breaker_evaluate_def Let_def tiers_ordered_def)

lemma record_pnl_synced:
  "tiers_ordered (b_soft_ratio b) (b_config b) \<Longrightarrow> breaker_synced b \<Longrightarrow>
   breaker_synced (fst (record_pnl handler b ev))"
proof (cases rule: record_pnl_cases [of b ev handler])
  case asserts
  assume "tiers_ordered (b_soft_ratio b) (b_config b)"
  from evaluate_total [OF this, of "pnl_net b ev"] asserts(1) show ?thesis by simp
qed (auto simp: breaker_synced_def breaker_trip_facts [OF _ refl])

lemma trip_from_llm_facts:
  assumes "breaker_inv b" and "b' = fst (trip_from_llm handler b r bt)"
  shows "status (b_state b') = TRIPPED" "breaker_inv b'" "breaker_synced b \<Longrightarrow> breaker_synced b'"
    "b_config b' = b_config b" "b_soft_ratio b' = b_soft_ratio b"
    "b_flattens b' = b_flattens b @
       (if status (b_state b) = TRIPPED then []
        else [Some (Audit (''llm_narrative_failure:'' @ take 80 r) [])])"
proof -
  let ?net = "daily_net_pnl_lamports (b_state b)"
  let ?day = "if ?net \<noteq> 0 then daily_net_pnl_day_utc (b_state b) else Some (utc_day_key bt)"
  let ?trip = "breaker_trip handler (b\<lparr>b_current_day := ?day\<rparr>) ?net
    (Some (Audit (''llm_narrative_failure:'' @ take 80 r) [])) bt ?day"
  have day: "?net \<noteq> 0 \<longrightarrow> ?day \<noteq> None"
    using assms(1) by (auto simp: breaker_inv_def breaker_state_ok_def)
  have b': "b' = (if status (b_state b) = ARMED then fst ?trip else b)"
    unfolding assms(2) trip_from_llm_def Let_def by (simp split: prod.split sum.split)
  note facts = breaker_trip_facts [OF day refl, of handler "b\<lparr>b_current_day := ?day\<rparr>"]
  show "status (b_state b') = TRIPPED"
    using facts(1) by (simp add: b' breaker_status_cases del: not_None_eq)
  show "breaker_inv b'"
    using facts(2,3,8) assms(1) by (simp add: b' breaker_inv_def)
  show "breaker_synced b'" if "breaker_synced b"
    using facts(4,5,7) that by (auto simp: b' breaker_synced_def)
  show "b_config b' = b_config b" "b_soft_ratio b' = b_soft_ratio b"
    using facts(8,9) by (simp_all add: b')
  show "b_flattens b' = b_flattens b @
       (if status (b_state b) = TRIPPED then []
        else [Some (Audit (''llm_narrative_failure:'' @ take 80 r) [])])"
    using facts(6) by (simp add: b' breaker_status_cases)
qed

lemma reset_facts:
  assumes "breaker_inv b" and "b' = fst (breaker_reset b c)"
  shows "breaker_inv b'" "breaker_synced b \<Longrightarrow> breaker_synced b'" "b_flattens b' = b_flattens b"
    "b_config b' = b_config b" "b_soft_ratio b' = b_soft_ratio b"
    "\<not> operator_reset (Reset c) \<Longrightarrow> b' = b"
  using assms
  by (auto simp: breaker_reset_def breaker_inv_def breaker_synced_def operator_reset_def
      split: credential.splits if_splits)

lemma new_breaker_restored:
  assumes "new_breaker config (Some st) fl (Some ratio) = Inr b"
  shows "b_state b = st" "b_store b = Some st" "b_flattens b = fl" "b_config b = config"
    "b_soft_ratio b = ratio" "b_current_day b = daily_net_pnl_day_utc st"
    "b_day_pnl b = (case daily_net_pnl_day_utc st of
        Some d \<Rightarrow> if daily_net_pnl_lamports st \<noteq> 0 then [d \<mapsto> daily_net_pnl_lamports st] else Map.empty
      | None \<Rightarrow> Map.empty)"
  using assms
  by (auto simp: new_breaker_def Let_def result_simps split: option.splits if_splits)

lemma restart_facts:
  assumes "breaker_inv b" and "b' = breaker_step handler b Restart"
  shows "breaker_inv b'" "b_state b' = b_state b" "b_flattens b' = b_flattens b"
    "b_config b' = b_config b" "b_soft_ratio b' = b_soft_ratio b"
proof -
  have st: "b_store b = Some (b_state b)" using assms(1) by (simp add: breaker_inv_def)
  consider "b' = b" | "new_breaker (b_config b) (Some (b_state b)) (b_flattens b) (Some (b_soft_ratio b)) = Inr b'"
    using assms(2) st by (auto simp: breaker_step_def split: sum.splits)
  then show "breaker_inv b'" "b_state b' = b_state b" "b_flattens b' = b_flattens b"
    "b_config b' = b_config b" "b_soft_ratio b' = b_soft_ratio b"
    using assms(1) by (cases; simp add: new_breaker_restored breaker_inv_def)+
qed

lemma record_pnl_frame:
  assumes "b' = fst (record_pnl handler b ev)"
  shows "b_config b' = b_config b" "b_soft_ratio b' = b_soft_ratio b"
    "status (b_state b) = TRIPPED \<Longrightarrow> status (b_state b') = TRIPPED \<and> b_flattens b' = b_flattens b"
  unfolding assms
  by (cases rule: record_pnl_cases [of b ev handler]; simp add: breaker_trip_facts [OF _ refl])+

lemma breaker_step_inv: "breaker_inv b \<Longrightarrow> breaker_inv (breaker_step handler b ev)"
  by (cases ev)
    (auto simp: breaker_step_def record_pnl_inv trip_from_llm_facts(2) [OF _ refl]
      reset_facts(1) [OF _ refl] dest: restart_facts(1) [OF _ refl, of _ handler] split: sum.splits)

lemma reachable_inv: "breaker_reachable handler b \<Longrightarrow> breaker_inv b"
proof (induction rule: breaker_reachable.induct)
  case (boot config ratio b)
  then show ?case
    by (auto simp: new_breaker_def Let_def result_simps breaker_inv_def)
next
  case (step b ev)
  then show ?case by (blast intro: breaker_step_inv)
qed

text \<open>Every automated event: all of them except a reset by an operator.\<close>

definition automated_step ::
    "(audit option \<Rightarrow> py_exc option) \<Rightarrow> breaker \<Rightarrow> breaker_event \<Rightarrow> breaker" where
  "automated_step handler b ev = (if operator_reset ev then b else breaker_step handler b ev)"

lemma tripped_step:
  assumes "breaker_inv b" and "is_tripped b" and "\<not> operator_reset ev"
  shows "is_tripped (breaker_step handler b ev) \<and> b_flattens (breaker_step handler b ev) = b_flattens b"
proof (cases ev)
  case (Record e)
  with assms show ?thesis
    by (simp add: breaker_step_def is_tripped_def record_pnl_frame [OF refl])
next
  case (Llm_trip r bt)
  with assms show ?thesis
    by (simp add: breaker_step_def is_tripped_def trip_from_llm_def)
next
  case (Reset c)
  with assms show ?thesis
    by (simp add: breaker_step_def reset_facts(6) [OF assms(1) refl])
next
  case Restart
  with assms show ?thesis
    using restart_facts(2,3) [OF assms(1) refl, of handler] by (simp add: is_tripped_def)
qed

interpretation latch: ratchet "automated_step handler" is_tripped breaker_inv
  for handler :: "audit option \<Rightarrow> py_exc option"
  using tripped_step [of _ _ handler]
  by unfold_locales (auto simp: automated_step_def breaker_step_inv)

lemma record_pnl_days:
  assumes "b' = fst (record_pnl handler b ev)"
  shows "b_current_day b' = Some (utc_day_key (pe_block_time_ms ev))"
    "b_soft_reduced_days b \<subseteq> b_soft_reduced_days b'"
  unfolding assms
  by (cases rule: record_pnl_cases [of b ev handler]; auto simp: breaker_trip_facts [OF _ refl])+

lemma quantize_tenth_down_bounds: "0 \<le> x \<Longrightarrow> 0 \<le> quantize_tenth_down x \<and> quantize_tenth_down x \<le> x"
proof -
  assume "0 \<le> x"
  then have "0 \<le> trunc (x * 10)" and "of_int (trunc (x * 10)) \<le> x * 10"
    by (simp_all add: trunc_def)
  then show ?thesis by (simp add: quantize_tenth_down_def)
qed

lemma soft_limit_pct_bounds:
  assumes "0 < ratio" and "ratio < 1" and "0 \<le> daily_loss_limit_pct c" and "dec_rep (daily_loss_limit_pct c)"
  shows "0 \<le> soft_limit_pct ratio c \<and> soft_limit_pct ratio c \<le> daily_loss_limit_pct c"
proof -
  have "0 \<le> dmul (daily_loss_limit_pct c) ratio" "dmul (daily_loss_limit_pct c) ratio \<le> daily_loss_limit_pct c"
    using assms by (auto intro: dmul_nonneg dmul_shrink)
  then show ?thesis
    using quantize_tenth_down_bounds [of "dmul (daily_loss_limit_pct c) ratio"]
    by (auto simp: soft_limit_pct_def Let_def)
qed

lemma pct_limit_le_soft_limit:
  assumes "0 < ratio" and "ratio < 1" and "0 \<le> daily_loss_limit_pct c"
    and "dec_rep (daily_loss_limit_pct c)" and "0 \<le> daily_risk_tranche_lamports c"
  shows "pct_limit_lamports c \<le> soft_limit_lamports ratio c"
  using soft_limit_pct_bounds [OF assms(1-4)] assms(5)
  unfolding pct_limit_lamports_def soft_limit_lamports_def
  by (auto intro!: trunc_mono ddiv_mono dmul_mono)

subsection \<open>Values for the default configuration\<close>

definition tight_floor_config :: risk_config where
  "tight_floor_config = default_risk_config\<lparr>daily_loss_floor_lamports := 5000000\<rparr>"

definition fresh_breaker :: "risk_config \<Rightarrow> breaker" where
  "fresh_breaker c =
     \<lparr>b_config = c, b_soft_ratio = DEFAULT_SOFT_RATIO, b_day_pnl = Map.empty,
      b_soft_reduced_days = {}, b_current_day = None, b_state = armed_zero,
      b_store = Some armed_zero, b_flattens = []\<rparr>"

lemma new_breaker_fresh: "new_breaker c None [] None = Inr (fresh_breaker c)"
  by (simp add: new_breaker_def fresh_breaker_def DEFAULT_SOFT_RATIO_def)

lemma breaker_values:
  "dmul 3 (6667 / 10000) = 20001 / 10000" "ddiv (dmul 500000000 2) 100 = 10000000"
  "ddiv (dmul 500000000 3) 100 = 15000000" "ddiv 300000000 1000000000 = 3 / 10"
  "ddiv 5000000 1000000000 = 5 / 1000"
  by code_simp+

lemma floor_2_0001_tenths: "\<lfloor>20001 / 1000 :: rat\<rfloor> = 20"
  by (rule floor_unique) simp_all

lemma default_soft_limit_pct:
  "soft_limit_pct DEFAULT_SOFT_RATIO default_risk_config = 2"
  "soft_limit_pct DEFAULT_SOFT_RATIO tight_floor_config = 2"
  by (simp_all add: soft_limit_pct_def DEFAULT_SOFT_RATIO_def default_risk_config_def
      tight_floor_config_def breaker_values quantize_tenth_down_def trunc_def floor_2_0001_tenths)

lemma default_limits:
  "soft_limit_lamports DEFAULT_SOFT_RATIO default_risk_config = -10000000"
  "soft_limit_lamports DEFAULT_SOFT_RATIO tight_floor_config = -10000000"
  "pct_limit_lamports default_risk_config = -15000000"
  "pct_limit_lamports tight_floor_config = -15000000"
  "floor_limit_lamports default_risk_config = -300000000"
  "floor_limit_lamports tight_floor_config = -5000000"
  using trunc_of_int [of 10000000] trunc_of_int [of 15000000]
  unfolding soft_limit_lamports_def default_soft_limit_pct
  by (simp_all add: pct_limit_lamports_def floor_limit_lamports_def default_risk_config_def
      tight_floor_config_def breaker_values)

lemma default_tiers_ordered: "tiers_ordered DEFAULT_SOFT_RATIO default_risk_config"
  by (simp add: tiers_ordered_def default_limits)

lemma blocked_when_tripped: "is_tripped b \<Longrightarrow> \<not> entries_allowed b"
  by (simp add: is_tripped_def entries_allowed_def)

lemma automated_run:
  "\<forall>ev \<in> set evs. \<not> operator_reset ev \<Longrightarrow>
     foldl (breaker_step handler) b evs = foldl (automated_step handler) b evs"
  by (induction evs arbitrary: b) (simp_all add: automated_step_def)

lemma automated_run_flattens:
  "breaker_inv b \<Longrightarrow> is_tripped b \<Longrightarrow> b_flattens (foldl (automated_step handler) b evs) = b_flattens b"
proof (induction evs arbitrary: b)
  case (Cons ev evs)
  have "is_tripped (automated_step handler b ev) \<and> b_flattens (automated_step handler b ev) = b_flattens b"
    using tripped_step [OF Cons.prems, of ev handler] Cons.prems(2) by (simp add: automated_step_def)
  with Cons show ?case by (simp add: latch.step_inv)
qed simp

lemma step_flattens:
  assumes "breaker_inv b" and "b' = breaker_step handler b ev"
  shows "b_flattens b' = b_flattens b \<and> (is_tripped b' \<longrightarrow> is_tripped b) \<or>
    (\<exists>thr. b_flattens b' = b_flattens b @ [thr]) \<and> \<not> is_tripped b \<and> is_tripped b'"
proof (cases ev)
  case (Record e)
  then show ?thesis
    using assms(2) by (cases rule: record_pnl_cases [of b e handler])
      (auto simp: breaker_step_def is_tripped_def breaker_trip_facts [OF _ refl] breaker_status_cases)
next
  case (Llm_trip r bt)
  then have "b' = fst (trip_from_llm handler b r bt)" using assms(2) by (simp add: breaker_step_def)
  from trip_from_llm_facts(1,6) [OF assms(1) this] show ?thesis by (simp add: is_tripped_def)
next
  case (Reset c)
  then have b': "b' = fst (breaker_reset b c)" using assms(2) by (simp add: breaker_step_def)
  then have "is_tripped b' \<longrightarrow> is_tripped b"
    by (auto simp: breaker_reset_def is_tripped_def split: credential.splits if_splits)
  with reset_facts(3) [OF assms(1) b'] show ?thesis by simp
next
  case Restart
  then have "b' = breaker_step handler b Restart" using assms(2) by simp
  from restart_facts(2,3) [OF assms(1) this] show ?thesis by (simp add: is_tripped_def)
qed

text \<open>The number of moves from not tripped to tripped along a run.\<close>

fun trip_edges :: "(audit option \<Rightarrow> py_exc option) \<Rightarrow> breaker \<Rightarrow> breaker_event list \<Rightarrow> nat" where
  "trip_edges handler b [] = 0"
| "trip_edges handler b (ev # evs) =
     (if \<not> is_tripped b \<and> is_tripped (breaker_step handler b ev) then 1 else 0) +
     trip_edges handler (breaker_step handler b ev) evs"

lemma run_flattens:
  "breaker_inv b \<Longrightarrow>
     length (b_flattens (foldl (breaker_step handler) b evs)) = length (b_flattens b) + trip_edges handler b evs"
proof (induction evs arbitrary: b)
  case (Cons ev evs)
  from step_flattens [OF Cons.prems refl, of handler ev] Cons show ?case
    by (auto simp: breaker_step_inv)
qed simp

lemma fresh_reachable: "breaker_reachable handler (fresh_breaker c)"
  by (rule breaker_reachable.boot [OF new_breaker_fresh])

lemma fresh_breaker_simps [simp]:
  "b_config (fresh_breaker c) = c" "b_soft_ratio (fresh_breaker c) = DEFAULT_SOFT_RATIO"
  "b_state (fresh_breaker c) = armed_zero" "pnl_net (fresh_breaker c) ev = pe_delta_lamports ev"
  "b_flattens (fresh_breaker c) = []" "b_day_pnl (fresh_breaker c) = Map.empty"
  "b_soft_reduced_days (fresh_breaker c) = {}" "\<not> is_tripped (fresh_breaker c)"
  by (simp_all add: fresh_breaker_def pnl_net_def is_tripped_def)

subsection \<open>Properties\<close>



text \<open>
  C8. The latch: once a reachable breaker has tripped it stays tripped, refuses entries and
  never calls the flatten handler again, over every sequence of PnL events, de-risk signals,
  refused resets and process restarts that contains no operator reset.
\<close>

theorem breaker_latch_only_operator_rearms:
  assumes "breaker_reachable handler b" and "is_tripped b" and "\<forall>ev \<in> set evs. \<not> operator_reset ev"
    and "b' = foldl (breaker_step handler) b evs"
  shows "is_tripped b' \<and> \<not> entries_allowed b' \<and> b_flattens b' = b_flattens b \<and>
    b_store b' = Some (b_state b')"
proof -
  have inv: "breaker_inv b" using assms(1) by (rule reachable_inv)
  have b': "b' = foldl (automated_step handler) b evs" using assms(3,4) by (simp add: automated_run)
  have "is_tripped b'" using latch.run_level [OF inv, of handler evs] assms(2) by (simp add: b')
  then show ?thesis
    using latch.run_inv [OF inv, of handler evs] automated_run_flattens [OF inv assms(2), of handler evs]
    by (simp add: b' blocked_when_tripped breaker_inv_def)
qed

theorem breaker_latch_only_operator_rearms_witness:
  "is_tripped (foldl (breaker_step (\<lambda>_. None))
      (breaker_step (\<lambda>_. None) (fresh_breaker default_risk_config) (Llm_trip ''rug'' 1000))
      [Reset OtherObject, Restart,
       Record \<lparr>pe_mint = ''m'', pe_block_time_ms = 1000, pe_delta_lamports = 900000000\<rparr>])"
proof -
  let ?b = "breaker_step (\<lambda>_. None) (fresh_breaker default_risk_config) (Llm_trip ''rug'' 1000)"
  have "breaker_reachable (\<lambda>_. None) ?b" by (rule breaker_reachable.step [OF fresh_reachable])
  moreover have "is_tripped ?b"
    using trip_from_llm_facts(1) [OF reachable_inv [OF fresh_reachable] refl]
    by (simp add: breaker_step_def is_tripped_def)
  moreover have "\<forall>ev \<in> set [Reset OtherObject, Restart,
      Record \<lparr>pe_mint = ''m'', pe_block_time_ms = 1000, pe_delta_lamports = 900000000\<rparr>]. \<not> operator_reset ev"
    by (simp add: operator_reset_def)
  ultimately show ?thesis using breaker_latch_only_operator_rearms [OF _ _ _ refl] by blast
qed

text \<open>
  Exactly one flatten per trip: along every run of a reachable breaker the number of calls
  of the flatten handler grows by the number of moves from not tripped to tripped.
\<close>

theorem breaker_one_flatten_per_trip:
  assumes "breaker_reachable handler b"
  shows "length (b_flattens (foldl (breaker_step handler) b evs)) =
    length (b_flattens b) + trip_edges handler b evs"
  using assms by (intro run_flattens reachable_inv)

theorem breaker_one_flatten_per_trip_witness:
  "length (b_flattens (foldl (breaker_step (\<lambda>_. None)) (fresh_breaker default_risk_config)
      [Llm_trip ''rug'' 1000, Llm_trip ''rug'' 2000])) =
   trip_edges (\<lambda>_. None) (fresh_breaker default_risk_config) [Llm_trip ''rug'' 1000, Llm_trip ''rug'' 2000]"
  using breaker_one_flatten_per_trip [OF fresh_reachable,
      of "\<lambda>_. None" default_risk_config "[Llm_trip ''rug'' 1000, Llm_trip ''rug'' 2000]"]
  by simp

lemma reachable_synced:
  "breaker_reachable handler b \<Longrightarrow> tiers_ordered (b_soft_ratio b) (b_config b) \<Longrightarrow>
     breaker_synced b \<and> (daily_net_pnl_lamports (b_state b) = 0 \<longrightarrow> daily_net_pnl_day_utc (b_state b) = None)"
proof (induction rule: breaker_reachable.induct)
  case (boot config ratio b)
  then have "b_state b = armed_zero" by (auto simp: new_breaker_def Let_def result_simps)
  then show ?case by (simp add: breaker_synced_def)
next
  case (step b ev)
  let ?b' = "breaker_step handler b ev"
  have inv: "breaker_inv b" using step.hyps by (rule reachable_inv)
  show ?case
  proof (cases ev)
    case (Record e)
    then have b': "?b' = fst (record_pnl handler b e)" by (simp add: breaker_step_def)
    then have tiers: "tiers_ordered (b_soft_ratio b) (b_config b)"
      using step.prems record_pnl_frame(1,2) [OF b'] by simp
    have "daily_net_pnl_lamports (b_state ?b') = 0 \<longrightarrow> daily_net_pnl_day_utc (b_state ?b') = None"
      using evaluate_total [OF tiers, of "pnl_net b e"] unfolding b'
      by (cases rule: record_pnl_cases [of b e handler]) (auto simp: breaker_trip_facts [OF _ refl])
    with step.IH [OF tiers] record_pnl_synced [OF tiers, of handler e] b' show ?thesis by simp
  next
    case (Llm_trip r bt)
    then have b': "?b' = fst (trip_from_llm handler b r bt)" by (simp add: breaker_step_def)
    note facts = trip_from_llm_facts [OF inv b']
    have "daily_net_pnl_lamports (b_state ?b') = 0 \<longrightarrow> daily_net_pnl_day_utc (b_state ?b') = None"
      if "daily_net_pnl_lamports (b_state b) = 0 \<longrightarrow> daily_net_pnl_day_utc (b_state b) = None"
      using that unfolding b' trip_from_llm_def breaker_trip_def mk_BreakerState_def Let_def
      by (auto split: option.splits)
    with step facts(3-5) show ?thesis by simp
  next
    case (Reset c)
    then have b': "?b' = fst (breaker_reset b c)" by (simp add: breaker_step_def)
    have "b_state ?b' = b_state b \<or> b_state ?b' = armed_zero"
      unfolding b' by (auto simp: breaker_reset_def split: credential.splits)
    with step reset_facts(2,4,5) [OF inv b'] show ?thesis by auto
  next
    case Restart
    note facts = restart_facts [OF inv refl, of handler]
    have zero: "daily_net_pnl_lamports (b_state b) = 0 \<longrightarrow> daily_net_pnl_day_utc (b_state b) = None"
      and syn: "breaker_synced b" using step facts(4,5) Restart by simp_all
    have "breaker_synced ?b'"
    proof (cases "new_breaker (b_config b) (b_store b) (b_flattens b) (Some (b_soft_ratio b))")
      case (Inr b2)
      then have "?b' = b2" and "b_store b = Some (b_state b)"
        using Restart inv by (simp_all add: breaker_step_def breaker_inv_def)
      with Inr zero show ?thesis by (auto simp: new_breaker_restored breaker_synced_def)
    qed (use Restart syn in \<open>simp add: breaker_step_def\<close>)
    with zero facts(2) Restart show ?thesis by simp
  qed
qed

lemma restart_builds:
  assumes "breaker_inv b" and "tiers_ordered (b_soft_ratio b) (b_config b)"
  shows "new_breaker (b_config b) (Some (b_state b)) (b_flattens b) (Some (b_soft_ratio b)) =
    Inr (breaker_step handler b Restart)"
proof -
  obtain d where "breaker_evaluate (b_soft_ratio b) (b_config b) (daily_net_pnl_lamports (b_state b)) = Inr d"
    using evaluate_total [OF assms(2)] by blast
  then have "\<exists>b'. new_breaker (b_config b) (Some (b_state b)) (b_flattens b) (Some (b_soft_ratio b)) = Inr b'"
    using assms(1) unfolding breaker_inv_def breaker_state_ok_def
    by (auto simp: new_breaker_def Let_def split: option.splits)
  then show ?thesis using assms(1) by (auto simp: breaker_step_def breaker_inv_def)
qed

lemma same_day_run:
  assumes "\<forall>ev \<in> set evs. utc_day_key (pe_block_time_ms ev) = d"
    and "d \<in> b_soft_reduced_days b" and "b_current_day b = Some d"
  shows "risk_posture (foldl (\<lambda>b ev. fst (record_pnl handler b ev)) b evs) = REDUCED"
  using assms
proof (induction evs arbitrary: b)
  case Nil
  then show ?case by (simp add: risk_posture_def)
next
  case (Cons ev evs)
  then show ?case using record_pnl_days [where handler = handler and b = b and ev = ev, OF refl] by auto
qed

text \<open>
  The soft tier never lies below the percentage limit, for every configuration with
  non-negative tranche and loss percentage and every soft ratio the constructor accepts, so
  every net that reaches the percentage limit has reached the soft tier; when the floor is not
  tighter than the soft tier either, the pure decision never raises.
\<close>

theorem soft_tier_precedes_hard_limit:
  assumes "0 < ratio" and "ratio < 1" and "0 \<le> daily_loss_limit_pct c"
    and "dec_rep (daily_loss_limit_pct c)" and "0 \<le> daily_risk_tranche_lamports c"
  shows "pct_limit_lamports c \<le> soft_limit_lamports ratio c \<and> soft_limit_lamports ratio c \<le> 0 \<and>
    (floor_limit_lamports c \<le> soft_limit_lamports ratio c \<longrightarrow>
       (\<exists>d. breaker_evaluate ratio c net = Inr d \<and> (td_tripped d \<longrightarrow> td_soft_breached d)))"
proof -
  have le: "pct_limit_lamports c \<le> soft_limit_lamports ratio c"
    using assms by (rule pct_limit_le_soft_limit)
  have "soft_limit_lamports ratio c \<le> 0"
    using soft_limit_pct_bounds [OF assms(1-4)] assms(5) unfolding soft_limit_lamports_def
    by (auto intro!: trunc_nonneg ddiv_nonneg dmul_nonneg)
  moreover have "\<exists>d. breaker_evaluate ratio c net = Inr d \<and> (td_tripped d \<longrightarrow> td_soft_breached d)"
    if "floor_limit_lamports c \<le> soft_limit_lamports ratio c"
    using evaluate_total [of ratio c net] le that unfolding tiers_ordered_def by fastforce
  ultimately show ?thesis using le by blast
qed

theorem soft_tier_precedes_hard_limit_witness:
  "pct_limit_lamports default_risk_config \<le> soft_limit_lamports DEFAULT_SOFT_RATIO default_risk_config"
proof -
  have "dec_rep (daily_loss_limit_pct default_risk_config)"
    using dec_rep_of_int [of 3] by (simp add: default_risk_config_def)
  then show ?thesis
    using soft_tier_precedes_hard_limit [of DEFAULT_SOFT_RATIO default_risk_config]
    by (simp add: DEFAULT_SOFT_RATIO_def default_risk_config_def)
qed

text \<open>
  The soft pause is monotone within a UTC day: once an event takes the day's net to the soft
  limit, no later sequence of events of that day, whatever it recovers, lets entries resume.
\<close>

theorem soft_pause_monotone_within_day:
  assumes "tiers_ordered (b_soft_ratio b) (b_config b)"
    and "pnl_net b ev \<le> soft_limit_lamports (b_soft_ratio b) (b_config b)"
    and "\<forall>e \<in> set evs. utc_day_key (pe_block_time_ms e) = utc_day_key (pe_block_time_ms ev)"
  shows "\<not> entries_allowed (foldl (\<lambda>b e. fst (record_pnl handler b e)) b (ev # evs))"
proof -
  let ?b = "fst (record_pnl handler b ev)"
  have "utc_day_key (pe_block_time_ms ev) \<in> b_soft_reduced_days ?b"
    using evaluate_total [OF assms(1), of "pnl_net b ev"] assms(2)
    by (cases rule: record_pnl_cases [of b ev handler]) (auto simp: breaker_trip_facts [OF _ refl])
  with same_day_run [OF assms(3), of ?b handler] show ?thesis
    by (simp add: record_pnl_days [OF refl] entries_allowed_def)
qed

theorem soft_pause_monotone_within_day_witness:
  "\<not> entries_allowed (foldl (\<lambda>b e. fst (record_pnl (\<lambda>_. None) b e)) (fresh_breaker default_risk_config)
     [\<lparr>pe_mint = ''m'', pe_block_time_ms = 1000, pe_delta_lamports = -12000000\<rparr>,
      \<lparr>pe_mint = ''m'', pe_block_time_ms = 2000, pe_delta_lamports = 90000000\<rparr>])"
  by (rule soft_pause_monotone_within_day) (simp_all add: default_tiers_ordered default_limits utc_day_key_def)

text \<open>
  Point-in-time restart: rebuilding a reachable breaker from its durable store keeps the
  latch, an event of the persisted UTC day continues from the net accumulated before the
  restart, and an event of any other day starts from zero.
\<close>

theorem breaker_restart_point_in_time:
  assumes "breaker_reachable handler b" and "tiers_ordered (b_soft_ratio b) (b_config b)"
    and "b' = breaker_step handler b Restart"
  shows "new_breaker (b_config b) (b_store b) (b_flattens b) (Some (b_soft_ratio b)) = Inr b' \<and>
    is_tripped b' = is_tripped b \<and> b_flattens b' = b_flattens b \<and>
    pnl_net b' ev =
      (if daily_net_pnl_day_utc (b_state b) = Some (utc_day_key (pe_block_time_ms ev))
       then pnl_net b ev else pe_delta_lamports ev)"
proof -
  have inv: "breaker_inv b" using assms(1) by (rule reachable_inv)
  have "b_store b = Some (b_state b)" using inv by (simp add: breaker_inv_def)
  with restart_builds [OF inv assms(2), of handler]
  have new: "new_breaker (b_config b) (Some (b_state b)) (b_flattens b) (Some (b_soft_ratio b)) = Inr b'"
    "b_store b = Some (b_state b)" by (simp_all add: assms(3))
  then show ?thesis
    using reachable_synced [OF assms(1,2)] new_breaker_restored [OF new(1)]
    by (auto simp: is_tripped_def pnl_net_def breaker_synced_def split: option.splits)
qed

theorem breaker_restart_point_in_time_witness:
  "pnl_net (breaker_step (\<lambda>_. None) (fresh_breaker default_risk_config) Restart)
     \<lparr>pe_mint = ''m'', pe_block_time_ms = 1000, pe_delta_lamports = -7\<rparr> = -7"
  using breaker_restart_point_in_time [of "\<lambda>_. None" "fresh_breaker default_risk_config",
      OF fresh_reachable _ refl, of "\<lparr>pe_mint = ''m'', pe_block_time_ms = 1000, pe_delta_lamports = -7\<rparr>"]
  by (simp add: default_tiers_ordered)

lemma tight_floor_accepted: "mk_RiskConfig tight_floor_config = Inr tight_floor_config"
  by (simp add: mk_RiskConfig_def floor_invariants_def tight_floor_config_def default_risk_config_def)

text \<open>
  A floor inside the soft band disables the breaker: for an accepted configuration whose
  absolute floor is tighter than the soft tier, a net that has reached the floor but not the
  soft tier makes \<open>record_pnl\<close> raise the internal assertion. Nothing is tripped, persisted or
  flattened, and the loss is kept in memory only.
\<close>

theorem tight_floor_never_trips:
  assumes "soft_limit_lamports (b_soft_ratio b) (b_config b) < pnl_net b ev"
    and "pnl_net b ev \<le> floor_limit_lamports (b_config b)"
  shows "snd (record_pnl handler b ev) = Inl AssertionError \<and>
    b_state (fst (record_pnl handler b ev)) = b_state b \<and>
    b_store (fst (record_pnl handler b ev)) = b_store b \<and>
    b_flattens (fst (record_pnl handler b ev)) = b_flattens b \<and>
    b_day_pnl (fst (record_pnl handler b ev)) (utc_day_key (pe_block_time_ms ev)) = Some (pnl_net b ev)"
proof -
  have "breaker_evaluate (b_soft_ratio b) (b_config b) (pnl_net b ev) = Inl AssertionError"
    using assms by (simp add: breaker_evaluate_def Let_def)
  then show ?thesis by (simp add: record_pnl_def)
qed

theorem tight_floor_never_trips_witness:
  "mk_RiskConfig tight_floor_config = Inr tight_floor_config \<and>
   snd (record_pnl (\<lambda>_. None) (fresh_breaker tight_floor_config)
     \<lparr>pe_mint = ''m'', pe_block_time_ms = 1000, pe_delta_lamports = -6000000\<rparr>) = Inl AssertionError"
  using tight_floor_never_trips [of "fresh_breaker tight_floor_config"
      "\<lparr>pe_mint = ''m'', pe_block_time_ms = 1000, pe_delta_lamports = -6000000\<rparr>" "\<lambda>_. None"]
  by (simp add: default_limits tight_floor_accepted)

lemma record_quiet:
  assumes "pct_limit_lamports (b_config b) < pnl_net b ev" and "floor_limit_lamports (b_config b) < pnl_net b ev"
  shows "fst (record_pnl handler b ev) =
    (pnl_marked b ev (pnl_net b ev \<le> soft_limit_lamports (b_soft_ratio b) (b_config b)))
       \<lparr>b_state := pnl_synced b ev, b_store := Some (pnl_synced b ev)\<rparr>"
  using assms by (simp add: record_pnl_def breaker_evaluate_def Let_def)

lemma restart_quiet:
  assumes "breaker_inv b" and "status (b_state b) = ARMED" and "daily_net_pnl_day_utc (b_state b) = Some d"
    and "pct_limit_lamports (b_config b) < daily_net_pnl_lamports (b_state b)"
    and "floor_limit_lamports (b_config b) < daily_net_pnl_lamports (b_state b)"
    and "soft_limit_lamports (b_soft_ratio b) (b_config b) < daily_net_pnl_lamports (b_state b)"
  shows "entries_allowed (breaker_step handler b Restart)"
proof -
  have "breaker_evaluate (b_soft_ratio b) (b_config b) (daily_net_pnl_lamports (b_state b)) =
      Inr \<lparr>td_tripped = False, td_threshold_breached = None, td_soft_breached = False,
           td_soft_threshold_breached = None\<rparr>"
    using assms(4-6) by (simp add: breaker_evaluate_def Let_def)
  then show ?thesis
    using assms(1-3)
    by (simp add: breaker_step_def new_breaker_def Let_def breaker_inv_def entries_allowed_def risk_posture_def)
qed

text \<open>
  A restart can lift the soft pause: an armed breaker whose current day is paused, but whose
  persisted net has recovered above the soft limit, lets entries resume after a restart in the
  same day; without the restart it stays paused.
\<close>

theorem restart_lifts_recovered_pause:
  assumes "breaker_reachable handler b" and "is_soft_reduced b"
    and "daily_net_pnl_day_utc (b_state b) = Some d"
    and "tiers_ordered (b_soft_ratio b) (b_config b)"
    and "soft_limit_lamports (b_soft_ratio b) (b_config b) < daily_net_pnl_lamports (b_state b)"
  shows "\<not> entries_allowed b \<and> entries_allowed (breaker_step handler b Restart)"
proof -
  have "entries_allowed (breaker_step handler b Restart)"
    using assms(2-5) by (intro restart_quiet [OF reachable_inv [OF assms(1)]])
      (auto simp: is_soft_reduced_def tiers_ordered_def)
  then show ?thesis using assms(2) by (simp add: is_soft_reduced_def entries_allowed_def)
qed

theorem restart_lifts_recovered_pause_witness:
  "entries_allowed (foldl (breaker_step (\<lambda>_. None)) (fresh_breaker default_risk_config)
     [Record \<lparr>pe_mint = ''m'', pe_block_time_ms = 1000, pe_delta_lamports = -12000000\<rparr>,
      Record \<lparr>pe_mint = ''m'', pe_block_time_ms = 2000, pe_delta_lamports = 5000000\<rparr>, Restart])"
proof -
  let ?e1 = "\<lparr>pe_mint = ''m'', pe_block_time_ms = 1000, pe_delta_lamports = -12000000\<rparr>"
  let ?e2 = "\<lparr>pe_mint = ''m'', pe_block_time_ms = 2000, pe_delta_lamports = 5000000\<rparr>"
  define b1 where "b1 = breaker_step (\<lambda>_. None) (fresh_breaker default_risk_config) (Record ?e1)"
  define b2 where "b2 = breaker_step (\<lambda>_. None) b1 (Record ?e2)"
  have b1: "b_config b1 = default_risk_config" "b_soft_ratio b1 = DEFAULT_SOFT_RATIO"
    "status (b_state b1) = ARMED" "b_soft_reduced_days b1 = {0}" "pnl_net b1 ?e2 = -7000000"
    by (simp_all add: b1_def breaker_step_def record_quiet default_limits utc_day_key_def pnl_net_def [of _ ?e2])
  then have b2: "b2 = (pnl_marked b1 ?e2 False)\<lparr>b_state := pnl_synced b1 ?e2, b_store := Some (pnl_synced b1 ?e2)\<rparr>"
    by (simp add: b2_def breaker_step_def record_quiet default_limits)
  have "breaker_reachable (\<lambda>_. None) b2"
    unfolding b1_def b2_def by (intro breaker_reachable.step fresh_reachable)
  then have "entries_allowed (breaker_step (\<lambda>_. None) b2 Restart)"
    using restart_lifts_recovered_pause [of "\<lambda>_. None" b2 0]
    by (simp add: b2 b1 is_soft_reduced_def risk_posture_def utc_day_key_def default_tiers_ordered default_limits)
  then show ?thesis by (simp add: b1_def b2_def)
qed

end
