(* ===== verification/Sizing.thy ===== *)
theory Sizing
  imports Interfaces
begin

text \<open>
  Fractional-Kelly sizing with hard exposure caps, \<open>aats/risk/sizing.py\<close>. Probabilities,
  uncertainties and signals are floats in the source that are converted by
  \<open>Decimal(str(x))\<close>; here they are the rationals of that conversion. Every operation is
  \<open>Decimal\<close> arithmetic under the pinned 28-digit half-even context (theory \<open>Rounding\<close>).
\<close>

subsection \<open>Signals, Kelly fraction, decision\<close>

definition HARD_KELLY_CAP :: decimal where
  "HARD_KELLY_CAP = 25 / 100"

definition clamp_unit :: "rat \<Rightarrow> decimal result" where
  "clamp_unit x = (if 0 \<le> x \<and> x \<le> 1 then Inr x else Inl ValueError)"

record derisk_signals =
  sentiment_factor :: rat
  confidence_factor :: rat

definition default_signals :: derisk_signals where
  "default_signals = \<lparr>sentiment_factor = 1, confidence_factor = 1\<rparr>"

definition mk_DeRiskSignals :: "derisk_signals \<Rightarrow> derisk_signals result" where
  "mk_DeRiskSignals s =
     (if \<not> (0 < sentiment_factor s \<and> sentiment_factor s \<le> 1) then Inl ValueError
      else if \<not> (0 < confidence_factor s \<and> confidence_factor s \<le> 1) then Inl ValueError
      else Inr s)"

definition combined_factor :: "derisk_signals \<Rightarrow> decimal result" where
  "combined_factor s =
     rbind (clamp_unit (sentiment_factor s)) (\<lambda>a.
     rbind (clamp_unit (confidence_factor s)) (\<lambda>b.
     let f = dmul a b in
     rbind (guard (f \<le> 1) AssertionError) (\<lambda>_. Inr f)))"

definition full_kelly_fraction :: "rat \<Rightarrow> decimal \<Rightarrow> decimal result" where
  "full_kelly_fraction p_cal net_odds =
     rbind (clamp_unit p_cal) (\<lambda>p.
     rbind (guard (0 < net_odds) ValueError) (\<lambda>_.
     Inr (dsub p (ddiv (dsub 1 p) net_odds))))"

datatype binding_constraint = Kelly | Per_trade_cap | Aggregate_cap | Zero_edge

record sizing_decision =
  size_lamports :: lamports
  sd_full_kelly_fraction :: decimal
  applied_kelly_fraction :: decimal
  pre_cap_lamports :: lamports
  binding_constraint :: binding_constraint

definition mk_SizingDecision :: "sizing_decision \<Rightarrow> sizing_decision result" where
  "mk_SizingDecision d = (if size_lamports d < 0 then Inl ValueError else Inr d)"

subsection \<open>FractionalKellySizer\<close>

definition kelly_cap :: "risk_config \<Rightarrow> decimal" where
  "kelly_cap config = min (kelly_fraction_cap config) HARD_KELLY_CAP"

text \<open>Steps 6 and 7 of \<open>size()\<close>: the integer clamps.\<close>

definition apply_caps :: "risk_config \<Rightarrow> lamports \<Rightarrow> lamports \<Rightarrow> lamports \<times> binding_constraint" where
  "apply_caps config current_aggregate pre_cap =
     (let (size1, binding1) =
            (if pre_cap > per_trade_cap_lamports config
             then (per_trade_cap_lamports config, Per_trade_cap) else (pre_cap, Kelly));
          remaining0 = max_aggregate_lamports config - current_aggregate;
          remaining = (if remaining0 < 0 then 0 else remaining0);
          (size2, binding2) =
            (if size1 > remaining then (remaining, Aggregate_cap) else (size1, binding1))
      in (if size2 < 0 then 0 else size2, binding2))"

definition kelly_size ::
    "risk_config \<Rightarrow> rat \<Rightarrow> rat \<Rightarrow> lamports \<Rightarrow> derisk_signals option \<Rightarrow> decimal \<Rightarrow> sizing_decision result"
where
  "kelly_size config p_cal uncert current_aggregate signals net_odds =
     rbind (guard (0 \<le> current_aggregate) ValueError) (\<lambda>_.
     let sig = (case signals of None \<Rightarrow> default_signals | Some s \<Rightarrow> s) in
     rbind (clamp_unit uncert) (\<lambda>unc.
     rbind (full_kelly_fraction p_cal net_odds) (\<lambda>f_full.
     if f_full \<le> 0
     then mk_SizingDecision
       \<lparr>size_lamports = 0, sd_full_kelly_fraction = f_full, applied_kelly_fraction = 0,
        pre_cap_lamports = 0, binding_constraint = Zero_edge\<rparr>
     else
       let f1 = dmul (kelly_cap config) f_full; f2 = dmul f1 (dsub 1 unc) in
       rbind (combined_factor sig) (\<lambda>factor.
       let f3 = dmul f2 factor in
       rbind (guard (f3 \<le> kelly_cap config) AssertionError) (\<lambda>_.
       let pre_cap = trunc (dmul (of_int (per_trade_cap_lamports config)) f3);
           (size, binding) = apply_caps config current_aggregate pre_cap in
       mk_SizingDecision
         \<lparr>size_lamports = size, sd_full_kelly_fraction = f_full, applied_kelly_fraction = f3,
          pre_cap_lamports = pre_cap, binding_constraint = binding\<rparr>)))))"

subsection \<open>The integer clamps\<close>

lemma fst_apply_caps:
  "fst (apply_caps config cur pre) =
     max 0 (min (min pre (per_trade_cap_lamports config))
                (max 0 (max_aggregate_lamports config - cur)))"
  by (auto simp: apply_caps_def Let_def)

lemma apply_caps_bounds:
  "0 \<le> fst (apply_caps config cur pre)"
  "fst (apply_caps config cur pre) \<le> max 0 (per_trade_cap_lamports config)"
  "cur + fst (apply_caps config cur pre) \<le> max cur (max_aggregate_lamports config)"
  by (auto simp: fst_apply_caps)

lemma apply_caps_mono:
  "pre' \<le> pre \<Longrightarrow> cur \<le> cur' \<Longrightarrow> fst (apply_caps config cur' pre') \<le> fst (apply_caps config cur pre)"
  by (auto simp: fst_apply_caps)

subsection \<open>The fractional steps\<close>

lemma clamp_unit_iff: "clamp_unit x = Inr y \<longleftrightarrow> y = x \<and> 0 \<le> x \<and> x \<le> 1"
  by (auto simp: clamp_unit_def)

lemma combined_factor_iff:
  "combined_factor s = Inr f \<longleftrightarrow>
     0 \<le> sentiment_factor s \<and> sentiment_factor s \<le> 1 \<and>
     0 \<le> confidence_factor s \<and> confidence_factor s \<le> 1 \<and>
     f = dmul (sentiment_factor s) (confidence_factor s)"
proof -
  have "dmul a b \<le> 1" if "0 \<le> a" "a \<le> 1" "0 \<le> b" "b \<le> 1" for a b
    unfolding dmul_def using that by (intro dec.rnd_le_rep dec.rep_1 mult_le_one)
  then show ?thesis
    by (auto simp: combined_factor_def result_simps clamp_unit_iff Let_def)
qed

definition kelly_raw :: "rat \<Rightarrow> decimal \<Rightarrow> decimal" where
  "kelly_raw p b = dsub p (ddiv (dsub 1 p) b)"

lemma full_kelly_iff:
  "full_kelly_fraction p b = Inr f \<longleftrightarrow> 0 \<le> p \<and> p \<le> 1 \<and> 0 < b \<and> f = kelly_raw p b"
  by (auto simp: full_kelly_fraction_def result_simps clamp_unit_iff kelly_raw_def)

lemma kelly_raw_mono:
  assumes "0 < b" and "p \<le> q"
  shows "kelly_raw p b \<le> kelly_raw q b"
proof -
  have "dsub 1 q \<le> dsub 1 p"
    unfolding dsub_def using assms(2) by (intro dec.rnd_mono) simp
  then have "ddiv (dsub 1 q) b \<le> ddiv (dsub 1 p) b"
    using assms(1) by (rule ddiv_mono [rotated])
  then show ?thesis
    unfolding kelly_raw_def dsub_def [of p] dsub_def [of q]
    using assms(2) by (intro dec.rnd_mono) simp
qed

lemma kelly_raw_le_1:
  assumes "0 < b" and "p \<le> 1"
  shows "kelly_raw p b \<le> 1"
proof -
  have "0 \<le> ddiv (dsub 1 p) b"
    using assms by (intro ddiv_nonneg) (simp_all add: dsub_def dec.rnd_nonneg)
  then show ?thesis
    unfolding kelly_raw_def dsub_def [of p] using assms(2)
    by (intro dec.rnd_le_rep dec.rep_1) simp
qed

lemma dsub_1_unit: "0 \<le> u \<Longrightarrow> u \<le> 1 \<Longrightarrow> 0 \<le> dsub 1 u \<and> dsub 1 u \<le> 1"
  unfolding dsub_def using dec.rnd_unit [of "1 - u"] by simp

text \<open>The fraction applied to the per-trade cap, as a function of validated inputs.\<close>

definition applied_fraction :: "decimal \<Rightarrow> decimal \<Rightarrow> rat \<Rightarrow> decimal \<Rightarrow> decimal" where
  "applied_fraction cap f_full unc factor = dmul (dmul (dmul cap f_full) (dsub 1 unc)) factor"

lemma applied_fraction_nonneg:
  "0 \<le> cap \<Longrightarrow> 0 \<le> f \<Longrightarrow> 0 \<le> u \<Longrightarrow> u \<le> 1 \<Longrightarrow> 0 \<le> factor \<Longrightarrow> 0 \<le> applied_fraction cap f u factor"
  unfolding applied_fraction_def by (intro dmul_nonneg) (simp_all add: dsub_1_unit)

lemma applied_fraction_le_cap:
  assumes "dec_rep cap" and "0 \<le> cap" and "0 \<le> f" and "f \<le> 1" and "0 \<le> u" and "u \<le> 1"
    and "0 \<le> factor" and "factor \<le> 1"
  shows "applied_fraction cap f u factor \<le> cap"
proof -
  have "applied_fraction cap f u factor \<le> dmul (dmul cap f) (dsub 1 u)"
    unfolding applied_fraction_def using assms dsub_1_unit [of u]
    by (intro dmul_shrink dmul_nonneg) simp_all
  also have "\<dots> \<le> dmul cap f"
    using assms dsub_1_unit [of u] by (intro dmul_shrink dmul_nonneg) simp_all
  also have "\<dots> \<le> cap" using assms by (intro dmul_shrink)
  finally show ?thesis .
qed

lemma applied_fraction_mono:
  assumes "0 \<le> cap" and "0 \<le> f'" and "f' \<le> f" and "u \<le> u'" and "u' \<le> 1" and "0 \<le> u"
    and "0 \<le> g'" and "g' \<le> g"
  shows "applied_fraction cap f' u' g' \<le> applied_fraction cap f u g"
  unfolding applied_fraction_def
  using assms dsub_1_unit [of u'] dec.rnd_mono [of "1 - u'" "1 - u"]
  by (intro dmul_mono dmul_nonneg) (simp_all add: dsub_def)

lemma kelly_size_unfold:
  "kelly_size config p unc cur signals b = Inr d \<longleftrightarrow>
     0 \<le> cur \<and> 0 \<le> unc \<and> unc \<le> 1 \<and> 0 \<le> p \<and> p \<le> 1 \<and> 0 < b \<and>
     (if kelly_raw p b \<le> 0
      then d = \<lparr>size_lamports = 0, sd_full_kelly_fraction = kelly_raw p b,
                applied_kelly_fraction = 0, pre_cap_lamports = 0, binding_constraint = Zero_edge\<rparr>
      else \<exists>factor.
        combined_factor (case signals of None \<Rightarrow> default_signals | Some s \<Rightarrow> s) = Inr factor \<and>
        (let f = applied_fraction (kelly_cap config) (kelly_raw p b) unc factor;
             pre = trunc (dmul (of_int (per_trade_cap_lamports config)) f) in
         f \<le> kelly_cap config \<and>
         d = \<lparr>size_lamports = fst (apply_caps config cur pre),
              sd_full_kelly_fraction = kelly_raw p b, applied_kelly_fraction = f,
              pre_cap_lamports = pre, binding_constraint = snd (apply_caps config cur pre)\<rparr>))"
  using apply_caps_bounds(1) [of config cur]
  by (auto simp: kelly_size_def result_simps clamp_unit_iff full_kelly_iff Let_def
      applied_fraction_def mk_SizingDecision_def case_prod_beta not_less)

lemma combined_factor_default: "combined_factor default_signals = Inr 1"
  by (simp add: combined_factor_iff default_signals_def dmul_def dec.rnd_1)

lemma combined_factor_valid:
  "mk_DeRiskSignals s = Inr s \<Longrightarrow>
     \<exists>f. combined_factor s = Inr f \<and> 0 < f \<and> f \<le> 1"
  by (auto simp: mk_DeRiskSignals_def combined_factor_iff dmul_pos
      intro!: dec.rnd_le_rep [OF _ dec.rep_1] mult_le_one simp: dmul_def split: if_splits)
    (simp add: dec.rnd_positive)

lemma quarter_of_cap:
  assumes "0 \<le> P" and "P \<le> 100000000" and "0 \<le> f" and "f \<le> 1 / 4"
  shows "4 * trunc (dmul (of_int P) f) \<le> P"
proof -
  have "dmul (of_int P) f \<le> of_int (25 * P) / 10 ^ 2"
    unfolding dmul_def using assms
    using mult_left_mono [of f "1 / 4" "of_int P :: rat"]
    by (intro dec.rnd_le_rep dec_rep_frac) simp_all
  then have "trunc (dmul (of_int P) f) \<le> trunc (of_int P / 4)"
    by (intro trunc_mono) simp
  moreover have "of_int (trunc (of_int P / 4)) \<le> (of_int P / 4 :: rat)"
    using assms(1) by (simp add: trunc_def del: le_divide_eq_numeral1)
  then have "4 * trunc (of_int P / 4) \<le> P" by linarith
  ultimately show ?thesis by linarith
qed

lemma kelly_size_nonneg: "kelly_size config p unc cur signals b = Inr d \<Longrightarrow> 0 \<le> size_lamports d"
  using apply_caps_bounds(1) [of config cur]
  by (auto simp: kelly_size_unfold Let_def split: if_splits)

text \<open>Values used by the witnesses.\<close>

lemma sizing_values:
  "kelly_raw (4 / 5) 1 = 3 / 5" "kelly_raw (7 / 10) 1 = 2 / 5"
  "applied_fraction (1 / 4) (3 / 5) (1 / 10) 1 = 27 / 200"
  "applied_fraction (1 / 4) (2 / 5) (1 / 5) (1 / 2) = 1 / 25"
  "dmul 100000000 (27 / 200) = 13500000" "dmul 100000000 (1 / 25) = 4000000"
  "dmul (1 / 2) 1 = 1 / 2"
  unfolding kelly_raw_def applied_fraction_def by code_simp+

lemma sizing_default_values:
  "kelly_cap default_risk_config = 1 / 4" "per_trade_cap_lamports default_risk_config = 100000000"
  "trunc 13500000 = 13500000" "trunc 4000000 = 4000000"
  using trunc_of_int [of 13500000] trunc_of_int [of 4000000]
  by (simp_all add: kelly_cap_def default_risk_config_def HARD_KELLY_CAP_def)

lemma kelly_size_example:
  assumes "0 \<le> cur" and "signals = None \<or> signals = Some default_signals"
  shows "kelly_size default_risk_config (4 / 5) (1 / 10) cur signals 1 = Inr
     \<lparr>size_lamports = fst (apply_caps default_risk_config cur 13500000),
      sd_full_kelly_fraction = 3 / 5, applied_kelly_fraction = 27 / 200,
      pre_cap_lamports = 13500000,
      binding_constraint = snd (apply_caps default_risk_config cur 13500000)\<rparr>"
  using assms unfolding kelly_size_unfold Let_def
  by (auto simp: combined_factor_default sizing_values sizing_default_values)

subsection \<open>The sizer as a sizing engine\<close>

definition kelly_engine ::
    "derisk_signals option \<Rightarrow> decimal \<Rightarrow> rat \<Rightarrow> rat \<Rightarrow> lamports \<Rightarrow> risk_config \<Rightarrow> lamports result" where
  "kelly_engine signals net_odds p unc cur config =
     map_sum id size_lamports (kelly_size config p unc cur signals net_odds)"

lemma kelly_size_caps:
  assumes "kelly_size config p unc cur signals b = Inr d"
  shows "0 \<le> size_lamports d \<and> size_lamports d \<le> max 0 (per_trade_cap_lamports config) \<and>
    cur + size_lamports d \<le> max cur (max_aggregate_lamports config)"
  using assms apply_caps_bounds [where config = config and cur = cur]
  by (auto simp: kelly_size_unfold Let_def split: if_splits)

interpretation kelly: sizing_engine "kelly_engine signals net_odds"
  for signals :: "derisk_signals option" and net_odds :: decimal
proof
  fix p u agg c sol
  assume "kelly_engine signals net_odds p u agg c = Inr sol"
  then obtain d where "kelly_size c p u agg signals net_odds = Inr d" "sol = size_lamports d"
    by (cases "kelly_size c p u agg signals net_odds") (auto simp: kelly_engine_def)
  with kelly_size_caps [OF this(1)]
  show "agg + sol \<le> max agg (max_aggregate_lamports c)" "sol \<le> max 0 (per_trade_cap_lamports c)" by simp_all
qed

subsection \<open>Properties\<close>

text \<open>
  Whatever the probability, uncertainty, signals and odds, a size the sizer returns is
  non-negative, at most the per-trade cap, and never lifts the aggregate exposure over the
  aggregate cap.
\<close>

theorem sizing_hard_caps:
  assumes "kelly_size config p unc cur signals b = Inr d"
  shows "0 \<le> size_lamports d \<and> size_lamports d \<le> max 0 (per_trade_cap_lamports config) \<and>
    cur + size_lamports d \<le> max cur (max_aggregate_lamports config)"
  using assms by (rule kelly_size_caps)

theorem sizing_hard_caps_witness:
  "\<exists>d. kelly_size default_risk_config (4 / 5) (1 / 10) 495000000 None 1 = Inr d \<and>
     size_lamports d = 5000000 \<and> 495000000 + size_lamports d \<le> 500000000"
proof -
  have eval: "kelly_size default_risk_config (4 / 5) (1 / 10) 495000000 None 1 =
    Inr \<lparr>size_lamports = 5000000, sd_full_kelly_fraction = 3 / 5,
         applied_kelly_fraction = 27 / 200, pre_cap_lamports = 13500000,
         binding_constraint = Aggregate_cap\<rparr>"
    using kelly_size_example [of 495000000 None] by (simp add: apply_caps_def default_risk_config_def)
  show ?thesis
    using sizing_hard_caps [OF eval] eval by (simp add: default_risk_config_def)
qed

text \<open>
  For a valid configuration and inputs in range the sizer returns (its internal assertion
  cannot fail), applies at most a quarter of the Kelly fraction, and risks at most a quarter
  of the per-trade cap.
\<close>

theorem sizing_returns_at_most_quarter_kelly:
  assumes "floor_invariants config" and "0 \<le> kelly_fraction_cap config"
    and "dec_rep (kelly_fraction_cap config)" and "0 \<le> per_trade_cap_lamports config"
    and "0 \<le> p" and "p \<le> 1" and "0 \<le> unc" and "unc \<le> 1" and "0 \<le> cur" and "0 < b"
    and "mk_DeRiskSignals s = Inr s"
  shows "\<exists>d. kelly_size config p unc cur (Some s) b = Inr d \<and>
    applied_kelly_fraction d \<le> 1 / 4 \<and> 4 * size_lamports d \<le> per_trade_cap_lamports config"
proof (cases "kelly_raw p b \<le> 0")
  case True
  with assms show ?thesis by (auto simp: kelly_size_unfold)
next
  case False
  obtain g where g: "combined_factor s = Inr g" "0 < g" "g \<le> 1"
    using combined_factor_valid [OF assms(11)] by blast
  define cap where "cap = kelly_cap config"
  have cap: "cap = kelly_fraction_cap config" "0 \<le> cap" "cap \<le> 1 / 4"
    using assms(1,2) by (simp_all add: cap_def kelly_cap_def HARD_KELLY_CAP_def floor_invariants_def)
  define f where "f = applied_fraction cap (kelly_raw p b) unc g"
  define pre where "pre = trunc (dmul (of_int (per_trade_cap_lamports config)) f)"
  have le: "f \<le> cap" and f0: "0 \<le> f"
    unfolding f_def using assms False g cap kelly_raw_le_1 [of b p]
    by (auto intro!: applied_fraction_le_cap applied_fraction_nonneg)
  have quarter: "4 * pre \<le> per_trade_cap_lamports config"
    unfolding pre_def using assms(1,4) le f0 cap(3)
    by (intro quarter_of_cap) (simp_all add: floor_invariants_def)
  have "fst (apply_caps config cur pre) \<le> max 0 pre"
    by (simp add: fst_apply_caps)
  then have size: "4 * fst (apply_caps config cur pre) \<le> per_trade_cap_lamports config"
    using quarter assms(4) by linarith
  show ?thesis
    using assms False g(1) le cap(3) size
    by (auto simp: kelly_size_unfold Let_def f_def [symmetric] cap_def [symmetric] pre_def)
qed

theorem sizing_returns_at_most_quarter_kelly_witness:
  "\<exists>d. kelly_size default_risk_config (4 / 5) (1 / 10) 0 (Some default_signals) 1 = Inr d \<and>
    applied_kelly_fraction d \<le> 1 / 4 \<and> 4 * size_lamports d \<le> 100000000"
proof -
  have rep: "dec_rep (kelly_fraction_cap default_risk_config)"
    using dec_rep_frac [of 25 2] by (simp add: default_risk_config_def)
  have "floor_invariants default_risk_config" and "0 \<le> kelly_fraction_cap default_risk_config"
    and "0 \<le> per_trade_cap_lamports default_risk_config"
    and "mk_DeRiskSignals default_signals = Inr default_signals"
    by (simp_all add: default_risk_config_def floor_invariants_def mk_DeRiskSignals_def default_signals_def)
  then show ?thesis
    using sizing_returns_at_most_quarter_kelly [of default_risk_config "4 / 5" "1 / 10" 0 1 default_signals] rep
    by (simp add: default_risk_config_def)
qed

text \<open>
  De-risk only: lowering the win probability, raising the uncertainty, lowering a signal
  factor or raising the exposure already taken never raises the size.
\<close>

theorem sizing_monotone:
  assumes "kelly_size config p unc cur (Some s) b = Inr d"
    and "kelly_size config p' unc' cur' (Some s') b = Inr d'"
    and "p' \<le> p" and "unc \<le> unc'" and "cur \<le> cur'"
    and "sentiment_factor s' \<le> sentiment_factor s" and "confidence_factor s' \<le> confidence_factor s"
    and "0 \<le> kelly_fraction_cap config" and "0 \<le> per_trade_cap_lamports config"
  shows "size_lamports d' \<le> size_lamports d"
proof (cases "kelly_raw p' b \<le> 0")
  case True
  with assms(1,2) kelly_size_nonneg [OF assms(1)] show ?thesis
    by (simp add: kelly_size_unfold)
next
  case False
  have b: "0 < b" using assms(1) by (simp add: kelly_size_unfold)
  have raw: "kelly_raw p' b \<le> kelly_raw p b" by (rule kelly_raw_mono [OF b assms(3)])
  obtain g where g: "combined_factor s = Inr g"
    using assms(1) False raw by (auto simp: kelly_size_unfold)
  obtain g' where g': "combined_factor s' = Inr g'"
    using assms(2) False by (auto simp: kelly_size_unfold)
  have gg: "0 \<le> g'" "g' \<le> g"
    using g g' assms(6,7) by (auto simp: combined_factor_iff intro!: dmul_mono dmul_nonneg)
  have cap: "0 \<le> kelly_cap config"
    using assms(8) by (simp add: kelly_cap_def HARD_KELLY_CAP_def)
  define f where "f = applied_fraction (kelly_cap config) (kelly_raw p b) unc g"
  define f' where "f' = applied_fraction (kelly_cap config) (kelly_raw p' b) unc' g'"
  have units: "0 \<le> unc" "unc' \<le> 1" "0 \<le> unc'"
    using assms(1,2) by (simp_all add: kelly_size_unfold)
  have "f' \<le> f" and "0 \<le> f'"
    unfolding f_def f'_def using cap False raw gg units assms(4)
    by (auto intro!: applied_fraction_mono applied_fraction_nonneg)
  then have "trunc (dmul (of_int (per_trade_cap_lamports config)) f')
           \<le> trunc (dmul (of_int (per_trade_cap_lamports config)) f)"
    using assms(9) by (intro trunc_mono dmul_mono) simp_all
  then show ?thesis
    using assms(1,2,5) False raw g g' apply_caps_mono
    by (auto simp: kelly_size_unfold Let_def f_def f'_def split: if_splits)
qed

theorem sizing_monotone_witness:
  "\<exists>d d'. kelly_size default_risk_config (4 / 5) (1 / 10) 0 (Some default_signals) 1 = Inr d \<and>
     kelly_size default_risk_config (7 / 10) (1 / 5) 1000 (Some \<lparr>sentiment_factor = 1 / 2,
       confidence_factor = 1\<rparr>) 1 = Inr d' \<and>
     0 < size_lamports d' \<and> size_lamports d' \<le> size_lamports d"
proof -
  let ?s = "\<lparr>sentiment_factor = 1 / 2, confidence_factor = 1\<rparr> :: derisk_signals"
  have e1: "kelly_size default_risk_config (4 / 5) (1 / 10) 0 (Some default_signals) 1 =
    Inr \<lparr>size_lamports = 13500000, sd_full_kelly_fraction = 3 / 5,
         applied_kelly_fraction = 27 / 200, pre_cap_lamports = 13500000,
         binding_constraint = Kelly\<rparr>"
    using kelly_size_example [of 0 "Some default_signals"]
    by (simp add: apply_caps_def default_risk_config_def)
  have "combined_factor ?s = Inr (1 / 2)"
    and "apply_caps default_risk_config 1000 4000000 = (4000000, Kelly)"
    by (simp_all add: combined_factor_iff sizing_values apply_caps_def default_risk_config_def)
  then have e2: "kelly_size default_risk_config (7 / 10) (1 / 5) 1000 (Some ?s) 1 =
    Inr \<lparr>size_lamports = 4000000, sd_full_kelly_fraction = 2 / 5,
         applied_kelly_fraction = 1 / 25, pre_cap_lamports = 4000000,
         binding_constraint = Kelly\<rparr>"
    unfolding kelly_size_unfold Let_def
    by (auto simp: sizing_values sizing_default_values intro!: exI [of _ "1 / 2 :: rat"])
  show ?thesis
    using sizing_monotone [OF e1 e2] e1 e2 by (simp add: default_signals_def default_risk_config_def)
qed

end
