(* ===== verification/Cost_Gate.thy ===== *)
theory Cost_Gate
  imports Contracts
begin

text \<open>
  The cost-aware entry gate of \<open>aats/risk/cost_model.py\<close>: a pure, fail-closed decision on a
  \<open>CostStack\<close>. The properties say exactly which stacks pass, in which order the refusals are
  reported, and that a passing stack is accepted by the intent contract behind it.
\<close>

subsection \<open>The gate\<close>

datatype cost_reject =
    Edge_below_cost
  | Haircut_below_floor
  | Total_cost_mismatch
  | Negative_cost_line
  | Non_positive_edge

record cost_gate_decision =
  cg_passed :: bool
  cg_reason :: "cost_reject option"
  cg_expected_edge_bps :: bps
  cg_total_cost_bps :: bps
  cg_margin_bps :: bps

definition DEFAULT_HAIRCUT_FLOOR_BPS :: bps where
  "DEFAULT_HAIRCUT_FLOOR_BPS = 150"

definition haircut_floor_bps :: "risk_config option \<Rightarrow> bps" where
  "haircut_floor_bps config =
     (let cfg_floor = (case config of Some c \<Rightarrow> pre_calibration_haircut_bps c
                                    | None \<Rightarrow> DEFAULT_HAIRCUT_FLOOR_BPS)
      in max DEFAULT_HAIRCUT_FLOOR_BPS cfg_floor)"

definition sum_of_parts :: "cost_stack \<Rightarrow> bps" where
  "sum_of_parts cs =
     jito_tip_bps cs + priority_fee_bps cs + cs_entry_slippage_bps cs + amm_fee_bps cs
     + exit_slippage_bps cs + adverse_selection_bps cs"

definition cost_lines :: "cost_stack \<Rightarrow> bps list" where
  "cost_lines cs =
     [jito_tip_bps cs, priority_fee_bps cs, cs_entry_slippage_bps cs, amm_fee_bps cs,
      exit_slippage_bps cs, adverse_selection_bps cs]"

definition cost_gate_evaluate :: "risk_config option \<Rightarrow> cost_stack \<Rightarrow> cost_gate_decision" where
  "cost_gate_evaluate config cs =
     (let edge = expected_edge_bps cs; total = total_cost_bps cs; margin = edge - total;
          decide = (\<lambda>ok why. \<lparr>cg_passed = ok, cg_reason = why, cg_expected_edge_bps = edge,
                             cg_total_cost_bps = total, cg_margin_bps = margin\<rparr>) in
      if list_ex (\<lambda>line. line < 0) (cost_lines cs) \<or> total < 0
      then decide False (Some Negative_cost_line)
      else if adverse_selection_bps cs < haircut_floor_bps config
      then decide False (Some Haircut_below_floor)
      else if total \<noteq> sum_of_parts cs
      then decide False (Some Total_cost_mismatch)
      else if edge \<le> 0
      then decide False (Some Non_positive_edge)
      else if edge \<le> total
      then decide False (Some Edge_below_cost)
      else decide True None)"

definition allows_entry :: "risk_config option \<Rightarrow> cost_stack \<Rightarrow> bool" where
  "allows_entry config cs = cg_passed (cost_gate_evaluate config cs)"

subsection \<open>What passes\<close>

lemma haircut_floor_ge_150: "150 \<le> haircut_floor_bps config"
  by (simp add: haircut_floor_bps_def DEFAULT_HAIRCUT_FLOOR_BPS_def Let_def)

lemma sum_of_parts_lines: "sum_of_parts cs = sum_list (cost_lines cs)"
  by (simp add: sum_of_parts_def cost_lines_def)

lemma allows_entry_iff:
  "allows_entry config cs \<longleftrightarrow>
     (\<forall>line \<in> set (cost_lines cs). 0 \<le> line) \<and>
     haircut_floor_bps config \<le> adverse_selection_bps cs \<and>
     total_cost_bps cs = sum_list (cost_lines cs) \<and>
     total_cost_bps cs < expected_edge_bps cs"
proof (cases "\<forall>line \<in> set (cost_lines cs). 0 \<le> line")
  case True
  then have "0 \<le> sum_list (cost_lines cs)" by (simp add: sum_list_nonneg)
  with True show ?thesis
    by (auto simp: allows_entry_def cost_gate_evaluate_def Let_def list_ex_iff not_le not_less
        sum_of_parts_lines)
next
  case False
  then have "list_ex (\<lambda>line. line < 0) (cost_lines cs)" by (force simp: list_ex_iff not_le)
  with False show ?thesis by (auto simp: allows_entry_def cost_gate_evaluate_def Let_def)
qed

lemma cost_gate_reason_iff:
  "cg_reason (cost_gate_evaluate config cs) = None \<longleftrightarrow> cg_passed (cost_gate_evaluate config cs)"
  by (simp add: cost_gate_evaluate_def Let_def)

text \<open>
  The cost gate passes a stack exactly when no cost line is negative, the adverse-selection
  haircut is at or above the (widen-only) floor, the declared total is the sum of its parts and
  the expected edge strictly exceeds that sum; every other stack is refused with a reason.
\<close>

theorem cost_gate_sound_complete:
  "(allows_entry config cs \<longleftrightarrow>
     (\<forall>line \<in> set (cost_lines cs). 0 \<le> line) \<and>
     haircut_floor_bps config \<le> adverse_selection_bps cs \<and>
     total_cost_bps cs = sum_list (cost_lines cs) \<and>
     sum_list (cost_lines cs) < expected_edge_bps cs) \<and>
   (allows_entry config cs \<or> cg_reason (cost_gate_evaluate config cs) \<noteq> None)"
  using cost_gate_reason_iff [of config cs] allows_entry_iff [of config cs]
  by (auto simp: allows_entry_def)

definition example_stack :: cost_stack where
  "example_stack =
     \<lparr>expected_edge_bps = 400, jito_tip_bps = 20, priority_fee_bps = 10,
      cs_entry_slippage_bps = 50, amm_fee_bps = 25, exit_slippage_bps = 50,
      adverse_selection_bps = 150, total_cost_bps = 305\<rparr>"

theorem cost_gate_sound_complete_witness:
  "allows_entry None example_stack \<and> \<not> allows_entry None (example_stack\<lparr>expected_edge_bps := 305\<rparr>)"
proof -
  have "allows_entry None example_stack"
    using cost_gate_sound_complete [of None example_stack]
    by (simp add: example_stack_def cost_lines_def haircut_floor_bps_def DEFAULT_HAIRCUT_FLOOR_BPS_def)
  moreover have "\<not> allows_entry None (example_stack\<lparr>expected_edge_bps := 305\<rparr>)"
    using cost_gate_sound_complete [of None "example_stack\<lparr>expected_edge_bps := 305\<rparr>"]
    by (simp add: example_stack_def cost_lines_def)
  ultimately show ?thesis by simp
qed

lemma allows_entry_mk_CostStack: "allows_entry config cs \<Longrightarrow> mk_CostStack cs = Inr cs"
  using haircut_floor_ge_150 [of config] by (auto simp: allows_entry_iff mk_CostStack_def)

lemma allows_entry_mk_EntryIntent:
  "allows_entry config (en_cost_stack i) \<Longrightarrow> slot (en_event_time i) + 5 \<le> en_target_slot i \<Longrightarrow>
   mk_EntryIntent i = Inr i"
  by (auto simp: allows_entry_iff mk_EntryIntent_iff)

end
