(* ===== verification/Resting_Orders.thy ===== *)
theory Resting_Orders
  imports Safety_Gate Breaker Sizing Cost_Gate "HOL-Library.List_Lexorder" "HOL-Library.Char_ord"
begin

text \<open>
  Standing orders of \<open>aats/risk/resting_orders.py\<close>: resting sells and reductions, resting buys that
  are re-gated when they trigger, dollar-cost-average plans, the durable store and the book that
  evaluates them on each tick. The gate chain composes the denylist, the safety gate, the breaker,
  the sizer and the cost gate of this development; the builder of the entry intent and the
  off-box keeper are interfaces without an implementation in the source and are arguments.
  The locks are not modelled: one call is one step.
\<close>

subsection \<open>Triggers and orders\<close>

datatype resting_side = SELL | REDUCE | BUY

datatype trigger_direction = AT_OR_BELOW | AT_OR_ABOVE

definition trigger_met :: "trigger_direction \<Rightarrow> decimal \<Rightarrow> decimal \<Rightarrow> bool" where
  "trigger_met direction mark trigger =
     (case direction of AT_OR_BELOW \<Rightarrow> mark \<le> trigger | AT_OR_ABOVE \<Rightarrow> trigger \<le> mark)"

record resting_sell_order =
  so_order_id :: string
  so_mint :: mint
  so_side :: resting_side
  so_trigger_price :: decimal
  so_trigger_direction :: trigger_direction
  so_fraction_bps :: bps
  so_exit_mode :: exit_mode
  so_reason :: string

definition mk_RestingSellOrder :: "resting_sell_order \<Rightarrow> resting_sell_order result" where
  "mk_RestingSellOrder od =
     (if so_side od \<noteq> SELL \<and> so_side od \<noteq> REDUCE then Inl ValueError
      else if so_trigger_price od \<le> 0 then Inl ValueError
      else if so_side od = SELL \<and> \<not> (1 \<le> so_fraction_bps od \<and> so_fraction_bps od \<le> 10000)
      then Inl ValueError
      else if so_side od \<noteq> SELL \<and> \<not> (1 \<le> so_fraction_bps od \<and> so_fraction_bps od \<le> 9999)
      then Inl ValueError
      else Inr od)"

definition sell_is_triggered :: "resting_sell_order \<Rightarrow> decimal \<Rightarrow> bool" where
  "sell_is_triggered od mark = trigger_met (so_trigger_direction od) mark (so_trigger_price od)"

definition sell_fire :: "resting_sell_order \<Rightarrow> millis \<Rightarrow> intent result" where
  "sell_fire od bt =
     (if so_side od = SELL
      then factory_exit (Cid (''resting:sell:'' @ so_order_id od) (so_mint od) [of_int bt]) (so_mint od)
             (so_fraction_bps od) (so_exit_mode od) (Audit (''resting_sell_triggered: '' @ so_reason od) [])
      else factory_reduce (Cid (''resting:reduce:'' @ so_order_id od) (so_mint od) [of_int bt]) (so_mint od)
             (so_fraction_bps od) (Audit (''resting_reduce_triggered: '' @ so_reason od) []))"

record resting_buy_order =
  bo_order_id :: string
  bo_mint :: mint
  bo_trigger_price :: decimal
  bo_trigger_direction :: trigger_direction
  bo_reason :: string
  bo_side :: resting_side
  scheduled_step :: "int option"

definition mk_RestingBuyOrder :: "resting_buy_order \<Rightarrow> resting_buy_order result" where
  "mk_RestingBuyOrder od =
     (if bo_side od \<noteq> BUY then Inl ValueError
      else if bo_trigger_price od \<le> 0 then Inl ValueError
      else if (case scheduled_step od of None \<Rightarrow> False | Some s \<Rightarrow> s < 0) then Inl ValueError
      else Inr od)"

definition buy_is_triggered :: "resting_buy_order \<Rightarrow> decimal \<Rightarrow> bool" where
  "buy_is_triggered od mark = trigger_met (bo_trigger_direction od) mark (bo_trigger_price od)"

datatype resting_order = Sell_order resting_sell_order | Buy_order resting_buy_order

fun ro_order_id :: "resting_order \<Rightarrow> string" where
  "ro_order_id (Sell_order od) = so_order_id od"
| "ro_order_id (Buy_order od) = bo_order_id od"

fun ro_mint :: "resting_order \<Rightarrow> mint" where
  "ro_mint (Sell_order od) = so_mint od"
| "ro_mint (Buy_order od) = bo_mint od"

subsection \<open>The gate chain of a resting buy\<close>

record 'p buy_fire_context =
  bc_mint :: mint
  bc_block_time_ms :: millis
  bc_safety_inputs :: "safety_inputs option"
  bc_p_calibrated :: rat
  bc_uncertainty :: rat
  bc_current_aggregate_lamports :: lamports
  bc_cost_stack :: "cost_stack option"
  bc_creator :: "string option"
  bc_entry_build_params :: "'p option"

definition mk_BuyFireContext :: "'p buy_fire_context \<Rightarrow> 'p buy_fire_context result" where
  "mk_BuyFireContext c =
     (if bc_block_time_ms c < 0 then Inl ValueError
      else if bc_current_aggregate_lamports c < 0 then Inl ValueError
      else Inr c)"

datatype buy_fire_rejection =
    DENYLISTED
  | SAFETY_GATE
  | BREAKER_TRIPPED_REJ
  | ZERO_SIZE
  | COST_GATE
  | BUILD_REFUSED
  | NO_GATE_CHAIN

record buy_fire_result =
  bf_mint :: mint
  bf_fired :: bool
  bf_intent :: "entry_intent option"
  bf_rejection :: "buy_fire_rejection option"
  bf_size_lamports :: lamports

definition mk_BuyFireResult :: "buy_fire_result \<Rightarrow> buy_fire_result result" where
  "mk_BuyFireResult r =
     (if bf_fired r
      then if bf_intent r = None \<or> bf_rejection r \<noteq> None then Inl ValueError else Inr r
      else if bf_intent r \<noteq> None \<or> bf_rejection r = None then Inl ValueError else Inr r)"

definition buy_reject :: "mint \<Rightarrow> buy_fire_rejection \<Rightarrow> buy_fire_result result" where
  "buy_reject m why =
     mk_BuyFireResult \<lparr>bf_mint = m, bf_fired = False, bf_intent = None, bf_rejection = Some why,
                       bf_size_lamports = 0\<rparr>"

text \<open>
  The chain: the denylist watcher when wired, the safety gate (thresholds and enabled switch), the
  breaker, the sizer's configuration, the cost gate's configuration, and the entry builder, which
  may raise, decline with \<open>None\<close> or build an intent.
\<close>

record 'p gate_chain =
  gc_denylist :: "deny_watcher option"
  gc_safety :: safety_thresholds
  gc_safety_enabled :: bool
  gc_breaker :: breaker
  gc_sizer :: risk_config
  gc_cost :: "risk_config option"
  gc_build_entry :: "mint \<Rightarrow> lamports \<Rightarrow> millis \<Rightarrow> cost_stack \<Rightarrow> 'p option \<Rightarrow> entry_intent option result"

definition evaluate_buy :: "'p gate_chain \<Rightarrow> 'p buy_fire_context \<Rightarrow> buy_fire_result result" where
  "evaluate_buy g ctx =
     (let m = bc_mint ctx in
      if (case gc_denylist g of None \<Rightarrow> False | Some w \<Rightarrow> check_keys w (bc_creator ctx) (Some m) \<noteq> None)
      then buy_reject m DENYLISTED
      else case bc_safety_inputs ctx of
        None \<Rightarrow> buy_reject m SAFETY_GATE
      | Some inputs \<Rightarrow>
          if \<not> require_enabled_for_entry (gc_safety_enabled g) (evaluate_fast (gc_safety g) inputs)
          then buy_reject m SAFETY_GATE
          else if \<not> entries_allowed (gc_breaker g) then buy_reject m BREAKER_TRIPPED_REJ
          else
            rbind (kelly_size (gc_sizer g) (bc_p_calibrated ctx) (bc_uncertainty ctx)
                     (bc_current_aggregate_lamports ctx) None 1) (\<lambda>sizing.
            let sz = size_lamports sizing in
            if sz \<le> 0 then buy_reject m ZERO_SIZE
            else case bc_cost_stack ctx of
              None \<Rightarrow> Inl AttributeError
            | Some cs \<Rightarrow>
                if \<not> allows_entry (gc_cost g) cs then buy_reject m COST_GATE
                else case gc_build_entry g m sz (bc_block_time_ms ctx) cs (bc_entry_build_params ctx) of
                  Inl _ \<Rightarrow> buy_reject m BUILD_REFUSED
                | Inr None \<Rightarrow> buy_reject m BUILD_REFUSED
                | Inr (Some intent) \<Rightarrow>
                    mk_BuyFireResult
                      \<lparr>bf_mint = m, bf_fired = True, bf_intent = Some intent, bf_rejection = None,
                       bf_size_lamports = sz\<rparr>))"

definition buy_fire ::
  "resting_buy_order \<Rightarrow> 'p buy_fire_context \<Rightarrow> 'p gate_chain option \<Rightarrow> buy_fire_result result" where
  "buy_fire od ctx chain =
     (if bc_mint ctx \<noteq> bo_mint od then Inl ValueError
      else case chain of
        None \<Rightarrow> buy_reject (bo_mint od) NO_GATE_CHAIN
      | Some g \<Rightarrow> evaluate_buy g ctx)"

subsection \<open>Dollar-cost-average plans\<close>

record dca_plan =
  plan_id :: string
  dp_mint :: mint
  tranches :: int
  step_interval :: int
  first_step :: int
  dp_trigger_price :: "decimal option"
  dp_trigger_direction :: trigger_direction
  dp_reason :: string

definition mk_DcaPlan :: "dca_plan \<Rightarrow> dca_plan result" where
  "mk_DcaPlan p =
     (if tranches p \<le> 0 then Inl ValueError
      else if step_interval p \<le> 0 then Inl ValueError
      else if first_step p < 0 then Inl ValueError
      else if (case dp_trigger_price p of None \<Rightarrow> False | Some q \<Rightarrow> q \<le> 0) then Inl ValueError
      else Inr p)"

definition tranche_steps :: "dca_plan \<Rightarrow> int list" where
  "tranche_steps p = map (\<lambda>i. first_step p + i * step_interval p) [0..tranches p - 1]"

definition buy_order_for_tranche :: "dca_plan \<Rightarrow> int \<Rightarrow> resting_buy_order result" where
  "buy_order_for_tranche p idx =
     (if \<not> (0 \<le> idx \<and> idx < tranches p) then Inl IndexError
      else
        mk_RestingBuyOrder
          \<lparr>bo_order_id = plan_id p @ '':tranche:'' @ str_int idx, bo_mint = dp_mint p,
           bo_trigger_price = (case dp_trigger_price p of Some q \<Rightarrow> q | None \<Rightarrow> 1),
           bo_trigger_direction =
             (case dp_trigger_price p of Some _ \<Rightarrow> dp_trigger_direction p | None \<Rightarrow> AT_OR_ABOVE),
           bo_reason = dp_reason p @ '':tranche='' @ str_int idx @ ''/'' @ str_int (tranches p),
           bo_side = BUY, scheduled_step = Some (first_step p + idx * step_interval p)\<rparr>)"

subsection \<open>The durable store and the book\<close>

type_synonym order_dict = "(string \<times> resting_order) list"

definition store_upsert :: "order_dict \<Rightarrow> resting_order \<Rightarrow> order_dict" where
  "store_upsert d od = dict_set (ro_order_id od) od d"

definition store_remove :: "order_dict \<Rightarrow> string \<Rightarrow> order_dict" where
  "store_remove d oid = dict_pop oid d"

definition store_load_all :: "order_dict \<Rightarrow> resting_order list" where
  "store_load_all d = dict_values d"

text \<open>The off-box keeper: its two calls, and the log of what was asked of it.\<close>

record keeper =
  kp_place :: "mint \<Rightarrow> string \<Rightarrow> decimal \<Rightarrow> bps \<Rightarrow> string result"
  kp_cancel :: "mint \<Rightarrow> string \<Rightarrow> unit result"

datatype keeper_call = Placed mint string string | Cancelled mint string

record 'p order_book =
  bk_store :: order_dict
  bk_chain :: "'p gate_chain option"
  bk_keeper :: "keeper option"
  bk_orders :: order_dict
  bk_keeper_handles :: "(string \<times> string) list"
  bk_keeper_log :: "keeper_call list"

definition mk_RestingOrderBook :: "order_dict \<Rightarrow> 'p gate_chain option \<Rightarrow> keeper option \<Rightarrow> 'p order_book" where
  "mk_RestingOrderBook store chain keeper =
     \<lparr>bk_store = store, bk_chain = chain, bk_keeper = keeper,
      bk_orders = foldl (\<lambda>d od. dict_set (ro_order_id od) od d) [] (store_load_all store),
      bk_keeper_handles = [], bk_keeper_log = []\<rparr>"

definition book_place :: "'p order_book \<Rightarrow> resting_order \<Rightarrow> 'p order_book \<times> resting_order result" where
  "book_place b od =
     (let b1 = b\<lparr>bk_orders := dict_set (ro_order_id od) od (bk_orders b),
                 bk_store := store_upsert (bk_store b) od\<rparr> in
      case (od, bk_keeper b1) of
        (Sell_order s, Some k) \<Rightarrow>
          (case kp_place k (so_mint s) (so_order_id s) (so_trigger_price s) (so_fraction_bps s) of
             Inl e \<Rightarrow> (b1, Inl e)
           | Inr handle \<Rightarrow>
               (b1\<lparr>bk_keeper_handles := dict_set (so_order_id s) handle (bk_keeper_handles b1),
                   bk_keeper_log := bk_keeper_log b1 @ [Placed (so_mint s) (so_order_id s) handle]\<rparr>,
                Inr od))
      | _ \<Rightarrow> (b1, Inr od))"

fun place_all :: "'p order_book \<Rightarrow> resting_buy_order list \<Rightarrow> 'p order_book \<times> unit result" where
  "place_all b [] = (b, Inr ())"
| "place_all b (od # ods) =
     (case book_place b (Buy_order od) of
        (b1, Inl e) \<Rightarrow> (b1, Inl e)
      | (b1, Inr _) \<Rightarrow> place_all b1 ods)"

fun results :: "'a result list \<Rightarrow> 'a list result" where
  "results [] = Inr []"
| "results (r # rs) = rbind r (\<lambda>a. rbind (results rs) (\<lambda>xs. Inr (a # xs)))"

definition place_dca :: "'p order_book \<Rightarrow> dca_plan \<Rightarrow> 'p order_book \<times> resting_buy_order list result" where
  "place_dca b p =
     (case results (map (buy_order_for_tranche p) [0..tranches p - 1]) of
        Inl e \<Rightarrow> (b, Inl e)
      | Inr ods \<Rightarrow>
          (case place_all b ods of
             (b1, Inl e) \<Rightarrow> (b1, Inl e)
           | (b1, Inr _) \<Rightarrow> (b1, Inr ods)))"

definition book_cancel :: "'p order_book \<Rightarrow> string \<Rightarrow> 'p order_book \<times> unit result" where
  "book_cancel b oid =
     (let order = map_of (bk_orders b) oid;
          b1 = b\<lparr>bk_orders := dict_pop oid (bk_orders b), bk_store := store_remove (bk_store b) oid\<rparr> in
      case (order, bk_keeper b1) of
        (Some (Sell_order s), Some k) \<Rightarrow>
          (case map_of (bk_keeper_handles b1) oid of
             None \<Rightarrow> (b1, Inr ())
           | Some handle \<Rightarrow>
               let b2 = b1\<lparr>bk_keeper_handles := dict_pop oid (bk_keeper_handles b1)\<rparr> in
               (case kp_cancel k (so_mint s) handle of
                  Inl e \<Rightarrow> (b2, Inl e)
                | Inr _ \<Rightarrow>
                    (b2\<lparr>bk_keeper_log := bk_keeper_log b2 @ [Cancelled (so_mint s) handle]\<rparr>, Inr ())))
      | _ \<Rightarrow> (b1, Inr ()))"

subsection \<open>Evaluation of a tick\<close>

record tick_fire =
  tf_order_id :: string
  tf_side :: resting_side
  tf_sell_intent :: "intent option"
  tf_buy_result :: "buy_fire_result option"

definition buy_step_ready :: "resting_buy_order \<Rightarrow> int option \<Rightarrow> bool" where
  "buy_step_ready od event_step =
     (case (scheduled_step od, event_step) of
        (Some scheduled, Some step) \<Rightarrow> scheduled \<le> step
      | _ \<Rightarrow> True)"

definition buy_ctx_for ::
  "resting_buy_order \<Rightarrow> 'p buy_fire_context option \<Rightarrow> millis \<Rightarrow> lamports \<Rightarrow> 'p buy_fire_context result" where
  "buy_ctx_for od supplied bt committed =
     (if committed < 0 then Inl ValueError
      else case supplied of
        Some c \<Rightarrow>
          if bc_mint c \<noteq> bo_mint od then Inl ValueError
          else mk_BuyFireContext
                 (c\<lparr>bc_block_time_ms := bt,
                    bc_current_aggregate_lamports := bc_current_aggregate_lamports c + committed\<rparr>)
      | None \<Rightarrow>
          mk_BuyFireContext
            \<lparr>bc_mint = bo_mint od, bc_block_time_ms = bt, bc_safety_inputs = None, bc_p_calibrated = 0,
             bc_uncertainty = 1, bc_current_aggregate_lamports = committed, bc_cost_stack = None,
             bc_creator = None, bc_entry_build_params = None\<rparr>)"

fun tick_order ::
  "decimal \<Rightarrow> millis \<Rightarrow> int option \<Rightarrow> 'p buy_fire_context option \<Rightarrow> 'p order_book \<Rightarrow> lamports \<Rightarrow>
   resting_order \<Rightarrow> 'p order_book \<times> (lamports \<times> tick_fire list) result" where
  "tick_order mark bt step ctx b committed (Sell_order od) =
     (if sell_is_triggered od mark
      then case sell_fire od bt of
             Inl e \<Rightarrow> (b, Inl e)
           | Inr x \<Rightarrow>
               (case book_cancel b (so_order_id od) of
                  (b1, Inl e) \<Rightarrow> (b1, Inl e)
                | (b1, Inr _) \<Rightarrow>
                    (b1, Inr (committed, [\<lparr>tf_order_id = so_order_id od, tf_side = so_side od,
                                           tf_sell_intent = Some x, tf_buy_result = None\<rparr>])))
      else (b, Inr (committed, [])))"
| "tick_order mark bt step ctx b committed (Buy_order od) =
     (if \<not> buy_step_ready od step then (b, Inr (committed, []))
      else if \<not> buy_is_triggered od mark then (b, Inr (committed, []))
      else case rbind (buy_ctx_for od ctx bt committed) (\<lambda>c. buy_fire od c (bk_chain b)) of
             Inl e \<Rightarrow> (b, Inl e)
           | Inr r \<Rightarrow>
               let fire = \<lparr>tf_order_id = bo_order_id od, tf_side = bo_side od, tf_sell_intent = None,
                           tf_buy_result = Some r\<rparr> in
               if bf_fired r
               then case book_cancel b (bo_order_id od) of
                      (b1, Inl e) \<Rightarrow> (b1, Inl e)
                    | (b1, Inr _) \<Rightarrow> (b1, Inr (committed + bf_size_lamports r, [fire]))
               else (b, Inr (committed, [fire])))"

fun tick_orders ::
  "decimal \<Rightarrow> millis \<Rightarrow> int option \<Rightarrow> 'p buy_fire_context option \<Rightarrow> 'p order_book \<Rightarrow> lamports \<Rightarrow>
   resting_order list \<Rightarrow> 'p order_book \<times> tick_fire list result" where
  "tick_orders mark bt step ctx b committed [] = (b, Inr [])"
| "tick_orders mark bt step ctx b committed (od # ods) =
     (case tick_order mark bt step ctx b committed od of
        (b1, Inl e) \<Rightarrow> (b1, Inl e)
      | (b1, Inr (committed', fires)) \<Rightarrow>
          (case tick_orders mark bt step ctx b1 committed' ods of
             (b2, Inl e) \<Rightarrow> (b2, Inl e)
           | (b2, Inr fires') \<Rightarrow> (b2, Inr (fires @ fires'))))"

definition book_candidates :: "'p order_book \<Rightarrow> mint \<Rightarrow> resting_order list" where
  "book_candidates b m = sort_key ro_order_id (filter (\<lambda>od. ro_mint od = m) (dict_values (bk_orders b)))"

definition evaluate_tick ::
  "'p order_book \<Rightarrow> mint \<Rightarrow> decimal \<Rightarrow> millis \<Rightarrow> int option \<Rightarrow> 'p buy_fire_context option \<Rightarrow>
   'p order_book \<times> tick_fire list result" where
  "evaluate_tick b m mark bt step ctx =
     (if bt < 0 then (b, Inl ValueError)
      else tick_orders mark bt step ctx b 0 (book_candidates b m))"

subsection \<open>A resting buy fires only through every gate\<close>

definition gated_buy :: "'p gate_chain \<Rightarrow> 'p buy_fire_context \<Rightarrow> buy_fire_result \<Rightarrow> bool" where
  "gated_buy g c r \<longleftrightarrow>
     (case gc_denylist g of None \<Rightarrow> True | Some w \<Rightarrow> check_keys w (bc_creator c) (Some (bc_mint c)) = None) \<and>
     gc_safety_enabled g \<and> (\<exists>inputs. bc_safety_inputs c = Some inputs \<and> safety_clean (gc_safety g) inputs) \<and>
     entries_allowed (gc_breaker g) \<and>
     0 < bf_size_lamports r \<and> bf_size_lamports r \<le> max 0 (per_trade_cap_lamports (gc_sizer g)) \<and>
     bc_current_aggregate_lamports c + bf_size_lamports r
       \<le> max (bc_current_aggregate_lamports c) (max_aggregate_lamports (gc_sizer g)) \<and>
     (\<exists>cs x. bc_cost_stack c = Some cs \<and> allows_entry (gc_cost g) cs \<and> bf_intent r = Some x \<and>
        gc_build_entry g (bc_mint c) (bf_size_lamports r) (bc_block_time_ms c) cs (bc_entry_build_params c) =
          Inr (Some x))"

lemma buy_reject_iff: "buy_reject m why = Inr r \<longleftrightarrow>
  r = \<lparr>bf_mint = m, bf_fired = False, bf_intent = None, bf_rejection = Some why, bf_size_lamports = 0\<rparr>"
  by (auto simp: buy_reject_def mk_BuyFireResult_def)

lemma evaluate_buy_fired:
  assumes "evaluate_buy g c = Inr r" and "bf_fired r"
  shows "gated_buy g c r"
proof -
  have clear: "case gc_denylist g of None \<Rightarrow> True | Some w \<Rightarrow> check_keys w (bc_creator c) (Some (bc_mint c)) = None"
    using assms by (auto simp: evaluate_buy_def Let_def buy_reject_iff split: option.splits if_splits)
  then have "\<not> (case gc_denylist g of None \<Rightarrow> False | Some w \<Rightarrow> check_keys w (bc_creator c) (Some (bc_mint c)) \<noteq> None)"
    by (auto split: option.splits)
  note eval = assms(1) [unfolded evaluate_buy_def Let_def, simplified this if_False]
  obtain inputs where inputs: "bc_safety_inputs c = Some inputs"
    using eval assms(2) by (cases "bc_safety_inputs c") (auto simp: buy_reject_iff)
  have gate: "require_enabled_for_entry (gc_safety_enabled g) (evaluate_fast (gc_safety g) inputs)"
    "entries_allowed (gc_breaker g)"
    using eval assms(2) by (auto simp: inputs buy_reject_iff split: if_splits)
  obtain d where d: "kelly_size (gc_sizer g) (bc_p_calibrated c) (bc_uncertainty c)
      (bc_current_aggregate_lamports c) None 1 = Inr d"
    and rest: "(if size_lamports d \<le> 0 then buy_reject (bc_mint c) ZERO_SIZE
            else case bc_cost_stack c of
              None \<Rightarrow> Inl AttributeError
            | Some cs \<Rightarrow>
                if \<not> allows_entry (gc_cost g) cs then buy_reject (bc_mint c) COST_GATE
                else case gc_build_entry g (bc_mint c) (size_lamports d) (bc_block_time_ms c) cs (bc_entry_build_params c) of
                  Inl _ \<Rightarrow> buy_reject (bc_mint c) BUILD_REFUSED
                | Inr None \<Rightarrow> buy_reject (bc_mint c) BUILD_REFUSED
                | Inr (Some intent) \<Rightarrow>
                    mk_BuyFireResult
                      \<lparr>bf_mint = bc_mint c, bf_fired = True, bf_intent = Some intent, bf_rejection = None,
                       bf_size_lamports = size_lamports d\<rparr>) = Inr r"
    using eval gate by (auto simp: inputs result_simps)
  have pos: "0 < size_lamports d" using rest assms(2) by (auto simp: buy_reject_iff split: if_splits)
  obtain cs where cs: "bc_cost_stack c = Some cs" "allows_entry (gc_cost g) cs"
    using rest pos assms(2) by (cases "bc_cost_stack c") (auto simp: buy_reject_iff split: if_splits)
  have built: "bf_size_lamports r = size_lamports d \<and>
      (\<exists>x. bf_intent r = Some x \<and>
        gc_build_entry g (bc_mint c) (size_lamports d) (bc_block_time_ms c) cs (bc_entry_build_params c) = Inr (Some x))"
    using rest pos assms(2) by (auto simp: cs buy_reject_iff mk_BuyFireResult_def split: sum.splits option.splits)
  from kelly_size_caps [OF d] built pos cs clear gate inputs show ?thesis
    by (auto simp: gated_buy_def require_enabled_for_entry_def evaluate_fast_passed_iff)
qed

lemma gated_buy_bounds:
  "gated_buy g c r \<Longrightarrow> 0 < bf_size_lamports r \<and>
     bc_current_aggregate_lamports c + bf_size_lamports r
       \<le> max (bc_current_aggregate_lamports c) (max_aggregate_lamports (gc_sizer g))"
  by (simp add: gated_buy_def)

text \<open>What one tick may send: sells that shed risk, and buys that went through the chain.\<close>

definition fire_ok ::
  "'p gate_chain option \<Rightarrow> 'p buy_fire_context option \<Rightarrow> millis \<Rightarrow> tick_fire \<Rightarrow> bool" where
  "fire_ok chain ctx bt f \<longleftrightarrow>
     (case tf_buy_result f of
        None \<Rightarrow> \<exists>x. tf_sell_intent f = Some x \<and> derisk_intent x
      | Some r \<Rightarrow> tf_sell_intent f = None \<and>
          (bf_fired r \<longrightarrow>
            (\<exists>g c n. chain = Some g \<and> ctx = Some c \<and> 0 \<le> n \<and>
               gated_buy g (c\<lparr>bc_block_time_ms := bt,
                              bc_current_aggregate_lamports := bc_current_aggregate_lamports c + n\<rparr>) r)))"

definition fired_lamports :: "tick_fire list \<Rightarrow> lamports" where
  "fired_lamports fires =
     sum_list (map (\<lambda>f. case tf_buy_result f of
        Some r \<Rightarrow> if bf_fired r then bf_size_lamports r else 0 | None \<Rightarrow> 0) fires)"

lemma fired_lamports_simps [simp]:
  "fired_lamports [] = 0" "fired_lamports (fs @ gs) = fired_lamports fs + fired_lamports gs"
  by (simp_all add: fired_lamports_def)

lemma fired_lamports_none:
  "\<forall>f \<in> set fires. \<forall>r. tf_buy_result f = Some r \<longrightarrow> \<not> bf_fired r \<Longrightarrow> fired_lamports fires = 0"
  by (induction fires) (auto simp: fired_lamports_def split: option.split)

lemma book_cancel_frame:
  "bk_chain (fst (book_cancel b oid)) = bk_chain b" "bk_keeper (fst (book_cancel b oid)) = bk_keeper b"
  "bk_orders (fst (book_cancel b oid)) = dict_pop oid (bk_orders b)"
  "bk_store (fst (book_cancel b oid)) = dict_pop oid (bk_store b)"
  by (simp_all add: book_cancel_def Let_def store_remove_def split: option.split resting_order.split sum.split)

lemma sell_fire_derisk: "sell_fire od bt = Inr x \<Longrightarrow> derisk_intent x"
  by (auto simp: sell_fire_def dest: factory_derisk split: if_splits)

lemma buy_fire_ctx_gated:
  assumes "rbind (buy_ctx_for od ctx bt committed) (\<lambda>c. buy_fire od c chain) = Inr r" and "bf_fired r"
  shows "\<exists>g c. chain = Some g \<and> ctx = Some c \<and> 0 \<le> committed \<and>
    gated_buy g (c\<lparr>bc_block_time_ms := bt,
                   bc_current_aggregate_lamports := bc_current_aggregate_lamports c + committed\<rparr>) r"
proof -
  obtain c' where c': "buy_ctx_for od ctx bt committed = Inr c'" "buy_fire od c' chain = Inr r"
    using assms(1) by (auto simp: result_simps)
  obtain g where g: "chain = Some g" "evaluate_buy g c' = Inr r"
    using c'(2) assms(2) by (auto simp: buy_fire_def buy_reject_iff split: if_splits option.splits)
  note gated = evaluate_buy_fired [OF g(2) assms(2)]
  show ?thesis
    using c'(1) g(1) gated
    by (auto simp: buy_ctx_for_def mk_BuyFireContext_def gated_buy_def split: if_splits option.splits)
qed

lemma tick_order_step:
  assumes "tick_order mark bt step ctx b n od = (b', Inr (n', fires))" and "0 \<le> n"
  shows "bk_chain b' = bk_chain b" and "\<forall>f \<in> set fires. fire_ok (bk_chain b) ctx bt f"
    and "n' = n + fired_lamports fires" and "n \<le> n'"
    and "bk_chain b = Some g \<Longrightarrow> ctx = Some c \<Longrightarrow>
      bc_current_aggregate_lamports c + n' \<le>
        max (bc_current_aggregate_lamports c + n) (max_aggregate_lamports (gc_sizer g))"
proof -
  have "bk_chain b' = bk_chain b \<and> (\<forall>f \<in> set fires. fire_ok (bk_chain b) ctx bt f) \<and>
    n' = n + fired_lamports fires \<and> n \<le> n' \<and>
    (bk_chain b = Some g \<longrightarrow> ctx = Some c \<longrightarrow>
      bc_current_aggregate_lamports c + n' \<le>
        max (bc_current_aggregate_lamports c + n) (max_aggregate_lamports (gc_sizer g)))"
  proof (cases od)
    case (Sell_order s)
    then show ?thesis
      using assms book_cancel_frame(1) [of b "so_order_id s"]
      by (auto simp: fire_ok_def fired_lamports_def split: if_splits sum.splits prod.splits
          dest: sell_fire_derisk)
  next
    case (Buy_order s)
    show ?thesis
    proof (cases "buy_step_ready s step \<and> buy_is_triggered s mark")
      case True
      with Buy_order assms obtain r where r: "rbind (buy_ctx_for s ctx bt n) (\<lambda>c. buy_fire s c (bk_chain b)) = Inr r"
        by (auto split: sum.splits)
      note gated = buy_fire_ctx_gated [OF r]
      show ?thesis
      proof (cases "bf_fired r")
        case fired: True
        obtain g0 c0 where g0: "bk_chain b = Some g0" "ctx = Some c0"
          and ok: "gated_buy g0 (c0\<lparr>bc_block_time_ms := bt,
                   bc_current_aggregate_lamports := bc_current_aggregate_lamports c0 + n\<rparr>) r"
          using gated [OF fired] by blast
        have out: "b' = fst (book_cancel b (bo_order_id s))" "n' = n + bf_size_lamports r"
          "fires = [\<lparr>tf_order_id = bo_order_id s, tf_side = bo_side s, tf_sell_intent = None, tf_buy_result = Some r\<rparr>]"
          using fired True Buy_order assms r by (auto simp: Let_def split: sum.splits prod.splits)
        have "fire_ok (bk_chain b) ctx bt f" if "f \<in> set fires" for f
          using that ok g0 assms(2) by (auto simp: out(3) fire_ok_def)
        moreover have "fired_lamports fires = bf_size_lamports r"
          using fired by (simp add: out(3) fired_lamports_def)
        ultimately show ?thesis
          using gated_buy_bounds [OF ok] g0 by (auto simp: out(1,2) book_cancel_frame)
      next
        case False
        then show ?thesis
          using True Buy_order assms r
          by (auto simp: fire_ok_def fired_lamports_def Let_def)
      qed
    next
      case False
      then show ?thesis using Buy_order assms by (auto split: if_splits)
    qed
  qed
  then show "bk_chain b' = bk_chain b" "\<forall>f \<in> set fires. fire_ok (bk_chain b) ctx bt f"
    "n' = n + fired_lamports fires" "n \<le> n'"
    "bk_chain b = Some g \<Longrightarrow> ctx = Some c \<Longrightarrow>
      bc_current_aggregate_lamports c + n' \<le>
        max (bc_current_aggregate_lamports c + n) (max_aggregate_lamports (gc_sizer g))"
    by blast+
qed

lemma tick_orders_ok:
  assumes "tick_orders mark bt step ctx b n ods = (b', Inr fires)" and "0 \<le> n"
  shows "bk_chain b' = bk_chain b \<and> (\<forall>f \<in> set fires. fire_ok (bk_chain b) ctx bt f) \<and> 0 \<le> fired_lamports fires \<and>
    (bk_chain b = Some g \<longrightarrow> ctx = Some c \<longrightarrow>
      bc_current_aggregate_lamports c + n + fired_lamports fires \<le>
        max (bc_current_aggregate_lamports c + n) (max_aggregate_lamports (gc_sizer g)))"
  using assms
proof (induction ods arbitrary: b n fires)
  case Nil
  then show ?case by simp
next
  case (Cons od ods)
  obtain b1 n1 f1 f2 where step: "tick_order mark bt step ctx b n od = (b1, Inr (n1, f1))"
    and rest: "tick_orders mark bt step ctx b1 n1 ods = (b', Inr f2)" and f: "fires = f1 @ f2"
    using Cons.prems(1) by (auto split: prod.splits sum.splits)
  note s = tick_order_step(1-4) [OF step Cons.prems(2)] and agg = tick_order_step(5) [OF step Cons.prems(2), of g c]
  from s(4) Cons.prems(2) have "0 \<le> n1" by simp
  note ih = Cons.IH [OF rest this]
  have "\<forall>x \<in> set fires. fire_ok (bk_chain b) ctx bt x" using ih s(1,2) f by auto
  with ih s(1,3,4) agg f show ?case by auto
qed


definition demo_chain :: "unit gate_chain" where
  "demo_chain =
     \<lparr>gc_denylist = None, gc_safety = default_safety_thresholds, gc_safety_enabled = True,
      gc_breaker = fresh_breaker default_risk_config, gc_sizer = default_risk_config, gc_cost = None,
      gc_build_entry = (\<lambda>m sz bt cs _. Inr (Some
        \<lparr>en_client_intent_id = Cid ''buy'' m [], en_mint = m,
         en_event_time = \<lparr>slot = 1, block_time_ms = bt, wall_clock_ms = bt\<rparr>, en_sol_in_lamports = sz,
         en_slippage_bps = 100, en_tip_lamports = 0, en_cu_price_microlamports = 0, en_target_slot = 6,
         en_cost_stack = cs, en_venue = ''sim'', en_wallet_id = ''w''\<rparr>))\<rparr>"

definition demo_ctx :: "unit buy_fire_context" where
  "demo_ctx =
     \<lparr>bc_mint = ''m'', bc_block_time_ms = 0, bc_safety_inputs = Some clean_inputs, bc_p_calibrated = 4 / 5,
      bc_uncertainty = 1 / 10, bc_current_aggregate_lamports = 495000000, bc_cost_stack = Some example_stack,
      bc_creator = None, bc_entry_build_params = None\<rparr>"

definition demo_buy :: "string \<Rightarrow> resting_buy_order" where
  "demo_buy oid =
     \<lparr>bo_order_id = oid, bo_mint = ''m'', bo_trigger_price = 5, bo_trigger_direction = AT_OR_BELOW,
      bo_reason = ''r'', bo_side = BUY, scheduled_step = None\<rparr>"

lemma demo_buy_fires:
  "\<exists>r. evaluate_buy demo_chain (demo_ctx\<lparr>bc_block_time_ms := 7, bc_current_aggregate_lamports := 495000000\<rparr>) = Inr r \<and>
     bf_fired r \<and> bf_size_lamports r = 5000000"
proof -
  have size: "kelly_size default_risk_config (4 / 5) (1 / 10) 495000000 None 1 =
    Inr \<lparr>size_lamports = 5000000, sd_full_kelly_fraction = 3 / 5,
         applied_kelly_fraction = 27 / 200, pre_cap_lamports = 13500000,
         binding_constraint = Aggregate_cap\<rparr>"
    using kelly_size_example [of 495000000 None] by (simp add: apply_caps_def default_risk_config_def)
  have gate: "gd_passed (evaluate_fast default_safety_thresholds clean_inputs)"
    by (simp add: evaluate_fast_passed_iff safety_clean_def clean_inputs_def default_safety_thresholds_def truthy_def)
  have cost: "allows_entry None example_stack"
    by (simp add: allows_entry_iff example_stack_def cost_lines_def haircut_floor_bps_def DEFAULT_HAIRCUT_FLOOR_BPS_def)
  have br: "entries_allowed (fresh_breaker default_risk_config)"
    by (simp add: entries_allowed_def risk_posture_def fresh_breaker_def)
  show ?thesis
    by (simp add: evaluate_buy_def demo_ctx_def demo_chain_def Let_def require_enabled_for_entry_def gate br size cost
        mk_BuyFireResult_def)
qed

definition demo_book :: "unit order_book" where
  "demo_book =
     \<lparr>bk_store = [(''a'', Buy_order (demo_buy ''a''))], bk_chain = Some demo_chain, bk_keeper = None,
      bk_orders = [(''a'', Buy_order (demo_buy ''a''))], bk_keeper_handles = [], bk_keeper_log = []\<rparr>"

lemma demo_book_tick:
  "\<exists>b' fires. evaluate_tick demo_book ''m'' 3 7 None (Some demo_ctx) = (b', Inr fires) \<and>
     fired_lamports fires = 5000000 \<and> bk_orders b' = []"
proof -
  obtain r where r: "evaluate_buy demo_chain (demo_ctx\<lparr>bc_block_time_ms := 7, bc_current_aggregate_lamports := 495000000\<rparr>) = Inr r"
    "bf_fired r" "bf_size_lamports r = 5000000" using demo_buy_fires by blast
  have cand: "book_candidates demo_book ''m'' = [Buy_order (demo_buy ''a'')]"
    by (simp add: book_candidates_def demo_book_def demo_buy_def)
  have ctx: "buy_ctx_for (demo_buy ''a'') (Some demo_ctx) 7 0 =
      Inr (demo_ctx\<lparr>bc_block_time_ms := 7, bc_current_aggregate_lamports := 495000000\<rparr>)"
    by (simp add: buy_ctx_for_def demo_ctx_def demo_buy_def mk_BuyFireContext_def)
  have fire: "buy_fire (demo_buy ''a'') (demo_ctx\<lparr>bc_block_time_ms := 7, bc_current_aggregate_lamports := 495000000\<rparr>)
      (Some demo_chain) = Inr r"
    using r(1) by (simp add: buy_fire_def) (simp add: demo_ctx_def demo_buy_def)
  have trig: "buy_is_triggered (demo_buy ''a'') 3" "buy_step_ready (demo_buy ''a'') None"
    by (simp_all add: buy_is_triggered_def trigger_met_def demo_buy_def buy_step_ready_def)
  have chain: "bk_chain demo_book = Some demo_chain" by (simp add: demo_book_def)
  have "book_cancel demo_book ''a'' = (demo_book\<lparr>bk_orders := [], bk_store := []\<rparr>, Inr ())"
    by (simp add: book_cancel_def demo_book_def Let_def dict_pop_def store_remove_def)
  then show ?thesis
    using r by (simp add: evaluate_tick_def cand ctx fire trig chain fired_lamports_def Let_def) (simp add: demo_buy_def)
qed


subsection \<open>The book and its durable store\<close>

definition dict_ok :: "order_dict \<Rightarrow> bool" where
  "dict_ok d \<longleftrightarrow> distinct (dict_keys d) \<and> (\<forall>(k, od) \<in> set d. ro_order_id od = k)"

definition book_ok :: "'p order_book \<Rightarrow> bool" where
  "book_ok b \<longleftrightarrow> dict_ok (bk_orders b) \<and> dict_ok (bk_store b) \<and> map_of (bk_orders b) = map_of (bk_store b)"

lemma set_dict_set: "set (dict_set k v d) \<subseteq> insert (k, v) (set d)"
  by (induction k v d rule: dict_set.induct) auto

lemma dict_ok_set: "dict_ok d \<Longrightarrow> dict_ok (dict_set (ro_order_id od) od d)"
  using set_dict_set [of "ro_order_id od" od d] by (auto simp: dict_ok_def)

lemma dict_ok_pop: "dict_ok d \<Longrightarrow> dict_ok (dict_pop k d)"
  by (auto simp: dict_ok_def) (auto simp: dict_pop_def)

lemma book_place_frame:
  "bk_orders (fst (book_place b od)) = dict_set (ro_order_id od) od (bk_orders b)"
  "bk_store (fst (book_place b od)) = dict_set (ro_order_id od) od (bk_store b)"
  "bk_chain (fst (book_place b od)) = bk_chain b" "bk_keeper (fst (book_place b od)) = bk_keeper b"
  by (simp_all add: book_place_def Let_def store_upsert_def split: resting_order.split option.split sum.split)

lemma book_place_ok: "book_ok b \<Longrightarrow> book_ok (fst (book_place b od))"
  by (simp add: book_ok_def book_place_frame dict_ok_set)

lemma book_cancel_ok: "book_ok b \<Longrightarrow> book_ok (fst (book_cancel b oid))"
  by (simp add: book_ok_def book_cancel_frame dict_ok_pop)

lemma place_all_ok: "book_ok b \<Longrightarrow> book_ok (fst (place_all b ods))"
proof (induction ods arbitrary: b)
  case (Cons od ods)
  obtain b1 r where one: "book_place b (Buy_order od) = (b1, r)" by (cases "book_place b (Buy_order od)")
  have "book_ok b1" using book_place_ok [OF Cons.prems, of "Buy_order od"] by (simp add: one)
  with Cons.IH one show ?case by (cases r) simp_all
qed simp

lemma place_dca_ok: "book_ok b \<Longrightarrow> book_ok (fst (place_dca b p))"
proof (cases "results (map (buy_order_for_tranche p) [0..tranches p - 1])")
  case (Inr ods)
  assume "book_ok b"
  moreover obtain b1 r where "place_all b ods = (b1, r)" by (cases "place_all b ods")
  ultimately show ?thesis using place_all_ok [of b ods] Inr by (simp add: place_dca_def split: sum.split)
qed (simp add: place_dca_def)

lemma tick_order_ok: "book_ok b \<Longrightarrow> book_ok (fst (tick_order mark bt step ctx b n od))"
proof (cases od)
  case (Sell_order s)
  assume "book_ok b"
  moreover obtain b1 r where "book_cancel b (so_order_id s) = (b1, r)" by (cases "book_cancel b (so_order_id s)")
  ultimately show ?thesis
    using book_cancel_ok [of b "so_order_id s"] by (simp add: Sell_order split: sum.split)
next
  case (Buy_order s)
  assume "book_ok b"
  moreover obtain b1 r where "book_cancel b (bo_order_id s) = (b1, r)" by (cases "book_cancel b (bo_order_id s)")
  ultimately show ?thesis
    using book_cancel_ok [of b "bo_order_id s"] by (simp add: Buy_order Let_def split: sum.split)
qed

lemma tick_orders_book_ok: "book_ok b \<Longrightarrow> book_ok (fst (tick_orders mark bt step ctx b n ods))"
proof (induction ods arbitrary: b n)
  case (Cons od ods)
  obtain b1 r where one: "tick_order mark bt step ctx b n od = (b1, r)"
    by (cases "tick_order mark bt step ctx b n od")
  have b1: "book_ok b1" using tick_order_ok [OF Cons.prems, of mark bt step ctx n od] by (simp add: one)
  show ?case
  proof (cases r)
    case (Inl e)
    with b1 one show ?thesis by simp
  next
    case (Inr v)
    obtain n' f where v: "v = (n', f)" by (cases v)
    obtain b2 r2 where two: "tick_orders mark bt step ctx b1 n' ods = (b2, r2)"
      by (cases "tick_orders mark bt step ctx b1 n' ods")
    from Cons.IH [OF b1, of n'] Inr one v two show ?thesis by (simp split: sum.split)
  qed
qed simp

text \<open>The operations the rest of the system calls on a book, and a run of them.\<close>

datatype 'p book_op =
    Place resting_order
  | Place_dca dca_plan
  | Cancel string
  | Tick mint decimal millis "int option" "'p buy_fire_context option"

fun book_step :: "'p order_book \<Rightarrow> 'p book_op \<Rightarrow> 'p order_book" where
  "book_step b (Place od) = fst (book_place b od)"
| "book_step b (Place_dca p) = fst (place_dca b p)"
| "book_step b (Cancel oid) = fst (book_cancel b oid)"
| "book_step b (Tick m mark bt step ctx) = fst (evaluate_tick b m mark bt step ctx)"

lemma book_step_ok: "book_ok b \<Longrightarrow> book_ok (book_step b op)"
  by (cases op)
    (simp_all add: book_place_ok place_dca_ok book_cancel_ok evaluate_tick_def tick_orders_book_ok)

lemma book_run_ok: "book_ok b \<Longrightarrow> book_ok (foldl book_step b ops)"
  by (induction ops arbitrary: b) (simp_all add: book_step_ok)

lemma dict_set_append: "k \<notin> set (dict_keys d) \<Longrightarrow> dict_set k v d = d @ [(k, v)]"
  by (induction d) auto

lemma rebuild_orders:
  "dict_ok (d @ e) \<Longrightarrow> foldl (\<lambda>d od. dict_set (ro_order_id od) od d) d (dict_values e) = d @ e"
proof (induction e arbitrary: d)
  case (Cons x e)
  obtain k od where x: "x = (k, od)" by (cases x)
  have k: "ro_order_id od = k" "k \<notin> set (dict_keys d)" using Cons.prems by (auto simp: x dict_ok_def)
  have "dict_ok ((d @ [x]) @ e)" using Cons.prems by simp
  from Cons.IH [OF this] k show ?case by (simp add: x dict_set_append)
qed simp

lemma mk_book_orders: "dict_ok store \<Longrightarrow> bk_orders (mk_RestingOrderBook store chain k) = store"
  using rebuild_orders [of "[]" store] by (simp add: mk_RestingOrderBook_def store_load_all_def)

text \<open>
  C35. Standing orders survive a restart. After any sequence of placements, plans, cancellations and
  ticks on a book that started from a well-formed store, whether or not single calls raised, a
  new book built from the durable store holds exactly the orders the old one held, under the
  same identifiers; an order that fired or was cancelled is in neither.
\<close>

theorem resting_orders_survive_restart:
  assumes "dict_ok store" and "b = foldl book_step (mk_RestingOrderBook store chain k) ops"
  shows "map_of (bk_orders (mk_RestingOrderBook (bk_store b) chain' k')) = map_of (bk_orders b) \<and>
    book_ok (mk_RestingOrderBook (bk_store b) chain' k') \<and>
    map_of (bk_orders (fst (book_cancel b oid))) oid = None \<and>
    map_of (bk_store (fst (book_cancel b oid))) oid = None"
proof -
  have "book_ok (mk_RestingOrderBook store chain k)"
    using assms(1) by (simp add: book_ok_def mk_book_orders) (simp add: mk_RestingOrderBook_def)
  then have ok: "book_ok b" unfolding assms(2) by (rule book_run_ok)
  then have new: "bk_orders (mk_RestingOrderBook (bk_store b) chain' k') = bk_store b"
    by (simp add: book_ok_def mk_book_orders)
  moreover have "bk_store (mk_RestingOrderBook (bk_store b) chain' k') = bk_store b"
    by (simp add: mk_RestingOrderBook_def)
  ultimately show ?thesis using ok by (simp add: book_ok_def book_cancel_frame)
qed

theorem resting_orders_survive_restart_witness:
  "map_of (bk_orders (mk_RestingOrderBook
     (bk_store (foldl book_step (mk_RestingOrderBook [] (Some demo_chain) None)
        [Place (Buy_order (demo_buy ''a'')), Place (Buy_order (demo_buy ''b'')), Cancel ''a''])) (None :: unit gate_chain option) None)) ''b'' =
     Some (Buy_order (demo_buy ''b''))"
proof -
  let ?b = "foldl book_step (mk_RestingOrderBook [] (Some demo_chain) None)
        [Place (Buy_order (demo_buy ''a'')), Place (Buy_order (demo_buy ''b'')), Cancel ''a'']"
  have "dict_ok []" by (simp add: dict_ok_def)
  from resting_orders_survive_restart [OF this refl, of "Some demo_chain" None
      "[Place (Buy_order (demo_buy ''a'')), Place (Buy_order (demo_buy ''b'')), Cancel ''a'']" "None :: unit gate_chain option" None]
  have "map_of (bk_orders (mk_RestingOrderBook (bk_store ?b) (None :: unit gate_chain option) None)) = map_of (bk_orders ?b)" by blast
  moreover have "map_of (bk_orders ?b) ''b'' = Some (Buy_order (demo_buy ''b''))"
    by (simp add: book_place_frame book_cancel_frame) (simp add: demo_buy_def)
  ultimately show ?thesis by simp
qed

text \<open>
  A restart forgets the off-box handles. On a book rebuilt from the store, a resting sell that
  fires or is cancelled makes no call to the keeper, whatever keeper is wired, so the copy of the
  order the previous process placed off-box stays live after the bot has already sold.
\<close>

theorem restart_orphans_keeper_orders:
  "bk_keeper_log (fst (book_cancel (mk_RestingOrderBook store chain k) oid)) = [] \<and>
   snd (book_cancel (mk_RestingOrderBook store chain k) oid) = Inr ()"
  by (simp add: book_cancel_def mk_RestingOrderBook_def Let_def split: option.split resting_order.split)

subsection \<open>Plans\<close>

lemma results_map:
  "(\<forall>x \<in> set xs. \<exists>y. f x = Inr y) \<Longrightarrow> \<exists>ys. results (map f xs) = Inr ys \<and> length ys = length xs \<and>
     (\<forall>i < length xs. f (xs ! i) = Inr (ys ! i))"
proof (induction xs)
  case (Cons x xs)
  then obtain y ys where y: "f x = Inr y" "results (map f xs) = Inr ys" "length ys = length xs"
    "\<forall>i < length xs. f (xs ! i) = Inr (ys ! i)" by auto
  have "f ((x # xs) ! i) = Inr ((y # ys) ! i)" if "i < length (x # xs)" for i
    using that y by (cases i) auto
  with y show ?case by auto
qed simp

lemma tranche_order:
  assumes "mk_DcaPlan p = Inr p" and "0 \<le> i" and "i < tranches p"
  shows "\<exists>od. buy_order_for_tranche p i = Inr od \<and> bo_order_id od = plan_id p @ '':tranche:'' @ str_int i \<and>
    bo_mint od = dp_mint p \<and> scheduled_step od = Some (first_step p + i * step_interval p) \<and>
    bo_trigger_price od = (case dp_trigger_price p of Some q \<Rightarrow> q | None \<Rightarrow> 1) \<and>
    (dp_trigger_price p = None \<longrightarrow> bo_trigger_direction od = AT_OR_ABOVE)"
proof -
  have v: "0 < step_interval p" "0 \<le> first_step p" "\<And>q. dp_trigger_price p = Some q \<Longrightarrow> 0 < q"
    using assms(1) by (auto simp: mk_DcaPlan_def not_le split: if_splits option.splits)
  then have "\<not> first_step p + i * step_interval p < 0" using assms(2) by (simp add: not_less)
  with v(3) assms(2,3) show ?thesis
    by (cases "dp_trigger_price p") (auto simp: buy_order_for_tranche_def mk_RestingBuyOrder_def not_le)
qed

lemma place_all_book:
  "\<exists>b'. place_all b ods = (b', Inr ()) \<and>
     bk_orders b' = foldl (\<lambda>d od. dict_set (ro_order_id od) od d) (bk_orders b) (map Buy_order ods)"
proof (induction ods arbitrary: b)
  case (Cons od ods)
  obtain b1 where b1: "book_place b (Buy_order od) = (b1, Inr (Buy_order od))"
    by (simp add: book_place_def Let_def)
  then have "bk_orders b1 = dict_set (bo_order_id od) (Buy_order od) (bk_orders b)"
    using book_place_frame(1) [of b "Buy_order od"] by simp
  with Cons.IH [of b1] b1 show ?case by auto
qed simp

lemma foldl_set_last:
  "distinct (map ro_order_id ods) \<Longrightarrow> od \<in> set ods \<Longrightarrow>
     map_of (foldl (\<lambda>d od. dict_set (ro_order_id od) od d) d ods) (ro_order_id od) = Some od"
proof (induction ods rule: rev_induct)
  case (snoc x ods)
  then show ?case by (cases "od = x") (auto simp: rev_image_eqI)
qed simp

text \<open>
  Placing a plan parks every tranche: the call never raises for a valid plan, it returns one
  order per tranche, due at exactly the plan's event-time steps in order, the identifiers are
  pairwise different (the decimal printing of the index is injective), and afterwards the book
  holds each of them under its own identifier.
\<close>

theorem dca_plan_places_all_tranches:
  assumes "mk_DcaPlan p = Inr p"
  shows "\<exists>b' ods. place_dca b p = (b', Inr ods) \<and> int (length ods) = tranches p \<and>
    map (the \<circ> scheduled_step) ods = tranche_steps p \<and> distinct (map bo_order_id ods) \<and>
    (\<forall>od \<in> set ods. map_of (bk_orders b') (bo_order_id od) = Some (Buy_order od))"
proof -
  have pos: "0 < tranches p" using assms by (auto simp: mk_DcaPlan_def split: if_splits)
  let ?is = "[0..tranches p - 1]"
  have idx: "?is ! j = int j" if "j < length ?is" for j using that by simp
  have "\<forall>i \<in> set ?is. \<exists>od. buy_order_for_tranche p i = Inr od" using tranche_order [OF assms] by fastforce
  from results_map [OF this] obtain ods where ods: "results (map (buy_order_for_tranche p) ?is) = Inr ods"
    "length ods = length ?is" "\<forall>j < length ?is. buy_order_for_tranche p (?is ! j) = Inr (ods ! j)" by blast
  have len: "int (length ods) = tranches p" using ods(2) pos by simp
  have nth: "bo_order_id (ods ! j) = plan_id p @ '':tranche:'' @ str_int (int j)"
    "scheduled_step (ods ! j) = Some (first_step p + int j * step_interval p)" if "j < length ods" for j
    using tranche_order [OF assms, of "int j"] ods(3) that len ods(2) by (auto simp: idx)
  have dist: "distinct (map bo_order_id ods)"
    by (auto simp: distinct_conv_nth nth str_int_inj)
  have steps: "map (the \<circ> scheduled_step) ods = tranche_steps p"
    by (rule nth_equalityI) (use ods(2) nth in \<open>auto simp: tranche_steps_def\<close>)
  obtain b' where b': "place_all b ods = (b', Inr ())"
    "bk_orders b' = foldl (\<lambda>d od. dict_set (ro_order_id od) od d) (bk_orders b) (map Buy_order ods)"
    using place_all_book by blast
  have "map_of (bk_orders b') (bo_order_id od) = Some (Buy_order od)" if "od \<in> set ods" for od
    using foldl_set_last [of "map Buy_order ods" "Buy_order od" "bk_orders b"] that dist by (simp add: b'(2) comp_def)
  with ods(1) b'(1) len steps dist show ?thesis by (simp add: place_dca_def)
qed

definition demo_plan :: dca_plan where
  "demo_plan =
     \<lparr>plan_id = ''p'', dp_mint = ''m'', tranches = 12, step_interval = 10, first_step = 5,
      dp_trigger_price = None, dp_trigger_direction = AT_OR_BELOW, dp_reason = ''dca''\<rparr>"

lemma demo_plan_ok: "mk_DcaPlan demo_plan = Inr demo_plan"
  by (simp add: mk_DcaPlan_def demo_plan_def)

theorem dca_plan_places_all_tranches_witness:
  "\<exists>b' ods. place_dca demo_book demo_plan = (b', Inr ods) \<and> length ods = 12"
  using dca_plan_places_all_tranches [OF demo_plan_ok, of demo_book] by (auto simp: demo_plan_def)

text \<open>
  A schedule-only tranche does not fire on its schedule alone: the price condition that is meant
  to hold always is \<open>mark >= 1\<close>, so while the mark is below one lamport per base unit the tranche is
  passed over at every event step, without any record of an evaluation.
\<close>

theorem schedule_only_tranche_waits_for_unit_mark:
  assumes "mk_DcaPlan p = Inr p" and "dp_trigger_price p = None" and "buy_order_for_tranche p i = Inr od"
    and "mark < 1"
  shows "tick_order mark bt step ctx b n (Buy_order od) = (b, Inr (n, []))"
proof -
  have "0 \<le> i" "i < tranches p" using assms(3) by (auto simp: buy_order_for_tranche_def split: if_splits)
  from tranche_order [OF assms(1) this] assms(2,3)
  have "bo_trigger_price od = 1" "bo_trigger_direction od = AT_OR_ABOVE" by auto
  with assms(4) show ?thesis by (simp add: buy_is_triggered_def trigger_met_def)
qed

theorem schedule_only_tranche_waits_for_unit_mark_witness:
  "\<exists>od. buy_order_for_tranche demo_plan 0 = Inr od \<and>
     tick_order (1 / 2) 7 (Some 1000) (Some demo_ctx) demo_book 0 (Buy_order od) = (demo_book, Inr (0, []))"
proof -
  obtain od where "buy_order_for_tranche demo_plan 0 = Inr od"
    using tranche_order [OF demo_plan_ok, of 0] by (auto simp: demo_plan_def)
  moreover have "dp_trigger_price demo_plan = None" by (simp add: demo_plan_def)
  ultimately show ?thesis
    using schedule_only_tranche_waits_for_unit_mark [OF demo_plan_ok, of 0 od "1 / 2" 7 "Some 1000" "Some demo_ctx" demo_book 0]
    by simp
qed
end
