(* ===== verification/Stop_Layers.thy ===== *)
theory Stop_Layers
  imports Stop_Rules Deadman Resting_Orders
begin

text \<open>
  The outer layers of the survivable stop: the resting stop order at the venue and its simulated
  venue (\<open>aats/risk/venue_native_stop.py\<close>), the coordinator that arms both layers at entry and
  tightens them together (\<open>aats/risk/survivable_stop_coordinator.py\<close>), the pre-signed flatten
  transactions (\<open>aats/risk/presigned_flatten.py\<close>) and the watchdog service that fires them when the
  heartbeat of the other process stops (\<open>aats/risk/dms_service.py\<close>).

  The venue behind the placer is an interface (locale \<open>stop_venue\<close>), interpreted on the simulated
  venue. Locks make each method atomic. Telemetry is left out; a flatten's reason keeps its mint.
\<close>

subsection \<open>Resting stop orders\<close>

record resting_stop =
  rs_mint :: mint
  rs_trigger_price :: decimal
  rs_fraction_bps :: bps
  rs_order_id :: "string option"

definition mk_RestingStopOrder :: "resting_stop \<Rightarrow> resting_stop result" where
  "mk_RestingStopOrder r =
     (if \<not> (1 \<le> rs_fraction_bps r \<and> rs_fraction_bps r \<le> 10000) then Inl ValueError
      else if rs_trigger_price r \<le> 0 then Inl ValueError
      else Inr r)"

definition resting_order_from_stop :: "stop_state \<Rightarrow> bps \<Rightarrow> resting_stop result" where
  "resting_order_from_stop stop fraction_bps =
     mk_RestingStopOrder
       \<lparr>rs_mint = st_mint stop, rs_trigger_price = trigger_price stop, rs_fraction_bps = fraction_bps,
        rs_order_id = None\<rparr>"

text \<open>The venue's calls, on a venue state \<open>'v\<close>; each may raise.\<close>

record 'v stop_venue_ops =
  sv_place :: "'v \<Rightarrow> resting_stop \<Rightarrow> 'v \<times> resting_stop result"
  sv_cancel :: "'v \<Rightarrow> mint \<Rightarrow> string \<Rightarrow> 'v \<times> unit result"
  sv_replace :: "'v \<Rightarrow> mint \<Rightarrow> string \<Rightarrow> decimal \<Rightarrow> 'v \<times> resting_stop result"

record 'v placer =
  pl_venue :: 'v
  pl_placed :: "(mint \<times> resting_stop) list"

definition place_for ::
  "'v stop_venue_ops \<Rightarrow> 'v placer \<Rightarrow> stop_state \<Rightarrow> bps \<Rightarrow> 'v placer \<times> resting_stop result" where
  "place_for ops p stop fraction_bps =
     (case resting_order_from_stop stop fraction_bps of
        Inl e \<Rightarrow> (p, Inl e)
      | Inr req \<Rightarrow>
          (case sv_place ops (pl_venue p) req of
             (v, Inl e) \<Rightarrow> (p\<lparr>pl_venue := v\<rparr>, Inl e)
           | (v, Inr placed) \<Rightarrow>
               (p\<lparr>pl_venue := v, pl_placed := dict_set (st_mint stop) placed (pl_placed p)\<rparr>, Inr placed)))"

definition placer_tighten ::
  "'v stop_venue_ops \<Rightarrow> 'v placer \<Rightarrow> mint \<Rightarrow> decimal \<Rightarrow> 'v placer \<times> resting_stop result" where
  "placer_tighten ops p m proposed =
     (case map_of (pl_placed p) m of
        None \<Rightarrow> (p, Inl KeyError)
      | Some existing \<Rightarrow>
          (case rs_order_id existing of
             None \<Rightarrow> (p, Inl KeyError)
           | Some oid \<Rightarrow>
               if proposed < rs_trigger_price existing then (p, Inl ValueError)
               else
                 (case sv_replace ops (pl_venue p) m oid proposed of
                    (v, Inl e) \<Rightarrow> (p\<lparr>pl_venue := v\<rparr>, Inl e)
                  | (v, Inr replaced) \<Rightarrow>
                      (p\<lparr>pl_venue := v, pl_placed := dict_set m replaced (pl_placed p)\<rparr>, Inr replaced))))"

definition placer_cancel :: "'v stop_venue_ops \<Rightarrow> 'v placer \<Rightarrow> mint \<Rightarrow> 'v placer \<times> unit result" where
  "placer_cancel ops p m =
     (let p' = p\<lparr>pl_placed := dict_pop m (pl_placed p)\<rparr> in
      case map_of (pl_placed p) m of
        None \<Rightarrow> (p', Inr ())
      | Some existing \<Rightarrow>
          (case rs_order_id existing of
             None \<Rightarrow> (p', Inr ())
           | Some oid \<Rightarrow> (case sv_cancel ops (pl_venue p) m oid of (v, r) \<Rightarrow> (p'\<lparr>pl_venue := v\<rparr>, r))))"

subsection \<open>The simulated venue\<close>

record sim_venue =
  sim_orders :: "(mint \<times> resting_stop) list"
  sim_fired_exits :: "fill_result list"
  sim_seq :: int

definition new_sim_venue :: sim_venue where
  "new_sim_venue = \<lparr>sim_orders = [], sim_fired_exits = [], sim_seq = 0\<rparr>"

definition sim_order_id :: "int \<Rightarrow> string" where
  "sim_order_id n = ''sim-resting-'' @ str_int n"

definition sim_place :: "sim_venue \<Rightarrow> resting_stop \<Rightarrow> sim_venue \<times> resting_stop result" where
  "sim_place v order =
     (let n = sim_seq v + 1; v' = v\<lparr>sim_seq := n\<rparr> in
      case mk_RestingStopOrder (order\<lparr>rs_order_id := Some (sim_order_id n)\<rparr>) of
        Inl e \<Rightarrow> (v', Inl e)
      | Inr placed \<Rightarrow> (v'\<lparr>sim_orders := dict_set (rs_mint order) placed (sim_orders v)\<rparr>, Inr placed))"

definition sim_cancel :: "sim_venue \<Rightarrow> mint \<Rightarrow> string \<Rightarrow> sim_venue \<times> unit result" where
  "sim_cancel v m oid =
     (case map_of (sim_orders v) m of
        Some order \<Rightarrow>
          if rs_order_id order = Some oid then (v\<lparr>sim_orders := dict_pop m (sim_orders v)\<rparr>, Inr ())
          else (v, Inr ())
      | None \<Rightarrow> (v, Inr ()))"

definition sim_replace :: "sim_venue \<Rightarrow> mint \<Rightarrow> string \<Rightarrow> decimal \<Rightarrow> sim_venue \<times> resting_stop result" where
  "sim_replace v m oid new_trigger =
     (case map_of (sim_orders v) m of
        None \<Rightarrow> (v, Inl KeyError)
      | Some order \<Rightarrow>
          if rs_order_id order \<noteq> Some oid then (v, Inl KeyError)
          else if new_trigger < rs_trigger_price order then (v, Inl ValueError)
          else
            let n = sim_seq v + 1; v' = v\<lparr>sim_seq := n\<rparr> in
            case mk_RestingStopOrder
                \<lparr>rs_mint = m, rs_trigger_price = new_trigger, rs_fraction_bps = rs_fraction_bps order,
                 rs_order_id = Some (sim_order_id n)\<rparr> of
              Inl e \<Rightarrow> (v', Inl e)
            | Inr replaced \<Rightarrow> (v'\<lparr>sim_orders := dict_set m replaced (sim_orders v)\<rparr>, Inr replaced))"

definition sim_ops :: "sim_venue stop_venue_ops" where
  "sim_ops = \<lparr>sv_place = sim_place, sv_cancel = sim_cancel, sv_replace = sim_replace\<rparr>"

text \<open>
  \<open>keeper_tick\<close>: a record marks itself fired and leaves the book in the same call, so the \<open>fired\<close>
  field of a resting record is never true.
\<close>

definition keeper_tick :: "sim_venue \<Rightarrow> mint \<Rightarrow> decimal \<Rightarrow> sim_venue \<times> fill_result option" where
  "keeper_tick v m mark =
     (case map_of (sim_orders v) m of
        None \<Rightarrow> (v, None)
      | Some order \<Rightarrow>
          if mark \<le> rs_trigger_price order then
            let fill = \<lparr>landed = True, fl_reason = ''venue_native_resting_stop_filled'', tokens_out = 0,
                        effective_price = rs_trigger_price order, fl_entry_slippage_bps = 0\<rparr>
            in (v\<lparr>sim_fired_exits := sim_fired_exits v @ [fill], sim_orders := dict_pop m (sim_orders v)\<rparr>, Some fill)
          else (v, None))"

subsection \<open>The coordinator\<close>

record 'v coordinator =
  co_enforcer :: enforcer
  co_placer :: "'v placer"
  co_dms :: dms

definition arm_at_entry ::
  "'v stop_venue_ops \<Rightarrow> 'v coordinator \<Rightarrow> mint \<Rightarrow> decimal \<Rightarrow> position \<Rightarrow> bps option \<Rightarrow> bps \<Rightarrow>
   'v coordinator \<times> (stop_state \<times> resting_stop) result" where
  "arm_at_entry ops c m entry pos thresholds fraction_bps =
     (case stop_at_entry m entry thresholds of
        Inl e \<Rightarrow> (c, Inl e)
      | Inr stop \<Rightarrow>
          (let c1 = c\<lparr>co_enforcer := enf_register (co_enforcer c) stop pos\<rparr> in
           case place_for ops (co_placer c1) stop fraction_bps of
             (p, Inl e) \<Rightarrow> (c1\<lparr>co_placer := p\<rparr>, Inl e)
           | (p, Inr resting) \<Rightarrow> (c1\<lparr>co_placer := p\<rparr>, Inr (stop, resting))))"

text \<open>\<open>on_tick\<close>: heartbeat at the clock reading \<open>now\<close>, then the enforcer.\<close>

definition coordinator_on_tick ::
  "(intent \<Rightarrow> position \<Rightarrow> fill_result) \<Rightarrow> 'v coordinator \<Rightarrow> rat \<Rightarrow> mark_tick \<Rightarrow>
   'v coordinator \<times> ((intent \<times> position) option \<times> fill_result option) result" where
  "coordinator_on_tick venue_exit c now t =
     (let c1 = c\<lparr>co_dms := dms_heartbeat (co_dms c) now\<rparr> in
      case enf_on_tick venue_exit (co_enforcer c1) t of
        Inl e \<Rightarrow> (c1, Inl e)
      | Inr (enf, sent, fill) \<Rightarrow> (c1\<lparr>co_enforcer := enf\<rparr>, Inr (sent, fill)))"

definition coordinator_tighten ::
  "'v stop_venue_ops \<Rightarrow> 'v coordinator \<Rightarrow> mint \<Rightarrow> decimal \<Rightarrow> 'v coordinator \<times> stop_state result" where
  "coordinator_tighten ops c m new_trigger =
     (case enf_tighten (co_enforcer c) m new_trigger of
        Inl e \<Rightarrow> (c, Inl e)
      | Inr (enf, tightened) \<Rightarrow>
          (case placer_tighten ops (co_placer c) m (trigger_price tightened) of
             (p, Inl e) \<Rightarrow>
               (c\<lparr>co_enforcer := enf, co_placer := p\<rparr>, if e = KeyError then Inr tightened else Inl e)
           | (p, Inr _) \<Rightarrow> (c\<lparr>co_enforcer := enf, co_placer := p\<rparr>, Inr tightened)))"

definition coordinator_on_exit ::
  "'v stop_venue_ops \<Rightarrow> 'v coordinator \<Rightarrow> mint \<Rightarrow> 'v coordinator \<times> unit result" where
  "coordinator_on_exit ops c m =
     (let c1 = c\<lparr>co_enforcer := enf_deregister (co_enforcer c) m\<rparr> in
      case placer_cancel ops (co_placer c1) m of
        (p, Inl e) \<Rightarrow> (c1\<lparr>co_placer := p\<rparr>, if e = KeyError then Inr () else Inl e)
      | (p, Inr _) \<Rightarrow> (c1\<lparr>co_placer := p\<rparr>, Inr ()))"

subsection \<open>The contract of a venue that rests stops\<close>

definition rests_ok :: "mint \<Rightarrow> resting_stop \<Rightarrow> bool" where
  "rests_ok m r \<longleftrightarrow> rs_mint r = m \<and> 1 \<le> rs_fraction_bps r \<and> rs_fraction_bps r \<le> 10000 \<and> 0 < rs_trigger_price r"

locale stop_venue =
  fixes ops :: "'v stop_venue_ops" and resting :: "'v \<Rightarrow> mint \<rightharpoonup> resting_stop"
  assumes place_rests: "rests_ok m r \<Longrightarrow>
      \<exists>v' oid. sv_place ops v r = (v', Inr (r\<lparr>rs_order_id := Some oid\<rparr>))
        \<and> resting v' = (resting v)(m \<mapsto> r\<lparr>rs_order_id := Some oid\<rparr>)"
    and replace_rests: "resting v m = Some r \<Longrightarrow> rs_order_id r = Some oid \<Longrightarrow> rests_ok m r \<Longrightarrow>
      rs_trigger_price r \<le> t \<Longrightarrow>
      \<exists>v' oid'. sv_replace ops v m oid t = (v', Inr (r\<lparr>rs_trigger_price := t, rs_order_id := Some oid'\<rparr>))
        \<and> resting v' = (resting v)(m \<mapsto> r\<lparr>rs_trigger_price := t, rs_order_id := Some oid'\<rparr>)"
    and cancel_rests: "resting v m = Some r \<Longrightarrow> rs_order_id r = Some oid \<Longrightarrow>
      \<exists>v'. sv_cancel ops v m oid = (v', Inr ()) \<and> resting v' = (resting v)(m := None)"
begin

text \<open>The placer's view is the venue's, and every stop of Layer 2 rests at the venue at the same trigger.\<close>

definition placed_sync :: "'v placer \<Rightarrow> bool" where
  "placed_sync p \<longleftrightarrow> map_of (pl_placed p) = resting (pl_venue p)
     \<and> (\<forall>m r. resting (pl_venue p) m = Some r \<longrightarrow> rests_ok m r \<and> rs_order_id r \<noteq> None)"

definition guarded :: "'v placer \<Rightarrow> mint \<Rightarrow> stop_state \<Rightarrow> bool" where
  "guarded p m st \<longleftrightarrow> st_mint st = m \<and> stop_ok st
     \<and> (\<exists>r. resting (pl_venue p) m = Some r \<and> rs_trigger_price r = trigger_price st)"

definition layers_sync :: "'v coordinator \<Rightarrow> bool" where
  "layers_sync c \<longleftrightarrow> placed_sync (co_placer c)
     \<and> (\<forall>m x. map_of (co_enforcer c) m = Some x \<longrightarrow> guarded (co_placer c) m (fst x))"

lemma layers_syncI:
  "placed_sync (co_placer c) \<Longrightarrow> (\<And>m a b. map_of (co_enforcer c) m = Some (a, b) \<Longrightarrow> guarded (co_placer c) m a) \<Longrightarrow>
   layers_sync c"
  by (auto simp: layers_sync_def)

lemma layers_syncD:
  assumes "layers_sync c"
  shows "placed_sync (co_placer c)" and "map_of (co_enforcer c) m = Some (a, b) \<Longrightarrow> guarded (co_placer c) m a"
  using assms by (auto simp: layers_sync_def)

lemma others_guarded:
  "layers_sync c \<Longrightarrow> map_of (co_enforcer c) m = Some (a, b) \<Longrightarrow>
   resting (pl_venue p') m = resting (pl_venue (co_placer c)) m \<Longrightarrow> guarded p' m a"
  using layers_syncD(2) [of c m a b] by (simp add: guarded_def)

lemma place_for_sync:
  assumes "placed_sync p" and "stop_ok st" and "1 \<le> f" and "f \<le> 10000"
  shows "\<exists>p' r. place_for ops p st f = (p', Inr r) \<and> placed_sync p' \<and> rs_trigger_price r = trigger_price st
    \<and> rs_fraction_bps r = f \<and> resting (pl_venue p') = (resting (pl_venue p))(st_mint st \<mapsto> r)"
proof -
  let ?r = "\<lparr>rs_mint = st_mint st, rs_trigger_price = trigger_price st, rs_fraction_bps = f, rs_order_id = None\<rparr>"
  have ok: "rests_ok (st_mint st) ?r" using assms by (simp add: rests_ok_def stop_ok_def)
  have req: "resting_order_from_stop st f = Inr ?r"
    using assms by (simp add: resting_order_from_stop_def mk_RestingStopOrder_def stop_ok_def)
  obtain v' oid where v: "sv_place ops (pl_venue p) ?r = (v', Inr (?r\<lparr>rs_order_id := Some oid\<rparr>))"
    "resting v' = (resting (pl_venue p))(st_mint st \<mapsto> ?r\<lparr>rs_order_id := Some oid\<rparr>)"
    using place_rests [OF ok] by blast
  then show ?thesis
    using assms(1) ok req by (auto simp: place_for_def placed_sync_def rests_ok_def)
qed

lemma tighten_sync:
  assumes "placed_sync p" and "resting (pl_venue p) m = Some r" and "rs_trigger_price r \<le> t"
  shows "\<exists>p' r'. placer_tighten ops p m t = (p', Inr r') \<and> placed_sync p' \<and> rs_trigger_price r' = t
    \<and> resting (pl_venue p') = (resting (pl_venue p))(m \<mapsto> r')"
proof -
  obtain oid where oid: "rs_order_id r = Some oid" and ok: "rests_ok m r"
    using assms(1,2) by (auto simp: placed_sync_def)
  obtain v' oid' where "sv_replace ops (pl_venue p) m oid t = (v', Inr (r\<lparr>rs_trigger_price := t, rs_order_id := Some oid'\<rparr>))"
    "resting v' = (resting (pl_venue p))(m \<mapsto> r\<lparr>rs_trigger_price := t, rs_order_id := Some oid'\<rparr>)"
    using replace_rests [OF assms(2) oid ok assms(3)] by blast
  moreover have "0 < t" using ok assms(3) by (auto simp: rests_ok_def)
  ultimately show ?thesis
    using assms oid ok by (auto simp: placer_tighten_def placed_sync_def rests_ok_def)
qed

lemma cancel_sync:
  assumes "placed_sync p"
  shows "\<exists>p'. placer_cancel ops p m = (p', Inr ()) \<and> placed_sync p'
    \<and> resting (pl_venue p') = (resting (pl_venue p))(m := None)"
proof (cases "resting (pl_venue p) m")
  case None
  then show ?thesis using assms by (auto simp: placer_cancel_def placed_sync_def fun_upd_idem)
next
  case (Some r)
  obtain oid where oid: "rs_order_id r = Some oid" using assms Some by (auto simp: placed_sync_def)
  then show ?thesis
    using cancel_rests [OF Some oid] assms Some by (auto simp: placer_cancel_def placed_sync_def)
qed

lemma arm_sync:
  assumes "layers_sync c" and "1 \<le> f" and "f \<le> 10000"
  shows "layers_sync (fst (arm_at_entry ops c m entry pos th f))"
proof (cases "stop_at_entry m entry th")
  case (Inl e)
  then show ?thesis using assms by (simp add: arm_at_entry_def)
next
  case (Inr st)
  have st: "st_mint st = m" "stop_ok st"
    using Inr by (auto simp: stop_at_entry_def Let_def rbind_eq_Inr mk_StopState_iff)
  obtain p' r where "place_for ops (co_placer c) st f = (p', Inr r)" "placed_sync p'"
    "rs_trigger_price r = trigger_price st" "resting (pl_venue p') = (resting (pl_venue (co_placer c)))(m \<mapsto> r)"
    using place_for_sync [of "co_placer c" st f] assms st by (auto dest: layers_syncD(1))
  note p' = this
  have new: "fst (arm_at_entry ops c m entry pos th f) =
      c\<lparr>co_enforcer := dict_set m (st, pos) (co_enforcer c), co_placer := p'\<rparr>"
    using p'(1) Inr st by (simp add: arm_at_entry_def Let_def enf_register_def)
  have "guarded p' k a" if "map_of (dict_set m (st, pos) (co_enforcer c)) k = Some (a, b)" for k a b
    using that p'(3,4) st others_guarded [OF assms(1), of k a b p']
    by (cases "k = m") (simp_all add: guarded_def [of p' m])
  then show ?thesis unfolding new using p'(2) by (intro layers_syncI) simp_all
qed

lemma coordinator_tighten_sync:
  assumes "layers_sync c"
  shows "layers_sync (fst (coordinator_tighten ops c m t))"
proof (cases "enf_tighten (co_enforcer c) m t")
  case (Inl e)
  then show ?thesis using assms by (simp add: coordinator_tighten_def)
next
  case (Inr x)
  obtain st pos st' where e: "map_of (co_enforcer c) m = Some (st, pos)" and t': "tighten st t = Inr st'"
    and x: "x = (dict_set m (st', pos) (co_enforcer c), st')"
    using Inr by (auto simp: enf_tighten_def rbind_eq_Inr split: option.splits)
  note tf = tighten_Inr [OF t']
  obtain r where r: "resting (pl_venue (co_placer c)) m = Some r" "rs_trigger_price r = trigger_price st"
    "stop_ok st" "st_mint st = m"
    using layers_syncD(2) [OF assms e] by (auto simp: guarded_def)
  obtain p' r' where "placer_tighten ops (co_placer c) m (trigger_price st') = (p', Inr r')" "placed_sync p'"
    "rs_trigger_price r' = trigger_price st'" "resting (pl_venue p') = (resting (pl_venue (co_placer c)))(m \<mapsto> r')"
    using tighten_sync [of "co_placer c" m r "trigger_price st'"] assms r tf by (auto dest: layers_syncD(1))
  note p' = this
  have new: "fst (coordinator_tighten ops c m t) =
      c\<lparr>co_enforcer := dict_set m (st', pos) (co_enforcer c), co_placer := p'\<rparr>"
    using p'(1) Inr x by (simp add: coordinator_tighten_def)
  have "guarded p' k a" if "map_of (dict_set m (st', pos) (co_enforcer c)) k = Some (a, b)" for k a b
    using that p'(3,4) r tf others_guarded [OF assms, of k a b p']
    by (cases "k = m") (simp_all add: guarded_def [of p' m])
  then show ?thesis unfolding new using p'(2) by (intro layers_syncI) simp_all
qed

lemma coordinator_exit_sync:
  assumes "layers_sync c"
  shows "layers_sync (fst (coordinator_on_exit ops c m))"
proof -
  obtain p' where p': "placer_cancel ops (co_placer c) m = (p', Inr ())" "placed_sync p'"
    "resting (pl_venue p') = (resting (pl_venue (co_placer c)))(m := None)"
    using cancel_sync [OF layers_syncD(1) [OF assms]] by blast
  have new: "fst (coordinator_on_exit ops c m) = c\<lparr>co_enforcer := dict_pop m (co_enforcer c), co_placer := p'\<rparr>"
    using p'(1) by (simp add: coordinator_on_exit_def Let_def enf_deregister_def)
  have "guarded p' k a" if "map_of (dict_pop m (co_enforcer c)) k = Some (a, b)" for k a b
    using that p'(3) others_guarded [OF assms, of k a b p'] by (cases "k = m") simp_all
  then show ?thesis unfolding new using p'(2) by (intro layers_syncI) simp_all
qed

lemma enf_on_tick_shrinks:
  "enf_on_tick venue_exit e t = Inr (e', sent, fill) \<Longrightarrow> e' = e \<or> e' = dict_pop (mt_mint t) e"
  by (auto simp: enf_on_tick_def rbind_eq_Inr split: if_splits option.splits)

lemma coordinator_tick_sync:
  assumes "layers_sync c"
  shows "layers_sync (fst (coordinator_on_tick venue_exit c now t))"
proof (cases "enf_on_tick venue_exit (co_enforcer c) t")
  case (Inl e)
  then show ?thesis
    using layers_syncD [OF assms] by (auto simp: coordinator_on_tick_def Let_def intro: layers_syncI)
next
  case (Inr x)
  obtain e' sent fill where x: "x = (e', sent, fill)" by (cases x)
  have "guarded (co_placer c) k a" if "map_of e' k = Some (a, b)" for k a b
    using enf_on_tick_shrinks [OF Inr [unfolded x]] that layers_syncD(2) [OF assms, of k a b]
    by (auto split: if_splits)
  then show ?thesis
    using Inr x layers_syncD(1) [OF assms] by (auto simp: coordinator_on_tick_def Let_def intro: layers_syncI)
qed

end

interpretation sim: stop_venue sim_ops "\<lambda>v. map_of (sim_orders v)"
proof unfold_locales
  fix m :: mint and r :: resting_stop and v :: sim_venue
  assume "rests_ok m r"
  then show "\<exists>v' oid. sv_place sim_ops v r = (v', Inr (r\<lparr>rs_order_id := Some oid\<rparr>))
      \<and> map_of (sim_orders v') = (map_of (sim_orders v))(m \<mapsto> r\<lparr>rs_order_id := Some oid\<rparr>)"
    by (auto simp: sim_ops_def sim_place_def Let_def mk_RestingStopOrder_def rests_ok_def)
next
  fix v :: sim_venue and m and r :: resting_stop and oid t
  assume "map_of (sim_orders v) m = Some r" "rs_order_id r = Some oid" "rests_ok m r" "rs_trigger_price r \<le> t"
  moreover have "\<lparr>rs_mint = m, rs_trigger_price = t, rs_fraction_bps = rs_fraction_bps r, rs_order_id = x\<rparr>
      = r\<lparr>rs_trigger_price := t, rs_order_id := x\<rparr>" for x
    using \<open>rests_ok m r\<close> by (cases r) (simp add: rests_ok_def)
  moreover have "mk_RestingStopOrder (r\<lparr>rs_trigger_price := t, rs_order_id := x\<rparr>) = Inr (r\<lparr>rs_trigger_price := t, rs_order_id := x\<rparr>)" for x
    using \<open>rests_ok m r\<close> \<open>rs_trigger_price r \<le> t\<close> by (simp add: mk_RestingStopOrder_def rests_ok_def)
  ultimately show "\<exists>v' oid'. sv_replace sim_ops v m oid t = (v', Inr (r\<lparr>rs_trigger_price := t, rs_order_id := Some oid'\<rparr>))
      \<and> map_of (sim_orders v') = (map_of (sim_orders v))(m \<mapsto> r\<lparr>rs_trigger_price := t, rs_order_id := Some oid'\<rparr>)"
    by (simp add: sim_ops_def sim_replace_def Let_def) blast
next
  fix v :: sim_venue and m and r :: resting_stop and oid
  assume "map_of (sim_orders v) m = Some r" "rs_order_id r = Some oid"
  then show "\<exists>v'. sv_cancel sim_ops v m oid = (v', Inr ()) \<and> map_of (sim_orders v') = (map_of (sim_orders v))(m := None)"
    by (simp add: sim_ops_def sim_cancel_def)
qed

subsection \<open>Runs of the coordinator\<close>

datatype co_event =
    Arm mint decimal position "bps option" bps
  | Co_tick rat mark_tick
  | Co_tighten mint decimal
  | Co_exit mint

fun co_event_ok :: "co_event \<Rightarrow> bool" where
  "co_event_ok (Arm m entry pos th f) \<longleftrightarrow> 1 \<le> f \<and> f \<le> 10000"
| "co_event_ok _ \<longleftrightarrow> True"

fun co_step :: "(intent \<Rightarrow> position \<Rightarrow> fill_result) \<Rightarrow> 'v stop_venue_ops \<Rightarrow> 'v coordinator \<Rightarrow> co_event \<Rightarrow> 'v coordinator" where
  "co_step venue_exit ops c (Arm m entry pos th f) = fst (arm_at_entry ops c m entry pos th f)"
| "co_step venue_exit ops c (Co_tick now t) = fst (coordinator_on_tick venue_exit c now t)"
| "co_step venue_exit ops c (Co_tighten m t) = fst (coordinator_tighten ops c m t)"
| "co_step venue_exit ops c (Co_exit m) = fst (coordinator_on_exit ops c m)"

definition new_coordinator :: "dms \<Rightarrow> sim_venue coordinator" where
  "new_coordinator d = \<lparr>co_enforcer = [], co_placer = \<lparr>pl_venue = new_sim_venue, pl_placed = []\<rparr>, co_dms = d\<rparr>"

lemma co_run_sync:
  "sim.layers_sync c \<Longrightarrow> \<forall>ev \<in> set evs. co_event_ok ev \<Longrightarrow> sim.layers_sync (foldl (co_step venue_exit sim_ops) c evs)"
proof (induction evs arbitrary: c)
  case (Cons ev evs)
  have "sim.layers_sync (co_step venue_exit sim_ops c ev)"
    using Cons.prems
    by (cases ev) (simp_all add: sim.arm_sync sim.coordinator_tick_sync sim.coordinator_tighten_sync sim.coordinator_exit_sync)
  with Cons show ?case by simp
qed simp

text \<open>
  C17. The in-process stop and the stop resting at the venue never come apart: after any sequence of
  entries, ticks, tightenings (accepted or refused) and exits, every mint armed in process also
  rests at the venue, and for every mark the one fires exactly when the other does.
\<close>

theorem stop_layers_fire_together:
  assumes "\<forall>ev \<in> set evs. co_event_ok ev"
    and "c = foldl (co_step venue_exit sim_ops) (new_coordinator d) evs"
    and "mt_mint t \<in> armed_mints (co_enforcer c)"
  shows "enf_decide (co_enforcer c) t \<longleftrightarrow>
      snd (keeper_tick (pl_venue (co_placer c)) (mt_mint t) (mt_mark_price t)) \<noteq> None"
proof -
  have "sim.layers_sync (new_coordinator d)"
    by (simp add: new_coordinator_def sim.layers_sync_def sim.placed_sync_def new_sim_venue_def)
  then have sync: "sim.layers_sync c" unfolding assms(2) using assms(1) by (rule co_run_sync)
  obtain x where x: "map_of (co_enforcer c) (mt_mint t) = Some x"
    using assms(3) by (auto simp: armed_mints_def dest: weak_map_of_SomeI)
  then have "sim.guarded (co_placer c) (mt_mint t) (fst x)" using sim.layers_syncD(2) [OF sync] by (cases x) simp
  then show ?thesis
    using x by (cases x) (auto simp: sim.guarded_def enf_decide_def is_breached_def keeper_tick_def Let_def split: if_splits)
qed

theorem stop_layers_fire_together_witness:
  "let c = foldl (co_step (\<lambda>_ _. demo_fill) sim_ops)
         (new_coordinator \<lparr>t_dms = 60, last_beat = 0, dms_fired = False, dms_armed = True, dms_flattens = []\<rparr>)
         [Arm ''m'' 100 demo_position (Some 4000) 10000, Co_tighten ''m'' 80];
       t = \<lparr>mt_mint = ''m'', mt_mark_price = 75, mt_block_time_ms = 1\<rparr>
   in ''m'' \<in> armed_mints (co_enforcer c)
      \<and> (enf_decide (co_enforcer c) t \<longleftrightarrow> snd (keeper_tick (pl_venue (co_placer c)) ''m'' 75) \<noteq> None)"
proof -
  let ?d = "\<lparr>t_dms = 60, last_beat = 0, dms_fired = False, dms_armed = True, dms_flattens = []\<rparr>"
  let ?evs = "[Arm ''m'' 100 demo_position (Some 4000) 10000, Co_tighten ''m'' 80]"
  let ?c = "foldl (co_step (\<lambda>_ _. demo_fill) sim_ops) (new_coordinator ?d) ?evs"
  have a: "''m'' \<in> armed_mints (co_enforcer ?c)" by code_simp
  show ?thesis
    using stop_layers_fire_together [of ?evs ?c "\<lambda>_ _. demo_fill" ?d "\<lparr>mt_mint = ''m'', mt_mark_price = 75, mt_block_time_ms = 1\<rparr>"] a
    by (simp add: Let_def)
qed

subsection \<open>Pre-signed flattens\<close>

record presigned =
  ps_mint :: mint
  signed_tx_b64 :: string
  ps_fraction_bps :: bps
  refreshed_at_slot :: int

definition mk_PreSignedFlatten :: "presigned \<Rightarrow> presigned result" where
  "mk_PreSignedFlatten f =
     (if ps_fraction_bps f \<noteq> 10000 then Inl ValueError
      else if signed_tx_b64 f = [] then Inl ValueError
      else Inr f)"

type_synonym flatten_holder = "(mint \<times> presigned) list"

definition holder_upsert :: "flatten_holder \<Rightarrow> presigned \<Rightarrow> flatten_holder" where
  "holder_upsert h f = dict_set (ps_mint f) f h"

definition holder_remove :: "flatten_holder \<Rightarrow> mint \<Rightarrow> flatten_holder" where
  "holder_remove h m = dict_pop m h"

definition held_mints :: "flatten_holder \<Rightarrow> mint set" where
  "held_mints h = set (dict_keys h)"

text \<open>
  A submission is the signed transaction, the reason it was given and the mint appended to it. The
  submitter may raise on any of them; the loop goes on and raises the first error at the end.
\<close>

type_synonym submission = "string \<times> audit \<times> mint"

fun flatten_each ::
  "(submission \<Rightarrow> py_exc option) \<Rightarrow> audit \<Rightarrow> presigned list \<Rightarrow> submission list \<times> py_exc option" where
  "flatten_each submit reason [] = ([], None)"
| "flatten_each submit reason (f # fs) =
     (let s = (signed_tx_b64 f, reason, ps_mint f);
          (subs, err) = flatten_each submit reason fs
      in (s # subs, case submit s of Some e \<Rightarrow> Some e | None \<Rightarrow> err))"

definition holder_emergency_flatten ::
  "(submission \<Rightarrow> py_exc option) \<Rightarrow> flatten_holder \<Rightarrow> audit \<Rightarrow> submission list \<times> unit result" where
  "holder_emergency_flatten submit h reason =
     (case flatten_each submit reason (dict_values h) of
        (subs, None) \<Rightarrow> (subs, Inr ())
      | (subs, Some e) \<Rightarrow> (subs, Inl e))"

subsection \<open>The watchdog service\<close>

record heartbeat =
  hb_epoch_ms :: int
  hb_seq :: int

definition mk_Heartbeat :: "heartbeat \<Rightarrow> heartbeat result" where
  "mk_Heartbeat hb = (if hb_epoch_ms hb < 0 then Inl ValueError else if hb_seq hb < 0 then Inl ValueError else Inr hb)"

definition build_heartbeat :: "int \<Rightarrow> int \<Rightarrow> heartbeat result" where
  "build_heartbeat sequence wall_ms = mk_Heartbeat \<lparr>hb_epoch_ms = wall_ms, hb_seq = sequence\<rparr>"

record heartbeat_store =
  hs_hb :: "heartbeat option"
  hs_fail :: bool

definition hs_write :: "heartbeat_store \<Rightarrow> heartbeat \<Rightarrow> heartbeat_store" where
  "hs_write s hb = s\<lparr>hs_hb := Some hb\<rparr>"

definition hs_set_unreachable :: "heartbeat_store \<Rightarrow> bool \<Rightarrow> heartbeat_store" where
  "hs_set_unreachable s unreachable = s\<lparr>hs_fail := unreachable\<rparr>"

definition hs_read :: "heartbeat_store \<Rightarrow> heartbeat option" where
  "hs_read s = (if hs_fail s then None else hs_hb s)"

record watchdog =
  wd_t_dms :: rat
  wd_fired :: bool
  wd_armed :: bool
  wd_last_fresh_mono :: rat
  wd_last_seq :: "int option"

definition mk_DmsWatchdog :: "rat \<Rightarrow> rat \<Rightarrow> watchdog result" where
  "mk_DmsWatchdog t_dms_secs mono_s =
     (if t_dms_secs \<le> 0 then Inl ValueError
      else Inr \<lparr>wd_t_dms = flt t_dms_secs, wd_fired = False, wd_armed = True, wd_last_fresh_mono = mono_s,
                wd_last_seq = None\<rparr>)"

definition newer_seq :: "int option \<Rightarrow> heartbeat \<Rightarrow> bool" where
  "newer_seq last_seq hb \<longleftrightarrow> (case last_seq of None \<Rightarrow> True | Some n \<Rightarrow> n < hb_seq hb)"

definition wall_age :: "heartbeat \<Rightarrow> int \<Rightarrow> rat" where
  "wall_age hb wall_ms = max 0 (flt (flt (of_int (wall_ms - hb_epoch_ms hb)) / 1000))"

definition age_locked :: "watchdog \<Rightarrow> heartbeat option \<Rightarrow> rat \<Rightarrow> int \<Rightarrow> watchdog \<times> rat" where
  "age_locked w read mono_s wall_ms =
     (case read of
        None \<Rightarrow> (w, fsub mono_s (wd_last_fresh_mono w))
      | Some hb \<Rightarrow>
          (let w' = (if newer_seq (wd_last_seq w) hb
                     then w\<lparr>wd_last_seq := Some (hb_seq hb), wd_last_fresh_mono := mono_s\<rparr> else w)
           in (w', max (wall_age hb wall_ms) (fsub mono_s (wd_last_fresh_mono w')))))"

definition watchdog_check ::
  "(submission \<Rightarrow> py_exc option) \<Rightarrow> flatten_holder \<Rightarrow> watchdog \<Rightarrow> heartbeat option \<Rightarrow> rat \<Rightarrow> int \<Rightarrow>
   watchdog \<times> submission list \<times> bool result" where
  "watchdog_check submit h w read mono_s wall_ms =
     (let (w1, age) = age_locked w read mono_s wall_ms in
      if \<not> wd_armed w1 \<or> wd_fired w1 then (w1, [], Inr False)
      else if age \<le> wd_t_dms w1 then (w1, [], Inr False)
      else
        let (subs, r) = holder_emergency_flatten submit h (Audit ''aats_dms_service'' [age, wd_t_dms w1])
        in (w1\<lparr>wd_fired := True\<rparr>, subs, rbind r (\<lambda>_. Inr True)))"

definition watchdog_stand_down :: "watchdog \<Rightarrow> dms_credential \<Rightarrow> watchdog \<times> unit result" where
  "watchdog_stand_down w cred =
     (case cred of
        OtherDmsObject \<Rightarrow> (w, Inl PermissionError)
      | DmsStandDownToken _ \<Rightarrow> (w\<lparr>wd_armed := False\<rparr>, Inr ()))"

definition watchdog_rearm :: "watchdog \<Rightarrow> dms_credential \<Rightarrow> rat \<Rightarrow> watchdog \<times> unit result" where
  "watchdog_rearm w cred mono_s =
     (case cred of
        OtherDmsObject \<Rightarrow> (w, Inl PermissionError)
      | DmsStandDownToken _ \<Rightarrow>
          (w\<lparr>wd_armed := True, wd_fired := False, wd_last_fresh_mono := mono_s, wd_last_seq := None\<rparr>, Inr ()))"

text \<open>A run of checks: what the store answered and the two clock readings of each.\<close>

fun watchdog_run ::
  "(submission \<Rightarrow> py_exc option) \<Rightarrow> flatten_holder \<Rightarrow> watchdog \<Rightarrow> (heartbeat option \<times> rat \<times> int) list \<Rightarrow>
   watchdog \<times> submission list" where
  "watchdog_run submit h w [] = (w, [])"
| "watchdog_run submit h w ((read, mono_s, wall_ms) # checks) =
     (let (w1, subs, r) = watchdog_check submit h w read mono_s wall_ms;
          (w2, subs') = watchdog_run submit h w1 checks
      in (w2, subs @ subs'))"

subsection \<open>What the watchdog guarantees\<close>

text \<open>The submissions one firing makes: one per held flatten, in the order they are held.\<close>

definition full_flatten :: "flatten_holder \<Rightarrow> (string \<times> mint) list" where
  "full_flatten h = map (\<lambda>f. (signed_tx_b64 f, ps_mint f)) (dict_values h)"

definition sub_key :: "submission \<Rightarrow> string \<times> mint" where
  "sub_key s = (case s of (tx, reason, m) \<Rightarrow> (tx, m))"

lemma flatten_each_subs: "map sub_key (fst (flatten_each submit reason fs)) = map (\<lambda>f. (signed_tx_b64 f, ps_mint f)) fs"
  by (induction fs) (auto simp: sub_key_def Let_def split: prod.splits)

lemma holder_flatten_subs: "map sub_key (fst (holder_emergency_flatten submit h reason)) = full_flatten h"
  using flatten_each_subs [of submit reason "dict_values h"]
  by (auto simp: holder_emergency_flatten_def full_flatten_def split: prod.splits option.splits)

text \<open>
  A read that shows no sign of life: nothing readable, or a heartbeat whose sequence number is not
  above the last one seen.
\<close>

definition stale_read :: "watchdog \<Rightarrow> heartbeat option \<Rightarrow> bool" where
  "stale_read w read \<longleftrightarrow> (case read of None \<Rightarrow> True | Some hb \<Rightarrow> \<not> newer_seq (wd_last_seq w) hb)"

lemma stale_check:
  assumes "stale_read w read" and "watchdog_check submit h w read mono_s wall_ms = (w', subs, r)"
  shows "wd_last_seq w' = wd_last_seq w \<and> wd_last_fresh_mono w' = wd_last_fresh_mono w \<and> wd_t_dms w' = wd_t_dms w
    \<and> wd_armed w' = wd_armed w
    \<and> (if wd_armed w \<and> \<not> wd_fired w \<and> wd_t_dms w < snd (age_locked w read mono_s wall_ms)
       then wd_fired w' \<and> map sub_key subs = full_flatten h else w' = w \<and> subs = [])"
proof -
  have a: "fst (age_locked w read mono_s wall_ms) = w"
    using assms(1) by (auto simp: stale_read_def age_locked_def Let_def split: option.splits)
  obtain age where age: "age_locked w read mono_s wall_ms = (w, age)" using a by (metis prod.collapse)
  obtain fs fr where f: "holder_emergency_flatten submit h (Audit ''aats_dms_service'' [age, wd_t_dms w]) = (fs, fr)"
    by fastforce
  have "map sub_key fs = full_flatten h"
    using holder_flatten_subs [of submit h "Audit ''aats_dms_service'' [age, wd_t_dms w]"] f by simp
  then show ?thesis using assms(2) age f by (auto simp: watchdog_check_def split: if_splits)
qed

lemma stale_age: "stale_read w read \<Longrightarrow> fsub mono_s (wd_last_fresh_mono w) \<le> snd (age_locked w read mono_s wall_ms)"
  by (auto simp: stale_read_def age_locked_def Let_def split: option.splits)

lemma stale_read_frame: "wd_last_seq w' = wd_last_seq w \<Longrightarrow> stale_read w' read = stale_read w read"
  by (cases read) (simp_all add: stale_read_def)

lemma fired_run_silent:
  "wd_fired w \<Longrightarrow> \<forall>(read, mono_s, wall_ms) \<in> set checks. stale_read w read \<Longrightarrow>
   watchdog_run submit h w checks = (w', subs) \<Longrightarrow> wd_fired w' \<and> subs = []"
proof (induction checks arbitrary: w subs)
  case (Cons c checks)
  obtain read mono_s wall_ms where c: "c = (read, mono_s, wall_ms)" by (cases c)
  obtain w1 s1 r where k: "watchdog_check submit h w read mono_s wall_ms = (w1, s1, r)" by (cases "watchdog_check submit h w read mono_s wall_ms")
  have st: "stale_read w read" using Cons.prems(2) c by simp
  have "w1 = w" "s1 = []" using stale_check [OF st k] Cons.prems(1) by auto
  then show ?case using Cons c k by (auto split: prod.splits)
qed simp

lemma silence_fires:
  assumes "wd_armed w" and "\<not> wd_fired w"
    and "\<forall>(read, mono_s, wall_ms) \<in> set checks. stale_read w read"
    and "\<exists>(read, mono_s, wall_ms) \<in> set checks. wd_t_dms w < fsub mono_s (wd_last_fresh_mono w)"
    and "watchdog_run submit h w checks = (w', subs)"
  shows "wd_fired w' \<and> map sub_key subs = full_flatten h"
  using assms
proof (induction checks arbitrary: subs)
  case (Cons c checks)
  obtain read mono_s wall_ms where c: "c = (read, mono_s, wall_ms)" by (cases c)
  obtain w1 s1 r where k: "watchdog_check submit h w read mono_s wall_ms = (w1, s1, r)" by (cases "watchdog_check submit h w read mono_s wall_ms")
  obtain s2 where run: "watchdog_run submit h w1 checks = (w', s2)" and subs: "subs = s1 @ s2"
    using Cons.prems(5) c k by (auto split: prod.splits)
  have st: "stale_read w read" using Cons.prems(3) c by simp
  note one = stale_check [OF st k]
  show ?case
  proof (cases "wd_t_dms w < snd (age_locked w read mono_s wall_ms)")
    case True
    then have w1: "wd_fired w1" "map sub_key s1 = full_flatten h" "wd_last_seq w1 = wd_last_seq w"
      using one Cons.prems(1,2) by simp_all
    have "\<forall>(read, mono_s, wall_ms) \<in> set checks. stale_read w1 read"
      using Cons.prems(3) stale_read_frame [OF w1(3)] by auto
    then show ?thesis using fired_run_silent [OF w1(1) _ run] w1(2) subs by simp
  next
    case False
    then have same: "w1 = w" "s1 = []" using one Cons.prems(1,2) by simp_all
    have "\<not> wd_t_dms w < fsub mono_s (wd_last_fresh_mono w)" using stale_age [OF st, of mono_s wall_ms] False by simp
    then show ?thesis using Cons.IH [OF Cons.prems(1,2)] Cons.prems(3,4) run same subs c by auto
  qed
qed simp

text \<open>
  C18. The watchdog in its own failure domain does its work: whenever the checks of an armed watchdog
  see no newer heartbeat, because the store is unreachable, empty or stuck, and one of them comes more
  than \<open>T_DMS\<close> after the last sign of life, then over the whole run every held pre-signed flatten is
  submitted, once each, even when the submitter raises on some of them.
\<close>

theorem watchdog_fires_once_on_silence:
  assumes "wd_armed w" and "\<not> wd_fired w"
    and "\<forall>(read, mono_s, wall_ms) \<in> set checks. stale_read w read"
    and "\<exists>(read, mono_s, wall_ms) \<in> set checks. wd_t_dms w < fsub mono_s (wd_last_fresh_mono w)"
    and "watchdog_run submit h w checks = (w', subs)"
  shows "wd_fired w' \<and> map sub_key subs = full_flatten h"
  using assms by (rule silence_fires)

text \<open>
  A restart of the watched process is mistaken for its death: its heartbeat counter starts again at
  one, so its heartbeats, although each was written in the very millisecond it is read, count as stale
  until they pass the old counter, and an armed watchdog flattens the whole book when that takes longer
  than \<open>T_DMS\<close>.
\<close>

theorem restarted_writer_trips_watchdog:
  assumes "wd_armed w" and "\<not> wd_fired w" and "wd_last_seq w = Some n" and "int k \<le> n"
    and "j < k" and "wd_t_dms w < fsub (clock j) (wd_last_fresh_mono w)"
    and "watchdog_run submit h w
          (map (\<lambda>i. (Some \<lparr>hb_epoch_ms = wall i, hb_seq = int i + 1\<rparr>, clock i, wall i)) [0..<k]) = (w', subs)"
  shows "wd_fired w' \<and> map sub_key subs = full_flatten h"
proof (rule silence_fires [OF assms(1,2) _ _ assms(7)])
qed (use assms(3-6) in \<open>auto simp: stale_read_def newer_seq_def\<close>)

definition demo_watchdog :: watchdog where
  "demo_watchdog = \<lparr>wd_t_dms = 60, wd_fired = False, wd_armed = True, wd_last_fresh_mono = 0, wd_last_seq = Some 10\<rparr>"

definition demo_held :: flatten_holder where
  "demo_held = holder_upsert [] \<lparr>ps_mint = ''m'', signed_tx_b64 = ''tx'', ps_fraction_bps = 10000, refreshed_at_slot = 1\<rparr>"

lemma demo_watchdog_clock: "wd_t_dms demo_watchdog < fsub 61 (wd_last_fresh_mono demo_watchdog)"
  by code_simp

theorem watchdog_fires_once_on_silence_witness:
  "map sub_key (snd (watchdog_run (\<lambda>_. Some RuntimeError) demo_held demo_watchdog [(None, 30, 0), (None, 61, 0), (None, 90, 0)]))
     = [(''tx'', ''m'')]"
proof -
  let ?cs = "[(None, 30, 0), (None, 61, 0), (None, 90, 0)] :: (heartbeat option \<times> rat \<times> int) list"
  obtain w' subs where run: "watchdog_run (\<lambda>_. Some RuntimeError) demo_held demo_watchdog ?cs = (w', subs)" by fastforce
  have "\<forall>(read, mono_s, wall_ms) \<in> set ?cs. stale_read demo_watchdog read" by (simp add: stale_read_def)
  from watchdog_fires_once_on_silence [OF _ _ this _ run] demo_watchdog_clock show ?thesis
    using run by (simp add: demo_watchdog_def full_flatten_def demo_held_def holder_upsert_def)
qed

theorem restarted_writer_trips_watchdog_witness:
  "map sub_key (snd (watchdog_run (\<lambda>_. None) demo_held demo_watchdog
      (map (\<lambda>i. (Some \<lparr>hb_epoch_ms = 0, hb_seq = int i + 1\<rparr>, 61, 0)) [0..<3]))) = [(''tx'', ''m'')]"
proof -
  let ?cs = "map (\<lambda>i. (Some \<lparr>hb_epoch_ms = 0, hb_seq = int i + 1\<rparr>, 61, 0)) [0..<3] :: (heartbeat option \<times> rat \<times> int) list"
  obtain w' subs where run: "watchdog_run (\<lambda>_. None) demo_held demo_watchdog ?cs = (w', subs)" by fastforce
  from restarted_writer_trips_watchdog [of demo_watchdog 10 3 0 "\<lambda>_. 61" "\<lambda>_. None" demo_held "\<lambda>_. 0", OF _ _ _ _ _ demo_watchdog_clock run]
  show ?thesis using run by (simp add: demo_watchdog_def full_flatten_def demo_held_def holder_upsert_def)
qed
end
