(* ===== verification/State_Store.thy ===== *)
theory State_Store
  imports Interfaces
begin

text \<open>
  The shared state layer, \<open>aats/controller/state.py\<close>: the in-memory store that reproduces the
  key conventions of the Redis one. Every dictionary is an insertion-ordered association list,
  an entry with an expiry is a pair of payload and expiry in milliseconds. Each method runs under
  the store's lock and is a function of the store and one clock reading; a getter that finds an
  expired entry deletes it, so getters return the new store as well.
\<close>

subsection \<open>Entries that expire\<close>

type_synonym ('k, 'v) ttl_dict = "('k \<times> ('v \<times> millis)) list"

definition ttl_put :: "('k, 'v) ttl_dict \<Rightarrow> 'k \<Rightarrow> 'v \<Rightarrow> int \<Rightarrow> millis \<Rightarrow> ('k, 'v) ttl_dict" where
  "ttl_put d k v ttl now = dict_set k (v, now + ttl * 1000) d"

definition is_expired :: "millis \<Rightarrow> millis \<Rightarrow> bool" where
  "is_expired now expiry \<longleftrightarrow> expiry \<le> now"

definition ttl_get :: "('k, 'v) ttl_dict \<Rightarrow> 'k \<Rightarrow> millis \<Rightarrow> ('k, 'v) ttl_dict \<times> 'v option" where
  "ttl_get d k now =
     (case map_of d k of
        None \<Rightarrow> (d, None)
      | Some (v, expiry) \<Rightarrow> if is_expired now expiry then (dict_pop k d, None) else (d, Some v))"

subsection \<open>The store\<close>

record store =
  fsm_locks :: "(mint, client_id) ttl_dict"
  positions :: "(mint \<times> position) list"
  signals :: "(mint, decision_signal) ttl_dict"
  veto_flags :: "(mint, unit) ttl_dict"
  narrative_flags :: "(mint, unit) ttl_dict"
  insider_dump_flags :: "(mint, int \<times> int) ttl_dict"
  sellability_degraded_flags :: "(mint, string \<times> int) ttl_dict"
  lp_unlock_approaching_flags :: "(mint, string \<times> int) ttl_dict"
  cooldowns :: "(mint, unit) ttl_dict"
  seen_intents :: "(client_id, unit) ttl_dict"
  st_breaker :: "breaker_state option"
  last_heartbeat_ms :: "millis option"
  last_heartbeat_wall_ms :: "millis option"

definition empty_store :: store where
  "empty_store =
     \<lparr>fsm_locks = [], positions = [], signals = [], veto_flags = [], narrative_flags = [],
      insider_dump_flags = [], sellability_degraded_flags = [], lp_unlock_approaching_flags = [],
      cooldowns = [], seen_intents = [], st_breaker = None, last_heartbeat_ms = None,
      last_heartbeat_wall_ms = None\<rparr>"

subsection \<open>Claims and positions\<close>

definition claim_entering :: "store \<Rightarrow> mint \<Rightarrow> client_id \<Rightarrow> int \<Rightarrow> millis \<Rightarrow> store \<times> bool" where
  "claim_entering s m intent_id ttl now =
     (let locks = (case map_of (fsm_locks s) m of
                     None \<Rightarrow> fsm_locks s
                   | Some (_, expiry) \<Rightarrow>
                       if is_expired now expiry then dict_pop m (fsm_locks s) else fsm_locks s) in
      if map_of locks m \<noteq> None then (s\<lparr>fsm_locks := locks\<rparr>, False)
      else (s\<lparr>fsm_locks := ttl_put locks m intent_id ttl now\<rparr>, True))"

definition release_entering :: "store \<Rightarrow> mint \<Rightarrow> store" where
  "release_entering s m = s\<lparr>fsm_locks := dict_pop m (fsm_locks s)\<rparr>"

definition save_position :: "store \<Rightarrow> position \<Rightarrow> store" where
  "save_position s p = s\<lparr>positions := dict_set (pos_mint p) p (positions s)\<rparr>"

definition load_position :: "store \<Rightarrow> mint \<Rightarrow> position option" where
  "load_position s m = map_of (positions s) m"

definition delete_position :: "store \<Rightarrow> mint \<Rightarrow> store" where
  "delete_position s m = s\<lparr>positions := dict_pop m (positions s)\<rparr>"

definition load_all_positions :: "store \<Rightarrow> position list" where
  "load_all_positions s = dict_values (positions s)"

definition get_aggregate_open_lamports :: "store \<Rightarrow> lamports" where
  "get_aggregate_open_lamports s = sum_list (map sol_in_lamports (dict_values (positions s)))"

subsection \<open>Signals and flags\<close>

definition get_decision_signal :: "store \<Rightarrow> mint \<Rightarrow> millis \<Rightarrow> store \<times> decision_signal option" where
  "get_decision_signal s m now =
     (case ttl_get (signals s) m now of (d, v) \<Rightarrow> (s\<lparr>signals := d\<rparr>, v))"

definition set_decision_signal :: "store \<Rightarrow> decision_signal \<Rightarrow> int \<Rightarrow> millis \<Rightarrow> store" where
  "set_decision_signal s sg ttl now = s\<lparr>signals := ttl_put (signals s) (sg_mint sg) sg ttl now\<rparr>"

definition get_veto_flag :: "store \<Rightarrow> mint \<Rightarrow> millis \<Rightarrow> store \<times> bool" where
  "get_veto_flag s m now =
     (case ttl_get (veto_flags s) m now of (d, v) \<Rightarrow> (s\<lparr>veto_flags := d\<rparr>, v \<noteq> None))"

definition set_veto_flag :: "store \<Rightarrow> mint \<Rightarrow> int \<Rightarrow> millis \<Rightarrow> store" where
  "set_veto_flag s m ttl now = s\<lparr>veto_flags := ttl_put (veto_flags s) m () ttl now\<rparr>"

definition clear_veto_flag :: "store \<Rightarrow> mint \<Rightarrow> store" where
  "clear_veto_flag s m = s\<lparr>veto_flags := dict_pop m (veto_flags s)\<rparr>"

definition get_narrative_failure_flag :: "store \<Rightarrow> mint \<Rightarrow> millis \<Rightarrow> store \<times> bool" where
  "get_narrative_failure_flag s m now =
     (case ttl_get (narrative_flags s) m now of (d, v) \<Rightarrow> (s\<lparr>narrative_flags := d\<rparr>, v \<noteq> None))"

definition set_narrative_failure_flag :: "store \<Rightarrow> mint \<Rightarrow> int \<Rightarrow> millis \<Rightarrow> store" where
  "set_narrative_failure_flag s m ttl now =
     s\<lparr>narrative_flags := ttl_put (narrative_flags s) m () ttl now\<rparr>"

definition get_insider_dump_detail :: "store \<Rightarrow> mint \<Rightarrow> millis \<Rightarrow> store \<times> (int \<times> int) option" where
  "get_insider_dump_detail s m now =
     (case ttl_get (insider_dump_flags s) m now of (d, v) \<Rightarrow> (s\<lparr>insider_dump_flags := d\<rparr>, v))"

definition get_insider_dump_flag :: "store \<Rightarrow> mint \<Rightarrow> millis \<Rightarrow> store \<times> bool" where
  "get_insider_dump_flag s m now =
     (case ttl_get (insider_dump_flags s) m now of (d, v) \<Rightarrow> (s\<lparr>insider_dump_flags := d\<rparr>, v \<noteq> None))"

definition set_insider_dump_flag :: "store \<Rightarrow> mint \<Rightarrow> int \<Rightarrow> int \<Rightarrow> int \<Rightarrow> millis \<Rightarrow> store result" where
  "set_insider_dump_flag s m fraction_sold event_slot ttl now =
     (if \<not> (0 \<le> fraction_sold \<and> fraction_sold \<le> 10000) then Inl ValueError
      else if event_slot < 0 then Inl ValueError
      else Inr (s\<lparr>insider_dump_flags :=
                   ttl_put (insider_dump_flags s) m (fraction_sold, event_slot) ttl now\<rparr>))"

definition get_sellability_degraded_detail :: "store \<Rightarrow> mint \<Rightarrow> millis \<Rightarrow> store \<times> (string \<times> int) option" where
  "get_sellability_degraded_detail s m now =
     (case ttl_get (sellability_degraded_flags s) m now of
        (d, v) \<Rightarrow> (s\<lparr>sellability_degraded_flags := d\<rparr>, v))"

definition get_sellability_degraded_flag :: "store \<Rightarrow> mint \<Rightarrow> millis \<Rightarrow> store \<times> bool" where
  "get_sellability_degraded_flag s m now =
     (case ttl_get (sellability_degraded_flags s) m now of
        (d, v) \<Rightarrow> (s\<lparr>sellability_degraded_flags := d\<rparr>, v \<noteq> None))"

definition set_sellability_degraded_flag ::
    "store \<Rightarrow> mint \<Rightarrow> string \<Rightarrow> int \<Rightarrow> int \<Rightarrow> millis \<Rightarrow> store result" where
  "set_sellability_degraded_flag s m why event_slot ttl now =
     (if why = [] then Inl ValueError
      else if event_slot < 0 then Inl ValueError
      else Inr (s\<lparr>sellability_degraded_flags :=
                   ttl_put (sellability_degraded_flags s) m (why, event_slot) ttl now\<rparr>))"

definition get_lp_unlock_approaching_detail :: "store \<Rightarrow> mint \<Rightarrow> millis \<Rightarrow> store \<times> (string \<times> int) option" where
  "get_lp_unlock_approaching_detail s m now =
     (case ttl_get (lp_unlock_approaching_flags s) m now of
        (d, v) \<Rightarrow> (s\<lparr>lp_unlock_approaching_flags := d\<rparr>, v))"

definition get_lp_unlock_approaching_flag :: "store \<Rightarrow> mint \<Rightarrow> millis \<Rightarrow> store \<times> bool" where
  "get_lp_unlock_approaching_flag s m now =
     (case ttl_get (lp_unlock_approaching_flags s) m now of
        (d, v) \<Rightarrow> (s\<lparr>lp_unlock_approaching_flags := d\<rparr>, v \<noteq> None))"

definition set_lp_unlock_approaching_flag ::
    "store \<Rightarrow> mint \<Rightarrow> string \<Rightarrow> int \<Rightarrow> int \<Rightarrow> millis \<Rightarrow> store result" where
  "set_lp_unlock_approaching_flag s m why event_slot ttl now =
     (if why = [] then Inl ValueError
      else if event_slot < 0 then Inl ValueError
      else Inr (s\<lparr>lp_unlock_approaching_flags :=
                   ttl_put (lp_unlock_approaching_flags s) m (why, event_slot) ttl now\<rparr>))"

subsection \<open>Cooldown, deduplication, breaker projection, heartbeat\<close>

definition set_cooldown :: "store \<Rightarrow> mint \<Rightarrow> int \<Rightarrow> millis \<Rightarrow> store" where
  "set_cooldown s m ttl now = s\<lparr>cooldowns := ttl_put (cooldowns s) m () ttl now\<rparr>"

definition in_cooldown :: "store \<Rightarrow> mint \<Rightarrow> millis \<Rightarrow> store \<times> bool" where
  "in_cooldown s m now =
     (case ttl_get (cooldowns s) m now of (d, v) \<Rightarrow> (s\<lparr>cooldowns := d\<rparr>, v \<noteq> None))"

definition mark_intent_seen :: "store \<Rightarrow> client_id \<Rightarrow> int \<Rightarrow> millis \<Rightarrow> store \<times> bool" where
  "mark_intent_seen s intent_id ttl now =
     (if (case map_of (seen_intents s) intent_id of
            None \<Rightarrow> False | Some (_, expiry) \<Rightarrow> \<not> is_expired now expiry)
      then (s, False)
      else (s\<lparr>seen_intents := ttl_put (seen_intents s) intent_id () ttl now\<rparr>, True))"

definition load_breaker_state :: "store \<Rightarrow> breaker_state option" where
  "load_breaker_state s = st_breaker s"

definition save_breaker_state :: "store \<Rightarrow> breaker_state \<Rightarrow> store" where
  "save_breaker_state s b = s\<lparr>st_breaker := Some b\<rparr>"

definition emit_heartbeat :: "store \<Rightarrow> millis \<Rightarrow> millis \<Rightarrow> store" where
  "emit_heartbeat s bt now = s\<lparr>last_heartbeat_ms := Some bt, last_heartbeat_wall_ms := Some now\<rparr>"

definition get_heartbeat_age_ms :: "store \<Rightarrow> millis \<Rightarrow> millis" where
  "get_heartbeat_age_ms s now =
     (case last_heartbeat_wall_ms s of None \<Rightarrow> 2 ^ 31 - 1 | Some w \<Rightarrow> now - w)"

definition get_fsm_lock :: "store \<Rightarrow> mint \<Rightarrow> millis \<Rightarrow> client_id option" where
  "get_fsm_lock s m now =
     (case map_of (fsm_locks s) m of
        None \<Rightarrow> None
      | Some (intent_id, expiry) \<Rightarrow> if is_expired now expiry then None else Some intent_id)"

subsection \<open>Entries that expire: the contract\<close>

lemma ttl_get_put:
  "snd (ttl_get (ttl_put d k v ttl now) k' t) =
     (if k' = k then (if t < now + ttl * 1000 then Some v else None) else snd (ttl_get d k' t))"
  by (auto simp: ttl_get_def ttl_put_def is_expired_def split: option.splits)

lemma ttl_get_get: "t \<le> t' \<Longrightarrow> snd (ttl_get (fst (ttl_get d k t)) k' t') = snd (ttl_get d k' t')"
  by (auto simp: ttl_get_def is_expired_def split: option.splits)

text \<open>A Boolean read as an optional unit, the shape of the contract.\<close>

definition flag_read :: "('s \<Rightarrow> 'k \<Rightarrow> millis \<Rightarrow> 's \<times> bool) \<Rightarrow> 's \<Rightarrow> 'k \<Rightarrow> millis \<Rightarrow> 's \<times> unit option" where
  "flag_read get s k now = map_prod id (\<lambda>b. if b then Some () else None) (get s k now)"

lemmas flag_defs =
  get_veto_flag_def set_veto_flag_def get_narrative_failure_flag_def set_narrative_failure_flag_def
  get_insider_dump_detail_def set_insider_dump_flag_def get_sellability_degraded_detail_def
  set_sellability_degraded_flag_def get_lp_unlock_approaching_detail_def
  set_lp_unlock_approaching_flag_def set_cooldown_def in_cooldown_def get_decision_signal_def
  set_decision_signal_def

lemma unit_flag: "(if v \<noteq> None then Some () else None) = (v :: unit option)"
  by (cases v) simp_all


lemmas cell_simps = flag_defs ttl_get_put ttl_get_get

lemma flag_reads:
  "flag_read get_veto_flag s m now =
     (s\<lparr>veto_flags := fst (ttl_get (veto_flags s) m now)\<rparr>, snd (ttl_get (veto_flags s) m now))"
  "flag_read get_narrative_failure_flag s m now =
     (s\<lparr>narrative_flags := fst (ttl_get (narrative_flags s) m now)\<rparr>, snd (ttl_get (narrative_flags s) m now))"
  "flag_read in_cooldown s m now =
     (s\<lparr>cooldowns := fst (ttl_get (cooldowns s) m now)\<rparr>, snd (ttl_get (cooldowns s) m now))"
  by (simp_all add: flag_read_def flag_defs case_prod_beta unit_flag del: not_None_eq)

interpretation veto_cell: ttl_cell "\<lambda>s m (_ :: unit). set_veto_flag s m" "flag_read get_veto_flag" "\<lambda>_. True"
  by unfold_locales (simp_all add: flag_reads cell_simps)

interpretation narrative_cell:
  ttl_cell "\<lambda>s m (_ :: unit). set_narrative_failure_flag s m" "flag_read get_narrative_failure_flag" "\<lambda>_. True"
  by unfold_locales (simp_all add: flag_reads cell_simps)

interpretation cooldown_cell: ttl_cell "\<lambda>s m (_ :: unit). set_cooldown s m" "flag_read in_cooldown" "\<lambda>_. True"
  by unfold_locales (simp_all add: flag_reads cell_simps)

interpretation signal_cell:
  ttl_cell "\<lambda>s m sg. set_decision_signal s (sg\<lparr>sg_mint := m\<rparr>)"
    "\<lambda>s m now. map_prod id (map_option (\<lambda>sg. sg\<lparr>sg_mint := []\<rparr>)) (get_decision_signal s m now)"
    "\<lambda>sg. sg_mint sg = []"
  by unfold_locales (auto simp: cell_simps case_prod_beta)

text \<open>A refused payload leaves the store as it was.\<close>

definition keep :: "'s \<Rightarrow> 's result \<Rightarrow> 's" where
  "keep s r = (case r of Inl _ \<Rightarrow> s | Inr t \<Rightarrow> t)"

interpretation insider_cell:
  ttl_cell "\<lambda>s m (f, sl) ttl now. keep s (set_insider_dump_flag s m f sl ttl now)" get_insider_dump_detail
    "\<lambda>(f, sl). 0 \<le> f \<and> f \<le> 10000 \<and> 0 \<le> sl"
  by unfold_locales (auto simp: cell_simps keep_def case_prod_beta)

interpretation sellability_cell:
  ttl_cell "\<lambda>s m (w, sl) ttl now. keep s (set_sellability_degraded_flag s m w sl ttl now)"
    get_sellability_degraded_detail "\<lambda>(w, sl). w \<noteq> [] \<and> 0 \<le> sl"
  by unfold_locales (auto simp: cell_simps keep_def case_prod_beta)

interpretation lp_unlock_cell:
  ttl_cell "\<lambda>s m (w, sl) ttl now. keep s (set_lp_unlock_approaching_flag s m w sl ttl now)"
    get_lp_unlock_approaching_detail "\<lambda>(w, sl). w \<noteq> [] \<and> 0 \<le> sl"
  by unfold_locales (auto simp: cell_simps keep_def case_prod_beta)

subsection \<open>Claims: the contract\<close>

definition lock_held :: "store \<Rightarrow> mint \<Rightarrow> millis \<Rightarrow> bool" where
  "lock_held s m now \<longleftrightarrow> get_fsm_lock s m now \<noteq> None"

definition intent_held :: "store \<Rightarrow> client_id \<Rightarrow> millis \<Rightarrow> bool" where
  "intent_held s i now \<longleftrightarrow>
     (case map_of (seen_intents s) i of None \<Rightarrow> False | Some (_, expiry) \<Rightarrow> \<not> is_expired now expiry)"

lemma claim_entering_iff: "snd (claim_entering s m i ttl now) \<longleftrightarrow> \<not> lock_held s m now"
  by (auto simp: claim_entering_def lock_held_def get_fsm_lock_def Let_def split: option.splits)

lemma claim_entering_granted:
  "\<not> lock_held s m now \<Longrightarrow>
     lock_held (fst (claim_entering s m i ttl now)) m t \<longleftrightarrow> t < now + ttl * 1000"
  by (auto simp: claim_entering_def lock_held_def get_fsm_lock_def Let_def ttl_put_def is_expired_def
      split: option.splits)

lemma claim_entering_refused: "lock_held s m now \<Longrightarrow> fst (claim_entering s m i ttl now) = s"
  by (auto simp: claim_entering_def lock_held_def get_fsm_lock_def Let_def split: option.splits if_splits)

lemma claim_entering_other:
  "m' \<noteq> m \<Longrightarrow> lock_held (fst (claim_entering s m i ttl now)) m' t = lock_held s m' t"
  by (auto simp: claim_entering_def lock_held_def get_fsm_lock_def Let_def ttl_put_def split: option.splits)

interpretation lock: once_window claim_entering lock_held
  by unfold_locales
    (simp_all add: claim_entering_iff claim_entering_granted claim_entering_refused claim_entering_other)

interpretation dedup: once_window "\<lambda>s i (_ :: unit). mark_intent_seen s i" intent_held
  by unfold_locales
    (auto simp: mark_intent_seen_def intent_held_def ttl_put_def is_expired_def split: option.splits)

subsection \<open>Positions: the contract\<close>

interpretation table: position_store save_position load_position delete_position
  by unfold_locales (auto simp: save_position_def load_position_def delete_position_def)

definition store_ok :: "store \<Rightarrow> bool" where
  "store_ok s \<longleftrightarrow> distinct (dict_keys (positions s)) \<and> (\<forall>(m, p) \<in> set (positions s). pos_mint p = m)"

lemma dict_set_entries: "x \<in> set (dict_set k v d) \<Longrightarrow> x = (k, v) \<or> x \<in> set d"
  by (induction k v d rule: dict_set.induct) (auto split: if_splits)

lemma store_ok_save: "store_ok s \<Longrightarrow> store_ok (save_position s p)"
  by (auto simp: store_ok_def save_position_def dest!: dict_set_entries)

lemma store_ok_delete: "store_ok s \<Longrightarrow> store_ok (delete_position s m)"
  by (auto simp: store_ok_def delete_position_def dict_pop_def distinct_map_filter)

lemma aggregate_split:
  assumes "store_ok s"
  shows "get_aggregate_open_lamports s =
    get_aggregate_open_lamports (delete_position s m) +
    (case load_position s m of None \<Rightarrow> 0 | Some p \<Rightarrow> sol_in_lamports p)"
proof (cases "load_position s m")
  case None
  then have "m \<notin> set (dict_keys (positions s))" by (simp add: load_position_def map_of_eq_None_iff)
  with None show ?thesis by (simp add: delete_position_def)
next
  case (Some p)
  then have "dict_set m p (positions s) = positions s" by (intro dict_set_same) (simp add: load_position_def)
  with sum_values_dict_set [of "positions s" sol_in_lamports m p] assms Some show ?thesis
    by (simp add: get_aggregate_open_lamports_def delete_position_def store_ok_def comp_def)
qed

lemma aggregate_save:
  assumes "store_ok s"
  shows "get_aggregate_open_lamports (save_position s p) =
    get_aggregate_open_lamports (delete_position s (pos_mint p)) + sol_in_lamports p"
  using sum_values_dict_set [of "positions s" sol_in_lamports "pos_mint p" p] assms
  by (simp add: get_aggregate_open_lamports_def delete_position_def save_position_def store_ok_def comp_def)

lemma aggregate_nonneg_delete:
  assumes "store_ok s" and "\<forall>p \<in> set (load_all_positions s). 0 \<le> sol_in_lamports p"
  shows "get_aggregate_open_lamports (delete_position s m) \<le> get_aggregate_open_lamports s"
proof (cases "load_position s m")
  case (Some p)
  then have "(m, p) \<in> set (positions s)" by (simp add: load_position_def map_of_SomeD)
  then have "0 \<le> sol_in_lamports p" using assms(2) by (force simp: load_all_positions_def)
  with Some aggregate_split [OF assms(1), of m] show ?thesis by simp
qed (use aggregate_split [OF assms(1), of m] in simp)

subsection \<open>Properties\<close>

text \<open>A sequence of claims on one mint, each with its intent, time to live and clock reading.\<close>

fun claim_all :: "store \<Rightarrow> mint \<Rightarrow> (client_id \<times> int \<times> millis) list \<Rightarrow> bool list" where
  "claim_all s m [] = []"
| "claim_all s m ((i, ttl, now) # cs) =
     snd (claim_entering s m i ttl now) # claim_all (fst (claim_entering s m i ttl now)) m cs"

lemma claim_all_grants: "claim_all s m cs = lock.grants s (map (\<lambda>c. (m, c)) cs)"
  by (induction s m cs rule: claim_all.induct) simp_all

text \<open>
  The entry claim is exclusive: of any sequence of claims on a free mint, made at any times
  before the first one's time to live ends, exactly the first is granted; a claim on one mint
  never blocks another mint.
\<close>

theorem entering_claim_exclusive:
  assumes "\<not> lock_held s m now" and "\<forall>(i, ttl, t) \<in> set cs. t < now + ttl0 * 1000"
  shows "claim_all s m ((i0, ttl0, now) # cs) = True # replicate (length cs) False \<and>
    (m' \<noteq> m \<longrightarrow> lock_held (fst (claim_entering s m i0 ttl0 now)) m' t' = lock_held s m' t')"
proof -
  have "lock.grants s (map (\<lambda>c. (m, c)) ((i0, ttl0, now) # cs)) =
      True # replicate (length (map (\<lambda>c. (m, c)) cs)) False"
    by (rule lock.grants_at_most_one [OF _ assms(1)]) (use assms(2) in auto)
  then show ?thesis
    unfolding claim_all_grants by (simp add: claim_entering_other)
qed

theorem entering_claim_exclusive_witness:
  "claim_all empty_store ''m'' [(Cid ''a'' ''m'' [], 30, 0), (Cid ''b'' ''m'' [], 30, 5), (Cid ''c'' ''m'' [], 30, 29999)] =
     [True, False, False]"
  using entering_claim_exclusive [of empty_store "''m''" 0 "[(Cid ''b'' ''m'' [], 30, 5), (Cid ''c'' ''m'' [], 30, 29999)]" 30]
  by (simp add: lock_held_def get_fsm_lock_def empty_store_def)

lemma detail_flags:
  "snd (get_insider_dump_flag s m t) = (snd (get_insider_dump_detail s m t) \<noteq> None)"
  "fst (get_insider_dump_flag s m t) = fst (get_insider_dump_detail s m t)"
  "snd (get_sellability_degraded_flag s m t) = (snd (get_sellability_degraded_detail s m t) \<noteq> None)"
  "fst (get_sellability_degraded_flag s m t) = fst (get_sellability_degraded_detail s m t)"
  "snd (get_lp_unlock_approaching_flag s m t) = (snd (get_lp_unlock_approaching_detail s m t) \<noteq> None)"
  "fst (get_lp_unlock_approaching_flag s m t) = fst (get_lp_unlock_approaching_detail s m t)"
  by (simp_all add: get_insider_dump_flag_def get_sellability_degraded_flag_def
      get_lp_unlock_approaching_flag_def flag_defs case_prod_beta)

lemma narrative_flag_cell:
  "snd (get_narrative_failure_flag s m t) = (snd (flag_read get_narrative_failure_flag s m t) \<noteq> None)"
  "fst (get_narrative_failure_flag s m t) = fst (flag_read get_narrative_failure_flag s m t)"
  by (simp_all add: flag_read_def)

text \<open>
  A catastrophic flag is seen by the FAST loop exactly until it expires: after the narrative,
  insider-dump, sellability or LP-unlock flag of a mint is set, and whatever reads of that flag
  happen in between on any mint, a read at a later time returns true exactly while the time to
  live has not elapsed. Reading cannot clear a live flag.
\<close>

theorem derisk_flags_live_until_expiry:
  assumes "\<forall>(k, t) \<in> set reads. t \<le> t'"
    and "set_insider_dump_flag s m sold event_slot ttl now = Inr s1"
    and "set_sellability_degraded_flag s m why1 event_slot ttl now = Inr s2"
    and "set_lp_unlock_approaching_flag s m why2 event_slot ttl now = Inr s3"
  shows "snd (get_narrative_failure_flag
           (foldl (\<lambda>s (k, t). fst (get_narrative_failure_flag s k t)) (set_narrative_failure_flag s m ttl now) reads) m t')
         = (t' < now + ttl * 1000) \<and>
    snd (get_insider_dump_flag (foldl (\<lambda>s (k, t). fst (get_insider_dump_flag s k t)) s1 reads) m t')
         = (t' < now + ttl * 1000) \<and>
    snd (get_sellability_degraded_flag (foldl (\<lambda>s (k, t). fst (get_sellability_degraded_flag s k t)) s2 reads) m t')
         = (t' < now + ttl * 1000) \<and>
    snd (get_lp_unlock_approaching_flag (foldl (\<lambda>s (k, t). fst (get_lp_unlock_approaching_flag s k t)) s3 reads) m t')
         = (t' < now + ttl * 1000)"
proof -
  have v: "0 \<le> sold \<and> sold \<le> 10000 \<and> 0 \<le> event_slot" "why1 \<noteq> [] \<and> 0 \<le> event_slot" "why2 \<noteq> [] \<and> 0 \<le> event_slot"
    using assms(2-4) by (simp_all add: flag_defs split: if_splits)
  show ?thesis
    using narrative_cell.get_put_reads [OF assms(1), where v = "()" and s = s and k = m and ttl = ttl and now = now]
      insider_cell.get_put_reads [OF assms(1), where v = "(sold, event_slot)" and s = s and k = m and ttl = ttl and now = now]
      sellability_cell.get_put_reads [OF assms(1), where v = "(why1, event_slot)" and s = s and k = m and ttl = ttl and now = now]
      lp_unlock_cell.get_put_reads [OF assms(1), where v = "(why2, event_slot)" and s = s and k = m and ttl = ttl and now = now] v
    by (simp add: detail_flags narrative_flag_cell assms(2-4) keep_def)
qed

theorem derisk_flags_live_until_expiry_witness:
  "snd (get_narrative_failure_flag (set_narrative_failure_flag empty_store ''m'' 120 0) ''m'' 119999)"
proof -
  obtain s1 s2 s3 where "set_insider_dump_flag empty_store ''m'' 1 1 120 0 = Inr s1"
    "set_sellability_degraded_flag empty_store ''m'' ''x'' 1 120 0 = Inr s2"
    "set_lp_unlock_approaching_flag empty_store ''m'' ''y'' 1 120 0 = Inr s3"
    by (simp add: flag_defs)
  from derisk_flags_live_until_expiry [OF _ this, of "[]" 119999] show ?thesis by simp
qed

text \<open>
  Aggregate exposure is exact: saving a position changes the aggregate by its size less the
  size of the position it replaces on that mint, deleting one takes its size away, and both keep
  the table well-formed.
\<close>

theorem aggregate_exposure_exact:
  assumes "store_ok s"
  shows "store_ok (save_position s p) \<and> store_ok (delete_position s m) \<and>
    get_aggregate_open_lamports (save_position s p) =
      get_aggregate_open_lamports s + sol_in_lamports p -
      (case load_position s (pos_mint p) of None \<Rightarrow> 0 | Some q \<Rightarrow> sol_in_lamports q) \<and>
    get_aggregate_open_lamports (delete_position s m) =
      get_aggregate_open_lamports s - (case load_position s m of None \<Rightarrow> 0 | Some q \<Rightarrow> sol_in_lamports q)"
  using aggregate_split [OF assms, of "pos_mint p"] aggregate_split [OF assms, of m] aggregate_save [OF assms, of p]
  by (simp add: store_ok_save [OF assms] store_ok_delete [OF assms])

theorem aggregate_exposure_exact_witness:
  "get_aggregate_open_lamports (delete_position empty_store ''m'') = 0"
  using aggregate_exposure_exact [of empty_store demo_position "''m''"]
  by (simp add: store_ok_def empty_store_def load_position_def get_aggregate_open_lamports_def)

end
