(* ===== verification/Position_FSM.thy ===== *)
theory Position_FSM
  imports State_Store
begin

text \<open>
  The per-position state machine, \<open>aats/controller/fsm.py\<close>. A \<open>PositionFSM\<close> object is its
  position next to the shared store; a method takes both and returns both, or the exception of
  \<open>validate_fsm_transition\<close>, which every transition calls before it changes anything.
  \<open>model_copy\<close> does not run the validators of \<open>Position\<close>. \<open>make_client_intent_id\<close> is the
  pre-image of its hash.
\<close>

subsection \<open>Operations\<close>

definition make_client_intent_id :: "mint \<Rightarrow> int \<Rightarrow> string \<Rightarrow> client_id" where
  "make_client_intent_id m epoch kind = Cid kind m [of_int epoch]"

type_synonym fsm = "store \<times> position"

definition create_entering ::
    "store \<Rightarrow> mint \<Rightarrow> string \<Rightarrow> string \<Rightarrow> int \<Rightarrow> lamports \<Rightarrow> int \<Rightarrow> bps \<Rightarrow> string \<Rightarrow> exit_mode \<Rightarrow>
     int \<Rightarrow> lamports \<Rightarrow> cost_stack \<Rightarrow> fsm result" where
  "create_entering s m token surf eslot sol_in tokens slip label mode tpt hard_stop costs =
     rbind (mk_Position
       \<lparr>pos_mint = m, pos_token = token, pos_surface = surf, fsm_state = ENTERING, entry_slot = eslot,
        sol_in_lamports = sol_in, tokens_out_base = tokens, entry_slippage_bps = slip,
        exit_config_label = label, pos_exit_mode = mode, tp_hit = 0, tp_total = tpt,
        trailing_armed = False, hard_stop_price_lamports = hard_stop,
        realized_pnl_net_lamports = None, unrealized_pnl_net_lamports = 0, cost_breakdown = costs,
        pos_status = Open_status, completeness_status = Complete\<rparr>) (\<lambda>p.
     Inr (save_position s p, p))"

definition transition_to_open :: "fsm \<Rightarrow> fill_result \<Rightarrow> fsm result" where
  "transition_to_open f fill =
     (case f of (s, p) \<Rightarrow>
      rbind (validate_fsm_transition (fsm_state p) OPEN) (\<lambda>_.
      let u = p\<lparr>fsm_state := OPEN, tokens_out_base := tokens_out fill,
                entry_slippage_bps := fl_entry_slippage_bps fill,
                unrealized_pnl_net_lamports := 0, pos_status := Open_status\<rparr> in
      Inr (release_entering (save_position s u) (pos_mint u), u)))"

definition transition_to_vetoed :: "fsm \<Rightarrow> fsm result" where
  "transition_to_vetoed f =
     (case f of (s, p) \<Rightarrow>
      rbind (validate_fsm_transition (fsm_state p) VETOED) (\<lambda>_.
      let u = p\<lparr>fsm_state := VETOED, pos_status := Closed_status, realized_pnl_net_lamports := Some 0\<rparr> in
      Inr (delete_position (release_entering (save_position s u) (pos_mint u)) (pos_mint u), u)))"

definition transition_to_closing :: "fsm \<Rightarrow> fsm result" where
  "transition_to_closing f =
     (case f of (s, p) \<Rightarrow>
      rbind (validate_fsm_transition (fsm_state p) CLOSING) (\<lambda>_.
      let u = p\<lparr>fsm_state := CLOSING\<rparr> in Inr (save_position s u, u)))"

definition transition_to_closed :: "fsm \<Rightarrow> lamports \<Rightarrow> fsm result" where
  "transition_to_closed f realized =
     (case f of (s, p) \<Rightarrow>
      rbind (validate_fsm_transition (fsm_state p) CLOSED) (\<lambda>_.
      let u = p\<lparr>fsm_state := CLOSED, realized_pnl_net_lamports := Some realized,
                pos_status := Closed_status\<rparr> in
      Inr (delete_position (save_position s u) (pos_mint u), u)))"

definition update_unrealized_pnl :: "fsm \<Rightarrow> lamports \<Rightarrow> fsm" where
  "update_unrealized_pnl f x =
     (case f of (s, p) \<Rightarrow> let u = p\<lparr>unrealized_pnl_net_lamports := x\<rparr> in (save_position s u, u))"

definition record_tp_hit :: "fsm \<Rightarrow> fsm" where
  "record_tp_hit f =
     (case f of (s, p) \<Rightarrow> let u = p\<lparr>tp_hit := tp_hit p + 1\<rparr> in (save_position s u, u))"

definition arm_trailing :: "fsm \<Rightarrow> fsm" where
  "arm_trailing f =
     (case f of (s, p) \<Rightarrow>
      if trailing_armed p then f
      else let u = p\<lparr>trailing_armed := True\<rparr> in (save_position s u, u))"

subsection \<open>The step relation\<close>

text \<open>
  The calls the FAST loop makes on a position it tracks: transitions at any time, bookkeeping
  while the position is live; in between, other positions' writes to the store.
\<close>

definition live_state :: "fsm_state \<Rightarrow> bool" where
  "live_state st \<longleftrightarrow> st = ENTERING \<or> st = OPEN \<or> st = CLOSING"

inductive fsm_step :: "fsm \<Rightarrow> fsm \<Rightarrow> bool" where
  opens: "transition_to_open f fill = Inr g \<Longrightarrow> fsm_step f g"
| vetoes: "transition_to_vetoed f = Inr g \<Longrightarrow> fsm_step f g"
| starts_closing: "transition_to_closing f = Inr g \<Longrightarrow> fsm_step f g"
| closes: "transition_to_closed f realized = Inr g \<Longrightarrow> fsm_step f g"
| marks: "live_state (fsm_state (snd f)) \<Longrightarrow> fsm_step f (update_unrealized_pnl f x)"
| hits: "live_state (fsm_state (snd f)) \<Longrightarrow> fsm_step f (record_tp_hit f)"
| arms: "live_state (fsm_state (snd f)) \<Longrightarrow> fsm_step f (arm_trailing f)"
| others: "load_position s' (pos_mint p) = load_position s (pos_mint p) \<Longrightarrow> fsm_step (s, p) (s', p)"

inductive fsm_reachable :: "fsm \<Rightarrow> bool" where
  enters: "create_entering s m token surf eslot sol_in tokens slip label mode tpt hard_stop costs = Inr f \<Longrightarrow>
     fsm_reachable f"
| steps: "fsm_reachable f \<Longrightarrow> fsm_step f g \<Longrightarrow> fsm_reachable g"

text \<open>
  The write-ahead invariant: while a position is live its record in the store is the object's
  own, a finished position has left the store and carries a realized result.
\<close>

definition fsm_inv :: "fsm \<Rightarrow> bool" where
  "fsm_inv f \<longleftrightarrow>
     (case f of (s, p) \<Rightarrow>
        fsm_state p \<noteq> IDLE \<and>
        (if live_state (fsm_state p)
         then load_position s (pos_mint p) = Some p \<and> pos_status p = Open_status
         else load_position s (pos_mint p) = None \<and> pos_status p = Closed_status \<and>
              realized_pnl_net_lamports p \<noteq> None))"

fun fsm_rank :: "fsm_state \<Rightarrow> nat" where
  "fsm_rank IDLE = 0"
| "fsm_rank ENTERING = 1"
| "fsm_rank OPEN = 2"
| "fsm_rank CLOSING = 3"
| "fsm_rank CLOSED = 4"
| "fsm_rank VETOED = 4"

lemma load_release [simp]: "load_position (release_entering s m) m' = load_position s m'"
  by (simp add: release_entering_def load_position_def)

lemmas transition_defs = transition_to_open_def transition_to_vetoed_def transition_to_closing_def
  transition_to_closed_def Let_def validate_fsm_transition_iff result_simps

lemmas bookkeeping_defs = update_unrealized_pnl_def record_tp_hit_def arm_trailing_def Let_def

lemma transition_to_open_iff:
  "transition_to_open (s, p) fill = Inr (s', p') \<longleftrightarrow> fsm_state p = ENTERING \<and>
     p' = p\<lparr>fsm_state := OPEN, tokens_out_base := tokens_out fill,
           entry_slippage_bps := fl_entry_slippage_bps fill, unrealized_pnl_net_lamports := 0,
           pos_status := Open_status\<rparr> \<and> s' = release_entering (save_position s p') (pos_mint p)"
  by (auto simp: transition_defs)

lemma transition_to_vetoed_iff:
  "transition_to_vetoed (s, p) = Inr (s', p') \<longleftrightarrow> fsm_state p = ENTERING \<and>
     p' = p\<lparr>fsm_state := VETOED, pos_status := Closed_status, realized_pnl_net_lamports := Some 0\<rparr> \<and>
     s' = delete_position (release_entering (save_position s p') (pos_mint p)) (pos_mint p)"
  by (auto simp: transition_defs)

lemma transition_to_closing_iff:
  "transition_to_closing (s, p) = Inr (s', p') \<longleftrightarrow>
     fsm_state p = OPEN \<and> p' = p\<lparr>fsm_state := CLOSING\<rparr> \<and> s' = save_position s p'"
  by (auto simp: transition_defs)

lemma transition_to_closed_iff:
  "transition_to_closed (s, p) r = Inr (s', p') \<longleftrightarrow> fsm_state p = CLOSING \<and>
     p' = p\<lparr>fsm_state := CLOSED, realized_pnl_net_lamports := Some r, pos_status := Closed_status\<rparr> \<and>
     s' = delete_position (save_position s p') (pos_mint p)"
  by (auto simp: transition_defs)

lemmas transition_iffs = transition_to_open_iff transition_to_vetoed_iff transition_to_closing_iff
  transition_to_closed_iff

inductive_cases fsm_stepE: "fsm_step (s, p) (s', p')"

lemma fsm_step_inv:
  assumes "fsm_step (s, p) (s', p')" and "fsm_inv (s, p)"
  shows "fsm_inv (s', p')"
  using assms
  by (elim fsm_stepE)
    (auto simp: transition_iffs bookkeeping_defs fsm_inv_def live_state_def table.load_save table.load_del
      split: if_splits)

lemma fsm_step_order:
  assumes "fsm_step (s, p) (s', p')"
  shows "pos_mint p' = pos_mint p \<and> sol_in_lamports p' = sol_in_lamports p \<and>
    (fsm_state p' = fsm_state p \<or> (fsm_state p, fsm_state p') \<in> FSM_LEGAL_TRANSITIONS)"
  using assms
  by (elim fsm_stepE)
    (auto simp: transition_iffs bookkeeping_defs FSM_LEGAL_TRANSITIONS_def split: if_splits)

lemma legal_rank: "(a, b) \<in> FSM_LEGAL_TRANSITIONS \<Longrightarrow> fsm_rank a < fsm_rank b"
  by (auto simp: FSM_LEGAL_TRANSITIONS_def)

lemma reachable_fsm_inv: "fsm_reachable f \<Longrightarrow> fsm_inv f"
proof (induction rule: fsm_reachable.induct)
  case (enters s m token surf eslot sol_in tokens slip label mode tpt hard_stop costs f)
  then show ?case
    by (auto simp: create_entering_def result_simps mk_Position_def fsm_inv_def live_state_def table.load_save)
next
  case (steps f g)
  then show ?case using fsm_step_inv [of "fst f" "snd f" "fst g" "snd g"] by simp
qed

lemma steps_rank: "fsm_step\<^sup>*\<^sup>* f g \<Longrightarrow>
  pos_mint (snd g) = pos_mint (snd f) \<and> sol_in_lamports (snd g) = sol_in_lamports (snd f) \<and>
  fsm_rank (fsm_state (snd f)) \<le> fsm_rank (fsm_state (snd g)) \<and>
  (\<not> live_state (fsm_state (snd f)) \<and> fsm_state (snd f) \<noteq> IDLE \<longrightarrow> fsm_state (snd g) = fsm_state (snd f))"
proof (induction rule: rtranclp_induct)
  case (step g h)
  have "pos_mint (snd h) = pos_mint (snd g) \<and> sol_in_lamports (snd h) = sol_in_lamports (snd g) \<and>
      (fsm_state (snd h) = fsm_state (snd g) \<or> (fsm_state (snd g), fsm_state (snd h)) \<in> FSM_LEGAL_TRANSITIONS)"
    using step.hyps(2) fsm_step_order [of "fst g" "snd g" "fst h" "snd h"] by simp
  with step.IH legal_rank [of "fsm_state (snd g)" "fsm_state (snd h)"] show ?case
    by (auto simp: FSM_LEGAL_TRANSITIONS_def live_state_def)
qed simp

subsection \<open>Properties\<close>



text \<open>
  The machine never goes back: along every run the mint and the committed size are fixed, the
  stage never decreases, and a closed or vetoed position stays so.
\<close>

theorem fsm_never_goes_back:
  assumes "fsm_step\<^sup>*\<^sup>* (s, p) (s', p')"
  shows "pos_mint p' = pos_mint p \<and> sol_in_lamports p' = sol_in_lamports p \<and>
    fsm_rank (fsm_state p) \<le> fsm_rank (fsm_state p') \<and>
    (fsm_state p \<in> {CLOSED, VETOED} \<longrightarrow> fsm_state p' = fsm_state p)"
  using steps_rank [OF assms] by (auto simp: live_state_def)

theorem fsm_never_goes_back_witness:
  "fsm_rank OPEN \<le> fsm_rank (fsm_state (snd (record_tp_hit (empty_store, demo_position))))"
proof -
  have "fsm_step (empty_store, demo_position) (record_tp_hit (empty_store, demo_position))"
    by (rule fsm_step.hits) (simp add: live_state_def demo_position_def)
  then have "fsm_step\<^sup>*\<^sup>* (empty_store, demo_position)
      (fst (record_tp_hit (empty_store, demo_position)), snd (record_tp_hit (empty_store, demo_position)))"
    by simp
  from fsm_never_goes_back [OF this] show ?thesis by (simp add: demo_position_def)
qed

text \<open>
  Illegal transitions raise: each transition method succeeds exactly from its own source
  state and raises \<open>ValueError\<close> from every other.
\<close>

theorem illegal_transitions_raise:
  "((\<exists>g. transition_to_open (s, p) fill = Inr g) \<longleftrightarrow> fsm_state p = ENTERING) \<and>
   (fsm_state p \<noteq> ENTERING \<longleftrightarrow> transition_to_open (s, p) fill = Inl ValueError) \<and>
   ((\<exists>g. transition_to_vetoed (s, p) = Inr g) \<longleftrightarrow> fsm_state p = ENTERING) \<and>
   (fsm_state p \<noteq> ENTERING \<longleftrightarrow> transition_to_vetoed (s, p) = Inl ValueError) \<and>
   ((\<exists>g. transition_to_closing (s, p) = Inr g) \<longleftrightarrow> fsm_state p = OPEN) \<and>
   (fsm_state p \<noteq> OPEN \<longleftrightarrow> transition_to_closing (s, p) = Inl ValueError) \<and>
   ((\<exists>g. transition_to_closed (s, p) r = Inr g) \<longleftrightarrow> fsm_state p = CLOSING) \<and>
   (fsm_state p \<noteq> CLOSING \<longleftrightarrow> transition_to_closed (s, p) r = Inl ValueError)"
  by (cases "fsm_state p")
    (simp_all add: transition_to_open_def transition_to_vetoed_def transition_to_closing_def
      transition_to_closed_def validate_fsm_transition_def FSM_LEGAL_TRANSITIONS_def Let_def)

text \<open>
  Bookkeeping on a finished position brings it back: \<open>record_tp_hit\<close> and
  \<open>update_unrealized_pnl\<close> have no state guard, so calling them on a closed position that has left
  the store saves it again, and its size counts towards the aggregate exposure once more.
\<close>

theorem bookkeeping_resurrects_closed_position:
  assumes "store_ok s" and "transition_to_closed (s, p) r = Inr (s1, p1)"
    and "(s2, p2) \<in> {record_tp_hit (s1, p1), update_unrealized_pnl (s1, p1) x}"
  shows "load_position s1 (pos_mint p) = None \<and> load_position s2 (pos_mint p) = Some p2 \<and>
    fsm_state p2 = CLOSED \<and>
    get_aggregate_open_lamports s2 = get_aggregate_open_lamports s1 + sol_in_lamports p"
proof -
  have s1: "s1 = delete_position (save_position s p1) (pos_mint p)" "pos_mint p1 = pos_mint p"
    "fsm_state p1 = CLOSED" "sol_in_lamports p1 = sol_in_lamports p"
    using assms(2) by (auto simp: transition_to_closed_iff)
  then have none: "load_position s1 (pos_mint p) = None" and ok: "store_ok s1"
    using assms(1) by (simp_all add: table.load_del store_ok_save store_ok_delete)
  have s2: "s2 = save_position s1 p2" "pos_mint p2 = pos_mint p" "fsm_state p2 = CLOSED"
    "sol_in_lamports p2 = sol_in_lamports p"
    using assms(3) s1(2-4) by (auto simp: bookkeeping_defs)
  have "get_aggregate_open_lamports (delete_position s1 (pos_mint p)) = get_aggregate_open_lamports s1"
    using aggregate_split [OF ok, of "pos_mint p"] none by simp
  with aggregate_save [OF ok, of p2] s2 none show ?thesis by (simp add: table.load_save)
qed

theorem bookkeeping_resurrects_closed_position_witness:
  "\<exists>s1 p1. transition_to_closed (empty_store, demo_position\<lparr>fsm_state := CLOSING\<rparr>) 0 = Inr (s1, p1) \<and>
     get_aggregate_open_lamports (fst (record_tp_hit (s1, p1))) = get_aggregate_open_lamports s1 + 1000"
proof -
  obtain s1 p1 where t: "transition_to_closed (empty_store, demo_position\<lparr>fsm_state := CLOSING\<rparr>) 0 = Inr (s1, p1)"
    using transition_to_closed_iff by fastforce
  have "store_ok empty_store" by (simp add: store_ok_def empty_store_def)
  from bookkeeping_resurrects_closed_position [OF this t, of "fst (record_tp_hit (s1, p1))" "snd (record_tp_hit (s1, p1))"] t
  show ?thesis by (auto simp: demo_position_def)
qed

end
