(* ===== verification/Exit_Engine.thy ===== *)
theory Exit_Engine
  imports Stop_Rules
begin

text \<open>
  The stateful exit engine, \<open>aats/risk/exit_engine.py\<close>: the take-profit ladder, the profit-lock
  ratchet, the trailing stop, the hard stop, the timeout, the stale-narrative time stop and the
  catastrophic flags. Prices and multiples are Decimals (theory \<open>Rounding\<close>); the one float
  division of \<open>_scale_out\<close> is kept as a rounded binary64 division. A dataclass with
  \<open>__post_init__\<close> checks is a record with a checking constructor \<open>mk_*\<close>.
\<close>

subsection \<open>Routing and slippage models\<close>

record mev_slippage_model =
  msm_exit_slippage_bps :: bps
  sandwich_p_bps :: bps
  sandwich_loss_bps :: bps

definition mk_MevSlippageModel :: "mev_slippage_model \<Rightarrow> mev_slippage_model result" where
  "mk_MevSlippageModel m =
     (if msm_exit_slippage_bps m < 0 \<or> sandwich_p_bps m < 0 \<or> sandwich_loss_bps m < 0
      then Inl ValueError
      else if sandwich_p_bps m > 10000 then Inl ValueError
      else Inr m)"

definition slippage_model_for :: "exit_mode \<Rightarrow> mev_slippage_model" where
  "slippage_model_for mode =
     (if mode = Fast
      then \<lparr>msm_exit_slippage_bps = 150, sandwich_p_bps = 3000, sandwich_loss_bps = 1200\<rparr>
      else \<lparr>msm_exit_slippage_bps = 250, sandwich_p_bps = 800, sandwich_loss_bps = 400\<rparr>)"

subsection \<open>Configuration\<close>

record tp_rung =
  trigger_r :: decimal
  rung_fraction_bps :: bps

definition mk_TpRung :: "tp_rung \<Rightarrow> tp_rung result" where
  "mk_TpRung g =
     (if trigger_r g \<le> 0 then Inl ValueError
      else if \<not> (1 \<le> rung_fraction_bps g \<and> rung_fraction_bps g \<le> 9999) then Inl ValueError
      else Inr g)"

record ratchet_rung =
  at_r :: decimal
  lock_r :: decimal

definition mk_RatchetRung :: "ratchet_rung \<Rightarrow> ratchet_rung result" where
  "mk_RatchetRung g =
     (if at_r g \<le> 1 then Inl ValueError
      else if lock_r g \<le> 0 then Inl ValueError
      else if lock_r g \<ge> at_r g then Inl ValueError
      else Inr g)"

record exit_config =
  xc_label :: string
  tp_ladder :: "tp_rung list"
  hard_stop_r :: decimal
  trail_arm_r :: decimal
  trail_drawdown_bps :: bps
  max_hold_steps :: int
  ratchet_ladder :: "ratchet_rung list"
  time_stop_hours :: "int option"
  time_stop_flat_band_bps :: bps
  time_stop_narrative_cooled_at :: decimal
  default_exit_mode :: exit_mode

text \<open>The validation loops of \<open>__post_init__\<close>: the previous rung is carried along.\<close>

fun check_tp_ladder :: "decimal \<Rightarrow> int \<Rightarrow> tp_rung list \<Rightarrow> int result" where
  "check_tp_ladder prev cumulative [] = Inr cumulative"
| "check_tp_ladder prev cumulative (g # gs) =
     (if trigger_r g \<le> prev then Inl ValueError
      else check_tp_ladder (trigger_r g) (cumulative + rung_fraction_bps g) gs)"

fun check_ratchet_ladder :: "decimal \<Rightarrow> decimal \<Rightarrow> ratchet_rung list \<Rightarrow> unit result" where
  "check_ratchet_ladder prev_at prev_lock [] = Inr ()"
| "check_ratchet_ladder prev_at prev_lock (g # gs) =
     (if at_r g \<le> prev_at then Inl ValueError
      else if lock_r g \<le> prev_lock then Inl ValueError
      else check_ratchet_ladder (at_r g) (lock_r g) gs)"

definition mk_ExitConfig :: "exit_config \<Rightarrow> exit_config result" where
  "mk_ExitConfig c =
     (if xc_label c = [] then Inl ValueError
      else if \<not> (0 < hard_stop_r c \<and> hard_stop_r c < 1) then Inl ValueError
      else if trail_arm_r c \<le> 1 then Inl ValueError
      else if \<not> (0 < trail_drawdown_bps c \<and> trail_drawdown_bps c < 10000) then Inl ValueError
      else if max_hold_steps c \<le> 0 then Inl ValueError
      else if (case time_stop_hours c of None \<Rightarrow> False | Some h \<Rightarrow> h \<le> 0) then Inl ValueError
      else if \<not> (0 < time_stop_flat_band_bps c \<and> time_stop_flat_band_bps c \<le> 10000) then Inl ValueError
      else if \<not> (0 \<le> time_stop_narrative_cooled_at c \<and> time_stop_narrative_cooled_at c \<le> 1)
      then Inl ValueError
      else if tp_ladder c = [] then Inl ValueError
      else rbind (check_tp_ladder 0 0 (tp_ladder c)) (\<lambda>cumulative.
           if cumulative > 10000 then Inl ValueError
           else rbind (check_ratchet_ladder 0 0 (ratchet_ladder c)) (\<lambda>_. Inr c)))"

definition stop_thresholds :: "exit_config \<Rightarrow> bps result" where
  "stop_thresholds c = mk_StopThresholds (trunc (dmul (dsub 1 (hard_stop_r c)) 10000))"

subsection \<open>Presets\<close>

definition BALANCED_LADDER :: "tp_rung list" where
  "BALANCED_LADDER =
     [\<lparr>trigger_r = 3 / 2, rung_fraction_bps = 3000\<rparr>,
      \<lparr>trigger_r = 3, rung_fraction_bps = 3000\<rparr>,
      \<lparr>trigger_r = 6, rung_fraction_bps = 2000\<rparr>]"

definition BALANCED_RATCHET :: "ratchet_rung list" where
  "BALANCED_RATCHET =
     [\<lparr>at_r = 3 / 2, lock_r = 9 / 10\<rparr>, \<lparr>at_r = 2, lock_r = 1\<rparr>,
      \<lparr>at_r = 3, lock_r = 2\<rparr>, \<lparr>at_r = 6, lock_r = 4\<rparr>]"

definition secure_balanced :: exit_config where
  "secure_balanced =
     \<lparr>xc_label = ''secure_balanced'', tp_ladder = BALANCED_LADDER, hard_stop_r = 3 / 5,
      trail_arm_r = 2, trail_drawdown_bps = 3000, max_hold_steps = 24,
      ratchet_ladder = BALANCED_RATCHET, time_stop_hours = None, time_stop_flat_band_bps = 1500,
      time_stop_narrative_cooled_at = 0, default_exit_mode = Secure\<rparr>"

definition secure_conservative :: exit_config where
  "secure_conservative =
     \<lparr>xc_label = ''secure_conservative'',
      tp_ladder =
        [\<lparr>trigger_r = 13 / 10, rung_fraction_bps = 4000\<rparr>,
         \<lparr>trigger_r = 2, rung_fraction_bps = 3500\<rparr>,
         \<lparr>trigger_r = 4, rung_fraction_bps = 2000\<rparr>],
      hard_stop_r = 7 / 10, trail_arm_r = 3 / 2, trail_drawdown_bps = 2000, max_hold_steps = 16,
      ratchet_ladder =
        [\<lparr>at_r = 13 / 10, lock_r = 19 / 20\<rparr>, \<lparr>at_r = 3 / 2, lock_r = 1\<rparr>,
         \<lparr>at_r = 2, lock_r = 7 / 5\<rparr>, \<lparr>at_r = 4, lock_r = 3\<rparr>],
      time_stop_hours = None, time_stop_flat_band_bps = 1500,
      time_stop_narrative_cooled_at = 0, default_exit_mode = Secure\<rparr>"

definition secure_runner :: exit_config where
  "secure_runner =
     \<lparr>xc_label = ''secure_runner'',
      tp_ladder =
        [\<lparr>trigger_r = 2, rung_fraction_bps = 2000\<rparr>,
         \<lparr>trigger_r = 5, rung_fraction_bps = 2500\<rparr>,
         \<lparr>trigger_r = 10, rung_fraction_bps = 2500\<rparr>],
      hard_stop_r = 11 / 20, trail_arm_r = 3, trail_drawdown_bps = 3500, max_hold_steps = 30,
      ratchet_ladder =
        [\<lparr>at_r = 2, lock_r = 9 / 10\<rparr>, \<lparr>at_r = 3, lock_r = 1\<rparr>,
         \<lparr>at_r = 5, lock_r = 5 / 2\<rparr>, \<lparr>at_r = 10, lock_r = 6\<rparr>],
      time_stop_hours = None, time_stop_flat_band_bps = 1500,
      time_stop_narrative_cooled_at = 0, default_exit_mode = Secure\<rparr>"

definition AUTO_STRAT_PRESETS :: "(string \<times> exit_config) list" where
  "AUTO_STRAT_PRESETS =
     [(''secure_balanced'', secure_balanced),
      (''fast_balanced'',
       secure_balanced\<lparr>xc_label := ''fast_balanced'', default_exit_mode := Fast\<rparr>),
      (''secure_conservative'', secure_conservative),
      (''secure_balanced_timestop'',
       secure_balanced\<lparr>xc_label := ''secure_balanced_timestop'', time_stop_hours := Some 6,
                       time_stop_narrative_cooled_at := 1 / 5\<rparr>),
      (''secure_runner'', secure_runner)]"

definition preset :: "string option \<Rightarrow> exit_config result" where
  "preset label =
     (let l = (case label of None \<Rightarrow> ''secure_balanced'' | Some l \<Rightarrow> l) in
      case map_of AUTO_STRAT_PRESETS l of None \<Rightarrow> Inl KeyError | Some c \<Rightarrow> Inr c)"

subsection \<open>Lifecycle state\<close>

record exit_state =
  xs_mint :: mint
  xs_entry_fill_price :: decimal
  xs_stop :: stop_state
  remaining_bps :: bps
  fired_rungs :: "nat set"
  peak_r :: decimal
  armed :: bool
  steps_held :: int
  locked_floor_r :: decimal
  fired_ratchet_rungs :: "nat set"
  entry_block_time_ms :: millis
  last_active_block_time_ms :: millis

definition mk_ExitState :: "exit_state \<Rightarrow> exit_state result" where
  "mk_ExitState s =
     (if xs_entry_fill_price s \<le> 0 then Inl ValueError
      else if \<not> (0 \<le> remaining_bps s \<and> remaining_bps s \<le> 10000) then Inl ValueError
      else if st_mint (xs_stop s) \<noteq> xs_mint s then Inl ValueError
      else if steps_held s < 0 then Inl ValueError
      else if locked_floor_r s < 0 then Inl ValueError
      else if entry_block_time_ms s < -1 \<or> last_active_block_time_ms s < -1 then Inl ValueError
      else Inr s)"

definition exit_state_at_entry :: "mint \<Rightarrow> decimal \<Rightarrow> exit_config \<Rightarrow> exit_state result" where
  "exit_state_at_entry m entry c =
     rbind (stop_thresholds c) (\<lambda>th.
     rbind (stop_at_entry m entry (Some th)) (\<lambda>stop.
     mk_ExitState
       \<lparr>xs_mint = m, xs_entry_fill_price = entry, xs_stop = stop, remaining_bps = 10000,
        fired_rungs = {}, peak_r = 1, armed = False, steps_held = 0, locked_floor_r = 0,
        fired_ratchet_rungs = {}, entry_block_time_ms = -1, last_active_block_time_ms = -1\<rparr>))"

definition realized_r :: "exit_state \<Rightarrow> decimal \<Rightarrow> decimal" where
  "realized_r s mark = ddiv mark (xs_entry_fill_price s)"

text \<open>\<open>_replace\<close>: the changed state is refused when it grows the position or lowers the floor.\<close>

definition exit_replace :: "exit_state \<Rightarrow> exit_state \<Rightarrow> exit_state result" where
  "exit_replace old new =
     (if remaining_bps new > remaining_bps old then Inl ValueError
      else if locked_floor_r new < locked_floor_r old then Inl ValueError
      else mk_ExitState new)"

subsection \<open>Decisions\<close>

datatype exit_reason =
    NONE
  | NARRATIVE_FAILURE
  | INSIDER_DUMP
  | SELLABILITY_DEGRADED
  | LP_UNLOCK_APPROACHING
  | HARD_STOP
  | RATCHET_STOP
  | TRAILING_STOP
  | TIMEOUT
  | STALE_NARRATIVE_TIME_STOP
  | TAKE_PROFIT

fun exit_reason_value :: "exit_reason \<Rightarrow> string" where
  "exit_reason_value NONE = ''none''"
| "exit_reason_value NARRATIVE_FAILURE = ''narrative_failure''"
| "exit_reason_value INSIDER_DUMP = ''insider_dump''"
| "exit_reason_value SELLABILITY_DEGRADED = ''sellability_degraded''"
| "exit_reason_value LP_UNLOCK_APPROACHING = ''lp_unlock_approaching''"
| "exit_reason_value HARD_STOP = ''hard_stop''"
| "exit_reason_value RATCHET_STOP = ''ratchet_stop''"
| "exit_reason_value TRAILING_STOP = ''trailing_stop''"
| "exit_reason_value TIMEOUT = ''timeout''"
| "exit_reason_value STALE_NARRATIVE_TIME_STOP = ''stale_narrative_time_stop''"
| "exit_reason_value TAKE_PROFIT = ''take_profit''"

record exit_decision =
  ed_reason :: exit_reason
  ed_intent :: "intent option"
  ed_next_state :: exit_state
  ed_fraction_bps :: bps
  ed_exit_mode :: "exit_mode option"

definition is_full_exit :: "exit_decision \<Rightarrow> bool" where
  "is_full_exit d = (case ed_intent d of Some (Exit _) \<Rightarrow> True | _ \<Rightarrow> False)"

record exit_tick =
  tk_mark_price :: decimal
  tk_block_time_ms :: millis
  tk_narrative_failure :: bool
  tk_insider_dump :: bool
  tk_sellability_degraded :: bool
  tk_lp_unlock_approaching :: bool
  tk_narrative_score :: "decimal option"

subsection \<open>Rule helpers\<close>

fun scan_ratchet :: "decimal \<Rightarrow> nat \<Rightarrow> ratchet_rung list \<Rightarrow> decimal \<Rightarrow> nat set \<Rightarrow> decimal \<times> nat set" where
  "scan_ratchet peak idx [] new_floor engaged = (new_floor, engaged)"
| "scan_ratchet peak idx (g # gs) new_floor engaged =
     (if peak \<ge> at_r g
      then scan_ratchet peak (Suc idx) gs (if lock_r g > new_floor then lock_r g else new_floor)
             (insert idx engaged)
      else scan_ratchet peak (Suc idx) gs new_floor engaged)"

definition advance_ratchet :: "exit_config \<Rightarrow> exit_state \<Rightarrow> exit_state result" where
  "advance_ratchet c s =
     (if ratchet_ladder c = [] then Inr s
      else case scan_ratchet (peak_r s) 0 (ratchet_ladder c) (locked_floor_r s) (fired_ratchet_rungs s) of
        (new_floor, engaged) \<Rightarrow>
          if new_floor = locked_floor_r s \<and> engaged = fired_ratchet_rungs s then Inr s
          else exit_replace s (s\<lparr>locked_floor_r := new_floor, fired_ratchet_rungs := engaged\<rparr>))"

fun scan_rungs ::
    "nat set \<Rightarrow> decimal \<Rightarrow> nat \<Rightarrow> tp_rung list \<Rightarrow> nat option \<Rightarrow> decimal \<Rightarrow> nat option" where
  "scan_rungs fired r idx [] best best_trigger = best"
| "scan_rungs fired r idx (g # gs) best best_trigger =
     (if idx \<in> fired then scan_rungs fired r (Suc idx) gs best best_trigger
      else if r \<ge> trigger_r g \<and> trigger_r g > best_trigger
      then scan_rungs fired r (Suc idx) gs (Some idx) (trigger_r g)
      else scan_rungs fired r (Suc idx) gs best best_trigger)"

definition highest_hit_rung :: "exit_config \<Rightarrow> exit_state \<Rightarrow> decimal \<Rightarrow> nat option" where
  "highest_hit_rung c s r = scan_rungs (fired_rungs s) r 0 (tp_ladder c) None 0"

definition coerce_narrative_score :: "decimal option \<Rightarrow> decimal option result" where
  "coerce_narrative_score v =
     (case v of
        None \<Rightarrow> Inr None
      | Some score \<Rightarrow> if 0 \<le> score \<and> score \<le> 1 then Inr (Some score) else Inl ValueError)"

definition advance_flat_clock :: "exit_config \<Rightarrow> exit_state \<Rightarrow> decimal \<Rightarrow> millis \<Rightarrow> exit_state result" where
  "advance_flat_clock c s r bt =
     (if entry_block_time_ms s < 0
      then exit_replace s (s\<lparr>entry_block_time_ms := bt, last_active_block_time_ms := bt\<rparr>)
      else if dmul \<bar>dsub r 1\<bar> 10000 > of_int (time_stop_flat_band_bps c)
      then exit_replace s (s\<lparr>last_active_block_time_ms := bt\<rparr>)
      else Inr s)"

definition time_stop_detail :: "exit_config \<Rightarrow> exit_state \<Rightarrow> decimal option \<Rightarrow> millis \<Rightarrow> audit option" where
  "time_stop_detail c s narrative_score bt =
     (case time_stop_hours c of
        None \<Rightarrow> None
      | Some hours \<Rightarrow>
          (case narrative_score of
             None \<Rightarrow> None
           | Some score \<Rightarrow>
               if score > time_stop_narrative_cooled_at c then None
               else if last_active_block_time_ms s < 0 then None
               else let flat_ms = bt - last_active_block_time_ms s in
                    if flat_ms < 0 then None
                    else if flat_ms < hours * 3600000 then None
                    else Some (Audit ''flat and narrative cooled''
                                 [ddiv (of_int flat_ms) 3600000, of_int hours,
                                  of_int (time_stop_flat_band_bps c), score,
                                  time_stop_narrative_cooled_at c])))"

subsection \<open>Building the decision\<close>

definition exit_hold :: "exit_state \<Rightarrow> exit_decision" where
  "exit_hold s = \<lparr>ed_reason = NONE, ed_intent = None, ed_next_state = s, ed_fraction_bps = 0,
                  ed_exit_mode = None\<rparr>"

definition full_exit :: "exit_state \<Rightarrow> millis \<Rightarrow> exit_reason \<Rightarrow> audit \<Rightarrow> exit_decision result" where
  "full_exit s bt why detail =
     rbind (factory_exit (Cid (''exit_eng:'' @ exit_reason_value why) (xs_mint s) [of_int bt])
              (xs_mint s) 10000 Secure detail) (\<lambda>x.
     rbind (exit_replace s (s\<lparr>remaining_bps := 0\<rparr>)) (\<lambda>t.
     Inr \<lparr>ed_reason = why, ed_intent = Some x, ed_next_state = t, ed_fraction_bps = 10000,
          ed_exit_mode = Some Secure\<rparr>))"

definition sold_of_original :: "bps \<Rightarrow> bps \<Rightarrow> bps" where
  "sold_of_original remaining reduce = trunc (flt (of_int (remaining * reduce) / 10000))"

definition scale_out :: "exit_config \<Rightarrow> exit_state \<Rightarrow> millis \<Rightarrow> nat \<Rightarrow> exit_decision result" where
  "scale_out c s bt rung_idx =
     (let rung = tp_ladder c ! rung_idx;
          reduce = min (rung_fraction_bps rung) (remaining_bps s);
          mode = default_exit_mode c;
          cid = Cid ''exit_eng:tp'' (xs_mint s) [of_int bt, trigger_r rung];
          why = Audit ''take_profit'' [trigger_r rung, of_int reduce];
          new_remaining = remaining_bps s - sold_of_original (remaining_bps s) reduce in
      rbind (exit_replace s (s\<lparr>remaining_bps := new_remaining,
                               fired_rungs := insert rung_idx (fired_rungs s)\<rparr>)) (\<lambda>next_state.
      if new_remaining \<le> 0
      then rbind (factory_exit cid (xs_mint s) 10000 mode why) (\<lambda>x.
           rbind (exit_replace s (s\<lparr>remaining_bps := 0,
                                    fired_rungs := insert rung_idx (fired_rungs s)\<rparr>)) (\<lambda>t.
           Inr \<lparr>ed_reason = TAKE_PROFIT, ed_intent = Some x, ed_next_state = t,
                ed_fraction_bps = 10000, ed_exit_mode = Some mode\<rparr>))
      else rbind (factory_reduce cid (xs_mint s) reduce why) (\<lambda>x.
           Inr \<lparr>ed_reason = TAKE_PROFIT, ed_intent = Some x, ed_next_state = next_state,
                ed_fraction_bps = reduce, ed_exit_mode = Some mode\<rparr>)))"

subsection \<open>One tick\<close>

text \<open>
  \<open>exit_stepped\<close> is the state part of \<open>on_tick\<close> (peak, step counter, arming, ratchet, flat
  clock); \<open>exit_decide\<close> is the ordered cascade of rules on the stepped state.
\<close>

definition exit_stepped :: "exit_config \<Rightarrow> exit_state \<Rightarrow> decimal \<Rightarrow> millis \<Rightarrow> exit_state result" where
  "exit_stepped c s r bt =
     rbind (exit_replace s (s\<lparr>peak_r := (if r > peak_r s then r else peak_r s),
                              steps_held := steps_held s + 1\<rparr>)) (\<lambda>s1.
     rbind (if \<not> armed s1 \<and> r \<ge> trail_arm_r c then exit_replace s1 (s1\<lparr>armed := True\<rparr>) else Inr s1) (\<lambda>s2.
     rbind (advance_ratchet c s2) (\<lambda>s3.
     advance_flat_clock c s3 r bt)))"

definition trail_floor_r :: "exit_config \<Rightarrow> exit_state \<Rightarrow> decimal" where
  "trail_floor_r c s = ddiv (dmul (peak_r s) (dsub 10000 (of_int (trail_drawdown_bps c)))) 10000"

definition exit_decide ::
    "exit_config \<Rightarrow> exit_state \<Rightarrow> exit_tick \<Rightarrow> decimal option \<Rightarrow> decimal \<Rightarrow> exit_decision result" where
  "exit_decide c s tk narr_score r =
     (let bt = tk_block_time_ms tk; mark = tk_mark_price tk in
      if tk_narrative_failure tk
      then full_exit s bt NARRATIVE_FAILURE (Audit ''narrative_failure'' [])
      else if tk_insider_dump tk
      then full_exit s bt INSIDER_DUMP (Audit ''insider_dump'' [])
      else if tk_sellability_degraded tk
      then full_exit s bt SELLABILITY_DEGRADED (Audit ''sellability_degraded'' [])
      else if tk_lp_unlock_approaching tk
      then full_exit s bt LP_UNLOCK_APPROACHING (Audit ''lp_unlock_approaching'' [])
      else if is_breached (xs_stop s) mark
      then full_exit s bt HARD_STOP (Audit ''hard_stop'' [mark, trigger_price (xs_stop s)])
      else if locked_floor_r s > 0 \<and> r \<le> locked_floor_r s
      then full_exit s bt RATCHET_STOP (Audit ''ratchet_stop'' [r, locked_floor_r s])
      else if armed s \<and> r \<le> trail_floor_r c s
      then full_exit s bt TRAILING_STOP
             (Audit ''trailing_stop'' [r, trail_floor_r c s, peak_r s, of_int (trail_drawdown_bps c)])
      else if steps_held s \<ge> max_hold_steps c
      then full_exit s bt TIMEOUT (Audit ''timeout'' [of_int (max_hold_steps c)])
      else case time_stop_detail c s narr_score bt of
          Some detail \<Rightarrow> full_exit s bt STALE_NARRATIVE_TIME_STOP detail
        | None \<Rightarrow>
            (case highest_hit_rung c s r of
               Some idx \<Rightarrow> scale_out c s bt idx
             | None \<Rightarrow> Inr (exit_hold s)))"

definition exit_on_tick :: "exit_config \<Rightarrow> exit_state \<Rightarrow> exit_tick \<Rightarrow> exit_decision result" where
  "exit_on_tick c s tk =
     (if tk_block_time_ms tk < 0 then Inl ValueError
      else rbind (coerce_narrative_score (tk_narrative_score tk)) (\<lambda>narr_score.
        if remaining_bps s \<le> 0 then Inr (exit_hold s)
        else let r = realized_r s (tk_mark_price tk) in
             rbind (exit_stepped c s r (tk_block_time_ms tk)) (\<lambda>stepped.
             exit_decide c stepped tk narr_score r)))"

subsection \<open>Well-formedness\<close>

definition exit_state_ok :: "exit_state \<Rightarrow> bool" where
  "exit_state_ok s \<longleftrightarrow>
     0 < xs_entry_fill_price s \<and> 0 \<le> remaining_bps s \<and> remaining_bps s \<le> 10000 \<and>
     st_mint (xs_stop s) = xs_mint s \<and> 0 \<le> steps_held s \<and> 0 \<le> locked_floor_r s \<and>
     -1 \<le> entry_block_time_ms s \<and> -1 \<le> last_active_block_time_ms s"

definition exit_config_ok :: "exit_config \<Rightarrow> bool" where
  "exit_config_ok c \<longleftrightarrow>
     mk_ExitConfig c = Inr c \<and> (\<forall>g \<in> set (tp_ladder c). mk_TpRung g = Inr g) \<and>
     (\<forall>g \<in> set (ratchet_ladder c). mk_RatchetRung g = Inr g)"

definition exit_tick_ok :: "exit_tick \<Rightarrow> bool" where
  "exit_tick_ok tk \<longleftrightarrow>
     0 \<le> tk_block_time_ms tk \<and> (\<forall>x. tk_narrative_score tk = Some x \<longrightarrow> 0 \<le> x \<and> x \<le> 1)"

lemma mk_ExitState_iff: "mk_ExitState s = Inr t \<longleftrightarrow> t = s \<and> exit_state_ok s"
  by (auto simp: mk_ExitState_def exit_state_ok_def)

lemma exit_replace_iff:
  "exit_replace old new = Inr t \<longleftrightarrow>
     t = new \<and> exit_state_ok new \<and> remaining_bps new \<le> remaining_bps old \<and>
     locked_floor_r old \<le> locked_floor_r new"
  by (auto simp: exit_replace_def mk_ExitState_iff)

lemma exit_replace_ok:
  "exit_state_ok new \<Longrightarrow> remaining_bps new \<le> remaining_bps old \<Longrightarrow>
   locked_floor_r old \<le> locked_floor_r new \<Longrightarrow> exit_replace old new = Inr new"
  by (simp add: exit_replace_iff)

lemma tp_rung_bounds:
  assumes "exit_config_ok c" and "g \<in> set (tp_ladder c)"
  shows "0 < trigger_r g" "1 \<le> rung_fraction_bps g" "rung_fraction_bps g \<le> 9999"
proof -
  have "mk_TpRung g = Inr g" using assms by (simp add: exit_config_ok_def)
  then show "0 < trigger_r g" "1 \<le> rung_fraction_bps g" "rung_fraction_bps g \<le> 9999"
    by (simp_all add: mk_TpRung_def split: if_splits)
qed

lemma ratchet_rung_bounds:
  assumes "exit_config_ok c" and "g \<in> set (ratchet_ladder c)"
  shows "1 < at_r g" "0 < lock_r g" "lock_r g < at_r g"
proof -
  have "mk_RatchetRung g = Inr g" using assms by (simp add: exit_config_ok_def)
  then show "1 < at_r g" "0 < lock_r g" "lock_r g < at_r g"
    by (simp_all add: mk_RatchetRung_def split: if_splits)
qed

lemma exit_config_bounds:
  assumes "exit_config_ok c"
  shows "0 < hard_stop_r c" "hard_stop_r c < 1" "1 < trail_arm_r c" "0 < trail_drawdown_bps c"
    "trail_drawdown_bps c < 10000" "0 < max_hold_steps c"
  using assms by (simp_all add: exit_config_ok_def mk_ExitConfig_def split: if_splits)

subsection \<open>Facts about the state step\<close>

lemma scan_ratchet_facts:
  assumes "scan_ratchet peak idx gs fl en = (fl', en')"
  shows "fl \<le> fl' \<and> en \<subseteq> en' \<and> (\<forall>g \<in> set gs. at_r g \<le> peak \<longrightarrow> lock_r g \<le> fl') \<and>
    (fl' = fl \<or> (\<exists>g \<in> set gs. at_r g \<le> peak \<and> fl' = lock_r g))"
  using assms
proof (induction peak idx gs fl en rule: scan_ratchet.induct)
  case (2 peak idx g gs fl en)
  show ?case
  proof (cases "at_r g \<le> peak")
    case True
    with "2.prems" "2.IH"(1) show ?thesis by (fastforce split: if_splits)
  next
    case False
    with "2.prems" "2.IH"(2) show ?thesis by auto
  qed
qed simp

lemma advance_ratchet_returns:
  assumes "exit_state_ok s"
  shows "\<exists>t. advance_ratchet c s = Inr t \<and> exit_state_ok t \<and> locked_floor_r s \<le> locked_floor_r t \<and>
    (\<forall>g \<in> set (ratchet_ladder c). at_r g \<le> peak_r s \<longrightarrow> lock_r g \<le> locked_floor_r t) \<and>
    (locked_floor_r t = locked_floor_r s \<or>
     (\<exists>g \<in> set (ratchet_ladder c). at_r g \<le> peak_r s \<and> locked_floor_r t = lock_r g)) \<and>
    t = s\<lparr>locked_floor_r := locked_floor_r t, fired_ratchet_rungs := fired_ratchet_rungs t\<rparr>"
proof -
  obtain fl en where scan:
    "scan_ratchet (peak_r s) 0 (ratchet_ladder c) (locked_floor_r s) (fired_ratchet_rungs s) = (fl, en)"
    by fastforce
  note facts = scan_ratchet_facts [OF scan]
  let ?t = "s\<lparr>locked_floor_r := fl, fired_ratchet_rungs := en\<rparr>"
  have ok: "exit_state_ok ?t" using assms facts by (auto simp: exit_state_ok_def)
  have "advance_ratchet c s = Inr ?t"
    using scan ok facts by (auto simp: advance_ratchet_def exit_replace_ok)
  with ok facts show ?thesis by auto
qed

lemma advance_flat_clock_returns:
  assumes "exit_state_ok s" and "0 \<le> bt"
  shows "\<exists>t. advance_flat_clock c s r bt = Inr t \<and> exit_state_ok t \<and>
    t = s\<lparr>entry_block_time_ms := entry_block_time_ms t,
          last_active_block_time_ms := last_active_block_time_ms t\<rparr>"
proof -
  have "exit_state_ok (s\<lparr>entry_block_time_ms := bt, last_active_block_time_ms := bt\<rparr>)"
    "exit_state_ok (s\<lparr>last_active_block_time_ms := bt\<rparr>)"
    using assms by (auto simp: exit_state_ok_def)
  then show ?thesis
    using assms(1) by (auto simp: advance_flat_clock_def exit_replace_ok)
qed

text \<open>What one stepped state keeps of the state it comes from.\<close>

definition stepped_from :: "exit_config \<Rightarrow> decimal \<Rightarrow> exit_state \<Rightarrow> exit_state \<Rightarrow> bool" where
  "stepped_from c r s t \<longleftrightarrow>
     exit_state_ok t \<and> xs_mint t = xs_mint s \<and> xs_entry_fill_price t = xs_entry_fill_price s \<and>
     xs_stop t = xs_stop s \<and> remaining_bps t = remaining_bps s \<and> fired_rungs t = fired_rungs s \<and>
     peak_r t = max (peak_r s) r \<and> (armed t \<longleftrightarrow> armed s \<or> trail_arm_r c \<le> r) \<and>
     steps_held t = steps_held s + 1 \<and> locked_floor_r s \<le> locked_floor_r t \<and>
     (\<forall>g \<in> set (ratchet_ladder c). at_r g \<le> peak_r t \<longrightarrow> lock_r g \<le> locked_floor_r t) \<and>
     (locked_floor_r t = locked_floor_r s \<or>
      (\<exists>g \<in> set (ratchet_ladder c). at_r g \<le> peak_r t \<and> locked_floor_r t = lock_r g))"

lemma exit_stepped_returns:
  assumes "exit_state_ok s" and "0 \<le> bt"
  shows "\<exists>t. exit_stepped c s r bt = Inr t \<and> stepped_from c r s t"
proof -
  let ?s1 = "s\<lparr>peak_r := (if r > peak_r s then r else peak_r s), steps_held := steps_held s + 1\<rparr>"
  let ?s2 = "if \<not> armed ?s1 \<and> r \<ge> trail_arm_r c then ?s1\<lparr>armed := True\<rparr> else ?s1"
  have ok1: "exit_state_ok ?s1" and ok2: "exit_state_ok ?s2"
    using assms(1) by (auto simp: exit_state_ok_def)
  obtain s3 where s3: "advance_ratchet c ?s2 = Inr s3" "exit_state_ok s3"
    "locked_floor_r ?s2 \<le> locked_floor_r s3"
    "\<forall>g \<in> set (ratchet_ladder c). at_r g \<le> peak_r ?s2 \<longrightarrow> lock_r g \<le> locked_floor_r s3"
    "locked_floor_r s3 = locked_floor_r ?s2 \<or>
     (\<exists>g \<in> set (ratchet_ladder c). at_r g \<le> peak_r ?s2 \<and> locked_floor_r s3 = lock_r g)"
    "s3 = ?s2\<lparr>locked_floor_r := locked_floor_r s3, fired_ratchet_rungs := fired_ratchet_rungs s3\<rparr>"
    using advance_ratchet_returns [OF ok2, of c] by blast
  obtain t where t: "advance_flat_clock c s3 r bt = Inr t" "exit_state_ok t"
    "t = s3\<lparr>entry_block_time_ms := entry_block_time_ms t,
            last_active_block_time_ms := last_active_block_time_ms t\<rparr>"
    using advance_flat_clock_returns [OF s3(2) assms(2), of c r] by blast
  have "exit_replace s ?s1 = Inr ?s1" using ok1 by (simp add: exit_replace_ok)
  moreover have "(if \<not> armed ?s1 \<and> r \<ge> trail_arm_r c then exit_replace ?s1 (?s1\<lparr>armed := True\<rparr>) else Inr ?s1) = Inr ?s2"
    using ok2 by (auto simp: exit_replace_ok split: if_splits)
  ultimately have "exit_stepped c s r bt = Inr t"
    using s3(1) t(1) by (simp add: exit_stepped_def)
  moreover have "stepped_from c r s t"
  proof -
    have frame: "f t = f s3" if "\<And>x e l. f (x\<lparr>entry_block_time_ms := e, last_active_block_time_ms := l\<rparr>) = f x"
      for f :: "exit_state \<Rightarrow> 'a" by (subst t(3)) (rule that)
    have frame3: "f s3 = f ?s2" if "\<And>x e l. f (x\<lparr>locked_floor_r := e, fired_ratchet_rungs := l\<rparr>) = f x"
      for f :: "exit_state \<Rightarrow> 'a" by (subst s3(6)) (rule that)
    show ?thesis
      unfolding stepped_from_def
      using t(2) s3(3-5) frame [of locked_floor_r]
      by (auto simp: frame frame3 max_def split: if_splits)
  qed
  ultimately show ?thesis by blast
qed

subsection \<open>Facts about the decisions\<close>

lemma flt_rep_eighth: "\<bar>m\<bar> \<le> 2 ^ 53 \<Longrightarrow> flt_rep (of_int m / 2 ^ k)"
  using rep_sig_frac [of m 2 53 k] by simp

lemma sold_of_original_eq:
  assumes "0 \<le> a" and "a \<le> 10000" and "0 \<le> b" and "b \<le> 10000"
  shows "sold_of_original a b = a * b div 10000"
proof -
  define q x where "q = a * b div 10000" and "x = (of_int (a * b) / 10000 :: rat)"
  have ab: "0 \<le> a * b" "a * b \<le> 100000000"
    using assms mult_mono [of a 10000 b 10000] by simp_all
  then have q: "0 \<le> q" "q \<le> 10000" by (simp_all add: q_def)
  have lo: "of_int q \<le> x" and hi: "x \<le> of_int (16384 * q + 16383) / 2 ^ 14"
  proof -
    have "10000 * q \<le> a * b" "a * b \<le> 10000 * q + 9999"
      unfolding q_def by linarith+
    then have "of_int (10000 * q) \<le> (of_int (a * b) :: rat)" "(of_int (a * b) :: rat) \<le> of_int (10000 * q + 9999)"
      by (simp_all only: of_int_le_iff)
    then show "of_int q \<le> x" "x \<le> of_int (16384 * q + 16383) / 2 ^ 14"
      by (simp_all add: x_def field_simps)
  qed
  have "of_int q \<le> flt x"
    using lo flt_rep_eighth [of q 0] q by (intro flt.rnd_ge_rep) simp_all
  moreover have "flt x \<le> of_int (16384 * q + 16383) / 2 ^ 14"
    using hi q by (intro flt.rnd_le_rep flt_rep_eighth) simp_all
  then have "flt x < of_int q + 1" by (simp add: field_simps)
  ultimately have "\<lfloor>flt x\<rfloor> = q" by (intro floor_unique) simp_all
  moreover have "0 \<le> flt x" using \<open>of_int q \<le> flt x\<close> q by (meson of_int_0_le_iff order.trans)
  ultimately show ?thesis by (simp add: sold_of_original_def trunc_def x_def q_def)
qed

lemma sold_less_remaining:
  assumes "0 < a" and "a \<le> 10000" and "1 \<le> b" and "b \<le> 9999"
  shows "0 \<le> sold_of_original a b \<and> sold_of_original a b < a"
proof -
  have "a * b \<le> a * 9999" using assms by (intro mult_left_mono) simp_all
  then have "a * b < a * 10000" using assms(1) by linarith
  then have "a * b div 10000 < a" by linarith
  then show ?thesis using assms by (simp add: sold_of_original_eq pos_imp_zdiv_nonneg_iff)
qed

lemma full_exit_returns:
  assumes "exit_state_ok s"
  shows "full_exit s bt why detail = Inr
    \<lparr>ed_reason = why,
     ed_intent = Some (Exit \<lparr>ex_client_intent_id =
         Cid (''exit_eng:'' @ exit_reason_value why) (xs_mint s) [of_int bt],
       ex_mint = xs_mint s, ex_fraction_bps = 10000, ex_exit_mode = Secure, ex_reason = detail\<rparr>),
     ed_next_state = s\<lparr>remaining_bps := 0\<rparr>, ed_fraction_bps = 10000, ed_exit_mode = Some Secure\<rparr>"
proof -
  have "exit_state_ok (s\<lparr>remaining_bps := 0\<rparr>)" "0 \<le> remaining_bps s"
    using assms by (simp_all add: exit_state_ok_def)
  then show ?thesis
    by (simp add: full_exit_def factory_exit_def mk_ExitIntent_def exit_replace_ok)
qed

text \<open>
  \<open>unfired_hit\<close>: the rungs a tick may still book. The scan returns the one with the highest
  trigger.
\<close>

definition unfired_hit :: "exit_config \<Rightarrow> exit_state \<Rightarrow> decimal \<Rightarrow> nat \<Rightarrow> bool" where
  "unfired_hit c s r i \<longleftrightarrow> i < length (tp_ladder c) \<and> i \<notin> fired_rungs s \<and> trigger_r (tp_ladder c ! i) \<le> r"

lemma scan_rungs_best:
  assumes "scan_rungs fired r idx gs best bt = res"
  shows "(res = best \<and> (\<forall>j < length gs. idx + j \<notin> fired \<longrightarrow> trigger_r (gs ! j) \<le> r \<longrightarrow> trigger_r (gs ! j) \<le> bt)) \<or>
    (\<exists>j < length gs. res = Some (idx + j) \<and> idx + j \<notin> fired \<and> trigger_r (gs ! j) \<le> r \<and> bt < trigger_r (gs ! j) \<and>
       (\<forall>k < length gs. idx + k \<notin> fired \<longrightarrow> trigger_r (gs ! k) \<le> r \<longrightarrow> trigger_r (gs ! k) \<le> trigger_r (gs ! j)))"
  using assms
proof (induction gs arbitrary: idx best bt)
  case (Cons g gs)
  let ?skip = "idx \<in> fired \<or> \<not> (trigger_r g \<le> r \<and> bt < trigger_r g)"
  have all: "(\<forall>k < length (g # gs). P k) \<longleftrightarrow> P 0 \<and> (\<forall>k < length gs. P (Suc k))" for P
    by (auto simp: less_Suc_eq_0_disj)
  have ex: "(\<exists>k < length (g # gs). P k) \<longleftrightarrow> P 0 \<or> (\<exists>k < length gs. P (Suc k))" for P
    by (auto simp: less_Suc_eq_0_disj)
  show ?case
  proof (cases ?skip)
    case True
    then have "scan_rungs fired r (Suc idx) gs best bt = res" using Cons.prems by (auto split: if_splits)
    from Cons.IH [OF this] show ?thesis
      unfolding all ex using True by (elim disjE exE conjE) (fastforce)+
  next
    case False
    then have "scan_rungs fired r (Suc idx) gs (Some idx) (trigger_r g) = res"
      using Cons.prems by (auto split: if_splits)
    from Cons.IH [OF this] show ?thesis
      unfolding all ex using False by (elim disjE exE conjE) (fastforce)+
  qed
qed simp

lemma highest_hit_rung_Some:
  assumes "highest_hit_rung c s r = Some i"
  shows "unfired_hit c s r i \<and> (\<forall>j. unfired_hit c s r j \<longrightarrow> trigger_r (tp_ladder c ! j) \<le> trigger_r (tp_ladder c ! i))"
  using scan_rungs_best [OF assms [unfolded highest_hit_rung_def]] by (auto simp: unfired_hit_def)

lemma highest_hit_rung_None:
  assumes "exit_config_ok c" and "highest_hit_rung c s r = None"
  shows "\<not> unfired_hit c s r i"
proof
  assume hit: "unfired_hit c s r i"
  then have "0 < trigger_r (tp_ladder c ! i)"
    using tp_rung_bounds(1) [OF assms(1)] by (simp add: unfired_hit_def)
  with scan_rungs_best [OF assms(2) [unfolded highest_hit_rung_def]] hit show False
    by (auto simp: unfired_hit_def)
qed

text \<open>The state after a scale-out on rung \<open>i\<close>.\<close>

definition scaled_out :: "exit_config \<Rightarrow> exit_state \<Rightarrow> nat \<Rightarrow> exit_state" where
  "scaled_out c s i =
     s\<lparr>remaining_bps := remaining_bps s -
         remaining_bps s * min (rung_fraction_bps (tp_ladder c ! i)) (remaining_bps s) div 10000,
       fired_rungs := insert i (fired_rungs s)\<rparr>"

lemma scale_out_returns:
  assumes "exit_config_ok c" and "exit_state_ok s" and "0 < remaining_bps s" and "i < length (tp_ladder c)"
  shows "\<exists>x. scale_out c s bt i = Inr
      \<lparr>ed_reason = TAKE_PROFIT, ed_intent = Some (Reduce x), ed_next_state = scaled_out c s i,
       ed_fraction_bps = min (rung_fraction_bps (tp_ladder c ! i)) (remaining_bps s),
       ed_exit_mode = Some (default_exit_mode c)\<rparr> \<and>
    rd_mint x = xs_mint s \<and> rd_fraction_bps x = min (rung_fraction_bps (tp_ladder c ! i)) (remaining_bps s)"
    and "exit_state_ok (scaled_out c s i)" and "0 < remaining_bps (scaled_out c s i)"
    and "remaining_bps (scaled_out c s i) \<le> remaining_bps s"
proof -
  let ?b = "min (rung_fraction_bps (tp_ladder c ! i)) (remaining_bps s)"
  have rem: "remaining_bps s \<le> 10000" using assms(2) by (simp add: exit_state_ok_def)
  have b: "1 \<le> ?b" "?b \<le> 9999"
    using tp_rung_bounds [OF assms(1) nth_mem [OF assms(4)]] assms(3) by auto
  have eq: "sold_of_original (remaining_bps s) ?b = remaining_bps s * ?b div 10000"
    using assms(3) rem b by (intro sold_of_original_eq) simp_all
  have sold: "0 \<le> remaining_bps s * ?b div 10000" "remaining_bps s * ?b div 10000 < remaining_bps s"
    using sold_less_remaining [OF assms(3) rem b] by (simp_all only: eq)
  show ok: "exit_state_ok (scaled_out c s i)" and "0 < remaining_bps (scaled_out c s i)"
    and le: "remaining_bps (scaled_out c s i) \<le> remaining_bps s"
    using assms(2) sold by (simp_all add: scaled_out_def exit_state_ok_def)
  have "exit_replace s (scaled_out c s i) = Inr (scaled_out c s i)"
    using ok le by (intro exit_replace_ok) (simp_all add: scaled_out_def)
  then show "\<exists>x. scale_out c s bt i = Inr
      \<lparr>ed_reason = TAKE_PROFIT, ed_intent = Some (Reduce x), ed_next_state = scaled_out c s i,
       ed_fraction_bps = ?b, ed_exit_mode = Some (default_exit_mode c)\<rparr> \<and>
    rd_mint x = xs_mint s \<and> rd_fraction_bps x = ?b"
    using sold b unfolding scale_out_def Let_def eq scaled_out_def [symmetric]
    by (simp add: factory_reduce_def mk_ReduceIntent_def)
qed

subsection \<open>The priority specification\<close>

text \<open>
  The documented hierarchy as a list of guarded rules, highest first; the first rule whose guard
  holds decides.
\<close>

definition exit_rules :: "exit_config \<Rightarrow> exit_state \<Rightarrow> exit_tick \<Rightarrow> decimal \<Rightarrow> (exit_reason \<times> bool) list" where
  "exit_rules c t tk r =
     [(NARRATIVE_FAILURE, tk_narrative_failure tk),
      (INSIDER_DUMP, tk_insider_dump tk),
      (SELLABILITY_DEGRADED, tk_sellability_degraded tk),
      (LP_UNLOCK_APPROACHING, tk_lp_unlock_approaching tk),
      (HARD_STOP, is_breached (xs_stop t) (tk_mark_price tk)),
      (RATCHET_STOP, 0 < locked_floor_r t \<and> r \<le> locked_floor_r t),
      (TRAILING_STOP, armed t \<and> r \<le> trail_floor_r c t),
      (TIMEOUT, max_hold_steps c \<le> steps_held t),
      (STALE_NARRATIVE_TIME_STOP,
       time_stop_detail c t (tk_narrative_score tk) (tk_block_time_ms tk) \<noteq> None)]"

definition first_rule :: "(exit_reason \<times> bool) list \<Rightarrow> exit_reason option" where
  "first_rule rules = map_option fst (find snd rules)"

lemma first_rule_None: "first_rule rules = None \<longleftrightarrow> (\<forall>x \<in> set rules. \<not> snd x)"
  by (simp add: first_rule_def find_None_iff) (metis prod.collapse snd_conv)

lemma first_rule_Some: "x \<in> set rules \<Longrightarrow> snd x \<Longrightarrow> \<exists>why. first_rule rules = Some why"
  using first_rule_None [of rules] by (cases "first_rule rules") auto

text \<open>What a decision is, given the stepped state and the rules.\<close>

definition decision_spec :: "exit_config \<Rightarrow> exit_state \<Rightarrow> exit_tick \<Rightarrow> decimal \<Rightarrow> exit_decision \<Rightarrow> bool" where
  "decision_spec c t tk r d \<longleftrightarrow>
     (case first_rule (exit_rules c t tk r) of
        Some why \<Rightarrow>
          ed_reason d = why \<and> ed_next_state d = t\<lparr>remaining_bps := 0\<rparr> \<and> ed_fraction_bps d = 10000 \<and>
          ed_exit_mode d = Some Secure \<and>
          (\<exists>x. ed_intent d = Some (Exit x) \<and> ex_mint x = xs_mint t \<and> ex_fraction_bps x = 10000 \<and>
               ex_exit_mode x = Secure)
      | None \<Rightarrow>
          if \<exists>i. unfired_hit c t r i
          then ed_reason d = TAKE_PROFIT \<and> ed_exit_mode d = Some (default_exit_mode c) \<and>
            (\<exists>i x. unfired_hit c t r i \<and>
               (\<forall>j. unfired_hit c t r j \<longrightarrow> trigger_r (tp_ladder c ! j) \<le> trigger_r (tp_ladder c ! i)) \<and>
               ed_next_state d = scaled_out c t i \<and> ed_intent d = Some (Reduce x) \<and>
               rd_mint x = xs_mint t \<and> ed_fraction_bps d = rd_fraction_bps x \<and>
               rd_fraction_bps x = min (rung_fraction_bps (tp_ladder c ! i)) (remaining_bps t))
          else d = exit_hold t)"

lemma exit_decide_forced:
  assumes "exit_state_ok t" and "first_rule (exit_rules c t tk r) = Some why"
  shows "\<exists>detail. exit_decide c t tk (tk_narrative_score tk) r = full_exit t (tk_block_time_ms tk) why detail"
  using assms(2)
  by (auto simp: first_rule_def exit_rules_def exit_decide_def Let_def split: if_splits)

lemma exit_decide_quiet:
  assumes "first_rule (exit_rules c t tk r) = None"
  shows "exit_decide c t tk (tk_narrative_score tk) r =
    (case highest_hit_rung c t r of
       Some idx \<Rightarrow> scale_out c t (tk_block_time_ms tk) idx | None \<Rightarrow> Inr (exit_hold t))"
  using assms
  by (auto simp: first_rule_None exit_rules_def exit_decide_def Let_def)

lemma exit_decide_meets_spec:
  assumes "exit_config_ok c" and "exit_state_ok t" and "0 < remaining_bps t"
  shows "\<exists>d. exit_decide c t tk (tk_narrative_score tk) r = Inr d \<and> decision_spec c t tk r d"
proof (cases "first_rule (exit_rules c t tk r)")
  case (Some why)
  then show ?thesis
    using exit_decide_forced [OF assms(2) Some] by (auto simp: full_exit_returns [OF assms(2)] decision_spec_def)
next
  case None
  note quiet = exit_decide_quiet [OF None]
  show ?thesis
  proof (cases "highest_hit_rung c t r")
    case (Some i)
    note best = highest_hit_rung_Some [OF Some]
    then have "i < length (tp_ladder c)" by (simp add: unfired_hit_def)
    from scale_out_returns(1) [OF assms this, of "tk_block_time_ms tk"] obtain x d where
      d: "scale_out c t (tk_block_time_ms tk) i = Inr d" "ed_reason d = TAKE_PROFIT"
        "ed_exit_mode d = Some (default_exit_mode c)" "ed_next_state d = scaled_out c t i"
        "ed_intent d = Some (Reduce x)" "rd_mint x = xs_mint t" "ed_fraction_bps d = rd_fraction_bps x"
        "rd_fraction_bps x = min (rung_fraction_bps (tp_ladder c ! i)) (remaining_bps t)"
      by (elim exE conjE) simp
    have "decision_spec c t tk r d"
      unfolding decision_spec_def None using best d(2-) by auto
    with d(1) show ?thesis by (simp add: quiet Some)
  next
    case hit: None
    then show ?thesis
      using highest_hit_rung_None [OF assms(1) hit] by (simp add: quiet hit decision_spec_def None)
  qed
qed

lemma exit_on_tick_flat:
  "exit_tick_ok tk \<Longrightarrow> remaining_bps s \<le> 0 \<Longrightarrow> exit_on_tick c s tk = Inr (exit_hold s)"
  by (auto simp: exit_on_tick_def exit_tick_ok_def coerce_narrative_score_def split: option.splits)

lemma exit_on_tick_live:
  assumes "exit_config_ok c" and "exit_state_ok s" and "exit_tick_ok tk" and "0 < remaining_bps s"
  obtains t d where "stepped_from c (realized_r s (tk_mark_price tk)) s t"
    and "exit_on_tick c s tk = Inr d" and "decision_spec c t tk (realized_r s (tk_mark_price tk)) d"
proof -
  let ?r = "realized_r s (tk_mark_price tk)"
  obtain t where t: "exit_stepped c s ?r (tk_block_time_ms tk) = Inr t" "stepped_from c ?r s t"
    using exit_stepped_returns [OF assms(2), of "tk_block_time_ms tk" c ?r] assms(3)
    by (auto simp: exit_tick_ok_def)
  then have "exit_state_ok t" "0 < remaining_bps t" using assms(4) by (simp_all add: stepped_from_def)
  with exit_decide_meets_spec [OF assms(1), of t tk ?r] obtain d
    where d: "exit_decide c t tk (tk_narrative_score tk) ?r = Inr d" "decision_spec c t tk ?r d" by blast
  have "coerce_narrative_score (tk_narrative_score tk) = Inr (tk_narrative_score tk)"
    using assms(3) by (auto simp: exit_tick_ok_def coerce_narrative_score_def split: option.splits)
  then have "exit_on_tick c s tk = Inr d"
    using assms(3,4) t(1) d(1) by (simp add: exit_on_tick_def exit_tick_ok_def Let_def)
  with t(2) d(2) show thesis by (intro that)
qed

text \<open>How any tick moves the state.\<close>

definition exit_moves :: "exit_state \<Rightarrow> exit_state \<Rightarrow> bool" where
  "exit_moves s t \<longleftrightarrow>
     exit_state_ok t \<and> remaining_bps t \<le> remaining_bps s \<and> locked_floor_r s \<le> locked_floor_r t \<and>
     peak_r s \<le> peak_r t \<and> (armed s \<longrightarrow> armed t) \<and> fired_rungs s \<subseteq> fired_rungs t \<and>
     xs_stop t = xs_stop s \<and> xs_mint t = xs_mint s \<and> xs_entry_fill_price t = xs_entry_fill_price s"

lemma exit_moves_refl: "exit_state_ok s \<Longrightarrow> exit_moves s s"
  by (simp add: exit_moves_def)

lemma decision_spec_moves:
  assumes "exit_config_ok c" and "stepped_from c r s t" and "0 < remaining_bps s" and "decision_spec c t tk r d"
  shows "exit_moves s (ed_next_state d) \<and> steps_held (ed_next_state d) = steps_held s + 1 \<and>
    (\<forall>g \<in> set (ratchet_ladder c). at_r g \<le> peak_r (ed_next_state d) \<longrightarrow> lock_r g \<le> locked_floor_r (ed_next_state d)) \<and>
    peak_r (ed_next_state d) = max (peak_r s) r \<and> (armed (ed_next_state d) \<longleftrightarrow> armed s \<or> trail_arm_r c \<le> r)"
proof -
  have ok: "exit_state_ok t" and rem: "0 < remaining_bps t" using assms(2,3) by (simp_all add: stepped_from_def)
  consider "ed_next_state d = t\<lparr>remaining_bps := 0\<rparr>"
    | i where "ed_next_state d = scaled_out c t i" "i < length (tp_ladder c)"
    | "ed_next_state d = t"
    using assms(4) by (auto simp: decision_spec_def unfired_hit_def exit_hold_def split: option.splits if_splits)
  then show ?thesis
  proof cases
    case 1
    then show ?thesis using assms(2) rem by (auto simp: stepped_from_def exit_moves_def exit_state_ok_def)
  next
    case 2
    note facts = scale_out_returns(2-4) [OF assms(1) ok rem 2(2)]
    have "exit_moves s (scaled_out c t i)"
      using assms(2) facts by (auto simp: stepped_from_def exit_moves_def scaled_out_def)
    then show ?thesis using assms(2) 2(1) by (simp add: stepped_from_def scaled_out_def)
  next
    case 3
    then show ?thesis using assms(2) by (simp add: stepped_from_def exit_moves_def)
  qed
qed

subsection \<open>Runs\<close>

text \<open>A caller threads \<open>next_state\<close>; a tick that raises leaves it with the state it had.\<close>

definition exit_step :: "exit_config \<Rightarrow> exit_state \<Rightarrow> exit_tick \<Rightarrow> exit_state" where
  "exit_step c s tk = (case exit_on_tick c s tk of Inl _ \<Rightarrow> s | Inr d \<Rightarrow> ed_next_state d)"

lemma exit_on_tick_refused: "\<not> exit_tick_ok tk \<Longrightarrow> exit_on_tick c s tk = Inl ValueError"
  by (auto simp: exit_on_tick_def exit_tick_ok_def coerce_narrative_score_def split: option.splits)

lemma exit_step_flat: "remaining_bps s \<le> 0 \<Longrightarrow> exit_step c s tk = s"
  by (cases "exit_tick_ok tk")
    (simp_all add: exit_step_def exit_on_tick_flat exit_on_tick_refused exit_hold_def)

lemma exit_step_live:
  assumes "exit_config_ok c" and "exit_state_ok s" and "exit_tick_ok tk" and "0 < remaining_bps s"
    and "r = realized_r s (tk_mark_price tk)" and "u = exit_step c s tk"
  shows "exit_moves s u" "steps_held u = steps_held s + 1" "peak_r u = max (peak_r s) r"
    "armed u \<longleftrightarrow> armed s \<or> trail_arm_r c \<le> r"
    "g \<in> set (ratchet_ladder c) \<Longrightarrow> at_r g \<le> peak_r u \<Longrightarrow> lock_r g \<le> locked_floor_r u"
proof -
  obtain t d where td: "stepped_from c r s t" "exit_on_tick c s tk = Inr d" "decision_spec c t tk r d"
    using exit_on_tick_live [OF assms(1-4)] assms(5) by blast
  have u: "u = ed_next_state d" using td(2) assms(6) by (simp add: exit_step_def)
  note moves = decision_spec_moves [OF assms(1) td(1) assms(4) td(3)]
  show "exit_moves s u" "steps_held u = steps_held s + 1" "peak_r u = max (peak_r s) r"
    "armed u \<longleftrightarrow> armed s \<or> trail_arm_r c \<le> r" using moves by (simp_all add: u)
  show "g \<in> set (ratchet_ladder c) \<Longrightarrow> at_r g \<le> peak_r u \<Longrightarrow> lock_r g \<le> locked_floor_r u"
    using moves by (simp add: u)
qed

lemma exit_step_moves:
  assumes "exit_config_ok c" and "exit_state_ok s"
  shows "exit_moves s (exit_step c s tk)"
proof (cases "exit_tick_ok tk \<and> 0 < remaining_bps s")
  case True
  then show ?thesis using exit_step_live(1) [OF assms _ _ refl refl] by blast
next
  case False
  then have "exit_step c s tk = s"
    using exit_step_flat [of s c tk] by (cases "exit_tick_ok tk") (auto simp: exit_step_def exit_on_tick_refused)
  then show ?thesis using assms(2) by (simp add: exit_moves_refl)
qed

text \<open>The one-way levels of the engine.\<close>

interpretation floor_ratchet: ratchet "exit_step c" locked_floor_r "\<lambda>s. exit_config_ok c \<and> exit_state_ok s"
  for c :: exit_config
  using exit_step_moves [of c] by unfold_locales (simp_all add: exit_moves_def)

interpretation peak_ratchet: ratchet "exit_step c" peak_r "\<lambda>s. exit_config_ok c \<and> exit_state_ok s"
  for c :: exit_config
  using exit_step_moves [of c] by unfold_locales (simp_all add: exit_moves_def)

interpretation arm_ratchet: ratchet "exit_step c" armed "\<lambda>s. exit_config_ok c \<and> exit_state_ok s"
  for c :: exit_config
  using exit_step_moves [of c] by unfold_locales (auto simp: exit_moves_def)

interpretation size_ratchet:
  ratchet "exit_step c" "\<lambda>s. - remaining_bps s" "\<lambda>s. exit_config_ok c \<and> exit_state_ok s"
  for c :: exit_config
  using exit_step_moves [of c] by unfold_locales (simp_all add: exit_moves_def)

lemma exit_run_frame:
  "exit_config_ok c \<Longrightarrow> exit_state_ok s \<Longrightarrow>
     xs_stop (foldl (exit_step c) s tks) = xs_stop s \<and> xs_mint (foldl (exit_step c) s tks) = xs_mint s \<and>
     xs_entry_fill_price (foldl (exit_step c) s tks) = xs_entry_fill_price s"
proof (induction tks arbitrary: s)
  case (Cons tk tks)
  then show ?case using exit_step_moves [OF Cons.prems, of tk] by (simp add: exit_moves_def)
qed simp

text \<open>The engine as a de-risk stage.\<close>

definition exit_stage :: "exit_config \<Rightarrow> exit_state \<Rightarrow> exit_tick \<Rightarrow> (exit_state \<times> intent list) result" where
  "exit_stage c s tk =
     rbind (exit_on_tick c s tk) (\<lambda>d.
     Inr (ed_next_state d, case ed_intent d of None \<Rightarrow> [] | Some x \<Rightarrow> [x]))"

lemma exit_on_tick_intent:
  assumes "exit_config_ok c" and "exit_state_ok s" and "exit_on_tick c s tk = Inr d" and "ed_intent d = Some x"
  shows "derisk_intent x"
proof -
  have "exit_tick_ok tk" using assms(3) exit_on_tick_refused by force
  moreover have "0 < remaining_bps s"
    using exit_on_tick_flat [OF \<open>exit_tick_ok tk\<close>, of s c] assms(3,4) by (fastforce simp: exit_hold_def)
  ultimately obtain t where t: "stepped_from c (realized_r s (tk_mark_price tk)) s t"
    "decision_spec c t tk (realized_r s (tk_mark_price tk)) d"
    using exit_on_tick_live [OF assms(1,2)] assms(3) by (metis Inr_inject)
  have "1 \<le> min (rung_fraction_bps (tp_ladder c ! i)) (remaining_bps t) \<and>
      min (rung_fraction_bps (tp_ladder c ! i)) (remaining_bps t) \<le> 9999"
    if "i < length (tp_ladder c)" for i
    using tp_rung_bounds [OF assms(1) nth_mem [OF that]] t(1) \<open>0 < remaining_bps s\<close>
    by (auto simp: stepped_from_def)
  then show ?thesis
    using t(2) assms(4)
    by (fastforce simp: decision_spec_def unfired_hit_def exit_hold_def split: option.splits if_splits)
qed

interpretation exits: derisk_stage "exit_stage c" "\<lambda>s. exit_config_ok c \<and> exit_state_ok s"
  for c :: exit_config
proof
  fix s tk t out
  assume ok: "exit_config_ok c \<and> exit_state_ok s" and "exit_stage c s tk = Inr (t, out)"
  then obtain d where d: "exit_on_tick c s tk = Inr d" "t = ed_next_state d"
    "out = (case ed_intent d of None \<Rightarrow> [] | Some x \<Rightarrow> [x])"
    by (auto simp: exit_stage_def result_simps)
  show "\<forall>x \<in> set out. derisk_intent x"
    using exit_on_tick_intent [OF _ _ d(1)] ok by (auto simp: d(3) split: option.splits)
  show "exit_config_ok c \<and> exit_state_ok t"
    using exit_step_moves [of c s tk] ok d(1,2) by (simp add: exit_step_def exit_moves_def)
qed

subsection \<open>Shared facts for the properties\<close>

lemma realized_r_entry: "xs_entry_fill_price s = xs_entry_fill_price t \<Longrightarrow> realized_r s m = realized_r t m"
  by (simp add: realized_r_def)

text \<open>A tick on which some rule's guard holds empties the position.\<close>

lemma forced_tick_empties:
  assumes "exit_config_ok c" and "exit_state_ok s" and "exit_tick_ok tk" and "0 < remaining_bps s"
    and "\<And>t. stepped_from c (realized_r s (tk_mark_price tk)) s t \<Longrightarrow>
           \<exists>x \<in> set (exit_rules c t tk (realized_r s (tk_mark_price tk))). snd x"
  shows "\<exists>d x. exit_on_tick c s tk = Inr d \<and> ed_intent d = Some (Exit x) \<and> ex_mint x = xs_mint s \<and>
    ex_fraction_bps x = 10000 \<and> ex_exit_mode x = Secure \<and> remaining_bps (ed_next_state d) = 0"
proof -
  obtain t d where td: "stepped_from c (realized_r s (tk_mark_price tk)) s t" "exit_on_tick c s tk = Inr d"
    "decision_spec c t tk (realized_r s (tk_mark_price tk)) d"
    by (rule exit_on_tick_live [OF assms(1-4)])
  obtain why where "first_rule (exit_rules c t tk (realized_r s (tk_mark_price tk))) = Some why"
    using assms(5) [OF td(1)] first_rule_Some by blast
  with td show ?thesis by (auto simp: decision_spec_def stepped_from_def)
qed

lemma timeout_run:
  assumes "exit_config_ok c" and "exit_state_ok s" and "\<forall>tk \<in> set tks. exit_tick_ok tk"
    and "0 < remaining_bps (foldl (exit_step c) s tks)"
  shows "steps_held (foldl (exit_step c) s tks) = steps_held s + int (length tks) \<and>
    (tks \<noteq> [] \<longrightarrow> steps_held (foldl (exit_step c) s tks) < max_hold_steps c)"
  using assms(3,4)
proof (induction tks rule: rev_induct)
  case (snoc tk tks)
  let ?s = "foldl (exit_step c) s tks"
  have ok: "exit_state_ok ?s" using floor_ratchet.run_inv [of c s tks] assms(1,2) by simp
  have rem: "0 < remaining_bps ?s"
    using size_ratchet.step_level [of c ?s tk] ok assms(1) snoc.prems(2) by simp
  have tk: "exit_tick_ok tk" using snoc.prems(1) by simp
  note step = exit_step_live [OF assms(1) ok tk rem refl refl]
  have "steps_held ?s + 1 < max_hold_steps c"
  proof (rule ccontr)
    assume "\<not> ?thesis"
    then have "\<exists>x \<in> set (exit_rules c t tk (realized_r ?s (tk_mark_price tk))). snd x"
      if "stepped_from c (realized_r ?s (tk_mark_price tk)) ?s t" for t
      using that by (auto simp: exit_rules_def stepped_from_def)
    from forced_tick_empties [OF assms(1) ok tk rem this] snoc.prems(2) show False
      by (auto simp: exit_step_def [of c ?s])
  qed
  with snoc rem step(2) show ?case by simp
qed simp

lemma tp_count_run:
  assumes "exit_config_ok c" and "exit_state_ok s" and "fired_rungs s \<subseteq> {..<length (tp_ladder c)}"
    and "exit_on_tick c s tk = Inr d"
  shows "fired_rungs (ed_next_state d) \<subseteq> {..<length (tp_ladder c)} \<and>
    card (fired_rungs (ed_next_state d)) = card (fired_rungs s) + (if ed_reason d = TAKE_PROFIT then 1 else 0)"
proof (cases "0 < remaining_bps s")
  case True
  have "exit_tick_ok tk" using assms(4) exit_on_tick_refused by force
  then obtain t where t: "stepped_from c (realized_r s (tk_mark_price tk)) s t"
    "decision_spec c t tk (realized_r s (tk_mark_price tk)) d"
    using exit_on_tick_live [OF assms(1,2) _ True] assms(4) by (metis Inr_inject)
  have fin: "finite (fired_rungs s)" using assms(3) finite_subset by blast
  have fired: "fired_rungs t = fired_rungs s" using t(1) by (simp add: stepped_from_def)
  consider why where "first_rule (exit_rules c t tk (realized_r s (tk_mark_price tk))) = Some why"
      "ed_reason d = why" "ed_next_state d = t\<lparr>remaining_bps := 0\<rparr>"
    | i where "ed_reason d = TAKE_PROFIT" "unfired_hit c t (realized_r s (tk_mark_price tk)) i"
      "ed_next_state d = scaled_out c t i"
    | "d = exit_hold t"
    using t(2) by (auto simp: decision_spec_def split: option.splits if_splits)
  then show ?thesis
  proof cases
    case 1
    from 1(1) have "why \<noteq> TAKE_PROFIT" by (auto simp: first_rule_def exit_rules_def split: if_splits)
    with 1 fired assms(3) show ?thesis by simp
  next
    case 2
    with fired fin assms(3) show ?thesis by (auto simp: scaled_out_def unfired_hit_def)
  next
    case 3
    with fired assms(3) show ?thesis by (simp add: exit_hold_def)
  qed
next
  case False
  have "exit_tick_ok tk" using assms(4) exit_on_tick_refused by force
  with exit_on_tick_flat [of tk s c] False assms(3,4) show ?thesis by (auto simp: exit_hold_def)
qed

text \<open>The decisions a run of ticks produces.\<close>

fun exit_trace :: "exit_config \<Rightarrow> exit_state \<Rightarrow> exit_tick list \<Rightarrow> exit_decision list" where
  "exit_trace c s [] = []"
| "exit_trace c s (tk # tks) =
     (case exit_on_tick c s tk of
        Inl _ \<Rightarrow> exit_trace c s tks
      | Inr d \<Rightarrow> d # exit_trace c (ed_next_state d) tks)"

lemma tp_count_trace:
  assumes "exit_config_ok c" and "exit_state_ok s" and "fired_rungs s \<subseteq> {..<length (tp_ladder c)}"
  shows "length (filter (\<lambda>d. ed_reason d = TAKE_PROFIT) (exit_trace c s tks)) + card (fired_rungs s)
    \<le> length (tp_ladder c)"
  using assms
proof (induction tks arbitrary: s)
  case Nil
  then show ?case using card_mono [OF finite_lessThan Nil.prems(3)] by simp
next
  case (Cons tk tks)
  show ?case
  proof (cases "exit_on_tick c s tk")
    case (Inr d)
    have "exit_state_ok (ed_next_state d)"
      using exit_step_moves [OF Cons.prems(1,2), of tk] Inr by (simp add: exit_step_def exit_moves_def)
    with Cons.IH [of "ed_next_state d"] tp_count_run [OF Cons.prems Inr] Cons.prems(1) Inr
    show ?thesis by auto
  qed (use Cons in simp)
qed

subsection \<open>Values of the presets\<close>

lemma preset_drawdowns:
  "trunc (dmul (dsub 1 (3 / 5)) 10000) = 4000" "trunc (dmul (dsub 1 (7 / 10)) 10000) = 3000"
  "trunc (dmul (dsub 1 (11 / 20)) 10000) = 4500"
  by code_simp+

lemma preset_rungs:
  "exit_config_ok secure_balanced" "exit_config_ok secure_conservative" "exit_config_ok secure_runner"
  "exit_config_ok (secure_balanced\<lparr>xc_label := ''fast_balanced'', default_exit_mode := Fast\<rparr>)"
  "exit_config_ok (secure_balanced\<lparr>xc_label := ''secure_balanced_timestop'', time_stop_hours := Some 6,
     time_stop_narrative_cooled_at := 1 / 5\<rparr>)"
  by (simp_all add: exit_config_ok_def mk_ExitConfig_def secure_balanced_def secure_conservative_def
      secure_runner_def BALANCED_LADDER_def BALANCED_RATCHET_def mk_TpRung_def mk_RatchetRung_def)

lemma preset_stops:
  "hard_stop_r secure_balanced = 3 / 5" "hard_stop_r secure_conservative = 7 / 10" "hard_stop_r secure_runner = 11 / 20"
  by (simp_all add: secure_balanced_def secure_conservative_def secure_runner_def)

lemma presets_all:
  "\<forall>c \<in> set (map snd AUTO_STRAT_PRESETS). exit_config_ok c \<and> hard_stop_r c \<in> {3 / 5, 7 / 10, 11 / 20}"
  by (simp add: AUTO_STRAT_PRESETS_def preset_rungs preset_stops)

lemma exit_state_at_entry_returns:
  assumes "stop_thresholds c = Inr th" and "th < 10000" and "0 < entry" and "dec_rep entry"
  shows "\<exists>s. exit_state_at_entry m entry c = Inr s \<and> exit_state_ok s \<and> xs_mint s = m \<and>
    xs_entry_fill_price s = entry \<and> remaining_bps s = 10000 \<and> fired_rungs s = {} \<and> steps_held s = 0 \<and>
    stop_at_entry m entry (Some th) = Inr (xs_stop s)"
proof -
  have "0 < th" using assms(1) by (auto simp: stop_thresholds_def mk_StopThresholds_def split: if_splits)
  then obtain st where st: "stop_at_entry m entry (Some th) = Inr st" "st_mint st = m"
    using stop_at_entry_returns [of entry th m] assms(2-4) by blast
  then show ?thesis
    using assms(1,3) by (simp add: exit_state_at_entry_def mk_ExitState_def exit_state_ok_def)
qed

definition balanced_entry :: exit_state where
  "balanced_entry =
     \<lparr>xs_mint = ''m'', xs_entry_fill_price = 100,
      xs_stop = \<lparr>st_mint = ''m'', st_entry_fill_price = 100, trigger_price = 60, hard_stop_drawdown_bps = 4000\<rparr>,
      remaining_bps = 10000, fired_rungs = {}, peak_r = 1, armed = False, steps_held = 0,
      locked_floor_r = 0, fired_ratchet_rungs = {}, entry_block_time_ms = -1,
      last_active_block_time_ms = -1\<rparr>"

definition mark_at :: "decimal \<Rightarrow> exit_tick" where
  "mark_at m = \<lparr>tk_mark_price = m, tk_block_time_ms = 1000, tk_narrative_failure = False,
     tk_insider_dump = False, tk_sellability_degraded = False, tk_lp_unlock_approaching = False,
     tk_narrative_score = None\<rparr>"

lemma balanced_entry_ok: "exit_state_ok balanced_entry"
  by (simp add: balanced_entry_def exit_state_ok_def)

lemma mark_at_simps [simp]:
  "exit_tick_ok (mark_at m)" "tk_mark_price (mark_at m) = m" "tk_block_time_ms (mark_at m) = 1000"
  by (simp_all add: mark_at_def exit_tick_ok_def)

lemma balanced_entry_simps [simp]:
  "remaining_bps balanced_entry = 10000" "fired_rungs balanced_entry = {}" "steps_held balanced_entry = 0"
  by (simp_all add: balanced_entry_def)

lemma balanced_r: "realized_r balanced_entry 300 = 3"
  unfolding balanced_entry_def realized_r_def exit_state.simps by code_simp

lemma quiet_tick_keeps_some:
  assumes "exit_config_ok c" and "exit_state_ok s" and "exit_tick_ok tk" and "0 < remaining_bps s"
    and "\<And>t. stepped_from c (realized_r s (tk_mark_price tk)) s t \<Longrightarrow>
           \<forall>x \<in> set (exit_rules c t tk (realized_r s (tk_mark_price tk))). \<not> snd x"
  shows "0 < remaining_bps (exit_step c s tk)"
proof -
  obtain t d where td: "stepped_from c (realized_r s (tk_mark_price tk)) s t" "exit_on_tick c s tk = Inr d"
    "decision_spec c t tk (realized_r s (tk_mark_price tk)) d"
    by (rule exit_on_tick_live [OF assms(1-4)])
  have t: "exit_state_ok t" "0 < remaining_bps t" using td(1) assms(4) by (simp_all add: stepped_from_def)
  have "first_rule (exit_rules c t tk (realized_r s (tk_mark_price tk))) = None"
    using assms(5) [OF td(1)] by (simp add: first_rule_None)
  with td(3) have "(\<exists>i < length (tp_ladder c). ed_next_state d = scaled_out c t i) \<or> ed_next_state d = t"
    by (auto simp: decision_spec_def exit_hold_def unfired_hit_def split: if_splits)
  then show ?thesis
    using scale_out_returns(3) [OF assms(1) t] t(2) td(2) by (auto simp: exit_step_def)
qed

lemma balanced_run_up:
  "0 < remaining_bps (exit_step secure_balanced balanced_entry (mark_at 300))"
proof (rule quiet_tick_keeps_some [OF preset_rungs(1) balanced_entry_ok])
  fix t
  assume t: "stepped_from secure_balanced (realized_r balanced_entry (tk_mark_price (mark_at 300))) balanced_entry t"
  have "locked_floor_r t < 3"
  proof -
    have "locked_floor_r balanced_entry = 0" "peak_r t = 3"
      using t by (simp_all add: stepped_from_def balanced_r) (simp_all add: balanced_entry_def)
    then consider "locked_floor_r t = 0"
      | g where "g \<in> set (ratchet_ladder secure_balanced)" "at_r g \<le> 3" "locked_floor_r t = lock_r g"
      using t by (auto simp: stepped_from_def)
    then show ?thesis
    proof cases
      case 2
      with ratchet_rung_bounds(3) [OF preset_rungs(1) 2(1)] show ?thesis by simp
    qed simp
  qed
  moreover have "trail_floor_r secure_balanced t = 21 / 10"
  proof -
    have "peak_r t = 3" using t by (simp add: stepped_from_def balanced_r) (simp add: balanced_entry_def)
    moreover have "ddiv (dmul 3 (dsub 10000 3000)) 10000 = 21 / 10" by code_simp
    ultimately show ?thesis by (simp add: trail_floor_r_def secure_balanced_def)
  qed
  moreover have "steps_held t = 1" "trigger_price (xs_stop t) = 60"
    using t by (simp_all add: stepped_from_def) (simp add: balanced_entry_def)
  ultimately show "\<forall>x \<in> set (exit_rules secure_balanced t (mark_at 300)
      (realized_r balanced_entry (tk_mark_price (mark_at 300)))). \<not> snd x"
    by (simp add: exit_rules_def balanced_r is_breached_def time_stop_detail_def)
      (simp add: mark_at_def secure_balanced_def)
qed simp_all

lemma balanced_give_back:
  "realized_r (exit_step secure_balanced balanced_entry (mark_at 300)) 200 = 2"
proof -
  have "xs_entry_fill_price (exit_step secure_balanced balanced_entry (mark_at 300)) = 100"
    using exit_step_moves [OF preset_rungs(1) balanced_entry_ok, of "mark_at 300"]
    by (simp add: exit_moves_def) (simp add: balanced_entry_def)
  moreover have "ddiv 200 100 = 2" by code_simp
  ultimately show ?thesis by (simp add: realized_r_def)
qed

subsection \<open>Properties\<close>

text \<open>
  C2. Every tick of an open position is answered, without an exception, by the first rule of the
  documented hierarchy whose guard holds on the stepped state: a full exit routed Secure with
  that rule as its reason. Only when no rule's guard holds is the un-fired rung with the highest
  trigger reached booked as a partial reduction, and otherwise the position is held.
\<close>

theorem exit_engine_implements_hierarchy:
  assumes "exit_config_ok c" and "exit_state_ok s" and "exit_tick_ok tk" and "0 < remaining_bps s"
  shows "\<exists>t d. exit_stepped c s (realized_r s (tk_mark_price tk)) (tk_block_time_ms tk) = Inr t \<and>
    exit_on_tick c s tk = Inr d \<and> decision_spec c t tk (realized_r s (tk_mark_price tk)) d"
proof -
  obtain t where t: "exit_stepped c s (realized_r s (tk_mark_price tk)) (tk_block_time_ms tk) = Inr t"
    "stepped_from c (realized_r s (tk_mark_price tk)) s t"
    using exit_stepped_returns [OF assms(2), of "tk_block_time_ms tk" c "realized_r s (tk_mark_price tk)"] assms(3)
    by (auto simp: exit_tick_ok_def)
  then have "exit_state_ok t" "0 < remaining_bps t" using assms(4) by (simp_all add: stepped_from_def)
  with exit_decide_meets_spec [OF assms(1), of t tk "realized_r s (tk_mark_price tk)"] t(1) assms(3,4)
  show ?thesis
    by (auto simp: exit_on_tick_def exit_tick_ok_def Let_def coerce_narrative_score_def split: option.splits)
qed

theorem exit_engine_implements_hierarchy_witness:
  "\<exists>d. exit_on_tick secure_balanced balanced_entry (mark_at 300) = Inr d"
  using exit_engine_implements_hierarchy [OF preset_rungs(1) balanced_entry_ok, of "mark_at 300"] by auto

text \<open>
  C9. The engine only sheds risk: over any sequence of ticks the share held never grows, the
  locked profit floor and the running peak never fall, an armed trail stays armed, and the hard
  stop, the mint and the entry price never change; every emitted intent is a reduction or exit.
\<close>

theorem exit_run_only_sheds_risk:
  assumes "exit_config_ok c" and "exit_state_ok s" and "t = foldl (exit_step c) s tks"
  shows "exit_state_ok t \<and> remaining_bps t \<le> remaining_bps s \<and> locked_floor_r s \<le> locked_floor_r t \<and>
    peak_r s \<le> peak_r t \<and> (armed s \<longrightarrow> armed t) \<and> xs_stop t = xs_stop s \<and> xs_mint t = xs_mint s \<and>
    xs_entry_fill_price t = xs_entry_fill_price s \<and>
    (\<forall>u out. exits.run c s tks = Inr (u, out) \<longrightarrow> (\<forall>x \<in> set out. derisk_intent x))"
  using floor_ratchet.run_inv [of c s tks] floor_ratchet.run_level [of c s tks]
    peak_ratchet.run_level [of c s tks] arm_ratchet.run_level [of c s tks]
    size_ratchet.run_level [of c s tks] exit_run_frame [OF assms(1,2), of tks]
    exits.run_derisk [of c s tks] assms
  by simp

theorem exit_run_only_sheds_risk_witness:
  "remaining_bps (foldl (exit_step secure_balanced) balanced_entry [mark_at 300, mark_at 90]) \<le> 10000"
  using exit_run_only_sheds_risk [OF preset_rungs(1) balanced_entry_ok refl, of "[mark_at 300, mark_at 90]"]
  by simp

text \<open>
  The profit lock holds for good: once a tick's return reaches the trigger of a ratchet rung,
  then after any further ticks, a tick whose return is at or below that rung's locked multiple
  exits the whole remainder, Secure.
\<close>

theorem profit_lock_guarantee:
  assumes "exit_config_ok c" and "exit_state_ok s" and "exit_tick_ok tk0" and "0 < remaining_bps s"
    and "g \<in> set (ratchet_ladder c)" and "at_r g \<le> realized_r s (tk_mark_price tk0)"
    and "u = foldl (exit_step c) s (tk0 # tks)" and "0 < remaining_bps u"
    and "exit_tick_ok tk" and "realized_r u (tk_mark_price tk) \<le> lock_r g"
  shows "\<exists>d x. exit_on_tick c u tk = Inr d \<and> ed_intent d = Some (Exit x) \<and> ex_mint x = xs_mint u \<and>
    ex_fraction_bps x = 10000 \<and> ex_exit_mode x = Secure \<and> remaining_bps (ed_next_state d) = 0"
proof -
  let ?s1 = "exit_step c s tk0"
  note live = exit_step_live [OF assms(1-4) refl refl]
  have ok1: "exit_state_ok ?s1" using live(1) by (simp add: exit_moves_def)
  have "lock_r g \<le> locked_floor_r ?s1" using live(3) assms(5,6) by (intro live(5)) simp_all
  also have "\<dots> \<le> locked_floor_r u"
    using floor_ratchet.run_level [of c ?s1 tks] assms(1,7) ok1 by simp
  finally have lock: "lock_r g \<le> locked_floor_r u" .
  have ok: "exit_state_ok u" using floor_ratchet.run_inv [of c s "tk0 # tks"] assms(1,2,7) by simp
  have "\<exists>x \<in> set (exit_rules c t tk (realized_r u (tk_mark_price tk))). snd x"
    if "stepped_from c (realized_r u (tk_mark_price tk)) u t" for t
    using that lock assms(10) ratchet_rung_bounds(2) [OF assms(1,5)]
    by (auto simp: exit_rules_def stepped_from_def)
  then show ?thesis by (rule forced_tick_empties [OF assms(1) ok assms(9,8)])
qed

theorem profit_lock_guarantee_witness:
  "\<exists>d x. exit_on_tick secure_balanced (exit_step secure_balanced balanced_entry (mark_at 300)) (mark_at 200) = Inr d \<and>
     ed_intent d = Some (Exit x)"
proof -
  have "\<lparr>at_r = 3, lock_r = 2\<rparr> \<in> set (ratchet_ladder secure_balanced)"
    by (simp add: secure_balanced_def BALANCED_RATCHET_def)
  from profit_lock_guarantee [OF preset_rungs(1) balanced_entry_ok _ _ this, of "mark_at 300" _ "[]" "mark_at 200", OF _ _ _ refl]
  show ?thesis using balanced_run_up by (auto simp: balanced_r balanced_give_back)
qed

text \<open>
  The trailing stop holds for good: once a tick's return reaches the arming multiple, then
  after any further ticks, a tick whose return is at or below the trailing floor of that return
  exits the whole remainder.
\<close>

theorem trailing_stop_guarantee:
  assumes "exit_config_ok c" and "exit_state_ok s" and "exit_tick_ok tk0" and "0 < remaining_bps s"
    and "r0 = realized_r s (tk_mark_price tk0)" and "trail_arm_r c \<le> r0"
    and "u = foldl (exit_step c) s (tk0 # tks)" and "0 < remaining_bps u" and "exit_tick_ok tk"
    and "realized_r u (tk_mark_price tk) \<le> ddiv (dmul r0 (dsub 10000 (of_int (trail_drawdown_bps c)))) 10000"
  shows "\<exists>d x. exit_on_tick c u tk = Inr d \<and> ed_intent d = Some (Exit x) \<and> ex_exit_mode x = Secure \<and>
    remaining_bps (ed_next_state d) = 0"
proof -
  let ?s1 = "exit_step c s tk0" and ?k = "dsub 10000 (of_int (trail_drawdown_bps c))"
  note live = exit_step_live [OF assms(1-4) assms(5) refl]
  have ok1: "exit_state_ok ?s1" using live(1) by (simp add: exit_moves_def)
  have ok: "exit_state_ok u" using floor_ratchet.run_inv [of c s "tk0 # tks"] assms(1,2,7) by simp
  have armed: "armed u"
    using arm_ratchet.run_level [of c ?s1 tks] assms(1,6,7) ok1 live(4) by simp
  have peak: "r0 \<le> peak_r u"
    using peak_ratchet.run_level [of c ?s1 tks] assms(1,7) ok1 live(3) by simp
  have k: "0 \<le> ?k" using exit_config_bounds(5) [OF assms(1)] by (simp add: dsub_def dec.rnd_nonneg)
  have r0: "0 \<le> r0" using exit_config_bounds(3) [OF assms(1)] assms(6) by simp
  have "\<exists>x \<in> set (exit_rules c t tk (realized_r u (tk_mark_price tk))). snd x"
    if t: "stepped_from c (realized_r u (tk_mark_price tk)) u t" for t
  proof -
    have "r0 \<le> peak_r t" using t peak by (simp add: stepped_from_def)
    then have "ddiv (dmul r0 ?k) 10000 \<le> trail_floor_r c t"
      unfolding trail_floor_r_def using r0 k by (intro ddiv_mono dmul_mono) simp_all
    with assms(10) t armed show ?thesis by (auto simp: exit_rules_def stepped_from_def)
  qed
  from forced_tick_empties [OF assms(1) ok assms(9,8) this] show ?thesis by blast
qed

theorem trailing_stop_guarantee_witness:
  "\<exists>d x. exit_on_tick secure_balanced (foldl (exit_step secure_balanced) balanced_entry [mark_at 300]) (mark_at 200) = Inr d \<and>
     ed_intent d = Some (Exit x)"
proof -
  have "ddiv (dmul 3 (dsub 10000 3000)) 10000 = 21 / 10" by code_simp
  then have "realized_r (foldl (exit_step secure_balanced) balanced_entry [mark_at 300]) (tk_mark_price (mark_at 200))
      \<le> ddiv (dmul (realized_r balanced_entry (tk_mark_price (mark_at 300)))
          (dsub 10000 (of_int (trail_drawdown_bps secure_balanced)))) 10000"
    by (simp add: balanced_r balanced_give_back) (simp add: secure_balanced_def)
  from trailing_stop_guarantee [OF preset_rungs(1) balanced_entry_ok _ _ refl _ refl _ _ this]
  show ?thesis using balanced_run_up by (auto simp: balanced_r secure_balanced_def [THEN arg_cong, of trail_arm_r])
qed

text \<open>
  C28. No position outlives its maximum hold: after as many valid ticks as \<open>max_hold_steps\<close> leaves,
  whatever the marks, nothing of the position remains.
\<close>

theorem position_closed_within_max_hold:
  assumes "exit_config_ok c" and "exit_state_ok s" and "\<forall>tk \<in> set tks. exit_tick_ok tk"
    and "tks \<noteq> []" and "max_hold_steps c - steps_held s \<le> int (length tks)"
  shows "remaining_bps (foldl (exit_step c) s tks) = 0"
proof (rule ccontr)
  assume "remaining_bps (foldl (exit_step c) s tks) \<noteq> 0"
  moreover have "exit_state_ok (foldl (exit_step c) s tks)"
    using floor_ratchet.run_inv [of c s tks] assms(1,2) by simp
  ultimately have "0 < remaining_bps (foldl (exit_step c) s tks)" by (simp add: exit_state_ok_def)
  with timeout_run [OF assms(1-3)] assms(4,5) show False by simp
qed

theorem position_closed_within_max_hold_witness:
  "remaining_bps (foldl (exit_step secure_balanced) balanced_entry (replicate 24 (mark_at 100))) = 0"
  by (rule position_closed_within_max_hold [OF preset_rungs(1) balanced_entry_ok])
    (simp_all add: secure_balanced_def)

text \<open>
  Every rung of the take-profit ladder is booked at most once in a position's life: a run from
  a state books at most as many take-profits as there are rungs not yet fired.
\<close>

theorem take_profit_once_per_rung:
  assumes "exit_config_ok c" and "exit_state_ok s" and "fired_rungs s \<subseteq> {..<length (tp_ladder c)}"
  shows "length (filter (\<lambda>d. ed_reason d = TAKE_PROFIT) (exit_trace c s tks)) + card (fired_rungs s)
    \<le> length (tp_ladder c)"
  using assms by (rule tp_count_trace)

theorem take_profit_once_per_rung_witness:
  "length (filter (\<lambda>d. ed_reason d = TAKE_PROFIT)
     (exit_trace secure_balanced balanced_entry (replicate 9 (mark_at 300)))) \<le> 3"
  using take_profit_once_per_rung [OF preset_rungs(1) balanced_entry_ok, of "replicate 9 (mark_at 300)"]
  by (simp add: secure_balanced_def BALANCED_LADDER_def)

text \<open>
  A scale-out's float division is exact in its integer part: for shares and fractions in
  range, what is sold is the integer quotient, and a rung never sells the whole remainder, so a
  take-profit is always a partial reduction.
\<close>

theorem scale_out_exact_and_partial:
  assumes "exit_config_ok c" and "exit_state_ok s" and "0 < remaining_bps s" and "i < length (tp_ladder c)"
    and "b = min (rung_fraction_bps (tp_ladder c ! i)) (remaining_bps s)"
  shows "sold_of_original (remaining_bps s) b = remaining_bps s * b div 10000 \<and>
    (\<exists>d x. scale_out c s bt i = Inr d \<and> ed_intent d = Some (Reduce x) \<and> rd_fraction_bps x = b \<and>
       remaining_bps (ed_next_state d) = remaining_bps s - remaining_bps s * b div 10000 \<and>
       0 < remaining_bps (ed_next_state d))"
proof -
  have "0 \<le> b" "b \<le> 10000" "remaining_bps s \<le> 10000"
    using tp_rung_bounds [OF assms(1) nth_mem [OF assms(4)]] assms(2,3,5) by (auto simp: exit_state_ok_def)
  then have "sold_of_original (remaining_bps s) b = remaining_bps s * b div 10000"
    using assms(3) by (intro sold_of_original_eq) simp_all
  moreover obtain d x where "scale_out c s bt i = Inr d" "ed_intent d = Some (Reduce x)" "rd_fraction_bps x = b"
    "ed_next_state d = scaled_out c s i"
    using scale_out_returns(1) [OF assms(1-4), of bt] by (elim exE conjE) (simp add: assms(5))
  moreover have "remaining_bps (scaled_out c s i) = remaining_bps s - remaining_bps s * b div 10000"
    by (simp add: scaled_out_def assms(5))
  ultimately show ?thesis using scale_out_returns(3) [OF assms(1-4)] by simp
qed

theorem scale_out_exact_and_partial_witness: "sold_of_original 10000 3000 = 3000"
proof -
  have "tp_ladder secure_balanced = BALANCED_LADDER" by (simp add: secure_balanced_def)
  then have "0 < length (tp_ladder secure_balanced)"
    "3000 = min (rung_fraction_bps (tp_ladder secure_balanced ! 0)) (remaining_bps balanced_entry)"
    by (simp_all add: BALANCED_LADDER_def)
  from scale_out_exact_and_partial [OF preset_rungs(1) balanced_entry_ok _ this, THEN conjunct1]
  show ?thesis by simp
qed

text \<open>
  Every shipped preset is accepted by its own validators and yields, for any positive entry
  price, a well-formed state holding the whole position, whose hard stop is the survivable stop
  of the preset's drawdown.
\<close>

theorem presets_build_positions:
  assumes "preset label = Inr c" and "0 < entry" and "dec_rep entry"
  shows "exit_config_ok c \<and> (\<exists>s th. exit_state_at_entry m entry c = Inr s \<and> exit_state_ok s \<and>
    remaining_bps s = 10000 \<and> stop_thresholds c = Inr th \<and> th \<in> {3000, 4000, 4500} \<and>
    stop_at_entry m entry (Some th) = Inr (xs_stop s))"
proof -
  obtain l where "map_of AUTO_STRAT_PRESETS l = Some c"
    using assms(1) by (auto simp: preset_def Let_def split: option.splits)
  then have "c \<in> set (map snd AUTO_STRAT_PRESETS)" by (force dest: map_of_SomeD)
  then have ok: "exit_config_ok c" and "hard_stop_r c \<in> {3 / 5, 7 / 10, 11 / 20}"
    using presets_all by blast+
  then have "trunc (dmul (dsub 1 (hard_stop_r c)) 10000) \<in> {3000, 4000, 4500}"
    by (elim insertE emptyE) (simp_all only: preset_drawdowns insert_iff simp_thms)
  then obtain th where th: "stop_thresholds c = Inr th" "th \<in> {3000, 4000, 4500}"
    by (auto simp: stop_thresholds_def mk_StopThresholds_def)
  with exit_state_at_entry_returns [OF th(1) _ assms(2,3), of m] ok show ?thesis by auto
qed

theorem presets_build_positions_witness: "exit_config_ok secure_balanced"
proof -
  have "dec_rep 1" by (rule dec.rep_1)
  then show ?thesis
    using presets_build_positions [of None secure_balanced 1] by (simp add: preset_def AUTO_STRAT_PRESETS_def)
qed

end
