(* ===== verification/Fast_Loop.thy ===== *)
theory Fast_Loop
  imports Position_FSM Exit_Engine Breaker
begin

text \<open>
  The FAST loop, \<open>aats/controller/fast_loop.py\<close>, with the Layer-2 wiring of
  \<open>aats/controller/enforcer_wiring.py\<close>. \<open>PositionFSM\<close> objects are shared by reference between
  the registry and the running tick, so they live in a heap (\<open>fs_objs\<close>, indexed by address) and
  the registry maps mints to addresses. The venue is a parameter; its answer may depend on how
  many exits it has received (\<open>fs_exits\<close> is the log of its \<open>exit\<close> calls). The price feed is a
  parameter of the tick. A call that raises keeps the writes made before the raise. \<open>now\<close> is the
  store's clock reading. Logging, the wall-clock tick budget and telemetry are left out.
\<close>

subsection \<open>State\<close>

record fast_loop =
  fs_exit_config :: exit_config
  fs_cooldown_seconds :: int
  fs_store :: store
  fs_breaker :: breaker
  fs_objs :: "position list"
  fs_registry :: "(mint \<times> nat) list"
  fs_exit_states :: "(mint \<times> exit_state) list"
  fs_wiring :: "enforcer option"
  fs_heartbeat_seq :: int
  fs_exits :: "(intent \<times> position) list"

type_synonym venue = "nat \<Rightarrow> intent \<Rightarrow> position \<Rightarrow> fill_result"

datatype fast_action =
    Exit_mark_unavailable mint
  | Exit_full_action mint exit_reason
  | Exit_scale_out_action mint exit_reason
  | Exit_layer2_stop mint

text \<open>The object at an address, as the state machine sees it, and the write back.\<close>

definition fsm_at :: "fast_loop \<Rightarrow> nat \<Rightarrow> fsm" where
  "fsm_at fs i = (fs_store fs, fs_objs fs ! i)"

definition put_fsm :: "fast_loop \<Rightarrow> nat \<Rightarrow> fsm \<Rightarrow> fast_loop" where
  "put_fsm fs i f = fs\<lparr>fs_store := fst f, fs_objs := (fs_objs fs)[i := snd f]\<rparr>"

definition new_fsm :: "fast_loop \<Rightarrow> position \<Rightarrow> fast_loop \<times> nat" where
  "new_fsm fs p = (fs\<lparr>fs_objs := fs_objs fs @ [p]\<rparr>, length (fs_objs fs))"

text \<open>A transition under \<open>contextlib.suppress(ValueError)\<close>.\<close>

definition suppressed :: "fast_loop \<Rightarrow> nat \<Rightarrow> fsm result \<Rightarrow> fast_loop" where
  "suppressed fs i r = (case r of Inl _ \<Rightarrow> fs | Inr f \<Rightarrow> put_fsm fs i f)"

definition venue_exit :: "venue \<Rightarrow> fast_loop \<Rightarrow> intent \<Rightarrow> position \<Rightarrow> fast_loop \<times> fill_result" where
  "venue_exit venue fs x p =
     (fs\<lparr>fs_exits := fs_exits fs @ [(x, p)]\<rparr>, venue (length (fs_exits fs)) x p)"

subsection \<open>Emergency flatten\<close>

text \<open>An audit string with a prefix, and the reason the breaker hands to the flatten handler.\<close>

fun prefixed :: "string \<Rightarrow> audit \<Rightarrow> audit" where
  "prefixed pre (Audit kind xs) = Audit (pre @ kind) xs"

definition flatten_reason :: "audit option \<Rightarrow> audit" where
  "flatten_reason threshold =
     prefixed ''circuit_breaker_tripped:'' (case threshold of None \<Rightarrow> Audit ''None'' [] | Some t \<Rightarrow> t)"

definition emergency_intent :: "position \<Rightarrow> audit \<Rightarrow> intent" where
  "emergency_intent p why =
     Exit \<lparr>ex_client_intent_id = make_client_intent_id (pos_mint p) (entry_slot p) ''EMERGENCY_EXIT'',
           ex_mint = pos_mint p, ex_fraction_bps = 10000, ex_exit_mode = Secure,
           ex_reason = prefixed ''emergency_flatten:'' why\<rparr>"

definition flatten_position :: "venue \<Rightarrow> audit \<Rightarrow> fast_loop \<Rightarrow> position \<Rightarrow> fast_loop" where
  "flatten_position venue why fs p =
     (let m = pos_mint p in
      if fsm_state p = ENTERING then
        (let fs1 = (case map_of (fs_registry fs) m of
                      Some i \<Rightarrow> suppressed fs i (transition_to_vetoed (fsm_at fs i))
                    | None \<Rightarrow>
                        (case transition_to_vetoed (fs_store fs, p) of
                           Inl _ \<Rightarrow> fs | Inr f \<Rightarrow> fs\<lparr>fs_store := fst f\<rparr>)) in
         fs1\<lparr>fs_registry := dict_pop m (fs_registry fs1)\<rparr>)
      else if fsm_state p \<noteq> OPEN \<and> fsm_state p \<noteq> CLOSING then fs
      else case venue_exit venue fs (emergency_intent p why) p of (fs1, fill) \<Rightarrow>
        (case map_of (fs_registry fs1) m of
           None \<Rightarrow> fs1
         | Some i \<Rightarrow>
             let fs2 = (if fsm_state p = OPEN
                        then suppressed fs1 i (transition_to_closing (fsm_at fs1 i)) else fs1) in
             if landed fill then suppressed fs2 i (transition_to_closed (fsm_at fs2 i) 0) else fs2))"

definition emergency_flatten_all :: "venue \<Rightarrow> audit \<Rightarrow> fast_loop \<Rightarrow> fast_loop" where
  "emergency_flatten_all venue why fs =
     foldl (flatten_position venue why) fs (load_all_positions (fs_store fs))"

definition flatten_one :: "venue \<Rightarrow> audit \<Rightarrow> fast_loop \<Rightarrow> mint \<Rightarrow> fast_loop \<times> bool" where
  "flatten_one venue why fs m =
     (case load_position (fs_store fs) m of
        None \<Rightarrow> (fs, False)
      | Some p \<Rightarrow> (flatten_position venue why fs p, True))"

subsection \<open>Layer-2 wiring\<close>

definition wiring_deregister :: "fast_loop \<Rightarrow> mint \<Rightarrow> fast_loop" where
  "wiring_deregister fs m = fs\<lparr>fs_wiring := map_option (\<lambda>e. enf_deregister e m) (fs_wiring fs)\<rparr>"

definition wiring_arm :: "enforcer \<Rightarrow> mint \<Rightarrow> decimal \<Rightarrow> position \<Rightarrow> bps option \<Rightarrow> (enforcer \<times> stop_state) result" where
  "wiring_arm e m entry p thresholds =
     rbind (stop_at_entry m entry thresholds) (\<lambda>stop. Inr (enf_register e stop p, stop))"

text \<open>\<open>on_tick\<close> of the wiring: the heartbeat, then the breach check of every collected mark.\<close>

fun wiring_checks ::
    "venue \<Rightarrow> enforcer \<Rightarrow> (intent \<times> position) list \<Rightarrow> mark_tick list \<Rightarrow>
     (enforcer \<times> (intent \<times> position) list \<times> fill_result list) result" where
  "wiring_checks venue e exits [] = Inr (e, exits, [])"
| "wiring_checks venue e exits (tk # tks) =
     rbind (mk_MarkTick tk) (\<lambda>tk.
     rbind (enf_on_tick (venue (length exits)) e tk) (\<lambda>(e', sent, fill).
     rbind (wiring_checks venue e' (exits @ opt_list sent) tks) (\<lambda>(e'', exits', fills).
     Inr (e'', exits', opt_list fill @ fills))))"

subsection \<open>Exits of the loop\<close>

text \<open>
  The bookkeeping shared by \<open>_force_exit\<close>, \<open>_do_full_exit\<close> and the Layer-2 branch: closing and
  closed in one \<open>try\<close> block, so the second is skipped when the first raises.
\<close>

definition close_fsm :: "fast_loop \<Rightarrow> nat \<Rightarrow> fast_loop" where
  "close_fsm fs i =
     (case transition_to_closing (fsm_at fs i) of
        Inl _ \<Rightarrow> fs
      | Inr f \<Rightarrow> suppressed (put_fsm fs i f) i (transition_to_closed f 0))"

definition forget_mint :: "millis \<Rightarrow> fast_loop \<Rightarrow> mint \<Rightarrow> fast_loop" where
  "forget_mint now fs m =
     fs\<lparr>fs_registry := dict_pop m (fs_registry fs), fs_exit_states := dict_pop m (fs_exit_states fs),
        fs_store := set_cooldown (fs_store fs) m (fs_cooldown_seconds fs) now\<rparr>"

definition do_full_exit :: "venue \<Rightarrow> millis \<Rightarrow> fast_loop \<Rightarrow> nat \<Rightarrow> intent \<Rightarrow> fast_loop" where
  "do_full_exit venue now fs i x =
     (let fs1 = close_fsm (fst (venue_exit venue fs x (fs_objs fs ! i))) i;
          m = pos_mint (fs_objs fs1 ! i) in
      forget_mint now (wiring_deregister fs1 m) m)"

definition force_exit :: "venue \<Rightarrow> millis \<Rightarrow> audit \<Rightarrow> fast_loop \<Rightarrow> nat \<Rightarrow> fast_loop" where
  "force_exit venue now why fs i =
     (let p = fs_objs fs ! i in
      do_full_exit venue now fs i
        (Exit \<lparr>ex_client_intent_id = make_client_intent_id (pos_mint p) (entry_slot p) ''FORCE_EXIT'',
               ex_mint = pos_mint p, ex_fraction_bps = 10000, ex_exit_mode = Secure, ex_reason = why\<rparr>))"

definition do_scale_out :: "venue \<Rightarrow> fast_loop \<Rightarrow> nat \<Rightarrow> intent \<Rightarrow> fast_loop" where
  "do_scale_out venue fs i x = fst (venue_exit venue fs x (fs_objs fs ! i))"

subsection \<open>Fill reconciliation\<close>

definition estimate_entry_price :: "position \<Rightarrow> decimal" where
  "estimate_entry_price p =
     (if tokens_out_base p > 0 then ddiv (of_int (sol_in_lamports p)) (of_int (tokens_out_base p)) else 1)"

text \<open>The object registered for a mint, or a fresh one for the position read from the store.\<close>

definition fsm_for :: "fast_loop \<Rightarrow> mint \<Rightarrow> position \<Rightarrow> fast_loop \<times> nat" where
  "fsm_for fs m p = (case map_of (fs_registry fs) m of Some i \<Rightarrow> (fs, i) | None \<Rightarrow> new_fsm fs p)"

text \<open>A price of zero stands for the string \<open>0\<close> of a fill without a price.\<close>

definition fill_entry_price :: "fill_result \<Rightarrow> decimal" where
  "fill_entry_price fill = (if effective_price fill \<noteq> 0 then effective_price fill else 1)"

definition arm_layer2 :: "fast_loop \<Rightarrow> mint \<Rightarrow> decimal \<Rightarrow> position \<Rightarrow> fast_loop \<times> bool result" where
  "arm_layer2 fs m entry p =
     (case fs_wiring fs of
        None \<Rightarrow> (fs, Inr True)
      | Some e \<Rightarrow>
          (case wiring_arm e m entry p None of
             Inl err \<Rightarrow> (fs, Inl err)
           | Inr (e', _) \<Rightarrow> (fs\<lparr>fs_wiring := Some e'\<rparr>, Inr True)))"

definition reconcile_fill :: "millis \<Rightarrow> fast_loop \<Rightarrow> mint \<Rightarrow> fill_result \<Rightarrow> fast_loop \<times> bool result" where
  "reconcile_fill now fs m fill =
     (case load_position (fs_store fs) m of
        None \<Rightarrow> (fs, Inr False)
      | Some p \<Rightarrow>
          if fsm_state p \<noteq> ENTERING then (fs, Inr False)
          else case fsm_for fs m p of (fs1, i) \<Rightarrow>
          if \<not> landed fill
          then (forget_mint now (suppressed fs1 i (transition_to_vetoed (fsm_at fs1 i))) m, Inr True)
          else case transition_to_open (fsm_at fs1 i) fill of
            Inl _ \<Rightarrow> (fs1, Inr False)
          | Inr f \<Rightarrow>
              let fs2 = put_fsm fs1 i f;
                  fs3 = fs2\<lparr>fs_registry := dict_set m i (fs_registry fs2)\<rparr>;
                  entry = fill_entry_price fill in
              (case exit_state_at_entry m entry (fs_exit_config fs3) of
                 Inl e \<Rightarrow> (fs3, Inl e)
               | Inr xs \<Rightarrow>
                   arm_layer2 (fs3\<lparr>fs_exit_states := dict_set m xs (fs_exit_states fs3)\<rparr>) m entry
                     (fs_objs fs3 ! i)))"

subsection \<open>Registry synchronisation\<close>

fun sync_add :: "fast_loop \<Rightarrow> position list \<Rightarrow> fast_loop \<times> unit result" where
  "sync_add fs [] = (fs, Inr ())"
| "sync_add fs (p # ps) =
     (let m = pos_mint p in
      if map_of (fs_registry fs) m \<noteq> None then sync_add fs ps
      else case new_fsm fs p of (fs1, i) \<Rightarrow>
        let fs2 = fs1\<lparr>fs_registry := dict_set m i (fs_registry fs1)\<rparr> in
        if fsm_state p = OPEN \<and> map_of (fs_exit_states fs2) m = None
        then (case exit_state_at_entry m (estimate_entry_price p) (fs_exit_config fs2) of
                Inl e \<Rightarrow> (fs2, Inl e)
              | Inr xs \<Rightarrow> sync_add (fs2\<lparr>fs_exit_states := dict_set m xs (fs_exit_states fs2)\<rparr>) ps)
        else sync_add fs2 ps)"

definition sync_drop :: "fast_loop \<Rightarrow> mint \<Rightarrow> fast_loop" where
  "sync_drop fs m =
     fs\<lparr>fs_registry := dict_pop m (fs_registry fs), fs_exit_states := dict_pop m (fs_exit_states fs)\<rparr>"

definition sync_registry :: "fast_loop \<Rightarrow> fast_loop \<times> unit result" where
  "sync_registry fs =
     (let ps = load_all_positions (fs_store fs) in
      case sync_add fs ps of
        (fs1, Inl e) \<Rightarrow> (fs1, Inl e)
      | (fs1, Inr _) \<Rightarrow>
          (foldl sync_drop fs1 (filter (\<lambda>m. m \<notin> set (map pos_mint ps)) (dict_keys (fs_registry fs1))),
           Inr ()))"

subsection \<open>The tick\<close>

text \<open>
  The PnL part of a position's tick: mark to market, the event to the breaker, the flatten of the
  whole book when the breaker trips on it, the projection of the breaker state.
\<close>

definition tick_pnl ::
    "venue \<Rightarrow> millis \<Rightarrow> fast_loop \<Rightarrow> mint \<Rightarrow> nat \<Rightarrow> position \<Rightarrow> exit_state \<Rightarrow> decimal \<Rightarrow> fast_loop \<times> unit result" where
  "tick_pnl venue bt fs m i pos xs mark =
     (if \<not> (xs_entry_fill_price xs > 0 \<and> tokens_out_base pos > 0) then (fs, Inr ())
      else let unrealized = trunc (dmul (dsub mark (xs_entry_fill_price xs)) (of_int (tokens_out_base pos)));
               fs1 = put_fsm fs i (update_unrealized_pnl (fsm_at fs i) unrealized) in
           case mk_PnLEvent \<lparr>pe_mint = m, pe_block_time_ms = bt,
                             pe_delta_lamports = unrealized - unrealized_pnl_net_lamports pos\<rparr> of
             Inl e \<Rightarrow> (fs1, Inl e)
           | Inr ev \<Rightarrow>
               (case record_pnl (\<lambda>_. None) (fs_breaker fs1) ev of (b', r) \<Rightarrow>
                let fs2 = fs1\<lparr>fs_breaker := b'\<rparr>;
                    fs3 = (if b_flattens b' = b_flattens (fs_breaker fs1) then fs2
                           else emergency_flatten_all venue (flatten_reason (last (b_flattens b'))) fs2) in
                case r of
                  Inl e \<Rightarrow> (fs3, Inl e)
                | Inr st \<Rightarrow> (fs3\<lparr>fs_store := save_breaker_state (fs_store fs3) st\<rparr>, Inr ())))"

definition read_flags :: "millis \<Rightarrow> fast_loop \<Rightarrow> mint \<Rightarrow> fast_loop \<times> bool \<times> bool \<times> bool \<times> bool" where
  "read_flags now fs m =
     (case get_narrative_failure_flag (fs_store fs) m now of (s1, narrative) \<Rightarrow>
      case get_insider_dump_flag s1 m now of (s2, insider) \<Rightarrow>
      case get_sellability_degraded_flag s2 m now of (s3, sellability) \<Rightarrow>
      case get_lp_unlock_approaching_flag s3 m now of (s4, lp_unlock) \<Rightarrow>
      (fs\<lparr>fs_store := s4\<rparr>, narrative, insider, sellability, lp_unlock))"

definition act_on :: "venue \<Rightarrow> millis \<Rightarrow> fast_loop \<Rightarrow> mint \<Rightarrow> nat \<Rightarrow> exit_decision \<Rightarrow> fast_loop \<times> fast_action list" where
  "act_on venue now fs m i d =
     (case ed_intent d of
        None \<Rightarrow> (fs, [])
      | Some x \<Rightarrow>
          if is_full_exit d
          then (do_full_exit venue now fs i x, [Exit_full_action m (ed_reason d)])
          else let fs1 = do_scale_out venue fs i x in
               (put_fsm fs1 i (record_tp_hit (fsm_at fs1 i)), [Exit_scale_out_action m (ed_reason d)]))"

definition tick_position ::
    "venue \<Rightarrow> (mint \<Rightarrow> decimal option) \<Rightarrow> millis \<Rightarrow> millis \<Rightarrow> fast_loop \<Rightarrow> mint \<Rightarrow>
     fast_loop \<times> (mark_tick list \<times> fast_action list) result" where
  "tick_position venue price now bt fs m =
     (case map_of (fs_registry fs) m of
        None \<Rightarrow> (fs, Inr ([], []))
      | Some i \<Rightarrow>
          let pos = fs_objs fs ! i in
          if fsm_state pos \<noteq> OPEN then (fs, Inr ([], []))
          else case price m of
            None \<Rightarrow>
              (force_exit venue now (Audit ''mark_price_unavailable'' []) (wiring_deregister fs m) i,
               Inr ([], [Exit_mark_unavailable m]))
          | Some mark \<Rightarrow>
              let ticks = (if fs_wiring fs = None then []
                           else [\<lparr>mt_mint = m, mt_mark_price = mark, mt_block_time_ms = bt\<rparr>]) in
              (case read_flags now fs m of (fs1, narrative, insider, sellability, lp_unlock) \<Rightarrow>
               case map_of (fs_exit_states fs1) m of
                 None \<Rightarrow> (fs1, Inr (ticks, []))
               | Some xs \<Rightarrow>
                   (case exit_on_tick (fs_exit_config fs1) xs
                           \<lparr>tk_mark_price = mark, tk_block_time_ms = bt, tk_narrative_failure = narrative,
                            tk_insider_dump = insider, tk_sellability_degraded = sellability,
                            tk_lp_unlock_approaching = lp_unlock, tk_narrative_score = None\<rparr> of
                      Inl e \<Rightarrow> (fs1, Inl e)
                    | Inr d \<Rightarrow>
                        let fs2 = fs1\<lparr>fs_exit_states := dict_set m (ed_next_state d) (fs_exit_states fs1)\<rparr> in
                        (case tick_pnl venue bt fs2 m i pos xs mark of
                           (fs3, Inl e) \<Rightarrow> (fs3, Inl e)
                         | (fs3, Inr _) \<Rightarrow>
                             (case act_on venue now fs3 m i d of (fs4, acts) \<Rightarrow> (fs4, Inr (ticks, acts)))))))"

fun tick_positions ::
    "venue \<Rightarrow> (mint \<Rightarrow> decimal option) \<Rightarrow> millis \<Rightarrow> millis \<Rightarrow> fast_loop \<Rightarrow> mint list \<Rightarrow>
     fast_loop \<times> (mark_tick list \<times> fast_action list) result" where
  "tick_positions venue price now bt fs [] = (fs, Inr ([], []))"
| "tick_positions venue price now bt fs (m # ms) =
     (case tick_position venue price now bt fs m of
        (fs1, Inl e) \<Rightarrow> (fs1, Inl e)
      | (fs1, Inr (ticks, acts)) \<Rightarrow>
          (case tick_positions venue price now bt fs1 ms of
             (fs2, Inl e) \<Rightarrow> (fs2, Inl e)
           | (fs2, Inr (ticks', acts')) \<Rightarrow> (fs2, Inr (ticks @ ticks', acts @ acts'))))"

definition layer2_close :: "millis \<Rightarrow> fast_loop \<times> fast_action list \<Rightarrow> mint \<Rightarrow> fast_loop \<times> fast_action list" where
  "layer2_close now st m =
     (case st of (fs, acts) \<Rightarrow>
      case map_of (fs_registry fs) m of
        None \<Rightarrow> (fs, acts)
      | Some i \<Rightarrow> (forget_mint now (close_fsm fs i) m, acts @ [Exit_layer2_stop m]))"

definition tick_layer2 :: "venue \<Rightarrow> millis \<Rightarrow> fast_loop \<Rightarrow> mark_tick list \<Rightarrow> fast_loop \<times> fast_action list result" where
  "tick_layer2 venue now fs ticks =
     (case fs_wiring fs of
        None \<Rightarrow> (fs, Inr [])
      | Some e \<Rightarrow>
          let fs0 = fs\<lparr>fs_heartbeat_seq := fs_heartbeat_seq fs + 1\<rparr> in
          (case wiring_checks venue e (fs_exits fs0) ticks of
             Inl err \<Rightarrow> (fs0, Inl err)
           | Inr (e', exits, _) \<Rightarrow>
               let fs1 = fs0\<lparr>fs_wiring := Some e', fs_exits := exits\<rparr>;
                   fired = filter (\<lambda>m. m \<notin> armed_mints e') (dict_keys e) in
               (case foldl (layer2_close now) (fs1, []) fired of (fs2, acts) \<Rightarrow> (fs2, Inr acts))))"

definition fast_tick ::
    "venue \<Rightarrow> (mint \<Rightarrow> decimal option) \<Rightarrow> millis \<Rightarrow> millis \<Rightarrow> fast_loop \<Rightarrow> fast_loop \<times> fast_action list result" where
  "fast_tick venue price now bt fs =
     (let fs0 = fs\<lparr>fs_store := emit_heartbeat (fs_store fs) bt now\<rparr> in
      case sync_registry fs0 of
        (fs1, Inl e) \<Rightarrow> (fs1, Inl e)
      | (fs1, Inr _) \<Rightarrow>
          (case tick_positions venue price now bt fs1 (dict_keys (fs_registry fs1)) of
             (fs2, Inl e) \<Rightarrow> (fs2, Inl e)
           | (fs2, Inr (ticks, acts)) \<Rightarrow>
               (case tick_layer2 venue now fs2 ticks of
                  (fs3, Inl e) \<Rightarrow> (fs3, Inl e)
                | (fs3, Inr acts') \<Rightarrow> (fs3, Inr (acts @ acts')))))"

subsection \<open>Moves that only shed risk\<close>

text \<open>
  How a step of the loop moves its state: the log of exits grows by de-risk intents only, the
  configuration is kept, and well-formed exit states stay well-formed.
\<close>

definition exits_ok :: "fast_loop \<Rightarrow> bool" where
  "exits_ok fs \<longleftrightarrow>
     exit_config_ok (fs_exit_config fs) \<and> (\<forall>(m, xs) \<in> set (fs_exit_states fs). exit_state_ok xs)"

definition fast_moves :: "fast_loop \<Rightarrow> fast_loop \<Rightarrow> bool" where
  "fast_moves fs gs \<longleftrightarrow>
     (exits_ok fs \<longrightarrow>
       fs_exit_config gs = fs_exit_config fs \<and> exits_ok gs \<and>
       (\<exists>new. fs_exits gs = fs_exits fs @ new \<and> (\<forall>(x, p) \<in> set new. derisk_intent x)))"

lemma fast_moves_refl [simp]: "fast_moves fs fs"
  by (simp add: fast_moves_def)

lemma fast_moves_assume: "(exits_ok fs \<Longrightarrow> fast_moves fs gs) \<Longrightarrow> fast_moves fs gs"
  by (simp add: fast_moves_def)

lemma fast_moves_trans [trans]:
  assumes "fast_moves fs gs" and "fast_moves gs hs"
  shows "fast_moves fs hs"
proof (rule fast_moves_assume)
  assume "exits_ok fs"
  with assms obtain a b where "fs_exits gs = fs_exits fs @ a" "\<forall>(x, p) \<in> set a. derisk_intent x"
    "fs_exits hs = fs_exits gs @ b" "\<forall>(x, p) \<in> set b. derisk_intent x"
    by (auto simp: fast_moves_def)
  then have "fs_exits hs = fs_exits fs @ (a @ b) \<and> (\<forall>(x, p) \<in> set (a @ b). derisk_intent x)" by auto
  with assms show ?thesis unfolding fast_moves_def by metis
qed

lemma fast_moves_frame:
  assumes "fs_exit_config gs = fs_exit_config fs" and "fs_exits gs = fs_exits fs"
    and "set (fs_exit_states gs) \<subseteq> set (fs_exit_states fs)"
  shows "fast_moves fs gs"
  using assms by (auto simp: fast_moves_def exits_ok_def)

lemma fast_moves_exit:
  assumes "fs_exit_config gs = fs_exit_config fs" and "fs_exits gs = fs_exits fs @ [(x, p)]"
    and "fs_exit_states gs = fs_exit_states fs" and "derisk_intent x"
  shows "fast_moves fs gs"
  using assms by (auto simp: fast_moves_def exits_ok_def)

lemma set_dict_pop: "set (dict_pop k d) \<subseteq> set d"
  by (auto simp: dict_pop_def)

lemma put_fsm_frame [simp]:
  "fs_exit_config (put_fsm fs i f) = fs_exit_config fs" "fs_exits (put_fsm fs i f) = fs_exits fs"
  "fs_exit_states (put_fsm fs i f) = fs_exit_states fs" "fs_registry (put_fsm fs i f) = fs_registry fs"
  "fs_wiring (put_fsm fs i f) = fs_wiring fs" "fs_breaker (put_fsm fs i f) = fs_breaker fs"
  "fs_store (put_fsm fs i f) = fst f"
  by (simp_all add: put_fsm_def)

lemma suppressed_frame [simp]:
  "fs_exit_config (suppressed fs i r) = fs_exit_config fs" "fs_exits (suppressed fs i r) = fs_exits fs"
  "fs_exit_states (suppressed fs i r) = fs_exit_states fs" "fs_registry (suppressed fs i r) = fs_registry fs"
  "fs_wiring (suppressed fs i r) = fs_wiring fs" "fs_breaker (suppressed fs i r) = fs_breaker fs"
  by (simp_all add: suppressed_def split: sum.split)

lemma close_fsm_frame [simp]:
  "fs_exit_config (close_fsm fs i) = fs_exit_config fs" "fs_exits (close_fsm fs i) = fs_exits fs"
  "fs_exit_states (close_fsm fs i) = fs_exit_states fs" "fs_registry (close_fsm fs i) = fs_registry fs"
  "fs_wiring (close_fsm fs i) = fs_wiring fs"
  by (simp_all add: close_fsm_def split: sum.split)

lemma forget_mint_frame [simp]:
  "fs_exit_config (forget_mint now fs m) = fs_exit_config fs" "fs_exits (forget_mint now fs m) = fs_exits fs"
  "fs_exit_states (forget_mint now fs m) = dict_pop m (fs_exit_states fs)"
  "fs_registry (forget_mint now fs m) = dict_pop m (fs_registry fs)"
  by (simp_all add: forget_mint_def)

lemma wiring_deregister_frame [simp]:
  "fs_exit_config (wiring_deregister fs m) = fs_exit_config fs" "fs_exits (wiring_deregister fs m) = fs_exits fs"
  "fs_exit_states (wiring_deregister fs m) = fs_exit_states fs"
  "fs_registry (wiring_deregister fs m) = fs_registry fs" "fs_objs (wiring_deregister fs m) = fs_objs fs"
  "fs_store (wiring_deregister fs m) = fs_store fs"
  by (simp_all add: wiring_deregister_def)

lemma new_fsm_frame [simp]:
  "fs_exit_config (fst (new_fsm fs p)) = fs_exit_config fs" "fs_exits (fst (new_fsm fs p)) = fs_exits fs"
  "fs_exit_states (fst (new_fsm fs p)) = fs_exit_states fs" "fs_registry (fst (new_fsm fs p)) = fs_registry fs"
  "fs_store (fst (new_fsm fs p)) = fs_store fs"
  by (simp_all add: new_fsm_def)

lemma forget_moves: "fast_moves fs (forget_mint now fs m)"
  by (rule fast_moves_frame) (simp_all add: set_dict_pop)

lemma emergency_intent_derisk [simp]: "derisk_intent (emergency_intent p why)"
  by (simp add: emergency_intent_def)

lemma flatten_position_exits:
  "fs_exits (flatten_position venue why fs p) =
     fs_exits fs @ (if fsm_state p = OPEN \<or> fsm_state p = CLOSING then [(emergency_intent p why, p)] else [])"
  "fs_exit_states (flatten_position venue why fs p) = fs_exit_states fs"
  "fs_exit_config (flatten_position venue why fs p) = fs_exit_config fs"
  by (simp_all add: flatten_position_def Let_def venue_exit_def split: option.split sum.split)

lemma flatten_position_moves: "fast_moves fs (flatten_position venue why fs p)"
  by (auto simp: fast_moves_def exits_ok_def flatten_position_exits)

lemma flatten_fold:
  "fs_exits (foldl (flatten_position venue why) fs ps) =
     fs_exits fs @ map (\<lambda>p. (emergency_intent p why, p)) (filter (\<lambda>p. fsm_state p = OPEN \<or> fsm_state p = CLOSING) ps)"
  by (induction ps arbitrary: fs) (simp_all add: flatten_position_exits)

lemma flatten_all_moves: "fast_moves fs (emergency_flatten_all venue why fs)"
proof -
  have "fast_moves fs (foldl (flatten_position venue why) fs ps)" for ps
    by (induction ps arbitrary: fs) (auto intro: fast_moves_trans flatten_position_moves)
  then show ?thesis by (simp add: emergency_flatten_all_def)
qed

lemma do_full_exit_moves:
  assumes "derisk_intent x"
  shows "fast_moves fs (do_full_exit venue now fs i x)"
proof -
  have "fast_moves fs (close_fsm (fst (venue_exit venue fs x (fs_objs fs ! i))) i)" (is "fast_moves fs ?c")
    by (rule fast_moves_exit [OF _ _ _ assms]) (simp_all add: venue_exit_def)
  also have "fast_moves ?c (wiring_deregister ?c m)" for m by (rule fast_moves_frame) simp_all
  also have "fast_moves (wiring_deregister ?c m) (forget_mint now (wiring_deregister ?c m) m)" for m
    by (rule forget_moves)
  finally show ?thesis by (simp add: do_full_exit_def Let_def)
qed

lemma at_entry_ok: "exit_state_at_entry m entry c = Inr xs \<Longrightarrow> exit_state_ok xs"
  by (auto simp: exit_state_at_entry_def result_simps mk_ExitState_iff)

lemma set_exit_state_moves:
  assumes "exits_ok fs \<Longrightarrow> exit_state_ok xs" and "fs_exit_config gs = fs_exit_config fs"
    and "fs_exits gs = fs_exits fs" and "fs_exit_states gs = dict_set m xs (fs_exit_states fs)"
  shows "fast_moves fs gs"
  using assms by (auto simp: fast_moves_def exits_ok_def dest!: dict_set_entries)

definition register_new :: "fast_loop \<Rightarrow> position \<Rightarrow> fast_loop" where
  "register_new fs p =
     (case new_fsm fs p of (fs1, i) \<Rightarrow> fs1\<lparr>fs_registry := dict_set (pos_mint p) i (fs_registry fs1)\<rparr>)"

lemma register_new_frame [simp]:
  "fs_exit_config (register_new fs p) = fs_exit_config fs" "fs_exits (register_new fs p) = fs_exits fs"
  "fs_exit_states (register_new fs p) = fs_exit_states fs" "fs_store (register_new fs p) = fs_store fs"
  by (simp_all add: register_new_def new_fsm_def)

lemma sync_add_Cons:
  "sync_add fs (p # ps) =
     (if map_of (fs_registry fs) (pos_mint p) \<noteq> None then sync_add fs ps
      else if fsm_state p = OPEN \<and> map_of (fs_exit_states fs) (pos_mint p) = None
      then (case exit_state_at_entry (pos_mint p) (estimate_entry_price p) (fs_exit_config fs) of
              Inl e \<Rightarrow> (register_new fs p, Inl e)
            | Inr xs \<Rightarrow>
                sync_add (register_new fs p\<lparr>fs_exit_states := dict_set (pos_mint p) xs (fs_exit_states fs)\<rparr>) ps)
      else sync_add (register_new fs p) ps)"
  by (simp add: Let_def register_new_def new_fsm_def split: sum.split)

lemma sync_add_moves: "fast_moves fs (fst (sync_add fs ps))"
proof (induction ps arbitrary: fs)
  case (Cons p ps)
  have reg: "fast_moves fs (register_new fs p)" by (rule fast_moves_frame) simp_all
  have set: "fast_moves fs (register_new fs p\<lparr>fs_exit_states := dict_set (pos_mint p) xs (fs_exit_states fs)\<rparr>)"
    if "exit_state_at_entry (pos_mint p) (estimate_entry_price p) (fs_exit_config fs) = Inr xs" for xs
    by (rule set_exit_state_moves [OF at_entry_ok [OF that]]) simp_all
  show ?case
    unfolding sync_add_Cons
    using Cons.IH reg set by (auto intro: fast_moves_trans split: sum.split)
qed simp

lemma sync_registry_moves: "fast_moves fs (fst (sync_registry fs))"
proof -
  have drop: "fast_moves gs (foldl sync_drop gs ms)" for gs ms
  proof (induction ms arbitrary: gs)
    case (Cons m ms)
    have "fast_moves gs (sync_drop gs m)" by (rule fast_moves_frame) (simp_all add: sync_drop_def set_dict_pop)
    with Cons show ?case by (auto intro: fast_moves_trans)
  qed simp
  show ?thesis
    using sync_add_moves [of fs "load_all_positions (fs_store fs)"] drop
    by (auto simp: sync_registry_def Let_def split: prod.split sum.split intro: fast_moves_trans)
qed

subsection \<open>Moves of the tick\<close>

lemma moves_upd_store [simp]: "fast_moves fs (gs\<lparr>fs_store := s\<rparr>) = fast_moves fs gs"
  by (simp add: fast_moves_def exits_ok_def)

lemma moves_upd_breaker [simp]: "fast_moves fs (gs\<lparr>fs_breaker := b\<rparr>) = fast_moves fs gs"
  by (simp add: fast_moves_def exits_ok_def)

lemma moves_upd_wiring [simp]: "fast_moves fs (gs\<lparr>fs_wiring := w\<rparr>) = fast_moves fs gs"
  by (simp add: fast_moves_def exits_ok_def)

lemma moves_put_fsm [simp]: "fast_moves fs (put_fsm gs i f) = fast_moves fs gs"
  by (simp add: fast_moves_def exits_ok_def)

lemma tick_pnl_moves: "fast_moves fs (fst (tick_pnl venue bt fs m i pos xs mark))"
proof -
  have "fast_moves fs (emergency_flatten_all venue why gs)" if "fast_moves fs gs" for gs why
    by (rule fast_moves_trans [OF that flatten_all_moves])
  then show ?thesis by (simp add: tick_pnl_def Let_def split: sum.split prod.split)
qed

lemma act_on_moves:
  assumes "\<And>x. ed_intent d = Some x \<Longrightarrow> derisk_intent x"
  shows "fast_moves fs (fst (act_on venue now fs m i d))"
proof -
  have "fast_moves fs (do_scale_out venue fs i x)" if "ed_intent d = Some x" for x
    by (rule fast_moves_exit [OF _ _ _ assms [OF that]]) (simp_all add: do_scale_out_def venue_exit_def)
  then show ?thesis
    using assms by (auto simp: act_on_def Let_def intro: do_full_exit_moves split: option.split)
qed

lemma read_flags_moves: "fast_moves fs (fst (read_flags now fs m))"
  by (simp add: read_flags_def split: prod.split)

lemma force_exit_moves: "fast_moves fs (force_exit venue now why fs i)"
  unfolding force_exit_def Let_def by (rule do_full_exit_moves) simp

lemma exit_decision_ok:
  assumes "exits_ok fs" and "map_of (fs_exit_states fs) m = Some xs"
    and "exit_on_tick (fs_exit_config fs) xs tk = Inr d"
  shows "exit_state_ok (ed_next_state d)" and "ed_intent d = Some x \<Longrightarrow> derisk_intent x"
proof -
  have ok: "exit_config_ok (fs_exit_config fs)" "exit_state_ok xs"
    using assms(1) map_of_SomeD [OF assms(2)] by (auto simp: exits_ok_def)
  show "exit_state_ok (ed_next_state d)"
    using exit_step_moves [OF ok, of tk] assms(3) by (simp add: exit_step_def exit_moves_def)
  show "derisk_intent x" if "ed_intent d = Some x"
    by (rule exit_on_tick_intent [OF ok assms(3) that])
qed

lemma tick_position_moves: "fast_moves fs (fst (tick_position venue price now bt fs m))"
proof (rule fast_moves_assume)
  assume ok: "exits_ok fs"
  have forced: "fast_moves fs (force_exit venue now why (wiring_deregister fs m) i)" for why i
    by (rule fast_moves_trans [OF fast_moves_frame force_exit_moves]) simp_all
  obtain fs1 flags where rf: "read_flags now fs m = (fs1, flags)" by (cases "read_flags now fs m")
  have m1: "fast_moves fs fs1" using read_flags_moves [of fs now m] by (simp add: rf)
  have ok1: "exits_ok fs1" using m1 ok by (simp add: fast_moves_def)
  have decided: "fast_moves fs (fst (tick_pnl venue bt fs2 m i pos xs mark))"
    "fast_moves fs (fst (act_on venue now (fst (tick_pnl venue bt fs2 m i pos xs mark)) m i d))"
    if "map_of (fs_exit_states fs1) m = Some xs" "exit_on_tick (fs_exit_config fs1) xs tk = Inr d"
      "fs2 = fs1\<lparr>fs_exit_states := dict_set m (ed_next_state d) (fs_exit_states fs1)\<rparr>"
    for xs tk d fs2 i pos mark
  proof -
    note d = exit_decision_ok [OF ok1 that(1,2)]
    have "fast_moves fs1 fs2" by (rule set_exit_state_moves [OF d(1)]) (simp_all add: that(3))
    with m1 have "fast_moves fs fs2" by (rule fast_moves_trans)
    then show t: "fast_moves fs (fst (tick_pnl venue bt fs2 m i pos xs mark))"
      by (rule fast_moves_trans [OF _ tick_pnl_moves])
    show "fast_moves fs (fst (act_on venue now (fst (tick_pnl venue bt fs2 m i pos xs mark)) m i d))"
      by (rule fast_moves_trans [OF t act_on_moves [OF d(2)]])
  qed
  show "fast_moves fs (fst (tick_position venue price now bt fs m))"
    using forced m1 decided
    by (auto simp: tick_position_def Let_def rf case_prod_beta split: option.split sum.split prod.split)
qed

lemma tick_positions_moves: "fast_moves fs (fst (tick_positions venue price now bt fs ms))"
proof (induction ms arbitrary: fs)
  case (Cons m ms)
  have "fast_moves gs hs" if "tick_positions venue price now bt gs ms = (hs, r)" for gs hs r
    using Cons.IH [of gs] that by simp
  then show ?case
    using tick_position_moves [of fs venue price now bt m]
    by (auto split: prod.split sum.split intro: fast_moves_trans)
qed simp

lemma enf_on_tick_derisk:
  "enf_on_tick v e tk = Inr (e', sent, fill) \<Longrightarrow> sent = Some (x, p) \<Longrightarrow> derisk_intent x"
  by (auto simp: enf_on_tick_def result_simps dest: factory_derisk split: if_splits option.splits)

lemma wiring_checks_derisk:
  "wiring_checks venue e exits tks = Inr (e', exits', fills) \<Longrightarrow>
     \<exists>new. exits' = exits @ new \<and> (\<forall>(x, p) \<in> set new. derisk_intent x)"
proof (induction tks arbitrary: e exits fills)
  case (Cons tk tks)
  then obtain e1 sent fill fills1 where
    s: "enf_on_tick (venue (length exits)) e tk = Inr (e1, sent, fill)"
    and r: "wiring_checks venue e1 (exits @ opt_list sent) tks = Inr (e', exits', fills1)"
    by (auto simp: result_simps mk_MarkTick_def split: if_splits)
  obtain new where new: "exits' = (exits @ opt_list sent) @ new" "\<forall>(x, p) \<in> set new. derisk_intent x"
    using Cons.IH [OF r] by blast
  then show ?case
    using enf_on_tick_derisk [OF s] by (intro exI [of _ "opt_list sent @ new"]) (cases sent; auto)
qed simp

lemma layer2_close_moves: "fast_moves fs (fst (foldl (layer2_close now) (fs, acts) ms))"
proof (induction ms arbitrary: fs acts)
  case (Cons m ms)
  obtain gs acts' where c: "layer2_close now (fs, acts) m = (gs, acts')" by (cases "layer2_close now (fs, acts) m")
  have close: "fast_moves fs (close_fsm fs i)" for i by (rule fast_moves_frame) simp_all
  have "fast_moves fs gs"
    using c fast_moves_trans [OF close forget_moves]
    by (auto simp: layer2_close_def split: option.splits)
  from fast_moves_trans [OF this Cons.IH] show ?case by (simp add: c)
qed simp

lemma tick_layer2_moves: "fast_moves fs (fst (tick_layer2 venue now fs ticks))"
proof -
  have checked: "fast_moves fs (fs\<lparr>fs_heartbeat_seq := n, fs_wiring := Some e', fs_exits := exits\<rparr>)"
    if "wiring_checks venue e (fs_exits fs) ticks = Inr (e', exits, fills)" for n e e' exits fills
    using wiring_checks_derisk [OF that] by (auto simp: fast_moves_def exits_ok_def)
  have beat: "fast_moves fs (fs\<lparr>fs_heartbeat_seq := n\<rparr>)" for n
    by (rule fast_moves_frame) simp_all
  show ?thesis
    using beat fast_moves_trans [OF checked layer2_close_moves]
    by (auto simp: tick_layer2_def Let_def case_prod_beta split: option.split sum.split prod.split)
qed

lemma fast_tick_moves: "fast_moves fs (fst (fast_tick venue price now bt fs))"
proof -
  define fs0 where "fs0 = fs\<lparr>fs_store := emit_heartbeat (fs_store fs) bt now\<rparr>"
  have m0: "fast_moves fs fs0" by (simp add: fs0_def)
  obtain fs1 r where s: "sync_registry fs0 = (fs1, r)" by (cases "sync_registry fs0")
  have m1: "fast_moves fs fs1" using fast_moves_trans [OF m0 sync_registry_moves] s by (metis fst_conv)
  obtain fs2 r2 where t: "tick_positions venue price now bt fs1 (dict_keys (fs_registry fs1)) = (fs2, r2)"
    by (cases "tick_positions venue price now bt fs1 (dict_keys (fs_registry fs1))")
  have m2: "fast_moves fs fs2" using fast_moves_trans [OF m1 tick_positions_moves] t by (metis fst_conv)
  have m3: "fast_moves fs (fst (tick_layer2 venue now fs2 ticks))" for ticks
    by (rule fast_moves_trans [OF m2 tick_layer2_moves])
  show ?thesis
    using m1 m2 m3
    by (auto simp: fast_tick_def Let_def fs0_def [symmetric] s t case_prod_beta split: sum.split prod.split)
qed

subsection \<open>What a flatten leaves behind\<close>

text \<open>
  A position the loop tracks: its record in the store is the object its registry entry points to.
\<close>

definition synced_at :: "fast_loop \<Rightarrow> position \<Rightarrow> bool" where
  "synced_at fs p \<longleftrightarrow>
     load_position (fs_store fs) (pos_mint p) = Some p \<and>
     (\<exists>i < length (fs_objs fs). map_of (fs_registry fs) (pos_mint p) = Some i \<and> fs_objs fs ! i = p)"

lemmas store_reads = table.load_save table.load_del

lemma flatten_position_own:
  assumes "synced_at fs p" and "live_state (fsm_state p)" and "fs' = flatten_position venue why fs p"
  shows "load_position (fs_store fs') (pos_mint p) =
     (if fsm_state p = ENTERING \<or> landed (venue (length (fs_exits fs)) (emergency_intent p why) p)
      then None else Some (p\<lparr>fsm_state := CLOSING\<rparr>))"
proof -
  obtain i where i: "i < length (fs_objs fs)" "map_of (fs_registry fs) (pos_mint p) = Some i" "fs_objs fs ! i = p"
    and l: "load_position (fs_store fs) (pos_mint p) = Some p"
    using assms(1) by (auto simp: synced_at_def)
  have "p\<lparr>fsm_state := CLOSING\<rparr> = p" if "fsm_state p = CLOSING" using that by simp
  with assms(2) i l show ?thesis
    by (cases "fsm_state p")
      (auto simp: assms(3) live_state_def flatten_position_def Let_def venue_exit_def suppressed_def fsm_at_def
        put_fsm_def transition_defs store_reads validate_fsm_transition_def FSM_LEGAL_TRANSITIONS_def)
qed

lemma flatten_position_other:
  assumes "synced_at fs p" and "m \<noteq> pos_mint p" and "fs' = flatten_position venue why fs p"
  shows "load_position (fs_store fs') m = load_position (fs_store fs) m"
    and "map_of (fs_registry fs') m = map_of (fs_registry fs) m"
    and "length (fs_objs fs') = length (fs_objs fs)"
    and "j < length (fs_objs fs) \<Longrightarrow> pos_mint (fs_objs fs ! j) = m \<Longrightarrow> fs_objs fs' ! j = fs_objs fs ! j"
proof -
  obtain i where i: "i < length (fs_objs fs)" "map_of (fs_registry fs) (pos_mint p) = Some i" "fs_objs fs ! i = p"
    using assms(1) by (auto simp: synced_at_def)
  note unf = assms(3) flatten_position_def Let_def venue_exit_def suppressed_def fsm_at_def put_fsm_def
    transition_to_open_def transition_to_vetoed_def transition_to_closing_def transition_to_closed_def
    store_reads validate_fsm_transition_def FSM_LEGAL_TRANSITIONS_def
  show "load_position (fs_store fs') m = load_position (fs_store fs) m"
    using i assms(2) by (cases "fsm_state p") (auto simp: unf)
  show "map_of (fs_registry fs') m = map_of (fs_registry fs) m"
    using i assms(2) by (cases "fsm_state p") (auto simp: unf)
  show "length (fs_objs fs') = length (fs_objs fs)"
    using i assms(2) by (cases "fsm_state p") (auto simp: unf)
  assume "j < length (fs_objs fs)" "pos_mint (fs_objs fs ! j) = m"
  then have "i \<noteq> j" using i(3) assms(2) by auto
  then show "fs_objs fs' ! j = fs_objs fs ! j"
    using i by (cases "fsm_state p") (auto simp: unf)
qed

lemma flatten_keeps_synced:
  assumes "synced_at fs p" and "pos_mint q \<noteq> pos_mint p" and "synced_at fs q"
  shows "synced_at (flatten_position venue why fs p) q"
  using assms(3) flatten_position_other [OF assms(1,2) refl, where venue = venue and why = why]
  by (auto simp: synced_at_def)

lemma flatten_fold_synced:
  fixes venue :: venue and why :: audit
  assumes "distinct (map pos_mint ps)" and "\<forall>p \<in> set ps. synced_at fs p \<and> live_state (fsm_state p)"
  defines "gs \<equiv> foldl (flatten_position venue why) fs ps"
  shows "(\<forall>m. m \<notin> pos_mint ` set ps \<longrightarrow> load_position (fs_store gs) m = load_position (fs_store fs) m) \<and>
    (\<forall>p \<in> set ps. load_position (fs_store gs) (pos_mint p) \<in> {None, Some (p\<lparr>fsm_state := CLOSING\<rparr>)} \<and>
       ((\<forall>k x p. landed (venue k x p)) \<longrightarrow> load_position (fs_store gs) (pos_mint p) = None))"
  using assms(1,2) unfolding gs_def
proof (induction ps arbitrary: fs)
  case (Cons p ps)
  let ?fs' = "flatten_position venue why fs p"
  have p: "synced_at fs p" "live_state (fsm_state p)" using Cons.prems by auto
  have later: "synced_at ?fs' q \<and> live_state (fsm_state q)" if "q \<in> set ps" for q
  proof -
    have "pos_mint q \<noteq> pos_mint p" using Cons.prems(1) imageI [OF that, of pos_mint] by auto
    with that Cons.prems show ?thesis using flatten_keeps_synced [OF p(1)] by auto
  qed
  have d: "distinct (map pos_mint ps)" using Cons.prems by simp
  note rest = Cons.IH [OF d, of ?fs'] and here = flatten_position_own [OF p refl, of venue why]
  have own: "load_position (fs_store (foldl (flatten_position venue why) ?fs' ps)) (pos_mint p) =
      load_position (fs_store ?fs') (pos_mint p)"
    using rest later Cons.prems by auto
  show ?case
    using rest later own here flatten_position_other(1) [OF p(1) _ refl, where venue = venue and why = why] by simp
qed simp

definition book_tracked :: "fast_loop \<Rightarrow> bool" where
  "book_tracked fs \<longleftrightarrow>
     store_ok (fs_store fs) \<and>
     (\<forall>p \<in> set (load_all_positions (fs_store fs)). synced_at fs p \<and> live_state (fsm_state p))"

lemma store_ok_mints: "store_ok s \<Longrightarrow> map pos_mint (load_all_positions s) = dict_keys (positions s)"
  by (auto simp: store_ok_def load_all_positions_def)

lemma load_position_iff:
  assumes "store_ok s"
  shows "load_position s m = Some p \<longleftrightarrow> p \<in> set (load_all_positions s) \<and> pos_mint p = m"
  using assms
  by (force simp: store_ok_def load_position_def load_all_positions_def dest: map_of_SomeD intro: map_of_is_SomeI)

lemma flatten_all_exits:
  "fs_exits (emergency_flatten_all venue why fs) =
     fs_exits fs @ map (\<lambda>p. (emergency_intent p why, p))
       (filter (\<lambda>p. fsm_state p = OPEN \<or> fsm_state p = CLOSING) (load_all_positions (fs_store fs)))"
  by (simp add: emergency_flatten_all_def flatten_fold)

lemma flatten_all_book:
  assumes "book_tracked fs" and "gs = emergency_flatten_all venue why fs"
  shows "load_position (fs_store gs) m = Some q \<Longrightarrow> fsm_state q = CLOSING \<and> \<not> (\<forall>k x p. landed (venue k x p))"
proof -
  assume l: "load_position (fs_store gs) m = Some q"
  let ?ps = "load_all_positions (fs_store fs)"
  have ok: "store_ok (fs_store fs)" and tracked: "\<forall>p \<in> set ?ps. synced_at fs p \<and> live_state (fsm_state p)"
    using assms(1) by (auto simp: book_tracked_def)
  have "distinct (map pos_mint ?ps)" using ok store_ok_mints by (simp add: store_ok_def)
  note book = flatten_fold_synced [OF this tracked, of venue why]
  show ?thesis
  proof (cases "m \<in> pos_mint ` set ?ps")
    case True
    then obtain p where p: "p \<in> set ?ps" "m = pos_mint p" by blast
    with book have "load_position (fs_store gs) m \<in> {None, Some (p\<lparr>fsm_state := CLOSING\<rparr>)}"
      "(\<forall>k x p. landed (venue k x p)) \<longrightarrow> load_position (fs_store gs) m = None"
      by (simp_all add: assms(2) emergency_flatten_all_def)
    then show ?thesis using l by auto
  next
    case False
    then have "load_position (fs_store fs) m = Some q"
      using book l assms(2) by (simp add: emergency_flatten_all_def)
    then show ?thesis using False load_position_iff [OF ok] by auto
  qed
qed

text \<open>Marking a tracked position to market keeps the book tracked.\<close>

lemma mark_keeps_tracked:
  assumes "book_tracked fs" and "synced_at fs p" and "live_state (fsm_state p)"
    and "map_of (fs_registry fs) (pos_mint p) = Some i"
  shows "book_tracked (put_fsm fs i (update_unrealized_pnl (fsm_at fs i) x))"
proof -
  let ?fs = "put_fsm fs i (update_unrealized_pnl (fsm_at fs i) x)" and ?u = "p\<lparr>unrealized_pnl_net_lamports := x\<rparr>"
  have i: "i < length (fs_objs fs)" "fs_objs fs ! i = p" using assms(2,4) by (auto simp: synced_at_def)
  have fs: "?fs = fs\<lparr>fs_store := save_position (fs_store fs) ?u, fs_objs := (fs_objs fs)[i := ?u]\<rparr>"
    using i by (simp add: put_fsm_def fsm_at_def update_unrealized_pnl_def Let_def)
  have ok: "store_ok (fs_store fs)" "store_ok (fs_store ?fs)"
    using assms(1) by (simp_all add: fs book_tracked_def store_ok_save)
  have "synced_at ?fs q \<and> live_state (fsm_state q)" if q: "load_position (fs_store ?fs) (pos_mint q) = Some q" for q
  proof (cases "pos_mint q = pos_mint p")
    case True
    then have "q = ?u" using q by (simp add: fs table.load_save)
    then show ?thesis using i assms(3,4) by (simp add: synced_at_def fs table.load_save)
  next
    case False
    then have "load_position (fs_store fs) (pos_mint q) = Some q" using q by (simp add: fs table.load_save)
    then have "synced_at fs q \<and> live_state (fsm_state q)"
      using assms(1) load_position_iff [OF ok(1)] by (simp add: book_tracked_def)
    then show ?thesis using i False by (auto simp: synced_at_def fs table.load_save nth_list_update)
  qed
  then show ?thesis using ok(2) load_position_iff [OF ok(2)] by (simp add: book_tracked_def)
qed

subsection \<open>Runs of the loop\<close>

text \<open>
  Every way the loop is driven: its ticks, the fills it reconciles, the kill switch and the
  flatten of one mint, and the writes of the other loops to the shared store.
\<close>

datatype fast_event =
    Tick "mint \<Rightarrow> decimal option" millis millis
  | Fill millis mint fill_result
  | Kill audit
  | Flatten_mint audit mint
  | Other_write store

definition fast_step :: "venue \<Rightarrow> fast_loop \<Rightarrow> fast_event \<Rightarrow> fast_loop" where
  "fast_step venue fs ev =
     (case ev of
        Tick price now bt \<Rightarrow> fst (fast_tick venue price now bt fs)
      | Fill now m fill \<Rightarrow> fst (reconcile_fill now fs m fill)
      | Kill why \<Rightarrow> emergency_flatten_all venue why fs
      | Flatten_mint why m \<Rightarrow> fst (flatten_one venue why fs m)
      | Other_write s \<Rightarrow> fs\<lparr>fs_store := s\<rparr>)"

lemma fsm_for_moves: "fast_moves fs (fst (fsm_for fs m p))"
  by (auto simp: fsm_for_def intro: fast_moves_frame split: option.split)

lemma arm_layer2_moves: "fast_moves fs (fst (arm_layer2 gs m e p)) = fast_moves fs gs"
  by (simp add: arm_layer2_def split: option.split sum.split prod.split)

lemma moves_upd_registry [simp]: "fast_moves fs (gs\<lparr>fs_registry := r\<rparr>) = fast_moves fs gs"
  by (simp add: fast_moves_def exits_ok_def)

lemma moves_suppressed [simp]: "fast_moves fs (suppressed gs i r) = fast_moves fs gs"
  by (simp add: suppressed_def split: sum.split)

lemma reconcile_fill_moves: "fast_moves fs (fst (reconcile_fill now fs m fill))"
proof -
  have failed: "fast_moves fs (forget_mint now gs m)" if "fast_moves fs gs" for gs
    by (rule fast_moves_trans [OF that forget_moves])
  have armed: "fast_moves fs (put_fsm gs i f\<lparr>fs_registry := r, fs_exit_states := dict_set m xs (fs_exit_states gs)\<rparr>)"
    if "fast_moves fs gs" "exit_state_at_entry m entry (fs_exit_config gs) = Inr xs" for gs entry xs i f r
    by (rule fast_moves_trans [OF that(1) set_exit_state_moves [OF at_entry_ok [OF that(2)]]]) simp_all
  have new: "fast_moves fs gs" if "fsm_for fs m p = (gs, i)" for p gs i
    using fsm_for_moves [of fs m p] that by simp
  show ?thesis
    by (auto simp: reconcile_fill_def Let_def arm_layer2_moves intro!: failed armed dest!: new
        split: option.split sum.split prod.split)
qed

lemma fast_step_moves: "fast_moves fs (fast_step venue fs ev)"
  by (auto simp: fast_step_def flatten_one_def intro: fast_tick_moves reconcile_fill_moves flatten_all_moves
      flatten_position_moves split: fast_event.split option.split)

lemma fast_run_moves: "fast_moves fs (foldl (fast_step venue) fs evs)"
  by (induction evs arbitrary: fs) (auto intro: fast_moves_trans fast_step_moves)

interpretation exit_log: ratchet "fast_step venue" "\<lambda>fs. length (fs_exits fs)" exits_ok for venue :: venue
proof
  fix fs ev
  assume "exits_ok fs"
  then show "length (fs_exits fs) \<le> length (fs_exits (fast_step venue fs ev))" "exits_ok (fast_step venue fs ev)"
    using fast_step_moves [of fs venue ev] by (auto simp: fast_moves_def)
qed

subsection \<open>Properties\<close>

definition demo_loop :: fast_loop where
  "demo_loop =
     \<lparr>fs_exit_config = secure_balanced, fs_cooldown_seconds = 30,
      fs_store = save_position empty_store demo_position, fs_breaker = fresh_breaker default_risk_config,
      fs_objs = [demo_position], fs_registry = [(''m'', 0)], fs_exit_states = [(''m'', balanced_entry)],
      fs_wiring = None, fs_heartbeat_seq = 0, fs_exits = []\<rparr>"

lemma demo_store_read: "load_position (save_position empty_store demo_position) ''m'' = Some demo_position"
  "load_all_positions (save_position empty_store demo_position) = [demo_position]"
  by (simp_all add: save_position_def load_position_def load_all_positions_def empty_store_def demo_position_def)

lemma demo_loop_tracked: "book_tracked demo_loop" "synced_at demo_loop demo_position"
proof -
  show s: "synced_at demo_loop demo_position"
    using demo_store_read(1) by (simp add: synced_at_def demo_loop_def) (simp add: demo_position_def)
  have "store_ok (fs_store demo_loop)"
    by (simp add: demo_loop_def store_ok_def save_position_def empty_store_def)
  with s show "book_tracked demo_loop"
    by (simp add: book_tracked_def demo_loop_def demo_store_read) (simp add: demo_position_def live_state_def)
qed

text \<open>
  C10. Over every run of the loop from its construction (ticks with any prices and clocks, fills,
  kills, single flattens, interleaved with arbitrary writes of the other loops to the store)
  every order it hands to the venue is a de-risk intent: an exit or a reduction, never an entry.
  Orders are only ever added to the log, the exit configuration is frozen and the per-position
  exit states stay well-formed.
\<close>

theorem fast_loop_only_derisks:
  assumes "exit_config_ok (fs_exit_config fs)" and "fs_exit_states fs = []"
    and "gs = foldl (fast_step venue) fs evs"
  shows "\<exists>new. fs_exits gs = fs_exits fs @ new \<and> (\<forall>(x, p) \<in> set new. derisk_intent x) \<and>
    fs_exit_config gs = fs_exit_config fs \<and> (\<forall>(m, xs) \<in> set (fs_exit_states gs). exit_state_ok xs)"
proof -
  have "exits_ok fs" using assms(1,2) by (simp add: exits_ok_def)
  with fast_run_moves [of fs venue evs] show ?thesis
    unfolding assms(3) fast_moves_def exits_ok_def by blast
qed

theorem fast_loop_only_derisks_witness:
  "\<exists>new. fs_exits (foldl (fast_step (\<lambda>_ _ _. demo_fill)) (demo_loop\<lparr>fs_exit_states := []\<rparr>)
       [Tick (\<lambda>_. Some 300) 0 1000, Kill (Audit ''kill'' [])]) = new \<and> (\<forall>(x, p) \<in> set new. derisk_intent x)"
  using fast_loop_only_derisks [of "demo_loop\<lparr>fs_exit_states := []\<rparr>", OF _ _ refl]
  by (fastforce simp: demo_loop_def preset_rungs(1))

lemma load_all_none: "(\<And>m. load_position s m = None) \<Longrightarrow> load_all_positions s = []"
  using map_of_eq_empty_iff [of "positions s"] by (simp add: load_position_def load_all_positions_def fun_eq_iff)

text \<open>
  C3. The kill switch on a tracked book: every open or closing position is sold in full in
  secure mode, one order each, in the store's order. Afterwards no position is open or
  entering: whatever is left in the store is closing, and nothing is left when the venue lands
  every order. A second kill then sends nothing.
\<close>

theorem kill_sells_whole_book:
  assumes "book_tracked fs" and "gs = emergency_flatten_all venue why fs"
  shows "fs_exits gs = fs_exits fs @ map (\<lambda>p. (emergency_intent p why, p))
       (filter (\<lambda>p. fsm_state p = OPEN \<or> fsm_state p = CLOSING) (load_all_positions (fs_store fs))) \<and>
    (\<forall>m q. load_position (fs_store gs) m = Some q \<longrightarrow> fsm_state q = CLOSING) \<and>
    ((\<forall>k x p. landed (venue k x p)) \<longrightarrow>
       load_all_positions (fs_store gs) = [] \<and> emergency_flatten_all venue why' gs = gs)"
proof -
  have empty: "load_all_positions (fs_store gs) = []" if "\<forall>k x p. landed (venue k x p)"
  proof -
    have "load_position (fs_store gs) m = None" for m
      using flatten_all_book [OF assms, of m] that by (cases "load_position (fs_store gs) m") auto
    then show ?thesis by (rule load_all_none)
  qed
  have idle: "emergency_flatten_all venue why' gs = gs" if "load_all_positions (fs_store gs) = []"
    by (simp add: emergency_flatten_all_def that)
  have "\<forall>m q. load_position (fs_store gs) m = Some q \<longrightarrow> fsm_state q = CLOSING"
    using flatten_all_book [OF assms] by blast
  with empty idle flatten_all_exits [of venue why fs] show ?thesis by (simp add: assms(2))
qed

theorem kill_sells_whole_book_witness:
  "load_all_positions (fs_store (emergency_flatten_all (\<lambda>_ _ _. demo_fill) (Audit ''kill'' []) demo_loop)) = [] \<and>
   length (fs_exits (emergency_flatten_all (\<lambda>_ _ _. demo_fill) (Audit ''kill'' []) demo_loop)) = 1"
  using kill_sells_whole_book [OF demo_loop_tracked(1) refl]
  by (simp add: demo_loop_def demo_store_read) (simp add: demo_fill_def demo_position_def)

lemma record_pnl_trips:
  assumes "tiers_ordered (b_soft_ratio b) (b_config b)" and "status (b_state b) = ARMED"
    and "pnl_net b ev \<le> pct_limit_lamports (b_config b) \<or> pnl_net b ev \<le> floor_limit_lamports (b_config b)"
  shows "\<exists>b'. record_pnl (\<lambda>_. None) b ev = (b', Inr (b_state b')) \<and> status (b_state b') = TRIPPED \<and>
    b_flattens b' \<noteq> b_flattens b"
proof -
  obtain d where d: "breaker_evaluate (b_soft_ratio b) (b_config b) (pnl_net b ev) = Inr d" "td_tripped d"
    using evaluate_total [OF assms(1), of "pnl_net b ev"] assms(3) by blast
  then show ?thesis
    using assms(2)
    by (simp add: record_pnl_def breaker_trip_def mk_BreakerState_def Let_def split: option.split)
qed

lemma flatten_breaker: "fs_breaker (flatten_position venue why fs p) = fs_breaker fs"
  by (simp add: flatten_position_def Let_def venue_exit_def split: option.split sum.split)

lemma flatten_all_breaker: "fs_breaker (emergency_flatten_all venue why fs) = fs_breaker fs"
proof -
  have "fs_breaker (foldl (flatten_position venue why) fs ps) = fs_breaker fs" for ps
    by (induction ps arbitrary: fs) (simp_all add: flatten_breaker)
  then show ?thesis by (simp add: emergency_flatten_all_def)
qed


lemma demo_crash:
  "trunc (dmul (dsub 1 100) (of_int (10 :: int))) = -990" "0 < xs_entry_fill_price balanced_entry"
proof -
  have "dmul (dsub 1 100) 10 = -990" by code_simp
  then show "trunc (dmul (dsub 1 100) (of_int (10 :: int))) = -990"
    using trunc_of_int [of "-990"] by simp
qed (simp add: balanced_entry_def)


subsection \<open>Fail-closed exits and fills\<close>

lemma close_fsm_synced:
  assumes "synced_at fs p" and "fsm_state p = OPEN" and "map_of (fs_registry fs) (pos_mint p) = Some i"
  shows "fs_store (close_fsm fs i) =
      delete_position (save_position (save_position (fs_store fs) (p\<lparr>fsm_state := CLOSING\<rparr>))
        (p\<lparr>fsm_state := CLOSED, realized_pnl_net_lamports := Some 0, pos_status := Closed_status\<rparr>)) (pos_mint p)"
    and "fs_objs (close_fsm fs i) ! i =
      p\<lparr>fsm_state := CLOSED, realized_pnl_net_lamports := Some 0, pos_status := Closed_status\<rparr>"
  using assms
  by (auto simp: synced_at_def close_fsm_def suppressed_def fsm_at_def put_fsm_def transition_to_closing_def
      transition_to_closed_def validate_fsm_transition_def FSM_LEGAL_TRANSITIONS_def Let_def)

lemma forget_cooldown:
  "t < now + fs_cooldown_seconds fs * 1000 \<Longrightarrow> snd (in_cooldown (fs_store (forget_mint now fs m)) m t)"
  using ttl_get_put [of "cooldowns (fs_store fs)" m "()" "fs_cooldown_seconds fs" now m t]
  by (auto simp: forget_mint_def set_cooldown_def in_cooldown_def split: prod.splits)

lemma do_full_exit_synced:
  assumes "synced_at fs p" and "fsm_state p = OPEN" and "map_of (fs_registry fs) (pos_mint p) = Some i"
    and "gs = do_full_exit venue now fs i x"
  shows "fs_exits gs = fs_exits fs @ [(x, p)]"
    and "load_position (fs_store gs) (pos_mint p) = None"
    and "map_of (fs_registry gs) (pos_mint p) = None"
    and "map_of (fs_exit_states gs) (pos_mint p) = None"
    and "case fs_wiring gs of None \<Rightarrow> True | Some e \<Rightarrow> pos_mint p \<notin> armed_mints e"
    and "t < now + fs_cooldown_seconds fs * 1000 \<Longrightarrow> snd (in_cooldown (fs_store gs) (pos_mint p) t)"
    and "m \<noteq> pos_mint p \<Longrightarrow> load_position (fs_store gs) m = load_position (fs_store fs) m"
proof -
  let ?f = "fst (venue_exit venue fs x (fs_objs fs ! i))"
  have s: "synced_at ?f p" "map_of (fs_registry ?f) (pos_mint p) = Some i" "fs_objs fs ! i = p"
    using assms(1,3) by (auto simp: synced_at_def venue_exit_def)
  note c = close_fsm_synced [OF s(1) assms(2) s(2)]
  have m: "pos_mint (fs_objs (close_fsm ?f i) ! i) = pos_mint p" using c(2) by simp
  have gs: "gs = forget_mint now (wiring_deregister (close_fsm ?f i) (pos_mint p)) (pos_mint p)"
    by (simp add: assms(4) do_full_exit_def Let_def m)
  have frame: "fs_cooldown_seconds (wiring_deregister (close_fsm ?f i) (pos_mint p)) = fs_cooldown_seconds fs"
    by (simp add: wiring_deregister_def close_fsm_def suppressed_def put_fsm_def venue_exit_def split: sum.split)
  show "fs_exits gs = fs_exits fs @ [(x, p)]" by (simp add: gs s(3)) (simp add: venue_exit_def)
  show "load_position (fs_store gs) (pos_mint p) = None"
    by (simp add: gs forget_mint_def c(1) set_cooldown_def) (simp add: load_position_def delete_position_def)
  show "map_of (fs_registry gs) (pos_mint p) = None" "map_of (fs_exit_states gs) (pos_mint p) = None"
    by (simp_all add: gs)
  show "case fs_wiring gs of None \<Rightarrow> True | Some e \<Rightarrow> pos_mint p \<notin> armed_mints e"
    by (auto simp: gs forget_mint_def wiring_deregister_def enf_deregister_def armed_mints_def dict_pop_def
        split: option.split)
  show "snd (in_cooldown (fs_store gs) (pos_mint p) t)" if "t < now + fs_cooldown_seconds fs * 1000"
    using that by (simp add: gs forget_cooldown frame)
  show "load_position (fs_store gs) m = load_position (fs_store fs) m" if "m \<noteq> pos_mint p"
    using that by (simp add: gs forget_mint_def c(1) set_cooldown_def load_position_def delete_position_def
        save_position_def) (simp add: venue_exit_def)
qed

text \<open>
  An absent mark price fails closed: the tick of an open tracked position sells it in full in
  secure mode without consulting anything else. Its record leaves the store, its registry entry,
  exit state and Layer-2 stop are dropped, the mint is in cooldown for the configured time, and
  no other position's record is touched.
\<close>

theorem missing_mark_exits_position:
  assumes "synced_at fs p" and "fsm_state p = OPEN" and "price (pos_mint p) = None"
  shows "\<exists>gs x. tick_position venue price now bt fs (pos_mint p) =
      (gs, Inr ([], [Exit_mark_unavailable (pos_mint p)])) \<and>
    fs_exits gs = fs_exits fs @ [(Exit x, p)] \<and> ex_fraction_bps x = 10000 \<and> ex_exit_mode x = Secure \<and>
    ex_mint x = pos_mint p \<and> load_position (fs_store gs) (pos_mint p) = None \<and>
    map_of (fs_registry gs) (pos_mint p) = None \<and> map_of (fs_exit_states gs) (pos_mint p) = None \<and>
    (case fs_wiring gs of None \<Rightarrow> True | Some e \<Rightarrow> pos_mint p \<notin> armed_mints e) \<and>
    (\<forall>t < now + fs_cooldown_seconds fs * 1000. snd (in_cooldown (fs_store gs) (pos_mint p) t)) \<and>
    (\<forall>m. m \<noteq> pos_mint p \<longrightarrow> load_position (fs_store gs) m = load_position (fs_store fs) m)"
proof -
  obtain i where i: "map_of (fs_registry fs) (pos_mint p) = Some i" "fs_objs fs ! i = p"
    using assms(1) by (auto simp: synced_at_def)
  let ?fs = "wiring_deregister fs (pos_mint p)"
  let ?x = "\<lparr>ex_client_intent_id = make_client_intent_id (pos_mint p) (entry_slot p) ''FORCE_EXIT'',
      ex_mint = pos_mint p, ex_fraction_bps = 10000, ex_exit_mode = Secure,
      ex_reason = Audit ''mark_price_unavailable'' []\<rparr>"
  have "synced_at ?fs p" "map_of (fs_registry ?fs) (pos_mint p) = Some i" "fs_cooldown_seconds ?fs = fs_cooldown_seconds fs"
    using assms(1) i by (simp_all add: synced_at_def wiring_deregister_def)
  note e = do_full_exit_synced [OF this(1) assms(2) this(2) refl, where venue = venue and now = now and x = "Exit ?x"] and c = this(3)
  have "tick_position venue price now bt fs (pos_mint p) =
      (do_full_exit venue now ?fs i (Exit ?x), Inr ([], [Exit_mark_unavailable (pos_mint p)]))"
    using i assms(2,3) by (simp add: tick_position_def force_exit_def Let_def)
  then show ?thesis
    using e c by (intro exI [of _ "do_full_exit venue now ?fs i (Exit ?x)"] exI [of _ ?x]) simp
qed

theorem missing_mark_exits_position_witness:
  "\<exists>gs r. tick_position (\<lambda>_ _ _. demo_fill) (\<lambda>_. None) 0 1000 demo_loop ''m'' = (gs, r) \<and>
     load_position (fs_store gs) ''m'' = None \<and> snd (in_cooldown (fs_store gs) ''m'' 29999)"
proof -
  have d: "fsm_state demo_position = OPEN" "pos_mint demo_position = ''m''" "fs_cooldown_seconds demo_loop = 30"
    by (simp_all add: demo_position_def demo_loop_def)
  show ?thesis
    using missing_mark_exits_position [OF demo_loop_tracked(2) d(1), of "\<lambda>_. None" "\<lambda>_ _ _. demo_fill" 0 1000]
    by (auto simp: d(2,3))
qed

text \<open>
  A full exit is booked without looking at the venue's answer: whatever the venue reports,
  landed or not, the resulting state is the same, and an open tracked position has left the
  store, the registry and the exit states. An order that did not land is not retried.
\<close>

theorem full_exit_ignores_landing:
  assumes "synced_at fs p" and "fsm_state p = OPEN" and "map_of (fs_registry fs) (pos_mint p) = Some i"
  shows "do_full_exit venue now fs i x = do_full_exit venue' now fs i x \<and>
    load_position (fs_store (do_full_exit venue now fs i x)) (pos_mint p) = None \<and>
    map_of (fs_registry (do_full_exit venue now fs i x)) (pos_mint p) = None \<and>
    map_of (fs_exit_states (do_full_exit venue now fs i x)) (pos_mint p) = None"
proof -
  have "do_full_exit venue now fs i x = do_full_exit venue' now fs i x"
    by (simp add: do_full_exit_def venue_exit_def)
  then show ?thesis using do_full_exit_synced(2-4) [OF assms refl] by simp
qed

theorem full_exit_ignores_landing_witness:
  "load_position (fs_store (do_full_exit (\<lambda>_ _ _. demo_fill\<lparr>landed := False\<rparr>) 0 demo_loop 0
     (emergency_intent demo_position (Audit ''x'' [])))) ''m'' = None"
proof -
  have d: "fsm_state demo_position = OPEN" "pos_mint demo_position = ''m''"
    "map_of (fs_registry demo_loop) (pos_mint demo_position) = Some 0"
    by (simp_all add: demo_position_def demo_loop_def)
  show ?thesis using full_exit_ignores_landing [OF demo_loop_tracked(2) d(1,3)] by (simp add: d(2))
qed

text \<open>
  Reconciling a fill. For an entering tracked position a landed fill opens it with the filled
  quantity, keeps it registered, releases its entry lock and gives it an exit state built from
  the loop's configuration at the fill price (a refused price is the exception of that
  construction); a fill that did not land removes the position and puts the mint in cooldown.
  For a mint with no entering record the call changes nothing and returns \<open>False\<close>, so a
  repeated fill is ignored.
\<close>

theorem reconcile_fill_outcomes:
  assumes "synced_at fs p" and "fsm_state p = ENTERING" and "fs_wiring fs = None"
    and "reconcile_fill now fs (pos_mint p) fill = (gs, r)"
  shows "(landed fill \<longrightarrow>
      (\<exists>q. load_position (fs_store gs) (pos_mint p) = Some q \<and> fsm_state q = OPEN \<and>
         tokens_out_base q = tokens_out fill \<and> sol_in_lamports q = sol_in_lamports p \<and> synced_at gs q \<and>
         (\<forall>t. get_fsm_lock (fs_store gs) (pos_mint p) t = None) \<and>
         (case exit_state_at_entry (pos_mint p) (fill_entry_price fill) (fs_exit_config fs) of
            Inl e \<Rightarrow> r = Inl e
          | Inr xs \<Rightarrow> r = Inr True \<and> map_of (fs_exit_states gs) (pos_mint p) = Some xs)) \<and>
      reconcile_fill now gs (pos_mint p) fill' = (gs, Inr False)) \<and>
    (\<not> landed fill \<longrightarrow>
      r = Inr True \<and> load_position (fs_store gs) (pos_mint p) = None \<and>
      map_of (fs_registry gs) (pos_mint p) = None \<and>
      (\<forall>t < now + fs_cooldown_seconds fs * 1000. snd (in_cooldown (fs_store gs) (pos_mint p) t)) \<and>
      reconcile_fill now gs (pos_mint p) fill' = (gs, Inr False)) \<and>
    fs_exits gs = fs_exits fs"
proof -
  obtain i where i: "i < length (fs_objs fs)" "map_of (fs_registry fs) (pos_mint p) = Some i" "fs_objs fs ! i = p"
    and l: "load_position (fs_store fs) (pos_mint p) = Some p"
    using assms(1) by (auto simp: synced_at_def)
  show ?thesis
  proof (cases "landed fill")
    case True
    let ?q = "p\<lparr>fsm_state := OPEN, tokens_out_base := tokens_out fill,
      entry_slippage_bps := fl_entry_slippage_bps fill, unrealized_pnl_net_lamports := 0, pos_status := Open_status\<rparr>"
    have "transition_to_open (fsm_at fs i) fill =
        Inr (release_entering (save_position (fs_store fs) ?q) (pos_mint p), ?q)"
      using i assms(2) by (simp add: fsm_at_def transition_to_open_def Let_def validate_fsm_transition_def FSM_LEGAL_TRANSITIONS_def)
    then have g: "fs_store gs = release_entering (save_position (fs_store fs) ?q) (pos_mint p)"
      "fs_objs gs = (fs_objs fs)[i := ?q]" "map_of (fs_registry gs) (pos_mint p) = Some i"
      "fs_exits gs = fs_exits fs"
      "case exit_state_at_entry (pos_mint p) (fill_entry_price fill) (fs_exit_config fs) of
            Inl e \<Rightarrow> r = Inl e
          | Inr xs \<Rightarrow> r = Inr True \<and> map_of (fs_exit_states gs) (pos_mint p) = Some xs"
      using assms(2-4) True i l
      by (auto simp: reconcile_fill_def fsm_for_def Let_def arm_layer2_def put_fsm_def split: sum.splits)
    have ld: "load_position (fs_store gs) (pos_mint p) = Some ?q"
      using g(1) table.load_save [of "fs_store fs" ?q] by simp
    have "synced_at gs ?q" using ld g(2,3) i(1) by (simp add: synced_at_def)
    moreover have "\<forall>t. get_fsm_lock (fs_store gs) (pos_mint p) t = None"
      by (simp add: g(1) get_fsm_lock_def release_entering_def)
    moreover have "reconcile_fill now gs (pos_mint p) fill' = (gs, Inr False)"
      using ld by (simp add: reconcile_fill_def)
    ultimately show ?thesis using True ld g(4,5) by (intro conjI impI exI [of _ ?q]) auto
  next
    case False
    let ?q = "p\<lparr>fsm_state := VETOED, pos_status := Closed_status, realized_pnl_net_lamports := Some 0\<rparr>"
    have "transition_to_vetoed (fsm_at fs i) =
        Inr (delete_position (release_entering (save_position (fs_store fs) ?q) (pos_mint p)) (pos_mint p), ?q)"
      using i assms(2) by (simp add: fsm_at_def transition_to_vetoed_def Let_def validate_fsm_transition_def FSM_LEGAL_TRANSITIONS_def)
    then have g: "gs = forget_mint now (put_fsm fs i
        (delete_position (release_entering (save_position (fs_store fs) ?q) (pos_mint p)) (pos_mint p), ?q)) (pos_mint p)"
      "r = Inr True"
      using assms(2-4) False i l by (auto simp: reconcile_fill_def fsm_for_def suppressed_def)
    have ld: "load_position (fs_store gs) (pos_mint p) = None"
      by (simp add: g(1) forget_mint_def set_cooldown_def load_position_def delete_position_def)
    moreover have "\<forall>t < now + fs_cooldown_seconds fs * 1000. snd (in_cooldown (fs_store gs) (pos_mint p) t)"
      unfolding g(1) by (intro allI impI forget_cooldown) (simp add: put_fsm_def)
    ultimately show ?thesis using False g by (simp add: reconcile_fill_def)
  qed
qed

theorem reconcile_fill_outcomes_witness:
  "\<exists>gs r. reconcile_fill 0 (demo_loop\<lparr>fs_store := save_position empty_store (demo_position\<lparr>fsm_state := ENTERING\<rparr>),
        fs_objs := [demo_position\<lparr>fsm_state := ENTERING\<rparr>]\<rparr>) ''m'' (demo_fill\<lparr>landed := False\<rparr>) = (gs, r) \<and>
     r = Inr True \<and> load_position (fs_store gs) ''m'' = None"
proof -
  let ?p = "demo_position\<lparr>fsm_state := ENTERING\<rparr>"
  let ?fs = "demo_loop\<lparr>fs_store := save_position empty_store ?p, fs_objs := [?p]\<rparr>"
  have s: "synced_at ?fs ?p"
    by (simp add: synced_at_def demo_loop_def table.load_save) (simp add: demo_position_def)
  have w: "fs_wiring ?fs = None" "pos_mint ?p = ''m''" by (simp_all add: demo_loop_def demo_position_def)
  obtain gs r where t: "reconcile_fill 0 ?fs (pos_mint ?p) (demo_fill\<lparr>landed := False\<rparr>) = (gs, r)"
    by (cases "reconcile_fill 0 ?fs (pos_mint ?p) (demo_fill\<lparr>landed := False\<rparr>)")
  with reconcile_fill_outcomes [OF s _ w(1) t] w(2) show ?thesis by auto
qed

end
