(* ===== verification/Sellability.thy ===== *)
theory Sellability
  imports Safety_Gate State_Store
begin

text \<open>
  The sell simulation of \<open>aats/execution/sell_sim.py\<close> (the probe behind the safety gate's
  sellability check) and the re-probe of open positions of \<open>aats/risk/sellability_reprobe.py\<close>,
  which raises the force-exit flag in the state store. The RPC node and the signer are
  arguments: what a call to them returns or raises. The base64 JSON payload of the unsigned
  stub is represented by its fields.
\<close>

subsection \<open>The sell simulation\<close>

text \<open>A call to an outside service: it returns, the signer refuses with a reason, or another exception.\<close>

datatype 'a outcome = Returns 'a | Signer_refused string | Raises string

datatype sell_sim_reason =
    SR_SELLABLE
  | SR_SIM_REVERT
  | SR_ZERO_OUTPUT
  | SR_HIGH_SELL_TAX
  | SR_SIGNER_REFUSED
  | SR_ACCOUNT_CLOSE_TRAP
  | SR_QUOTE_FAILED
  | SR_INFRASTRUCTURE_ERROR
  | SR_NOT_SIMULATED

record sell_sim_result =
  ss_sellable :: bool
  ss_reason :: sell_sim_reason
  ss_mint :: mint
  ss_event_slot :: int
  dust_amount_in :: int
  simulated_out_lamports :: lamports
  effective_sell_tax_bps :: bps
  sim_cu_consumed :: int
  sim_revert_reason :: "string option"
  ss_detail :: audit

record sell_sim_config =
  sc_max_sell_tax_bps :: bps
  min_out_ratio_bps :: bps
  dust_sell_amount :: int

definition default_sell_sim_config :: sell_sim_config where
  "default_sell_sim_config =
     \<lparr>sc_max_sell_tax_bps = 1000, min_out_ratio_bps = 5000, dust_sell_amount = 1\<rparr>"

definition mk_SellSimConfig :: "sell_sim_config \<Rightarrow> sell_sim_config result" where
  "mk_SellSimConfig c =
     (if sc_max_sell_tax_bps c < 0 \<or> min_out_ratio_bps c < 0 \<or> dust_sell_amount c < 0 then Inl ValueError
      else if dust_sell_amount c < 1 then Inl ValueError
      else if \<not> (0 \<le> sc_max_sell_tax_bps c \<and> sc_max_sell_tax_bps c \<le> 10000) then Inl ValueError
      else if \<not> (0 \<le> min_out_ratio_bps c \<and> min_out_ratio_bps c \<le> 10000) then Inl ValueError
      else Inr c)"

record sell_stub =
  stub_client_intent_id :: client_id
  stub_mint :: mint
  stub_amount_in :: int
  stub_min_out_lamports :: lamports
  stub_wallet_pubkey :: string

record sim_result =
  sim_success :: bool
  sr_cu_consumed :: int
  sr_revert_reason :: "string option"

text \<open>
  The RPC client: the two attributes the venue looks for with \<open>hasattr\<close>, which only the test
  doubles define, and the simulation call on a signed transaction \<open>'tx\<close>.
\<close>

record 'tx rpc_client =
  quote_out_attr :: "lamports option"
  sell_out_attr :: "lamports option"
  simulate_transaction :: "'tx \<Rightarrow> sim_result outcome"

record 'tx sell_sim_venue =
  sv_rpc :: "'tx rpc_client"
  sv_sign :: "sell_stub \<Rightarrow> 'tx outcome"
  sv_config :: sell_sim_config
  sv_wallet_pubkey :: string

definition quote_sell :: "'tx rpc_client \<Rightarrow> lamports" where
  "quote_sell rpc =
     (case quote_out_attr rpc of
        Some q \<Rightarrow> q
      | None \<Rightarrow> (case sell_out_attr rpc of Some q \<Rightarrow> q | None \<Rightarrow> 10000))"

definition extract_sim_out :: "'tx rpc_client \<Rightarrow> lamports \<Rightarrow> lamports" where
  "extract_sim_out rpc quote = (case sell_out_attr rpc of Some q \<Rightarrow> q | None \<Rightarrow> quote)"

definition compute_effective_tax_bps :: "lamports \<Rightarrow> lamports \<Rightarrow> bps" where
  "compute_effective_tax_bps simulated_out quoted_out =
     (if quoted_out \<le> 0 \<or> simulated_out < 0 then 0
      else if quoted_out \<le> simulated_out then 0
      else (quoted_out - simulated_out) * 10000 div quoted_out)"

definition build_sell_stub :: "'tx sell_sim_venue \<Rightarrow> mint \<Rightarrow> int \<Rightarrow> lamports \<Rightarrow> client_id \<Rightarrow> sell_stub" where
  "build_sell_stub v m amount_in min_out intent_id =
     \<lparr>stub_client_intent_id = intent_id, stub_mint = m, stub_amount_in = amount_in,
      stub_min_out_lamports = min_out, stub_wallet_pubkey = sv_wallet_pubkey v\<rparr>"

definition sell_result ::
  "'tx sell_sim_venue \<Rightarrow> mint \<Rightarrow> int \<Rightarrow> sell_sim_reason \<Rightarrow> lamports \<Rightarrow> bps \<Rightarrow> int \<Rightarrow> string option \<Rightarrow>
   audit \<Rightarrow> sell_sim_result" where
  "sell_result v m event_slot reason out tax cu revert detail =
     \<lparr>ss_sellable = (reason = SR_SELLABLE), ss_reason = reason, ss_mint = m,
      ss_event_slot = event_slot, dust_amount_in = dust_sell_amount (sv_config v),
      simulated_out_lamports = out, effective_sell_tax_bps = tax, sim_cu_consumed = cu,
      sim_revert_reason = revert, ss_detail = detail\<rparr>"

definition simulate_sell :: "'tx sell_sim_venue \<Rightarrow> mint \<Rightarrow> int \<Rightarrow> sell_sim_result" where
  "simulate_sell v m event_slot =
     (let rpc = sv_rpc v; cfg = sv_config v; mk = sell_result v m event_slot;
          intent_id = Cid ''sell-sim'' m [of_int event_slot];
          quote = quote_sell rpc in
      if quote \<le> 0 then mk SR_QUOTE_FAILED 0 0 0 None (Audit ''sell_quote_returned_zero_output'' [])
      else
        case sv_sign v (build_sell_stub v m (dust_sell_amount cfg) 1 intent_id) of
          Signer_refused why \<Rightarrow> mk SR_SIGNER_REFUSED 0 0 0 None (Audit (''signer_refused:'' @ why) [])
        | Raises exc \<Rightarrow> mk SR_INFRASTRUCTURE_ERROR 0 0 0 None (Audit (''unexpected:'' @ exc) [])
        | Returns signed \<Rightarrow>
            (case simulate_transaction rpc signed of
               Signer_refused why \<Rightarrow> mk SR_SIGNER_REFUSED 0 0 0 None (Audit (''signer_refused:'' @ why) [])
             | Raises exc \<Rightarrow> mk SR_INFRASTRUCTURE_ERROR 0 0 0 None (Audit (''unexpected:'' @ exc) [])
             | Returns sim \<Rightarrow>
                 if \<not> sim_success sim
                 then mk SR_SIM_REVERT 0 0 (sr_cu_consumed sim) (sr_revert_reason sim)
                        (Audit (''simulate_revert:'' @
                           (case sr_revert_reason sim of
                              None \<Rightarrow> ''unknown'' | Some r \<Rightarrow> if r = [] then ''unknown'' else r)) [])
                 else
                   let out = extract_sim_out rpc quote in
                   if out \<le> 0
                   then mk SR_ZERO_OUTPUT 0 0 (sr_cu_consumed sim) None
                          (Audit ''simulated_sell_returned_zero_lamports'' [])
                   else
                     let tax = compute_effective_tax_bps out quote in
                     if sc_max_sell_tax_bps cfg < tax
                     then mk SR_HIGH_SELL_TAX out tax (sr_cu_consumed sim) None
                            (Audit ''sell_tax_{}bps_exceeds_max_{}bps'' [of_int tax, of_int (sc_max_sell_tax_bps cfg)])
                     else mk SR_SELLABLE out tax (sr_cu_consumed sim) None (Audit ''sell_sim_passed'' [])))"

definition is_sellable :: "'tx sell_sim_venue \<Rightarrow> mint \<Rightarrow> int \<Rightarrow> bool" where
  "is_sellable v m event_slot = ss_sellable (simulate_sell v m event_slot)"

subsection \<open>The re-probe of open positions\<close>

datatype reprobe_reason =
    RP_HEALTHY
  | RP_DEGRADED_SIM_REVERT
  | RP_DEGRADED_ZERO_OUTPUT
  | RP_DEGRADED_HIGH_SELL_TAX
  | RP_DEGRADED_ACCOUNT_CLOSE_TRAP
  | RP_DEGRADED_OTHER
  | RP_INCONCLUSIVE

fun reprobe_reason_value :: "reprobe_reason \<Rightarrow> string" where
  "reprobe_reason_value RP_HEALTHY = ''healthy''"
| "reprobe_reason_value RP_DEGRADED_SIM_REVERT = ''degraded_sim_revert''"
| "reprobe_reason_value RP_DEGRADED_ZERO_OUTPUT = ''degraded_zero_output''"
| "reprobe_reason_value RP_DEGRADED_HIGH_SELL_TAX = ''degraded_high_sell_tax''"
| "reprobe_reason_value RP_DEGRADED_ACCOUNT_CLOSE_TRAP = ''degraded_account_close_trap''"
| "reprobe_reason_value RP_DEGRADED_OTHER = ''degraded_other''"
| "reprobe_reason_value RP_INCONCLUSIVE = ''inconclusive''"

definition is_degraded :: "reprobe_reason \<Rightarrow> bool" where
  "is_degraded r \<longleftrightarrow> r \<noteq> RP_HEALTHY"

fun degraded_reason_of :: "sell_sim_reason \<Rightarrow> reprobe_reason" where
  "degraded_reason_of SR_SIM_REVERT = RP_DEGRADED_SIM_REVERT"
| "degraded_reason_of SR_ZERO_OUTPUT = RP_DEGRADED_ZERO_OUTPUT"
| "degraded_reason_of SR_HIGH_SELL_TAX = RP_DEGRADED_HIGH_SELL_TAX"
| "degraded_reason_of SR_ACCOUNT_CLOSE_TRAP = RP_DEGRADED_ACCOUNT_CLOSE_TRAP"
| "degraded_reason_of _ = RP_DEGRADED_OTHER"

definition classify_probe :: "sell_sim_result \<Rightarrow> reprobe_reason" where
  "classify_probe r =
     (if \<not> ss_sellable r then degraded_reason_of (ss_reason r)
      else if ss_reason r = SR_SELLABLE then RP_HEALTHY
      else RP_INCONCLUSIVE)"

record reprobe_result =
  rp_mint :: mint
  rp_event_slot :: int
  rp_reason :: reprobe_reason
  rp_degraded :: bool
  rp_flag_set :: bool
  rp_sell_sim_reason :: "sell_sim_reason option"
  rp_detail :: audit

record reprobe_stats =
  reprobes_run :: int
  not_open_skipped :: int
  st_degraded :: int
  st_healthy :: int
  probe_exceptions :: int
  flags_set :: int
  last_event_slot :: int

definition empty_reprobe_stats :: reprobe_stats where
  "empty_reprobe_stats =
     \<lparr>reprobes_run = 0, not_open_skipped = 0, st_degraded = 0, st_healthy = 0, probe_exceptions = 0,
      flags_set = 0, last_event_slot = 0\<rparr>"

text \<open>
  The re-prober: the shared sell simulation, its statistics, the flag's time to live, and the sink
  (the state store) when one is wired.
\<close>

record reprober =
  rb_probe :: "mint \<Rightarrow> int \<Rightarrow> sell_sim_result outcome"
  rb_flag_ttl :: int
  rb_stats :: reprobe_stats
  rb_sink :: "store option"

definition mk_SellabilityReprober ::
  "(mint \<Rightarrow> int \<Rightarrow> sell_sim_result outcome) \<Rightarrow> store option \<Rightarrow> int \<Rightarrow> reprober result" where
  "mk_SellabilityReprober probe sink ttl =
     (if ttl < 1 then Inl ValueError
      else Inr \<lparr>rb_probe = probe, rb_flag_ttl = ttl, rb_stats = empty_reprobe_stats, rb_sink = sink\<rparr>)"

definition run_probe ::
  "reprober \<Rightarrow> mint \<Rightarrow> int \<Rightarrow> reprober \<times> reprobe_reason \<times> sell_sim_reason option \<times> audit" where
  "run_probe rb m event_slot =
     (let raised = (\<lambda>exc.
        (rb\<lparr>rb_stats := (rb_stats rb)\<lparr>probe_exceptions := probe_exceptions (rb_stats rb) + 1\<rparr>\<rparr>,
         RP_INCONCLUSIVE, None, Audit (''probe_raised:'' @ exc) [])) in
      case rb_probe rb m event_slot of
        Raises exc \<Rightarrow> raised exc
      | Signer_refused _ \<Rightarrow> raised ''SignerRefused''
      | Returns r \<Rightarrow> (rb, classify_probe r, Some (ss_reason r), ss_detail r))"

text \<open>A raised exception leaves the statistics and the store as they were when it was raised.\<close>

definition reprobe ::
  "millis \<Rightarrow> reprober \<Rightarrow> mint \<Rightarrow> int \<Rightarrow> bool \<Rightarrow> reprober \<times> reprobe_result option result" where
  "reprobe now rb m event_slot is_open =
     (if m = [] then (rb, Inl ValueError)
      else if event_slot < 0 then (rb, Inl ValueError)
      else if \<not> is_open
      then (rb\<lparr>rb_stats := (rb_stats rb)\<lparr>not_open_skipped := not_open_skipped (rb_stats rb) + 1\<rparr>\<rparr>,
            Inr None)
      else
        let st = rb_stats rb;
            rb1 = rb\<lparr>rb_stats := st\<lparr>reprobes_run := reprobes_run st + 1,
                                    last_event_slot := max (last_event_slot st) event_slot\<rparr>\<rparr> in
        case run_probe rb1 m event_slot of
          (rb2, reason, sim_reason, detail) \<Rightarrow>
            let answer = (\<lambda>flag_set.
                  \<lparr>rp_mint = m, rp_event_slot = event_slot, rp_reason = reason,
                   rp_degraded = is_degraded reason, rp_flag_set = flag_set,
                   rp_sell_sim_reason = sim_reason, rp_detail = detail\<rparr>);
                st2 = rb_stats rb2 in
            if is_degraded reason
            then
              let rb3 = rb2\<lparr>rb_stats := st2\<lparr>st_degraded := st_degraded st2 + 1\<rparr>\<rparr> in
              (case rb_sink rb3 of
                 None \<Rightarrow> (rb3, Inr (Some (answer False)))
               | Some store \<Rightarrow>
                   (case set_sellability_degraded_flag store m (reprobe_reason_value reason) event_slot
                           (rb_flag_ttl rb3) now of
                      Inl e \<Rightarrow> (rb3, Inl e)
                    | Inr store' \<Rightarrow>
                        (rb3\<lparr>rb_sink := Some store',
                             rb_stats := (rb_stats rb3)\<lparr>flags_set := flags_set (rb_stats rb3) + 1\<rparr>\<rparr>,
                         Inr (Some (answer True)))))
            else (rb2\<lparr>rb_stats := st2\<lparr>st_healthy := st_healthy st2 + 1\<rparr>\<rparr>, Inr (Some (answer False))))"

fun reprobe_each ::
  "millis \<Rightarrow> reprober \<Rightarrow> int \<Rightarrow> position list \<Rightarrow> reprober \<times> reprobe_result list result" where
  "reprobe_each now rb event_slot [] = (rb, Inr [])"
| "reprobe_each now rb event_slot (p # ps) =
     (case reprobe now rb (pos_mint p) event_slot True of
        (rb1, Inl e) \<Rightarrow> (rb1, Inl e)
      | (rb1, Inr r) \<Rightarrow>
          (case reprobe_each now rb1 event_slot ps of
             (rb2, Inl e) \<Rightarrow> (rb2, Inl e)
           | (rb2, Inr rs) \<Rightarrow> (rb2, Inr (opt_list r @ rs))))"

definition reprobe_open_positions ::
  "millis \<Rightarrow> reprober \<Rightarrow> position list \<Rightarrow> int \<Rightarrow> reprober \<times> reprobe_result list result" where
  "reprobe_open_positions now rb loaded event_slot =
     (if event_slot < 0 then (rb, Inl ValueError) else reprobe_each now rb event_slot loaded)"

subsection \<open>What the sell simulation accepts\<close>

lemma simulate_sell_fields:
  "ss_mint (simulate_sell v m sl) = m" "ss_event_slot (simulate_sell v m sl) = sl"
  "ss_sellable (simulate_sell v m sl) \<longleftrightarrow> ss_reason (simulate_sell v m sl) = SR_SELLABLE"
  by (simp_all add: simulate_sell_def sell_result_def Let_def split: outcome.splits)

lemma is_sellable_iff:
  "is_sellable v m sl \<longleftrightarrow>
     0 < quote_sell (sv_rpc v) \<and>
     (\<exists>signed sim.
        sv_sign v (build_sell_stub v m (dust_sell_amount (sv_config v)) 1 (Cid ''sell-sim'' m [of_int sl])) = Returns signed \<and>
        simulate_transaction (sv_rpc v) signed = Returns sim \<and> sim_success sim) \<and>
     0 < extract_sim_out (sv_rpc v) (quote_sell (sv_rpc v)) \<and>
     compute_effective_tax_bps (extract_sim_out (sv_rpc v) (quote_sell (sv_rpc v))) (quote_sell (sv_rpc v))
       \<le> sc_max_sell_tax_bps (sv_config v)"
  by (auto simp: is_sellable_def simulate_sell_def sell_result_def Let_def split: outcome.splits)

lemma effective_tax_bounds:
  "0 \<le> compute_effective_tax_bps out quote \<and> compute_effective_tax_bps out quote \<le> 10000"
proof -
  have "(quote - out) * 10000 div quote \<le> 10000" if "0 < quote" "0 \<le> out"
  proof -
    have "(quote - out) * 10000 \<le> 10000 * quote" using that by simp
    then have "(quote - out) * 10000 div quote \<le> 10000 * quote div quote"
      using that(1) by (intro zdiv_mono1)
    with that(1) show ?thesis by simp
  qed
  then show ?thesis by (auto simp: compute_effective_tax_bps_def pos_imp_zdiv_nonneg_iff not_le)
qed

lemma effective_tax_le_iff:
  assumes "0 < quote" and "0 < out" and "0 \<le> mx"
  shows "compute_effective_tax_bps out quote \<le> mx \<longleftrightarrow> (quote - out) * 10000 < (mx + 1) * quote"
proof (cases "quote \<le> out")
  case True
  then have "(quote - out) * 10000 \<le> 0" by simp
  moreover have "0 < (mx + 1) * quote" using assms by simp
  ultimately have "(quote - out) * 10000 < (mx + 1) * quote" by linarith
  then show ?thesis using True assms by (simp add: compute_effective_tax_bps_def)
next
  case False
  have "(quote - out) * 10000 div quote < mx + 1 \<longleftrightarrow> (quote - out) * 10000 < (mx + 1) * quote"
    using assms(1) by (rule int_div_less_iff)
  with False assms show ?thesis by (simp add: compute_effective_tax_bps_def zle_iff_zadd)
qed

text \<open>
  The sell probe refuses by default: it declares a mint sellable exactly when the quote is
  positive, the signer signed and the node simulated the dust sell without a revert, the simulated
  proceeds are positive and the tax they imply is within the maximum. A refusing signer and any
  exception of the signer or the node make the safety gate's sellability check report
  \<open>NOT_SELLABLE\<close>.
\<close>

theorem sell_probe_refuses_by_default:
  assumes "mk_SellSimConfig (sv_config v) = Inr (sv_config v)"
  defines "quote \<equiv> quote_sell (sv_rpc v)" and "out \<equiv> extract_sim_out (sv_rpc v) (quote_sell (sv_rpc v))"
  shows "check_sellability i (Some (is_sellable v)) = None \<longleftrightarrow>
     0 < quote \<and> 0 < out \<and>
     (\<exists>signed sim.
        sv_sign v (build_sell_stub v (si_mint i) (dust_sell_amount (sv_config v)) 1
          (Cid ''sell-sim'' (si_mint i) [of_int (si_event_slot i)])) = Returns signed \<and>
        simulate_transaction (sv_rpc v) signed = Returns sim \<and> sim_success sim) \<and>
     (quote - out) * 10000 < (sc_max_sell_tax_bps (sv_config v) + 1) * quote"
proof -
  have mx: "0 \<le> sc_max_sell_tax_bps (sv_config v)"
    using assms(1) by (auto simp: mk_SellSimConfig_def split: if_splits)
  show ?thesis
    unfolding quote_def out_def
    using effective_tax_le_iff [OF _ _ mx]
    by (auto simp: check_sellability_def is_sellable_iff)
qed

definition demo_venue :: "lamports option \<Rightarrow> lamports option \<Rightarrow> unit sell_sim_venue" where
  "demo_venue q s =
     \<lparr>sv_rpc = \<lparr>quote_out_attr = q, sell_out_attr = s,
        simulate_transaction = (\<lambda>_. Returns \<lparr>sim_success = True, sr_cu_consumed = 85000, sr_revert_reason = None\<rparr>)\<rparr>,
      sv_sign = (\<lambda>_. Returns ()), sv_config = default_sell_sim_config, sv_wallet_pubkey = ''w''\<rparr>"

theorem sell_probe_refuses_by_default_witness:
  "check_sellability clean_inputs (Some (is_sellable (demo_venue (Some 10000) (Some 9900)))) = None \<and>
   check_sellability clean_inputs (Some (is_sellable (demo_venue (Some 10000) (Some 8900)))) \<noteq> None"
proof -
  have ok: "mk_SellSimConfig (sv_config (demo_venue q s)) = Inr (sv_config (demo_venue q s))" for q s
    by (simp add: demo_venue_def mk_SellSimConfig_def default_sell_sim_config_def)
  show ?thesis
    using sell_probe_refuses_by_default [OF ok, of clean_inputs "Some 10000" "Some 9900"]
      sell_probe_refuses_by_default [OF ok, of clean_inputs "Some 10000" "Some 8900"]
    by (simp add: demo_venue_def quote_sell_def extract_sim_out_def default_sell_sim_config_def)
qed

text \<open>
  The tax and zero-output checks of the sell simulation are inert on a production node. For an
  RPC client without the two test attributes the simulated proceeds are the quoted constant, so
  the verdict depends only on whether the signer signed and the simulation did not revert,
  whatever the configured maximum tax and minimum output ratio are, and neither
  \<open>HIGH_SELL_TAX\<close> nor \<open>ZERO_OUTPUT\<close> is ever reported.
\<close>

theorem sell_tax_check_inert_on_real_client:
  assumes "quote_out_attr (sv_rpc v) = None" and "sell_out_attr (sv_rpc v) = None"
    and "mk_SellSimConfig (sv_config v) = Inr (sv_config v)"
  shows "ss_reason (simulate_sell v m sl) \<notin> {SR_HIGH_SELL_TAX, SR_ZERO_OUTPUT, SR_QUOTE_FAILED}"
    and "is_sellable v m sl \<longleftrightarrow>
      (\<exists>signed sim.
        sv_sign v (build_sell_stub v m (dust_sell_amount (sv_config v)) 1 (Cid ''sell-sim'' m [of_int sl])) = Returns signed \<and>
        simulate_transaction (sv_rpc v) signed = Returns sim \<and> sim_success sim)"
proof -
  have mx: "0 \<le> sc_max_sell_tax_bps (sv_config v)"
    using assms(3) by (auto simp: mk_SellSimConfig_def split: if_splits)
  have q: "quote_sell (sv_rpc v) = 10000" "extract_sim_out (sv_rpc v) 10000 = 10000"
    "compute_effective_tax_bps 10000 10000 = 0"
    using assms(1,2) by (simp_all add: quote_sell_def extract_sim_out_def compute_effective_tax_bps_def)
  show "is_sellable v m sl \<longleftrightarrow>
      (\<exists>signed sim.
        sv_sign v (build_sell_stub v m (dust_sell_amount (sv_config v)) 1 (Cid ''sell-sim'' m [of_int sl])) = Returns signed \<and>
        simulate_transaction (sv_rpc v) signed = Returns sim \<and> sim_success sim)"
    using mx by (simp add: is_sellable_iff q)
  show "ss_reason (simulate_sell v m sl) \<notin> {SR_HIGH_SELL_TAX, SR_ZERO_OUTPUT, SR_QUOTE_FAILED}"
    using mx by (simp add: simulate_sell_def Let_def q sell_result_def split: outcome.splits)
qed

theorem sell_tax_check_inert_on_real_client_witness:
  "is_sellable (demo_venue None None) ''m'' 1 \<and>
   ss_reason (simulate_sell (demo_venue None None) ''m'' 1) \<notin> {SR_HIGH_SELL_TAX, SR_ZERO_OUTPUT, SR_QUOTE_FAILED}"
  using sell_tax_check_inert_on_real_client [of "demo_venue None None" "''m''" 1]
  by (simp add: demo_venue_def mk_SellSimConfig_def default_sell_sim_config_def)

subsection \<open>The re-probe raises the exit flag\<close>

definition probe_clean :: "reprober \<Rightarrow> mint \<Rightarrow> int \<Rightarrow> bool" where
  "probe_clean rb m sl \<longleftrightarrow>
     (\<exists>r. rb_probe rb m sl = Returns r \<and> ss_sellable r \<and> ss_reason r = SR_SELLABLE)"

lemma degraded_reason_degraded: "degraded_reason_of r \<noteq> RP_HEALTHY"
  by (cases r) simp_all

lemma classify_probe_healthy: "classify_probe r = RP_HEALTHY \<longleftrightarrow> ss_sellable r \<and> ss_reason r = SR_SELLABLE"
  by (simp add: classify_probe_def degraded_reason_degraded)

lemma reprobe_reason_value_nonempty [simp]: "reprobe_reason_value r \<noteq> []"
  by (cases r) simp_all

lemma run_probe_frame:
  assumes "run_probe rb m sl = (rb', reason, sim, detail)"
  shows "rb_probe rb' = rb_probe rb" "rb_flag_ttl rb' = rb_flag_ttl rb" "rb_sink rb' = rb_sink rb"
    "is_degraded reason \<longleftrightarrow> \<not> probe_clean rb m sl"
  using assms
  by (auto simp: run_probe_def Let_def is_degraded_def probe_clean_def classify_probe_healthy
      split: outcome.splits)

text \<open>One re-probe of an open position: the flag is written exactly when the probe is not clean.\<close>

lemma reprobe_open:
  assumes "m \<noteq> []" and "0 \<le> sl" and "rb_sink rb = Some st"
  shows "\<exists>rb' r. reprobe now rb m sl True = (rb', Inr (Some r)) \<and>
    rb_probe rb' = rb_probe rb \<and> rb_flag_ttl rb' = rb_flag_ttl rb \<and> rp_mint r = m \<and>
    (rp_degraded r \<longleftrightarrow> \<not> probe_clean rb m sl) \<and> rp_flag_set r = rp_degraded r \<and>
    rb_sink rb' = Some (if probe_clean rb m sl then st
      else st\<lparr>sellability_degraded_flags :=
             ttl_put (sellability_degraded_flags st) m (reprobe_reason_value (rp_reason r), sl) (rb_flag_ttl rb) now\<rparr>)"
proof -
  let ?rb1 = "rb\<lparr>rb_stats := (rb_stats rb)\<lparr>reprobes_run := reprobes_run (rb_stats rb) + 1,
    last_event_slot := max (last_event_slot (rb_stats rb)) sl\<rparr>\<rparr>"
  obtain rb2 reason sim detail where rp: "run_probe ?rb1 m sl = (rb2, reason, sim, detail)"
    by (cases "run_probe ?rb1 m sl")
  note fr = run_probe_frame [OF rp]
  have clean: "probe_clean ?rb1 m sl = probe_clean rb m sl" by (simp add: probe_clean_def)
  show ?thesis
    using assms fr
    by (auto simp: reprobe_def Let_def rp clean set_sellability_degraded_flag_def)
qed

lemma flag_after_put:
  "snd (get_sellability_degraded_flag
      (st\<lparr>sellability_degraded_flags := ttl_put (sellability_degraded_flags st) m v ttl now\<rparr>) m' t) \<longleftrightarrow>
     (if m' = m then t < now + ttl * 1000 else snd (get_sellability_degraded_flag st m' t))"
  by (auto simp: get_sellability_degraded_flag_def ttl_get_def ttl_put_def is_expired_def
      split: option.splits)

lemma put_keeps_positions:
  "positions (st\<lparr>sellability_degraded_flags := d\<rparr>) = positions st"
  by simp

text \<open>
  The flag of a mint after a sweep over a list of positions: live when the mint's probe is not
  clean, otherwise as before.
\<close>

lemma reprobe_each_flags:
  assumes "0 \<le> sl" and "\<forall>p \<in> set ps. pos_mint p \<noteq> []" and "rb_sink rb = Some st"
    and "0 < rb_flag_ttl rb"
  shows "\<exists>rb' rs st'. reprobe_each now rb sl ps = (rb', Inr rs) \<and> rb_sink rb' = Some st' \<and>
    map rp_mint rs = map pos_mint ps \<and>
    (\<forall>r \<in> set rs. rp_degraded r \<longleftrightarrow> \<not> probe_clean rb (rp_mint r) sl) \<and>
    positions st' = positions st \<and>
    (\<forall>m t. snd (get_sellability_degraded_flag st' m t) \<longleftrightarrow>
       (if m \<in> pos_mint ` set ps \<and> \<not> probe_clean rb m sl then t < now + rb_flag_ttl rb * 1000
        else snd (get_sellability_degraded_flag st m t)))"
  using assms
proof (induction ps arbitrary: rb st)
  case Nil
  then show ?case by simp
next
  case (Cons p ps)
  from reprobe_open [OF _ Cons.prems(1,3), of "pos_mint p" now] Cons.prems(2)
  obtain rb1 r where one: "reprobe now rb (pos_mint p) sl True = (rb1, Inr (Some r))"
    "rb_probe rb1 = rb_probe rb" "rb_flag_ttl rb1 = rb_flag_ttl rb" "rp_mint r = pos_mint p"
    "rp_degraded r \<longleftrightarrow> \<not> probe_clean rb (pos_mint p) sl"
    and sink: "rb_sink rb1 = Some (if probe_clean rb (pos_mint p) sl then st
      else st\<lparr>sellability_degraded_flags := ttl_put (sellability_degraded_flags st) (pos_mint p)
             (reprobe_reason_value (rp_reason r), sl) (rb_flag_ttl rb) now\<rparr>)"
    by (auto simp del: not_None_eq)
  define st1 where "st1 = the (rb_sink rb1)"
  have st1: "rb_sink rb1 = Some st1" "positions st1 = positions st"
    by (simp_all add: st1_def sink)
  have fl1: "snd (get_sellability_degraded_flag st1 m t) \<longleftrightarrow>
      (if m = pos_mint p \<and> \<not> probe_clean rb m sl then t < now + rb_flag_ttl rb * 1000
       else snd (get_sellability_degraded_flag st m t))" for m t
    by (auto simp: st1_def sink flag_after_put)
  have clean: "probe_clean rb1 m sl = probe_clean rb m sl" for m
    by (simp add: probe_clean_def one(2))
  from Cons.IH [OF Cons.prems(1) _ st1(1)] Cons.prems(2,4) one(3)
  obtain rb' rs st' where rest: "reprobe_each now rb1 sl ps = (rb', Inr rs)" "rb_sink rb' = Some st'"
    "map rp_mint rs = map pos_mint ps" "\<forall>r \<in> set rs. rp_degraded r \<longleftrightarrow> \<not> probe_clean rb (rp_mint r) sl"
    and pos: "positions st' = positions st1"
    and fl: "\<And>m t. snd (get_sellability_degraded_flag st' m t) \<longleftrightarrow>
       (if m \<in> pos_mint ` set ps \<and> \<not> probe_clean rb m sl then t < now + rb_flag_ttl rb * 1000
        else snd (get_sellability_degraded_flag st1 m t))"
    unfolding clean by auto
  have "snd (get_sellability_degraded_flag st' m t) \<longleftrightarrow>
       (if m \<in> pos_mint ` set (p # ps) \<and> \<not> probe_clean rb m sl then t < now + rb_flag_ttl rb * 1000
        else snd (get_sellability_degraded_flag st m t))" for m t
    by (auto simp: fl fl1)
  with rest one(1,4,5) pos st1(2) show ?case by simp
qed

text \<open>
  The re-probe sweep flags exactly the positions it cannot prove sellable. Over any book of
  positions, and whatever the shared sell simulation returns or raises, the sweep reports one
  result per position in order; afterwards the force-exit flag of a held mint whose probe was not a
  clean \<open>SELLABLE\<close> is live at every later clock reading up to the flag's time to live and not
  beyond, every other flag reads as before, and no position record changed.
\<close>

theorem reprobe_sweep_flags_exactly_degraded:
  assumes "mk_SellabilityReprober probe (Some st) ttl = Inr rb" and "0 \<le> sl"
    and "\<forall>p \<in> set ps. pos_mint p \<noteq> []"
  shows "\<exists>rb' rs st'. reprobe_open_positions now rb ps sl = (rb', Inr rs) \<and> rb_sink rb' = Some st' \<and>
    map rp_mint rs = map pos_mint ps \<and>
    (\<forall>r \<in> set rs. rp_degraded r \<longleftrightarrow> \<not> probe_clean rb (rp_mint r) sl) \<and>
    positions st' = positions st \<and>
    (\<forall>m t. snd (get_sellability_degraded_flag st' m t) \<longleftrightarrow>
       (if m \<in> pos_mint ` set ps \<and> \<not> probe_clean rb m sl then t < now + ttl * 1000
        else snd (get_sellability_degraded_flag st m t)))"
proof -
  have rb: "rb_sink rb = Some st" "rb_flag_ttl rb = ttl" "0 < rb_flag_ttl rb"
    using assms(1) by (auto simp: mk_SellabilityReprober_def split: if_splits)
  have sweep: "reprobe_open_positions now rb ps sl = reprobe_each now rb sl ps"
    using assms(2) by (simp add: reprobe_open_positions_def)
  show ?thesis
    unfolding sweep by (rule reprobe_each_flags [OF assms(2,3) rb(1,3), unfolded rb(2)])
qed

theorem reprobe_sweep_flags_exactly_degraded_witness:
  "\<exists>rb rb' rs st'. mk_SellabilityReprober (\<lambda>m sl. Raises ''RpcError'') (Some empty_store) 120 = Inr rb \<and>
     reprobe_open_positions 1000 rb [demo_position] 7 = (rb', Inr rs) \<and> rb_sink rb' = Some st' \<and>
     snd (get_sellability_degraded_flag st' ''m'' 120999) \<and>
     \<not> snd (get_sellability_degraded_flag st' ''m'' 121000)"
proof -
  obtain rb where rb: "mk_SellabilityReprober (\<lambda>m sl. Raises ''RpcError'') (Some empty_store) 120 = Inr rb"
    by (simp add: mk_SellabilityReprober_def)
  have "\<not> probe_clean rb m sl" for m sl
    using rb by (auto simp: mk_SellabilityReprober_def probe_clean_def)
  with reprobe_sweep_flags_exactly_degraded [OF rb, of 7 "[demo_position]" 1000] rb show ?thesis
    by (auto simp: demo_position_def)
qed
end
