(* ===== verification/Conviction_Gates.thy ===== *)
theory Conviction_Gates
  imports Safety_Gate State_Store
begin

text \<open>
  The gates that scale an already capped size down or to zero: the LP-unlock window
  (\<open>aats/risk/lp_unlock_gate.py\<close>, with the watcher that raises the force-exit flag on an open
  position), the age of the deployer's funding (\<open>dev_funding_age_gate.py\<close>), the deployer's record
  (\<open>deployer_reputation_gate.py\<close>) and the anti-FOMO filter (\<open>anti_fomo.py\<close>). A decision class is a
  record with a checking constructor that runs its \<open>__post_init__\<close>; the three verdict enums have
  the same members and are one datatype. The thresholds' \<open>from_env\<close> readers are not modelled.
\<close>

subsection \<open>Verdicts, multipliers and their application\<close>

datatype conv_verdict = CV_PASS | CV_DOWN_WEIGHT | CV_REJECT

text \<open>The consistency checks the three red-flag decision classes run on construction.\<close>

definition decision_consistent ::
  "red_flag list \<Rightarrow> conv_verdict \<Rightarrow> decimal \<Rightarrow> red_flag_hit option \<Rightarrow> bool" where
  "decision_consistent reject_flags v m hit \<longleftrightarrow>
     0 \<le> m \<and> m \<le> 1 \<and>
     (v = CV_REJECT \<longrightarrow> m = 0 \<and> (case hit of None \<Rightarrow> False | Some h \<Rightarrow> hit_flag h \<in> set reject_flags)) \<and>
     (v = CV_PASS \<longrightarrow> m = 1 \<and> hit = None) \<and>
     (v = CV_DOWN_WEIGHT \<longrightarrow> m < 1 \<and> hit = None)"

definition apply_multiplier :: "decimal \<Rightarrow> lamports \<Rightarrow> lamports result" where
  "apply_multiplier m capped_size =
     (if capped_size < 0 then Inl ValueError
      else Inr (min \<lfloor>dmul (of_int capped_size) m\<rfloor> capped_size))"

text \<open>\<open>bool(getattr(next_result, 'passed', True))\<close>: \<open>attr\<close> is \<open>None\<close> when there is no such attribute.\<close>

definition passed_attr :: "('r \<Rightarrow> bool option) \<Rightarrow> 'r \<Rightarrow> bool" where
  "passed_attr attr r = (case attr r of None \<Rightarrow> True | Some b \<Rightarrow> b)"

subsection \<open>LP unlock gate\<close>

datatype lp_lock_status = BURNED | TIME_LOCKED | UNKNOWN | Other_status string

record lp_schedule =
  ls_mint :: mint
  ls_as_of_event_slot :: int
  ls_status :: lp_lock_status
  ls_unlock_slot :: "int option"

definition mk_LpUnlockSchedule :: "lp_schedule \<Rightarrow> lp_schedule result" where
  "mk_LpUnlockSchedule s =
     (if ls_mint s = [] then Inl ValueError
      else if ls_as_of_event_slot s < 0 then Inl ValueError
      else if (case ls_unlock_slot s of None \<Rightarrow> False | Some u \<Rightarrow> u < 0) then Inl ValueError
      else if (ls_status s = BURNED \<or> ls_status s = UNKNOWN) \<and> ls_unlock_slot s \<noteq> None
      then Inl ValueError
      else Inr s)"

record lp_thresholds =
  reject_within_slots :: int
  downweight_within_slots :: int
  lp_downweight_multiplier :: decimal
  exit_raise_within_slots :: int

definition default_lp_thresholds :: lp_thresholds where
  "default_lp_thresholds =
     \<lparr>reject_within_slots = 216000, downweight_within_slots = 648000,
      lp_downweight_multiplier = 1 / 4, exit_raise_within_slots = 216000\<rparr>"

definition mk_LpUnlockThresholds :: "lp_thresholds \<Rightarrow> lp_thresholds result" where
  "mk_LpUnlockThresholds t =
     (if reject_within_slots t < 0 \<or> downweight_within_slots t < 0 \<or> exit_raise_within_slots t < 0
      then Inl ValueError
      else if downweight_within_slots t < reject_within_slots t then Inl ValueError
      else if \<not> (0 \<le> lp_downweight_multiplier t \<and> lp_downweight_multiplier t < 1) then Inl ValueError
      else Inr t)"

record lp_decision =
  lu_mint :: mint
  lu_verdict :: conv_verdict
  lu_conviction_multiplier :: decimal
  lu_reason_codes :: "string list"
  lu_slots_to_unlock :: "int option"
  lu_unlock_slot :: "int option"
  lu_as_of_event_slot :: int
  lu_event_block_time_ms :: millis
  lu_red_flag_hit :: "red_flag_hit option"

definition mk_LpUnlockDecision :: "lp_decision \<Rightarrow> lp_decision result" where
  "mk_LpUnlockDecision d =
     (if decision_consistent [LP_UNLOCK_IMMINENT, LP_UNLOCK_SCHEDULE_UNKNOWN] (lu_verdict d)
           (lu_conviction_multiplier d) (lu_red_flag_hit d)
      then Inr d else Inl ValueError)"

definition lp_rejected :: "lp_decision \<Rightarrow> bool" where
  "lp_rejected d \<longleftrightarrow> lu_verdict d = CV_REJECT"

definition lp_apply :: "lp_decision \<Rightarrow> lamports \<Rightarrow> lamports result" where
  "lp_apply d capped_size = apply_multiplier (lu_conviction_multiplier d) capped_size"

definition lp_pass :: "lp_schedule \<Rightarrow> millis \<Rightarrow> int option \<Rightarrow> lp_decision result" where
  "lp_pass s bt slots =
     mk_LpUnlockDecision
       \<lparr>lu_mint = ls_mint s, lu_verdict = CV_PASS, lu_conviction_multiplier = 1,
        lu_reason_codes = [], lu_slots_to_unlock = slots, lu_unlock_slot = ls_unlock_slot s,
        lu_as_of_event_slot = ls_as_of_event_slot s, lu_event_block_time_ms = bt,
        lu_red_flag_hit = None\<rparr>"

definition lp_reject ::
  "lp_schedule \<Rightarrow> millis \<Rightarrow> string \<Rightarrow> red_flag \<Rightarrow> int option \<Rightarrow> int option \<Rightarrow> int option \<Rightarrow>
   lp_decision result" where
  "lp_reject s bt reason flag slots measured threshold =
     mk_LpUnlockDecision
       \<lparr>lu_mint = ls_mint s, lu_verdict = CV_REJECT, lu_conviction_multiplier = 0,
        lu_reason_codes = [reason], lu_slots_to_unlock = slots, lu_unlock_slot = ls_unlock_slot s,
        lu_as_of_event_slot = ls_as_of_event_slot s, lu_event_block_time_ms = bt,
        lu_red_flag_hit = Some (RedFlagHit flag measured threshold)\<rparr>"

definition lp_evaluate :: "lp_thresholds \<Rightarrow> lp_schedule \<Rightarrow> millis \<Rightarrow> lp_decision result" where
  "lp_evaluate t s bt =
     (if ls_status s = BURNED then lp_pass s bt None
      else if ls_status s = UNKNOWN \<or> ls_status s = TIME_LOCKED \<and> ls_unlock_slot s = None
      then lp_reject s bt ''lp_unlock_schedule_unknown'' LP_UNLOCK_SCHEDULE_UNKNOWN None None None
      else if ls_status s \<noteq> TIME_LOCKED then Inl ValueError
      else
        let slots = the (ls_unlock_slot s) - ls_as_of_event_slot s in
        if slots \<le> reject_within_slots t
        then lp_reject s bt ''lp_unlock_imminent'' LP_UNLOCK_IMMINENT (Some slots) (Some slots)
               (Some (reject_within_slots t))
        else if slots \<le> downweight_within_slots t
        then mk_LpUnlockDecision
               \<lparr>lu_mint = ls_mint s, lu_verdict = CV_DOWN_WEIGHT,
                lu_conviction_multiplier = lp_downweight_multiplier t,
                lu_reason_codes = [''lp_unlock_approaching''], lu_slots_to_unlock = Some slots,
                lu_unlock_slot = ls_unlock_slot s, lu_as_of_event_slot = ls_as_of_event_slot s,
                lu_event_block_time_ms = bt, lu_red_flag_hit = None\<rparr>
        else lp_pass s bt (Some slots))"

record 'r lp_pre_gate_result =
  lpg_passed :: bool
  lpg_decision :: lp_decision
  lpg_next_result :: "'r option"

definition evaluate_with_lp_unlock ::
  "lp_thresholds \<Rightarrow> lp_schedule \<Rightarrow> ('r \<Rightarrow> bool option) \<Rightarrow> (unit \<Rightarrow> 'r) \<Rightarrow> millis \<Rightarrow>
   'r lp_pre_gate_result result" where
  "evaluate_with_lp_unlock t s attr next_step bt =
     rbind (lp_evaluate t s bt) (\<lambda>d.
       if lp_rejected d
       then Inr \<lparr>lpg_passed = False, lpg_decision = d, lpg_next_result = None\<rparr>
       else let r = next_step () in
            Inr \<lparr>lpg_passed = passed_attr attr r, lpg_decision = d, lpg_next_result = Some r\<rparr>)"

subsection \<open>LP unlock exit watcher\<close>

datatype lp_exit_reason = LX_HEALTHY | LX_APPROACHING | LX_SCHEDULE_UNKNOWN

fun lp_exit_reason_value :: "lp_exit_reason \<Rightarrow> string" where
  "lp_exit_reason_value LX_HEALTHY = ''healthy''"
| "lp_exit_reason_value LX_APPROACHING = ''lp_unlock_approaching''"
| "lp_exit_reason_value LX_SCHEDULE_UNKNOWN = ''lp_unlock_schedule_unknown''"

definition should_raise :: "lp_exit_reason \<Rightarrow> bool" where
  "should_raise r \<longleftrightarrow> r \<noteq> LX_HEALTHY"

record lp_exit_decision =
  lx_mint :: mint
  lx_event_slot :: int
  lx_reason :: lp_exit_reason
  lx_raise_flag :: bool
  lx_flag_set :: bool
  lx_slots_to_unlock :: "int option"
  lx_detail :: audit

definition classify_open_position_unlock ::
  "lp_schedule \<Rightarrow> int \<Rightarrow> lp_thresholds \<Rightarrow> (lp_exit_reason \<times> int option \<times> audit) result" where
  "classify_open_position_unlock s event_slot t =
     (if event_slot < 0 then Inl ValueError
      else if ls_status s = BURNED
      then Inr (LX_HEALTHY, None, Audit ''burned LP: no unlock window, no flag'' [])
      else if ls_status s = UNKNOWN \<or> ls_status s = TIME_LOCKED \<and> ls_unlock_slot s = None
      then Inr (LX_SCHEDULE_UNKNOWN, None,
                Audit ''undecodable LP unlock schedule (refuse-by-default => raise exit flag)'' [])
      else if ls_status s \<noteq> TIME_LOCKED then Inl ValueError
      else
        let slots = the (ls_unlock_slot s) - event_slot in
        if slots \<le> exit_raise_within_slots t
        then Inr (LX_APPROACHING, Some slots,
                  Audit ''unlock in {} slots (<= {}); pullable-LP window is a rising rug risk''
                    [of_int slots, of_int (exit_raise_within_slots t)])
        else Inr (LX_HEALTHY, Some slots,
                  Audit ''unlock in {} slots (> {}); far off''
                    [of_int slots, of_int (exit_raise_within_slots t)]))"

text \<open>The watcher with its thresholds and flag time to live; the sink is the state store, or absent.\<close>

record lp_exit_watcher =
  lw_thresholds :: lp_thresholds
  lw_flag_ttl_seconds :: int

definition mk_LpUnlockExitWatcher :: "lp_exit_watcher \<Rightarrow> lp_exit_watcher result" where
  "mk_LpUnlockExitWatcher w = (if lw_flag_ttl_seconds w < 1 then Inl ValueError else Inr w)"

definition lp_watch ::
  "lp_exit_watcher \<Rightarrow> lp_schedule \<Rightarrow> int \<Rightarrow> store option \<Rightarrow> millis \<Rightarrow>
   (store option \<times> lp_exit_decision) result" where
  "lp_watch w s event_slot sink now =
     rbind (classify_open_position_unlock s event_slot (lw_thresholds w)) (\<lambda>(reason, slots, detail).
       let decide = (\<lambda>flag_set.
             \<lparr>lx_mint = ls_mint s, lx_event_slot = event_slot, lx_reason = reason,
              lx_raise_flag = should_raise reason, lx_flag_set = flag_set,
              lx_slots_to_unlock = slots, lx_detail = detail\<rparr>) in
       case sink of
         Some st \<Rightarrow>
           if should_raise reason
           then rbind (set_lp_unlock_approaching_flag st (ls_mint s) (lp_exit_reason_value reason)
                         event_slot (lw_flag_ttl_seconds w) now)
                  (\<lambda>st'. Inr (Some st', decide True))
           else Inr (Some st, decide False)
       | None \<Rightarrow> Inr (None, decide False))"

subsection \<open>Deployer funding age gate\<close>

record dev_funding_thresholds =
  reject_max_age_seconds :: int
  downweight_max_age_seconds :: int
  da_downweight_multiplier :: decimal

definition default_dev_funding_thresholds :: dev_funding_thresholds where
  "default_dev_funding_thresholds =
     \<lparr>reject_max_age_seconds = 120, downweight_max_age_seconds = 1800, da_downweight_multiplier = 1 / 4\<rparr>"

definition mk_DevFundingAgeThresholds :: "dev_funding_thresholds \<Rightarrow> dev_funding_thresholds result" where
  "mk_DevFundingAgeThresholds t =
     (if reject_max_age_seconds t < 0 \<or> downweight_max_age_seconds t < 0 then Inl ValueError
      else if downweight_max_age_seconds t < reject_max_age_seconds t then Inl ValueError
      else if \<not> (0 \<le> da_downweight_multiplier t \<and> da_downweight_multiplier t < 1) then Inl ValueError
      else Inr t)"

record dev_funding_result =
  fr_creator_wallet :: string
  fr_deploy_event_slot :: int
  fr_deploy_block_time_ms :: millis
  fr_status :: string
  fr_funding_age_slots :: "int option"
  fr_funding_age_ms :: "millis option"

definition is_found :: "dev_funding_result \<Rightarrow> bool" where
  "is_found r \<longleftrightarrow> fr_status r = ''found''"

record dev_funding_decision =
  da_creator_wallet :: string
  da_verdict :: conv_verdict
  da_conviction_multiplier :: decimal
  da_reason_codes :: "string list"
  da_funding_age_slots :: "int option"
  da_funding_age_ms :: "millis option"
  da_deploy_event_slot :: int
  da_event_block_time_ms :: millis
  da_red_flag_hit :: "red_flag_hit option"

definition mk_DevFundingAgeDecision :: "dev_funding_decision \<Rightarrow> dev_funding_decision result" where
  "mk_DevFundingAgeDecision d =
     (if decision_consistent [DEV_FUNDED_JUST_BEFORE_LAUNCH, DEV_FUNDING_UNDECODABLE] (da_verdict d)
           (da_conviction_multiplier d) (da_red_flag_hit d)
      then Inr d else Inl ValueError)"

definition dev_rejected :: "dev_funding_decision \<Rightarrow> bool" where
  "dev_rejected d \<longleftrightarrow> da_verdict d = CV_REJECT"

definition dev_apply :: "dev_funding_decision \<Rightarrow> lamports \<Rightarrow> lamports result" where
  "dev_apply d capped_size = apply_multiplier (da_conviction_multiplier d) capped_size"

definition dev_evaluate ::
  "dev_funding_thresholds \<Rightarrow> dev_funding_result \<Rightarrow> millis option \<Rightarrow> dev_funding_decision result" where
  "dev_evaluate t r event_bt =
     (let bt = (case event_bt of Some b \<Rightarrow> b | None \<Rightarrow> fr_deploy_block_time_ms r);
          decide = (\<lambda>v m reasons slots ms hit.
            mk_DevFundingAgeDecision
              \<lparr>da_creator_wallet = fr_creator_wallet r, da_verdict = v, da_conviction_multiplier = m,
               da_reason_codes = reasons, da_funding_age_slots = slots, da_funding_age_ms = ms,
               da_deploy_event_slot = fr_deploy_event_slot r, da_event_block_time_ms = bt,
               da_red_flag_hit = hit\<rparr>) in
      if \<not> is_found r
      then decide CV_REJECT 0 [''dev_funding_undecodable''] None None
             (Some (RedFlagHit DEV_FUNDING_UNDECODABLE None None))
      else case fr_funding_age_ms r of
        None \<Rightarrow> Inl ValueError
      | Some age_ms \<Rightarrow>
          if age_ms < 0 then Inl ValueError
          else if age_ms \<le> reject_max_age_seconds t * 1000
          then decide CV_REJECT 0 [''dev_funded_just_before_launch''] (fr_funding_age_slots r) (Some age_ms)
                 (Some (RedFlagHit DEV_FUNDED_JUST_BEFORE_LAUNCH (Some (age_ms div 1000))
                          (Some (reject_max_age_seconds t))))
          else if age_ms \<le> downweight_max_age_seconds t * 1000
          then decide CV_DOWN_WEIGHT (da_downweight_multiplier t) [''fresh_funding_downweight'']
                 (fr_funding_age_slots r) (Some age_ms) None
          else decide CV_PASS 1 [] (fr_funding_age_slots r) (Some age_ms) None)"

record 'r dev_pre_gate_result =
  dpg_passed :: bool
  dpg_decision :: dev_funding_decision
  dpg_next_result :: "'r option"

definition evaluate_with_dev_funding_age ::
  "dev_funding_thresholds \<Rightarrow> dev_funding_result \<Rightarrow> ('r \<Rightarrow> bool option) \<Rightarrow> (unit \<Rightarrow> 'r) \<Rightarrow>
   millis option \<Rightarrow> 'r dev_pre_gate_result result" where
  "evaluate_with_dev_funding_age t r attr next_step bt =
     rbind (dev_evaluate t r bt) (\<lambda>d.
       if dev_rejected d
       then Inr \<lparr>dpg_passed = False, dpg_decision = d, dpg_next_result = None\<rparr>
       else let x = next_step () in
            Inr \<lparr>dpg_passed = passed_attr attr x, dpg_decision = d, dpg_next_result = Some x\<rparr>)"

subsection \<open>Deployer reputation gate\<close>

record deployer_thresholds =
  downweight_min_prior_rugs :: int
  reject_min_prior_rugs :: int
  dr_downweight_multiplier :: decimal

definition default_deployer_thresholds :: deployer_thresholds where
  "default_deployer_thresholds =
     \<lparr>downweight_min_prior_rugs = 1, reject_min_prior_rugs = 2, dr_downweight_multiplier = 1 / 4\<rparr>"

definition mk_DeployerReputationThresholds :: "deployer_thresholds \<Rightarrow> deployer_thresholds result" where
  "mk_DeployerReputationThresholds t =
     (if downweight_min_prior_rugs t < 1 \<or> reject_min_prior_rugs t < 1 then Inl ValueError
      else if reject_min_prior_rugs t < downweight_min_prior_rugs t then Inl ValueError
      else if \<not> (0 \<le> dr_downweight_multiplier t \<and> dr_downweight_multiplier t < 1) then Inl ValueError
      else Inr t)"

record deployer_tally =
  tl_creator_wallet :: string
  tl_deploy_template_fingerprint :: "string option"
  tl_as_of_event_slot :: int
  tl_prior_launches :: int
  tl_prior_rugs :: int

record deployer_decision =
  dr_creator_wallet :: string
  dr_deploy_template_fingerprint :: "string option"
  dr_verdict :: conv_verdict
  dr_conviction_multiplier :: decimal
  dr_reason_codes :: "string list"
  dr_prior_launches :: int
  dr_prior_rugs :: int
  dr_as_of_event_slot :: int
  dr_event_block_time_ms :: millis
  dr_red_flag_hit :: "red_flag_hit option"

definition mk_DeployerReputationDecision :: "deployer_decision \<Rightarrow> deployer_decision result" where
  "mk_DeployerReputationDecision d =
     (if decision_consistent [SERIAL_DEPLOYER_RUGGED] (dr_verdict d) (dr_conviction_multiplier d)
           (dr_red_flag_hit d)
      then Inr d else Inl ValueError)"

definition deployer_rejected :: "deployer_decision \<Rightarrow> bool" where
  "deployer_rejected d \<longleftrightarrow> dr_verdict d = CV_REJECT"

definition deployer_apply :: "deployer_decision \<Rightarrow> lamports \<Rightarrow> lamports result" where
  "deployer_apply d capped_size = apply_multiplier (dr_conviction_multiplier d) capped_size"

definition deployer_evaluate ::
  "deployer_thresholds \<Rightarrow> deployer_tally \<Rightarrow> millis \<Rightarrow> deployer_decision result" where
  "deployer_evaluate t tally bt =
     (let launches = tl_prior_launches tally; rugs = tl_prior_rugs tally in
      if launches < 0 \<or> rugs < 0 \<or> launches < rugs then Inl ValueError
      else
        let (v, m, reasons, hit) =
          (if reject_min_prior_rugs t \<le> rugs
           then (CV_REJECT, 0, [''serial_deployer_rugged''],
                 Some (RedFlagHit SERIAL_DEPLOYER_RUGGED (Some rugs) (Some (reject_min_prior_rugs t))))
           else if downweight_min_prior_rugs t \<le> rugs
           then (CV_DOWN_WEIGHT, dr_downweight_multiplier t, [''prior_rug_downweight''], None)
           else (CV_PASS, 1, [], None))
        in mk_DeployerReputationDecision
             \<lparr>dr_creator_wallet = tl_creator_wallet tally,
              dr_deploy_template_fingerprint = tl_deploy_template_fingerprint tally,
              dr_verdict = v, dr_conviction_multiplier = m, dr_reason_codes = reasons,
              dr_prior_launches = launches, dr_prior_rugs = rugs,
              dr_as_of_event_slot = tl_as_of_event_slot tally, dr_event_block_time_ms = bt,
              dr_red_flag_hit = hit\<rparr>)"

record 'r deployer_pre_gate_result =
  rpg_passed :: bool
  rpg_decision :: deployer_decision
  rpg_next_result :: "'r option"

definition evaluate_with_deployer_reputation ::
  "deployer_thresholds \<Rightarrow> deployer_tally \<Rightarrow> ('r \<Rightarrow> bool option) \<Rightarrow> (unit \<Rightarrow> 'r) \<Rightarrow> millis \<Rightarrow>
   'r deployer_pre_gate_result result" where
  "evaluate_with_deployer_reputation t tally attr next_step bt =
     rbind (deployer_evaluate t tally bt) (\<lambda>d.
       if deployer_rejected d
       then Inr \<lparr>rpg_passed = False, rpg_decision = d, rpg_next_result = None\<rparr>
       else let r = next_step () in
            Inr \<lparr>rpg_passed = passed_attr attr r, rpg_decision = d, rpg_next_result = Some r\<rparr>)"

subsection \<open>Anti-FOMO filter\<close>

datatype mention_tier = MAINSTREAM_PRESS | MAJOR_CEX_LISTING | MINOR_CEX_LISTING | MAINSTREAM_INFLUENCER

fun mention_tier_value :: "mention_tier \<Rightarrow> string" where
  "mention_tier_value MAINSTREAM_PRESS = ''mainstream_press''"
| "mention_tier_value MAJOR_CEX_LISTING = ''major_cex_listing''"
| "mention_tier_value MINOR_CEX_LISTING = ''minor_cex_listing''"
| "mention_tier_value MAINSTREAM_INFLUENCER = ''mainstream_influencer''"

definition HARD_MENTION_TIERS :: "mention_tier list" where
  "HARD_MENTION_TIERS = [MAINSTREAM_PRESS, MAJOR_CEX_LISTING]"

definition SOFT_MENTION_TIERS :: "mention_tier list" where
  "SOFT_MENTION_TIERS = [MINOR_CEX_LISTING, MAINSTREAM_INFLUENCER]"

text \<open>\<open>str.lower\<close> on the characters below 256.\<close>

definition lower_char :: "char \<Rightarrow> char" where
  "lower_char c =
     (let n = (of_char c :: nat) in
      if 65 \<le> n \<and> n \<le> 90 \<or> 192 \<le> n \<and> n \<le> 222 \<and> n \<noteq> 215 then char_of (n + 32) else c)"

definition parse_mention_tier :: "string \<Rightarrow> mention_tier option" where
  "parse_mention_tier raw =
     (let s = map lower_char (py_strip raw) in
      find (\<lambda>tier. mention_tier_value tier = s)
        [MAINSTREAM_PRESS, MAJOR_CEX_LISTING, MINOR_CEX_LISTING, MAINSTREAM_INFLUENCER])"

datatype fomo_reason =
    FOMO_ALREADY_PUMPED
  | FOMO_MAINSTREAM_MENTION
  | FOMO_INPUT_STALE
  | FOMO_PUMP_DOWNWEIGHT
  | FOMO_SOFT_MENTION
  | NO_PUMP_HISTORY

record fomo_thresholds =
  hard_pump_ratio :: decimal
  warm_pump_ratio :: decimal
  max_warm_pump_haircut :: decimal
  soft_mention_multiplier :: decimal
  fomo_max_staleness_ms :: millis
  min_price_samples :: int

definition default_fomo_thresholds :: fomo_thresholds where
  "default_fomo_thresholds =
     \<lparr>hard_pump_ratio = 4, warm_pump_ratio = 2, max_warm_pump_haircut = 1 / 2,
      soft_mention_multiplier = 1 / 2, fomo_max_staleness_ms = 60000, min_price_samples = 2\<rparr>"

definition mk_AntiFomoThresholds :: "fomo_thresholds \<Rightarrow> fomo_thresholds result" where
  "mk_AntiFomoThresholds t =
     (if warm_pump_ratio t < 1 then Inl ValueError
      else if hard_pump_ratio t < warm_pump_ratio t then Inl ValueError
      else if \<not> (0 \<le> max_warm_pump_haircut t \<and> max_warm_pump_haircut t \<le> 1) then Inl ValueError
      else if \<not> (0 \<le> soft_mention_multiplier t \<and> soft_mention_multiplier t \<le> 1) then Inl ValueError
      else if fomo_max_staleness_ms t < 0 then Inl ValueError
      else if min_price_samples t < 2 then Inl ValueError
      else Inr t)"

record fomo_inputs =
  fi_mint :: mint
  fi_event_slot :: int
  fi_event_block_time_ms :: millis
  fi_data_staleness_ms :: millis
  price_history_lamports :: "lamports list"
  mention_tiers :: "string list"

definition mk_AntiFomoInputs :: "fomo_inputs \<Rightarrow> fomo_inputs result" where
  "mk_AntiFomoInputs i =
     (if fi_event_block_time_ms i \<le> 0 then Inl ValueError
      else if fi_data_staleness_ms i < 0 then Inl ValueError
      else if list_ex (\<lambda>px. px < 0) (price_history_lamports i) then Inl ValueError
      else Inr i)"

record fomo_hit =
  fh_reason :: fomo_reason
  fh_measured :: "decimal option"
  fh_threshold :: "decimal option"
  fh_detail :: string

abbreviation FomoReasonHit :: "fomo_reason \<Rightarrow> decimal option \<Rightarrow> decimal option \<Rightarrow> string \<Rightarrow> fomo_hit" where
  "FomoReasonHit r m t s \<equiv> \<lparr>fh_reason = r, fh_measured = m, fh_threshold = t, fh_detail = s\<rparr>"

definition fomo_is_exclusion :: "fomo_hit \<Rightarrow> bool" where
  "fomo_is_exclusion h \<longleftrightarrow>
     fh_reason h \<in> set [FOMO_ALREADY_PUMPED, FOMO_MAINSTREAM_MENTION, FOMO_INPUT_STALE]"

record fomo_decision =
  fo_mint :: mint
  fo_verdict :: conv_verdict
  fo_conviction_multiplier :: decimal
  fo_reasons :: "fomo_hit list"
  fo_event_slot :: int
  fo_event_block_time_ms :: millis

definition mk_FomoDecision :: "fomo_decision \<Rightarrow> fomo_decision result" where
  "mk_FomoDecision d =
     (let m = fo_conviction_multiplier d in
      if \<not> (0 \<le> m \<and> m \<le> 1) then Inl ValueError
      else if fo_verdict d = CV_REJECT \<and> m \<noteq> 0 then Inl ValueError
      else if fo_verdict d = CV_PASS \<and> m \<noteq> 1 then Inl ValueError
      else if fo_verdict d = CV_DOWN_WEIGHT \<and> \<not> (0 \<le> m \<and> m < 1) then Inl ValueError
      else Inr d)"

definition fomo_excluded :: "fomo_decision \<Rightarrow> bool" where
  "fomo_excluded d \<longleftrightarrow> fo_verdict d = CV_REJECT"

definition fomo_apply :: "fomo_decision \<Rightarrow> lamports \<Rightarrow> lamports result" where
  "fomo_apply d capped_size = apply_multiplier (fo_conviction_multiplier d) capped_size"

definition eval_pump :: "fomo_thresholds \<Rightarrow> fomo_inputs \<Rightarrow> fomo_hit list \<Rightarrow> fomo_hit list" where
  "eval_pump t i reasons =
     (let history = price_history_lamports i in
      if int (length history) < min_price_samples t
      then reasons @ [FomoReasonHit NO_PUMP_HISTORY None None []]
      else
        let anchor = fold min (tl history) (hd history); current = last history in
        if anchor \<le> 0 then reasons @ [FomoReasonHit NO_PUMP_HISTORY None None []]
        else
          let ratio = ddiv (of_int current) (of_int anchor) in
          if hard_pump_ratio t \<le> ratio
          then reasons @ [FomoReasonHit FOMO_ALREADY_PUMPED (Some ratio) (Some (hard_pump_ratio t)) []]
          else if warm_pump_ratio t \<le> ratio
          then reasons @ [FomoReasonHit FOMO_PUMP_DOWNWEIGHT (Some ratio) (Some (warm_pump_ratio t)) []]
          else reasons)"

fun eval_mentions_loop :: "mention_tier list \<Rightarrow> string list \<Rightarrow> fomo_hit list \<Rightarrow> fomo_hit list" where
  "eval_mentions_loop seen [] reasons = reasons"
| "eval_mentions_loop seen (raw # raws) reasons =
     (case parse_mention_tier raw of
        None \<Rightarrow> eval_mentions_loop seen raws reasons
      | Some tier \<Rightarrow>
          if tier \<in> set seen then eval_mentions_loop seen raws reasons
          else if tier \<in> set HARD_MENTION_TIERS
          then eval_mentions_loop (tier # seen) raws
                 (reasons @ [FomoReasonHit FOMO_MAINSTREAM_MENTION None None (mention_tier_value tier)])
          else if tier \<in> set SOFT_MENTION_TIERS
          then eval_mentions_loop (tier # seen) raws
                 (reasons @ [FomoReasonHit FOMO_SOFT_MENTION None None (mention_tier_value tier)])
          else eval_mentions_loop (tier # seen) raws reasons)"

definition eval_mentions :: "fomo_inputs \<Rightarrow> fomo_hit list \<Rightarrow> fomo_hit list" where
  "eval_mentions i reasons = eval_mentions_loop [] (mention_tiers i) reasons"

definition warm_pump_haircut :: "fomo_thresholds \<Rightarrow> decimal \<Rightarrow> decimal" where
  "warm_pump_haircut t ratio =
     (let warm = warm_pump_ratio t; hard = hard_pump_ratio t; span = dsub hard warm in
      if span \<le> 0 then max_warm_pump_haircut t
      else
        let clamped = (if ratio < warm then warm else ratio);
            clamped = (if hard < clamped then hard else clamped);
            fract = ddiv (dsub clamped warm) span;
            haircut = dmul fract (max_warm_pump_haircut t) in
        if haircut < 0 then 0
        else if max_warm_pump_haircut t < haircut then max_warm_pump_haircut t
        else haircut)"

definition scale_by_hit :: "fomo_thresholds \<Rightarrow> decimal \<Rightarrow> fomo_hit \<Rightarrow> decimal" where
  "scale_by_hit t m h =
     (if fh_reason h = FOMO_SOFT_MENTION then dmul m (soft_mention_multiplier t)
      else case (fh_reason h, fh_measured h) of
             (FOMO_PUMP_DOWNWEIGHT, Some ratio) \<Rightarrow> dmul m (dsub 1 (warm_pump_haircut t ratio))
           | _ \<Rightarrow> m)"

definition compute_multiplier :: "fomo_thresholds \<Rightarrow> fomo_hit list \<Rightarrow> decimal" where
  "compute_multiplier t reasons =
     (let m = foldl (scale_by_hit t) 1 reasons in
      if m < 0 then 0 else if 1 < m then 1 else m)"

definition fomo_finalize :: "fomo_thresholds \<Rightarrow> fomo_inputs \<Rightarrow> fomo_hit list \<Rightarrow> fomo_decision result" where
  "fomo_finalize t i reasons =
     (let (v, m) =
        (if list_ex fomo_is_exclusion reasons then (CV_REJECT, 0)
         else let m = compute_multiplier t reasons in
              if m < 1 then (CV_DOWN_WEIGHT, m) else (CV_PASS, 1))
      in mk_FomoDecision
           \<lparr>fo_mint = fi_mint i, fo_verdict = v, fo_conviction_multiplier = m, fo_reasons = reasons,
            fo_event_slot = fi_event_slot i, fo_event_block_time_ms = fi_event_block_time_ms i\<rparr>)"

definition fomo_evaluate :: "fomo_thresholds \<Rightarrow> fomo_inputs \<Rightarrow> fomo_decision result" where
  "fomo_evaluate t i =
     (if fomo_max_staleness_ms t < fi_data_staleness_ms i
      then fomo_finalize t i
             [FomoReasonHit FOMO_INPUT_STALE (Some (of_int (fi_data_staleness_ms i)))
                (Some (of_int (fomo_max_staleness_ms t))) []]
      else fomo_finalize t i (eval_mentions i (eval_pump t i [])))"

subsection \<open>Decisions are consistent and never raise conviction\<close>

definition conv_ok :: "conv_verdict \<Rightarrow> decimal \<Rightarrow> bool" where
  "conv_ok v m \<longleftrightarrow>
     0 \<le> m \<and> m \<le> 1 \<and> (v = CV_REJECT \<longrightarrow> m = 0) \<and> (v = CV_PASS \<longrightarrow> m = 1) \<and> (v = CV_DOWN_WEIGHT \<longrightarrow> m < 1)"

text \<open>A decision of any of the four gates, as the size passes through them in sequence.\<close>

datatype conviction_decision =
    Lp_decision lp_decision
  | Dev_decision dev_funding_decision
  | Deployer_decision deployer_decision
  | Fomo_decision fomo_decision

fun cd_verdict :: "conviction_decision \<Rightarrow> conv_verdict" where
  "cd_verdict (Lp_decision d) = lu_verdict d"
| "cd_verdict (Dev_decision d) = da_verdict d"
| "cd_verdict (Deployer_decision d) = dr_verdict d"
| "cd_verdict (Fomo_decision d) = fo_verdict d"

fun cd_mult :: "conviction_decision \<Rightarrow> decimal" where
  "cd_mult (Lp_decision d) = lu_conviction_multiplier d"
| "cd_mult (Dev_decision d) = da_conviction_multiplier d"
| "cd_mult (Deployer_decision d) = dr_conviction_multiplier d"
| "cd_mult (Fomo_decision d) = fo_conviction_multiplier d"

fun cd_apply :: "conviction_decision \<Rightarrow> lamports \<Rightarrow> lamports result" where
  "cd_apply (Lp_decision d) = lp_apply d"
| "cd_apply (Dev_decision d) = dev_apply d"
| "cd_apply (Deployer_decision d) = deployer_apply d"
| "cd_apply (Fomo_decision d) = fomo_apply d"

lemmas apply_defs = lp_apply_def dev_apply_def deployer_apply_def fomo_apply_def apply_multiplier_def

interpretation cg: conviction_gate cd_mult "\<lambda>d. cd_verdict d = CV_REJECT"
  "\<lambda>d. conv_ok (cd_verdict d) (cd_mult d)" cd_apply
proof
  fix d n
  show "0 \<le> n \<Longrightarrow> cd_apply d n = Inr (min \<lfloor>dmul (of_int n) (cd_mult d)\<rfloor> n)"
    by (cases d) (simp_all add: apply_defs)
qed (simp_all add: conv_ok_def)

lemma decision_consistent_ok: "decision_consistent fs v m hit \<Longrightarrow> conv_ok v m"
  by (auto simp: decision_consistent_def conv_ok_def)

lemma mk_decisions_ok:
  "mk_LpUnlockDecision d1 = Inr d1' \<Longrightarrow> d1' = d1 \<and> conv_ok (lu_verdict d1) (lu_conviction_multiplier d1)"
  "mk_DevFundingAgeDecision d2 = Inr d2' \<Longrightarrow> d2' = d2 \<and> conv_ok (da_verdict d2) (da_conviction_multiplier d2)"
  "mk_DeployerReputationDecision d3 = Inr d3' \<Longrightarrow> d3' = d3 \<and> conv_ok (dr_verdict d3) (dr_conviction_multiplier d3)"
  "mk_FomoDecision d4 = Inr d4' \<Longrightarrow> d4' = d4 \<and> conv_ok (fo_verdict d4) (fo_conviction_multiplier d4)"
  by (auto simp: mk_LpUnlockDecision_def mk_DevFundingAgeDecision_def mk_DeployerReputationDecision_def
      decision_consistent_ok split: if_splits)
    (auto simp: mk_FomoDecision_def conv_ok_def Let_def split: if_splits)

text \<open>What the gates compute: the LP, funding-age and reputation classifications as tables.\<close>

definition lp_table :: "lp_thresholds \<Rightarrow> lp_schedule \<Rightarrow> conv_verdict \<times> decimal" where
  "lp_table t s =
     (case ls_unlock_slot s of
        Some u \<Rightarrow>
          if ls_status s = BURNED then (CV_PASS, 1)
          else if ls_status s = UNKNOWN \<or> u - ls_as_of_event_slot s \<le> reject_within_slots t
          then (CV_REJECT, 0)
          else if u - ls_as_of_event_slot s \<le> downweight_within_slots t
          then (CV_DOWN_WEIGHT, lp_downweight_multiplier t)
          else (CV_PASS, 1)
      | None \<Rightarrow> if ls_status s = BURNED then (CV_PASS, 1) else (CV_REJECT, 0))"

lemma lp_evaluate_table:
  assumes "mk_LpUnlockThresholds t = Inr t" and "\<forall>x. ls_status s \<noteq> Other_status x"
  shows "\<exists>d. lp_evaluate t s bt = Inr d \<and> (lu_verdict d, lu_conviction_multiplier d) = lp_table t s"
  using assms
  by (cases "ls_status s"; cases "ls_unlock_slot s")
    (auto simp: lp_evaluate_def lp_pass_def lp_reject_def mk_LpUnlockDecision_def Let_def
      decision_consistent_def lp_table_def mk_LpUnlockThresholds_def split: if_splits)

definition dev_table :: "dev_funding_thresholds \<Rightarrow> dev_funding_result \<Rightarrow> conv_verdict \<times> decimal" where
  "dev_table t r =
     (case fr_funding_age_ms r of
        Some age \<Rightarrow>
          if \<not> is_found r \<or> age \<le> reject_max_age_seconds t * 1000 then (CV_REJECT, 0)
          else if age \<le> downweight_max_age_seconds t * 1000
          then (CV_DOWN_WEIGHT, da_downweight_multiplier t)
          else (CV_PASS, 1)
      | None \<Rightarrow> (CV_REJECT, 0))"

lemma dev_evaluate_table:
  assumes "mk_DevFundingAgeThresholds t = Inr t"
    and "is_found r \<Longrightarrow> \<exists>age. fr_funding_age_ms r = Some age \<and> 0 \<le> age"
  shows "\<exists>d. dev_evaluate t r bt = Inr d \<and> (da_verdict d, da_conviction_multiplier d) = dev_table t r"
  using assms
  by (auto simp: dev_evaluate_def mk_DevFundingAgeDecision_def Let_def decision_consistent_def
      dev_table_def mk_DevFundingAgeThresholds_def split: if_splits option.splits)

definition deployer_table :: "deployer_thresholds \<Rightarrow> deployer_tally \<Rightarrow> conv_verdict \<times> decimal" where
  "deployer_table t tally =
     (if reject_min_prior_rugs t \<le> tl_prior_rugs tally then (CV_REJECT, 0)
      else if downweight_min_prior_rugs t \<le> tl_prior_rugs tally
      then (CV_DOWN_WEIGHT, dr_downweight_multiplier t)
      else (CV_PASS, 1))"

lemma deployer_evaluate_table:
  assumes "mk_DeployerReputationThresholds t = Inr t"
    and "0 \<le> tl_prior_rugs tally" and "tl_prior_rugs tally \<le> tl_prior_launches tally"
  shows "\<exists>d. deployer_evaluate t tally bt = Inr d \<and>
    (dr_verdict d, dr_conviction_multiplier d) = deployer_table t tally"
  using assms
  by (auto simp: deployer_evaluate_def mk_DeployerReputationDecision_def Let_def decision_consistent_def
      deployer_table_def mk_DeployerReputationThresholds_def split: if_splits)

lemma compute_multiplier_unit: "0 \<le> compute_multiplier t rs \<and> compute_multiplier t rs \<le> 1"
  by (simp add: compute_multiplier_def Let_def not_less)

lemma fomo_finalize_total:
  "\<exists>d. fomo_finalize t i rs = Inr d \<and> conv_ok (fo_verdict d) (fo_conviction_multiplier d) \<and>
     (fo_verdict d = CV_REJECT \<longleftrightarrow> list_ex fomo_is_exclusion rs) \<and> fo_reasons d = rs"
  using compute_multiplier_unit [of t rs]
  by (auto simp: fomo_finalize_def mk_FomoDecision_def conv_ok_def Let_def)

lemma fomo_evaluate_total:
  "\<exists>d. fomo_evaluate t i = Inr d \<and> conv_ok (fo_verdict d) (fo_conviction_multiplier d) \<and>
     (fo_verdict d = CV_REJECT \<longleftrightarrow> list_ex fomo_is_exclusion (fo_reasons d))"
  using fomo_finalize_total
  by (metis fomo_evaluate_def)

text \<open>A decision that one of the gates returned.\<close>

definition gate_produced :: "conviction_decision \<Rightarrow> bool" where
  "gate_produced d \<longleftrightarrow>
     (case d of
        Lp_decision x \<Rightarrow> \<exists>t s bt. lp_evaluate t s bt = Inr x
      | Dev_decision x \<Rightarrow> \<exists>t r bt. dev_evaluate t r bt = Inr x
      | Deployer_decision x \<Rightarrow> \<exists>t tally bt. deployer_evaluate t tally bt = Inr x
      | Fomo_decision x \<Rightarrow> \<exists>t i. fomo_evaluate t i = Inr x)"

lemma lp_evaluate_conv_ok: "lp_evaluate t s bt = Inr x \<Longrightarrow> conv_ok (lu_verdict x) (lu_conviction_multiplier x)"
  by (auto simp: lp_evaluate_def lp_pass_def lp_reject_def Let_def dest: mk_decisions_ok split: if_splits)

lemma dev_evaluate_conv_ok: "dev_evaluate t r bt = Inr x \<Longrightarrow> conv_ok (da_verdict x) (da_conviction_multiplier x)"
  by (auto simp: dev_evaluate_def Let_def dest: mk_decisions_ok split: if_splits option.splits)

lemma deployer_evaluate_conv_ok:
  "deployer_evaluate t tally bt = Inr x \<Longrightarrow> conv_ok (dr_verdict x) (dr_conviction_multiplier x)"
  by (auto simp: deployer_evaluate_def Let_def dest: mk_decisions_ok split: if_splits)

lemma fomo_evaluate_conv_ok: "fomo_evaluate t i = Inr x \<Longrightarrow> conv_ok (fo_verdict x) (fo_conviction_multiplier x)"
  using fomo_evaluate_total [of t i] by auto

lemmas evaluate_conv_ok =
  lp_evaluate_conv_ok dev_evaluate_conv_ok deployer_evaluate_conv_ok fomo_evaluate_conv_ok

lemma gate_produced_ok: "gate_produced d \<Longrightarrow> conv_ok (cd_verdict d) (cd_mult d)"
  by (cases d) (auto simp: gate_produced_def dest: evaluate_conv_ok)

lemma foldl_apply_all:
  "foldl (\<lambda>r d. rbind r (cd_apply d)) r ds = rbind r (cg.apply_all ds)"
proof (induction ds arbitrary: r)
  case Nil
  then show ?case by (cases r) simp_all
next
  case (Cons d ds)
  then show ?case by (simp add: rbind_assoc)
qed

text \<open>
  C34. Conviction gates only shed risk. Take any sequence of decisions the LP-unlock, funding-age,
  deployer-reputation and anti-FOMO gates returned, in any order and with any thresholds, and let
  an already capped size pass through them: no step raises an error, the size that comes out lies
  between zero and the size that went in, and if any one of the gates rejected it is zero.
\<close>

theorem conviction_chain_only_derisks:
  assumes "\<forall>d \<in> set ds. gate_produced d" and "0 \<le> capped_size"
  shows "\<exists>m. foldl (\<lambda>r d. rbind r (cd_apply d)) (Inr capped_size) ds = Inr m \<and>
    0 \<le> m \<and> m \<le> capped_size \<and> ((\<exists>d \<in> set ds. cd_verdict d = CV_REJECT) \<longrightarrow> m = 0)"
  using cg.apply_all_bounds [of ds capped_size] assms gate_produced_ok
  by (simp add: foldl_apply_all)

definition demo_schedule :: lp_schedule where
  "demo_schedule =
     \<lparr>ls_mint = ''m'', ls_as_of_event_slot = 0, ls_status = TIME_LOCKED, ls_unlock_slot = Some 300000\<rparr>"

definition demo_tally :: deployer_tally where
  "demo_tally =
     \<lparr>tl_creator_wallet = ''c'', tl_deploy_template_fingerprint = None, tl_as_of_event_slot = 0,
      tl_prior_launches = 3, tl_prior_rugs = 2\<rparr>"

theorem conviction_chain_only_derisks_witness:
  "\<exists>d1 d2. lp_evaluate default_lp_thresholds demo_schedule 0 = Inr d1 \<and>
     deployer_evaluate default_deployer_thresholds demo_tally 0 = Inr d2 \<and>
     foldl (\<lambda>r d. rbind r (cd_apply d)) (Inr 1000) [Lp_decision d1, Deployer_decision d2] = Inr 0"
proof -
  have tl: "mk_LpUnlockThresholds default_lp_thresholds = Inr default_lp_thresholds"
    by (simp add: mk_LpUnlockThresholds_def default_lp_thresholds_def)
  obtain d1 where d1: "lp_evaluate default_lp_thresholds demo_schedule 0 = Inr d1"
    using lp_evaluate_table [OF tl, of demo_schedule 0] by (auto simp: demo_schedule_def)
  have td: "mk_DeployerReputationThresholds default_deployer_thresholds = Inr default_deployer_thresholds"
    by (simp add: mk_DeployerReputationThresholds_def default_deployer_thresholds_def)
  obtain d2 where d2: "deployer_evaluate default_deployer_thresholds demo_tally 0 = Inr d2"
    and v: "dr_verdict d2 = CV_REJECT"
    using deployer_evaluate_table [OF td, of demo_tally 0]
    by (auto simp: demo_tally_def deployer_table_def default_deployer_thresholds_def)
  have "\<forall>d \<in> set [Lp_decision d1, Deployer_decision d2]. gate_produced d"
    using d1 d2 by (auto simp: gate_produced_def)
  from conviction_chain_only_derisks [OF this, of 1000] d1 d2 v show ?thesis by auto
qed

text \<open>
  More danger never buys more size. Under valid thresholds the conviction multiplier of the LP
  gate does not grow as the unlock comes closer, that of the funding-age gate does not grow as the
  funding gets younger, and that of the reputation gate does not grow with the number of rugs; an
  unknown unlock schedule and an undecodable funding are rejected with a zero multiplier.
\<close>

theorem conviction_antitone_in_risk:
  assumes "mk_LpUnlockThresholds lt = Inr lt" and "mk_DevFundingAgeThresholds dt = Inr dt"
    and "mk_DeployerReputationThresholds rt = Inr rt"
  shows "ls_status s = TIME_LOCKED \<Longrightarrow> u \<le> u' \<Longrightarrow>
      \<exists>d d'. lp_evaluate lt (s\<lparr>ls_unlock_slot := Some u\<rparr>) bt = Inr d \<and>
        lp_evaluate lt (s\<lparr>ls_unlock_slot := Some u'\<rparr>) bt = Inr d' \<and>
        lu_conviction_multiplier d \<le> lu_conviction_multiplier d'"
    and "is_found r \<Longrightarrow> 0 \<le> a \<Longrightarrow> a \<le> a' \<Longrightarrow>
      \<exists>d d'. dev_evaluate dt (r\<lparr>fr_funding_age_ms := Some a\<rparr>) bto = Inr d \<and>
        dev_evaluate dt (r\<lparr>fr_funding_age_ms := Some a'\<rparr>) bto = Inr d' \<and>
        da_conviction_multiplier d \<le> da_conviction_multiplier d'"
    and "0 \<le> n \<Longrightarrow> n \<le> n' \<Longrightarrow> n' \<le> tl_prior_launches y \<Longrightarrow>
      \<exists>d d'. deployer_evaluate rt (y\<lparr>tl_prior_rugs := n\<rparr>) bt = Inr d \<and>
        deployer_evaluate rt (y\<lparr>tl_prior_rugs := n'\<rparr>) bt = Inr d' \<and>
        dr_conviction_multiplier d' \<le> dr_conviction_multiplier d"
    and "ls_status s = UNKNOWN \<Longrightarrow> \<exists>d. lp_evaluate lt s bt = Inr d \<and> lp_rejected d \<and> lu_conviction_multiplier d = 0"
    and "\<not> is_found r \<Longrightarrow> \<exists>d. dev_evaluate dt r bto = Inr d \<and> dev_rejected d \<and> da_conviction_multiplier d = 0"
proof -
  show "\<exists>d d'. lp_evaluate lt (s\<lparr>ls_unlock_slot := Some u\<rparr>) bt = Inr d \<and>
        lp_evaluate lt (s\<lparr>ls_unlock_slot := Some u'\<rparr>) bt = Inr d' \<and>
        lu_conviction_multiplier d \<le> lu_conviction_multiplier d'"
    if "ls_status s = TIME_LOCKED" "u \<le> u'"
    using lp_evaluate_table [OF assms(1), of "s\<lparr>ls_unlock_slot := Some u\<rparr>" bt]
      lp_evaluate_table [OF assms(1), of "s\<lparr>ls_unlock_slot := Some u'\<rparr>" bt] that assms(1)
    by (auto simp: lp_table_def mk_LpUnlockThresholds_def split: if_splits)
  have found: "is_found (r\<lparr>fr_funding_age_ms := x\<rparr>) = is_found r" for x
    by (simp add: is_found_def)
  show "\<exists>d d'. dev_evaluate dt (r\<lparr>fr_funding_age_ms := Some a\<rparr>) bto = Inr d \<and>
        dev_evaluate dt (r\<lparr>fr_funding_age_ms := Some a'\<rparr>) bto = Inr d' \<and>
        da_conviction_multiplier d \<le> da_conviction_multiplier d'"
    if "is_found r" "0 \<le> a" "a \<le> a'"
    using dev_evaluate_table [OF assms(2), of "r\<lparr>fr_funding_age_ms := Some a\<rparr>" bto]
      dev_evaluate_table [OF assms(2), of "r\<lparr>fr_funding_age_ms := Some a'\<rparr>" bto] that assms(2)
    by (auto simp: dev_table_def mk_DevFundingAgeThresholds_def found split: if_splits)
  show "\<exists>d d'. deployer_evaluate rt (y\<lparr>tl_prior_rugs := n\<rparr>) bt = Inr d \<and>
        deployer_evaluate rt (y\<lparr>tl_prior_rugs := n'\<rparr>) bt = Inr d' \<and>
        dr_conviction_multiplier d' \<le> dr_conviction_multiplier d"
    if "0 \<le> n" "n \<le> n'" "n' \<le> tl_prior_launches y"
    using deployer_evaluate_table [OF assms(3), of "y\<lparr>tl_prior_rugs := n\<rparr>" bt]
      deployer_evaluate_table [OF assms(3), of "y\<lparr>tl_prior_rugs := n'\<rparr>" bt] that assms(3)
    by (auto simp: deployer_table_def mk_DeployerReputationThresholds_def split: if_splits)
  show "\<exists>d. lp_evaluate lt s bt = Inr d \<and> lp_rejected d \<and> lu_conviction_multiplier d = 0"
    if "ls_status s = UNKNOWN"
    using lp_evaluate_table [OF assms(1), of s bt] that
    by (auto simp: lp_table_def lp_rejected_def split: option.splits)
  show "\<exists>d. dev_evaluate dt r bto = Inr d \<and> dev_rejected d \<and> da_conviction_multiplier d = 0"
    if "\<not> is_found r"
    using dev_evaluate_table [OF assms(2), of r bto] that
    by (auto simp: dev_table_def dev_rejected_def split: option.splits)
qed

definition demo_funding :: dev_funding_result where
  "demo_funding =
     \<lparr>fr_creator_wallet = ''c'', fr_deploy_event_slot = 1, fr_deploy_block_time_ms = 1,
      fr_status = ''found'', fr_funding_age_slots = None, fr_funding_age_ms = Some 1000\<rparr>"

theorem conviction_antitone_in_risk_witness:
  "(\<exists>d d'. lp_evaluate default_lp_thresholds (demo_schedule\<lparr>ls_unlock_slot := Some 1\<rparr>) 0 = Inr d \<and>
      lp_evaluate default_lp_thresholds (demo_schedule\<lparr>ls_unlock_slot := Some 300000\<rparr>) 0 = Inr d' \<and>
      lu_conviction_multiplier d \<le> lu_conviction_multiplier d') \<and>
   (\<exists>d d'. dev_evaluate default_dev_funding_thresholds (demo_funding\<lparr>fr_funding_age_ms := Some 1000\<rparr>) None = Inr d \<and>
      dev_evaluate default_dev_funding_thresholds (demo_funding\<lparr>fr_funding_age_ms := Some 200000\<rparr>) None = Inr d' \<and>
      da_conviction_multiplier d \<le> da_conviction_multiplier d') \<and>
   (\<exists>d d'. deployer_evaluate default_deployer_thresholds (demo_tally\<lparr>tl_prior_rugs := 0\<rparr>) 0 = Inr d \<and>
      deployer_evaluate default_deployer_thresholds (demo_tally\<lparr>tl_prior_rugs := 1\<rparr>) 0 = Inr d' \<and>
      dr_conviction_multiplier d' \<le> dr_conviction_multiplier d) \<and>
   (\<exists>d. lp_evaluate default_lp_thresholds (demo_schedule\<lparr>ls_status := UNKNOWN\<rparr>) 0 = Inr d \<and>
      lp_rejected d \<and> lu_conviction_multiplier d = 0) \<and>
   (\<exists>d. dev_evaluate default_dev_funding_thresholds (demo_funding\<lparr>fr_status := ''absent''\<rparr>) None = Inr d \<and>
      dev_rejected d \<and> da_conviction_multiplier d = 0)"
proof -
  have t: "mk_LpUnlockThresholds default_lp_thresholds = Inr default_lp_thresholds"
    "mk_DevFundingAgeThresholds default_dev_funding_thresholds = Inr default_dev_funding_thresholds"
    "mk_DeployerReputationThresholds default_deployer_thresholds = Inr default_deployer_thresholds"
    by (simp_all add: mk_LpUnlockThresholds_def default_lp_thresholds_def mk_DevFundingAgeThresholds_def
        default_dev_funding_thresholds_def mk_DeployerReputationThresholds_def default_deployer_thresholds_def)
  note props = conviction_antitone_in_risk [OF t]
  show ?thesis
    using props(1) [of demo_schedule 1 300000 0] props(2) [of demo_funding 1000 200000 None]
      props(3) [of 0 1 demo_tally 0] props(4) [of "demo_schedule\<lparr>ls_status := UNKNOWN\<rparr>" 0]
      props(5) [of "demo_funding\<lparr>fr_status := ''absent''\<rparr>" None]
    by (simp add: demo_schedule_def demo_funding_def demo_tally_def is_found_def)
qed

subsection \<open>What the anti-FOMO filter excludes\<close>

definition pumped :: "fomo_thresholds \<Rightarrow> fomo_inputs \<Rightarrow> bool" where
  "pumped t i \<longleftrightarrow>
     (let history = price_history_lamports i; anchor = Min (set history) in
      min_price_samples t \<le> int (length history) \<and> 0 < anchor \<and>
      hard_pump_ratio t \<le> ddiv (of_int (last history)) (of_int anchor))"

lemma fold_min_Min: "xs \<noteq> [] \<Longrightarrow> fold min (tl xs) (hd xs) = Min (set xs)"
  by (cases xs) (simp_all add: Min.set_eq_fold del: list.set)

lemma eval_pump_exclusion:
  assumes "2 \<le> min_price_samples t"
  shows "list_ex fomo_is_exclusion (eval_pump t i []) \<longleftrightarrow> pumped t i"
proof (cases "int (length (price_history_lamports i)) < min_price_samples t")
  case False
  then have "price_history_lamports i \<noteq> []" using assms by auto
  then show ?thesis
    using False
    by (auto simp: eval_pump_def Let_def pumped_def fold_min_Min fomo_is_exclusion_def not_less not_le)
qed (simp add: eval_pump_def pumped_def fomo_is_exclusion_def)

lemma eval_mentions_loop_exclusion:
  "(\<forall>x \<in> set seen. x \<in> set HARD_MENTION_TIERS \<longrightarrow> list_ex fomo_is_exclusion reasons) \<Longrightarrow>
   list_ex fomo_is_exclusion (eval_mentions_loop seen raws reasons) \<longleftrightarrow>
     list_ex fomo_is_exclusion reasons \<or>
     (\<exists>raw \<in> set raws. \<exists>tier \<in> set HARD_MENTION_TIERS. parse_mention_tier raw = Some tier)"
proof (induction seen raws reasons rule: eval_mentions_loop.induct)
  case (2 seen raw raws reasons)
  then show ?case
    by (auto simp: fomo_is_exclusion_def split: option.splits)
qed simp

lemma eval_mentions_exclusion:
  "list_ex fomo_is_exclusion (eval_mentions i reasons) \<longleftrightarrow>
     list_ex fomo_is_exclusion reasons \<or>
     (\<exists>raw \<in> set (mention_tiers i). \<exists>tier \<in> set HARD_MENTION_TIERS. parse_mention_tier raw = Some tier)"
  unfolding eval_mentions_def by (rule eval_mentions_loop_exclusion) simp

text \<open>
  The anti-FOMO filter always decides, and it excludes a candidate exactly when the data is
  stale, the last price is at least the hard ratio times the lowest price of a long enough
  history, or one of the mentions parses, after trimming and lower-casing, to a mainstream-press
  or major-listing tier. Whatever it does not exclude keeps a multiplier in the unit interval.
\<close>

theorem anti_fomo_excludes_exactly:
  assumes "mk_AntiFomoThresholds t = Inr t"
  shows "\<exists>d. fomo_evaluate t i = Inr d \<and>
    (fomo_excluded d \<longleftrightarrow>
       fomo_max_staleness_ms t < fi_data_staleness_ms i \<or> pumped t i \<or>
       (\<exists>raw \<in> set (mention_tiers i). \<exists>tier \<in> set HARD_MENTION_TIERS. parse_mention_tier raw = Some tier)) \<and>
    0 \<le> fo_conviction_multiplier d \<and> fo_conviction_multiplier d \<le> 1"
proof -
  have min2: "2 \<le> min_price_samples t"
    using assms by (auto simp: mk_AntiFomoThresholds_def split: if_splits)
  define rs where "rs =
    (if fomo_max_staleness_ms t < fi_data_staleness_ms i
     then [FomoReasonHit FOMO_INPUT_STALE (Some (of_int (fi_data_staleness_ms i)))
             (Some (of_int (fomo_max_staleness_ms t))) []]
     else eval_mentions i (eval_pump t i []))"
  have "fomo_evaluate t i = fomo_finalize t i rs" by (simp add: fomo_evaluate_def rs_def)
  with fomo_finalize_total [of t i rs] obtain d where d: "fomo_evaluate t i = Inr d"
    "conv_ok (fo_verdict d) (fo_conviction_multiplier d)"
    "fo_verdict d = CV_REJECT \<longleftrightarrow> list_ex fomo_is_exclusion rs" by auto
  have "list_ex fomo_is_exclusion rs \<longleftrightarrow>
      fomo_max_staleness_ms t < fi_data_staleness_ms i \<or> pumped t i \<or>
      (\<exists>raw \<in> set (mention_tiers i). \<exists>tier \<in> set HARD_MENTION_TIERS. parse_mention_tier raw = Some tier)"
    by (simp add: rs_def eval_mentions_exclusion eval_pump_exclusion [OF min2])
      (simp add: fomo_is_exclusion_def)
  with d show ?thesis by (auto simp: fomo_excluded_def conv_ok_def)
qed

definition demo_fomo :: fomo_inputs where
  "demo_fomo =
     \<lparr>fi_mint = ''m'', fi_event_slot = 1, fi_event_block_time_ms = 1, fi_data_staleness_ms = 0,
      price_history_lamports = [10, 8, 12], mention_tiers = ['' Mainstream_Press '']\<rparr>"

theorem anti_fomo_excludes_exactly_witness:
  "\<exists>d. fomo_evaluate default_fomo_thresholds demo_fomo = Inr d \<and> fomo_excluded d"
proof -
  have "mk_AntiFomoThresholds default_fomo_thresholds = Inr default_fomo_thresholds"
    by (simp add: mk_AntiFomoThresholds_def default_fomo_thresholds_def)
  note excl = anti_fomo_excludes_exactly [OF this, of demo_fomo]
  have "parse_mention_tier '' Mainstream_Press '' = Some MAINSTREAM_PRESS" by code_simp
  then have "\<exists>raw \<in> set (mention_tiers demo_fomo). \<exists>tier \<in> set HARD_MENTION_TIERS.
      parse_mention_tier raw = Some tier"
    by (simp add: demo_fomo_def HARD_MENTION_TIERS_def)
  with excl show ?thesis by blast
qed
end
