(* ===== verification/Flag_Exits.thy ===== *)
theory Flag_Exits
  imports Fast_Loop Sellability Conviction_Gates
begin

text \<open>
  The path from a watcher to a sale: the re-probe of open positions and the LP-unlock watcher
  write a flag with a time to live into the state store, the FAST loop reads it on its next tick
  of the position and sells the whole position. The watchers and the loop share nothing but the
  store.
\<close>

subsection \<open>What a tick does with a raised flag\<close>

lemma read_flags_values:
  "\<exists>s. read_flags now fs m = (fs\<lparr>fs_store := s\<rparr>,
     snd (get_narrative_failure_flag (fs_store fs) m now), snd (get_insider_dump_flag (fs_store fs) m now),
     snd (get_sellability_degraded_flag (fs_store fs) m now),
     snd (get_lp_unlock_approaching_flag (fs_store fs) m now))"
  by (simp add: read_flags_def get_narrative_failure_flag_def get_insider_dump_flag_def
      get_sellability_degraded_flag_def get_lp_unlock_approaching_flag_def case_prod_beta)
    (rule exI, rule refl)

lemma do_full_exit_exits:
  "\<exists>p. fs_exits (do_full_exit venue now fs i x) = fs_exits fs @ [(x, p)]"
  by (simp add: do_full_exit_def Let_def venue_exit_def)

lemma forced_decision:
  assumes "exit_config_ok c" and "exit_state_ok xs" and "0 < remaining_bps xs" and "0 \<le> tk_block_time_ms tk"
    and "tk_narrative_score tk = None"
    and "tk_narrative_failure tk \<or> tk_insider_dump tk \<or> tk_sellability_degraded tk \<or> tk_lp_unlock_approaching tk"
  shows "\<exists>d x. exit_on_tick c xs tk = Inr d \<and> ed_intent d = Some (Exit x) \<and> is_full_exit d \<and>
    ex_mint x = xs_mint xs \<and> ex_fraction_bps x = 10000 \<and> ex_exit_mode x = Secure"
proof -
  have tk: "exit_tick_ok tk" using assms(4,5) by (simp add: exit_tick_ok_def)
  from exit_on_tick_live [OF assms(1,2) tk assms(3)] obtain t d where
    t: "stepped_from c (realized_r xs (tk_mark_price tk)) xs t"
    and d: "exit_on_tick c xs tk = Inr d" "decision_spec c t tk (realized_r xs (tk_mark_price tk)) d" .
  let ?rules = "exit_rules c t tk (realized_r xs (tk_mark_price tk))"
  have "(NARRATIVE_FAILURE, tk_narrative_failure tk) \<in> set ?rules" "(INSIDER_DUMP, tk_insider_dump tk) \<in> set ?rules"
    "(SELLABILITY_DEGRADED, tk_sellability_degraded tk) \<in> set ?rules"
    "(LP_UNLOCK_APPROACHING, tk_lp_unlock_approaching tk) \<in> set ?rules"
    by (simp_all add: exit_rules_def)
  with assms(6) obtain why where "first_rule ?rules = Some why"
    using first_rule_Some [of _ ?rules] by (metis snd_conv)
  with d t show ?thesis
    by (auto simp: decision_spec_def stepped_from_def is_full_exit_def)
qed

text \<open>The flags that force a position out, as the tick reads them.\<close>

definition exit_flag :: "store \<Rightarrow> mint \<Rightarrow> millis \<Rightarrow> bool" where
  "exit_flag s m now \<longleftrightarrow>
     snd (get_narrative_failure_flag s m now) \<or> snd (get_insider_dump_flag s m now) \<or>
     snd (get_sellability_degraded_flag s m now) \<or> snd (get_lp_unlock_approaching_flag s m now)"

text \<open>One tick of an open tracked position with a live flag: a full exit is the last order sent.\<close>

lemma flagged_tick_sells:
  assumes "exits_ok fs" and "synced_at fs p" and "fsm_state p = OPEN"
    and "map_of (fs_exit_states fs) (pos_mint p) = Some xs" and "0 < remaining_bps xs"
    and "price (pos_mint p) = Some mark" and "0 \<le> bt"
    and "exit_flag (fs_store fs) (pos_mint p) now"
    and "tick_position venue price now bt fs (pos_mint p) = (gs, Inr (ticks, acts))"
  shows "\<exists>x q exits why. fs_exits gs = exits @ [(Exit x, q)] \<and> ex_mint x = xs_mint xs \<and>
    ex_fraction_bps x = 10000 \<and> ex_exit_mode x = Secure \<and> acts = [Exit_full_action (pos_mint p) why]"
proof -
  obtain i where i: "map_of (fs_registry fs) (pos_mint p) = Some i" "fs_objs fs ! i = p"
    using assms(2) by (auto simp: synced_at_def)
  obtain s where rf: "read_flags now fs (pos_mint p) = (fs\<lparr>fs_store := s\<rparr>,
     snd (get_narrative_failure_flag (fs_store fs) (pos_mint p) now),
     snd (get_insider_dump_flag (fs_store fs) (pos_mint p) now),
     snd (get_sellability_degraded_flag (fs_store fs) (pos_mint p) now),
     snd (get_lp_unlock_approaching_flag (fs_store fs) (pos_mint p) now))"
    using read_flags_values by blast
  let ?tk = "\<lparr>tk_mark_price = mark, tk_block_time_ms = bt, tk_narrative_failure = snd (get_narrative_failure_flag (fs_store fs) (pos_mint p) now),
    tk_insider_dump = snd (get_insider_dump_flag (fs_store fs) (pos_mint p) now),
    tk_sellability_degraded = snd (get_sellability_degraded_flag (fs_store fs) (pos_mint p) now),
    tk_lp_unlock_approaching = snd (get_lp_unlock_approaching_flag (fs_store fs) (pos_mint p) now),
    tk_narrative_score = None\<rparr>"
  have ok: "exit_config_ok (fs_exit_config fs)" "exit_state_ok xs"
    using assms(1) map_of_SomeD [OF assms(4)] by (auto simp: exits_ok_def)
  from forced_decision [OF ok assms(5), of ?tk] assms(7) assms(8) [unfolded exit_flag_def] obtain d x where
    d: "exit_on_tick (fs_exit_config fs) xs ?tk = Inr d" "ed_intent d = Some (Exit x)" "is_full_exit d"
    and x: "ex_mint x = xs_mint xs" "ex_fraction_bps x = 10000" "ex_exit_mode x = Secure" by auto
  let ?fs2 = "fs\<lparr>fs_store := s, fs_exit_states := dict_set (pos_mint p) (ed_next_state d) (fs_exit_states fs)\<rparr>"
  obtain fs3 u where pnl: "tick_pnl venue bt ?fs2 (pos_mint p) i p xs mark = (fs3, Inr u)"
    and gs: "gs = do_full_exit venue now fs3 i (Exit x)" "acts = [Exit_full_action (pos_mint p) (ed_reason d)]"
    using assms(3,4,6,9) i d
    by (auto simp: tick_position_def Let_def rf act_on_def split: sum.splits prod.splits)
  from do_full_exit_exits [of venue now fs3 i "Exit x"] x gs show ?thesis by auto
qed

subsection \<open>From the watcher to the sale\<close>

lemma synced_at_store_update:
  "synced_at fs p \<Longrightarrow> positions st = positions (fs_store fs) \<Longrightarrow> synced_at (fs\<lparr>fs_store := st\<rparr>) p"
  by (simp add: synced_at_def load_position_def)

lemma synced_at_loaded: "synced_at fs p \<Longrightarrow> p \<in> set (load_all_positions (fs_store fs))"
  by (auto simp: synced_at_def load_position_def load_all_positions_def dest: map_of_SomeD intro: rev_image_eqI)

text \<open>
  A position that stops being sellable is sold. The re-probe sweeps the book at one clock
  reading; if the probe of a held open position is anything but a clean \<open>SELLABLE\<close> (a revert, a
  tax, an exception of the node), then every later tick of the FAST loop for that position
  within the flag's time to live, at any mark price, sends a full exit in secure mode as its
  last order, whatever the exit ladder would have done.
\<close>

theorem degraded_position_sold_on_next_tick:
  assumes "mk_SellabilityReprober probe (Some (fs_store fs)) ttl = Inr rb" and "0 \<le> sl"
    and "\<forall>q \<in> set (load_all_positions (fs_store fs)). pos_mint q \<noteq> []"
    and "reprobe_open_positions swept rb (load_all_positions (fs_store fs)) sl = (rb', r)"
    and "rb_sink rb' = Some st'" and "\<not> probe_clean rb (pos_mint p) sl"
    and "exits_ok fs" and "synced_at fs p" and "fsm_state p = OPEN"
    and "map_of (fs_exit_states fs) (pos_mint p) = Some xs" and "0 < remaining_bps xs"
    and "price (pos_mint p) = Some mark" and "0 \<le> bt" and "now < swept + ttl * 1000"
    and "tick_position venue price now bt (fs\<lparr>fs_store := st'\<rparr>) (pos_mint p) = (gs, Inr (ticks, acts))"
  shows "\<exists>x q exits why. fs_exits gs = exits @ [(Exit x, q)] \<and> ex_mint x = xs_mint xs \<and>
    ex_fraction_bps x = 10000 \<and> ex_exit_mode x = Secure \<and> acts = [Exit_full_action (pos_mint p) why]"
proof -
  have rb: "rb_sink rb = Some (fs_store fs)" "rb_flag_ttl rb = ttl" "0 < rb_flag_ttl rb"
    using assms(1) by (auto simp: mk_SellabilityReprober_def split: if_splits)
  from reprobe_each_flags [OF assms(2,3) rb(1,3), of swept] assms(2,4,5)
  have pos: "positions st' = positions (fs_store fs)"
    and flag: "snd (get_sellability_degraded_flag st' (pos_mint p) now)"
    using synced_at_loaded [OF assms(8)] assms(6,14) rb(2)
    by (auto simp: reprobe_open_positions_def)
  have ok: "exits_ok (fs\<lparr>fs_store := st'\<rparr>)" using assms(7) by (simp add: exits_ok_def)
  show ?thesis
    using flagged_tick_sells [where price = price and now = now and xs = xs, OF ok
        synced_at_store_update [OF assms(8) pos] assms(9) _ assms(11,12,13) _ assms(15)]
      assms(10) flag by (simp add: exit_flag_def)
qed

lemma demo_still:
  "trunc (dmul (dsub 100 (xs_entry_fill_price balanced_entry)) (of_int (tokens_out_base demo_position))) = 0"
proof -
  have "dsub 100 100 = 0" "dmul 0 10 = 0" by code_simp+
  then show ?thesis by (simp add: balanced_entry_def demo_position_def trunc_def)
qed

lemma demo_still_pnl:
  assumes "fs_breaker fs = fresh_breaker default_risk_config"
  shows "\<exists>gs. tick_pnl venue 1000 fs ''m'' i demo_position balanced_entry 100 = (gs, Inr ())"
proof -
  let ?ev = "\<lparr>pe_mint = ''m'', pe_block_time_ms = 1000, pe_delta_lamports = 0\<rparr>"
  have "\<exists>b st. record_pnl (\<lambda>_. None) (fresh_breaker default_risk_config) ?ev = (b, Inr st)"
    by (simp add: record_pnl_def breaker_evaluate_def Let_def pnl_net_def default_limits)
  then obtain b st where "record_pnl (\<lambda>_. None) (fresh_breaker default_risk_config) ?ev = (b, Inr st)" by blast
  moreover have "unrealized_pnl_net_lamports demo_position = 0" "0 < tokens_out_base demo_position"
    "0 < xs_entry_fill_price balanced_entry"
    by (simp_all add: demo_position_def balanced_entry_def)
  ultimately show ?thesis
    using demo_still assms by (simp add: tick_pnl_def Let_def mk_PnLEvent_def)
qed

lemma demo_tick_returns:
  "\<exists>gs ticks acts. tick_position venue (\<lambda>_. Some 100) now 1000 (demo_loop\<lparr>fs_store := st\<rparr>) ''m'' =
     (gs, Inr (ticks, acts))"
proof -
  let ?fs = "demo_loop\<lparr>fs_store := st\<rparr>"
  obtain s n j y l where rf: "read_flags now ?fs ''m'' = (?fs\<lparr>fs_store := s\<rparr>, n, j, y, l)"
    using read_flags_values [of now ?fs "''m''"] by blast
  let ?tk = "\<lparr>tk_mark_price = 100, tk_block_time_ms = 1000, tk_narrative_failure = n, tk_insider_dump = j,
    tk_sellability_degraded = y, tk_lp_unlock_approaching = l, tk_narrative_score = None\<rparr>"
  have "exit_tick_ok ?tk" by (simp add: exit_tick_ok_def)
  moreover have "exit_config_ok secure_balanced" "0 < remaining_bps balanced_entry"
    using presets_all by (simp_all add: AUTO_STRAT_PRESETS_def)
  ultimately obtain d where d: "exit_on_tick secure_balanced balanced_entry ?tk = Inr d"
    using exit_on_tick_live [OF _ balanced_entry_ok] by metis
  let ?fs2 = "?fs\<lparr>fs_store := s, fs_exit_states := dict_set ''m'' (ed_next_state d) (fs_exit_states ?fs)\<rparr>"
  have "fs_breaker ?fs2 = fresh_breaker default_risk_config" by (simp add: demo_loop_def)
  from demo_still_pnl [OF this] obtain gs
    where "tick_pnl venue 1000 ?fs2 ''m'' 0 demo_position balanced_entry 100 = (gs, Inr ())" by blast
  moreover have "fsm_state demo_position = OPEN" by (simp add: demo_position_def)
  ultimately show ?thesis
    using d rf by (simp add: tick_position_def Let_def demo_loop_def split: prod.split)
qed

theorem degraded_position_sold_on_next_tick_witness:
  "\<exists>rb rb' r st' gs ticks x q exits.
     mk_SellabilityReprober (\<lambda>_ _. Raises ''RpcError'') (Some (fs_store demo_loop)) 120 = Inr rb \<and>
     reprobe_open_positions 0 rb (load_all_positions (fs_store demo_loop)) 7 = (rb', r) \<and> rb_sink rb' = Some st' \<and>
     (\<exists>acts. tick_position (\<lambda>_ _ _. demo_fill) (\<lambda>_. Some 100) 1500 1000 (demo_loop\<lparr>fs_store := st'\<rparr>) ''m'' =
       (gs, Inr (ticks, acts))) \<and>
     fs_exits gs = exits @ [(Exit x, q)] \<and> ex_fraction_bps x = 10000"
proof -
  let ?v = "\<lambda>_ _ _. demo_fill"
  obtain rb where rb: "mk_SellabilityReprober (\<lambda>_ _. Raises ''RpcError'') (Some (fs_store demo_loop)) 120 = Inr rb"
    by (simp add: mk_SellabilityReprober_def)
  have dirty: "\<not> probe_clean rb m sl" for m sl
    using rb by (auto simp: mk_SellabilityReprober_def probe_clean_def)
  have m: "pos_mint demo_position = ''m''" "fsm_state demo_position = OPEN" by (simp_all add: demo_position_def)
  have book: "\<forall>q \<in> set (load_all_positions (fs_store demo_loop)). pos_mint q \<noteq> []"
    by (simp add: demo_loop_def demo_store_read m)
  have s0: "rb_sink rb = Some (fs_store demo_loop)" "0 < rb_flag_ttl rb"
    using rb by (auto simp: mk_SellabilityReprober_def)
  obtain rb' r st' where sweep: "reprobe_open_positions 0 rb (load_all_positions (fs_store demo_loop)) 7 = (rb', r)"
    "rb_sink rb' = Some st'"
    using reprobe_each_flags [OF _ book s0, of 7 0] by (auto simp: reprobe_open_positions_def)
  obtain gs ticks acts where tick:
    "tick_position ?v (\<lambda>_. Some 100) 1500 1000 (demo_loop\<lparr>fs_store := st'\<rparr>) (pos_mint demo_position) = (gs, Inr (ticks, acts))"
    using demo_tick_returns unfolding m by blast
  have ok: "exits_ok demo_loop"
    using presets_all balanced_entry_ok by (simp add: exits_ok_def demo_loop_def AUTO_STRAT_PRESETS_def)
  have xs: "map_of (fs_exit_states demo_loop) (pos_mint demo_position) = Some balanced_entry"
    "0 < remaining_bps balanced_entry"
    by (simp_all add: demo_loop_def m)
  from degraded_position_sold_on_next_tick [OF rb _ book sweep dirty ok demo_loop_tracked(2) m(2) xs _ _ _ tick]
  obtain x q exits where "fs_exits gs = exits @ [(Exit x, q)]" "ex_fraction_bps x = 10000" by auto
  with rb sweep tick [unfolded m(1)] show ?thesis by blast
qed

definition unlock_due :: "lp_thresholds \<Rightarrow> lp_schedule \<Rightarrow> int \<Rightarrow> bool" where
  "unlock_due t s sl \<longleftrightarrow>
     ls_status s = UNKNOWN \<or>
     ls_status s = TIME_LOCKED \<and>
       (case ls_unlock_slot s of None \<Rightarrow> True | Some u \<Rightarrow> u - sl \<le> exit_raise_within_slots t)"

lemma classify_unlock_due:
  assumes "0 \<le> sl" and "\<forall>x. ls_status s \<noteq> Other_status x"
  shows "\<exists>reason slots detail. classify_open_position_unlock s sl t = Inr (reason, slots, detail) \<and>
    (should_raise reason \<longleftrightarrow> unlock_due t s sl)"
  using assms
  by (cases "ls_status s"; cases "ls_unlock_slot s")
    (auto simp: classify_open_position_unlock_def unlock_due_def should_raise_def Let_def)

lemma lp_exit_reason_value_nonempty [simp]: "lp_exit_reason_value r \<noteq> []"
  by (cases r) simp_all

lemma lp_watch_effect:
  assumes "0 \<le> sl" and "\<forall>x. ls_status s \<noteq> Other_status x"
  shows "\<exists>st' d. lp_watch w s sl (Some st) now = Inr (Some st', d) \<and> lx_flag_set d = unlock_due (lw_thresholds w) s sl \<and>
    positions st' = positions st \<and> (\<not> unlock_due (lw_thresholds w) s sl \<longrightarrow> st' = st) \<and>
    (unlock_due (lw_thresholds w) s sl \<longrightarrow>
      (\<forall>t. snd (get_lp_unlock_approaching_flag st' (ls_mint s) t) \<longleftrightarrow> t < now + lw_flag_ttl_seconds w * 1000))"
proof -
  obtain reason slots detail where c: "classify_open_position_unlock s sl (lw_thresholds w) = Inr (reason, slots, detail)"
    "should_raise reason \<longleftrightarrow> unlock_due (lw_thresholds w) s sl"
    using classify_unlock_due [OF assms] by blast
  show ?thesis
    using assms(1)
    by (auto simp: lp_watch_def c Let_def set_lp_unlock_approaching_flag_def get_lp_unlock_approaching_flag_def
        ttl_get_def ttl_put_def is_expired_def)
qed

text \<open>
  A position whose liquidity can soon be pulled is sold. When the LP-unlock watcher looks at an
  open position whose unlock lies within the raise window, whose schedule is unknown, or whose
  lock carries no unlock slot, it always raises the flag, and every tick of the FAST loop for that
  position within the flag's time to live sends a full exit in secure mode; in every other case
  the watcher leaves the store exactly as it was.
\<close>

theorem lp_unlock_position_sold_on_next_tick:
  assumes "0 \<le> sl" and "ls_status sched \<in> {BURNED, TIME_LOCKED, UNKNOWN}" and "ls_mint sched = pos_mint p"
    and "exits_ok fs" and "synced_at fs p" and "fsm_state p = OPEN"
    and "map_of (fs_exit_states fs) (pos_mint p) = Some xs" and "0 < remaining_bps xs"
    and "price (pos_mint p) = Some mark" and "0 \<le> bt" and "now < watched + lw_flag_ttl_seconds w * 1000"
  shows "\<exists>st' d. lp_watch w sched sl (Some (fs_store fs)) watched = Inr (Some st', d) \<and>
    (\<not> unlock_due (lw_thresholds w) sched sl \<longrightarrow> st' = fs_store fs) \<and>
    (unlock_due (lw_thresholds w) sched sl \<longrightarrow>
      (\<forall>gs ticks acts. tick_position venue price now bt (fs\<lparr>fs_store := st'\<rparr>) (pos_mint p) = (gs, Inr (ticks, acts)) \<longrightarrow>
        (\<exists>x q exits why. fs_exits gs = exits @ [(Exit x, q)] \<and> ex_mint x = xs_mint xs \<and>
          ex_fraction_bps x = 10000 \<and> ex_exit_mode x = Secure \<and> acts = [Exit_full_action (pos_mint p) why])))"
proof -
  have st: "\<forall>x. ls_status sched \<noteq> Other_status x" using assms(2) by auto
  from lp_watch_effect [OF assms(1) st, of w "fs_store fs" watched] obtain st' d where
    w: "lp_watch w sched sl (Some (fs_store fs)) watched = Inr (Some st', d)"
    "positions st' = positions (fs_store fs)" "\<not> unlock_due (lw_thresholds w) sched sl \<longrightarrow> st' = fs_store fs"
    and flag: "unlock_due (lw_thresholds w) sched sl \<Longrightarrow> exit_flag st' (pos_mint p) now"
    using assms(3,11) by (auto simp: exit_flag_def)
  have ok: "exits_ok (fs\<lparr>fs_store := st'\<rparr>)" using assms(4) by (simp add: exits_ok_def)
  note sells = flagged_tick_sells [where price = price and now = now and xs = xs, OF ok
      synced_at_store_update [OF assms(5) w(2)] assms(6) _ assms(8,9,10)]
  show ?thesis
    using w sells assms(7) flag by (intro exI [of _ st'] exI [of _ d]) auto
qed

theorem lp_unlock_position_sold_on_next_tick_witness:
  "\<exists>st' d gs ticks acts x q exits.
     lp_watch \<lparr>lw_thresholds = default_lp_thresholds, lw_flag_ttl_seconds = 120\<rparr> demo_schedule 200000
       (Some (fs_store demo_loop)) 0 = Inr (Some st', d) \<and>
     tick_position (\<lambda>_ _ _. demo_fill) (\<lambda>_. Some 100) 1500 1000 (demo_loop\<lparr>fs_store := st'\<rparr>) ''m'' =
       (gs, Inr (ticks, acts)) \<and>
     fs_exits gs = exits @ [(Exit x, q)] \<and> ex_fraction_bps x = 10000"
proof -
  let ?w = "\<lparr>lw_thresholds = default_lp_thresholds, lw_flag_ttl_seconds = 120\<rparr>"
  have m: "pos_mint demo_position = ''m''" "fsm_state demo_position = OPEN" by (simp_all add: demo_position_def)
  have ok: "exits_ok demo_loop"
    using presets_all balanced_entry_ok by (simp add: exits_ok_def demo_loop_def AUTO_STRAT_PRESETS_def)
  have xs: "map_of (fs_exit_states demo_loop) (pos_mint demo_position) = Some balanced_entry"
    "0 < remaining_bps balanced_entry"
    by (simp_all add: demo_loop_def m)
  have s: "ls_status demo_schedule \<in> {BURNED, TIME_LOCKED, UNKNOWN}" "ls_mint demo_schedule = pos_mint demo_position"
    by (simp_all add: demo_schedule_def m)
  have due: "unlock_due (lw_thresholds ?w) demo_schedule 200000"
    by (simp add: unlock_due_def demo_schedule_def default_lp_thresholds_def)
  have now: "1500 < 0 + lw_flag_ttl_seconds ?w * 1000" by simp
  from lp_unlock_position_sold_on_next_tick [OF _ s ok demo_loop_tracked(2) m(2) xs _ _ now,
      of 200000 "\<lambda>_. Some 100" 100 1000 "\<lambda>_ _ _. demo_fill"] due
  obtain st' d where w: "lp_watch ?w demo_schedule 200000 (Some (fs_store demo_loop)) 0 = Inr (Some st', d)"
    and sells: "\<And>gs ticks acts. tick_position (\<lambda>_ _ _. demo_fill) (\<lambda>_. Some 100) 1500 1000 (demo_loop\<lparr>fs_store := st'\<rparr>)
      (pos_mint demo_position) = (gs, Inr (ticks, acts)) \<Longrightarrow>
      \<exists>x q exits. fs_exits gs = exits @ [(Exit x, q)] \<and> ex_fraction_bps x = 10000" by fastforce
  obtain gs ticks acts where tick: "tick_position (\<lambda>_ _ _. demo_fill) (\<lambda>_. Some 100) 1500 1000
      (demo_loop\<lparr>fs_store := st'\<rparr>) ''m'' = (gs, Inr (ticks, acts))"
    using demo_tick_returns by blast
  from sells [unfolded m(1), OF tick] w tick show ?thesis by blast
qed
end
