(* ===== verification/Reasoning.thy ===== *)
theory Reasoning
  imports Safety_Gate
begin

text \<open>
  The de-risk reasoner of \<open>aats/reasoning\<close>: the vocabulary and buckets (\<open>schema.py\<close>), the
  clamp (\<open>clamp.py\<close>), the conflict matrix (\<open>matrix.py\<close>), the prompt inputs (\<open>prompt.py\<close>), the
  router with its cache, retries and fast path (\<open>router.py\<close>) and the reasoner that puts them
  together (\<open>reasoner.py\<close>), with the model contracts of \<open>contracts/models.py\<close> they exchange.

  A language-model backend is a parameter: what it answers to a prompt may depend on the number of
  the attempt, and it may raise. A prompt is represented by the views that are interpolated into
  its template, its hash by a parameter, and a cache digest by the key it is computed from.
  Elapsed times are left out except the one that the fast path compares with its budget.
\<close>

subsection \<open>Actions (\<open>contracts/models.py\<close>)\<close>

datatype reasoning_action = HOLD | VETO_ENTRY | REDUCE_SIZE | FORCE_EXIT

fun action_str :: "reasoning_action \<Rightarrow> string" where
  "action_str HOLD = ''HOLD''"
| "action_str VETO_ENTRY = ''VETO_ENTRY''"
| "action_str REDUCE_SIZE = ''REDUCE_SIZE''"
| "action_str FORCE_EXIT = ''FORCE_EXIT''"

fun derisk_strength :: "reasoning_action \<Rightarrow> int" where
  "derisk_strength HOLD = 0"
| "derisk_strength VETO_ENTRY = 1"
| "derisk_strength REDUCE_SIZE = 2"
| "derisk_strength FORCE_EXIT = 3"

lemma derisk_strength_inject: "derisk_strength a = derisk_strength b \<longleftrightarrow> a = b"
  by (cases a; cases b) simp_all

text \<open>The order of the actions: an action is greater when it sheds more risk.\<close>

instantiation reasoning_action :: linorder
begin

definition less_eq_reasoning_action :: "reasoning_action \<Rightarrow> reasoning_action \<Rightarrow> bool" where
  "a \<le> b \<longleftrightarrow> derisk_strength a \<le> derisk_strength b"

definition less_reasoning_action :: "reasoning_action \<Rightarrow> reasoning_action \<Rightarrow> bool" where
  "a < b \<longleftrightarrow> derisk_strength a < derisk_strength b"

instance
  by standard
    (auto simp: less_eq_reasoning_action_def less_reasoning_action_def derisk_strength_inject [symmetric])

end

lemmas action_order = less_eq_reasoning_action_def less_reasoning_action_def

record reasoning_verdict =
  vd_mint :: mint
  vd_event_time :: event_time
  vd_action :: reasoning_action
  vd_reason :: audit
  vd_confidence :: rat
  vd_action_received_raw :: string
  vd_risk_increase_clamped :: bool

definition in_unit :: "rat \<Rightarrow> bool" where
  "in_unit x \<longleftrightarrow> 0 \<le> x \<and> x \<le> 1"

definition mk_ReasoningVerdict :: "reasoning_verdict \<Rightarrow> reasoning_verdict result" where
  "mk_ReasoningVerdict v = (if in_unit (vd_confidence v) then Inr v else Inl ValueError)"

text \<open>The signal with the fields that only the reasoner reads.\<close>

record scored_signal = decision_signal +
  sg_event_time :: event_time
  sg_model_version :: string
  baseline_p :: rat

definition mk_DecisionSignal :: "scored_signal \<Rightarrow> scored_signal result" where
  "mk_DecisionSignal s =
     (if in_unit (p_calibrated s) \<and> in_unit (uncertainty s) \<and> in_unit (baseline_p s)
      then Inr s else Inl ValueError)"

record mcs_score =
  mc_asset :: string
  mc_event_time :: event_time
  mc_conviction :: rat
  mc_momentum :: rat
  mc_novelty :: rat
  mc_synchronicity :: rat
  mc_account_age_median_days :: rat
  mc_coordinated_shill_flag :: bool
  mc_red_flags :: "string list"
  mc_post_count :: int
  mc_reasoning :: string

definition mk_MCSScore :: "mcs_score \<Rightarrow> mcs_score result" where
  "mk_MCSScore s =
     (if in_unit (mc_conviction s) \<and> in_unit (mc_momentum s) \<and> in_unit (mc_novelty s) \<and>
         in_unit (mc_synchronicity s)
      then Inr s else Inl ValueError)"

subsection \<open>Vocabulary and buckets (\<open>schema.py\<close>)\<close>

datatype signal_label = STRONG_BUY | WEAK_BUY | HOLD_signal | SELL | STRONG_SELL

fun label_str :: "signal_label \<Rightarrow> string" where
  "label_str STRONG_BUY = ''Strong Buy''"
| "label_str WEAK_BUY = ''Weak Buy''"
| "label_str HOLD_signal = ''Hold''"
| "label_str SELL = ''Sell''"
| "label_str STRONG_SELL = ''Strong Sell''"

fun signal_risk_rank :: "signal_label \<Rightarrow> int" where
  "signal_risk_rank STRONG_SELL = 0"
| "signal_risk_rank SELL = 1"
| "signal_risk_rank HOLD_signal = 2"
| "signal_risk_rank WEAK_BUY = 3"
| "signal_risk_rank STRONG_BUY = 4"

record llm_raw_verdict =
  rv_decision_signal :: signal_label
  rv_confidence :: rat
  rv_veto :: bool
  rv_narrative_failure :: bool
  rv_rationale :: string

definition mk_LLMRawVerdict :: "llm_raw_verdict \<Rightarrow> llm_raw_verdict result" where
  "mk_LLMRawVerdict v =
     (if in_unit (rv_confidence v) then Inr (v\<lparr>rv_rationale := take 2000 (rv_rationale v)\<rparr>)
      else Inl ValueError)"

datatype quant_bucket = BEARISH | NEUTRAL | BULLISH

fun quant_str :: "quant_bucket \<Rightarrow> string" where
  "quant_str BEARISH = ''BEARISH''"
| "quant_str NEUTRAL = ''NEUTRAL''"
| "quant_str BULLISH = ''BULLISH''"

datatype sentiment_risk = BENIGN | ELEVATED | MANUFACTURED

fun sentiment_str :: "sentiment_risk \<Rightarrow> string" where
  "sentiment_str BENIGN = ''BENIGN''"
| "sentiment_str ELEVATED = ''ELEVATED''"
| "sentiment_str MANUFACTURED = ''MANUFACTURED''"

text \<open>The literals are binary64 constants.\<close>

definition QUANT_BULLISH_P :: rat where "QUANT_BULLISH_P = flt (62 / 100)"
definition QUANT_BEARISH_P :: rat where "QUANT_BEARISH_P = flt (45 / 100)"
definition UNCERTAINTY_DERISK_BAND :: rat where "UNCERTAINTY_DERISK_BAND = flt (35 / 100)"

definition bucket_quant :: "rat \<Rightarrow> rat \<Rightarrow> quant_bucket result" where
  "bucket_quant p u =
     (if \<not> (0 \<le> p \<and> p \<le> 1) then Inl ValueError
      else if \<not> (0 \<le> u \<and> u \<le> 1) then Inl ValueError
      else if QUANT_BULLISH_P \<le> p \<and> u \<le> UNCERTAINTY_DERISK_BAND then Inr BULLISH
      else if QUANT_BULLISH_P \<le> p then Inr NEUTRAL
      else if p < QUANT_BEARISH_P then Inr BEARISH
      else Inr NEUTRAL)"

definition MCS_BENIGN_CONVICTION :: rat where "MCS_BENIGN_CONVICTION = flt (55 / 100)"
definition MCS_HIGH_SYNCHRONICITY :: rat where "MCS_HIGH_SYNCHRONICITY = flt (70 / 100)"
definition MCS_YOUNG_ACCOUNTS_DAYS :: rat where "MCS_YOUNG_ACCOUNTS_DAYS = 14"

definition bucket_sentiment :: "rat \<Rightarrow> rat \<Rightarrow> rat \<Rightarrow> bool \<Rightarrow> sentiment_risk" where
  "bucket_sentiment conviction synchronicity age shill =
     (if shill then MANUFACTURED
      else if MCS_HIGH_SYNCHRONICITY \<le> synchronicity \<and> age \<le> MCS_YOUNG_ACCOUNTS_DAYS then MANUFACTURED
      else if MCS_HIGH_SYNCHRONICITY \<le> synchronicity \<or> age \<le> MCS_YOUNG_ACCOUNTS_DAYS \<or>
              conviction < MCS_BENIGN_CONVICTION then ELEVATED
      else BENIGN)"

subsection \<open>The clamp (\<open>clamp.py\<close>)\<close>

definition RISK_INCREASE_TOKENS :: "string list" where
  "RISK_INCREASE_TOKENS =
     [''SIZE_UP'', ''BUY'', ''STRONG_BUY'', ''INCREASE'', ''INCREASE_SIZE'', ''ADD'', ''ADD_SIZE'',
      ''WIDEN_STOP'', ''MOVE_STOP'', ''ADD_LEVERAGE'', ''LEVERAGE'', ''OVERRIDE_HARD_STOP'',
      ''OVERRIDE_STOP'', ''DISABLE_STOP'', ''SCALE_IN'', ''MARTINGALE'']"

record clamp_result =
  cl_action :: reasoning_action
  cl_risk_increase_clamped :: bool
  cl_action_received_raw :: string

text \<open>\<open>str.upper\<close> on the letters of the tokens (the ASCII range).\<close>

definition py_upper :: "char \<Rightarrow> char" where
  "py_upper c = (let n = (of_char c :: nat) in if 97 \<le> n \<and> n \<le> 122 then char_of (n - 32) else c)"

definition py_replace_char :: "char \<Rightarrow> char \<Rightarrow> string \<Rightarrow> string" where
  "py_replace_char a b s = map (\<lambda>c. if c = a then b else c) s"

definition classify_raw_is_risk_increase :: "string \<Rightarrow> bool" where
  "classify_raw_is_risk_increase raw \<longleftrightarrow>
     py_replace_char CHR ''-'' CHR ''_'' (py_replace_char CHR '' '' CHR ''_'' (map py_upper (py_strip raw)))
       \<in> set RISK_INCREASE_TOKENS"

definition quant_to_action_ceiling :: "quant_bucket \<Rightarrow> reasoning_action" where
  "quant_to_action_ceiling q = (if q = BEARISH then VETO_ENTRY else HOLD)"

definition llm_requested_derisk :: "signal_label \<Rightarrow> bool \<Rightarrow> bool \<Rightarrow> bool \<Rightarrow> reasoning_action" where
  "llm_requested_derisk signal veto narrative_failure is_open =
     (if narrative_failure then (if is_open then FORCE_EXIT else VETO_ENTRY)
      else if veto then (if is_open then REDUCE_SIZE else VETO_ENTRY)
      else if signal = STRONG_SELL \<or> signal = SELL then (if is_open then FORCE_EXIT else VETO_ENTRY)
      else HOLD)"

definition clamp_to_derisk_action ::
    "quant_bucket \<Rightarrow> signal_label \<Rightarrow> bool \<Rightarrow> bool \<Rightarrow> string \<Rightarrow> bool \<Rightarrow> clamp_result" where
  "clamp_to_derisk_action q signal veto narrative_failure raw is_open =
     (let requested = llm_requested_derisk signal veto narrative_failure is_open;
          ceil = quant_to_action_ceiling q in
      \<lparr>cl_action = (if derisk_strength ceil \<le> derisk_strength requested then requested else ceil),
       cl_risk_increase_clamped = classify_raw_is_risk_increase raw,
       cl_action_received_raw = raw\<rparr>)"

subsection \<open>The conflict matrix (\<open>matrix.py\<close>)\<close>

record matrix_decision =
  floor_action :: reasoning_action
  md_cell :: string
  is_conflict :: bool

definition BULLISH_OR_HOLD :: "signal_label list" where
  "BULLISH_OR_HOLD = [HOLD_signal, WEAK_BUY, STRONG_BUY]"

definition llm_is_bearish_or_veto :: "signal_label \<Rightarrow> bool \<Rightarrow> bool" where
  "llm_is_bearish_or_veto signal veto \<longleftrightarrow> veto \<or> signal = SELL \<or> signal = STRONG_SELL"

text \<open>The multiplication sign that separates the parts of a cell's name.\<close>

definition times_sign :: string where
  "times_sign = [CHR 0xD7]"

definition evaluate_matrix ::
    "quant_bucket \<Rightarrow> signal_label \<Rightarrow> bool \<Rightarrow> bool \<Rightarrow> sentiment_risk \<Rightarrow> bool \<Rightarrow> matrix_decision" where
  "evaluate_matrix q signal veto narrative_failure sentiment is_open =
     (let llm_derisk = llm_is_bearish_or_veto signal veto;
          flr = (if is_open then REDUCE_SIZE else VETO_ENTRY) in
      if narrative_failure then
        (if is_open
         then \<lparr>floor_action = FORCE_EXIT,
               md_cell = quant_str q @ times_sign @ ''narrative_failure'' @ times_sign @
                 sentiment_str sentiment @ ''[open]'',
               is_conflict = True\<rparr>
         else \<lparr>floor_action = VETO_ENTRY,
               md_cell = quant_str q @ times_sign @ ''narrative_failure'' @ times_sign @ sentiment_str sentiment,
               is_conflict = True\<rparr>)
      else if q = BEARISH then
        \<lparr>floor_action = flr,
         md_cell = ''BEARISH'' @ times_sign @ label_str signal @ times_sign @ sentiment_str sentiment,
         is_conflict = (signal \<in> set BULLISH_OR_HOLD \<and> \<not> llm_derisk \<and>
           signal_risk_rank HOLD_signal < signal_risk_rank signal)\<rparr>
      else if sentiment = MANUFACTURED then
        \<lparr>floor_action = flr,
         md_cell = quant_str q @ times_sign @ label_str signal @ times_sign @ ''MANUFACTURED'',
         is_conflict = (q = BULLISH \<or> signal \<in> set BULLISH_OR_HOLD)\<rparr>
      else if llm_derisk then
        \<lparr>floor_action = flr,
         md_cell = quant_str q @ times_sign @ ''llm_derisk'' @ times_sign @ sentiment_str sentiment,
         is_conflict = (q = BULLISH)\<rparr>
      else
        \<lparr>floor_action = HOLD,
         md_cell = quant_str q @ times_sign @ label_str signal @ times_sign @ sentiment_str sentiment @ ''[agreement]'',
         is_conflict = False\<rparr>)"

definition combine_clamp_and_matrix :: "reasoning_action \<Rightarrow> reasoning_action \<Rightarrow> reasoning_action" where
  "combine_clamp_and_matrix clamp flr =
     (if derisk_strength flr \<le> derisk_strength clamp then clamp else flr)"

subsection \<open>The prompt (\<open>prompt.py\<close>)\<close>

record prompt_inputs =
  pi_decision_signal :: scored_signal
  pi_mcs :: mcs_score
  pi_total_cost_bps :: int
  pi_expected_edge_bps :: int
  pi_position_is_open :: bool

record quant_view =
  qv_p_calibrated :: rat
  qv_uncertainty :: rat
  qv_baseline_p :: rat
  qv_surface :: string
  qv_model_version :: string

record sentiment_view =
  sv_conviction :: rat
  sv_synchronicity :: rat
  sv_account_age_median_days :: rat
  sv_coordinated_shill_flag :: bool
  sv_red_flags :: "string list"
  sv_post_count :: int

record cost_view =
  cv_total_cost_bps :: int
  cv_expected_edge_bps :: int
  cv_net_edge_bps_after_costs :: int
  cv_position_is_open :: bool

record reasoner_prompt =
  pr_mint :: mint
  pr_quant :: quant_view
  pr_sentiment :: sentiment_view
  pr_cost :: cost_view
  pr_untrusted_narrative :: string

text \<open>\<open>round(x, n)\<close> of a float: half-even at the \<open>n\<close>-th decimal, then the nearest float.\<close>

definition py_round :: "rat \<Rightarrow> nat \<Rightarrow> rat" where
  "py_round x n = flt (of_int (half_even (x * 10 ^ n)) / 10 ^ n)"

definition quant_view_of :: "scored_signal \<Rightarrow> quant_view" where
  "quant_view_of sig =
     \<lparr>qv_p_calibrated = py_round (p_calibrated sig) 4, qv_uncertainty = py_round (uncertainty sig) 4,
      qv_baseline_p = py_round (baseline_p sig) 4, qv_surface = surface sig,
      qv_model_version = sg_model_version sig\<rparr>"

definition sentiment_view_of :: "mcs_score \<Rightarrow> sentiment_view" where
  "sentiment_view_of mcs =
     \<lparr>sv_conviction = py_round (mc_conviction mcs) 4, sv_synchronicity = py_round (mc_synchronicity mcs) 4,
      sv_account_age_median_days = py_round (mc_account_age_median_days mcs) 2,
      sv_coordinated_shill_flag = mc_coordinated_shill_flag mcs, sv_red_flags = mc_red_flags mcs,
      sv_post_count = mc_post_count mcs\<rparr>"

definition assert_point_in_time :: "prompt_inputs \<Rightarrow> unit result" where
  "assert_point_in_time inputs =
     (let s = sg_event_time (pi_decision_signal inputs); m = mc_event_time (pi_mcs inputs) in
      if slot s \<noteq> slot m \<or> block_time_ms s \<noteq> block_time_ms m then Inl ValueError else Inr ())"

definition build_reasoner_prompt :: "prompt_inputs \<Rightarrow> reasoner_prompt result" where
  "build_reasoner_prompt inputs =
     rbind (assert_point_in_time inputs) (\<lambda>_.
     Inr \<lparr>pr_mint = sg_mint (pi_decision_signal inputs),
          pr_quant = quant_view_of (pi_decision_signal inputs),
          pr_sentiment = sentiment_view_of (pi_mcs inputs),
          pr_cost = \<lparr>cv_total_cost_bps = pi_total_cost_bps inputs,
                     cv_expected_edge_bps = pi_expected_edge_bps inputs,
                     cv_net_edge_bps_after_costs = pi_expected_edge_bps inputs - pi_total_cost_bps inputs,
                     cv_position_is_open = pi_position_is_open inputs\<rparr>,
          pr_untrusted_narrative = mc_reasoning (pi_mcs inputs)\<rparr>)"

subsection \<open>The router (\<open>router.py\<close>)\<close>

datatype route_tier = CACHE | LOCAL | FRONTIER | FAST_PATH | FALLBACK

fun tier_str :: "route_tier \<Rightarrow> string" where
  "tier_str CACHE = ''CACHE''"
| "tier_str LOCAL = ''LOCAL''"
| "tier_str FRONTIER = ''FRONTIER''"
| "tier_str FAST_PATH = ''FAST_PATH''"
| "tier_str FALLBACK = ''FALLBACK''"

text \<open>What a call of a backend gives: a verdict after some milliseconds, or an exception.\<close>

datatype backend_reply = Replied llm_raw_verdict rat | Backend_raised

record llm_backend =
  backend_id :: string
  backend_reason :: "reasoner_prompt \<Rightarrow> rat \<Rightarrow> nat \<Rightarrow> backend_reply"

record signal_bucket_key =
  bk_quant :: quant_bucket
  bk_sentiment :: sentiment_risk
  bk_position_is_open :: bool
  bk_net_edge_sign :: int

definition conservative_fallback_verdict :: "string \<Rightarrow> llm_raw_verdict result" where
  "conservative_fallback_verdict why =
     mk_LLMRawVerdict \<lparr>rv_decision_signal = SELL, rv_confidence = 1, rv_veto = True,
       rv_narrative_failure = False, rv_rationale = ''[fallback] conservative de-risk: '' @ why\<rparr>"

record routed_verdict =
  ro_raw :: llm_raw_verdict
  ro_tier :: route_tier
  ro_backend_id :: string
  ro_cache_hit :: bool
  ro_timed_out :: bool

record llm_router =
  lr_local :: llm_backend
  lr_frontier :: "llm_backend option"
  lr_budget_ms :: rat
  lr_max_retries :: int
  lr_temperature :: rat
  lr_cache :: "(signal_bucket_key \<times> llm_raw_verdict) list"

definition new_LLMRouter :: "llm_backend \<Rightarrow> llm_backend option \<Rightarrow> rat \<Rightarrow> int \<Rightarrow> rat \<Rightarrow> llm_router" where
  "new_LLMRouter loc front budget retries temperature =
     \<lparr>lr_local = loc, lr_frontier = front, lr_budget_ms = budget, lr_max_retries = retries,
      lr_temperature = temperature, lr_cache = []\<rparr>"

definition cache_lookup :: "llm_router \<Rightarrow> signal_bucket_key \<Rightarrow> llm_raw_verdict option" where
  "cache_lookup r key = map_of (lr_cache r) key"

definition cache_store :: "llm_router \<Rightarrow> signal_bucket_key \<Rightarrow> llm_raw_verdict \<Rightarrow> llm_router" where
  "cache_store r key v = r\<lparr>lr_cache := dict_set key v (lr_cache r)\<rparr>"

definition should_escalate :: "signal_bucket_key \<Rightarrow> bool" where
  "should_escalate key \<longleftrightarrow>
     bk_quant key = NEUTRAL \<and> bk_sentiment key = ELEVATED \<and> bk_net_edge_sign key = 0"

text \<open>The verdict if any, whether the budget was exceeded, and whether the call succeeded.\<close>

definition call_with_budget ::
    "llm_router \<Rightarrow> llm_backend \<Rightarrow> reasoner_prompt \<Rightarrow> rat \<Rightarrow> llm_raw_verdict option \<times> bool \<times> bool" where
  "call_with_budget r backend prompt budget =
     (case backend_reason backend prompt (lr_temperature r) 0 of
        Backend_raised \<Rightarrow> (None, False, False)
      | Replied v elapsed \<Rightarrow> if budget < elapsed then (None, True, True) else (Some v, False, True))"

fun retry_loop :: "llm_router \<Rightarrow> llm_backend \<Rightarrow> reasoner_prompt \<Rightarrow> nat list \<Rightarrow> llm_raw_verdict option" where
  "retry_loop r backend prompt [] = None"
| "retry_loop r backend prompt (k # ks) =
     (case backend_reason backend prompt (lr_temperature r) k of
        Replied v _ \<Rightarrow> Some v
      | Backend_raised \<Rightarrow> retry_loop r backend prompt ks)"

definition call_with_retries :: "llm_router \<Rightarrow> llm_backend \<Rightarrow> reasoner_prompt \<Rightarrow> llm_raw_verdict option" where
  "call_with_retries r backend prompt = retry_loop r backend prompt [0..<nat (lr_max_retries r + 1)]"

definition fallback_routed :: "string \<Rightarrow> llm_backend \<Rightarrow> bool \<Rightarrow> routed_verdict result" where
  "fallback_routed why backend timed_out =
     rbind (conservative_fallback_verdict why) (\<lambda>v.
     Inr \<lparr>ro_raw = v, ro_tier = FALLBACK, ro_backend_id = backend_id backend, ro_cache_hit = False,
          ro_timed_out = timed_out\<rparr>)"

definition fast_path_veto ::
    "llm_router \<Rightarrow> reasoner_prompt \<Rightarrow> signal_bucket_key \<Rightarrow> llm_router \<times> routed_verdict result" where
  "fast_path_veto r prompt key =
     (case cache_lookup r key of
        Some v \<Rightarrow> (r, Inr \<lparr>ro_raw = v, ro_tier = CACHE, ro_backend_id = backend_id (lr_local r),
                           ro_cache_hit = True, ro_timed_out = False\<rparr>)
      | None \<Rightarrow>
          (case call_with_budget r (lr_local r) prompt (lr_budget_ms r) of
             (Some v, False, True) \<Rightarrow>
               (cache_store r key v,
                Inr \<lparr>ro_raw = v, ro_tier = FAST_PATH, ro_backend_id = backend_id (lr_local r),
                     ro_cache_hit = False, ro_timed_out = False\<rparr>)
           | (_, timed_out, _) \<Rightarrow>
               (r, fallback_routed
                     (if timed_out then ''fast-path local timeout/error'' else ''fast-path invalid output'')
                     (lr_local r) timed_out)))"

definition route :: "llm_router \<Rightarrow> reasoner_prompt \<Rightarrow> signal_bucket_key \<Rightarrow> llm_router \<times> routed_verdict result" where
  "route r prompt key =
     (case cache_lookup r key of
        Some v \<Rightarrow> (r, Inr \<lparr>ro_raw = v, ro_tier = CACHE, ro_backend_id = ''cache'', ro_cache_hit = True,
                           ro_timed_out = False\<rparr>)
      | None \<Rightarrow>
          let escalate = (lr_frontier r \<noteq> None \<and> should_escalate key);
              backend = (if escalate then the (lr_frontier r) else lr_local r) in
          (case call_with_retries r backend prompt of
             None \<Rightarrow> (r, fallback_routed ''route: backend error/invalid after retries'' backend False)
           | Some v \<Rightarrow>
               (cache_store r key v,
                Inr \<lparr>ro_raw = v, ro_tier = (if escalate then FRONTIER else LOCAL),
                     ro_backend_id = backend_id backend, ro_cache_hit = False, ro_timed_out = False\<rparr>)))"

subsection \<open>The reasoner (\<open>reasoner.py\<close>)\<close>

record reasoner_output =
  rs_verdict :: reasoning_verdict
  rs_intent :: "intent option"
  rs_route_tier :: route_tier
  rs_backend_id :: string
  rs_prompt_hash :: string
  rs_cache_hit :: bool

definition deterministic_intent_id :: "mint \<Rightarrow> event_time \<Rightarrow> reasoning_action \<Rightarrow> client_id" where
  "deterministic_intent_id m et action =
     Cid (''reason:'' @ action_str action) m [of_int (slot et), of_int (block_time_ms et)]"

definition build_intent :: "reasoning_action \<Rightarrow> mint \<Rightarrow> event_time \<Rightarrow> audit \<Rightarrow> intent option result" where
  "build_intent action m et why =
     (let cid = deterministic_intent_id m et action in
      case action of
        HOLD \<Rightarrow> Inr None
      | VETO_ENTRY \<Rightarrow> map_sum id Some (factory_veto cid m why)
      | REDUCE_SIZE \<Rightarrow> map_sum id Some (factory_reduce cid m 5000 why)
      | FORCE_EXIT \<Rightarrow> map_sum id Some (factory_exit cid m 10000 Secure why))"

fun py_bool :: "bool \<Rightarrow> string" where
  "py_bool True = ''True''"
| "py_bool False = ''False''"

definition audit_reason ::
    "llm_raw_verdict \<Rightarrow> quant_bucket \<Rightarrow> sentiment_risk \<Rightarrow> string \<Rightarrow> bool \<Rightarrow> bool \<Rightarrow> route_tier \<Rightarrow> string \<Rightarrow>
     string \<Rightarrow> audit" where
  "audit_reason raw q sentiment cell clamped narrative_failure tier backend hash =
     Audit (''quant='' @ quant_str q @ '' sentiment='' @ sentiment_str sentiment @ '' cell='' @ cell @
       '' raw_signal='' @ label_str (rv_decision_signal raw) @ '' raw_veto='' @ py_bool (rv_veto raw) @
       '' raw_narrative_failure='' @ py_bool (rv_narrative_failure raw) @
       '' applied_narrative_failure='' @ py_bool narrative_failure @
       '' risk_increase_clamped='' @ py_bool clamped @
       '' route='' @ tier_str tier @ '' backend='' @ backend @ '' prompt_hash='' @ take 12 hash @
       '' | [QUOTED-UNTRUSTED-RATIONALE] '' @ rv_rationale raw) []"

definition bucket_key :: "prompt_inputs \<Rightarrow> signal_bucket_key result" where
  "bucket_key inputs =
     (let sig = pi_decision_signal inputs; mcs = pi_mcs inputs in
      rbind (bucket_quant (p_calibrated sig) (uncertainty sig)) (\<lambda>q.
      Inr \<lparr>bk_quant = q,
           bk_sentiment = bucket_sentiment (mc_conviction mcs) (mc_synchronicity mcs)
             (mc_account_age_median_days mcs) (mc_coordinated_shill_flag mcs),
           bk_position_is_open = pi_position_is_open inputs,
           bk_net_edge_sign = sgn (pi_expected_edge_bps inputs - pi_total_cost_bps inputs)\<rparr>))"

definition finalize ::
    "prompt_inputs \<Rightarrow> llm_raw_verdict \<Rightarrow> route_tier \<Rightarrow> string \<Rightarrow> string \<Rightarrow> bool \<Rightarrow> reasoner_output result" where
  "finalize inputs raw tier backend hash cache_hit =
     (let sig = pi_decision_signal inputs; mcs = pi_mcs inputs; is_open = pi_position_is_open inputs in
      rbind (bucket_quant (p_calibrated sig) (uncertainty sig)) (\<lambda>q.
      let sentiment = bucket_sentiment (mc_conviction mcs) (mc_synchronicity mcs)
            (mc_account_age_median_days mcs) (mc_coordinated_shill_flag mcs);
          clamp = clamp_to_derisk_action q (rv_decision_signal raw) (rv_veto raw) (rv_narrative_failure raw)
            (label_str (rv_decision_signal raw)) is_open;
          matrix = evaluate_matrix q (rv_decision_signal raw) (rv_veto raw) (rv_narrative_failure raw)
            sentiment is_open;
          applied = combine_clamp_and_matrix (cl_action clamp) (floor_action matrix);
          applied_nf = (applied = FORCE_EXIT \<and> (rv_narrative_failure raw \<or> floor_action matrix = FORCE_EXIT)) in
      rbind (mk_ReasoningVerdict
        \<lparr>vd_mint = sg_mint sig, vd_event_time = sg_event_time sig, vd_action = applied,
         vd_reason = audit_reason raw q sentiment (md_cell matrix) (cl_risk_increase_clamped clamp)
           applied_nf tier backend hash,
         vd_confidence = rv_confidence raw, vd_action_received_raw = cl_action_received_raw clamp,
         vd_risk_increase_clamped = cl_risk_increase_clamped clamp\<rparr>) (\<lambda>verdict.
      rbind (build_intent applied (sg_mint sig) (sg_event_time sig) (vd_reason verdict)) (\<lambda>intent.
      Inr \<lparr>rs_verdict = verdict, rs_intent = intent, rs_route_tier = tier, rs_backend_id = backend,
           rs_prompt_hash = hash, rs_cache_hit = cache_hit\<rparr>))))"

text \<open>The three entry points share their preparation: the point-in-time check, the key, the prompt.\<close>

definition prepared :: "prompt_inputs \<Rightarrow> (signal_bucket_key \<times> reasoner_prompt) result" where
  "prepared inputs =
     rbind (assert_point_in_time inputs) (\<lambda>_.
     rbind (bucket_key inputs) (\<lambda>key.
     rbind (build_reasoner_prompt inputs) (\<lambda>prompt. Inr (key, prompt))))"

definition adjudicate ::
    "(reasoner_prompt \<Rightarrow> string) \<Rightarrow> llm_router \<Rightarrow> prompt_inputs \<Rightarrow> llm_router \<times> reasoner_output result" where
  "adjudicate prompt_hash r inputs =
     (case prepared inputs of
        Inl e \<Rightarrow> (r, Inl e)
      | Inr (key, prompt) \<Rightarrow>
          (case route r prompt key of (r', routed) \<Rightarrow>
           (r', rbind routed (\<lambda>ro. finalize inputs (ro_raw ro) (ro_tier ro) (ro_backend_id ro)
                  (prompt_hash prompt) (ro_cache_hit ro)))))"

definition fast_veto ::
    "(reasoner_prompt \<Rightarrow> string) \<Rightarrow> llm_router \<Rightarrow> prompt_inputs \<Rightarrow> llm_router \<times> reasoner_output result" where
  "fast_veto prompt_hash r inputs =
     (case prepared inputs of
        Inl e \<Rightarrow> (r, Inl e)
      | Inr (key, prompt) \<Rightarrow>
          (case fast_path_veto r prompt key of (r', routed) \<Rightarrow>
           (r', rbind routed (\<lambda>ro. finalize inputs (ro_raw ro) (ro_tier ro) (ro_backend_id ro)
                  (prompt_hash prompt) (ro_cache_hit ro)))))"

text \<open>News: \<open>f'{x:.3f}'\<close> of a float and \<open>repr\<close> of a list of strings, then the override.\<close>

record news_signal =
  nw_credible_negative_event :: bool
  nw_mcs_delta :: rat
  nw_headline_digest :: string
  nw_red_flags :: "string list"

definition fmt3 :: "rat \<Rightarrow> string" where
  "fmt3 x =
     (let n = nat (half_even (\<bar>x\<bar> * 1000)); frc = n mod 1000 in
      (if x < 0 then ''-'' else []) @ str_nat (n div 1000) @ ''.'' @
      [digit_char (frc div 100), digit_char (frc div 10 mod 10), digit_char (frc mod 10)])"

definition hex_char :: "nat \<Rightarrow> char" where
  "hex_char d = (if d < 10 then digit_char d else char_of (87 + d))"

definition repr_char :: "char \<Rightarrow> char \<Rightarrow> string" where
  "repr_char quote c =
     (let n = (of_char c :: nat) in
      if c = quote \<or> n = 92 then [CHR 0x5C, c]
      else if n = 10 then [CHR 0x5C, CHR ''n'']
      else if n = 13 then [CHR 0x5C, CHR ''r'']
      else if n = 9 then [CHR 0x5C, CHR ''t'']
      else if n < 32 \<or> 127 \<le> n \<and> n \<le> 160 \<or> n = 173
      then [CHR 0x5C, CHR ''x'', hex_char (n div 16), hex_char (n mod 16)]
      else [c])"

definition py_repr :: "string \<Rightarrow> string" where
  "py_repr s =
     (let quote = (if CHR 0x27 \<in> set s \<and> CHR 0x22 \<notin> set s then CHR 0x22 else CHR 0x27) in
      [quote] @ concat (map (repr_char quote) s) @ [quote])"

fun repr_items :: "string list \<Rightarrow> string" where
  "repr_items [] = []"
| "repr_items [x] = py_repr x"
| "repr_items (x # y # ys) = py_repr x @ '', '' @ repr_items (y # ys)"

definition news_rationale :: "news_signal \<Rightarrow> string \<Rightarrow> string" where
  "news_rationale news rationale =
     take 2000 (''[news_override] [E7-NEWS-OVERRIDE] credible_negative_event=True mcs_delta='' @
       fmt3 (nw_mcs_delta news) @ '' red_flags=['' @ repr_items (nw_red_flags news) @
       ''] [QUOTED-UNTRUSTED-HEADLINE-DIGEST] '' @ take 300 (nw_headline_digest news) @
       '' | [llm_original_rationale-QUOTED-UNTRUSTED] '' @ rationale)"

definition news_override :: "news_signal \<Rightarrow> bool \<Rightarrow> llm_raw_verdict \<Rightarrow> llm_raw_verdict result" where
  "news_override news is_open raw =
     (if nw_credible_negative_event news
      then mk_LLMRawVerdict
        \<lparr>rv_decision_signal = rv_decision_signal raw, rv_confidence = rv_confidence raw, rv_veto = True,
         rv_narrative_failure = (rv_narrative_failure raw \<or> is_open),
         rv_rationale = news_rationale news (rv_rationale raw)\<rparr>
      else Inr raw)"

definition adjudicate_with_news ::
    "(reasoner_prompt \<Rightarrow> string) \<Rightarrow> llm_router \<Rightarrow> prompt_inputs \<Rightarrow> news_signal \<Rightarrow>
     llm_router \<times> reasoner_output result" where
  "adjudicate_with_news prompt_hash r inputs news =
     (case prepared inputs of
        Inl e \<Rightarrow> (r, Inl e)
      | Inr (key, prompt) \<Rightarrow>
          (case route r prompt key of (r', routed) \<Rightarrow>
           (r', rbind routed (\<lambda>ro. rbind (news_override news (pi_position_is_open inputs) (ro_raw ro)) (\<lambda>raw.
                  finalize inputs raw (ro_tier ro) (ro_backend_id ro) (prompt_hash prompt) (ro_cache_hit ro))))))"

subsection \<open>The strongest demand wins\<close>

lemma combine_max: "combine_clamp_and_matrix a b = max a b"
  by (auto simp: combine_clamp_and_matrix_def max_def less_eq_reasoning_action_def derisk_strength_inject)

lemma clamp_max:
  "cl_action (clamp_to_derisk_action q signal veto nf raw is_open) =
     max (llm_requested_derisk signal veto nf is_open) (quant_to_action_ceiling q)"
  by (auto simp: clamp_to_derisk_action_def Let_def max_def less_eq_reasoning_action_def
      simp flip: derisk_strength_inject)

text \<open>What the verdict of the model, the quantitative bucket and the matrix demand together.\<close>

definition demanded :: "quant_bucket \<Rightarrow> sentiment_risk \<Rightarrow> bool \<Rightarrow> llm_raw_verdict \<Rightarrow> reasoning_action" where
  "demanded q sentiment is_open raw =
     max (max (llm_requested_derisk (rv_decision_signal raw) (rv_veto raw) (rv_narrative_failure raw) is_open)
           (quant_to_action_ceiling q))
       (floor_action (evaluate_matrix q (rv_decision_signal raw) (rv_veto raw) (rv_narrative_failure raw)
         sentiment is_open))"

text \<open>What the market state alone demands, whatever the model says.\<close>

definition state_floor :: "quant_bucket \<Rightarrow> sentiment_risk \<Rightarrow> bool \<Rightarrow> reasoning_action" where
  "state_floor q sentiment is_open =
     (if q = BEARISH \<or> sentiment = MANUFACTURED then (if is_open then REDUCE_SIZE else VETO_ENTRY) else HOLD)"

lemma state_floor_le: "state_floor q sentiment is_open \<le> demanded q sentiment is_open raw"
proof -
  have "state_floor q sentiment is_open \<le> floor_action
    (evaluate_matrix q (rv_decision_signal raw) (rv_veto raw) (rv_narrative_failure raw) sentiment is_open)"
    by (simp add: state_floor_def evaluate_matrix_def Let_def less_eq_reasoning_action_def)
  then show ?thesis by (simp add: demanded_def le_max_iff_disj)
qed

lemma narrative_failure_demand:
  "rv_narrative_failure raw \<Longrightarrow> demanded q sentiment is_open raw = (if is_open then FORCE_EXIT else VETO_ENTRY)"
  by (cases q)
    (auto simp: demanded_def evaluate_matrix_def llm_requested_derisk_def quant_to_action_ceiling_def max_def action_order)

lemma veto_demand:
  "rv_veto raw \<Longrightarrow> \<not> rv_narrative_failure raw \<Longrightarrow>
   demanded q sentiment is_open raw = (if is_open then REDUCE_SIZE else VETO_ENTRY)"
  by (cases q)
    (auto simp: demanded_def evaluate_matrix_def llm_requested_derisk_def quant_to_action_ceiling_def
      llm_is_bearish_or_veto_def max_def action_order Let_def)

lemma sell_demand:
  "\<not> rv_veto raw \<Longrightarrow> rv_decision_signal raw \<in> {SELL, STRONG_SELL} \<Longrightarrow>
   demanded q sentiment is_open raw = (if is_open then FORCE_EXIT else VETO_ENTRY)"
  by (cases q)
    (auto simp: demanded_def evaluate_matrix_def llm_requested_derisk_def quant_to_action_ceiling_def
      llm_is_bearish_or_veto_def max_def action_order Let_def)

text \<open>The intent of an action, and that it only sheds risk.\<close>

definition intent_matches :: "reasoning_action \<Rightarrow> mint \<Rightarrow> intent option \<Rightarrow> bool" where
  "intent_matches action m x =
     (case action of
        HOLD \<Rightarrow> x = None
      | VETO_ENTRY \<Rightarrow> (\<exists>i. x = Some (Veto i) \<and> vt_mint i = m)
      | REDUCE_SIZE \<Rightarrow> (\<exists>i. x = Some (Reduce i) \<and> rd_mint i = m \<and> rd_fraction_bps i = 5000)
      | FORCE_EXIT \<Rightarrow> (\<exists>i. x = Some (Exit i) \<and> ex_mint i = m \<and> ex_fraction_bps i = 10000 \<and> ex_exit_mode i = Secure))"

lemma build_intent_total: "\<exists>x. build_intent action m et why = Inr x \<and> intent_matches action m x"
  by (cases action)
    (simp_all add: build_intent_def Let_def intent_matches_def factory_veto_def factory_reduce_def
      factory_exit_def mk_ReduceIntent_def mk_ExitIntent_def)

lemma intent_matches_derisk: "intent_matches action m (Some x) \<Longrightarrow> derisk_intent x"
  by (auto simp: intent_matches_def split: reasoning_action.splits)

definition sentiment_of :: "prompt_inputs \<Rightarrow> sentiment_risk" where
  "sentiment_of inputs =
     bucket_sentiment (mc_conviction (pi_mcs inputs)) (mc_synchronicity (pi_mcs inputs))
       (mc_account_age_median_days (pi_mcs inputs)) (mc_coordinated_shill_flag (pi_mcs inputs))"

definition output_for :: "prompt_inputs \<Rightarrow> reasoning_action \<Rightarrow> reasoner_output \<Rightarrow> bool" where
  "output_for inputs action out \<longleftrightarrow>
     vd_action (rs_verdict out) = action \<and> vd_mint (rs_verdict out) = sg_mint (pi_decision_signal inputs) \<and>
     intent_matches action (sg_mint (pi_decision_signal inputs)) (rs_intent out)"

lemma finalize_strongest:
  assumes "bucket_quant (p_calibrated (pi_decision_signal inputs)) (uncertainty (pi_decision_signal inputs)) = Inr q"
    and "in_unit (rv_confidence raw)"
  shows "\<exists>out. finalize inputs raw tier backend hash hit = Inr out \<and> rs_route_tier out = tier \<and>
    output_for inputs (demanded q (sentiment_of inputs) (pi_position_is_open inputs) raw) out"
proof -
  let ?a = "demanded q (sentiment_of inputs) (pi_position_is_open inputs) raw"
  let ?m = "sg_mint (pi_decision_signal inputs)"
  obtain f where f: "\<And>why. build_intent ?a ?m (sg_event_time (pi_decision_signal inputs)) why = Inr (f why)"
    "\<And>why. intent_matches ?a ?m (f why)"
    using build_intent_total by metis
  have a: "combine_clamp_and_matrix
      (cl_action (clamp_to_derisk_action q (rv_decision_signal raw) (rv_veto raw) (rv_narrative_failure raw) t
         (pi_position_is_open inputs)))
      (floor_action (evaluate_matrix q (rv_decision_signal raw) (rv_veto raw) (rv_narrative_failure raw)
         (sentiment_of inputs) (pi_position_is_open inputs))) = ?a" for t
    by (simp add: combine_max clamp_max demanded_def)
  show ?thesis
    unfolding finalize_def Let_def assms(1) rbind_Inr sentiment_of_def [symmetric] a
    using assms(2) f by (simp add: mk_ReasoningVerdict_def output_for_def)
qed

subsection \<open>Sources of verdicts\<close>

text \<open>
  A backend returns a validated verdict or raises; a router is well formed when its backends are
  and every cached verdict is valid. Inputs are valid when both parts describe the same instant
  and the probabilities are in the unit interval.
\<close>

definition backend_ok :: "llm_backend \<Rightarrow> bool" where
  "backend_ok b \<longleftrightarrow>
     (\<forall>prompt t k v e. backend_reason b prompt t k = Replied v e \<longrightarrow> in_unit (rv_confidence v))"

definition router_ok :: "llm_router \<Rightarrow> bool" where
  "router_ok r \<longleftrightarrow>
     backend_ok (lr_local r) \<and> (\<forall>b. lr_frontier r = Some b \<longrightarrow> backend_ok b) \<and>
     (\<forall>key v. cache_lookup r key = Some v \<longrightarrow> in_unit (rv_confidence v))"

definition inputs_ok :: "prompt_inputs \<Rightarrow> bool" where
  "inputs_ok inputs \<longleftrightarrow>
     assert_point_in_time inputs = Inr () \<and> in_unit (p_calibrated (pi_decision_signal inputs)) \<and>
     in_unit (uncertainty (pi_decision_signal inputs))"

definition quant_of :: "prompt_inputs \<Rightarrow> quant_bucket result" where
  "quant_of inputs = bucket_quant (p_calibrated (pi_decision_signal inputs)) (uncertainty (pi_decision_signal inputs))"

lemma prepared_invalid: "\<not> inputs_ok inputs \<Longrightarrow> prepared inputs = Inl ValueError"
  by (auto simp: prepared_def inputs_ok_def assert_point_in_time_def bucket_key_def bucket_quant_def in_unit_def
      Let_def)

lemma bucket_quant_total: "in_unit p \<Longrightarrow> in_unit u \<Longrightarrow> \<exists>q. bucket_quant p u = Inr q"
  by (simp add: bucket_quant_def in_unit_def)

lemma prepared_valid:
  assumes "inputs_ok inputs"
  obtains key prompt where "prepared inputs = Inr (key, prompt)" "bucket_key inputs = Inr key"
proof -
  obtain q where "bucket_quant (p_calibrated (pi_decision_signal inputs)) (uncertainty (pi_decision_signal inputs)) = Inr q"
    using assms bucket_quant_total by (auto simp: inputs_ok_def)
  with assms that show thesis
    by (simp add: prepared_def inputs_ok_def bucket_key_def build_reasoner_prompt_def Let_def)
qed

lemma bucket_key_fields:
  "bucket_key inputs = Inr key \<Longrightarrow> quant_of inputs = Inr (bk_quant key) \<and> bk_sentiment key = sentiment_of inputs \<and>
     bk_position_is_open key = pi_position_is_open inputs"
  by (auto simp: bucket_key_def quant_of_def sentiment_of_def Let_def result_simps)

lemma backend_okD: "backend_ok b \<Longrightarrow> backend_reason b prompt t k = Replied v e \<Longrightarrow> in_unit (rv_confidence v)"
  unfolding backend_ok_def by blast

lemma retry_loop_valid: "backend_ok b \<Longrightarrow> retry_loop r b prompt ks = Some v \<Longrightarrow> in_unit (rv_confidence v)"
  by (induction ks) (auto dest: backend_okD split: backend_reply.splits)

lemma fallback_routed_valid:
  "\<exists>ro. fallback_routed why b t = Inr ro \<and> in_unit (rv_confidence (ro_raw ro)) \<and> ro_tier ro = FALLBACK \<and>
     rv_veto (ro_raw ro) \<and> \<not> rv_narrative_failure (ro_raw ro)"
  by (simp add: fallback_routed_def conservative_fallback_verdict_def mk_LLMRawVerdict_def in_unit_def)

lemma cache_lookup_store [simp]:
  "cache_lookup (cache_store r key v) key' = (if key' = key then Some v else cache_lookup r key')"
  by (simp add: cache_lookup_def cache_store_def)

lemma router_ok_store: "router_ok r \<Longrightarrow> in_unit (rv_confidence v) \<Longrightarrow> router_ok (cache_store r key v)"
  by (auto simp: router_ok_def) (simp_all add: cache_store_def)

text \<open>
  What the reasoner relies on from its router: an answer always comes, is a valid verdict and keeps
  the router well formed; a cached key is answered from the cache; a cached verdict stays.
\<close>

locale verdict_source =
  fixes ask :: "llm_router \<Rightarrow> reasoner_prompt \<Rightarrow> signal_bucket_key \<Rightarrow> llm_router \<times> routed_verdict result"
  assumes ask_valid: "router_ok r \<Longrightarrow> router_ok (fst (ask r prompt key)) \<and>
      (\<exists>ro. snd (ask r prompt key) = Inr ro \<and> in_unit (rv_confidence (ro_raw ro)) \<and>
        (ro_tier ro \<noteq> FALLBACK \<longrightarrow> cache_lookup (fst (ask r prompt key)) key = Some (ro_raw ro)))"
    and ask_cached: "cache_lookup r key = Some v \<Longrightarrow> fst (ask r prompt key) = r \<and>
      (\<exists>ro. snd (ask r prompt key) = Inr ro \<and> ro_raw ro = v)"
    and ask_keeps: "router_ok r \<Longrightarrow> cache_lookup r key' = Some v \<Longrightarrow> cache_lookup (fst (ask r prompt key)) key' = Some v"
begin

definition consult ::
    "(reasoner_prompt \<Rightarrow> string) \<Rightarrow> (llm_raw_verdict \<Rightarrow> llm_raw_verdict result) \<Rightarrow> llm_router \<Rightarrow> prompt_inputs \<Rightarrow>
     llm_router \<times> reasoner_output result" where
  "consult prompt_hash override r inputs =
     (case prepared inputs of
        Inl e \<Rightarrow> (r, Inl e)
      | Inr (key, prompt) \<Rightarrow>
          (case ask r prompt key of (r', routed) \<Rightarrow>
           (r', rbind routed (\<lambda>ro. rbind (override (ro_raw ro)) (\<lambda>raw.
                  finalize inputs raw (ro_tier ro) (ro_backend_id ro) (prompt_hash prompt) (ro_cache_hit ro))))))"

lemma consult_invalid: "\<not> inputs_ok inputs \<Longrightarrow> consult h f r inputs = (r, Inl ValueError)"
  by (simp add: consult_def prepared_invalid)

lemma consult_keeps:
  "router_ok r \<Longrightarrow> cache_lookup r key = Some v \<Longrightarrow> cache_lookup (fst (consult h f r inputs)) key = Some v"
  by (auto simp: consult_def ask_keeps case_prod_beta split: sum.split)

lemma consult_valid:
  assumes "router_ok r" and "inputs_ok inputs" and "bucket_key inputs = Inr key"
    and "\<And>raw. in_unit (rv_confidence raw) \<Longrightarrow> \<exists>raw'. f raw = Inr raw' \<and> in_unit (rv_confidence raw')"
  shows "\<exists>r' out raw raw'. consult h f r inputs = (r', Inr out) \<and> router_ok r' \<and> f raw = Inr raw' \<and>
    (rs_route_tier out \<noteq> FALLBACK \<longrightarrow> cache_lookup r' key = Some raw) \<and>
    (\<forall>v. cache_lookup r key = Some v \<longrightarrow> raw = v \<and> r' = r) \<and>
    output_for inputs (demanded (bk_quant key) (bk_sentiment key) (bk_position_is_open key) raw') out"
proof -
  from assms(2,3) obtain prompt where p: "prepared inputs = Inr (key, prompt)"
    by (metis prepared_valid sum.inject(2))
  let ?a = "ask r prompt key"
  from ask_valid [OF assms(1), of prompt key] obtain ro where
    ro: "snd ?a = Inr ro" "in_unit (rv_confidence (ro_raw ro))" "router_ok (fst ?a)"
      "ro_tier ro \<noteq> FALLBACK \<longrightarrow> cache_lookup (fst ?a) key = Some (ro_raw ro)" by blast
  from assms(4) [OF ro(2)] obtain raw' where raw': "f (ro_raw ro) = Inr raw'" "in_unit (rv_confidence raw')" by blast
  note key = bucket_key_fields [OF assms(3)]
  from finalize_strongest [OF _ raw'(2), of inputs "bk_quant key" "ro_tier ro" "ro_backend_id ro" "h prompt" "ro_cache_hit ro"]
  obtain out where out: "finalize inputs raw' (ro_tier ro) (ro_backend_id ro) (h prompt) (ro_cache_hit ro) = Inr out"
    "rs_route_tier out = ro_tier ro"
    "output_for inputs (demanded (bk_quant key) (bk_sentiment key) (bk_position_is_open key) raw') out"
    using key by (auto simp: quant_of_def)
  have "consult h f r inputs = (fst ?a, Inr out)"
    by (simp add: consult_def p case_prod_beta ro(1) raw'(1) out(1))
  moreover have "\<forall>v. cache_lookup r key = Some v \<longrightarrow> ro_raw ro = v \<and> fst ?a = r"
    using ask_cached [of r key _ prompt] ro(1) by auto
  ultimately show ?thesis using ro(3,4) raw'(1) out(2,3) by metis
qed

end

text \<open>The two ways in which a miss is answered: a stored verdict, or the fallback.\<close>

definition answered :: "llm_router \<Rightarrow> signal_bucket_key \<Rightarrow> llm_router \<times> routed_verdict result \<Rightarrow> bool" where
  "answered r key x \<longleftrightarrow>
     (\<exists>ro. x = (cache_store r key (ro_raw ro), Inr ro) \<and> in_unit (rv_confidence (ro_raw ro))) \<or>
     (\<exists>why b t. x = (r, fallback_routed why b t))"

lemma answered_valid:
  assumes "answered r key x" and "router_ok r"
  shows "router_ok (fst x) \<and> (\<exists>ro. snd x = Inr ro \<and> in_unit (rv_confidence (ro_raw ro)) \<and>
    (ro_tier ro \<noteq> FALLBACK \<longrightarrow> cache_lookup (fst x) key = Some (ro_raw ro)))"
  using assms(1) unfolding answered_def
proof
  assume "\<exists>ro. x = (cache_store r key (ro_raw ro), Inr ro) \<and> in_unit (rv_confidence (ro_raw ro))"
  with assms(2) show ?thesis by (auto intro: router_ok_store)
next
  assume "\<exists>why b t. x = (r, fallback_routed why b t)"
  then obtain why b t where "x = (r, fallback_routed why b t)" by blast
  with fallback_routed_valid [of why b t] assms(2) show ?thesis by auto
qed

lemma answered_keeps:
  "answered r key x \<Longrightarrow> cache_lookup r key = None \<Longrightarrow> cache_lookup r key' = Some v \<Longrightarrow>
   cache_lookup (fst x) key' = Some v"
  by (auto simp: answered_def)

lemma route_answered:
  assumes "router_ok r" and "cache_lookup r key = None"
  shows "answered r key (route r prompt key)"
proof -
  let ?b = "if lr_frontier r \<noteq> None \<and> should_escalate key then the (lr_frontier r) else lr_local r"
  have b: "backend_ok ?b" using assms(1) by (auto simp: router_ok_def)
  show ?thesis
  proof (cases "call_with_retries r ?b prompt")
    case None
    then have "route r prompt key = (r, fallback_routed ''route: backend error/invalid after retries'' ?b False)"
      using assms(2) by (simp only: route_def Let_def option.case)
    then show ?thesis unfolding answered_def by blast
  next
    case (Some v)
    then have "route r prompt key = (cache_store r key v,
        Inr \<lparr>ro_raw = v, ro_tier = (if lr_frontier r \<noteq> None \<and> should_escalate key then FRONTIER else LOCAL),
             ro_backend_id = backend_id ?b, ro_cache_hit = False, ro_timed_out = False\<rparr>)"
      using assms(2) by (simp only: route_def Let_def option.case)
    moreover have "in_unit (rv_confidence v)"
      using retry_loop_valid [OF b] Some by (simp only: call_with_retries_def)
    ultimately show ?thesis by (auto simp: answered_def)
  qed
qed

lemma fast_path_answered:
  assumes "router_ok r" and "cache_lookup r key = None"
  shows "answered r key (fast_path_veto r prompt key)"
proof -
  have b: "backend_ok (lr_local r)" using assms(1) by (simp add: router_ok_def)
  show ?thesis
  proof (cases "backend_reason (lr_local r) prompt (lr_temperature r) 0")
    case (Replied v e)
    with assms(2) backend_okD [OF b Replied] show ?thesis
      by (auto simp: answered_def fast_path_veto_def call_with_budget_def)
  next
    case Backend_raised
    with assms(2) show ?thesis by (auto simp: answered_def fast_path_veto_def call_with_budget_def)
  qed
qed

lemma route_hit:
  "cache_lookup r key = Some v \<Longrightarrow> \<exists>ro. route r prompt key = (r, Inr ro) \<and> ro_raw ro = v"
  by (simp add: route_def)

lemma fast_path_hit:
  "cache_lookup r key = Some v \<Longrightarrow> \<exists>ro. fast_path_veto r prompt key = (r, Inr ro) \<and> ro_raw ro = v"
  by (simp add: fast_path_veto_def)

text \<open>A source that answers hits from the cache and misses in one of those two ways.\<close>

lemma verdict_source_intro:
  assumes "\<And>r prompt key v. cache_lookup r key = Some v \<Longrightarrow> \<exists>ro. ask r prompt key = (r, Inr ro) \<and> ro_raw ro = v"
    and "\<And>r prompt key. router_ok r \<Longrightarrow> cache_lookup r key = None \<Longrightarrow> answered r key (ask r prompt key)"
  shows "verdict_source ask"
proof
  fix r prompt key
  assume ok: "router_ok r"
  show "router_ok (fst (ask r prompt key)) \<and>
      (\<exists>ro. snd (ask r prompt key) = Inr ro \<and> in_unit (rv_confidence (ro_raw ro)) \<and>
        (ro_tier ro \<noteq> FALLBACK \<longrightarrow> cache_lookup (fst (ask r prompt key)) key = Some (ro_raw ro)))"
  proof (cases "cache_lookup r key")
    case None
    from answered_valid [OF assms(2) [OF ok None] ok] show ?thesis .
  next
    case (Some v)
    with assms(1) [OF Some, of prompt] ok show ?thesis by (auto simp: router_ok_def)
  qed
  show "cache_lookup (fst (ask r prompt key)) key' = Some v" if "cache_lookup r key' = Some v" for key' v
    using answered_keeps [OF assms(2) [OF ok] _ that] assms(1) [of r key _ prompt] that
    by (cases "cache_lookup r key") auto
next
  fix r prompt key v
  assume "cache_lookup r key = Some v"
  from assms(1) [OF this, of prompt]
  show "fst (ask r prompt key) = r \<and> (\<exists>ro. snd (ask r prompt key) = Inr ro \<and> ro_raw ro = v)" by auto
qed

interpretation routed: verdict_source route
  by (rule verdict_source_intro [OF route_hit route_answered])

interpretation fast_routed: verdict_source fast_path_veto
  by (rule verdict_source_intro [OF fast_path_hit fast_path_answered])

lemma adjudicate_consults: "adjudicate h r inputs = routed.consult h Inr r inputs"
  by (simp add: adjudicate_def routed.consult_def split: sum.split prod.split)

lemma news_consults:
  "adjudicate_with_news h r inputs news = routed.consult h (news_override news (pi_position_is_open inputs)) r inputs"
  by (simp add: adjudicate_with_news_def routed.consult_def)

lemma fast_veto_consults: "fast_veto h r inputs = fast_routed.consult h Inr r inputs"
  by (simp add: fast_veto_def fast_routed.consult_def split: sum.split prod.split)

lemma news_override_valid:
  "in_unit (rv_confidence raw) \<Longrightarrow> \<exists>raw'. news_override news is_open raw = Inr raw' \<and> in_unit (rv_confidence raw')"
  by (simp add: news_override_def mk_LLMRawVerdict_def)

lemma news_override_demand:
  assumes "news_override news is_open raw = Inr raw'" and "nw_credible_negative_event news"
  shows "demanded q sentiment is_open raw' = (if is_open then FORCE_EXIT else VETO_ENTRY)"
proof (cases is_open)
  case True
  then show ?thesis
    using assms by (intro narrative_failure_demand [THEN trans]) (auto simp: news_override_def mk_LLMRawVerdict_def split: if_splits)
next
  case False
  then show ?thesis
    using assms narrative_failure_demand [of raw' q sentiment is_open] veto_demand [of raw' q sentiment is_open]
    by (cases "rv_narrative_failure raw'") (auto simp: news_override_def mk_LLMRawVerdict_def split: if_splits)
qed

subsection \<open>Runs of the reasoner\<close>

datatype reasoner_call = Adjudicate | Adjudicate_with_news news_signal | Fast_veto

fun reasoner_step ::
    "(reasoner_prompt \<Rightarrow> string) \<Rightarrow> llm_router \<Rightarrow> reasoner_call \<Rightarrow> prompt_inputs \<Rightarrow> llm_router \<times> reasoner_output result" where
  "reasoner_step h r Adjudicate inputs = adjudicate h r inputs"
| "reasoner_step h r (Adjudicate_with_news news) inputs = adjudicate_with_news h r inputs news"
| "reasoner_step h r Fast_veto inputs = fast_veto h r inputs"

fun reasoner_run ::
    "(reasoner_prompt \<Rightarrow> string) \<Rightarrow> llm_router \<Rightarrow> (reasoner_call \<times> prompt_inputs) list \<Rightarrow>
     llm_router \<times> reasoner_output result list" where
  "reasoner_run h r [] = (r, [])"
| "reasoner_run h r ((call, inputs) # calls) =
     (let (r1, out) = reasoner_step h r call inputs; (r2, outs) = reasoner_run h r1 calls in (r2, out # outs))"

lemma reasoner_step_invalid: "\<not> inputs_ok inputs \<Longrightarrow> reasoner_step h r call inputs = (r, Inl ValueError)"
  by (cases call)
    (simp_all add: adjudicate_consults news_consults fast_veto_consults routed.consult_invalid
      fast_routed.consult_invalid)

lemma reasoner_step_valid:
  assumes "router_ok r" and "inputs_ok inputs" and "bucket_key inputs = Inr key"
  shows "\<exists>r' out raw raw'. reasoner_step h r call inputs = (r', Inr out) \<and> router_ok r' \<and>
    (rs_route_tier out \<noteq> FALLBACK \<longrightarrow> cache_lookup r' key = Some raw) \<and>
    (\<forall>v. cache_lookup r key = Some v \<longrightarrow> raw = v \<and> r' = r) \<and>
    (case call of Adjudicate_with_news news \<Rightarrow> news_override news (pi_position_is_open inputs) raw = Inr raw'
       | _ \<Rightarrow> raw' = raw) \<and>
    output_for inputs (demanded (bk_quant key) (bk_sentiment key) (bk_position_is_open key) raw') out"
proof (cases call)
  case Adjudicate
  with routed.consult_valid [OF assms, of Inr h] show ?thesis by (auto simp: adjudicate_consults)
next
  case (Adjudicate_with_news news)
  with routed.consult_valid [OF assms, of "news_override news (pi_position_is_open inputs)" h]
    news_override_valid [of _ news "pi_position_is_open inputs"]
  show ?thesis by (simp add: news_consults) blast
next
  case Fast_veto
  with fast_routed.consult_valid [OF assms, of Inr h] show ?thesis by (auto simp: fast_veto_consults)
qed

lemma reasoner_step_ok: "router_ok r \<Longrightarrow> router_ok (fst (reasoner_step h r call inputs))"
  by (cases "inputs_ok inputs")
    (metis prepared_valid reasoner_step_valid fst_conv, simp add: reasoner_step_invalid)

lemma reasoner_step_keeps:
  "router_ok r \<Longrightarrow> cache_lookup r key = Some v \<Longrightarrow> cache_lookup (fst (reasoner_step h r call inputs)) key = Some v"
  by (cases call)
    (simp_all add: adjudicate_consults news_consults fast_veto_consults routed.consult_keeps fast_routed.consult_keeps)

lemma reasoner_run_ok: "router_ok r \<Longrightarrow> router_ok (fst (reasoner_run h r calls))"
proof (induction calls arbitrary: r)
  case (Cons c calls)
  then show ?case
    using reasoner_step_ok [of r h "fst c" "snd c"] by (cases c) (simp add: Let_def case_prod_beta)
qed simp

lemma reasoner_run_keeps:
  "router_ok r \<Longrightarrow> cache_lookup r key = Some v \<Longrightarrow> cache_lookup (fst (reasoner_run h r calls)) key = Some v"
proof (induction calls arbitrary: r)
  case (Cons c calls)
  then show ?case
    using reasoner_step_ok [of r h "fst c" "snd c"] reasoner_step_keeps [of r key v h "fst c" "snd c"]
    by (cases c) (simp add: Let_def case_prod_beta)
qed simp

lemma reasoner_run_nth:
  "router_ok r \<Longrightarrow> reasoner_run h r calls = (r', outs) \<Longrightarrow> i < length calls \<Longrightarrow> calls ! i = (call, inputs) \<Longrightarrow>
   i < length outs \<and> (\<exists>r0. router_ok r0 \<and> outs ! i = snd (reasoner_step h r0 call inputs))"
proof (induction calls arbitrary: r outs i)
  case (Cons c calls)
  obtain call' inputs' where c: "c = (call', inputs')" by (cases c)
  let ?s = "reasoner_step h r call' inputs'"
  obtain outs' where o: "reasoner_run h (fst ?s) calls = (r', outs')" "outs = snd ?s # outs'"
    using Cons.prems(2) c by (auto simp: Let_def split: prod.splits)
  have ok: "router_ok (fst ?s)" using Cons.prems(1) by (rule reasoner_step_ok)
  show ?case
  proof (cases i)
    case 0
    with Cons.prems(1,4) c o show ?thesis by auto
  next
    case (Suc j)
    with Cons.IH [OF ok o(1), of j] Cons.prems(3,4) o(2) show ?thesis by simp
  qed
qed simp

lemma new_router_ok:
  "backend_ok loc \<Longrightarrow> (\<And>b. front = Some b \<Longrightarrow> backend_ok b) \<Longrightarrow> router_ok (new_LLMRouter loc front budget retries temp)"
  by (auto simp: router_ok_def new_LLMRouter_def cache_lookup_def)

lemma step_derisks:
  assumes "router_ok r" and "inputs_ok inputs"
  shows "\<exists>out q. snd (reasoner_step h r call inputs) = Inr out \<and> quant_of inputs = Inr q \<and>
    intent_matches (vd_action (rs_verdict out)) (sg_mint (pi_decision_signal inputs)) (rs_intent out) \<and>
    state_floor q (sentiment_of inputs) (pi_position_is_open inputs) \<le> vd_action (rs_verdict out) \<and>
    (\<forall>news. call = Adjudicate_with_news news \<and> nw_credible_negative_event news \<longrightarrow>
       vd_action (rs_verdict out) = (if pi_position_is_open inputs then FORCE_EXIT else VETO_ENTRY))"
proof -
  obtain key where key: "bucket_key inputs = Inr key" using prepared_valid [OF assms(2)] by metis
  note f = bucket_key_fields [OF key]
  from reasoner_step_valid [OF assms key, of h call] obtain r' out raw raw' where
    s: "reasoner_step h r call inputs = (r', Inr out)"
      "case call of Adjudicate_with_news news \<Rightarrow> news_override news (pi_position_is_open inputs) raw = Inr raw'
         | _ \<Rightarrow> raw' = raw"
      "output_for inputs (demanded (bk_quant key) (bk_sentiment key) (bk_position_is_open key) raw') out" by blast
  have "vd_action (rs_verdict out) = (if pi_position_is_open inputs then FORCE_EXIT else VETO_ENTRY)"
    if "call = Adjudicate_with_news news" "nw_credible_negative_event news" for news
    using news_override_demand [of news "pi_position_is_open inputs" raw raw' "bk_quant key" "bk_sentiment key"]
      s(2,3) that f by (simp add: output_for_def)
  with s f state_floor_le [of "bk_quant key" "bk_sentiment key" "bk_position_is_open key" raw'] show ?thesis
    by (intro exI [of _ out] exI [of _ "bk_quant key"]) (auto simp: output_for_def)
qed


text \<open>A model that always answers \<open>Strong Buy\<close>, and a bearish signal on manufactured sentiment.\<close>

definition demo_backend :: llm_backend where
  "demo_backend =
     \<lparr>backend_id = ''mock'', backend_reason = (\<lambda>_ _ _. Replied
        \<lparr>rv_decision_signal = STRONG_BUY, rv_confidence = 1, rv_veto = False, rv_narrative_failure = False,
         rv_rationale = []\<rparr> 5)\<rparr>"

definition demo_inputs :: "mint \<Rightarrow> rat \<Rightarrow> bool \<Rightarrow> bool \<Rightarrow> prompt_inputs" where
  "demo_inputs m p shill is_open =
     \<lparr>pi_decision_signal = \<lparr>sg_mint = m, p_calibrated = p, uncertainty = 0, surface = ''pump'',
        sg_event_time = \<lparr>slot = 1, block_time_ms = 1000, wall_clock_ms = 1000\<rparr>,
        sg_model_version = ''v'', baseline_p = 1\<rparr>,
      pi_mcs = \<lparr>mc_asset = m, mc_event_time = \<lparr>slot = 1, block_time_ms = 1000, wall_clock_ms = 1000\<rparr>,
        mc_conviction = 1, mc_momentum = 1, mc_novelty = 1, mc_synchronicity = 0,
        mc_account_age_median_days = 100, mc_coordinated_shill_flag = shill, mc_red_flags = [],
        mc_post_count = 1, mc_reasoning = []\<rparr>,
      pi_total_cost_bps = 100, pi_expected_edge_bps = 200, pi_position_is_open = is_open\<rparr>"

lemma demo_backend_ok: "backend_ok demo_backend"
  by (simp add: backend_ok_def demo_backend_def in_unit_def)

lemma demo_inputs_ok: "in_unit p \<Longrightarrow> inputs_ok (demo_inputs m p shill is_open)"
  by (simp add: inputs_ok_def demo_inputs_def assert_point_in_time_def in_unit_def)

lemma demo_sentiment: "sentiment_of (demo_inputs m p True is_open) = MANUFACTURED"
  by (simp add: sentiment_of_def demo_inputs_def bucket_sentiment_def)


lemma run_from_cached:
  assumes "router_ok r" and "inputs_ok inputs" and "bucket_key inputs = Inr key" and "cache_lookup r key = Some v"
  shows "\<exists>out. adjudicate h (fst (reasoner_run h r calls)) inputs = (fst (reasoner_run h r calls), Inr out) \<and>
    output_for inputs (demanded (bk_quant key) (bk_sentiment key) (bk_position_is_open key) v) out"
proof -
  let ?r = "fst (reasoner_run h r calls)"
  have "router_ok ?r" "cache_lookup ?r key = Some v"
    using reasoner_run_ok [OF assms(1)] reasoner_run_keeps [OF assms(1,4)] by simp_all
  with reasoner_step_valid [OF this(1) assms(2,3), of h Adjudicate] show ?thesis by auto
qed

text \<open>
  The first answer for a bucket is final. When an adjudication has been answered by a backend
  (no fallback), then after any further calls every adjudication in the same bucket, for any mint,
  narrative and time, applies the same action without consulting a backend: the cache has no
  expiry and its key has no mint.
\<close>

theorem bucket_verdict_is_final:
  assumes "router_ok r" and "adjudicate h r inputs = (r1, Inr out1)" and "inputs_ok inputs"
    and "rs_route_tier out1 \<noteq> FALLBACK"
    and "reasoner_run h r1 calls = (r2, outs)" and "inputs_ok inputs'" and "bucket_key inputs' = bucket_key inputs"
  shows "\<exists>out2. adjudicate h r2 inputs' = (r2, Inr out2) \<and>
    vd_action (rs_verdict out2) = vd_action (rs_verdict out1) \<and>
    vd_mint (rs_verdict out2) = sg_mint (pi_decision_signal inputs')"
proof -
  obtain key where key: "bucket_key inputs = Inr key" using prepared_valid [OF assms(3)] by metis
  from reasoner_step_valid [OF assms(1,3) key, of h Adjudicate] assms(2,4) obtain raw where
    raw: "router_ok r1" "cache_lookup r1 key = Some raw"
      "output_for inputs (demanded (bk_quant key) (bk_sentiment key) (bk_position_is_open key) raw) out1" by auto
  from run_from_cached [OF raw(1) assms(6) _ raw(2), of h calls] assms(5,7) key raw(3) show ?thesis
    by (auto simp: output_for_def)
qed

lemma demo_adjudicate:
  "\<exists>r1 out1. adjudicate (\<lambda>_. []) (new_LLMRouter demo_backend None 200 1 0) (demo_inputs ''a'' 1 False True) = (r1, Inr out1) \<and>
     rs_route_tier out1 \<noteq> FALLBACK"
proof -
  have b: "QUANT_BULLISH_P \<le> 1 \<and> 0 \<le> UNCERTAINTY_DERISK_BAND"
    unfolding QUANT_BULLISH_P_def UNCERTAINTY_DERISK_BAND_def by code_simp
  show ?thesis
    by (simp add: adjudicate_def prepared_def demo_inputs_def assert_point_in_time_def bucket_key_def
        bucket_quant_def b build_reasoner_prompt_def route_def new_LLMRouter_def cache_lookup_def call_with_retries_def
        demo_backend_def upt_rec finalize_def mk_ReasoningVerdict_def in_unit_def Let_def)
      (auto simp: build_intent_def Let_def factory_veto_def factory_reduce_def factory_exit_def mk_ReduceIntent_def
        mk_ExitIntent_def split: reasoning_action.split)
qed

theorem bucket_verdict_is_final_witness:
  "\<exists>r1 out1 out2.
     adjudicate (\<lambda>_. []) (new_LLMRouter demo_backend None 200 1 0) (demo_inputs ''a'' 1 False True) = (r1, Inr out1) \<and>
     adjudicate (\<lambda>_. []) r1 (demo_inputs ''b'' 1 False True) = (r1, Inr out2) \<and>
     vd_action (rs_verdict out2) = vd_action (rs_verdict out1) \<and> vd_mint (rs_verdict out2) = ''b''"
proof -
  let ?r = "new_LLMRouter demo_backend None 200 1 0"
  obtain r1 out1 where a: "adjudicate (\<lambda>_. []) ?r (demo_inputs ''a'' 1 False True) = (r1, Inr out1)"
    "rs_route_tier out1 \<noteq> FALLBACK" using demo_adjudicate by blast
  have ok: "router_ok ?r" using demo_backend_ok by (rule new_router_ok) simp
  have i: "inputs_ok (demo_inputs m 1 False True)" for m by (rule demo_inputs_ok) (simp add: in_unit_def)
  have key: "bucket_key (demo_inputs ''b'' 1 False True) = bucket_key (demo_inputs ''a'' 1 False True)"
    by (simp add: bucket_key_def demo_inputs_def)
  have "reasoner_run (\<lambda>_. []) r1 [] = (r1, [])" by simp
  from bucket_verdict_is_final [OF ok a(1) i a(2) this i key] a(1) show ?thesis
    by (auto simp: demo_inputs_def)
qed

subsection \<open>Outages, and a veto that weakens a sell\<close>

lemma retry_loop_outage:
  "(\<And>k. k \<in> set ks \<Longrightarrow> backend_reason b prompt (lr_temperature r) k = Backend_raised) \<Longrightarrow> retry_loop r b prompt ks = None"
  by (induction ks) simp_all

text \<open>
  An outage of the backend: the call returns the fallback, halves an open position or
  vetoes the entry, and leaves the cache as it was, so that the next call asks again.
\<close>

lemma outage_derisks:
  assumes "router_ok r" and "inputs_ok inputs" and "bucket_key inputs = Inr key" and "cache_lookup r key = None"
    and "\<And>b prompt k. b = lr_local r \<or> lr_frontier r = Some b \<Longrightarrow> backend_reason b prompt (lr_temperature r) k = Backend_raised"
  shows "\<exists>out. adjudicate h r inputs = (r, Inr out) \<and> rs_route_tier out = FALLBACK \<and>
    vd_action (rs_verdict out) = (if pi_position_is_open inputs then REDUCE_SIZE else VETO_ENTRY)"
proof -
  obtain prompt where p: "prepared inputs = Inr (key, prompt)"
    using prepared_valid [OF assms(2)] assms(3) by (metis sum.inject(2))
  let ?b = "if lr_frontier r \<noteq> None \<and> should_escalate key then the (lr_frontier r) else lr_local r"
  have "call_with_retries r ?b prompt = None"
    unfolding call_with_retries_def by (rule retry_loop_outage, rule assms(5)) auto
  then have rt: "route r prompt key = (r, fallback_routed ''route: backend error/invalid after retries'' ?b False)"
    using assms(4) by (simp only: route_def Let_def option.case)
  from fallback_routed_valid [of "''route: backend error/invalid after retries''" ?b False] obtain ro where
    ro: "fallback_routed ''route: backend error/invalid after retries'' ?b False = Inr ro"
      "in_unit (rv_confidence (ro_raw ro))" "ro_tier ro = FALLBACK" "rv_veto (ro_raw ro)"
      "\<not> rv_narrative_failure (ro_raw ro)" by blast
  note key = bucket_key_fields [OF assms(3)]
  from finalize_strongest [OF _ ro(2), of inputs "bk_quant key" FALLBACK "ro_backend_id ro" "h prompt" "ro_cache_hit ro"] key
  obtain out where out: "finalize inputs (ro_raw ro) FALLBACK (ro_backend_id ro) (h prompt) (ro_cache_hit ro) = Inr out"
    "rs_route_tier out = FALLBACK"
    "output_for inputs (demanded (bk_quant key) (sentiment_of inputs) (pi_position_is_open inputs) (ro_raw ro)) out"
    by (auto simp: quant_of_def)
  then have "adjudicate h r inputs = (r, Inr out)"
    by (simp add: adjudicate_def p rt [simplified] ro(1) [simplified] ro(3))
  with out(2,3) veto_demand [OF ro(4,5)] show ?thesis by (simp add: output_for_def)
qed

text \<open>
  The veto bit weakens a sell. For an open position, a verdict of \<open>Sell\<close> or \<open>Strong Sell\<close> without
  a narrative failure forces the exit, and the same verdict with its veto bit set only halves the
  position: the clamp reads the veto first and the matrix does not restore the exit.
\<close>

theorem veto_weakens_sell:
  assumes "quant_of inputs = Inr q" and "pi_position_is_open inputs" and "in_unit (rv_confidence raw)"
    and "rv_decision_signal raw \<in> {SELL, STRONG_SELL}" and "\<not> rv_narrative_failure raw"
  shows "\<exists>plain vetoed.
    finalize inputs (raw\<lparr>rv_veto := False\<rparr>) tier backend hash hit = Inr plain \<and>
    finalize inputs (raw\<lparr>rv_veto := True\<rparr>) tier backend hash hit = Inr vetoed \<and>
    vd_action (rs_verdict plain) = FORCE_EXIT \<and> vd_action (rs_verdict vetoed) = REDUCE_SIZE \<and>
    vd_action (rs_verdict vetoed) < vd_action (rs_verdict plain)"
proof -
  have q: "bucket_quant (p_calibrated (pi_decision_signal inputs)) (uncertainty (pi_decision_signal inputs)) = Inr q"
    using assms(1) by (simp add: quant_of_def)
  from finalize_strongest [OF q, of "raw\<lparr>rv_veto := False\<rparr>" tier backend hash hit]
    finalize_strongest [OF q, of "raw\<lparr>rv_veto := True\<rparr>" tier backend hash hit]
    sell_demand [of "raw\<lparr>rv_veto := False\<rparr>"] veto_demand [of "raw\<lparr>rv_veto := True\<rparr>"] assms(2-5)
  show ?thesis by (fastforce simp: output_for_def less_reasoning_action_def)
qed

theorem veto_weakens_sell_witness:
  "\<exists>vetoed. finalize (demo_inputs ''m'' 0 False True)
      \<lparr>rv_decision_signal = STRONG_SELL, rv_confidence = 1, rv_veto = True, rv_narrative_failure = False,
       rv_rationale = []\<rparr> LOCAL ''mock'' [] False = Inr vetoed \<and>
    vd_action (rs_verdict vetoed) = REDUCE_SIZE"
proof -
  have "inputs_ok (demo_inputs ''m'' 0 False True)" by (rule demo_inputs_ok) (simp add: in_unit_def)
  then obtain key where "bucket_key (demo_inputs ''m'' 0 False True) = Inr key" by (metis prepared_valid)
  from bucket_key_fields [OF this]
  have "quant_of (demo_inputs ''m'' 0 False True) = Inr (bk_quant key)" by simp
  from veto_weakens_sell [OF this, of "\<lparr>rv_decision_signal = STRONG_SELL, rv_confidence = 1, rv_veto = False,
      rv_narrative_failure = False, rv_rationale = []\<rparr>" LOCAL "''mock''" "[]" False]
  show ?thesis by (auto simp: demo_inputs_def in_unit_def)
qed
end
