(* ===== verification/Slow_Loop.thy ===== *)
theory Slow_Loop
  imports Flag_Exits Reasoning "HOL-Library.List_Lexorder" "HOL-Library.Char_ord"
begin

text \<open>
  The producers of the flags that the other loops read: the SLOW loop
  (\<open>aats/controller/slow_loop.py\<close>), the regime and survivor wiring
  (\<open>aats/controller/regime_wiring.py\<close>), the insider-dump detector
  (\<open>aats/ingestion/insider_dump.py\<close>) and the enrichment wiring
  (\<open>aats/controller/enrichment_wiring.py\<close>). The classifier, the reasoner behind its protocol, the
  survivor model and the sources of features and schedules are parameters. All of them write to
  the shared store only; a call is one step at one clock reading.
\<close>

subsection \<open>The SLOW loop (\<open>slow_loop.py\<close>)\<close>

record slow_loop =
  sw_classifier :: "launch_event \<Rightarrow> decision_signal option result"
  sw_reasoner :: "(launch_event \<Rightarrow> decision_signal \<Rightarrow> reasoning_verdict result) option"
  sw_signal_ttl :: int
  sw_veto_ttl :: int
  sw_narrative_ttl :: int

definition apply_reasoning_verdict :: "slow_loop \<Rightarrow> millis \<Rightarrow> store \<Rightarrow> mint \<Rightarrow> reasoning_verdict \<Rightarrow> store" where
  "apply_reasoning_verdict sw now s m verdict =
     (case vd_action verdict of
        HOLD \<Rightarrow> s
      | VETO_ENTRY \<Rightarrow> set_veto_flag s m (sw_veto_ttl sw) now
      | REDUCE_SIZE \<Rightarrow> set_veto_flag s m (sw_veto_ttl sw div 2) now
      | FORCE_EXIT \<Rightarrow> set_narrative_failure_flag s m (sw_narrative_ttl sw) now)"

definition slow_process_event ::
    "slow_loop \<Rightarrow> millis \<Rightarrow> store \<Rightarrow> launch_event \<Rightarrow> store \<times> decision_signal option result" where
  "slow_process_event sw now s ev =
     (case sw_classifier sw ev of
        Inl e \<Rightarrow> (s, Inl e)
      | Inr None \<Rightarrow> (s, Inr None)
      | Inr (Some signal) \<Rightarrow>
          let s1 = set_decision_signal s signal (sw_signal_ttl sw) now in
          (case sw_reasoner sw of
             None \<Rightarrow> (s1, Inr (Some signal))
           | Some reason \<Rightarrow>
               (case reason ev signal of
                  Inl e \<Rightarrow> (s1, Inl e)
                | Inr verdict \<Rightarrow>
                    (apply_reasoning_verdict sw now s1 (le_mint ev) verdict, Inr (Some signal)))))"

subsection \<open>Regime states and their directives (\<open>contracts/models.py\<close>, \<open>regime_wiring.py\<close>)\<close>

datatype regime_state = ACCUMULATION | DISTRIBUTION | RUG_IN_PROGRESS | NEUTRAL_regime

datatype regime_directive = NONE_directive | REDUCE_directive | FORCE_EXIT_directive | VETO_ENTRY_directive

fun regime_derisk_directive :: "regime_state \<Rightarrow> regime_directive" where
  "regime_derisk_directive ACCUMULATION = NONE_directive"
| "regime_derisk_directive NEUTRAL_regime = NONE_directive"
| "regime_derisk_directive DISTRIBUTION = REDUCE_directive"
| "regime_derisk_directive RUG_IN_PROGRESS = FORCE_EXIT_directive"

record regime_signal =
  rg_mint :: mint
  rg_regime :: regime_state

record survivor_prediction =
  sp_mint :: mint
  sp_p_calibrated :: rat
  sp_uncertainty :: rat

record regime_stats =
  regime_signals_applied :: int
  survivor_predictions_applied :: int
  survivor_features_absent_skipped :: int
  force_exits_raised :: int
  reduces_raised :: int
  veto_entries_raised :: int
  inert_noops :: int

definition empty_regime_stats :: regime_stats where
  "empty_regime_stats =
     \<lparr>regime_signals_applied = 0, survivor_predictions_applied = 0, survivor_features_absent_skipped = 0,
      force_exits_raised = 0, reduces_raised = 0, veto_entries_raised = 0, inert_noops = 0\<rparr>"

text \<open>
  The wiring. The feature source and the model are one parameter: for a mint the prediction from
  its features, or nothing when the source has none; absent when either of them is not wired.
\<close>

record regime_wiring =
  rw_predict :: "(mint \<Rightarrow> survivor_prediction option) option"
  rw_force_exit_survival_below :: rat
  rw_reduce_survival_below :: rat
  rw_high_uncertainty_reduce_at :: rat
  rw_veto_ttl :: int
  rw_narrative_ttl :: int
  rw_stats :: regime_stats

definition mk_SlowLoopRegimeWiring ::
    "(mint \<Rightarrow> survivor_prediction option) option \<Rightarrow> rat \<Rightarrow> rat \<Rightarrow> rat \<Rightarrow> int \<Rightarrow> int \<Rightarrow> regime_wiring result" where
  "mk_SlowLoopRegimeWiring predict force_below reduce_below uncertain_at veto_ttl narrative_ttl =
     (if \<not> (0 \<le> force_below \<and> force_below \<le> reduce_below \<and> reduce_below \<le> 1) then Inl ValueError
      else if \<not> (0 \<le> uncertain_at \<and> uncertain_at \<le> 1) then Inl ValueError
      else Inr \<lparr>rw_predict = predict, rw_force_exit_survival_below = force_below,
                rw_reduce_survival_below = reduce_below, rw_high_uncertainty_reduce_at = uncertain_at,
                rw_veto_ttl = veto_ttl, rw_narrative_ttl = narrative_ttl, rw_stats = empty_regime_stats\<rparr>)"

definition survivor_directive :: "regime_wiring \<Rightarrow> survivor_prediction \<Rightarrow> regime_directive" where
  "survivor_directive w pred =
     (if sp_p_calibrated pred \<le> rw_force_exit_survival_below w then FORCE_EXIT_directive
      else if sp_p_calibrated pred \<le> rw_reduce_survival_below w \<or>
              rw_high_uncertainty_reduce_at w \<le> sp_uncertainty pred then REDUCE_directive
      else NONE_directive)"

definition apply_directive ::
    "regime_wiring \<Rightarrow> millis \<Rightarrow> store \<Rightarrow> mint \<Rightarrow> regime_directive \<Rightarrow> regime_wiring \<times> store" where
  "apply_directive w now s m directive =
     (let st = rw_stats w in
      case directive of
        NONE_directive \<Rightarrow> (w\<lparr>rw_stats := st\<lparr>inert_noops := inert_noops st + 1\<rparr>\<rparr>, s)
      | REDUCE_directive \<Rightarrow>
          (w\<lparr>rw_stats := st\<lparr>reduces_raised := reduces_raised st + 1\<rparr>\<rparr>, set_veto_flag s m (rw_veto_ttl w div 2) now)
      | VETO_ENTRY_directive \<Rightarrow>
          (w\<lparr>rw_stats := st\<lparr>veto_entries_raised := veto_entries_raised st + 1\<rparr>\<rparr>,
           set_veto_flag s m (rw_veto_ttl w) now)
      | FORCE_EXIT_directive \<Rightarrow>
          (w\<lparr>rw_stats := st\<lparr>force_exits_raised := force_exits_raised st + 1\<rparr>\<rparr>,
           set_narrative_failure_flag s m (rw_narrative_ttl w) now))"

definition apply_regime_signal ::
    "regime_wiring \<Rightarrow> millis \<Rightarrow> store \<Rightarrow> regime_signal \<Rightarrow> (regime_wiring \<times> store) \<times> regime_directive" where
  "apply_regime_signal w now s sg =
     (let d = regime_derisk_directive (rg_regime sg);
          w1 = w\<lparr>rw_stats := (rw_stats w)\<lparr>regime_signals_applied := regime_signals_applied (rw_stats w) + 1\<rparr>\<rparr> in
      (apply_directive w1 now s (rg_mint sg) d, d))"

definition apply_survivor_prediction ::
    "regime_wiring \<Rightarrow> millis \<Rightarrow> store \<Rightarrow> survivor_prediction \<Rightarrow> (regime_wiring \<times> store) \<times> regime_directive" where
  "apply_survivor_prediction w now s pred =
     (let d = survivor_directive w pred;
          w1 = w\<lparr>rw_stats := (rw_stats w)
             \<lparr>survivor_predictions_applied := survivor_predictions_applied (rw_stats w) + 1\<rparr>\<rparr> in
      (apply_directive w1 now s (sp_mint pred) d, d))"

fun survivor_sweep ::
    "(mint \<Rightarrow> survivor_prediction option) \<Rightarrow> millis \<Rightarrow> regime_wiring \<Rightarrow> store \<Rightarrow> position list \<Rightarrow>
     (regime_wiring \<times> store) \<times> regime_directive list" where
  "survivor_sweep predict now w s [] = ((w, s), [])"
| "survivor_sweep predict now w s (p # ps) =
     (case predict (pos_mint p) of
        None \<Rightarrow>
          survivor_sweep predict now
            (w\<lparr>rw_stats := (rw_stats w)
               \<lparr>survivor_features_absent_skipped := survivor_features_absent_skipped (rw_stats w) + 1\<rparr>\<rparr>) s ps
      | Some pred \<Rightarrow>
          (case apply_survivor_prediction w now s pred of ((w1, s1), d) \<Rightarrow>
           (case survivor_sweep predict now w1 s1 ps of (ws, ds) \<Rightarrow> (ws, d # ds))))"

definition run_survivor_derisk ::
    "regime_wiring \<Rightarrow> millis \<Rightarrow> store \<Rightarrow> (regime_wiring \<times> store) \<times> regime_directive list" where
  "run_survivor_derisk w now s =
     (case rw_predict w of
        None \<Rightarrow> ((w, s), [])
      | Some predict \<Rightarrow> survivor_sweep predict now w s (load_all_positions s))"

subsection \<open>The insider-dump detector (\<open>insider_dump.py\<close>)\<close>

datatype wallet_role = CREATOR | CLUSTER

record insider_config =
  ic_threshold_bps :: int
  ic_flag_ttl_seconds :: int

definition mk_InsiderDumpConfig :: "insider_config \<Rightarrow> insider_config result" where
  "mk_InsiderDumpConfig c =
     (if ic_threshold_bps c < 1 then Inl ValueError
      else if 10000 < ic_threshold_bps c then Inl ValueError
      else if ic_flag_ttl_seconds c < 1 then Inl ValueError
      else Inr c)"

record sell_observation =
  ob_mint :: mint
  ob_wallet :: string
  ob_token_amount_sold_base :: int
  ob_event_slot :: int
  ob_block_time_ms :: millis
  ob_signature :: string
  ob_instruction_index :: int

definition mk_SellObservation :: "sell_observation \<Rightarrow> sell_observation result" where
  "mk_SellObservation ob =
     (if ob_mint ob = [] \<or> ob_wallet ob = [] \<or> ob_token_amount_sold_base ob < 0 \<or> ob_event_slot ob < 0 \<or>
         ob_block_time_ms ob < 0 \<or> ob_instruction_index ob < 0 \<or> ob_signature ob = []
      then Inl ValueError else Inr ob)"

definition dedupe_key :: "sell_observation \<Rightarrow> string \<times> int" where
  "dedupe_key ob = (ob_signature ob, ob_instruction_index ob)"

text \<open>\<open>StaticHeldSupplyProvider\<close>: baselines that were registered, nothing by default.\<close>

type_synonym held_supply = "((mint \<times> string) \<times> int) list"

definition set_held_supply :: "held_supply \<Rightarrow> mint \<Rightarrow> string \<Rightarrow> int \<Rightarrow> held_supply result" where
  "set_held_supply h m w amount =
     (if m = [] \<or> w = [] \<or> amount < 1 then Inl ValueError else Inr (dict_set (m, w) amount h))"

definition held_supply_base :: "held_supply \<Rightarrow> mint \<Rightarrow> string \<Rightarrow> int option" where
  "held_supply_base h m w = map_of h (m, w)"

record insider_signal =
  sn_mint :: mint
  sn_wallet :: string
  sn_role :: wallet_role
  sn_fraction_sold_bps :: int
  sn_event_slot :: int
  sn_block_time_ms :: millis
  sn_cumulative_sold_base :: int
  sn_held_supply_base :: int

definition mk_InsiderDumpSignal :: "insider_signal \<Rightarrow> insider_signal result" where
  "mk_InsiderDumpSignal sg =
     (if sn_mint sg = [] \<or> sn_wallet sg = [] \<or> sn_fraction_sold_bps sg < 0 \<or> 10000 < sn_fraction_sold_bps sg \<or>
         sn_event_slot sg < 0 \<or> sn_block_time_ms sg < 0 \<or> sn_cumulative_sold_base sg < 0 \<or>
         sn_held_supply_base sg < 1
      then Inl ValueError else Inr sg)"

record insider_stats =
  sells_observed :: int
  duplicates_skipped :: int
  not_open_position_skipped :: int
  untracked_sells :: int
  refused_undecodable_supply :: int
  signals_emitted :: int
  ds_last_event_slot :: int

definition empty_insider_stats :: insider_stats where
  "empty_insider_stats =
     \<lparr>sells_observed = 0, duplicates_skipped = 0, not_open_position_skipped = 0, untracked_sells = 0,
      refused_undecodable_supply = 0, signals_emitted = 0, ds_last_event_slot = 0\<rparr>"

record insider_detector =
  dt_config :: insider_config
  dt_held_supply :: held_supply
  dt_has_sink :: bool
  dt_stats :: insider_stats
  dt_creator_wallet :: "(mint \<times> string) list"
  dt_cluster_wallets :: "(mint \<times> string list) list"
  dt_cumulative_sold :: "((mint \<times> string) \<times> int) list"
  dt_seen :: "(string \<times> int) list"
  dt_seen_capacity :: int

definition new_insider_detector :: "insider_config \<Rightarrow> held_supply \<Rightarrow> bool \<Rightarrow> int \<Rightarrow> insider_detector" where
  "new_insider_detector c held has_sink capacity =
     \<lparr>dt_config = c, dt_held_supply = held, dt_has_sink = has_sink, dt_stats = empty_insider_stats,
      dt_creator_wallet = [], dt_cluster_wallets = [], dt_cumulative_sold = [], dt_seen = [],
      dt_seen_capacity = capacity\<rparr>"

definition register_creator :: "insider_detector \<Rightarrow> mint \<Rightarrow> string \<Rightarrow> insider_detector result" where
  "register_creator dt m w =
     (if m = [] \<or> w = [] then Inl ValueError
      else Inr (dt\<lparr>dt_creator_wallet := dict_set m w (dt_creator_wallet dt)\<rparr>))"

definition MAX_CLUSTER_WALLETS :: nat where
  "MAX_CLUSTER_WALLETS = 50"

definition register_cluster :: "insider_detector \<Rightarrow> mint \<Rightarrow> string list \<Rightarrow> insider_detector result" where
  "register_cluster dt m wallets =
     (if m = [] then Inl ValueError
      else let normalized = remdups (filter (\<lambda>w. w \<noteq> []) wallets);
               capped = (if MAX_CLUSTER_WALLETS < length normalized
                         then take MAX_CLUSTER_WALLETS (sort normalized) else normalized) in
           Inr (dt\<lparr>dt_cluster_wallets := dict_set m capped (dt_cluster_wallets dt)\<rparr>))"

definition reset_mint :: "insider_detector \<Rightarrow> mint \<Rightarrow> insider_detector" where
  "reset_mint dt m =
     dt\<lparr>dt_creator_wallet := dict_pop m (dt_creator_wallet dt),
        dt_cluster_wallets := dict_pop m (dt_cluster_wallets dt),
        dt_cumulative_sold := filter (\<lambda>((m', _), _). m' \<noteq> m) (dt_cumulative_sold dt)\<rparr>"

definition role_of :: "insider_detector \<Rightarrow> mint \<Rightarrow> string \<Rightarrow> wallet_role option" where
  "role_of dt m w =
     (if map_of (dt_creator_wallet dt) m = Some w then Some CREATOR
      else if w \<in> set (case map_of (dt_cluster_wallets dt) m of None \<Rightarrow> [] | Some ws \<Rightarrow> ws) then Some CLUSTER
      else None)"

text \<open>
  The set of seen keys, as the list of its members; \<open>pick\<close> is the element that the iteration of the
  set gives first, which the code discards when the set has grown past its capacity.
\<close>

definition remember_key ::
    "((string \<times> int) list \<Rightarrow> string \<times> int) \<Rightarrow> insider_detector \<Rightarrow> string \<times> int \<Rightarrow> insider_detector" where
  "remember_key pick dt key =
     (let seen = dt_seen dt @ [key] in
      dt\<lparr>dt_seen := (if dt_seen_capacity dt < int (length seen) then remove1 (pick seen) seen else seen)\<rparr>)"

text \<open>The accounting of a tracked sell with a known baseline, up to the threshold test.\<close>

definition raise_dump ::
    "millis \<Rightarrow> insider_detector \<Rightarrow> store \<Rightarrow> sell_observation \<Rightarrow> wallet_role \<Rightarrow> int \<Rightarrow>
     insider_detector \<times> store \<times> insider_signal option result" where
  "raise_dump now dt s ob role held =
     (let key = (ob_mint ob, ob_wallet ob);
          cumulative = (case map_of (dt_cumulative_sold dt) key of None \<Rightarrow> 0 | Some c \<Rightarrow> c)
            + ob_token_amount_sold_base ob;
          dt1 = dt\<lparr>dt_cumulative_sold := dict_set key cumulative (dt_cumulative_sold dt)\<rparr>;
          fraction_bps = min 10000 (cumulative * 10000 div held) in
      if fraction_bps < ic_threshold_bps (dt_config dt) then (dt1, s, Inr None)
      else case mk_InsiderDumpSignal
             \<lparr>sn_mint = ob_mint ob, sn_wallet = ob_wallet ob, sn_role = role, sn_fraction_sold_bps = fraction_bps,
              sn_event_slot = ob_event_slot ob, sn_block_time_ms = ob_block_time_ms ob,
              sn_cumulative_sold_base = cumulative, sn_held_supply_base = held\<rparr> of
        Inl e \<Rightarrow> (dt1, s, Inl e)
      | Inr sg \<Rightarrow>
          (case (if dt_has_sink dt
                 then set_insider_dump_flag s (ob_mint ob) fraction_bps (ob_event_slot ob)
                        (ic_flag_ttl_seconds (dt_config dt)) now
                 else Inr s) of
             Inl e \<Rightarrow> (dt1, s, Inl e)
           | Inr s1 \<Rightarrow>
               (dt1\<lparr>dt_stats := (dt_stats dt1)\<lparr>signals_emitted := signals_emitted (dt_stats dt1) + 1\<rparr>\<rparr>,
                s1, Inr (Some sg))))"

definition insider_on_sell ::
    "((string \<times> int) list \<Rightarrow> string \<times> int) \<Rightarrow> millis \<Rightarrow> insider_detector \<Rightarrow> store \<Rightarrow> sell_observation \<Rightarrow> bool \<Rightarrow>
     insider_detector \<times> store \<times> insider_signal option result" where
  "insider_on_sell pick now dt s ob is_open =
     (let st = dt_stats dt in
      if \<not> is_open
      then (dt\<lparr>dt_stats := st\<lparr>not_open_position_skipped := not_open_position_skipped st + 1\<rparr>\<rparr>, s, Inr None)
      else
        let st1 = st\<lparr>sells_observed := sells_observed st + 1,
                     ds_last_event_slot := max (ds_last_event_slot st) (ob_event_slot ob)\<rparr> in
        if dedupe_key ob \<in> set (dt_seen dt)
        then (dt\<lparr>dt_stats := st1\<lparr>duplicates_skipped := duplicates_skipped st1 + 1\<rparr>\<rparr>, s, Inr None)
        else
          let dt1 = remember_key pick (dt\<lparr>dt_stats := st1\<rparr>) (dedupe_key ob) in
          case role_of dt1 (ob_mint ob) (ob_wallet ob) of
            None \<Rightarrow> (dt1\<lparr>dt_stats := st1\<lparr>untracked_sells := untracked_sells st1 + 1\<rparr>\<rparr>, s, Inr None)
          | Some role \<Rightarrow>
              (case held_supply_base (dt_held_supply dt1) (ob_mint ob) (ob_wallet ob) of
                 None \<Rightarrow>
                   (dt1\<lparr>dt_stats := st1\<lparr>refused_undecodable_supply := refused_undecodable_supply st1 + 1\<rparr>\<rparr>,
                    s, Inr None)
               | Some held \<Rightarrow>
                   if held \<le> 0
                   then (dt1\<lparr>dt_stats := st1\<lparr>refused_undecodable_supply := refused_undecodable_supply st1 + 1\<rparr>\<rparr>,
                         s, Inr None)
                   else raise_dump now dt1 s ob role held))"

subsection \<open>The enrichment wiring (\<open>enrichment_wiring.py\<close>)\<close>

record enrichment_stats =
  creator_registrations :: int
  sells_processed :: int
  sellability_reprobes_run :: int
  lp_unlock_checks_run :: int
  lp_unlock_schedule_absent_skipped :: int

record enrichment =
  ew_insider_dump :: "insider_detector option"
  ew_sellability :: "reprober option"
  ew_lp_watcher :: "lp_exit_watcher option"
  ew_lp_source :: "(mint \<Rightarrow> lp_schedule option) option"
  ew_stats :: enrichment_stats

definition enrich_register_creator :: "enrichment \<Rightarrow> mint \<Rightarrow> string \<Rightarrow> enrichment \<times> unit result" where
  "enrich_register_creator ew m creator =
     (case ew_insider_dump ew of
        None \<Rightarrow> (ew, Inr ())
      | Some dt \<Rightarrow>
          (case register_creator dt m creator of
             Inl e \<Rightarrow> (ew, Inl e)
           | Inr dt' \<Rightarrow>
               (ew\<lparr>ew_insider_dump := Some dt',
                   ew_stats := (ew_stats ew)\<lparr>creator_registrations := creator_registrations (ew_stats ew) + 1\<rparr>\<rparr>,
                Inr ())))"

definition enrich_on_decoded_sell ::
    "((string \<times> int) list \<Rightarrow> string \<times> int) \<Rightarrow> millis \<Rightarrow> enrichment \<Rightarrow> store \<Rightarrow> sell_observation \<Rightarrow>
     enrichment \<times> store \<times> insider_signal option result" where
  "enrich_on_decoded_sell pick now ew s ob =
     (case ew_insider_dump ew of
        None \<Rightarrow> (ew, s, Inr None)
      | Some dt \<Rightarrow>
          (case insider_on_sell pick now dt s ob (load_position s (ob_mint ob) \<noteq> None) of (dt', s', r) \<Rightarrow>
           (ew\<lparr>ew_insider_dump := Some dt',
               ew_stats := (ew_stats ew)\<lparr>sells_processed := sells_processed (ew_stats ew) + 1\<rparr>\<rparr>, s', r)))"

text \<open>The reprober writes to the shared store, which is its sink for the length of the sweep.\<close>

definition enrich_sellability ::
    "millis \<Rightarrow> enrichment \<Rightarrow> store \<Rightarrow> int \<Rightarrow> enrichment \<times> store \<times> reprobe_result list result" where
  "enrich_sellability now ew s event_slot =
     (case ew_sellability ew of
        None \<Rightarrow> (ew, s, Inr [])
      | Some rb \<Rightarrow>
          (case reprobe_open_positions now (rb\<lparr>rb_sink := map_option (\<lambda>_. s) (rb_sink rb)\<rparr>)
                  (load_all_positions s) event_slot of (rb', r) \<Rightarrow>
           let s' = (case rb_sink rb' of None \<Rightarrow> s | Some st \<Rightarrow> st) in
           (case r of
              Inl e \<Rightarrow> (ew\<lparr>ew_sellability := Some rb'\<rparr>, s', Inl e)
            | Inr rs \<Rightarrow>
                (ew\<lparr>ew_sellability := Some rb',
                    ew_stats := (ew_stats ew)
                      \<lparr>sellability_reprobes_run := sellability_reprobes_run (ew_stats ew) + int (length rs)\<rparr>\<rparr>,
                 s', Inr rs))))"

fun lp_watch_each ::
    "millis \<Rightarrow> lp_exit_watcher \<Rightarrow> (mint \<Rightarrow> lp_schedule option) \<Rightarrow> int \<Rightarrow> enrichment_stats \<Rightarrow> store \<Rightarrow>
     position list \<Rightarrow> enrichment_stats \<times> store \<times> lp_exit_decision list result" where
  "lp_watch_each now w source event_slot st s [] = (st, s, Inr [])"
| "lp_watch_each now w source event_slot st s (p # ps) =
     (case source (pos_mint p) of
        None \<Rightarrow>
          lp_watch_each now w source event_slot
            (st\<lparr>lp_unlock_schedule_absent_skipped := lp_unlock_schedule_absent_skipped st + 1\<rparr>) s ps
      | Some schedule \<Rightarrow>
          (case lp_watch w schedule event_slot (Some s) now of
             Inl e \<Rightarrow> (st, s, Inl e)
           | Inr (sink, d) \<Rightarrow>
               (case lp_watch_each now w source event_slot (st\<lparr>lp_unlock_checks_run := lp_unlock_checks_run st + 1\<rparr>)
                       (case sink of None \<Rightarrow> s | Some s' \<Rightarrow> s') ps of
                  (st', s', Inl e) \<Rightarrow> (st', s', Inl e)
                | (st', s', Inr ds) \<Rightarrow> (st', s', Inr (d # ds)))))"

definition enrich_lp_unlock ::
    "millis \<Rightarrow> enrichment \<Rightarrow> store \<Rightarrow> int \<Rightarrow> enrichment \<times> store \<times> lp_exit_decision list result" where
  "enrich_lp_unlock now ew s event_slot =
     (case (ew_lp_watcher ew, ew_lp_source ew) of
        (Some w, Some source) \<Rightarrow>
          (case lp_watch_each now w source event_slot (ew_stats ew) s (load_all_positions s) of (st, s', r) \<Rightarrow>
           (ew\<lparr>ew_stats := st\<rparr>, s', r))
      | _ \<Rightarrow> (ew, s, Inr []))"

subsection \<open>Verdicts and the flags they raise\<close>

lemma exit_flag_frame:
  "narrative_flags s' = narrative_flags s \<Longrightarrow> insider_dump_flags s' = insider_dump_flags s \<Longrightarrow>
   sellability_degraded_flags s' = sellability_degraded_flags s \<Longrightarrow>
   lp_unlock_approaching_flags s' = lp_unlock_approaching_flags s \<Longrightarrow> exit_flag s' m now = exit_flag s m now"
  by (simp add: exit_flag_def get_narrative_failure_flag_def get_insider_dump_flag_def
      get_sellability_degraded_flag_def get_lp_unlock_approaching_flag_def case_prod_beta)

lemma narrative_flag_raised:
  "now < t + ttl * 1000 \<Longrightarrow> exit_flag (set_narrative_failure_flag s m ttl t) m now"
  by (simp add: exit_flag_def get_narrative_failure_flag_def set_narrative_failure_flag_def ttl_get_def ttl_put_def
      is_expired_def)

lemma verdict_positions: "positions (apply_reasoning_verdict sw t s m v) = positions s"
  by (simp add: apply_reasoning_verdict_def set_veto_flag_def set_narrative_failure_flag_def
      split: reasoning_action.split)

lemma verdict_no_flag:
  "vd_action v \<noteq> FORCE_EXIT \<Longrightarrow> exit_flag (apply_reasoning_verdict sw t s m v) m' now = exit_flag s m' now"
  by (rule exit_flag_frame)
    (simp_all add: apply_reasoning_verdict_def set_veto_flag_def split: reasoning_action.split)

lemma verdict_flag:
  "vd_action v = FORCE_EXIT \<Longrightarrow> now < t + sw_narrative_ttl sw * 1000 \<Longrightarrow>
   exit_flag (apply_reasoning_verdict sw t s m v) m now"
  by (simp add: apply_reasoning_verdict_def narrative_flag_raised)

text \<open>
  C22. From the reasoner's verdict to the sale, through the store alone. When the SLOW loop processes
  an event of a held open position and the reasoner answers \<open>FORCE_EXIT\<close>, every tick of the FAST
  loop for that position within the flag's time to live sends a full exit in secure mode as its
  last order. With any other verdict the SLOW loop leaves every forced-exit flag and every position
  as they were; in particular a \<open>REDUCE_SIZE\<close> verdict does not touch an open position.
\<close>

theorem force_exit_verdict_sells_position:
  assumes "sw_classifier sw ev = Inr (Some signal)" and "sw_reasoner sw = Some reason"
    and "reason ev signal = Inr verdict" and "le_mint ev = pos_mint p"
    and "slow_process_event sw t (fs_store fs) ev = (st', r)"
    and "exits_ok fs" and "synced_at fs p" and "fsm_state p = OPEN"
    and "map_of (fs_exit_states fs) (pos_mint p) = Some xs" and "0 < remaining_bps xs"
    and "price (pos_mint p) = Some mark" and "0 \<le> bt" and "now < t + sw_narrative_ttl sw * 1000"
  shows "positions st' = positions (fs_store fs) \<and> r = Inr (Some signal) \<and>
    (if vd_action verdict = FORCE_EXIT
     then \<forall>gs ticks acts. tick_position venue price now bt (fs\<lparr>fs_store := st'\<rparr>) (pos_mint p) = (gs, Inr (ticks, acts)) \<longrightarrow>
       (\<exists>x q exits why. fs_exits gs = exits @ [(Exit x, q)] \<and> ex_mint x = xs_mint xs \<and>
          ex_fraction_bps x = 10000 \<and> ex_exit_mode x = Secure \<and> acts = [Exit_full_action (pos_mint p) why])
     else \<forall>m u. exit_flag st' m u = exit_flag (fs_store fs) m u)"
proof -
  let ?s1 = "set_decision_signal (fs_store fs) signal (sw_signal_ttl sw) t"
  have st': "st' = apply_reasoning_verdict sw t ?s1 (pos_mint p) verdict" "r = Inr (Some signal)"
    using assms(1-5) by (auto simp: slow_process_event_def Let_def)
  have s1: "positions ?s1 = positions (fs_store fs)" "exit_flag ?s1 m u = exit_flag (fs_store fs) m u" for m u
    by (simp add: set_decision_signal_def) (rule exit_flag_frame; simp add: set_decision_signal_def)
  have pos: "positions st' = positions (fs_store fs)" using s1(1) by (simp add: st'(1) verdict_positions)
  have ok: "exits_ok (fs\<lparr>fs_store := st'\<rparr>)" using assms(6) by (simp add: exits_ok_def)
  have "exit_flag st' (pos_mint p) now" if "vd_action verdict = FORCE_EXIT"
    unfolding st'(1) by (rule verdict_flag [OF that assms(13)])
  with flagged_tick_sells [where price = price and now = now and xs = xs, OF ok
      synced_at_store_update [OF assms(7) pos] assms(8) _ assms(10,11,12)] assms(9)
  have "\<exists>x q exits why. fs_exits gs = exits @ [(Exit x, q)] \<and> ex_mint x = xs_mint xs \<and>
      ex_fraction_bps x = 10000 \<and> ex_exit_mode x = Secure \<and> acts = [Exit_full_action (pos_mint p) why]"
    if "vd_action verdict = FORCE_EXIT"
      "tick_position venue price now bt (fs\<lparr>fs_store := st'\<rparr>) (pos_mint p) = (gs, Inr (ticks, acts))" for gs ticks acts
    using that by simp
  moreover have "exit_flag st' m u = exit_flag (fs_store fs) m u" if "vd_action verdict \<noteq> FORCE_EXIT" for m u
    using verdict_no_flag [OF that] s1(2) by (simp add: st'(1))
  ultimately show ?thesis using pos st'(2) by simp
qed

theorem force_exit_verdict_sells_position_witness:
  "\<exists>gs ticks acts x q exits.
     tick_position (\<lambda>_ _ _. demo_fill) (\<lambda>_. Some 100) 1500 1000
       (demo_loop\<lparr>fs_store := fst (slow_process_event
          \<lparr>sw_classifier = (\<lambda>_. Inr (Some \<lparr>sg_mint = ''m'', p_calibrated = 1, uncertainty = 0, surface = ''pump''\<rparr>)),
           sw_reasoner = Some (\<lambda>_ _. Inr \<lparr>vd_mint = ''m'',
             vd_event_time = \<lparr>slot = 1, block_time_ms = 1000, wall_clock_ms = 1000\<rparr>, vd_action = FORCE_EXIT,
             vd_reason = Audit ''dead'' [], vd_confidence = 1, vd_action_received_raw = ''Sell'',
             vd_risk_increase_clamped = False\<rparr>),
           sw_signal_ttl = 30, sw_veto_ttl = 60, sw_narrative_ttl = 120\<rparr> 0 (fs_store demo_loop)
          \<lparr>le_mint = ''m'', le_event_time = \<lparr>slot = 1, block_time_ms = 1000, wall_clock_ms = 1000\<rparr>,
           sol_reserve_lamports = 1, token_reserve_base = 1, data_staleness_ms = 0\<rparr>)\<rparr>) ''m'' =
       (gs, Inr (ticks, acts)) \<and>
     fs_exits gs = exits @ [(Exit x, q)] \<and> ex_fraction_bps x = 10000"
proof -
  let ?sg = "\<lparr>sg_mint = ''m'', p_calibrated = 1, uncertainty = 0, surface = ''pump''\<rparr>"
  let ?et = "\<lparr>slot = 1, block_time_ms = 1000, wall_clock_ms = 1000\<rparr>"
  let ?vd = "\<lparr>vd_mint = ''m'', vd_event_time = ?et, vd_action = FORCE_EXIT, vd_reason = Audit ''dead'' [],
     vd_confidence = 1, vd_action_received_raw = ''Sell'', vd_risk_increase_clamped = False\<rparr>"
  let ?sw = "\<lparr>sw_classifier = (\<lambda>_. Inr (Some ?sg)), sw_reasoner = Some (\<lambda>_ _. Inr ?vd), sw_signal_ttl = 30,
     sw_veto_ttl = 60, sw_narrative_ttl = 120\<rparr>"
  let ?ev = "\<lparr>le_mint = ''m'', le_event_time = ?et, sol_reserve_lamports = 1, token_reserve_base = 1, data_staleness_ms = 0\<rparr>"
  let ?v = "\<lambda>_ _ _. demo_fill"
  have m: "pos_mint demo_position = ''m''" "fsm_state demo_position = OPEN" by (simp_all add: demo_position_def)
  obtain st' r where slow: "slow_process_event ?sw 0 (fs_store demo_loop) ?ev = (st', r)"
    by (cases "slow_process_event ?sw 0 (fs_store demo_loop) ?ev")
  obtain gs ticks acts where tick:
    "tick_position ?v (\<lambda>_. Some 100) 1500 1000 (demo_loop\<lparr>fs_store := st'\<rparr>) (pos_mint demo_position) = (gs, Inr (ticks, acts))"
    using demo_tick_returns unfolding m by blast
  have ok: "exits_ok demo_loop"
    using presets_all balanced_entry_ok by (simp add: exits_ok_def demo_loop_def AUTO_STRAT_PRESETS_def)
  have xs: "map_of (fs_exit_states demo_loop) (pos_mint demo_position) = Some balanced_entry"
    "0 < remaining_bps balanced_entry"
    by (simp_all add: demo_loop_def m)
  have "sw_classifier ?sw ?ev = Inr (Some ?sg)" "sw_reasoner ?sw = Some (\<lambda>_ _. Inr ?vd)"
    "le_mint ?ev = pos_mint demo_position" by (simp_all add: m)
  from force_exit_verdict_sells_position [OF this(1,2) refl this(3) slow ok demo_loop_tracked(2) m(2) xs,
      of "\<lambda>_. Some 100" 100 1000 1500 ?v] tick
  obtain x q exits where "fs_exits gs = exits @ [(Exit x, q)]" "ex_fraction_bps x = 10000" by auto
  with tick [unfolded m(1)] slow show ?thesis by auto
qed

text \<open>
  A stronger verdict shortens an earlier veto. A \<open>VETO_ENTRY\<close> verdict at one time keeps the entry
  vetoed for the whole veto time; when a \<open>REDUCE_SIZE\<close> verdict for the same mint follows, it
  overwrites the veto with half that time, so the entry is free again while the veto of the first
  verdict would still have held.
\<close>

theorem reduce_verdict_shortens_veto:
  assumes "vd_action v1 = VETO_ENTRY" and "vd_action v2 = REDUCE_SIZE"
    and "t2 + (sw_veto_ttl sw div 2) * 1000 \<le> now" and "now < t1 + sw_veto_ttl sw * 1000"
  shows "snd (get_veto_flag (apply_reasoning_verdict sw t1 s m v1) m now) \<and>
    \<not> snd (get_veto_flag (apply_reasoning_verdict sw t2 (apply_reasoning_verdict sw t1 s m v1) m v2) m now)"
  using assms
  by (simp add: apply_reasoning_verdict_def get_veto_flag_def set_veto_flag_def ttl_get_def ttl_put_def is_expired_def)

theorem reduce_verdict_shortens_veto_witness:
  "\<exists>sw v1 v2. VETO_ENTRY < REDUCE_SIZE \<and> vd_action v1 = VETO_ENTRY \<and> vd_action v2 = REDUCE_SIZE \<and>
     sw_veto_ttl sw = 60 \<and>
     snd (get_veto_flag (apply_reasoning_verdict sw 0 empty_store ''m'' v1) ''m'' 40000) \<and>
     \<not> snd (get_veto_flag (apply_reasoning_verdict sw 1000 (apply_reasoning_verdict sw 0 empty_store ''m'' v1) ''m'' v2)
         ''m'' 40000)"
proof -
  define v1 :: reasoning_verdict where "v1 = \<lparr>vd_mint = ''m'',
     vd_event_time = \<lparr>slot = 1, block_time_ms = 1000, wall_clock_ms = 1000\<rparr>, vd_action = VETO_ENTRY,
     vd_reason = Audit [] [], vd_confidence = 1, vd_action_received_raw = ''Hold'', vd_risk_increase_clamped = False\<rparr>"
  define sw :: slow_loop where "sw = \<lparr>sw_classifier = (\<lambda>_. Inr None), sw_reasoner = None, sw_signal_ttl = 30,
     sw_veto_ttl = 60, sw_narrative_ttl = 120\<rparr>"
  have "vd_action v1 = VETO_ENTRY" "vd_action (v1\<lparr>vd_action := REDUCE_SIZE\<rparr>) = REDUCE_SIZE" "sw_veto_ttl sw = 60"
    "VETO_ENTRY < REDUCE_SIZE"
    by (simp_all add: v1_def sw_def less_reasoning_action_def)
  with reduce_verdict_shortens_veto [of v1 "v1\<lparr>vd_action := REDUCE_SIZE\<rparr>" 1000 sw 40000 0 empty_store "''m''"]
  show ?thesis by (intro exI [of _ sw] exI [of _ v1] exI [of _ "v1\<lparr>vd_action := REDUCE_SIZE\<rparr>"]) simp
qed

subsection \<open>What the detector has counted\<close>

text \<open>The sells of a list of observations, each with the clock reading at which it is processed.\<close>

fun insider_run ::
    "((string \<times> int) list \<Rightarrow> string \<times> int) \<Rightarrow> insider_detector \<Rightarrow> store \<Rightarrow> (millis \<times> sell_observation) list \<Rightarrow>
     insider_detector \<times> store \<times> insider_signal option result list" where
  "insider_run pick dt s [] = (dt, s, [])"
| "insider_run pick dt s ((now, ob) # obs) =
     (case insider_on_sell pick now dt s ob True of (dt1, s1, r) \<Rightarrow>
      case insider_run pick dt1 s1 obs of (dt2, s2, rs) \<Rightarrow> (dt2, s2, r # rs))"

text \<open>The reference: what a set of observations amounts to, and which mints it condemns.\<close>

definition total_sold :: "sell_observation set \<Rightarrow> mint \<Rightarrow> string \<Rightarrow> int" where
  "total_sold obs m w = (\<Sum>ob \<in> {ob \<in> obs. ob_mint ob = m \<and> ob_wallet ob = w}. ob_token_amount_sold_base ob)"

definition tracked_supply :: "insider_detector \<Rightarrow> mint \<Rightarrow> string \<Rightarrow> int \<Rightarrow> bool" where
  "tracked_supply dt m w h \<longleftrightarrow>
     role_of dt m w \<noteq> None \<and> held_supply_base (dt_held_supply dt) m w = Some h \<and> 0 < h"

definition dumped :: "insider_detector \<Rightarrow> sell_observation set \<Rightarrow> mint \<Rightarrow> bool" where
  "dumped dt obs m \<longleftrightarrow>
     (\<exists>w h. tracked_supply dt m w h \<and>
       ic_threshold_bps (dt_config dt) \<le> min 10000 (total_sold obs m w * 10000 div h))"

definition cumulative_of :: "insider_detector \<Rightarrow> mint \<Rightarrow> string \<Rightarrow> int" where
  "cumulative_of dt m w = (case map_of (dt_cumulative_sold dt) (m, w) of None \<Rightarrow> 0 | Some c \<Rightarrow> c)"

definition same_wiring :: "insider_detector \<Rightarrow> insider_detector \<Rightarrow> bool" where
  "same_wiring dt dt0 \<longleftrightarrow>
     dt_config dt = dt_config dt0 \<and> dt_held_supply dt = dt_held_supply dt0 \<and> dt_has_sink dt = dt_has_sink dt0 \<and>
     dt_creator_wallet dt = dt_creator_wallet dt0 \<and> dt_cluster_wallets dt = dt_cluster_wallets dt0 \<and>
     dt_seen_capacity dt = dt_seen_capacity dt0"

definition counted :: "insider_detector \<Rightarrow> insider_detector \<Rightarrow> store \<Rightarrow> sell_observation set \<Rightarrow> bool" where
  "counted dt0 dt s past \<longleftrightarrow>
     same_wiring dt dt0 \<and> set (dt_seen dt) = dedupe_key ` past \<and> length (dt_seen dt) = card past \<and> finite past \<and>
     (\<forall>m w. cumulative_of dt m w = (if \<exists>h. tracked_supply dt0 m w h then total_sold past m w else 0)) \<and>
     (\<forall>m. map_of (insider_dump_flags s) m \<noteq> None \<longleftrightarrow> dumped dt0 past m)"

lemma total_sold_insert:
  assumes "finite obs" and "ob \<notin> obs"
  shows "total_sold (insert ob obs) m w =
    total_sold obs m w + (if ob_mint ob = m \<and> ob_wallet ob = w then ob_token_amount_sold_base ob else 0)"
proof -
  have "{x \<in> insert ob obs. ob_mint x = m \<and> ob_wallet x = w} =
    (if ob_mint ob = m \<and> ob_wallet ob = w then insert ob {x \<in> obs. ob_mint x = m \<and> ob_wallet x = w}
     else {x \<in> obs. ob_mint x = m \<and> ob_wallet x = w})" by auto
  with assms show ?thesis by (simp add: total_sold_def)
qed

lemma total_sold_nonneg: "(\<And>ob. ob \<in> obs \<Longrightarrow> 0 \<le> ob_token_amount_sold_base ob) \<Longrightarrow> 0 \<le> total_sold obs m w"
  by (auto simp: total_sold_def intro: sum_nonneg)

lemma role_of_same: "same_wiring dt dt0 \<Longrightarrow> role_of dt m w = role_of dt0 m w"
  by (simp add: role_of_def same_wiring_def)

lemma tracked_unique: "tracked_supply dt m w h \<Longrightarrow> tracked_supply dt m w h' \<Longrightarrow> h' = h"
  by (simp add: tracked_supply_def)

text \<open>A sell that is new changes the condemned mints in the one way the threshold test says.\<close>

lemma dumped_insert_untracked:
  assumes "finite past" and "ob \<notin> past" and "\<And>h. \<not> tracked_supply dt (ob_mint ob) (ob_wallet ob) h"
  shows "dumped dt (insert ob past) m \<longleftrightarrow> dumped dt past m"
  using assms(3) unfolding dumped_def
  by (intro ex_cong1 conj_cong refl) (auto simp: total_sold_insert [OF assms(1,2)])

lemma dumped_insert_tracked:
  assumes "finite past" and "ob \<notin> past" and "tracked_supply dt (ob_mint ob) (ob_wallet ob) h"
    and "0 \<le> ob_token_amount_sold_base ob"
  shows "dumped dt (insert ob past) m \<longleftrightarrow> dumped dt past m \<or> m = ob_mint ob \<and>
    ic_threshold_bps (dt_config dt) \<le> min 10000 (total_sold (insert ob past) (ob_mint ob) (ob_wallet ob) * 10000 div h)"
    (is "?l \<longleftrightarrow> ?r")
proof
  assume ?l
  then obtain w h' where w: "tracked_supply dt m w h'"
    "ic_threshold_bps (dt_config dt) \<le> min 10000 (total_sold (insert ob past) m w * 10000 div h')"
    unfolding dumped_def by blast
  show ?r
  proof (cases "m = ob_mint ob \<and> w = ob_wallet ob")
    case True
    with w tracked_unique [OF assms(3)] show ?thesis by simp
  next
    case False
    then have "total_sold (insert ob past) m w = total_sold past m w"
      using total_sold_insert [OF assms(1,2), of m w] by auto
    with w show ?thesis unfolding dumped_def by auto
  qed
next
  have grow: "total_sold past m w \<le> total_sold (insert ob past) m w" for m w
    using total_sold_insert [OF assms(1,2), of m w] assms(4) by simp
  assume ?r
  then show ?l
  proof
    assume "dumped dt past m"
    then obtain w h' where w: "tracked_supply dt m w h'"
      "ic_threshold_bps (dt_config dt) \<le> min 10000 (total_sold past m w * 10000 div h')"
      unfolding dumped_def by blast
    have "total_sold past m w * 10000 div h' \<le> total_sold (insert ob past) m w * 10000 div h'"
      using grow [of m w] w(1) by (intro zdiv_mono1) (simp_all add: tracked_supply_def)
    with w(2) have "ic_threshold_bps (dt_config dt) \<le> min 10000 (total_sold (insert ob past) m w * 10000 div h')"
      by linarith
    with w(1) show ?thesis unfolding dumped_def by blast
  qed (use assms(3) in \<open>unfold dumped_def, blast\<close>)
qed

lemma counted_stats [simp]: "counted dt0 (dt\<lparr>dt_stats := x\<rparr>) s past = counted dt0 dt s past"
  by (simp add: counted_def same_wiring_def cumulative_of_def)

lemma remember_fits:
  "int (length (dt_seen dt)) < dt_seen_capacity dt \<Longrightarrow>
   remember_key pick dt key = dt\<lparr>dt_seen := dt_seen dt @ [key]\<rparr>"
  by (simp add: remember_key_def)

lemma counted_untracked:
  assumes "counted dt0 dt s past" and "ob \<notin> past" and "\<And>h. \<not> tracked_supply dt0 (ob_mint ob) (ob_wallet ob) h"
  shows "counted dt0 (dt\<lparr>dt_seen := dt_seen dt @ [dedupe_key ob]\<rparr>) s (insert ob past)"
proof -
  have fin: "finite past" using assms(1) by (simp add: counted_def)
  have total: "total_sold (insert ob past) m w = total_sold past m w" if "tracked_supply dt0 m w h" for m w h
    using total_sold_insert [OF fin assms(2), of m w] assms(3) that by auto
  have cum: "cumulative_of (dt\<lparr>dt_seen := x\<rparr>) m w = cumulative_of dt m w" for x m w
    by (simp add: cumulative_of_def)
  show ?thesis
    using assms(1,2) fin unfolding counted_def
    by (auto simp: same_wiring_def cum total dumped_insert_untracked [OF fin assms(2,3)])
qed

lemma raise_dump_cases:
  assumes "raise_dump now dt s ob role h = (dt', s', r)" and "mk_SellObservation ob = Inr ob" and "0 < h"
    and "dt_has_sink dt" and "0 \<le> cumulative_of dt (ob_mint ob) (ob_wallet ob)"
  shows "(\<exists>x. dt' = dt\<lparr>dt_cumulative_sold := dict_set (ob_mint ob, ob_wallet ob)
            (cumulative_of dt (ob_mint ob) (ob_wallet ob) + ob_token_amount_sold_base ob) (dt_cumulative_sold dt),
            dt_stats := x\<rparr>) \<and> (\<exists>x. r = Inr x) \<and>
    (\<forall>m. map_of (insider_dump_flags s') m \<noteq> None \<longleftrightarrow> map_of (insider_dump_flags s) m \<noteq> None \<or> m = ob_mint ob \<and>
      ic_threshold_bps (dt_config dt) \<le> min 10000
        ((cumulative_of dt (ob_mint ob) (ob_wallet ob) + ob_token_amount_sold_base ob) * 10000 div h))"
proof -
  let ?c = "cumulative_of dt (ob_mint ob) (ob_wallet ob) + ob_token_amount_sold_base ob"
  let ?f = "min 10000 (?c * 10000 div h)"
  let ?dt1 = "dt\<lparr>dt_cumulative_sold := dict_set (ob_mint ob, ob_wallet ob) ?c (dt_cumulative_sold dt)\<rparr>"
  have ob: "ob_mint ob \<noteq> []" "ob_wallet ob \<noteq> []" "0 \<le> ob_token_amount_sold_base ob" "0 \<le> ob_event_slot ob" "0 \<le> ob_block_time_ms ob"
    using assms(2) by (auto simp: mk_SellObservation_def split: if_splits)
  have f: "0 \<le> ?f" "?f \<le> 10000" using assms(3,5) ob(3) by (simp_all add: pos_imp_zdiv_nonneg_iff)
  have raised: "raise_dump now dt s ob role h =
    (if ?f < ic_threshold_bps (dt_config dt) then (?dt1, s, Inr None)
     else (?dt1\<lparr>dt_stats := (dt_stats dt)\<lparr>signals_emitted := signals_emitted (dt_stats dt) + 1\<rparr>\<rparr>,
       s\<lparr>insider_dump_flags := ttl_put (insider_dump_flags s) (ob_mint ob) (?f, ob_event_slot ob)
          (ic_flag_ttl_seconds (dt_config dt)) now\<rparr>,
       Inr (Some \<lparr>sn_mint = ob_mint ob, sn_wallet = ob_wallet ob, sn_role = role, sn_fraction_sold_bps = ?f,
              sn_event_slot = ob_event_slot ob, sn_block_time_ms = ob_block_time_ms ob,
              sn_cumulative_sold_base = ?c, sn_held_supply_base = h\<rparr>)))"
    unfolding raise_dump_def Let_def cumulative_of_def [symmetric]
    using assms(3,4,5) ob f
    by (simp add: mk_InsiderDumpSignal_def set_insider_dump_flag_def not_less [symmetric] del: min_less_iff_disj)
  show ?thesis
  proof (cases "?f < ic_threshold_bps (dt_config dt)")
    case True
    then have "dt' = ?dt1" "s' = s" "r = Inr None" using assms(1) raised by auto
    moreover have "?dt1 = ?dt1\<lparr>dt_stats := dt_stats dt\<rparr>" by simp
    ultimately show ?thesis using True by (metis not_less)
  next
    case False
    with assms(1) raised show ?thesis by (auto simp: ttl_put_def)
  qed
qed

lemma counted_tracked:
  assumes "counted dt0 dt s past" and "ob \<notin> past" and h: "tracked_supply dt0 (ob_mint ob) (ob_wallet ob) h"
    and "mk_SellObservation ob = Inr ob" and "\<forall>ob \<in> past. 0 \<le> ob_token_amount_sold_base ob" and "dt_has_sink dt0"
    and "raise_dump now (dt\<lparr>dt_seen := dt_seen dt @ [dedupe_key ob], dt_stats := st\<rparr>) s ob role h = (dt', s', r)"
  shows "counted dt0 dt' s' (insert ob past) \<and> (\<exists>x. r = Inr x)"
proof -
  let ?dt = "dt\<lparr>dt_seen := dt_seen dt @ [dedupe_key ob], dt_stats := st\<rparr>"
  have fin: "finite past" and same: "same_wiring ?dt dt0" and amount: "0 \<le> ob_token_amount_sold_base ob"
    using assms(1,4) by (auto simp: counted_def same_wiring_def mk_SellObservation_def split: if_splits)
  have cum: "cumulative_of ?dt (ob_mint ob) (ob_wallet ob) = total_sold past (ob_mint ob) (ob_wallet ob)"
    using assms(1) h by (auto simp: counted_def cumulative_of_def)
  have tot: "cumulative_of ?dt (ob_mint ob) (ob_wallet ob) + ob_token_amount_sold_base ob =
      total_sold (insert ob past) (ob_mint ob) (ob_wallet ob)"
    using total_sold_insert [OF fin assms(2)] cum by simp
  have nonneg: "0 \<le> cumulative_of ?dt (ob_mint ob) (ob_wallet ob)"
    unfolding cum using assms(5) by (intro total_sold_nonneg) blast
  have "0 < h" "dt_has_sink ?dt" "dt_config ?dt = dt_config dt0"
    using h assms(6) same by (simp_all add: tracked_supply_def same_wiring_def)
  with raise_dump_cases [OF assms(7,4) _ _ nonneg] obtain x where
    dt': "dt' = ?dt\<lparr>dt_cumulative_sold := dict_set (ob_mint ob, ob_wallet ob)
        (total_sold (insert ob past) (ob_mint ob) (ob_wallet ob)) (dt_cumulative_sold dt), dt_stats := x\<rparr>"
    and r: "\<exists>x. r = Inr x"
    and flags: "\<And>m. map_of (insider_dump_flags s') m \<noteq> None \<longleftrightarrow> map_of (insider_dump_flags s) m \<noteq> None \<or> m = ob_mint ob \<and>
      ic_threshold_bps (dt_config dt0) \<le> min 10000 (total_sold (insert ob past) (ob_mint ob) (ob_wallet ob) * 10000 div h)"
    unfolding tot by auto
  have "cumulative_of dt' m w = (if \<exists>h. tracked_supply dt0 m w h then total_sold (insert ob past) m w else 0)" for m w
  proof (cases "(m, w) = (ob_mint ob, ob_wallet ob)")
    case True
    with h show ?thesis by (auto simp: dt' cumulative_of_def)
  next
    case False
    then have "cumulative_of dt' m w = cumulative_of dt m w" "total_sold (insert ob past) m w = total_sold past m w"
      using total_sold_insert [OF fin assms(2), of m w] by (auto simp: dt' cumulative_of_def)
    with assms(1) show ?thesis by (simp add: counted_def)
  qed
  moreover have "map_of (insider_dump_flags s') m \<noteq> None \<longleftrightarrow> dumped dt0 (insert ob past) m" for m
    using flags [of m] dumped_insert_tracked [OF fin assms(2) h amount, of m] assms(1) by (simp add: counted_def)
  ultimately show ?thesis
    using r assms(1,2) fin by (auto simp: counted_def) (auto simp: dt' same_wiring_def)
qed

lemma counted_step:
  assumes "counted dt0 dt s past" and "mk_SellObservation ob = Inr ob" and "inj_on dedupe_key (insert ob past)"
    and "int (card (insert ob past)) \<le> dt_seen_capacity dt0"
    and "\<forall>ob \<in> past. 0 \<le> ob_token_amount_sold_base ob" and "dt_has_sink dt0"
    and "insider_on_sell pick now dt s ob True = (dt', s', r)"
  shows "counted dt0 dt' s' (insert ob past) \<and> (\<exists>x. r = Inr x)"
proof (cases "ob \<in> past")
  case True
  with assms(1) have "dedupe_key ob \<in> set (dt_seen dt)" by (simp add: counted_def)
  with assms(1,7) True show ?thesis by (auto simp: insider_on_sell_def Let_def insert_absorb)
next
  case False
  have c: "set (dt_seen dt) = dedupe_key ` past" "length (dt_seen dt) = card past" "finite past"
    "same_wiring dt dt0" using assms(1) by (auto simp: counted_def)
  have new: "dedupe_key ob \<notin> set (dt_seen dt)" using assms(3) False c(1) by (auto simp: inj_on_def)
  have room: "int (length (dt_seen dt)) < dt_seen_capacity dt"
    using assms(4) False c by (simp add: same_wiring_def)
  have rem: "remember_key pick (dt\<lparr>dt_stats := x\<rparr>) (dedupe_key ob) = dt\<lparr>dt_seen := dt_seen dt @ [dedupe_key ob], dt_stats := x\<rparr>" for x
    using remember_fits [of "dt\<lparr>dt_stats := x\<rparr>" pick "dedupe_key ob"] room by simp
  have same: "role_of (dt\<lparr>dt_seen := a, dt_stats := b\<rparr>) m w = role_of dt0 m w"
    "held_supply_base (dt_held_supply dt) m w = held_supply_base (dt_held_supply dt0) m w" for a b m w
    using c(4) role_of_same [of "dt\<lparr>dt_seen := a, dt_stats := b\<rparr>" dt0 m w] by (simp_all add: same_wiring_def)
  show ?thesis
  proof (cases "\<exists>h. tracked_supply dt0 (ob_mint ob) (ob_wallet ob) h")
    case True
    then obtain h role where h: "tracked_supply dt0 (ob_mint ob) (ob_wallet ob) h"
      "role_of dt0 (ob_mint ob) (ob_wallet ob) = Some role"
      "held_supply_base (dt_held_supply dt0) (ob_mint ob) (ob_wallet ob) = Some h" "0 < h"
      by (auto simp: tracked_supply_def)
    with assms(7) new rem same obtain st where
      "raise_dump now (dt\<lparr>dt_seen := dt_seen dt @ [dedupe_key ob], dt_stats := st\<rparr>) s ob role h = (dt', s', r)"
      by (auto simp: insider_on_sell_def Let_def)
    from counted_tracked [OF assms(1) False h(1) assms(2,5,6) this] show ?thesis .
  next
    case untracked: False
    have "\<exists>st. dt' = dt\<lparr>dt_seen := dt_seen dt @ [dedupe_key ob], dt_stats := st\<rparr> \<and> s' = s \<and> r = Inr None"
      using assms(7) new rem same untracked
      by (auto simp: insider_on_sell_def Let_def tracked_supply_def split: option.splits if_splits)
    with counted_untracked [OF assms(1) False] untracked show ?thesis by auto
  qed
qed

lemma counted_run:
  assumes "counted dt0 dt s past" and "\<forall>(t, ob) \<in> set obs. mk_SellObservation ob = Inr ob"
    and "inj_on dedupe_key (past \<union> snd ` set obs)" and "int (card (past \<union> snd ` set obs)) \<le> dt_seen_capacity dt0"
    and "\<forall>ob \<in> past. 0 \<le> ob_token_amount_sold_base ob" and "dt_has_sink dt0"
    and "insider_run pick dt s obs = (dt', s', rs)"
  shows "counted dt0 dt' s' (past \<union> snd ` set obs) \<and> (\<forall>r \<in> set rs. \<exists>x. r = Inr x)"
  using assms
proof (induction obs arbitrary: dt s past rs)
  case (Cons c obs)
  obtain now ob where c: "c = (now, ob)" by (cases c)
  obtain dt1 s1 r rs' where run: "insider_on_sell pick now dt s ob True = (dt1, s1, r)"
    "insider_run pick dt1 s1 obs = (dt', s', rs')" "rs = r # rs'"
    using Cons.prems(7) by (auto simp: c split: prod.splits)
  have fin: "finite past" using Cons.prems(1) by (simp add: counted_def)
  have split: "past \<union> snd ` set (c # obs) = insert ob past \<union> snd ` set obs" by (simp add: c)
  have ob: "mk_SellObservation ob = Inr ob" "0 \<le> ob_token_amount_sold_base ob"
    using Cons.prems(2) by (auto simp: c mk_SellObservation_def split: if_splits)
  have "inj_on dedupe_key (insert ob past)" using Cons.prems(3) unfolding split by (rule inj_on_subset) blast
  moreover have "card (insert ob past) \<le> card (insert ob past \<union> snd ` set obs)"
    using fin by (intro card_mono) auto
  then have "int (card (insert ob past)) \<le> dt_seen_capacity dt0" using Cons.prems(4) unfolding split by linarith
  ultimately have step: "counted dt0 dt1 s1 (insert ob past)" "\<exists>x. r = Inr x"
    using counted_step [OF Cons.prems(1) ob(1) _ _ Cons.prems(5,6) run(1)] by blast+
  have "counted dt0 dt' s' (insert ob past \<union> snd ` set obs) \<and> (\<forall>r \<in> set rs'. \<exists>x. r = Inr x)"
    using Cons.prems ob(2) by (intro Cons.IH [OF step(1) _ _ _ _ Cons.prems(6) run(2)]) (auto simp: c)
  with step(2) run(3) show ?case by (simp add: c)
qed simp

text \<open>
  C23. The insider-dump detector counts exactly. Over any sequence of observed sells of open positions,
  in any order and with any repetitions, as long as the seen keys fit its capacity and a
  transaction key names one sell: the cumulative amount of every tracked wallet with a known
  baseline is the sum over the set of its sells, no other wallet is charged, no call raises, and
  the flag of a mint is raised exactly when some tracked wallet has sold at least the threshold's
  share of its baseline. Order and replay change nothing.
\<close>

theorem insider_detector_counts_exactly:
  assumes "dt_seen dt = []" and "dt_cumulative_sold dt = []" and "dt_has_sink dt" and "1 \<le> ic_threshold_bps (dt_config dt)"
    and "insider_dump_flags s = []" and "\<forall>(t, ob) \<in> set obs. mk_SellObservation ob = Inr ob"
    and "inj_on dedupe_key (snd ` set obs)" and "int (card (snd ` set obs)) \<le> dt_seen_capacity dt"
    and "insider_run pick dt s obs = (dt', s', rs)"
  shows "(\<forall>m w. cumulative_of dt' m w =
       (if \<exists>h. tracked_supply dt m w h then total_sold (snd ` set obs) m w else 0)) \<and>
    (\<forall>r \<in> set rs. \<exists>x. r = Inr x) \<and>
    (\<forall>m. map_of (insider_dump_flags s') m \<noteq> None \<longleftrightarrow>
       (\<exists>w h. tracked_supply dt m w h \<and>
         ic_threshold_bps (dt_config dt) \<le> min 10000 (total_sold (snd ` set obs) m w * 10000 div h)))"
proof -
  have "counted dt dt s {}"
    using assms(1,2,4,5) by (auto simp: counted_def same_wiring_def cumulative_of_def total_sold_def dumped_def)
  from counted_run [OF this assms(6) _ _ _ assms(3) assms(9)] assms(7,8) show ?thesis
    by (simp add: counted_def dumped_def)
qed

definition demo_detector :: insider_detector where
  "demo_detector =
     (new_insider_detector \<lparr>ic_threshold_bps = 2000, ic_flag_ttl_seconds = 120\<rparr> [((''m'', ''w''), 1000)] True 50000)
       \<lparr>dt_creator_wallet := [(''m'', ''w'')]\<rparr>"

definition demo_sell :: "string \<Rightarrow> int \<Rightarrow> sell_observation" where
  "demo_sell tx amount =
     \<lparr>ob_mint = ''m'', ob_wallet = ''w'', ob_token_amount_sold_base = amount, ob_event_slot = 1, ob_block_time_ms = 1,
      ob_signature = tx, ob_instruction_index = 0\<rparr>"

theorem insider_detector_counts_exactly_witness:
  "map_of (insider_dump_flags (fst (snd (insider_run hd demo_detector empty_store
     [(0, demo_sell ''a'' 150), (1, demo_sell ''b'' 50), (2, demo_sell ''a'' 150)])))) ''m'' \<noteq> None"
proof -
  let ?obs = "[(0, demo_sell ''a'' 150), (1, demo_sell ''b'' 50), (2, demo_sell ''a'' 150)]"
  obtain dt' s' rs where run: "insider_run hd demo_detector empty_store ?obs = (dt', s', rs)"
    by (cases "insider_run hd demo_detector empty_store ?obs")
  have obs: "snd ` set ?obs = {demo_sell ''a'' 150, demo_sell ''b'' 50}" by auto
  have ne: "demo_sell ''a'' 150 \<noteq> demo_sell ''b'' 50" by (simp add: demo_sell_def)
  have "{ob \<in> {demo_sell ''a'' 150, demo_sell ''b'' 50}. ob_mint ob = ''m'' \<and> ob_wallet ob = ''w''} =
      {demo_sell ''a'' 150, demo_sell ''b'' 50}" by (auto simp: demo_sell_def)
  with ne have total: "total_sold (snd ` set ?obs) ''m'' ''w'' = 200"
    unfolding obs total_sold_def by (simp add: demo_sell_def)
  have tracked: "tracked_supply demo_detector ''m'' ''w'' 1000"
    by (simp add: tracked_supply_def role_of_def held_supply_base_def demo_detector_def new_insider_detector_def)
  have d: "dt_seen demo_detector = []" "dt_cumulative_sold demo_detector = []" "dt_has_sink demo_detector"
    "1 \<le> ic_threshold_bps (dt_config demo_detector)" "ic_threshold_bps (dt_config demo_detector) = 2000"
    "insider_dump_flags empty_store = []" "dt_seen_capacity demo_detector = 50000"
    by (simp_all add: demo_detector_def new_insider_detector_def empty_store_def)
  have ok: "\<forall>(t, ob) \<in> set ?obs. mk_SellObservation ob = Inr ob" by (simp add: mk_SellObservation_def demo_sell_def)
  have inj: "inj_on dedupe_key (snd ` set ?obs)" unfolding obs by (simp add: inj_on_def dedupe_key_def demo_sell_def)
  have card: "int (card (snd ` set ?obs)) \<le> dt_seen_capacity demo_detector"
    unfolding obs d(7) using ne by simp
  from insider_detector_counts_exactly [OF d(1-4,6) ok inj card run] tracked total d(5) run show ?thesis by fastforce
qed

text \<open>A detector whose baselines were never registered refuses every sell: it raises no flag.\<close>

lemma unseeded_detector_never_flags:
  assumes "dt_held_supply dt = []" and "insider_on_sell pick now dt s ob is_open = (dt', s', r)"
  shows "s' = s \<and> r = Inr None \<and> dt_held_supply dt' = []"
  using assms
  by (auto simp: insider_on_sell_def Let_def remember_key_def held_supply_base_def split: if_splits option.splits)

subsection \<open>Producers of flags leave the book alone\<close>

definition same_book :: "store \<Rightarrow> store \<Rightarrow> bool" where
  "same_book s t \<longleftrightarrow>
     positions t = positions s \<and> fsm_locks t = fsm_locks s \<and> cooldowns t = cooldowns s \<and>
     seen_intents t = seen_intents s \<and> st_breaker t = st_breaker s"

lemma same_book_refl [simp]: "same_book s s"
  by (simp add: same_book_def)

lemma same_book_trans: "same_book s t \<Longrightarrow> same_book t u \<Longrightarrow> same_book s u"
  by (simp add: same_book_def)

text \<open>
  What the loops rely on from everything that only advises them: a step writes signals and flags,
  never a position, a lock, a cooldown, an intent mark or the breaker projection.
\<close>

locale flag_producer =
  fixes step :: "store \<Rightarrow> 'e \<Rightarrow> store"
  assumes step_same_book: "same_book s (step s e)"
begin

lemma run_same_book: "same_book s (foldl step s es)"
  by (induction es arbitrary: s) (auto intro: same_book_trans step_same_book)

lemma run_exposure: "get_aggregate_open_lamports (foldl step s es) = get_aggregate_open_lamports s"
  using run_same_book [of s es] by (simp add: same_book_def get_aggregate_open_lamports_def)

lemma run_tracked: "book_tracked fs \<Longrightarrow> book_tracked (fs\<lparr>fs_store := foldl step (fs_store fs) es\<rparr>)"
  using run_same_book [of "fs_store fs" es]
  by (auto simp: same_book_def book_tracked_def synced_at_def store_ok_def load_position_def load_all_positions_def
      split: prod.splits)

end

lemma set_flags_same_book:
  "same_book s (set_veto_flag s m ttl now)" "same_book s (set_narrative_failure_flag s m ttl now)"
  "same_book s (set_decision_signal s sg ttl now)"
  "set_insider_dump_flag s m fr sl ttl now = Inr t \<Longrightarrow> same_book s t"
  by (auto simp: same_book_def set_veto_flag_def set_narrative_failure_flag_def set_decision_signal_def
      set_insider_dump_flag_def split: if_splits)

lemma slow_process_same_book: "same_book s (fst (slow_process_event sw now s ev))"
proof -
  have "same_book t (apply_reasoning_verdict sw now t m v)" for t m v
    by (simp add: apply_reasoning_verdict_def set_flags_same_book split: reasoning_action.split)
  then show ?thesis
    by (auto simp: slow_process_event_def Let_def set_flags_same_book
        intro: same_book_trans [OF set_flags_same_book(3)] split: sum.split option.split)
qed

lemma directive_same_book: "same_book s (snd (apply_directive w now s m d))"
  by (simp add: apply_directive_def Let_def set_flags_same_book split: regime_directive.split)

lemma insider_same_book: "same_book s (fst (snd (insider_on_sell pick now dt s ob is_open)))"
proof -
  have "same_book s (fst (snd (raise_dump now dt' s ob role h)))" for dt' role h
    by (auto simp: raise_dump_def Let_def dest: set_flags_same_book(4) split: sum.split)
  then show ?thesis by (simp add: insider_on_sell_def Let_def split: option.split)
qed

datatype producer_event =
    Slow_event millis launch_event
  | Directive_event regime_wiring millis mint regime_directive
  | Sell_event millis insider_detector sell_observation bool

fun producer_step :: "slow_loop \<Rightarrow> ((string \<times> int) list \<Rightarrow> string \<times> int) \<Rightarrow> store \<Rightarrow> producer_event \<Rightarrow> store" where
  "producer_step sw pick s (Slow_event now ev) = fst (slow_process_event sw now s ev)"
| "producer_step sw pick s (Directive_event w now m d) = snd (apply_directive w now s m d)"
| "producer_step sw pick s (Sell_event now dt ob is_open) = fst (snd (insider_on_sell pick now dt s ob is_open))"

interpretation producers: flag_producer "producer_step sw pick" for sw pick
proof
  fix s e
  show "same_book s (producer_step sw pick s e)"
    by (cases e) (simp_all add: slow_process_same_book directive_same_book insider_same_book)
qed

text \<open>
  Advice never touches the book. Over any interleaving of SLOW-loop events, regime and survivor
  directives and observed sells, whatever the models answer: positions, exposure, entry locks,
  cooldowns, intent marks and the breaker projection are unchanged, and a book that the FAST loop
  tracked is still tracked.
\<close>

theorem flag_producers_keep_book:
  assumes "book_tracked fs" and "s' = foldl (producer_step sw pick) (fs_store fs) es"
  shows "same_book (fs_store fs) s' \<and> get_aggregate_open_lamports s' = get_aggregate_open_lamports (fs_store fs) \<and>
    book_tracked (fs\<lparr>fs_store := s'\<rparr>)"
  using assms producers.run_same_book producers.run_exposure producers.run_tracked by simp

theorem flag_producers_keep_book_witness:
  "book_tracked (demo_loop\<lparr>fs_store := foldl
     (producer_step \<lparr>sw_classifier = (\<lambda>_. Inr None), sw_reasoner = None, sw_signal_ttl = 30, sw_veto_ttl = 60,
        sw_narrative_ttl = 120\<rparr> hd) (fs_store demo_loop) [Sell_event 0 demo_detector (demo_sell ''a'' 1000) True]\<rparr>)"
  using flag_producers_keep_book [OF demo_loop_tracked(1) refl] by blast
end
