(* ===== verification/Snipe_Loop.thy ===== *)
theory Snipe_Loop
  imports Position_FSM Cost_Gate Sizing
begin

text \<open>
  The SNIPE loop, \<open>aats/controller/snipe_loop.py\<close>: one launch event is turned into an entry or
  skipped. The pre-trade gate, the sizing engine, the cost model and the venue are injected and
  appear as parameters (a sizing engine or cost model may raise). \<open>now\<close> is the store's clock
  reading and \<open>elapsed\<close> the latency measured by the budget check; the candidate queue is an
  observability write and is left out. A call returns the store, the outcome or exception, and
  the intents handed to the venue.
\<close>

subsection \<open>Configuration and outcomes\<close>

record snipe_loop =
  sl_config :: risk_config
  sl_gate :: "(launch_event \<Rightarrow> bool) option"
  sl_sizing :: "(rat \<Rightarrow> rat \<Rightarrow> lamports \<Rightarrow> risk_config \<Rightarrow> lamports result) option"
  sl_cost_model :: "(launch_event \<Rightarrow> lamports \<Rightarrow> lamports \<Rightarrow> cost_stack option result) option"
  default_tip :: lamports
  default_cu :: int
  latency_budget_ms :: "millis option"
  min_sol :: lamports
  sl_wallet_id :: string
  venue_name :: string

datatype snipe_skip_reason =
    NO_SIGNAL
  | STALE_SIGNAL
  | VETO_ACTIVE
  | IN_COOLDOWN
  | FSM_CONFLICT
  | SAFETY_GATE_FAIL
  | BREAKER_TRIPPED
  | COST_GATE_FAIL
  | BELOW_THRESHOLD
  | DUPLICATE_INTENT
  | BUDGET_BLOWN
  | SIZE_ZERO
  | INTENT_VALIDATION_FAIL

datatype snipe_outcome = Skipped snipe_skip_reason | Filled fill_result

datatype snipe_precheck = Skip snipe_skip_reason | Go decision_signal lamports

subsection \<open>Sizing fallback and default cost stack\<close>

definition snipe_size :: "snipe_loop \<Rightarrow> store \<Rightarrow> decision_signal \<Rightarrow> lamports result" where
  "snipe_size sl s sg =
     (let current_agg = get_aggregate_open_lamports s in
      case sl_sizing sl of
        Some compute \<Rightarrow> compute (p_calibrated sg) (uncertainty sg) current_agg (sl_config sl)
      | None \<Rightarrow>
          let remaining_headroom = max 0 (max_aggregate_lamports (sl_config sl) - current_agg) in
          Inr (min (min_sol sl) (min (per_trade_cap_lamports (sl_config sl)) remaining_headroom)))"

definition make_default_cost_stack :: "risk_config \<Rightarrow> lamports \<Rightarrow> lamports \<Rightarrow> cost_stack result" where
  "make_default_cost_stack config sol_in tip =
     (let adverse_sel = pre_calibration_haircut_bps config;
          jito = max 1 ((tip * 10000) div max 1 sol_in);
          total = 50 + 50 + adverse_sel + jito + 10;
          edge = total + 100 in
      mk_CostStack
        \<lparr>expected_edge_bps = edge, jito_tip_bps = jito, priority_fee_bps = 10,
         cs_entry_slippage_bps = 50, amm_fee_bps = 50, exit_slippage_bps = 50,
         adverse_selection_bps = adverse_sel, total_cost_bps = total\<rparr>)"

definition snipe_hard_stop :: "launch_event \<Rightarrow> lamports" where
  "snipe_hard_stop ev =
     max 1 (trunc (ddiv (dmul (ddiv (of_int (sol_reserve_lamports ev))
                                    (of_int (max 1 (token_reserve_base ev)))) 6) 10))"

subsection \<open>Steps 1 to 5: reads and gates\<close>

definition snipe_prechecks ::
    "snipe_loop \<Rightarrow> store \<Rightarrow> millis \<Rightarrow> launch_event \<Rightarrow> store \<times> snipe_precheck result" where
  "snipe_prechecks sl s now ev =
     (let m = le_mint ev in
      if (case load_breaker_state s of None \<Rightarrow> False | Some b \<Rightarrow> status b = TRIPPED)
      then (s, Inr (Skip BREAKER_TRIPPED))
      else case in_cooldown s m now of (s1, cooling) \<Rightarrow>
      if cooling then (s1, Inr (Skip IN_COOLDOWN))
      else case get_decision_signal s1 m now of
        (s2, None) \<Rightarrow> (s2, Inr (Skip NO_SIGNAL))
      | (s2, Some sg) \<Rightarrow>
          if p_calibrated sg < snipe_threshold (sl_config sl) then (s2, Inr (Skip BELOW_THRESHOLD))
          else if data_staleness_ms ev > 5000 then (s2, Inr (Skip STALE_SIGNAL))
          else case get_veto_flag s2 m now of (s3, vetoed) \<Rightarrow>
          if vetoed then (s3, Inr (Skip VETO_ACTIVE))
          else if (case sl_gate sl of None \<Rightarrow> False | Some gate \<Rightarrow> \<not> gate ev)
          then (s3, Inr (Skip SAFETY_GATE_FAIL))
          else case snipe_size sl s3 sg of
            Inl e \<Rightarrow> (s3, Inl e)
          | Inr sol_in \<Rightarrow> if sol_in \<le> 0 then (s3, Inr (Skip SIZE_ZERO)) else (s3, Inr (Go sg sol_in)))"

subsection \<open>Steps 6 to 11: claim, build, write ahead, submit\<close>

definition snipe_cost :: "snipe_loop \<Rightarrow> launch_event \<Rightarrow> lamports \<Rightarrow> cost_stack option result" where
  "snipe_cost sl ev sol_in =
     (case sl_cost_model sl of
        Some compute \<Rightarrow> compute ev sol_in (default_tip sl)
      | None \<Rightarrow> map_sum id Some (make_default_cost_stack (sl_config sl) sol_in (default_tip sl)))"

definition snipe_intent :: "snipe_loop \<Rightarrow> launch_event \<Rightarrow> lamports \<Rightarrow> cost_stack \<Rightarrow> entry_intent" where
  "snipe_intent sl ev sol_in cs =
     \<lparr>en_client_intent_id = make_client_intent_id (le_mint ev) (slot (le_event_time ev)) ''ENTRY'',
      en_mint = le_mint ev, en_event_time = le_event_time ev, en_sol_in_lamports = sol_in,
      en_slippage_bps = max_slippage_bps (sl_config sl), en_tip_lamports = default_tip sl,
      en_cu_price_microlamports = default_cu sl, en_target_slot = slot (le_event_time ev) + 6,
      en_cost_stack = cs, en_venue = venue_name sl, en_wallet_id = sl_wallet_id sl\<rparr>"

definition snipe_enter ::
    "(entry_intent \<Rightarrow> launch_event \<Rightarrow> fill_result) \<Rightarrow> snipe_loop \<Rightarrow> store \<Rightarrow> millis \<Rightarrow> millis \<Rightarrow>
     launch_event \<Rightarrow> decision_signal \<Rightarrow> lamports \<Rightarrow> store \<times> snipe_outcome result \<times> entry_intent list" where
  "snipe_enter execute sl s now elapsed ev sg sol_in =
     (let m = le_mint ev;
          intent_id = make_client_intent_id m (slot (le_event_time ev)) ''ENTRY'' in
      case mark_intent_seen s intent_id 120 now of (s1, first) \<Rightarrow>
      if \<not> first then (s1, Inr (Skipped DUPLICATE_INTENT), [])
      else case claim_entering s1 m intent_id 30 now of (s2, claimed) \<Rightarrow>
      if \<not> claimed then (s2, Inr (Skipped FSM_CONFLICT), [])
      else case snipe_cost sl ev sol_in of
        Inl e \<Rightarrow> (s2, Inl e, [])
      | Inr None \<Rightarrow> (release_entering s2 m, Inr (Skipped COST_GATE_FAIL), [])
      | Inr (Some cs) \<Rightarrow>
          (case mk_EntryIntent (snipe_intent sl ev sol_in cs) of
             Inl e \<Rightarrow> (release_entering s2 m, Inr (Skipped INTENT_VALIDATION_FAIL), [])
           | Inr intent \<Rightarrow>
               (case create_entering s2 m m (surface sg) (slot (le_event_time ev)) sol_in 0 0 ''default''
                       Secure 3 (snipe_hard_stop ev) cs of
                  Inl e \<Rightarrow> (s2, Inl e, [])
                | Inr (s3, p) \<Rightarrow>
                    if (case latency_budget_ms sl of None \<Rightarrow> False | Some budget \<Rightarrow> elapsed > budget)
                    then (delete_position (release_entering s3 m) m, Inr (Skipped BUDGET_BLOWN), [])
                    else (s3, Inr (Filled (execute intent ev)), [intent]))))"

definition process_event ::
    "(entry_intent \<Rightarrow> launch_event \<Rightarrow> fill_result) \<Rightarrow> snipe_loop \<Rightarrow> store \<Rightarrow> millis \<Rightarrow> millis \<Rightarrow>
     launch_event \<Rightarrow> store \<times> snipe_outcome result \<times> entry_intent list" where
  "process_event execute sl s now elapsed ev =
     (case snipe_prechecks sl s now ev of
        (s1, Inl e) \<Rightarrow> (s1, Inl e, [])
      | (s1, Inr (Skip why)) \<Rightarrow> (s1, Inr (Skipped why), [])
      | (s1, Inr (Go sg sol_in)) \<Rightarrow> snipe_enter execute sl s1 now elapsed ev sg sol_in)"

subsection \<open>Facts about the reads\<close>

text \<open>The part of the store the reads leave alone.\<close>

definition same_core :: "store \<Rightarrow> store \<Rightarrow> bool" where
  "same_core s t \<longleftrightarrow>
     positions t = positions s \<and> fsm_locks t = fsm_locks s \<and> seen_intents t = seen_intents s \<and>
     st_breaker t = st_breaker s"

lemma same_core_facts:
  assumes "same_core s t"
  shows "load_position t m = load_position s m" "lock_held t m now = lock_held s m now"
    "intent_held t i now = intent_held s i now"
    "get_aggregate_open_lamports t = get_aggregate_open_lamports s" "store_ok t = store_ok s"
    "load_breaker_state t = load_breaker_state s"
  using assms
  by (simp_all add: same_core_def load_position_def lock_held_def get_fsm_lock_def intent_held_def
      get_aggregate_open_lamports_def store_ok_def load_breaker_state_def)

lemma read_in_cooldown: "in_cooldown s m now = (s\<lparr>cooldowns := fst (ttl_get (cooldowns s) m now)\<rparr>, snd (in_cooldown s m now))"
  by (simp add: in_cooldown_def case_prod_beta)

lemma read_signal:
  "get_decision_signal s m now = (s\<lparr>signals := fst (ttl_get (signals s) m now)\<rparr>, snd (ttl_get (signals s) m now))"
  by (simp add: get_decision_signal_def case_prod_beta)

lemma read_veto: "get_veto_flag s m now = (s\<lparr>veto_flags := fst (ttl_get (veto_flags s) m now)\<rparr>, snd (get_veto_flag s m now))"
  by (simp add: get_veto_flag_def case_prod_beta)

lemma veto_of_fields: "veto_flags t = veto_flags s \<Longrightarrow> snd (get_veto_flag t m now) = snd (get_veto_flag s m now)"
  by (simp add: get_veto_flag_def case_prod_beta)

lemma snipe_prechecks_frame: "snipe_prechecks sl s now ev = (t, r) \<Longrightarrow> same_core s t"
  unfolding snipe_prechecks_def Let_def
  by (subst (asm) read_in_cooldown, subst (asm) read_signal, subst (asm) read_veto)
    (auto simp: same_core_def split: if_splits option.splits sum.splits)

text \<open>What a passed precheck establishes.\<close>

definition snipe_gates_pass :: "snipe_loop \<Rightarrow> store \<Rightarrow> millis \<Rightarrow> launch_event \<Rightarrow> decision_signal \<Rightarrow> bool" where
  "snipe_gates_pass sl s now ev sg \<longleftrightarrow>
     (\<forall>b. load_breaker_state s = Some b \<longrightarrow> status b = ARMED) \<and>
     \<not> snd (in_cooldown s (le_mint ev) now) \<and>
     snd (get_decision_signal s (le_mint ev) now) = Some sg \<and>
     snipe_threshold (sl_config sl) \<le> p_calibrated sg \<and>
     data_staleness_ms ev \<le> 5000 \<and>
     \<not> snd (get_veto_flag s (le_mint ev) now) \<and>
     (\<forall>gate. sl_gate sl = Some gate \<longrightarrow> gate ev)"

lemma breaker_armed_iff: "status b \<noteq> TRIPPED \<longleftrightarrow> status b = ARMED"
  by (cases "status b") simp_all

lemma snipe_prechecks_Go:
  "(\<exists>t. snipe_prechecks sl s now ev = (t, Inr (Go sg sol))) \<longleftrightarrow>
     snipe_gates_pass sl s now ev sg \<and> snipe_size sl s sg = Inr sol \<and> 0 < sol"
proof -
  have sz: "snipe_size sl (s\<lparr>cooldowns := a, signals := b, veto_flags := c\<rparr>) sg' = snipe_size sl s sg'" for a b c sg'
    by (simp add: snipe_size_def get_aggregate_open_lamports_def)
  show ?thesis
    unfolding snipe_prechecks_def Let_def snipe_gates_pass_def
    by (subst read_in_cooldown, subst read_signal, subst read_veto, subst read_signal)
      (auto simp: sz veto_of_fields [of "s\<lparr>cooldowns := a, signals := b\<rparr>" s for a b] not_less not_le
        breaker_armed_iff [symmetric] split: option.splits sum.splits if_splits)
qed

subsection \<open>Facts about entering\<close>

definition entry_id :: "launch_event \<Rightarrow> client_id" where
  "entry_id ev = make_client_intent_id (le_mint ev) (slot (le_event_time ev)) ''ENTRY''"

lemma mark_intent_frame:
  "positions (fst (mark_intent_seen s i ttl now)) = positions s"
  "fsm_locks (fst (mark_intent_seen s i ttl now)) = fsm_locks s"
  by (simp_all add: mark_intent_seen_def)

lemma claim_frame:
  "positions (fst (claim_entering s m i ttl now)) = positions s"
  "seen_intents (fst (claim_entering s m i ttl now)) = seen_intents s"
  by (simp_all add: claim_entering_def Let_def)

lemma lock_of_locks: "fsm_locks t = fsm_locks s \<Longrightarrow> lock_held t m x = lock_held s m x"
  by (simp add: lock_held_def get_fsm_lock_def)

lemma intent_of_seen: "seen_intents t = seen_intents s \<Longrightarrow> intent_held t i x = intent_held s i x"
  by (simp add: intent_held_def)

lemma load_of_positions: "positions t = positions s \<Longrightarrow> load_position t m = load_position s m"
  by (simp add: load_position_def)

lemma release_not_held [simp]: "\<not> lock_held (release_entering s m) m x"
  by (simp add: lock_held_def get_fsm_lock_def release_entering_def)

lemma mark_intent_first: "snd (mark_intent_seen s i ttl now) \<longleftrightarrow> \<not> intent_held s i now"
  using dedup.claim_granted_iff by simp

lemma mark_intent_held:
  "\<not> intent_held s i now \<Longrightarrow> intent_held (fst (mark_intent_seen s i ttl now)) i x \<longleftrightarrow> x < now + ttl * 1000"
  using dedup.claim_holds [of s i ttl now x] by (simp add: mark_intent_first)

lemma mark_intent_other:
  "i \<noteq> j \<Longrightarrow> intent_held (fst (mark_intent_seen s j ttl now)) i x = intent_held s i x"
  using dedup.claim_other by simp

lemma mark_intent_refused:
  "intent_held s j now \<Longrightarrow> intent_held (fst (mark_intent_seen s j ttl now)) i x = intent_held s i x"
  by (auto simp: mark_intent_seen_def intent_held_def)

text \<open>The position written ahead of the submission.\<close>

definition entering_position :: "launch_event \<Rightarrow> decision_signal \<Rightarrow> lamports \<Rightarrow> cost_stack \<Rightarrow> position" where
  "entering_position ev sg sol_in cs =
     \<lparr>pos_mint = le_mint ev, pos_token = le_mint ev, pos_surface = surface sg, fsm_state = ENTERING,
      entry_slot = slot (le_event_time ev), sol_in_lamports = sol_in, tokens_out_base = 0,
      entry_slippage_bps = 0, exit_config_label = ''default'', pos_exit_mode = Secure, tp_hit = 0,
      tp_total = 3, trailing_armed = False, hard_stop_price_lamports = snipe_hard_stop ev,
      realized_pnl_net_lamports = None, unrealized_pnl_net_lamports = 0, cost_breakdown = cs,
      pos_status = Open_status, completeness_status = Complete\<rparr>"

lemma entering_position_simps [simp]:
  "pos_mint (entering_position ev sg sol cs) = le_mint ev"
  "fsm_state (entering_position ev sg sol cs) = ENTERING"
  "sol_in_lamports (entering_position ev sg sol cs) = sol"
  "entry_slot (entering_position ev sg sol cs) = slot (le_event_time ev)"
  by (simp_all add: entering_position_def)

lemma create_entering_snipe:
  "create_entering s (le_mint ev) (le_mint ev) (surface sg) (slot (le_event_time ev)) sol 0 0 ''default''
     Secure 3 (snipe_hard_stop ev) cs =
   Inr (save_position s (entering_position ev sg sol cs), entering_position ev sg sol cs)"
  by (simp add: create_entering_def mk_Position_def entering_position_def)

text \<open>The store after both claims of step 6.\<close>

definition claimed_store :: "store \<Rightarrow> millis \<Rightarrow> launch_event \<Rightarrow> store" where
  "claimed_store s now ev =
     fst (claim_entering (fst (mark_intent_seen s (entry_id ev) 120 now)) (le_mint ev) (entry_id ev) 30 now)"

lemma snipe_enter_eq:
  "snipe_enter execute sl s now elapsed ev sg sol =
    (let s1 = fst (mark_intent_seen s (entry_id ev) 120 now); s2 = claimed_store s now ev; m = le_mint ev in
     if intent_held s (entry_id ev) now then (s1, Inr (Skipped DUPLICATE_INTENT), [])
     else if lock_held s m now then (s2, Inr (Skipped FSM_CONFLICT), [])
     else case snipe_cost sl ev sol of
       Inl e \<Rightarrow> (s2, Inl e, [])
     | Inr None \<Rightarrow> (release_entering s2 m, Inr (Skipped COST_GATE_FAIL), [])
     | Inr (Some cs) \<Rightarrow>
         if mk_EntryIntent (snipe_intent sl ev sol cs) \<noteq> Inr (snipe_intent sl ev sol cs)
         then (release_entering s2 m, Inr (Skipped INTENT_VALIDATION_FAIL), [])
         else if (case latency_budget_ms sl of None \<Rightarrow> False | Some budget \<Rightarrow> elapsed > budget)
         then (delete_position (release_entering (save_position s2 (entering_position ev sg sol cs)) m) m,
               Inr (Skipped BUDGET_BLOWN), [])
         else (save_position s2 (entering_position ev sg sol cs),
               Inr (Filled (execute (snipe_intent sl ev sol cs) ev)), [snipe_intent sl ev sol cs]))"
proof -
  have lock: "lock_held (fst (mark_intent_seen s i ttl now)) m now = lock_held s m now" for i ttl m
    by (rule lock_of_locks [OF mark_intent_frame(2)])
  show ?thesis
    unfolding snipe_enter_def claimed_store_def Let_def entry_id_def [symmetric]
    by (auto simp: case_prod_beta mark_intent_first claim_entering_iff lock create_entering_snipe
        mk_EntryIntent_def split: option.splits sum.splits if_splits)
qed

lemma claimed_store_facts:
  assumes "\<not> intent_held s (entry_id ev) now" and "\<not> lock_held s (le_mint ev) now"
  shows "positions (claimed_store s now ev) = positions s"
    "lock_held (claimed_store s now ev) (le_mint ev) x \<longleftrightarrow> x < now + 30000"
    "m \<noteq> le_mint ev \<Longrightarrow> lock_held (claimed_store s now ev) m x = lock_held s m x"
    "intent_held (claimed_store s now ev) (entry_id ev) x \<longleftrightarrow> x < now + 120000"
    "i \<noteq> entry_id ev \<Longrightarrow> intent_held (claimed_store s now ev) i x = intent_held s i x"
proof -
  let ?s1 = "fst (mark_intent_seen s (entry_id ev) 120 now)"
  have lock: "lock_held ?s1 m x = lock_held s m x" for m x by (rule lock_of_locks [OF mark_intent_frame(2)])
  show "positions (claimed_store s now ev) = positions s"
    by (simp add: claimed_store_def claim_frame mark_intent_frame)
  show "lock_held (claimed_store s now ev) (le_mint ev) x \<longleftrightarrow> x < now + 30000"
    using claim_entering_granted [of ?s1 "le_mint ev" now "entry_id ev" 30 x] assms(2)
    by (simp add: claimed_store_def lock)
  show "m \<noteq> le_mint ev \<Longrightarrow> lock_held (claimed_store s now ev) m x = lock_held s m x"
    by (simp add: claimed_store_def claim_entering_other lock)
  show "intent_held (claimed_store s now ev) (entry_id ev) x \<longleftrightarrow> x < now + 120000"
    using mark_intent_held [OF assms(1), of 120 x]
    by (simp add: claimed_store_def intent_of_seen [OF claim_frame(2)])
  show "i \<noteq> entry_id ev \<Longrightarrow> intent_held (claimed_store s now ev) i x = intent_held s i x"
    by (simp add: claimed_store_def intent_of_seen [OF claim_frame(2)] mark_intent_other)
qed

lemma process_event_submits:
  assumes "process_event execute sl s now elapsed ev = (t, r, out)" and "out \<noteq> []"
  obtains s1 sg sol cs where "snipe_prechecks sl s now ev = (s1, Inr (Go sg sol))" "same_core s s1"
    "snipe_gates_pass sl s now ev sg" "snipe_size sl s sg = Inr sol" "0 < sol"
    "\<not> intent_held s (entry_id ev) now" "\<not> lock_held s (le_mint ev) now"
    "snipe_cost sl ev sol = Inr (Some cs)"
    "mk_EntryIntent (snipe_intent sl ev sol cs) = Inr (snipe_intent sl ev sol cs)"
    "t = save_position (claimed_store s1 now ev) (entering_position ev sg sol cs)"
    "r = Inr (Filled (execute (snipe_intent sl ev sol cs) ev))" "out = [snipe_intent sl ev sol cs]"
proof -
  obtain s1 sg sol where pre: "snipe_prechecks sl s now ev = (s1, Inr (Go sg sol))"
    and enter: "snipe_enter execute sl s1 now elapsed ev sg sol = (t, r, out)"
    using assms by (auto simp: process_event_def split: prod.splits sum.splits snipe_precheck.splits)
  have core: "same_core s s1" using pre by (rule snipe_prechecks_frame)
  have gates: "snipe_gates_pass sl s now ev sg" "snipe_size sl s sg = Inr sol" "0 < sol"
    using pre snipe_prechecks_Go [of sl s now ev sg sol] by blast+
  show thesis
    using enter assms(2) that [OF pre core gates] unfolding snipe_enter_eq Let_def
    by (auto simp: same_core_facts [OF core] split: if_splits sum.splits option.splits)
qed

subsection \<open>Runs of events\<close>

text \<open>Events with the clock reading and the measured latency of their processing.\<close>

fun snipe_run ::
    "(entry_intent \<Rightarrow> launch_event \<Rightarrow> fill_result) \<Rightarrow> snipe_loop \<Rightarrow> store \<Rightarrow>
     (millis \<times> millis \<times> launch_event) list \<Rightarrow> entry_intent list" where
  "snipe_run execute sl s [] = []"
| "snipe_run execute sl s ((now, elapsed, ev) # es) =
     (case process_event execute sl s now elapsed ev of (t, _, out) \<Rightarrow> out @ snipe_run execute sl t es)"

lemma seen_frames [simp]:
  "seen_intents (release_entering s m) = seen_intents s" "seen_intents (delete_position s m) = seen_intents s"
  "seen_intents (save_position s p) = seen_intents s"
  by (simp_all add: release_entering_def delete_position_def save_position_def)

lemma intent_held_frames [simp]:
  "intent_held (release_entering s m) i x = intent_held s i x"
  "intent_held (delete_position s m) i x = intent_held s i x"
  "intent_held (save_position s p) i x = intent_held s i x"
  by (simp_all add: intent_held_def)

lemma claimed_store_intent:
  assumes "\<not> intent_held s (entry_id ev) now"
  shows "intent_held (claimed_store s now ev) i x \<longleftrightarrow>
    (if i = entry_id ev then x < now + 120000 else intent_held s i x)"
  using mark_intent_held [OF assms, of 120 x]
  by (simp add: claimed_store_def intent_of_seen [OF claim_frame(2)] mark_intent_other)

lemma snipe_enter_intents:
  "intent_held (fst (snipe_enter execute sl s now elapsed ev sg sol)) i x \<longleftrightarrow>
     (if i = entry_id ev \<and> \<not> intent_held s i now then x < now + 120000 else intent_held s i x)"
proof (cases "intent_held s (entry_id ev) now")
  case True
  then show ?thesis by (auto simp: snipe_enter_eq mark_intent_refused)
next
  case False
  then show ?thesis
    by (simp add: snipe_enter_eq Let_def claimed_store_intent split: sum.split option.split)
qed

lemma process_event_keeps_intent:
  assumes "\<forall>x < bound. intent_held s i x" and "now < bound"
    and "process_event execute sl s now elapsed ev = (t, r, out)"
  shows "(\<forall>x < bound. intent_held t i x) \<and> (\<forall>y \<in> set out. en_client_intent_id y \<noteq> i)"
proof -
  obtain s1 p where pre: "snipe_prechecks sl s now ev = (s1, p)" by fastforce
  note core = snipe_prechecks_frame [OF pre]
  have "\<forall>x < bound. intent_held t i x"
  proof (cases "\<exists>sg sol. p = Inr (Go sg sol)")
    case True
    then obtain sg sol where "p = Inr (Go sg sol)" by blast
    then have "t = fst (snipe_enter execute sl s1 now elapsed ev sg sol)"
      using assms(3) pre by (simp add: process_event_def)
    then show ?thesis using assms(1,2) by (simp add: snipe_enter_intents same_core_facts(3) [OF core])
  next
    case False
    then have "t = s1"
      using assms(3) pre by (auto simp: process_event_def split: sum.splits snipe_precheck.splits)
    then show ?thesis using assms(1) by (simp add: same_core_facts(3) [OF core])
  qed
  moreover have "\<forall>y \<in> set out. en_client_intent_id y \<noteq> i"
  proof (cases "out = []")
    case False
    from process_event_submits [OF assms(3) False] obtain sg sol cs where
      "\<not> intent_held s (entry_id ev) now" "out = [snipe_intent sl ev sol cs]" by metis
    with assms(1,2) show ?thesis by (auto simp: snipe_intent_def entry_id_def)
  qed simp
  ultimately show ?thesis by blast
qed

lemma run_without:
  "\<forall>x < bound. intent_held s i x \<Longrightarrow> \<forall>(now, el, ev) \<in> set es. now < bound \<Longrightarrow>
     \<forall>y \<in> set (snipe_run execute sl s es). en_client_intent_id y \<noteq> i"
proof (induction es arbitrary: s)
  case (Cons e es)
  obtain now el ev where e: "e = (now, el, ev)" by (cases e)
  obtain t r out where pe: "process_event execute sl s now el ev = (t, r, out)" by (cases "process_event execute sl s now el ev")
  have "now < bound" using Cons.prems(2) e by simp
  from process_event_keeps_intent [OF Cons.prems(1) this pe] Cons.IH [of t] Cons.prems(2) show ?case
    by (auto simp: e pe)
qed simp

lemma submit_holds_intent:
  assumes "process_event execute sl s now elapsed ev = (t, r, out)" and "out \<noteq> []"
  shows "out = [hd out] \<and> en_client_intent_id (hd out) = entry_id ev \<and> (\<forall>x < now + 120000. intent_held t (entry_id ev) x)"
proof -
  from process_event_submits [OF assms] obtain s1 sg sol cs where
    "same_core s s1" "\<not> intent_held s (entry_id ev) now" "out = [snipe_intent sl ev sol cs]"
    "t = save_position (claimed_store s1 now ev) (entering_position ev sg sol cs)" by metis
  then show ?thesis by (simp add: claimed_store_intent same_core_facts(3) snipe_intent_def entry_id_def)
qed

subsection \<open>Exposure\<close>

lemma snipe_enter_positions:
  assumes "snipe_enter execute sl s now elapsed ev sg sol = (t, r, out)"
  obtains "positions t = positions s"
  | cs where "t = save_position (claimed_store s now ev) (entering_position ev sg sol cs)"
  | cs where "t = delete_position (release_entering (save_position (claimed_store s now ev)
        (entering_position ev sg sol cs)) (le_mint ev)) (le_mint ev)"
proof -
  have pos: "positions (claimed_store s now ev) = positions s"
    "positions (fst (mark_intent_seen s i ttl now)) = positions s"
    "positions (release_entering u m) = positions u" for i ttl u m
    by (simp_all add: claimed_store_def claim_frame mark_intent_frame release_entering_def)
  have "positions t = positions s \<or>
      (\<exists>cs. t = save_position (claimed_store s now ev) (entering_position ev sg sol cs)) \<or>
      (\<exists>cs. t = delete_position (release_entering (save_position (claimed_store s now ev)
         (entering_position ev sg sol cs)) (le_mint ev)) (le_mint ev))"
    using assms unfolding snipe_enter_eq Let_def
    by (auto simp: pos split: if_splits sum.splits option.splits)
  with that show thesis by blast
qed

context sizing_engine
begin

lemma snipe_size_within_cap:
  assumes "sl_sizing sl = None \<or> sl_sizing sl = Some compute_size"
    and "snipe_size sl s sg = Inr sol"
    and "get_aggregate_open_lamports s \<le> max_aggregate_lamports (sl_config sl)"
  shows "get_aggregate_open_lamports s + sol \<le> max_aggregate_lamports (sl_config sl)"
  using assms size_within_cap by (auto simp: snipe_size_def Let_def)

lemma process_event_within_cap:
  assumes "sl_sizing sl = None \<or> sl_sizing sl = Some compute_size"
    and "store_ok s" and "\<forall>p \<in> set (load_all_positions s). 0 \<le> sol_in_lamports p"
    and "get_aggregate_open_lamports s \<le> max_aggregate_lamports (sl_config sl)"
    and "process_event execute sl s now elapsed ev = (t, r, out)"
  shows "get_aggregate_open_lamports t \<le> max_aggregate_lamports (sl_config sl)"
proof -
  obtain s1 p where pre: "snipe_prechecks sl s now ev = (s1, p)" by fastforce
  note core = same_core_facts [OF snipe_prechecks_frame [OF pre]]
  have pos1: "positions s1 = positions s" using snipe_prechecks_frame [OF pre] by (simp add: same_core_def)
  have agg: "get_aggregate_open_lamports u = get_aggregate_open_lamports s" if "positions u = positions s" for u
    using that by (simp add: get_aggregate_open_lamports_def)
  show ?thesis
  proof (cases "\<exists>sg sol. p = Inr (Go sg sol)")
    case False
    then have "t = s1"
      using assms(5) pre by (auto simp: process_event_def split: sum.splits snipe_precheck.splits)
    then show ?thesis using assms(4) by (simp add: core)
  next
    case True
    then obtain sg sol where go: "p = Inr (Go sg sol)" by blast
    have enter: "snipe_enter execute sl s1 now elapsed ev sg sol = (t, r, out)"
      using assms(5) pre go by (simp add: process_event_def)
    have size: "snipe_size sl s sg = Inr sol" "0 < sol"
      using pre go snipe_prechecks_Go [of sl s now ev sg sol] by blast+
    have pos2: "positions (claimed_store s1 now ev) = positions s" "positions (fst (mark_intent_seen s1 i ttl now)) = positions s" for i ttl
      by (simp_all add: claimed_store_def claim_frame mark_intent_frame pos1)
    have ok: "store_ok (claimed_store s1 now ev)" using assms(2) by (simp add: store_ok_def pos2)
    have del: "get_aggregate_open_lamports (delete_position s m) \<le> get_aggregate_open_lamports s" for m
      using assms(2,3) by (rule aggregate_nonneg_delete)
    have del2: "get_aggregate_open_lamports (delete_position (claimed_store s1 now ev) m) =
        get_aggregate_open_lamports (delete_position s m)" for m
      by (simp add: get_aggregate_open_lamports_def delete_position_def pos2)
    have saved: "get_aggregate_open_lamports (save_position (claimed_store s1 now ev) (entering_position ev sg sol cs))
        \<le> max_aggregate_lamports (sl_config sl)" for cs
      using aggregate_save [OF ok, of "entering_position ev sg sol cs"] del [of "le_mint ev"]
        snipe_size_within_cap [OF assms(1) size(1) assms(4)] by (simp add: del2)
    have deleted: "get_aggregate_open_lamports
        (delete_position (release_entering (save_position (claimed_store s1 now ev) (entering_position ev sg sol cs)) (le_mint ev)) (le_mint ev))
        \<le> max_aggregate_lamports (sl_config sl)" for cs
    proof -
      have "positions (delete_position (release_entering (save_position (claimed_store s1 now ev) (entering_position ev sg sol cs)) (le_mint ev)) (le_mint ev))
          = dict_pop (le_mint ev) (dict_set (le_mint ev) (entering_position ev sg sol cs) (positions s))"
        by (simp add: delete_position_def release_entering_def save_position_def pos2)
      also have "\<dots> = positions (delete_position s (le_mint ev))"
        by (simp add: delete_position_def dict_pop_set)
      finally show ?thesis using del [of "le_mint ev"] assms(4) by (simp add: get_aggregate_open_lamports_def)
    qed
    from enter show ?thesis
    proof (cases rule: snipe_enter_positions)
      case 1
      then show ?thesis using agg [of t] assms(4) pos1 by simp
    qed (simp_all add: saved deleted)
  qed
qed

end

subsection \<open>Sample values\<close>

definition demo_snipe :: snipe_loop where
  "demo_snipe =
     \<lparr>sl_config = default_risk_config, sl_gate = None, sl_sizing = None, sl_cost_model = None,
      default_tip = 200000, default_cu = 10000, latency_budget_ms = Some 150, min_sol = 10000000,
      sl_wallet_id = ''default'', venue_name = ''simulation''\<rparr>"

definition demo_event :: launch_event where
  "demo_event =
     \<lparr>le_mint = ''m'', le_event_time = \<lparr>slot = 7, block_time_ms = 1000, wall_clock_ms = 1000\<rparr>,
      sol_reserve_lamports = 30000000000, token_reserve_base = 1000000, data_staleness_ms = 100\<rparr>"

definition demo_signal :: decision_signal where
  "demo_signal = \<lparr>sg_mint = ''m'', p_calibrated = 4 / 5, uncertainty = 1 / 10, surface = ''pump''\<rparr>"

definition demo_store :: "(mint \<times> position) list \<Rightarrow> store" where
  "demo_store ps = set_decision_signal (empty_store\<lparr>positions := ps\<rparr>) demo_signal 30 0"

lemma demo_store_free:
  "\<not> lock_held (demo_store ps) m now" "\<not> intent_held (demo_store ps) i now" "positions (demo_store ps) = ps"
  by (simp_all add: demo_store_def set_decision_signal_def empty_store_def lock_held_def get_fsm_lock_def
      intent_held_def)

lemma demo_gates: "snipe_gates_pass demo_snipe (demo_store ps) 0 demo_event demo_signal"
  by (simp add: snipe_gates_pass_def demo_store_def demo_snipe_def demo_event_def demo_signal_def
      set_decision_signal_def empty_store_def load_breaker_state_def in_cooldown_def get_decision_signal_def
      get_veto_flag_def ttl_get_def ttl_put_def is_expired_def default_risk_config_def)

lemma demo_costs:
  "snipe_cost demo_snipe demo_event 10000000 = Inr (Some
     \<lparr>expected_edge_bps = 560, jito_tip_bps = 200, priority_fee_bps = 10, cs_entry_slippage_bps = 50,
      amm_fee_bps = 50, exit_slippage_bps = 50, adverse_selection_bps = 150, total_cost_bps = 460\<rparr>)"
  by (simp add: snipe_cost_def demo_snipe_def make_default_cost_stack_def mk_CostStack_def default_risk_config_def Let_def)

text \<open>An event whose gates, claims, costs and latency all pass is submitted.\<close>

lemma process_event_goes:
  assumes "snipe_gates_pass sl s now ev sg" and "snipe_size sl s sg = Inr sol" and "0 < sol"
    and "\<not> intent_held s (entry_id ev) now" and "\<not> lock_held s (le_mint ev) now"
    and "snipe_cost sl ev sol = Inr (Some cs)" and "total_cost_bps cs < expected_edge_bps cs"
    and "\<forall>budget. latency_budget_ms sl = Some budget \<longrightarrow> elapsed \<le> budget"
  shows "\<exists>t. process_event execute sl s now elapsed ev =
      (t, Inr (Filled (execute (snipe_intent sl ev sol cs) ev)), [snipe_intent sl ev sol cs]) \<and>
    load_position t (le_mint ev) = Some (entering_position ev sg sol cs)"
proof -
  obtain s1 where pre: "snipe_prechecks sl s now ev = (s1, Inr (Go sg sol))"
    using snipe_prechecks_Go [of sl s now ev sg sol] assms(1-3) by blast
  note core = same_core_facts [OF snipe_prechecks_frame [OF pre]]
  have "mk_EntryIntent (snipe_intent sl ev sol cs) = Inr (snipe_intent sl ev sol cs)"
    using assms(7) by (simp add: mk_EntryIntent_def snipe_intent_def)
  then have "process_event execute sl s now elapsed ev =
      (save_position (claimed_store s1 now ev) (entering_position ev sg sol cs),
       Inr (Filled (execute (snipe_intent sl ev sol cs) ev)), [snipe_intent sl ev sol cs])"
    using assms(4-6,8) by (auto simp: process_event_def pre snipe_enter_eq core split: option.splits)
  then show ?thesis by (simp add: table.load_save)
qed

subsection \<open>Properties\<close>

text \<open>
  C5. Every entry handed to the venue has passed every gate: the projected breaker is not tripped,
  the mint is neither cooling down nor vetoed, a live signal reaches the threshold, the event is
  fresh, the safety gate agreed, the size is positive, neither the intent nor the mint was already
  claimed, the edge exceeds the total cost and the target slot is at least five slots away; and
  the entering position of exactly that size was in the store before the submission.
\<close>

theorem snipe_entry_passed_every_gate:
  assumes "process_event execute sl s now elapsed ev = (t, r, out)" and "intent \<in> set out"
  shows "out = [intent] \<and> en_mint intent = le_mint ev \<and>
    (\<exists>sg. snipe_gates_pass sl s now ev sg \<and> snipe_size sl s sg = Inr (en_sol_in_lamports intent)) \<and>
    0 < en_sol_in_lamports intent \<and>
    \<not> intent_held s (en_client_intent_id intent) now \<and> \<not> lock_held s (le_mint ev) now \<and>
    total_cost_bps (en_cost_stack intent) < expected_edge_bps (en_cost_stack intent) \<and>
    slot (le_event_time ev) + 5 \<le> en_target_slot intent \<and>
    (\<exists>p. load_position t (le_mint ev) = Some p \<and> fsm_state p = ENTERING \<and>
         sol_in_lamports p = en_sol_in_lamports intent \<and> entry_slot p = slot (le_event_time ev))"
proof -
  have "out \<noteq> []" using assms(2) by auto
  from process_event_submits [OF assms(1) this] obtain s1 sg sol cs where
    facts: "snipe_gates_pass sl s now ev sg" "snipe_size sl s sg = Inr sol" "0 < sol"
      "\<not> intent_held s (entry_id ev) now" "\<not> lock_held s (le_mint ev) now"
      "mk_EntryIntent (snipe_intent sl ev sol cs) = Inr (snipe_intent sl ev sol cs)"
      "t = save_position (claimed_store s1 now ev) (entering_position ev sg sol cs)"
      "out = [snipe_intent sl ev sol cs]" by metis
  then show ?thesis
    using assms(2) by (auto simp: mk_EntryIntent_iff snipe_intent_def entry_id_def table.load_save)
qed

theorem snipe_entry_passed_every_gate_witness:
  "\<exists>t r intent. process_event (\<lambda>_ _. demo_fill) demo_snipe (demo_store []) 0 20 demo_event = (t, r, [intent]) \<and>
     en_sol_in_lamports intent = 10000000 \<and> 0 < en_sol_in_lamports intent"
proof -
  have size: "snipe_size demo_snipe (demo_store []) demo_signal = Inr 10000000"
    by (simp add: snipe_size_def demo_snipe_def get_aggregate_open_lamports_def demo_store_free default_risk_config_def)
  have budget: "\<forall>budget. latency_budget_ms demo_snipe = Some budget \<longrightarrow> (20 :: int) \<le> budget"
    by (simp add: demo_snipe_def)
  have sol: "en_sol_in_lamports (snipe_intent sl ev x cs) = x" for sl ev x cs by (simp add: snipe_intent_def)
  obtain t r intent where run: "process_event (\<lambda>_ _. demo_fill) demo_snipe (demo_store []) 0 20 demo_event = (t, r, [intent])"
    and sol: "en_sol_in_lamports intent = 10000000"
    using process_event_goes [OF demo_gates size _ demo_store_free(2,1) demo_costs _ budget, of "\<lambda>_ _. demo_fill"] sol
    by auto
  from snipe_entry_passed_every_gate [OF run, of intent] run sol show ?thesis by auto
qed

text \<open>
  An intent is submitted at most once: in any sequence of launch events, with replays and
  duplicates, processed within the deduplication window of 120 seconds, at most one submitted
  entry carries a given intent identifier.
\<close>

theorem snipe_submits_intent_at_most_once:
  assumes "\<forall>(now, elapsed, ev) \<in> set es. start \<le> now \<and> now < start + 120000"
  shows "length (filter (\<lambda>y. en_client_intent_id y = i) (snipe_run execute sl s es)) \<le> 1"
  using assms
proof (induction es arbitrary: s)
  case (Cons e es)
  obtain now el ev where e: "e = (now, el, ev)" by (cases e)
  obtain t r out where pe: "process_event execute sl s now el ev = (t, r, out)"
    by (cases "process_event execute sl s now el ev")
  have rest: "\<forall>(now', el', ev') \<in> set es. start \<le> now' \<and> now' < start + 120000" and "start \<le> now"
    using Cons.prems e by auto
  show ?case
  proof (cases "\<exists>y \<in> set out. en_client_intent_id y = i")
    case True
    then have "out \<noteq> []" by auto
    from submit_holds_intent [OF pe this] True
    have one: "out = [hd out]" "\<forall>x < now + 120000. intent_held t i x" by (metis list.set_intros(1) set_ConsD empty_iff list.set(1))+
    have "\<forall>(now', el', ev') \<in> set es. now' < now + 120000" using rest \<open>start \<le> now\<close> by auto
    from run_without [OF one(2) this, of execute sl]
    have "filter (\<lambda>y. en_client_intent_id y = i) (snipe_run execute sl t es) = []" by (simp add: filter_empty_conv)
    moreover have "length (filter (\<lambda>y. en_client_intent_id y = i) out) \<le> 1"
      using length_filter_le [of _ "[hd out]"] one(1) by (metis One_nat_def length_Cons list.size(3))
    ultimately show ?thesis by (simp add: e pe)
  next
    case False
    then have "filter (\<lambda>y. en_client_intent_id y = i) out = []" by (simp add: filter_empty_conv)
    with Cons.IH [OF rest, of t] show ?thesis by (simp add: e pe)
  qed
qed simp

theorem snipe_submits_intent_at_most_once_witness:
  "length (filter (\<lambda>y. en_client_intent_id y = entry_id demo_event)
     (snipe_run (\<lambda>_ _. demo_fill) demo_snipe (demo_store []) [(0, 20, demo_event), (5, 20, demo_event)])) \<le> 1"
  by (rule snipe_submits_intent_at_most_once [where start = 0]) simp

text \<open>
  C11. Sniping never breaks the aggregate cap: with the fallback sizing or the fractional-Kelly
  sizer, one processed event of any kind keeps the aggregate open exposure at or below the
  configured cap, if it was so before.
\<close>

theorem snipe_keeps_aggregate_cap:
  assumes "sl_sizing sl = None \<or> sl_sizing sl = Some (kelly_engine derisk net_odds)"
    and "store_ok s" and "\<forall>p \<in> set (load_all_positions s). 0 \<le> sol_in_lamports p"
    and "get_aggregate_open_lamports s \<le> max_aggregate_lamports (sl_config sl)"
    and "process_event execute sl s now elapsed ev = (t, r, out)"
  shows "get_aggregate_open_lamports t \<le> max_aggregate_lamports (sl_config sl)"
  using assms by (rule kelly.process_event_within_cap)

theorem snipe_keeps_aggregate_cap_witness:
  "get_aggregate_open_lamports (fst (process_event (\<lambda>_ _. demo_fill) demo_snipe (demo_store []) 0 20 demo_event)) \<le> 500000000"
proof -
  obtain t r out where run: "process_event (\<lambda>_ _. demo_fill) demo_snipe (demo_store []) 0 20 demo_event = (t, r, out)"
    by (cases "process_event (\<lambda>_ _. demo_fill) demo_snipe (demo_store []) 0 20 demo_event")
  have "get_aggregate_open_lamports t \<le> max_aggregate_lamports (sl_config demo_snipe)"
    by (rule snipe_keeps_aggregate_cap [OF _ _ _ _ run, where derisk = None and net_odds = 1])
      (simp_all add: demo_snipe_def store_ok_def demo_store_free load_all_positions_def
        get_aggregate_open_lamports_def default_risk_config_def)
  moreover have "max_aggregate_lamports (sl_config demo_snipe) = 500000000"
    by (simp add: demo_snipe_def default_risk_config_def)
  ultimately show ?thesis by (simp add: run)
qed

text \<open>
  A second entry on an open mint overwrites its position: the claim is released when the
  position opens, so an event for the same mint with an unused intent that passes the gates is
  submitted, and the record of the open position is replaced by a new entering one.
\<close>

theorem second_entry_overwrites_open_position:
  assumes "load_position s (le_mint ev) = Some p" and "fsm_state p = OPEN"
    and "snipe_gates_pass sl s now ev sg" and "snipe_size sl s sg = Inr sol" and "0 < sol"
    and "\<not> intent_held s (entry_id ev) now" and "\<not> lock_held s (le_mint ev) now"
    and "snipe_cost sl ev sol = Inr (Some cs)" and "total_cost_bps cs < expected_edge_bps cs"
    and "\<forall>budget. latency_budget_ms sl = Some budget \<longrightarrow> elapsed \<le> budget"
  shows "\<exists>t q. fst (process_event execute sl s now elapsed ev) = t \<and>
    snd (snd (process_event execute sl s now elapsed ev)) \<noteq> [] \<and>
    load_position t (le_mint ev) = Some q \<and> fsm_state q = ENTERING \<and> tokens_out_base q = 0 \<and>
    sol_in_lamports q = sol"
  using process_event_goes [OF assms(3-10), of execute] by (auto simp: entering_position_def)

theorem second_entry_overwrites_open_position_witness:
  "fsm_state demo_position = OPEN \<and>
   (\<exists>q. load_position (fst (process_event (\<lambda>_ _. demo_fill) demo_snipe (demo_store [(''m'', demo_position)]) 0 20 demo_event)) ''m'' = Some q \<and>
        fsm_state q = ENTERING)"
proof -
  have size: "snipe_size demo_snipe (demo_store [(''m'', demo_position)]) demo_signal = Inr 10000000"
    by (simp add: snipe_size_def demo_snipe_def get_aggregate_open_lamports_def demo_store_free
        default_risk_config_def demo_position_def)
  have pos: "load_position (demo_store [(''m'', demo_position)]) (le_mint demo_event) = Some demo_position"
    "fsm_state demo_position = OPEN" "le_mint demo_event = ''m''"
    by (simp_all add: load_position_def demo_store_free demo_event_def demo_position_def)
  have budget: "\<forall>budget. latency_budget_ms demo_snipe = Some budget \<longrightarrow> (20 :: int) \<le> budget"
    by (simp add: demo_snipe_def)
  from second_entry_overwrites_open_position [OF pos(1,2) demo_gates size _ demo_store_free(2,1) demo_costs _ budget,
      of "\<lambda>_ _. demo_fill"] pos(2,3)
  show ?thesis by auto
qed

end
