(* ===== verification/Controller.thy ===== *)
theory Controller
  imports Slow_Loop Snipe_Loop
begin

text \<open>
  The controller around the three loops: reconciliation of the stored positions at startup and on
  every tick (\<open>aats/controller/reconcile.py\<close>), the kill switch and the handlers of the control
  API (\<open>aats/controller/control_api.py\<close>), and the orchestrator that drives the loops
  (\<open>aats/controller/loops.py\<close>). The venue's view of fills and balances is a parameter; a request is
  its authorization header. The store is the one inside the FAST loop's state.
\<close>

subsection \<open>Reconciliation (\<open>reconcile.py\<close>)\<close>

record venue_state =
  get_fill_for_mint :: "mint \<Rightarrow> client_id \<Rightarrow> fill_result option"
  get_open_mints :: "mint list"

definition null_venue_state :: venue_state where
  "null_venue_state = \<lparr>get_fill_for_mint = (\<lambda>_ _. None), get_open_mints = []\<rparr>"

datatype reconcile_action =
    Entering_to_open mint
  | Entering_vetoed mint
  | Open_disappeared mint
  | Closing_to_closed mint
  | Purge_terminal mint fsm_state
  | Entering_timeout mint

definition failed_fill :: "string \<Rightarrow> fill_result" where
  "failed_fill why = \<lparr>landed = False, fl_reason = why, tokens_out = 0, effective_price = 0, fl_entry_slippage_bps = 0\<rparr>"

definition landed_fill :: "venue_state \<Rightarrow> position \<Rightarrow> string \<Rightarrow> fill_result option" where
  "landed_fill vs p kind =
     (case get_fill_for_mint vs (pos_mint p) (make_client_intent_id (pos_mint p) (entry_slot p) kind) of
        None \<Rightarrow> None | Some fill \<Rightarrow> if landed fill then Some fill else None)"

text \<open>
  The two transitions of a position that the venue no longer holds, in one \<open>try\<close> block on a fresh
  \<open>PositionFSM\<close>: a refused transition is logged and the writes before it stay.
\<close>

definition close_disappeared :: "store \<Rightarrow> position \<Rightarrow> store \<times> bool" where
  "close_disappeared s p =
     (case transition_to_closing (s, p) of
        Inl _ \<Rightarrow> (s, False)
      | Inr f \<Rightarrow> (case transition_to_closed f 0 of Inl _ \<Rightarrow> (fst f, False) | Inr g \<Rightarrow> (fst g, True)))"

definition close_finished :: "store \<Rightarrow> position \<Rightarrow> store \<times> bool" where
  "close_finished s p =
     (case transition_to_closed (s, p) 0 of Inl _ \<Rightarrow> (s, False) | Inr g \<Rightarrow> (fst g, True))"

definition startup_one ::
    "venue_state \<Rightarrow> millis \<Rightarrow> fast_loop \<Rightarrow> position \<Rightarrow> fast_loop \<times> reconcile_action list result" where
  "startup_one vs now fs p =
     (let m = pos_mint p in
      case fsm_state p of
        ENTERING \<Rightarrow>
          (case landed_fill vs p ''ENTRY'' of
             Some fill \<Rightarrow>
               (case reconcile_fill now fs m fill of
                  (gs, Inl e) \<Rightarrow> (gs, Inl e) | (gs, Inr _) \<Rightarrow> (gs, Inr [Entering_to_open m]))
           | None \<Rightarrow>
               (case reconcile_fill now fs m (failed_fill ''reconcile_no_fill'') of
                  (gs, Inl e) \<Rightarrow> (gs, Inl e) | (gs, Inr _) \<Rightarrow> (gs, Inr [Entering_vetoed m])))
      | OPEN \<Rightarrow>
          if get_open_mints vs \<noteq> [] \<and> m \<notin> set (get_open_mints vs)
          then (case close_disappeared (fs_store fs) p of
                  (s, done) \<Rightarrow> (fs\<lparr>fs_store := s\<rparr>, Inr (if done then [Open_disappeared m] else [])))
          else (fs, Inr [])
      | CLOSING \<Rightarrow>
          (case landed_fill vs p ''EXIT'' of
             Some fill \<Rightarrow>
               (case close_finished (fs_store fs) p of
                  (s, done) \<Rightarrow> (fs\<lparr>fs_store := s\<rparr>, Inr (if done then [Closing_to_closed m] else [])))
           | None \<Rightarrow> (fs, Inr []))
      | CLOSED \<Rightarrow> (fs\<lparr>fs_store := delete_position (fs_store fs) m\<rparr>, Inr [Purge_terminal m CLOSED])
      | VETOED \<Rightarrow> (fs\<lparr>fs_store := delete_position (fs_store fs) m\<rparr>, Inr [Purge_terminal m VETOED])
      | IDLE \<Rightarrow> (fs, Inr []))"

text \<open>The loop over the positions read at its start; an exception ends it.\<close>

fun each_position ::
    "(fast_loop \<Rightarrow> position \<Rightarrow> fast_loop \<times> reconcile_action list result) \<Rightarrow> fast_loop \<Rightarrow> position list \<Rightarrow>
     fast_loop \<times> reconcile_action list result" where
  "each_position step fs [] = (fs, Inr [])"
| "each_position step fs (p # ps) =
     (case step fs p of
        (gs, Inl e) \<Rightarrow> (gs, Inl e)
      | (gs, Inr acts) \<Rightarrow>
          (case each_position step gs ps of
             (hs, Inl e) \<Rightarrow> (hs, Inl e) | (hs, Inr acts') \<Rightarrow> (hs, Inr (acts @ acts'))))"

definition startup_reconcile ::
    "venue_state \<Rightarrow> millis \<Rightarrow> fast_loop \<Rightarrow> fast_loop \<times> reconcile_action list result" where
  "startup_reconcile vs now fs = each_position (startup_one vs now) fs (load_all_positions (fs_store fs))"

definition entering_too_old :: "int \<Rightarrow> int \<Rightarrow> position \<Rightarrow> bool" where
  "entering_too_old entering_ttl current_slot p \<longleftrightarrow>
     fsm_state p = ENTERING \<and> entering_ttl * 1000 div 400 < current_slot - entry_slot p"

definition continuous_one ::
    "int \<Rightarrow> millis \<Rightarrow> int \<Rightarrow> fast_loop \<Rightarrow> position \<Rightarrow> fast_loop \<times> reconcile_action list result" where
  "continuous_one entering_ttl now current_slot fs p =
     (if entering_too_old entering_ttl current_slot p
      then (case reconcile_fill now fs (pos_mint p) (failed_fill ''entering_timed_out'') of
              (gs, Inl e) \<Rightarrow> (gs, Inl e) | (gs, Inr _) \<Rightarrow> (gs, Inr [Entering_timeout (pos_mint p)]))
      else (fs, Inr []))"

definition continuous_reconcile_tick ::
    "int \<Rightarrow> millis \<Rightarrow> int \<Rightarrow> fast_loop \<Rightarrow> fast_loop \<times> reconcile_action list result" where
  "continuous_reconcile_tick entering_ttl now current_slot fs =
     each_position (continuous_one entering_ttl now current_slot) fs (load_all_positions (fs_store fs))"

subsection \<open>The orchestrator (\<open>loops.py\<close>)\<close>

record orchestrator =
  oc_fast :: fast_loop
  oc_snipe :: snipe_loop
  oc_slow :: slow_loop
  oc_venue_state :: venue_state
  oc_entering_ttl :: int
  oc_killed :: bool
  oc_enrichment :: "enrichment option"
  oc_regime :: "regime_wiring option"
  oc_started :: bool
  oc_operator_token :: string
  oc_breaker_wired :: bool

definition with_store :: "orchestrator \<Rightarrow> store \<Rightarrow> orchestrator" where
  "with_store oc s = oc\<lparr>oc_fast := (oc_fast oc)\<lparr>fs_store := s\<rparr>\<rparr>"

abbreviation oc_store :: "orchestrator \<Rightarrow> store" where
  "oc_store oc \<equiv> fs_store (oc_fast oc)"

definition orchestrator_startup :: "millis \<Rightarrow> orchestrator \<Rightarrow> orchestrator \<times> reconcile_action list result" where
  "orchestrator_startup now oc =
     (case startup_reconcile (oc_venue_state oc) now (oc_fast oc) of
        (gs, Inl e) \<Rightarrow> (oc\<lparr>oc_fast := gs\<rparr>, Inl e)
      | (gs, Inr acts) \<Rightarrow> (oc\<lparr>oc_fast := gs, oc_started := True\<rparr>, Inr acts))"

datatype launch_snipe = Kill_switch_active | Sniped snipe_outcome

definition on_launch_event ::
    "(entry_intent \<Rightarrow> launch_event \<Rightarrow> fill_result) \<Rightarrow> millis \<Rightarrow> millis \<Rightarrow> orchestrator \<Rightarrow> launch_event \<Rightarrow> string \<Rightarrow>
     orchestrator \<times> (decision_signal option \<times> launch_snipe) result \<times> entry_intent list" where
  "on_launch_event execute now elapsed oc ev creator_wallet =
     (if \<not> oc_started oc then (oc, Inl RuntimeError, [])
      else case slow_process_event (oc_slow oc) now (oc_store oc) ev of
        (s1, Inl e) \<Rightarrow> (with_store oc s1, Inl e, [])
      | (s1, Inr signal) \<Rightarrow>
          if oc_killed oc then (with_store oc s1, Inr (signal, Kill_switch_active), [])
          else (case process_event execute (oc_snipe oc) s1 now elapsed ev of
              (s2, Inl e, sent) \<Rightarrow> (with_store oc s2, Inl e, sent)
            | (s2, Inr outcome, sent) \<Rightarrow>
                (case (oc_enrichment oc, outcome) of
                   (Some ew, Filled _) \<Rightarrow>
                     (case enrich_register_creator ew (le_mint ev) creator_wallet of
                        (ew', Inl e) \<Rightarrow> ((with_store oc s2)\<lparr>oc_enrichment := Some ew'\<rparr>, Inl e, sent)
                      | (ew', Inr _) \<Rightarrow>
                          ((with_store oc s2)\<lparr>oc_enrichment := Some ew'\<rparr>, Inr (signal, Sniped outcome), sent))
                 | _ \<Rightarrow> (with_store oc s2, Inr (signal, Sniped outcome), sent))))"

definition orchestrator_tick ::
    "venue \<Rightarrow> (mint \<Rightarrow> decimal option) \<Rightarrow> millis \<Rightarrow> millis \<Rightarrow> int \<Rightarrow> orchestrator \<Rightarrow>
     orchestrator \<times> (fast_action list \<times> reconcile_action list) result" where
  "orchestrator_tick venue price now bt current_slot oc =
     (if \<not> oc_started oc then (oc, Inl RuntimeError)
      else case fast_tick venue price now bt (oc_fast oc) of
        (gs, Inl e) \<Rightarrow> (oc\<lparr>oc_fast := gs\<rparr>, Inl e)
      | (gs, Inr acts) \<Rightarrow>
          (case continuous_reconcile_tick (oc_entering_ttl oc) now current_slot gs of
             (hs, Inl e) \<Rightarrow> (oc\<lparr>oc_fast := hs\<rparr>, Inl e)
           | (hs, Inr acts') \<Rightarrow> (oc\<lparr>oc_fast := hs\<rparr>, Inr (acts, acts'))))"

definition on_fill :: "millis \<Rightarrow> orchestrator \<Rightarrow> mint \<Rightarrow> fill_result \<Rightarrow> orchestrator \<times> bool result" where
  "on_fill now oc m fill =
     (case reconcile_fill now (oc_fast oc) m fill of (gs, r) \<Rightarrow> (oc\<lparr>oc_fast := gs\<rparr>, r))"

definition on_decoded_sell ::
    "((string \<times> int) list \<Rightarrow> string \<times> int) \<Rightarrow> millis \<Rightarrow> orchestrator \<Rightarrow> sell_observation \<Rightarrow>
     orchestrator \<times> insider_signal option result" where
  "on_decoded_sell pick now oc ob =
     (case oc_enrichment oc of
        None \<Rightarrow> (oc, Inr None)
      | Some ew \<Rightarrow>
          (case enrich_on_decoded_sell pick now ew (oc_store oc) ob of (ew', s', r) \<Rightarrow>
           ((with_store oc s')\<lparr>oc_enrichment := Some ew'\<rparr>, r)))"

definition run_slow_enrichment_tick ::
    "millis \<Rightarrow> orchestrator \<Rightarrow> int \<Rightarrow> orchestrator \<times> (reprobe_result list \<times> lp_exit_decision list) result" where
  "run_slow_enrichment_tick now oc event_slot =
     (case oc_enrichment oc of
        None \<Rightarrow> (oc, Inr ([], []))
      | Some ew \<Rightarrow>
          (case enrich_sellability now ew (oc_store oc) event_slot of
             (ew1, s1, Inl e) \<Rightarrow> ((with_store oc s1)\<lparr>oc_enrichment := Some ew1\<rparr>, Inl e)
           | (ew1, s1, Inr sells) \<Rightarrow>
               (case enrich_lp_unlock now ew1 s1 event_slot of
                  (ew2, s2, Inl e) \<Rightarrow> ((with_store oc s2)\<lparr>oc_enrichment := Some ew2\<rparr>, Inl e)
                | (ew2, s2, Inr unlocks) \<Rightarrow>
                    ((with_store oc s2)\<lparr>oc_enrichment := Some ew2\<rparr>, Inr (sells, unlocks)))))"

definition orchestrator_regime_signal ::
    "millis \<Rightarrow> orchestrator \<Rightarrow> regime_signal \<Rightarrow> orchestrator \<times> regime_directive option" where
  "orchestrator_regime_signal now oc sg =
     (case oc_regime oc of
        None \<Rightarrow> (oc, None)
      | Some w \<Rightarrow>
          (case apply_regime_signal w now (oc_store oc) sg of ((w', s'), d) \<Rightarrow>
           ((with_store oc s')\<lparr>oc_regime := Some w'\<rparr>, Some d)))"

definition orchestrator_survivor ::
    "millis \<Rightarrow> orchestrator \<Rightarrow> survivor_prediction \<Rightarrow> orchestrator \<times> regime_directive option" where
  "orchestrator_survivor now oc pred =
     (case oc_regime oc of
        None \<Rightarrow> (oc, None)
      | Some w \<Rightarrow>
          (case apply_survivor_prediction w now (oc_store oc) pred of ((w', s'), d) \<Rightarrow>
           ((with_store oc s')\<lparr>oc_regime := Some w'\<rparr>, Some d)))"

definition run_slow_regime_tick :: "millis \<Rightarrow> orchestrator \<Rightarrow> orchestrator \<times> regime_directive list" where
  "run_slow_regime_tick now oc =
     (case oc_regime oc of
        None \<Rightarrow> (oc, [])
      | Some w \<Rightarrow>
          (case run_survivor_derisk w now (oc_store oc) of ((w', s'), ds) \<Rightarrow>
           ((with_store oc s')\<lparr>oc_regime := Some w'\<rparr>, ds)))"

subsection \<open>Kill switch and control API (\<open>control_api.py\<close>)\<close>

datatype http_result = Http_ok string | Http_error nat string | Http_raised py_exc

definition kill_switch_kill :: "orchestrator \<Rightarrow> orchestrator" where
  "kill_switch_kill oc = oc\<lparr>oc_killed := True\<rparr>"

definition kill_switch_clear :: "orchestrator \<Rightarrow> orchestrator" where
  "kill_switch_clear oc = oc\<lparr>oc_killed := False\<rparr>"

definition check_auth :: "orchestrator \<Rightarrow> string \<Rightarrow> bool" where
  "check_auth oc auth \<longleftrightarrow> take 7 auth = ''Bearer '' \<and> drop 7 auth = oc_operator_token oc"

definition post_kill :: "venue \<Rightarrow> orchestrator \<Rightarrow> string \<Rightarrow> orchestrator \<times> http_result" where
  "post_kill venue oc auth =
     (if \<not> check_auth oc auth then (oc, Http_error 403 ''operator_auth_required'')
      else let oc1 = kill_switch_kill oc in
        (oc1\<lparr>oc_fast := emergency_flatten_all venue (Audit ''operator_kill'' []) (oc_fast oc1)\<rparr>, Http_ok ''killed''))"

definition post_flatten :: "venue \<Rightarrow> orchestrator \<Rightarrow> mint \<Rightarrow> string \<Rightarrow> orchestrator \<times> http_result" where
  "post_flatten venue oc m auth =
     (if \<not> check_auth oc auth then (oc, Http_error 403 ''operator_auth_required'')
      else case load_position (oc_store oc) m of
        None \<Rightarrow> (oc, Http_error 404 (''position_not_found:'' @ m))
      | Some _ \<Rightarrow>
          (oc\<lparr>oc_fast := emergency_flatten_all venue (Audit (''operator_flatten:'' @ m) []) (oc_fast oc)\<rparr>,
           Http_ok ''flattening''))"

definition post_breaker_reset :: "orchestrator \<Rightarrow> string \<Rightarrow> orchestrator \<times> http_result" where
  "post_breaker_reset oc auth =
     (if \<not> check_auth oc auth then (oc, Http_error 403 ''operator_auth_required'')
      else if \<not> oc_breaker_wired oc then (oc, Http_error 503 ''breaker_not_available'')
      else case load_breaker_state (oc_store oc) of
        None \<Rightarrow> (oc, Http_error 409 ''breaker_not_tripped'')
      | Some st \<Rightarrow>
          if status st \<noteq> TRIPPED then (oc, Http_error 409 ''breaker_not_tripped'')
          else (case mint_operator_reset_token ''operator'' of
                  Inl e \<Rightarrow> (oc, Http_raised e)
                | Inr cred \<Rightarrow>
                    (case breaker_reset (fs_breaker (oc_fast oc)) cred of
                       (b, Inl e) \<Rightarrow> (oc\<lparr>oc_fast := (oc_fast oc)\<lparr>fs_breaker := b\<rparr>\<rparr>, Http_raised e)
                     | (b, Inr _) \<Rightarrow> (oc\<lparr>oc_fast := (oc_fast oc)\<lparr>fs_breaker := b\<rparr>\<rparr>, Http_ok ''breaker_reset''))))"

subsection \<open>Sweeps over the stored positions\<close>

text \<open>
  A stored position as a reconciler may find it: read from the store, and, when it is entering, not
  yet registered with the FAST loop or registered by its own record.
\<close>

definition entry_consistent :: "fast_loop \<Rightarrow> position \<Rightarrow> bool" where
  "entry_consistent fs p \<longleftrightarrow>
     load_position (fs_store fs) (pos_mint p) = Some p \<and>
     (fsm_state p = ENTERING \<longrightarrow> map_of (fs_registry fs) (pos_mint p) = None \<or> synced_at fs p)"

text \<open>A step that concerns one mint only.\<close>

definition others_kept :: "fast_loop \<Rightarrow> fast_loop \<Rightarrow> mint \<Rightarrow> bool" where
  "others_kept fs gs m \<longleftrightarrow>
     (\<forall>m'. m' \<noteq> m \<longrightarrow> load_position (fs_store gs) m' = load_position (fs_store fs) m') \<and>
     (\<forall>q. pos_mint q \<noteq> m \<longrightarrow> entry_consistent fs q \<longrightarrow> entry_consistent gs q) \<and>
     (\<forall>m' t. m' \<noteq> m \<longrightarrow> snd (in_cooldown (fs_store gs) m' t) = snd (in_cooldown (fs_store fs) m' t)) \<and>
     fs_wiring gs = fs_wiring fs \<and> fs_exit_config gs = fs_exit_config fs \<and>
     fs_cooldown_seconds gs = fs_cooldown_seconds fs \<and> fs_exits gs = fs_exits fs"

lemma others_kept_refl [simp]: "others_kept fs fs m"
  by (simp add: others_kept_def)

lemma in_cooldown_cong: "cooldowns s = cooldowns t \<Longrightarrow> snd (in_cooldown s m x) = snd (in_cooldown t m x)"
  by (simp add: in_cooldown_def case_prod_beta)

lemma load_set_cooldown [simp]: "load_position (set_cooldown s m' ttl now) m = load_position s m"
  by (simp add: load_position_def set_cooldown_def)

lemma others_kept_store:
  assumes "\<And>m'. m' \<noteq> m \<Longrightarrow> load_position s m' = load_position (fs_store fs) m'"
    and "cooldowns s = cooldowns (fs_store fs)"
  shows "others_kept fs (fs\<lparr>fs_store := s\<rparr>) m"
  using assms in_cooldown_cong [OF assms(2)] by (auto simp: others_kept_def entry_consistent_def synced_at_def)

lemma in_cooldown_set:
  "snd (in_cooldown (set_cooldown s m ttl now) m' t) =
     (if m' = m then t < now + ttl * 1000 else snd (in_cooldown s m' t))"
  by (auto simp: in_cooldown_def set_cooldown_def ttl_get_def ttl_put_def is_expired_def split: option.split)

lemma fsm_for_at:
  assumes "entry_consistent fs p" and "fsm_state p = ENTERING"
  obtains fs1 i where "fsm_for fs (pos_mint p) p = (fs1, i)" "fsm_at fs1 i = (fs_store fs, p)"
    "i < length (fs_objs fs1)" "fs_store fs1 = fs_store fs" "fs_registry fs1 = fs_registry fs" "fs_wiring fs1 = fs_wiring fs"
    "fs_exit_config fs1 = fs_exit_config fs" "fs_exits fs1 = fs_exits fs" "fs_exit_states fs1 = fs_exit_states fs"
    "fs_cooldown_seconds fs1 = fs_cooldown_seconds fs"
    "\<And>q j. map_of (fs_registry fs) (pos_mint q) = Some j \<Longrightarrow> j < length (fs_objs fs) \<Longrightarrow> fs_objs fs ! j = q \<Longrightarrow>
       pos_mint q \<noteq> pos_mint p \<Longrightarrow> j \<noteq> i \<and> j < length (fs_objs fs1) \<and> fs_objs fs1 ! j = q"
proof (cases "map_of (fs_registry fs) (pos_mint p)")
  case None
  then show thesis
    by (intro that [of "fs\<lparr>fs_objs := fs_objs fs @ [p]\<rparr>" "length (fs_objs fs)"])
      (auto simp: fsm_for_def new_fsm_def fsm_at_def nth_append)
next
  case (Some i)
  with assms have "synced_at fs p" by (simp add: entry_consistent_def)
  with Some show thesis
    by (intro that [of fs i]) (auto simp: fsm_for_def fsm_at_def synced_at_def)
qed

lemma other_entries_kept:
  assumes "entry_consistent fs q" and "pos_mint q \<noteq> m"
    and "load_position (fs_store gs) (pos_mint q) = load_position (fs_store fs) (pos_mint q)"
    and "map_of (fs_registry gs) (pos_mint q) = map_of (fs_registry fs) (pos_mint q)"
    and "\<And>j. map_of (fs_registry fs) (pos_mint q) = Some j \<Longrightarrow> j < length (fs_objs fs) \<Longrightarrow> fs_objs fs ! j = q \<Longrightarrow>
       j < length (fs_objs gs) \<and> fs_objs gs ! j = q"
  shows "entry_consistent gs q"
  using assms by (auto simp: entry_consistent_def synced_at_def)

text \<open>A fill that did not land, for an entering position.\<close>

lemma reconcile_failed:
  assumes "entry_consistent fs p" and "fsm_state p = ENTERING" and "\<not> landed fill"
  shows "\<exists>gs. reconcile_fill now fs (pos_mint p) fill = (gs, Inr True) \<and>
    load_position (fs_store gs) (pos_mint p) = None \<and> others_kept fs gs (pos_mint p) \<and>
    (\<forall>t. snd (in_cooldown (fs_store gs) (pos_mint p) t) \<longleftrightarrow> t < now + fs_cooldown_seconds fs * 1000)"
proof -
  from fsm_for_at [OF assms(1,2)] obtain fs1 i where
    f: "fsm_for fs (pos_mint p) p = (fs1, i)" "fsm_at fs1 i = (fs_store fs, p)"
    "i < length (fs_objs fs1)" "fs_store fs1 = fs_store fs" "fs_registry fs1 = fs_registry fs" "fs_wiring fs1 = fs_wiring fs"
    "fs_exit_config fs1 = fs_exit_config fs" "fs_exits fs1 = fs_exits fs" "fs_exit_states fs1 = fs_exit_states fs"
    "fs_cooldown_seconds fs1 = fs_cooldown_seconds fs"
    "\<And>q j. map_of (fs_registry fs) (pos_mint q) = Some j \<Longrightarrow> j < length (fs_objs fs) \<Longrightarrow> fs_objs fs ! j = q \<Longrightarrow>
       pos_mint q \<noteq> pos_mint p \<Longrightarrow> j \<noteq> i \<and> j < length (fs_objs fs1) \<and> fs_objs fs1 ! j = q" by blast
  let ?m = "pos_mint p"
  let ?u = "p\<lparr>fsm_state := VETOED, pos_status := Closed_status, realized_pnl_net_lamports := Some 0\<rparr>"
  let ?s = "delete_position (release_entering (save_position (fs_store fs) ?u) ?m) ?m"
  let ?gs = "forget_mint now (put_fsm fs1 i (?s, ?u)) ?m"
  have "reconcile_fill now fs ?m fill = (?gs, Inr True)"
    using assms f(1,2)
    by (simp add: reconcile_fill_def entry_consistent_def suppressed_def transition_to_vetoed_def Let_def
        validate_fsm_transition_def FSM_LEGAL_TRANSITIONS_def)
  moreover have ld: "load_position (fs_store ?gs) m' = (if m' = ?m then None else load_position (fs_store fs) m')" for m'
    by (simp add: forget_mint_def table.load_del table.load_save)
  moreover have cd: "snd (in_cooldown (fs_store ?gs) m' t) =
      (if m' = ?m then t < now + fs_cooldown_seconds fs * 1000 else snd (in_cooldown (fs_store fs) m' t))" for m' t
    using f(10) in_cooldown_cong [of ?s "fs_store fs" m' t]
    by (simp add: forget_mint_def in_cooldown_set put_fsm_def delete_position_def release_entering_def save_position_def)
  moreover have "others_kept fs ?gs ?m"
    unfolding others_kept_def
  proof (intro conjI allI impI)
    fix q assume q: "pos_mint q \<noteq> ?m" "entry_consistent fs q"
    show "entry_consistent ?gs q"
      using f(11) [of q] q by (intro other_entries_kept [OF q(2,1)]) 
        (auto simp: forget_mint_def put_fsm_def f(5) table.load_del table.load_save)
  next
    fix m' t assume "m' \<noteq> ?m"
    then show "snd (in_cooldown (fs_store ?gs) m' t) = snd (in_cooldown (fs_store fs) m' t)" by (simp only: cd if_False)
  qed (use f in \<open>simp_all add: forget_mint_def put_fsm_def table.load_del table.load_save\<close>)
  ultimately show ?thesis by auto
qed

text \<open>A landed fill, for an entering position.\<close>

definition opened_with :: "position \<Rightarrow> fill_result \<Rightarrow> position" where
  "opened_with p fill =
     p\<lparr>fsm_state := OPEN, tokens_out_base := tokens_out fill, entry_slippage_bps := fl_entry_slippage_bps fill,
       unrealized_pnl_net_lamports := 0, pos_status := Open_status\<rparr>"

lemma reconcile_landed:
  assumes "entry_consistent fs p" and "fsm_state p = ENTERING" and "landed fill" and "fs_wiring fs = None"
    and "exit_state_at_entry (pos_mint p) (fill_entry_price fill) (fs_exit_config fs) = Inr xs"
  shows "\<exists>gs. reconcile_fill now fs (pos_mint p) fill = (gs, Inr True) \<and>
    load_position (fs_store gs) (pos_mint p) = Some (opened_with p fill) \<and> others_kept fs gs (pos_mint p)"
proof -
  from fsm_for_at [OF assms(1,2)] obtain fs1 i where
    f: "fsm_for fs (pos_mint p) p = (fs1, i)" "fsm_at fs1 i = (fs_store fs, p)"
    "i < length (fs_objs fs1)" "fs_store fs1 = fs_store fs" "fs_registry fs1 = fs_registry fs" "fs_wiring fs1 = fs_wiring fs"
    "fs_exit_config fs1 = fs_exit_config fs" "fs_exits fs1 = fs_exits fs" "fs_exit_states fs1 = fs_exit_states fs"
    "fs_cooldown_seconds fs1 = fs_cooldown_seconds fs"
    "\<And>q j. map_of (fs_registry fs) (pos_mint q) = Some j \<Longrightarrow> j < length (fs_objs fs) \<Longrightarrow> fs_objs fs ! j = q \<Longrightarrow>
       pos_mint q \<noteq> pos_mint p \<Longrightarrow> j \<noteq> i \<and> j < length (fs_objs fs1) \<and> fs_objs fs1 ! j = q" by blast
  let ?m = "pos_mint p"
  let ?u = "opened_with p fill"
  let ?s = "release_entering (save_position (fs_store fs) ?u) ?m"
  let ?gs = "put_fsm fs1 i (?s, ?u)\<lparr>fs_registry := dict_set ?m i (fs_registry fs), fs_exit_states := dict_set ?m xs (fs_exit_states fs)\<rparr>"
  have um: "pos_mint ?u = ?m" by (simp add: opened_with_def)
  have "transition_to_open (fs_store fs, p) fill = Inr (?s, ?u)"
    using assms(2) by (simp add: transition_to_open_def Let_def validate_fsm_transition_def FSM_LEGAL_TRANSITIONS_def opened_with_def)
  then have "reconcile_fill now fs ?m fill = (?gs, Inr True)"
    using assms f(1,2,5,6,7,9)
    by (simp add: reconcile_fill_def entry_consistent_def Let_def arm_layer2_def)
  moreover have ld: "load_position (fs_store ?gs) m' = (if m' = ?m then Some ?u else load_position (fs_store fs) m')" for m'
    by (simp add: table.load_save um)
  moreover have cd: "snd (in_cooldown (fs_store ?gs) m' t) = snd (in_cooldown (fs_store fs) m' t)" for m' t
    by (rule in_cooldown_cong) (simp add: release_entering_def save_position_def)
  moreover have "others_kept fs ?gs ?m"
    unfolding others_kept_def
  proof (intro conjI allI impI)
    fix q assume q: "pos_mint q \<noteq> ?m" "entry_consistent fs q"
    show "entry_consistent ?gs q"
      using f(11) [of q] q by (intro other_entries_kept [OF q(2,1)]) (auto simp: put_fsm_def f(5) table.load_save um)
  next
    fix m' t assume "m' \<noteq> ?m"
    show "snd (in_cooldown (fs_store ?gs) m' t) = snd (in_cooldown (fs_store fs) m' t)" by (rule cd)
  qed (use f in \<open>simp_all add: put_fsm_def table.load_save um\<close>)
  ultimately show ?thesis by auto
qed

text \<open>
  What a reconciler promises: its step for a consistent position returns, gives that mint the
  prescribed outcome and concerns no other mint. A sweep over distinct mints then gives every
  position its outcome, whatever the order.
\<close>

locale position_sweep =
  fixes step :: "fast_loop \<Rightarrow> position \<Rightarrow> fast_loop \<times> reconcile_action list result"
    and outcome :: "position \<Rightarrow> position option" and admissible :: "fast_loop \<Rightarrow> position \<Rightarrow> bool"
    and cooled :: "fast_loop \<Rightarrow> position \<Rightarrow> millis \<Rightarrow> bool"
  assumes step_effect: "entry_consistent fs p \<Longrightarrow> admissible fs p \<Longrightarrow>
      \<exists>gs acts. step fs p = (gs, Inr acts) \<and> load_position (fs_store gs) (pos_mint p) = outcome p \<and>
        others_kept fs gs (pos_mint p) \<and>
        (\<forall>t. cooled fs p t \<longrightarrow> snd (in_cooldown (fs_store gs) (pos_mint p) t))"
    and admissible_kept: "others_kept fs gs m \<Longrightarrow> admissible gs p = admissible fs p \<and> cooled gs p t = cooled fs p t"
begin

lemma sweep_effect:
  "distinct (map pos_mint ps) \<Longrightarrow> \<forall>p \<in> set ps. entry_consistent fs p \<and> admissible fs p \<Longrightarrow>
   \<exists>gs acts. each_position step fs ps = (gs, Inr acts) \<and>
     (\<forall>p \<in> set ps. load_position (fs_store gs) (pos_mint p) = outcome p \<and>
        (\<forall>t. cooled fs p t \<longrightarrow> snd (in_cooldown (fs_store gs) (pos_mint p) t))) \<and>
     (\<forall>m. m \<notin> pos_mint ` set ps \<longrightarrow> load_position (fs_store gs) m = load_position (fs_store fs) m \<and>
        (\<forall>t. snd (in_cooldown (fs_store gs) m t) = snd (in_cooldown (fs_store fs) m t))) \<and>
     fs_exits gs = fs_exits fs"
proof (induction ps arbitrary: fs)
  case (Cons p ps)
  from Cons.prems(2) step_effect [of fs p] obtain gs acts where
    g: "step fs p = (gs, Inr acts)" "load_position (fs_store gs) (pos_mint p) = outcome p"
      "others_kept fs gs (pos_mint p)" "\<forall>t. cooled fs p t \<longrightarrow> snd (in_cooldown (fs_store gs) (pos_mint p) t)" by auto
  have new: "pos_mint q \<noteq> pos_mint p" if "q \<in> set ps" for q
    using Cons.prems(1) imageI [OF that, of pos_mint] by auto
  have "\<forall>q \<in> set ps. entry_consistent gs q \<and> admissible gs q"
    using Cons.prems(2) g(3) new admissible_kept [OF g(3)] by (simp add: others_kept_def)
  with Cons.IH [of gs] Cons.prems(1) obtain hs acts' where
    h: "each_position step gs ps = (hs, Inr acts')"
      "\<And>q. q \<in> set ps \<Longrightarrow> load_position (fs_store hs) (pos_mint q) = outcome q \<and>
         (\<forall>t. cooled fs q t \<longrightarrow> snd (in_cooldown (fs_store hs) (pos_mint q) t))"
      "\<And>m. m \<notin> pos_mint ` set ps \<Longrightarrow> load_position (fs_store hs) m = load_position (fs_store gs) m \<and>
         (\<forall>t. snd (in_cooldown (fs_store hs) m t) = snd (in_cooldown (fs_store gs) m t))"
      "fs_exits hs = fs_exits gs"
    using admissible_kept [OF g(3)] by auto
  have p: "pos_mint p \<notin> pos_mint ` set ps" using Cons.prems(1) by auto
  have other: "load_position (fs_store hs) m = load_position (fs_store fs) m \<and>
      (\<forall>t. snd (in_cooldown (fs_store hs) m t) = snd (in_cooldown (fs_store fs) m t))"
    if "m \<notin> pos_mint ` set (p # ps)" for m
    using that h(3) [of m] g(3) by (simp add: others_kept_def)
  have "\<forall>q \<in> set (p # ps). load_position (fs_store hs) (pos_mint q) = outcome q \<and>
      (\<forall>t. cooled fs q t \<longrightarrow> snd (in_cooldown (fs_store hs) (pos_mint q) t))"
    using h(2) h(3) [of "pos_mint p"] p g(2,4) by auto
  moreover have "fs_exits hs = fs_exits fs" using h(4) g(3) by (simp add: others_kept_def)
  moreover have "each_position step fs (p # ps) = (hs, Inr (acts @ acts'))" by (simp add: g(1) h(1))
  ultimately show ?case using other by blast
qed simp

end

subsection \<open>What reconciliation leaves in the store\<close>

definition reconciled :: "venue_state \<Rightarrow> position \<Rightarrow> position option" where
  "reconciled vs p =
     (case fsm_state p of
        ENTERING \<Rightarrow> map_option (opened_with p) (landed_fill vs p ''ENTRY'')
      | OPEN \<Rightarrow> if get_open_mints vs \<noteq> [] \<and> pos_mint p \<notin> set (get_open_mints vs) then None else Some p
      | CLOSING \<Rightarrow> if landed_fill vs p ''EXIT'' \<noteq> None then None else Some p
      | CLOSED \<Rightarrow> None
      | VETOED \<Rightarrow> None
      | IDLE \<Rightarrow> Some p)"

definition startup_ready :: "venue_state \<Rightarrow> fast_loop \<Rightarrow> position \<Rightarrow> bool" where
  "startup_ready vs fs p \<longleftrightarrow>
     fs_wiring fs = None \<and>
     (\<forall>fill. fsm_state p = ENTERING \<longrightarrow> landed_fill vs p ''ENTRY'' = Some fill \<longrightarrow>
        (\<exists>xs. exit_state_at_entry (pos_mint p) (fill_entry_price fill) (fs_exit_config fs) = Inr xs))"

definition startup_cooled :: "venue_state \<Rightarrow> millis \<Rightarrow> fast_loop \<Rightarrow> position \<Rightarrow> millis \<Rightarrow> bool" where
  "startup_cooled vs now fs p t \<longleftrightarrow>
     fsm_state p = ENTERING \<and> landed_fill vs p ''ENTRY'' = None \<and> t < now + fs_cooldown_seconds fs * 1000"

lemma landed_fill_landed: "landed_fill vs p kind = Some fill \<Longrightarrow> landed fill"
  by (auto simp: landed_fill_def split: option.splits if_splits)

lemma close_disappeared_open:
  "fsm_state p = OPEN \<Longrightarrow> \<exists>s'. close_disappeared s p = (s', True) \<and> cooldowns s' = cooldowns s \<and>
     (\<forall>m. load_position s' m = (if m = pos_mint p then None else load_position s m))"
  by (simp add: close_disappeared_def transition_to_closing_def transition_to_closed_def Let_def
      validate_fsm_transition_def FSM_LEGAL_TRANSITIONS_def table.load_del table.load_save)
    (simp add: delete_position_def save_position_def)

lemma close_finished_closing:
  "fsm_state p = CLOSING \<Longrightarrow> \<exists>s'. close_finished s p = (s', True) \<and> cooldowns s' = cooldowns s \<and>
     (\<forall>m. load_position s' m = (if m = pos_mint p then None else load_position s m))"
  by (simp add: close_finished_def transition_to_closed_def Let_def
      validate_fsm_transition_def FSM_LEGAL_TRANSITIONS_def table.load_del table.load_save)
    (simp add: delete_position_def save_position_def)

lemma startup_one_effect:
  assumes "entry_consistent fs p" and "startup_ready vs fs p"
  shows "\<exists>gs acts. startup_one vs now fs p = (gs, Inr acts) \<and>
    load_position (fs_store gs) (pos_mint p) = reconciled vs p \<and> others_kept fs gs (pos_mint p) \<and>
    (\<forall>t. startup_cooled vs now fs p t \<longrightarrow> snd (in_cooldown (fs_store gs) (pos_mint p) t))"
proof (cases "fsm_state p")
  case ENTERING
  show ?thesis
  proof (cases "landed_fill vs p ''ENTRY''")
    case None
    with reconcile_failed [OF assms(1) ENTERING, of "failed_fill ''reconcile_no_fill''" now] ENTERING show ?thesis
      by (auto simp: startup_one_def Let_def reconciled_def startup_cooled_def failed_fill_def)
  next
    case (Some fill)
    then obtain xs where "exit_state_at_entry (pos_mint p) (fill_entry_price fill) (fs_exit_config fs) = Inr xs"
      and w: "fs_wiring fs = None" using assms(2) ENTERING by (auto simp: startup_ready_def)
    from reconcile_landed [OF assms(1) ENTERING landed_fill_landed [OF Some] w this(1), of now] Some ENTERING show ?thesis
      by (auto simp: startup_one_def Let_def reconciled_def startup_cooled_def)
  qed
next
  case OPEN
  have ld: "load_position (fs_store fs) (pos_mint p) = Some p" using assms(1) by (simp add: entry_consistent_def)
  from close_disappeared_open [OF OPEN, of "fs_store fs"] obtain s' where
    s': "close_disappeared (fs_store fs) p = (s', True)" "cooldowns s' = cooldowns (fs_store fs)"
      "\<And>m. load_position s' m = (if m = pos_mint p then None else load_position (fs_store fs) m)" by blast
  have "others_kept fs (fs\<lparr>fs_store := s'\<rparr>) (pos_mint p)" by (rule others_kept_store) (simp_all add: s'(2,3))
  with s' ld OPEN show ?thesis by (simp add: startup_one_def Let_def reconciled_def startup_cooled_def)
next
  case CLOSING
  have ld: "load_position (fs_store fs) (pos_mint p) = Some p" using assms(1) by (simp add: entry_consistent_def)
  from close_finished_closing [OF CLOSING, of "fs_store fs"] obtain s' where
    s': "close_finished (fs_store fs) p = (s', True)" "cooldowns s' = cooldowns (fs_store fs)"
      "\<And>m. load_position s' m = (if m = pos_mint p then None else load_position (fs_store fs) m)" by blast
  have "others_kept fs (fs\<lparr>fs_store := s'\<rparr>) (pos_mint p)" by (rule others_kept_store) (simp_all add: s'(2,3))
  with s' ld CLOSING show ?thesis
    by (cases "landed_fill vs p ''EXIT''") (simp_all add: startup_one_def Let_def reconciled_def startup_cooled_def)
next
  case CLOSED
  have "others_kept fs (fs\<lparr>fs_store := delete_position (fs_store fs) (pos_mint p)\<rparr>) (pos_mint p)"
    by (rule others_kept_store) (simp add: table.load_del, simp add: delete_position_def)
  with CLOSED show ?thesis by (simp add: startup_one_def Let_def reconciled_def startup_cooled_def table.load_del)
next
  case VETOED
  have "others_kept fs (fs\<lparr>fs_store := delete_position (fs_store fs) (pos_mint p)\<rparr>) (pos_mint p)"
    by (rule others_kept_store) (simp add: table.load_del, simp add: delete_position_def)
  with VETOED show ?thesis by (simp add: startup_one_def Let_def reconciled_def startup_cooled_def table.load_del)
next
  case IDLE
  with assms(1) show ?thesis
    by (simp add: startup_one_def Let_def reconciled_def startup_cooled_def entry_consistent_def)
qed

interpretation boot: position_sweep "startup_one vs now" "reconciled vs" "startup_ready vs" "startup_cooled vs now" for vs now
  by unfold_locales (rule startup_one_effect, auto simp: others_kept_def startup_ready_def startup_cooled_def)

interpretation timeouts: position_sweep "continuous_one ttl now sl"
  "\<lambda>p. if entering_too_old ttl sl p then None else Some p" "\<lambda>_ _. True"
  "\<lambda>fs p t. entering_too_old ttl sl p \<and> t < now + fs_cooldown_seconds fs * 1000" for ttl now sl
proof
  fix fs p
  assume p: "entry_consistent fs p"
  show "\<exists>gs acts. continuous_one ttl now sl fs p = (gs, Inr acts) \<and>
      load_position (fs_store gs) (pos_mint p) = (if entering_too_old ttl sl p then None else Some p) \<and>
      others_kept fs gs (pos_mint p) \<and>
      (\<forall>t. entering_too_old ttl sl p \<and> t < now + fs_cooldown_seconds fs * 1000 \<longrightarrow>
        snd (in_cooldown (fs_store gs) (pos_mint p) t))"
  proof (cases "entering_too_old ttl sl p")
    case True
    then have "fsm_state p = ENTERING" by (simp add: entering_too_old_def)
    from reconcile_failed [OF p this, of "failed_fill ''entering_timed_out''" now] True show ?thesis
      by (auto simp: continuous_one_def failed_fill_def)
  next
    case False
    with p show ?thesis by (simp add: continuous_one_def entry_consistent_def)
  qed
qed (auto simp: others_kept_def)

lemma load_all_entries:
  assumes "store_ok s"
  shows "distinct (map pos_mint (load_all_positions s))"
    and "p \<in> set (load_all_positions s) \<longleftrightarrow> load_position s (pos_mint p) = Some p"
    and "m \<in> pos_mint ` set (load_all_positions s) \<longleftrightarrow> load_position s m \<noteq> None"
proof -
  show "distinct (map pos_mint (load_all_positions s))" using assms by (simp add: store_ok_mints) (simp add: store_ok_def)
  show "p \<in> set (load_all_positions s) \<longleftrightarrow> load_position s (pos_mint p) = Some p"
    using load_position_iff [OF assms, of "pos_mint p" p] by auto
  have "m \<in> set (map pos_mint (load_all_positions s)) \<longleftrightarrow> load_position s m \<noteq> None"
    unfolding store_ok_mints [OF assms] load_position_def by (simp add: map_of_eq_None_iff)
  then show "m \<in> pos_mint ` set (load_all_positions s) \<longleftrightarrow> load_position s m \<noteq> None" by simp
qed


definition demo_entering :: fast_loop where
  "demo_entering =
     demo_loop\<lparr>fs_store := save_position empty_store (demo_position\<lparr>fsm_state := ENTERING\<rparr>), fs_objs := [],
       fs_registry := [], fs_exit_states := []\<rparr>"

lemma demo_entering_book:
  "load_position (fs_store demo_entering) m =
     (if m = ''m'' then Some (demo_position\<lparr>fsm_state := ENTERING\<rparr>) else None)"
  by (simp add: demo_entering_def table.load_save) (simp add: demo_position_def load_position_def empty_store_def)

lemma demo_entering_ok:
  "store_ok (fs_store demo_entering)"
  "load_position (fs_store demo_entering) (pos_mint p) = Some p \<Longrightarrow> entry_consistent demo_entering p"
  by (simp_all add: store_ok_def demo_entering_def save_position_def empty_store_def entry_consistent_def)


text \<open>
  No entry stays pending. One pass of the continuous reconciliation over a well-formed book returns,
  sends no order, removes exactly the entering positions older than the entering time to live
  (counted in slots of 400 ms), puts their mints into cooldown and keeps every other position.
\<close>

theorem continuous_reconcile_clears_stale_entries:
  assumes "store_ok (fs_store fs)"
    and "\<forall>p. load_position (fs_store fs) (pos_mint p) = Some p \<longrightarrow> entry_consistent fs p"
  shows "\<exists>gs acts. continuous_reconcile_tick ttl now sl fs = (gs, Inr acts) \<and> fs_exits gs = fs_exits fs \<and>
    (\<forall>m. load_position (fs_store gs) m =
       (case load_position (fs_store fs) m of None \<Rightarrow> None | Some p \<Rightarrow> if entering_too_old ttl sl p then None else Some p)) \<and>
    (\<forall>m p t. load_position (fs_store fs) m = Some p \<and> entering_too_old ttl sl p \<and>
       t < now + fs_cooldown_seconds fs * 1000 \<longrightarrow> snd (in_cooldown (fs_store gs) m t))"
proof -
  let ?ps = "load_all_positions (fs_store fs)"
  note e = load_all_entries [OF assms(1)]
  have ready: "\<forall>p \<in> set ?ps. entry_consistent fs p \<and> True" using assms(2) by (simp add: e(2))
  from timeouts.sweep_effect [OF e(1) ready, of ttl now sl] obtain gs acts where
    g: "each_position (continuous_one ttl now sl) fs ?ps = (gs, Inr acts)" "fs_exits gs = fs_exits fs"
      "\<And>p. p \<in> set ?ps \<Longrightarrow> load_position (fs_store gs) (pos_mint p) = (if entering_too_old ttl sl p then None else Some p) \<and>
         (\<forall>t. entering_too_old ttl sl p \<and> t < now + fs_cooldown_seconds fs * 1000 \<longrightarrow>
            snd (in_cooldown (fs_store gs) (pos_mint p) t))"
      "\<And>m. m \<notin> pos_mint ` set ?ps \<Longrightarrow> load_position (fs_store gs) m = load_position (fs_store fs) m" by metis
  have some: "pos_mint p = m \<and> p \<in> set ?ps" if "load_position (fs_store fs) m = Some p" for m p
    using that load_position_iff [OF assms(1), of m p] by auto
  have "load_position (fs_store gs) m =
       (case load_position (fs_store fs) m of None \<Rightarrow> None | Some p \<Rightarrow> if entering_too_old ttl sl p then None else Some p)" for m
  proof (cases "load_position (fs_store fs) m")
    case None
    then show ?thesis using g(4) [of m] e(3) [of m] by simp
  next
    case (Some p)
    then show ?thesis using g(3) [of p] some [OF Some] by simp
  qed
  moreover have "snd (in_cooldown (fs_store gs) m t)"
    if "load_position (fs_store fs) m = Some p" "entering_too_old ttl sl p" "t < now + fs_cooldown_seconds fs * 1000" for m p t
    using g(3) [of p] some [OF that(1)] that by auto
  ultimately show ?thesis using g(1,2) by (auto simp: continuous_reconcile_tick_def)
qed

theorem continuous_reconcile_clears_stale_entries_witness:
  "\<exists>gs acts. continuous_reconcile_tick 30 0 100 demo_entering = (gs, Inr acts) \<and> load_position (fs_store gs) ''m'' = None"
proof -
  have "\<forall>p. load_position (fs_store demo_entering) (pos_mint p) = Some p \<longrightarrow> entry_consistent demo_entering p"
    using demo_entering_ok(2) by simp
  moreover have "entering_too_old 30 100 (demo_position\<lparr>fsm_state := ENTERING\<rparr>)"
    by (simp add: entering_too_old_def demo_position_def)
  ultimately show ?thesis
    using continuous_reconcile_clears_stale_entries [OF demo_entering_ok(1), of 30 0 100] by (auto simp: demo_entering_book)
qed

subsection \<open>Runs of the controller\<close>

text \<open>
  Everything that reaches the orchestrator after its startup: launches, ticks, fills, the SLOW
  producers, the operator's requests and the clearing of the kill switch.
\<close>

datatype controller_event =
    Launch millis millis launch_event string
  | Tick "mint \<Rightarrow> decimal option" millis millis int
  | Fill millis mint fill_result
  | Decoded_sell millis sell_observation
  | Enrichment_tick millis int
  | Regime millis regime_signal
  | Survivor millis survivor_prediction
  | Regime_tick millis
  | Post_kill string
  | Post_flatten mint string
  | Post_breaker_reset string
  | Clear_kill

fun controller_step ::
    "(entry_intent \<Rightarrow> launch_event \<Rightarrow> fill_result) \<Rightarrow> venue \<Rightarrow> ((string \<times> int) list \<Rightarrow> string \<times> int) \<Rightarrow>
     orchestrator \<Rightarrow> controller_event \<Rightarrow> orchestrator \<times> entry_intent list" where
  "controller_step execute venue pick oc (Launch now elapsed ev creator) =
     (case on_launch_event execute now elapsed oc ev creator of (oc', _, sent) \<Rightarrow> (oc', sent))"
| "controller_step execute venue pick oc (Tick price now bt sl) = (fst (orchestrator_tick venue price now bt sl oc), [])"
| "controller_step execute venue pick oc (Fill now m fill) = (fst (on_fill now oc m fill), [])"
| "controller_step execute venue pick oc (Decoded_sell now ob) = (fst (on_decoded_sell pick now oc ob), [])"
| "controller_step execute venue pick oc (Enrichment_tick now sl) = (fst (run_slow_enrichment_tick now oc sl), [])"
| "controller_step execute venue pick oc (Regime now sg) = (fst (orchestrator_regime_signal now oc sg), [])"
| "controller_step execute venue pick oc (Survivor now pred) = (fst (orchestrator_survivor now oc pred), [])"
| "controller_step execute venue pick oc (Regime_tick now) = (fst (run_slow_regime_tick now oc), [])"
| "controller_step execute venue pick oc (Post_kill auth) = (fst (post_kill venue oc auth), [])"
| "controller_step execute venue pick oc (Post_flatten m auth) = (fst (post_flatten venue oc m auth), [])"
| "controller_step execute venue pick oc (Post_breaker_reset auth) = (fst (post_breaker_reset oc auth), [])"
| "controller_step execute venue pick oc Clear_kill = (kill_switch_clear oc, [])"

fun controller_run ::
    "(entry_intent \<Rightarrow> launch_event \<Rightarrow> fill_result) \<Rightarrow> venue \<Rightarrow> ((string \<times> int) list \<Rightarrow> string \<times> int) \<Rightarrow>
     orchestrator \<Rightarrow> controller_event list \<Rightarrow> orchestrator \<times> entry_intent list" where
  "controller_run execute venue pick oc [] = (oc, [])"
| "controller_run execute venue pick oc (e # es) =
     (case controller_step execute venue pick oc e of (oc1, sent) \<Rightarrow>
      case controller_run execute venue pick oc1 es of (oc2, sent') \<Rightarrow> (oc2, sent @ sent'))"

lemma with_store_frame [simp]:
  "oc_killed (with_store oc s) = oc_killed oc" "oc_operator_token (with_store oc s) = oc_operator_token oc"
  "oc_started (with_store oc s) = oc_started oc" "oc_snipe (with_store oc s) = oc_snipe oc"
  "oc_store (with_store oc s) = s" "fs_breaker (oc_fast (with_store oc s)) = fs_breaker (oc_fast oc)"
  by (simp_all add: with_store_def)

lemma launch_killed:
  "oc_killed oc \<Longrightarrow> \<exists>oc' r. on_launch_event execute now elapsed oc ev creator = (oc', r, []) \<and> oc_killed oc'"
  by (auto simp: on_launch_event_def split: prod.split sum.split)

lemma controller_step_killed:
  assumes "oc_killed oc" and "e \<noteq> Clear_kill" and "controller_step execute venue pick oc e = (oc', sent)"
  shows "oc_killed oc' \<and> sent = []"
proof (cases e)
  case (Launch now elapsed ev creator)
  from launch_killed [OF assms(1), of execute now elapsed ev creator] assms(3) Launch show ?thesis by auto
qed (use assms in \<open>auto simp: orchestrator_tick_def on_fill_def on_decoded_sell_def run_slow_enrichment_tick_def
    orchestrator_regime_signal_def orchestrator_survivor_def run_slow_regime_tick_def post_kill_def kill_switch_kill_def
    post_flatten_def post_breaker_reset_def Let_def split: prod.splits sum.splits option.splits if_splits\<close>)

lemma controller_run_killed:
  "oc_killed oc \<Longrightarrow> Clear_kill \<notin> set es \<Longrightarrow> controller_run execute venue pick oc es = (oc', sent) \<Longrightarrow> oc_killed oc' \<and> sent = []"
proof (induction es arbitrary: oc sent)
  case (Cons e es)
  obtain oc1 sent1 where s: "controller_step execute venue pick oc e = (oc1, sent1)"
    by (cases "controller_step execute venue pick oc e")
  with controller_step_killed [OF Cons.prems(1) _ s] Cons show ?case by (auto split: prod.splits)
qed simp

text \<open>
  C14. The kill switch. A kill request with the operator's token flattens the book and from then on, over
  every interleaving of launches, ticks, fills, producers and other requests up to a deliberate
  clearing of the switch, no entry order is submitted. Without the token the request changes
  nothing.
\<close>

theorem killed_controller_never_enters:
  assumes "post_kill venue oc auth = (oc1, reply)" and "Clear_kill \<notin> set es"
    and "controller_run execute venue pick oc1 es = (oc2, sent)"
  shows "if check_auth oc auth
    then oc_fast oc1 = emergency_flatten_all venue (Audit ''operator_kill'' []) (oc_fast oc) \<and> oc_killed oc2 \<and> sent = []
    else oc1 = oc \<and> reply = Http_error 403 ''operator_auth_required''"
  using assms(1) controller_run_killed [OF _ assms(2,3)]
  by (auto simp: post_kill_def Let_def kill_switch_kill_def split: if_splits)

definition demo_controller :: orchestrator where
  "demo_controller =
     \<lparr>oc_fast = demo_loop, oc_snipe = demo_snipe,
      oc_slow = \<lparr>sw_classifier = (\<lambda>_. Inr (Some demo_signal)), sw_reasoner = None, sw_signal_ttl = 30, sw_veto_ttl = 60,
        sw_narrative_ttl = 120\<rparr>,
      oc_venue_state = null_venue_state, oc_entering_ttl = 30, oc_killed = False, oc_enrichment = None, oc_regime = None,
      oc_started = True, oc_operator_token = ''t'', oc_breaker_wired = True\<rparr>"

theorem killed_controller_never_enters_witness:
  "snd (controller_run (\<lambda>_ _. demo_fill) (\<lambda>_ _ _. demo_fill) hd
     (fst (post_kill (\<lambda>_ _ _. demo_fill) demo_controller ''Bearer t'')) [Launch 0 20 demo_event ''c'']) = []"
proof -
  let ?v = "\<lambda>_ _ _. demo_fill" and ?x = "\<lambda>_ _. demo_fill"
  obtain oc1 reply where k: "post_kill ?v demo_controller ''Bearer t'' = (oc1, reply)"
    by (cases "post_kill ?v demo_controller ''Bearer t''")
  obtain oc2 sent where r: "controller_run ?x ?v hd oc1 [Launch 0 20 demo_event ''c''] = (oc2, sent)"
    by (cases "controller_run ?x ?v hd oc1 [Launch 0 20 demo_event ''c'']")
  have "check_auth demo_controller ''Bearer t''" by (simp add: check_auth_def demo_controller_def)
  with killed_controller_never_enters [OF k _ r] show ?thesis using k r by simp
qed

subsection \<open>After a trip: the operator's reset\<close>

lemma sync_drop_registry: "fs_registry (foldl sync_drop fs ms) = filter (\<lambda>(m, i). m \<notin> set ms) (fs_registry fs)"
  by (induction ms arbitrary: fs) (auto simp: sync_drop_def dict_pop_def intro!: filter_cong)

lemma sync_drop_store: "fs_store (foldl sync_drop fs ms) = fs_store fs" "fs_breaker (foldl sync_drop fs ms) = fs_breaker fs"
  by (induction ms arbitrary: fs) (simp_all add: sync_drop_def)

lemma tick_layer2_quiet: "\<exists>gs. tick_layer2 venue now fs [] = (gs, Inr []) \<and> fs_store gs = fs_store fs \<and> fs_breaker gs = fs_breaker fs"
  by (simp add: tick_layer2_def Let_def armed_mints_def filter_False split: option.split)

lemma fast_tick_empty:
  assumes "positions (fs_store fs) = []"
  shows "\<exists>gs. fast_tick venue price now bt fs = (gs, Inr []) \<and> fs_store gs = emit_heartbeat (fs_store fs) bt now \<and>
    fs_breaker gs = fs_breaker fs"
proof -
  let ?fs0 = "fs\<lparr>fs_store := emit_heartbeat (fs_store fs) bt now\<rparr>"
  let ?fs1 = "foldl sync_drop ?fs0 (dict_keys (fs_registry fs))"
  have l: "load_all_positions (emit_heartbeat (fs_store fs) bt now) = []" using assms by (simp add: load_all_positions_def emit_heartbeat_def)
  have sync: "sync_registry ?fs0 = (?fs1, Inr ())" by (simp add: sync_registry_def l Let_def)
  have "fs_registry ?fs1 = []" by (auto simp: sync_drop_registry filter_empty_conv intro: rev_image_eqI)
  moreover from tick_layer2_quiet [of venue now ?fs1] obtain gs where
    "tick_layer2 venue now ?fs1 [] = (gs, Inr [])" "fs_store gs = fs_store ?fs1" "fs_breaker gs = fs_breaker ?fs1" by blast
  ultimately show ?thesis using sync by (simp add: fast_tick_def Let_def sync_drop_store)
qed

lemma snipe_refuses_tripped:
  "load_breaker_state s = Some b \<Longrightarrow> status b = TRIPPED \<Longrightarrow>
   process_event execute sl s now elapsed ev = (s, Inr (Skipped BREAKER_TRIPPED), [])"
  by (simp add: process_event_def snipe_prechecks_def)

text \<open>An empty book whose stored breaker projection is tripped.\<close>

definition stuck :: "orchestrator \<Rightarrow> breaker_state \<Rightarrow> bool" where
  "stuck oc st \<longleftrightarrow> positions (oc_store oc) = [] \<and> st_breaker (oc_store oc) = Some st"

lemma stuck_store: "stuck oc st \<Longrightarrow> same_book (oc_store oc) s \<Longrightarrow> stuck (with_store oc s) st"
  by (simp add: stuck_def same_book_def)

lemma stuck_cong [simp]:
  "stuck (oc\<lparr>oc_enrichment := x\<rparr>) st = stuck oc st" "stuck (oc\<lparr>oc_regime := y\<rparr>) st = stuck oc st"
  "stuck (oc\<lparr>oc_killed := b\<rparr>) st = stuck oc st"
  by (simp_all add: stuck_def)

lemma stuck_launch:
  assumes "stuck oc st" and "status st = TRIPPED"
    and "on_launch_event execute now elapsed oc ev creator = (oc', r, sent)"
  shows "stuck oc' st \<and> sent = []"
proof -
  obtain s1 x where slow: "slow_process_event (oc_slow oc) now (oc_store oc) ev = (s1, x)"
    by (cases "slow_process_event (oc_slow oc) now (oc_store oc) ev")
  have sb: "same_book (oc_store oc) s1" using slow_process_same_book [of "oc_store oc" "oc_slow oc" now ev] slow by simp
  then have st: "stuck (with_store oc s1) st" using assms(1) by (rule stuck_store [rotated])
  then have "process_event execute (oc_snipe oc) s1 now elapsed ev = (s1, Inr (Skipped BREAKER_TRIPPED), [])"
    using assms(2) by (intro snipe_refuses_tripped [of _ st]) (simp_all add: stuck_def load_breaker_state_def)
  with st assms(1,3) slow show ?thesis
    by (auto simp: on_launch_event_def split: if_splits sum.splits option.splits)
qed

lemma stuck_tick:
  assumes "stuck oc st"
  shows "stuck (fst (orchestrator_tick venue price now bt sl oc)) st"
proof -
  from fast_tick_empty [of "oc_fast oc" venue price now bt] assms obtain gs where
    g: "fast_tick venue price now bt (oc_fast oc) = (gs, Inr [])" "fs_store gs = emit_heartbeat (oc_store oc) bt now"
    by (auto simp: stuck_def)
  have "load_all_positions (fs_store gs) = []" "stuck (oc\<lparr>oc_fast := gs\<rparr>) st"
    using assms by (simp_all add: g(2) stuck_def emit_heartbeat_def load_all_positions_def)
  with assms g(1) show ?thesis by (simp add: orchestrator_tick_def continuous_reconcile_tick_def)
qed

lemma empty_book_reads:
  "positions s = [] \<Longrightarrow> load_all_positions s = []" "positions s = [] \<Longrightarrow> load_position s m = None"
  by (simp_all add: load_all_positions_def load_position_def)

lemma stuck_enrichment:
  assumes "stuck oc st"
  shows "stuck (fst (run_slow_enrichment_tick now oc sl)) st" "stuck (fst (on_decoded_sell pick now oc ob)) st"
proof -
  have e: "load_all_positions (oc_store oc) = []" using assms by (simp add: stuck_def empty_book_reads)
  have s1: "fst (snd (enrich_sellability now ew (oc_store oc) sl)) = oc_store oc" for ew
    by (simp add: enrich_sellability_def e reprobe_open_positions_def Let_def split: option.split)
  have s2: "fst (snd (enrich_lp_unlock now ew (oc_store oc) sl)) = oc_store oc" for ew
    by (simp add: enrich_lp_unlock_def e split: option.split)
  show "stuck (fst (run_slow_enrichment_tick now oc sl)) st"
  proof (cases "oc_enrichment oc")
    case (Some ew)
    obtain ew1 r1 where e1: "enrich_sellability now ew (oc_store oc) sl = (ew1, oc_store oc, r1)"
      using s1 [of ew] by (cases "enrich_sellability now ew (oc_store oc) sl") auto
    obtain ew2 r2 where e2: "enrich_lp_unlock now ew1 (oc_store oc) sl = (ew2, oc_store oc, r2)"
      using s2 [of ew1] by (cases "enrich_lp_unlock now ew1 (oc_store oc) sl") auto
    have "stuck (with_store oc (oc_store oc)) st" using assms by (simp add: stuck_def)
    with Some e1 e2 show ?thesis by (simp add: run_slow_enrichment_tick_def split: sum.split)
  qed (use assms in \<open>simp add: run_slow_enrichment_tick_def\<close>)
  show "stuck (fst (on_decoded_sell pick now oc ob)) st"
  proof (cases "oc_enrichment oc")
    case (Some ew)
    have "same_book (oc_store oc) (fst (snd (enrich_on_decoded_sell pick now ew (oc_store oc) ob)))"
      using insider_same_book [of "oc_store oc" pick now _ ob]
      by (simp add: enrich_on_decoded_sell_def case_prod_beta split: option.split)
    with Some assms show ?thesis by (simp add: on_decoded_sell_def case_prod_beta stuck_store)
  qed (use assms in \<open>simp add: on_decoded_sell_def\<close>)
qed

lemma stuck_regime:
  assumes "stuck oc st"
  shows "stuck (fst (orchestrator_regime_signal now oc sg)) st" "stuck (fst (orchestrator_survivor now oc pred)) st"
    "stuck (fst (run_slow_regime_tick now oc)) st"
proof -
  have e: "load_all_positions (oc_store oc) = []" using assms by (simp add: stuck_def empty_book_reads)
  have "stuck (with_store oc (oc_store oc)) st" using assms by (simp add: stuck_def)
  with assms e show "stuck (fst (run_slow_regime_tick now oc)) st"
    by (simp add: run_slow_regime_tick_def run_survivor_derisk_def split: option.split)
  show "stuck (fst (orchestrator_regime_signal now oc sg)) st" "stuck (fst (orchestrator_survivor now oc pred)) st"
    using assms
    by (simp_all add: orchestrator_regime_signal_def orchestrator_survivor_def apply_regime_signal_def
        apply_survivor_prediction_def Let_def case_prod_beta stuck_store directive_same_book split: option.split)
qed

lemma stuck_requests:
  assumes "stuck oc st"
  shows "stuck (fst (post_kill venue oc auth)) st" "stuck (fst (post_flatten venue oc m auth)) st"
    "stuck (fst (post_breaker_reset oc auth)) st" "stuck (fst (on_fill now oc m fill)) st" "stuck (kill_switch_clear oc) st"
  using assms
  by (auto simp: stuck_def post_kill_def kill_switch_kill_def post_flatten_def post_breaker_reset_def on_fill_def
      emergency_flatten_all_def empty_book_reads reconcile_fill_def Let_def kill_switch_clear_def
      split: option.split sum.split prod.split)

lemma stuck_run:
  "stuck oc st \<Longrightarrow> status st = TRIPPED \<Longrightarrow> controller_run execute venue pick oc es = (oc', sent) \<Longrightarrow> stuck oc' st \<and> sent = []"
proof (induction es arbitrary: oc sent)
  case (Cons e es)
  obtain oc1 sent1 where s: "controller_step execute venue pick oc e = (oc1, sent1)"
    by (cases "controller_step execute venue pick oc e")
  have "stuck oc1 st \<and> sent1 = []"
  proof (cases e)
    case (Launch now elapsed ev creator)
    with s stuck_launch [OF Cons.prems(1,2), of execute now elapsed ev creator] show ?thesis by (auto split: prod.splits)
  qed (use s stuck_tick [OF Cons.prems(1)] stuck_enrichment [OF Cons.prems(1)] stuck_regime [OF Cons.prems(1)]
      stuck_requests [OF Cons.prems(1)] in auto)
  with Cons.IH [of oc1] Cons.prems(2,3) s show ?case by (auto split: prod.splits)
qed simp

text \<open>
  The operator's reset does not bring entries back. After a trip has flattened the book, a reset
  request with the operator's token re-arms the breaker and answers success, but the projection
  that the SNIPE loop reads stays tripped: it is only written by the tick of a held position. Over
  every sequence of further launches, ticks, fills, producers and operator requests, further resets
  included, no entry order is submitted again.
\<close>

theorem breaker_reset_does_not_resume_sniping:
  assumes "check_auth oc auth" and "oc_breaker_wired oc" and "is_tripped (fs_breaker (oc_fast oc))"
    and "load_breaker_state (oc_store oc) = Some st" and "status st = TRIPPED"
    and "load_all_positions (oc_store oc) = []"
    and "post_breaker_reset oc auth = (oc1, reply)"
    and "controller_run execute venue pick oc1 es = (oc2, sent)"
  shows "reply = Http_ok ''breaker_reset'' \<and> \<not> is_tripped (fs_breaker (oc_fast oc1)) \<and> sent = []"
proof -
  have "stuck oc st" using assms(4,6) by (simp add: stuck_def load_breaker_state_def load_all_positions_def)
  then have "stuck oc1 st" using stuck_requests(3) [of oc st auth] assms(7) by simp
  from stuck_run [OF this assms(5,8)] have "sent = []" by simp
  moreover have "reply = Http_ok ''breaker_reset'' \<and> \<not> is_tripped (fs_breaker (oc_fast oc1))"
    using assms(1-5,7)
    by (auto simp: post_breaker_reset_def mint_operator_reset_token_def breaker_reset_def is_tripped_def armed_zero_def)
  ultimately show ?thesis by simp
qed

theorem breaker_reset_does_not_resume_sniping_witness:
  "\<exists>oc st reply oc1. load_breaker_state (oc_store oc) = Some st \<and> status st = TRIPPED \<and>
     post_breaker_reset oc ''Bearer t'' = (oc1, reply) \<and> \<not> is_tripped (fs_breaker (oc_fast oc1)) \<and>
     snd (controller_run (\<lambda>_ _. demo_fill) (\<lambda>_ _ _. demo_fill) hd oc1 [Launch 0 20 demo_event ''c'']) = []"
proof -
  define st :: breaker_state where "st = \<lparr>status = TRIPPED, tripped_at_utc = Some 1000, daily_net_pnl_lamports = -1,
     daily_net_pnl_day_utc = Some 0, threshold_breached = Some (Audit ''pct'' [])\<rparr>"
  define oc where "oc = demo_controller\<lparr>oc_fast := demo_loop\<lparr>fs_store := empty_store\<lparr>st_breaker := Some st\<rparr>,
     fs_breaker := (fresh_breaker default_risk_config)\<lparr>b_state := st\<rparr>\<rparr>\<rparr>"
  let ?v = "\<lambda>_ _ _. demo_fill" and ?x = "\<lambda>_ _. demo_fill"
  obtain oc1 reply where k: "post_breaker_reset oc ''Bearer t'' = (oc1, reply)"
    by (cases "post_breaker_reset oc ''Bearer t''")
  obtain oc2 sent where r: "controller_run ?x ?v hd oc1 [Launch 0 20 demo_event ''c''] = (oc2, sent)"
    by (cases "controller_run ?x ?v hd oc1 [Launch 0 20 demo_event ''c'']")
  have o: "check_auth oc ''Bearer t''" "oc_breaker_wired oc" "is_tripped (fs_breaker (oc_fast oc))"
    "load_breaker_state (oc_store oc) = Some st" "status st = TRIPPED" "load_all_positions (oc_store oc) = []"
    by (simp_all add: oc_def st_def check_auth_def demo_controller_def is_tripped_def load_breaker_state_def
        load_all_positions_def empty_store_def)
  from breaker_reset_does_not_resume_sniping [OF o k r] k r o(4,5) show ?thesis
    by (intro exI [of _ oc] exI [of _ st] exI [of _ reply] exI [of _ oc1]) simp
qed

text \<open>
  A request to flatten one position sells the whole book: with the operator's token and a known mint,
  every open or closing position, of whatever mint, is sold in full in secure mode, in the
  store's order, exactly as the kill request does; an unknown mint is refused with 404.
\<close>

theorem flatten_request_sells_whole_book:
  assumes "check_auth oc auth" and "post_flatten venue oc m auth = (oc1, reply)"
  shows "if load_position (oc_store oc) m = None then oc1 = oc \<and> reply = Http_error 404 (''position_not_found:'' @ m)
    else fs_exits (oc_fast oc1) = fs_exits (oc_fast oc) @
      map (\<lambda>p. (emergency_intent p (Audit (''operator_flatten:'' @ m) []), p))
        (filter (\<lambda>p. fsm_state p = OPEN \<or> fsm_state p = CLOSING) (load_all_positions (oc_store oc)))"
  using assms by (auto simp: post_flatten_def flatten_all_exits)

theorem flatten_request_sells_whole_book_witness:
  "\<exists>oc oc1 reply. post_flatten (\<lambda>_ _ _. demo_fill) oc ''m'' ''Bearer t'' = (oc1, reply) \<and>
     map (pos_mint \<circ> snd) (fs_exits (oc_fast oc1)) = [''m'', ''n'']"
proof -
  let ?v = "\<lambda>_ _ _. demo_fill"
  define oc where "oc = demo_controller\<lparr>oc_fast := demo_loop\<lparr>fs_store :=
     empty_store\<lparr>positions := [(''m'', demo_position), (''n'', demo_position\<lparr>pos_mint := ''n''\<rparr>)]\<rparr>\<rparr>\<rparr>"
  obtain oc1 reply where k: "post_flatten ?v oc ''m'' ''Bearer t'' = (oc1, reply)"
    by (cases "post_flatten ?v oc ''m'' ''Bearer t''")
  have o: "check_auth oc ''Bearer t''" "load_position (oc_store oc) ''m'' \<noteq> None"
    "load_all_positions (oc_store oc) = [demo_position, demo_position\<lparr>pos_mint := ''n''\<rparr>]" "fs_exits (oc_fast oc) = []"
    by (simp_all add: oc_def check_auth_def demo_controller_def load_position_def load_all_positions_def demo_loop_def)
  from flatten_request_sells_whole_book [OF o(1) k] o(2-4)
  have "map (pos_mint \<circ> snd) (fs_exits (oc_fast oc1)) = [''m'', ''n'']" by (simp add: demo_position_def)
  with k show ?thesis by (intro exI [of _ oc] exI [of _ oc1] exI [of _ reply] conjI)
qed
end
