(* ===== verification/Solana_Wire.thy ===== *)
theory Solana_Wire
  imports Rounding "HOL-Library.Word"
begin

unbundle bit_operations_syntax

text \<open>
  The dependency-free transaction codec of \<open>aats/execution/solana_wire.py\<close>: base58, the compact-u16
  length encoding, the parser the signer runs on the bytes it is asked to sign, and the builder.
  A byte is an \<open>8 word\<close>; a position in the buffer is a \<open>nat\<close>.
\<close>

type_synonym byte = "8 word"

subsection \<open>Base58\<close>

definition B58_ALPHABET :: string where
  "B58_ALPHABET = ''123456789ABCDEFGHJKLMNPQRSTUVWXYZabcdefghijkmnopqrstuvwxyz''"

definition b58_index :: "char \<Rightarrow> int option" where
  "b58_index ch =
     (if ch \<in> set B58_ALPHABET
      then Some (int (length (takeWhile (\<lambda>c. c \<noteq> ch) B58_ALPHABET))) else None)"

definition int_from_bytes_big :: "byte list \<Rightarrow> int" where
  "int_from_bytes_big data = foldl (\<lambda>n b. n * 256 + uint b) 0 data"

fun to_bytes_big :: "nat \<Rightarrow> int \<Rightarrow> byte list" where
  "to_bytes_big 0 n = []"
| "to_bytes_big (Suc k) n = to_bytes_big k (n div 256) @ [word_of_int n]"

text \<open>The loop of \<open>b58encode\<close>: the characters in the order they are appended.\<close>

function b58_rems :: "int \<Rightarrow> string" where
  "b58_rems n = (if 0 < n then (B58_ALPHABET ! nat (n mod 58)) # b58_rems (n div 58) else [])"
  by pat_completeness auto
termination
proof (relation "measure nat")
  fix n :: int
  assume "0 < n"
  then have "n div 58 < n" by (intro int_div_less_self) simp_all
  with \<open>0 < n\<close> show "(n div 58, n) \<in> measure nat" by simp
qed simp

declare b58_rems.simps [simp del]

definition b58encode :: "byte list \<Rightarrow> string" where
  "b58encode data =
     (let out = rev (b58_rems (int_from_bytes_big data));
          n_pad = length data - length (dropWhile (\<lambda>b. b = 0) data)
      in replicate n_pad CHR ''1'' @ out)"

fun b58_value :: "int \<Rightarrow> string \<Rightarrow> int result" where
  "b58_value n [] = Inr n"
| "b58_value n (ch # s) =
     (case b58_index ch of None \<Rightarrow> Inl ValueError | Some idx \<Rightarrow> b58_value (n * 58 + idx) s)"

definition b58decode :: "string \<Rightarrow> byte list result" where
  "b58decode s =
     rbind (b58_value 0 s) (\<lambda>n.
     let body = (if 0 < n then to_bytes_big (nat ((ndigits 2 n + 7) div 8)) n else []);
         n_pad = length s - length (dropWhile (\<lambda>c. c = CHR ''1'') s)
     in Inr (replicate n_pad 0 @ body))"

subsection \<open>Compact-u16\<close>

fun read_u16_loop :: "nat \<Rightarrow> byte list \<Rightarrow> nat \<Rightarrow> nat \<Rightarrow> nat \<Rightarrow> (nat \<times> nat) result" where
  "read_u16_loop 0 buf v shift pos = Inl ValueError"
| "read_u16_loop (Suc k) buf v shift pos =
     (if length buf \<le> pos then Inl ValueError
      else
        let b = buf ! pos;
            v' = v OR push_bit shift (unat (b AND 0x7F)) in
        if b AND 0x80 = 0 then Inr (v', pos + 1)
        else read_u16_loop k buf v' (shift + 7) (pos + 1))"

definition read_compact_u16 :: "byte list \<Rightarrow> nat \<Rightarrow> (nat \<times> nat) result" where
  "read_compact_u16 buf offset = read_u16_loop 3 buf 0 0 offset"

function write_u16_loop :: "nat \<Rightarrow> byte list" where
  "write_u16_loop v =
     (let b = v AND 0x7F; v' = drop_bit 7 v in
      if v' \<noteq> 0 then of_nat (b OR 0x80) # write_u16_loop v' else [of_nat b])"
  by pat_completeness auto
termination
  by (relation "measure id") (auto simp: drop_bit_eq_div)

declare write_u16_loop.simps [simp del]

definition write_compact_u16 :: "int \<Rightarrow> byte list result" where
  "write_compact_u16 v = (if v < 0 then Inl ValueError else Inr (write_u16_loop (nat v)))"

subsection \<open>The parser\<close>

record parsed_ix =
  pix_program_id :: string
  pix_program_id_index :: byte
  pix_account_indices :: "byte list"
  pix_data :: "byte list"

record parsed_tx =
  account_keys :: "string list"
  num_required_signatures :: byte
  payer :: string
  recent_blockhash :: string
  instructions :: "parsed_ix list"
  is_versioned :: bool
  has_address_table_lookups :: bool

text \<open>
  \<open>_resolve_static\<close>: a negative index raises, an index past the static keys raises
  \<open>_AltRegionIndex\<close> (here \<open>Inr None\<close>, the branch the caller catches).
\<close>

definition resolve_static :: "string list \<Rightarrow> int \<Rightarrow> string option result" where
  "resolve_static keys index =
     (if index < 0 then Inl ValueError
      else if int (length keys) \<le> index then Inr None
      else Inr (Some (keys ! nat index)))"

fun parse_keys :: "nat \<Rightarrow> byte list \<Rightarrow> nat \<Rightarrow> (string list \<times> nat) result" where
  "parse_keys 0 tx pos = Inr ([], pos)"
| "parse_keys (Suc n) tx pos =
     (if length tx < pos + 32 then Inl ValueError
      else rbind (parse_keys n tx (pos + 32)) (\<lambda>(keys, pos').
             Inr (b58encode (take 32 (drop pos tx)) # keys, pos')))"

text \<open>
  One round of the instruction loop: the instruction, whether one of its indices points past the
  static keys, and the next position.
\<close>

definition parse_ix :: "string list \<Rightarrow> byte list \<Rightarrow> nat \<Rightarrow> (parsed_ix \<times> bool \<times> nat) result" where
  "parse_ix keys tx pos =
     (if length tx \<le> pos then Inl ValueError
      else
        let program_id_index = tx ! pos; pos = pos + 1 in
        rbind (resolve_static keys (uint program_id_index)) (\<lambda>resolved.
        rbind (read_compact_u16 tx pos) (\<lambda>(n_acc, pos).
        if length tx < pos + n_acc then Inl ValueError
        else
          let acc_indices = take n_acc (drop pos tx); pos = pos + n_acc in
          rbind (read_compact_u16 tx pos) (\<lambda>(n_data, pos).
          if length tx < pos + n_data then Inl ValueError
          else Inr
            (\<lparr>pix_program_id = (case resolved of None \<Rightarrow> [] | Some k \<Rightarrow> k),
              pix_program_id_index = program_id_index,
              pix_account_indices = acc_indices, pix_data = take n_data (drop pos tx)\<rparr>,
             resolved = None \<or> (\<exists>idx \<in> set acc_indices. length keys \<le> unat idx),
             pos + n_data)))))"

fun parse_ixs :: "nat \<Rightarrow> string list \<Rightarrow> byte list \<Rightarrow> nat \<Rightarrow> (parsed_ix list \<times> bool \<times> nat) result" where
  "parse_ixs 0 keys tx pos = Inr ([], False, pos)"
| "parse_ixs (Suc n) keys tx pos =
     rbind (parse_ix keys tx pos) (\<lambda>(ix, hit, pos').
     rbind (parse_ixs n keys tx pos') (\<lambda>(ixs, hits, pos'').
     Inr (ix # ixs, hit \<or> hits, pos'')))"

fun parse_alts :: "nat \<Rightarrow> byte list \<Rightarrow> nat \<Rightarrow> nat result" where
  "parse_alts 0 tx pos = Inr pos"
| "parse_alts (Suc n) tx pos =
     (if length tx < pos + 32 then Inl ValueError
      else
        rbind (read_compact_u16 tx (pos + 32)) (\<lambda>(n_w, pos).
        if length tx < pos + n_w then Inl ValueError
        else
          rbind (read_compact_u16 tx (pos + n_w)) (\<lambda>(n_r, pos).
          if length tx < pos + n_r then Inl ValueError
          else parse_alts n tx (pos + n_r))))"

text \<open>The tail of \<open>parse_transaction\<close>: everything from the message header on.\<close>

definition parse_message :: "bool \<Rightarrow> byte list \<Rightarrow> nat \<Rightarrow> parsed_tx result" where
  "parse_message versioned tx pos =
     (if length tx < pos + 3 then Inl ValueError
      else
        let n_req = tx ! pos in
        rbind (read_compact_u16 tx (pos + 3)) (\<lambda>(n_keys, pos).
        rbind (parse_keys n_keys tx pos) (\<lambda>(keys, pos).
        if keys = [] then Inl ValueError
        else if length tx < pos + 32 then Inl ValueError
        else
          let blockhash = b58encode (take 32 (drop pos tx)) in
          rbind (read_compact_u16 tx (pos + 32)) (\<lambda>(n_ix, pos).
          rbind (parse_ixs n_ix keys tx pos) (\<lambda>(ixs, alt_region_hit, pos).
          rbind (if versioned \<and> pos < length tx
                 then rbind (read_compact_u16 tx pos) (\<lambda>(n_alt, pos).
                      rbind (parse_alts n_alt tx pos) (\<lambda>_. Inr (alt_region_hit \<or> 0 < n_alt)))
                 else Inr alt_region_hit) (\<lambda>has_alt.
          Inr \<lparr>account_keys = keys, num_required_signatures = n_req, payer = keys ! 0,
               recent_blockhash = blockhash, instructions = ixs, is_versioned = versioned,
               has_address_table_lookups = has_alt\<rparr>))))))"

definition parse_transaction :: "byte list \<Rightarrow> parsed_tx result" where
  "parse_transaction tx =
     rbind (read_compact_u16 tx 0) (\<lambda>(n_sigs, pos).
     let pos = pos + n_sigs * 64 in
     if length tx < pos then Inl ValueError
     else if length tx \<le> pos then Inl ValueError
     else if tx ! pos AND 0x80 \<noteq> 0 then
       if tx ! pos AND 0x7F \<noteq> 0 then Inl ValueError else parse_message True tx (pos + 1)
     else parse_message False tx pos)"

subsection \<open>The builder\<close>

record raw_ix =
  rix_program_id :: string
  rix_accounts :: "int list"
  rix_data :: "byte list"
  rix_program_id_index_override :: "int option"

text \<open>\<open>bytearray.append\<close> and \<open>bytes(...)\<close>: a value that is not a byte raises.\<close>

definition as_byte :: "int \<Rightarrow> byte result" where
  "as_byte n = (if 0 \<le> n \<and> n \<le> 255 then Inr (word_of_int n) else Inl ValueError)"

fun as_bytes :: "int list \<Rightarrow> byte list result" where
  "as_bytes [] = Inr []"
| "as_bytes (n # ns) = rbind (as_byte n) (\<lambda>b. rbind (as_bytes ns) (\<lambda>bs. Inr (b # bs)))"

definition decode32 :: "string \<Rightarrow> byte list result" where
  "decode32 key =
     rbind (b58decode key) (\<lambda>raw. if length raw \<noteq> 32 then Inl ValueError else Inr raw)"

fun build_keys :: "string list \<Rightarrow> byte list result" where
  "build_keys [] = Inr []"
| "build_keys (key # keys) =
     rbind (decode32 key) (\<lambda>raw. rbind (build_keys keys) (\<lambda>bs. Inr (raw @ bs)))"

definition list_index :: "string list \<Rightarrow> string \<Rightarrow> int result" where
  "list_index keys x =
     (if x \<in> set keys then Inr (int (length (takeWhile (\<lambda>k. k \<noteq> x) keys))) else Inl ValueError)"

definition prog_index :: "string list \<Rightarrow> raw_ix \<Rightarrow> int result" where
  "prog_index keys ix =
     (case rix_program_id_index_override ix of
        Some i \<Rightarrow> Inr i
      | None \<Rightarrow> list_index keys (rix_program_id ix))"

definition build_ix :: "string list \<Rightarrow> raw_ix \<Rightarrow> byte list result" where
  "build_ix keys ix =
     rbind (prog_index keys ix) (\<lambda>i.
     rbind (as_byte i) (\<lambda>b.
     rbind (as_bytes (rix_accounts ix)) (\<lambda>accs.
     Inr (b # write_u16_loop (length (rix_accounts ix)) @ accs @
          write_u16_loop (length (rix_data ix)) @ rix_data ix))))"

fun build_ixs :: "string list \<Rightarrow> raw_ix list \<Rightarrow> byte list result" where
  "build_ixs keys [] = Inr []"
| "build_ixs keys (ix # ixs) =
     rbind (build_ix keys ix) (\<lambda>bs. rbind (build_ixs keys ixs) (\<lambda>cs. Inr (bs @ cs)))"

definition build_versioned_tx ::
  "string list \<Rightarrow> int \<Rightarrow> string \<Rightarrow> raw_ix list \<Rightarrow> int \<Rightarrow> int \<Rightarrow> bool \<Rightarrow> int \<Rightarrow> byte list result" where
  "build_versioned_tx keys n_req blockhash ixs n_ro_signed n_ro_unsigned versioned n_alt =
     rbind (write_compact_u16 n_req) (\<lambda>sigs.
     rbind (as_byte n_req) (\<lambda>h1.
     rbind (as_byte n_ro_signed) (\<lambda>h2.
     rbind (as_byte n_ro_unsigned) (\<lambda>h3.
     rbind (build_keys keys) (\<lambda>ks.
     rbind (decode32 blockhash) (\<lambda>bh.
     rbind (build_ixs keys ixs) (\<lambda>is.
     rbind (if versioned
            then rbind (write_compact_u16 n_alt) (\<lambda>n.
                 Inr (n @ concat (replicate (nat n_alt) (replicate 32 0 @ write_u16_loop 0 @ write_u16_loop 0))))
            else Inr []) (\<lambda>alts.
     Inr (sigs @ replicate (64 * nat n_req) 0 @ (if versioned then [0x80] else []) @
          [h1, h2, h3] @ write_u16_loop (length keys) @ ks @ bh @
          write_u16_loop (length ixs) @ is @ alts)))))))))"

subsection \<open>Base58 round trip\<close>

lemma from_bytes_snoc: "int_from_bytes_big (bs @ [b]) = int_from_bytes_big bs * 256 + uint b"
  by (simp add: int_from_bytes_big_def)

lemma from_bytes_nonneg: "0 \<le> int_from_bytes_big bs"
  by (induction bs rule: rev_induct) (simp_all add: from_bytes_snoc, simp add: int_from_bytes_big_def)

lemma uint_byte: "0 \<le> uint (b :: byte)" "uint (b :: byte) < 256"
  using uint_bounded [of b] by simp_all

lemma from_bytes_bound: "int_from_bytes_big bs < 256 ^ length bs"
proof (induction bs rule: rev_induct)
  case Nil
  then show ?case by (simp add: int_from_bytes_big_def)
next
  case (snoc b bs)
  then show ?case using uint_byte [of b] by (simp add: from_bytes_snoc)
qed

lemma to_from_bytes: "to_bytes_big (length bs) (int_from_bytes_big bs) = bs"
proof (induction bs rule: rev_induct)
  case (snoc b bs)
  have "(int_from_bytes_big bs * 256 + uint b) div 256 = int_from_bytes_big bs"
    using uint_byte [of b] by simp
  moreover have "(word_of_int (int_from_bytes_big bs * 256 + uint b) :: byte) = b"
  proof -
    have "(256 :: byte) = 0" by simp
    then have "(of_int (int_from_bytes_big bs * 256) :: byte) = 0" by (simp only: of_int_mult of_int_numeral mult_zero_right)
    then show ?thesis by (simp only: of_int_add word_of_int_uint add_0)
  qed
  ultimately show ?case using snoc by (simp add: from_bytes_snoc)
qed simp

lemma from_bytes_leading: "bs \<noteq> [] \<Longrightarrow> hd bs \<noteq> 0 \<Longrightarrow> 256 ^ (length bs - 1) \<le> int_from_bytes_big bs"
proof (induction bs rule: rev_induct)
  case (snoc b bs)
  show ?case
  proof (cases "bs = []")
    case True
    then have "b \<noteq> 0" using snoc.prems by simp
    then have "0 < uint b" using uint_byte [of b] by (metis uint_0_iff order_le_less)
    with True show ?thesis by (simp add: int_from_bytes_big_def)
  next
    case False
    then have "256 ^ (length bs - 1) \<le> int_from_bytes_big bs" using snoc by (simp add: hd_append)
    then have "256 ^ (length bs - 1) * 256 \<le> int_from_bytes_big bs * 256" by (intro mult_right_mono) simp_all
    moreover have "(256 :: int) ^ (length bs - 1) * 256 = 256 ^ length bs"
      using False by (cases "length bs") simp_all
    ultimately have "256 ^ length bs \<le> int_from_bytes_big bs * 256 + uint b"
      using uint_byte(1) [of b] by linarith
    then show ?thesis by (simp add: from_bytes_snoc)
  qed
qed simp

lemma from_bytes_zero: "int_from_bytes_big (0 # bs) = int_from_bytes_big bs"
  by (simp add: int_from_bytes_big_def)

lemma from_bytes_strip: "int_from_bytes_big (dropWhile (\<lambda>b. b = 0) bs) = int_from_bytes_big bs"
  by (induction bs) (auto simp: from_bytes_zero)

text \<open>The byte length \<open>(n.bit_length() + 7) // 8\<close> of a number between two powers of 256.\<close>

lemma byte_length:
  assumes "256 ^ k \<le> n" and "n < 256 ^ Suc k"
  shows "nat ((ndigits 2 n + 7) div 8) = Suc k"
proof -
  have pos: "0 < n" using assms(1) zero_less_power [of "256 :: int" k] by linarith
  have two: "(256 :: int) ^ j = 2 ^ (8 * j)" for j by (simp add: power_mult)
  have nn: "0 \<le> ndigits 2 n" by (rule ndigits_nonneg)
  note nd = ndigits_bpow [of 2 n, OF _ pos, simplified]
  have up: "n < 2 ^ nat (ndigits 2 n)"
    using nd nn of_int_less_iff [where 'a = rat, of n "2 ^ nat (ndigits 2 n)"] by (simp add: bpow_def)
  have "0 < ndigits 2 n" using pos by (subst ndigits.simps) (simp add: ndigits_nonneg add_nonneg_pos)
  then have lo: "2 ^ nat (ndigits 2 n - 1) \<le> n"
    using nd of_int_le_iff [where 'a = rat, of "2 ^ nat (ndigits 2 n - 1)" n] by (simp add: bpow_def)
  have "(2 :: int) ^ (8 * k) < 2 ^ nat (ndigits 2 n)" using assms(1) up unfolding two by linarith
  then have a: "8 * k < nat (ndigits 2 n)" by simp
  have "(2 :: int) ^ nat (ndigits 2 n - 1) < 2 ^ (8 * Suc k)" using assms(2) lo unfolding two by linarith
  then have b: "nat (ndigits 2 n - 1) < 8 * Suc k" by (rule power_less_imp_less_exp [rotated]) simp
  have "8 * int k < ndigits 2 n" using a by linarith
  moreover have "ndigits 2 n \<le> 8 * int k + 8" using b by (simp add: nat_less_iff)
  ultimately have "(ndigits 2 n + 7) div 8 = int k + 1" by presburger
  then show ?thesis by simp
qed

lemma alphabet_index: "i < 58 \<Longrightarrow> b58_index (B58_ALPHABET ! i) = Some (int i)"
proof -
  have "\<forall>i \<in> set [0..<58]. b58_index (B58_ALPHABET ! i) = Some (int i)" by code_simp
  then show "i < 58 \<Longrightarrow> ?thesis" by auto
qed

lemma b58_value_append: "b58_value n (s @ t) = rbind (b58_value n s) (\<lambda>m. b58_value m t)"
  by (induction n s rule: b58_value.induct) (auto split: option.split)

lemma b58_value_rems: "0 \<le> n \<Longrightarrow> b58_value 0 (rev (b58_rems n)) = Inr n"
proof (induction n rule: b58_rems.induct)
  case (1 n)
  show ?case
  proof (cases "0 < n")
    case True
    have m: "nat (n mod 58) < 58" "int (nat (n mod 58)) = n mod 58" by simp_all
    have "b58_value 0 (rev (b58_rems (n div 58))) = Inr (n div 58)"
      using 1(1) [OF True] True by (simp add: pos_imp_zdiv_nonneg_iff)
    moreover have "b58_rems n = (B58_ALPHABET ! nat (n mod 58)) # b58_rems (n div 58)"
      using True by (subst b58_rems.simps) simp
    ultimately show ?thesis
      using alphabet_index [OF m(1)] m(2) by (simp add: b58_value_append)
  next
    case False
    then have "n = 0" using 1(2) by simp
    then show ?thesis by (subst b58_rems.simps) simp
  qed
qed

lemma b58_rems_last: "0 < n \<Longrightarrow> b58_rems n \<noteq> [] \<and> last (b58_rems n) \<noteq> CHR ''1''"
proof (induction n rule: b58_rems.induct)
  case (1 n)
  have unfold: "b58_rems n = (B58_ALPHABET ! nat (n mod 58)) # b58_rems (n div 58)"
    using 1(2) by (subst b58_rems.simps) simp
  show ?case
  proof (cases "0 < n div 58")
    case True
    with 1(1) [OF 1(2)] unfold show ?thesis by simp
  next
    case False
    then have small: "n < 58" using 1(2) by (metis div_pos_pos_trivial not_less pos_imp_zdiv_pos_iff zero_less_numeral)
    have "\<forall>i \<in> set [1..<58]. B58_ALPHABET ! i \<noteq> CHR ''1''" by code_simp
    moreover have "nat n \<in> set [1..<58]" using small 1(2) by auto
    ultimately have "B58_ALPHABET ! nat n \<noteq> CHR ''1''" by blast
    moreover have "b58_rems (n div 58) = []" using False by (subst b58_rems.simps) simp
    ultimately show ?thesis using unfold small 1(2) by simp
  qed
qed

lemma b58_ones: "b58_value 0 (replicate k CHR ''1'' @ s) = b58_value 0 s"
proof -
  have "b58_index CHR ''1'' = Some 0" by code_simp
  then show ?thesis by (induction k) simp_all
qed

lemma strip_replicate:
  "(s = [] \<or> \<not> P (hd s)) \<Longrightarrow> P x \<Longrightarrow> dropWhile P (replicate k x @ s) = s"
  by (induction k) (auto simp: dropWhile_eq_self_iff)

lemma pad_split: "replicate (length bs - length (dropWhile (\<lambda>b. b = 0) bs)) 0 @ dropWhile (\<lambda>b. b = 0) bs = bs"
proof (induction bs)
  case (Cons b bs)
  have "length (dropWhile (\<lambda>b. b = 0) bs) \<le> length bs" by (rule length_dropWhile_le)
  with Cons show ?case by (simp add: Suc_diff_le)
qed simp

text \<open>
  Base58 is a faithful printing of byte strings: decoding an encoded byte string returns exactly
  that byte string, leading zero bytes included, so no two byte strings have the same text and an
  account key read from a transaction names one key.
\<close>

lemma b58_decode_encode: "b58decode (b58encode data) = Inr data"
proof -
  let ?body = "dropWhile (\<lambda>b. b = 0) data" and ?n = "int_from_bytes_big data"
  let ?pad = "length data - length ?body"
  let ?s = "rev (b58_rems ?n)"
  have head: "?s = [] \<or> hd ?s \<noteq> CHR ''1''"
    using b58_rems_last [of ?n] by (cases "0 < ?n") (auto simp: hd_rev, subst (asm) b58_rems.simps, simp)
  have val: "b58_value 0 (b58encode data) = Inr ?n"
    using b58_value_rems [OF from_bytes_nonneg] by (simp add: b58encode_def Let_def b58_ones)
  have strip: "length (b58encode data) - length (dropWhile (\<lambda>c. c = CHR ''1'') (b58encode data)) = ?pad"
    using strip_replicate [of ?s "\<lambda>c. c = CHR ''1''" "CHR ''1''" ?pad] head by (simp add: b58encode_def Let_def)
  have body: "(if 0 < ?n then to_bytes_big (nat ((ndigits 2 ?n + 7) div 8)) ?n else []) = ?body"
  proof (cases "?body = []")
    case True
    then have "?n = int_from_bytes_big []" by (metis from_bytes_strip)
    then have "?n = 0" by (simp add: int_from_bytes_big_def)
    then show ?thesis unfolding True by simp
  next
    case False
    then have hd0: "hd ?body \<noteq> 0" by (rule hd_dropWhile)
    obtain k where k: "length ?body = Suc k" using False by (cases "length ?body") auto
    have "256 ^ k \<le> ?n" "?n < 256 ^ Suc k"
      using from_bytes_leading [OF False hd0] from_bytes_bound [of ?body] k by (simp_all add: from_bytes_strip)
    note len = byte_length [OF this] and low = this(1)
    have "0 < ?n" using low zero_less_power [of "256 :: int" k] by linarith
    then show ?thesis using len to_from_bytes [of ?body] k by (simp add: from_bytes_strip)
  qed
  show ?thesis
    unfolding b58decode_def using val strip body pad_split [of data] by (simp add: Let_def)
qed

text \<open>The other direction: a base58 text is determined by the bytes it decodes to.\<close>

lemma index_alphabet: "b58_index c = Some i \<Longrightarrow> 0 \<le> i \<and> i < 58 \<and> B58_ALPHABET ! nat i = c"
proof -
  have "\<forall>c \<in> set B58_ALPHABET. (\<lambda>k. k < 58 \<and> B58_ALPHABET ! k = c) (length (takeWhile (\<lambda>d. d \<noteq> c) B58_ALPHABET))"
    by code_simp
  then show "b58_index c = Some i \<Longrightarrow> ?thesis" by (auto simp: b58_index_def split: if_splits)
qed

lemma index_one: "b58_index c = Some i \<Longrightarrow> i = 0 \<longleftrightarrow> c = CHR ''1''"
  using index_alphabet [of c i] by (auto simp: B58_ALPHABET_def b58_index_def)

lemma b58_value_canonical:
  "s = [] \<or> hd s \<noteq> CHR ''1'' \<Longrightarrow> b58_value 0 s = Inr n \<Longrightarrow>
   b58_rems n = rev s \<and> 0 \<le> n \<and> (s \<noteq> [] \<longrightarrow> 0 < n)"
proof (induction s arbitrary: n rule: rev_induct)
  case Nil
  then show ?case by (simp add: b58_rems.simps)
next
  case (snoc c s)
  obtain m i where m: "b58_value 0 s = Inr m" and i: "b58_index c = Some i" and n: "n = m * 58 + i"
    using snoc.prems(2) by (auto simp: b58_value_append rbind_eq_Inr split: option.splits)
  have h: "s = [] \<or> hd s \<noteq> CHR ''1''" using snoc.prems(1) by (cases s) auto
  have ih: "b58_rems m = rev s" "0 \<le> m" "s \<noteq> [] \<longrightarrow> 0 < m" using snoc.IH [OF h m] by simp_all
  have ib: "0 \<le> i" "i < 58" "B58_ALPHABET ! nat i = c" using index_alphabet [OF i] by simp_all
  have "0 < n"
  proof (cases "s = []")
    case True
    then have "c \<noteq> CHR ''1''" using snoc.prems(1) by simp
    then show ?thesis using index_one [OF i] ib ih n by auto
  qed (use ih ib n in auto)
  moreover have "n div 58 = m" "n mod 58 = i" using ib n by simp_all
  ultimately show ?case using ih ib by (subst b58_rems.simps) simp
qed

lemma to_bytes_length [simp]: "length (to_bytes_big k n) = k"
  by (induction k n rule: to_bytes_big.induct) simp_all

lemma from_to_bytes: "0 \<le> n \<Longrightarrow> n < 256 ^ k \<Longrightarrow> int_from_bytes_big (to_bytes_big k n) = n"
proof (induction k n rule: to_bytes_big.induct)
  case (2 k n)
  have "uint (word_of_int n :: byte) = n mod 256" by (simp add: uint_word_of_int)
  moreover have "n div 256 < 256 ^ k" using 2(3) by (simp add: int_div_less_iff mult.commute)
  ultimately show ?case using 2 by (simp add: from_bytes_snoc pos_imp_zdiv_nonneg_iff)
qed (simp add: int_from_bytes_big_def)

lemma log256: "0 < n \<Longrightarrow> \<exists>k. 256 ^ k \<le> n \<and> n < 256 ^ Suc k" for n :: int
proof -
  assume n: "0 < n"
  have "nat n < 256 ^ nat n" by (rule power_gt_expt) simp
  then have "int (nat n) < int (256 ^ nat n)" by (simp only: of_nat_less_iff)
  then have "\<exists>k. n < 256 ^ k" using n by (intro exI [of _ "nat n"]) simp
  then obtain k where k: "n < 256 ^ k" "\<forall>j < k. \<not> n < 256 ^ j"
    unfolding exists_least_iff [of "\<lambda>k. n < 256 ^ k"] by blast
  with n obtain j where "k = Suc j" by (cases k) auto
  then have "\<not> n < 256 ^ j" "n < 256 ^ Suc j" using k by simp_all
  then show ?thesis by (intro exI [of _ j]) simp
qed

lemma b58_unique: "b58decode s = Inr raw \<Longrightarrow> b58encode raw = s"
proof -
  assume dec_s: "b58decode s = Inr raw"
  let ?t = "dropWhile (\<lambda>c. c = CHR ''1'') s"
  let ?pad = "length s - length ?t"
  have split: "replicate ?pad CHR ''1'' @ ?t = s"
  proof (induction s)
    case (Cons c s)
    have "length (dropWhile (\<lambda>c. c = CHR ''1'') s) \<le> length s" by (rule length_dropWhile_le)
    with Cons show ?case by (simp add: Suc_diff_le)
  qed simp
  obtain n where val: "b58_value 0 s = Inr n" 
    and raw: "raw = replicate ?pad 0 @ (if 0 < n then to_bytes_big (nat ((ndigits 2 n + 7) div 8)) n else [])"
    using dec_s by (auto simp: b58decode_def Let_def rbind_eq_Inr)
  have "b58_value 0 ?t = Inr n" using val b58_ones [of ?pad ?t] split by simp
  moreover have "?t = [] \<or> hd ?t \<noteq> CHR ''1''" using hd_dropWhile [of "\<lambda>c. c = CHR ''1''" s] by blast
  ultimately have c: "b58_rems n = rev ?t" "0 \<le> n" using b58_value_canonical by blast+
  let ?k = "nat ((ndigits 2 n + 7) div 8)"
  have b: "int_from_bytes_big raw = n \<and> dropWhile (\<lambda>b. b = 0) raw = drop ?pad raw"
  proof (cases "0 < n")
    case True
    obtain k where k: "256 ^ k \<le> n" "n < 256 ^ Suc k" using log256 [OF True] by blast
    note len = byte_length [OF k]
    let ?b = "to_bytes_big (Suc k) n"
    have v: "int_from_bytes_big ?b = n" using k(2) True by (intro from_to_bytes) simp_all
    have "hd ?b \<noteq> 0"
    proof
      assume z: "hd ?b = 0"
      have "?b \<noteq> []" by (metis to_bytes_length length_0_conv nat.distinct(1))
      with z have e: "?b = 0 # tl ?b" by (metis list.collapse)
      then have "int_from_bytes_big (tl ?b) = int_from_bytes_big ?b" by (metis from_bytes_zero)
      then have "int_from_bytes_big (tl ?b) = n" unfolding v .
      moreover have "length (tl ?b) = k" by simp
      ultimately show False using from_bytes_bound [of "tl ?b"] k(1) by simp
    qed
    moreover have "dropWhile (\<lambda>b. b = 0) (replicate ?pad 0 @ ?b) = ?b"
      using calculation by (intro strip_replicate) simp_all
    moreover have "int_from_bytes_big (replicate ?pad 0 @ ?b) = n"
      using calculation(2) v by (metis from_bytes_strip)
    ultimately show ?thesis using raw True len by simp
  next
    case False
    then have "raw = replicate ?pad 0" using raw by simp
    moreover have "dropWhile (\<lambda>b. b = 0) (replicate ?pad (0 :: byte)) = []" by simp
    ultimately show ?thesis using False c(2) from_bytes_strip [of raw] by (simp add: int_from_bytes_big_def)
  qed
  moreover have "length raw - length (drop ?pad raw) = ?pad" using raw by simp
  ultimately show "b58encode raw = s" using c(1) split by (simp add: b58encode_def Let_def)
qed

subsection \<open>Compact-u16 round trip\<close>

lemma or_shift: "a < 2 ^ s \<Longrightarrow> a OR push_bit s b = a + b * 2 ^ s" for a b :: nat
proof -
  assume a: "a < 2 ^ s"
  have "\<not> bit a n \<or> \<not> bit (push_bit s b) n" for n
    using a by (metis bit_push_bit_iff bit_take_bit_iff linorder_not_less take_bit_nat_eq_self)
  then have "a + push_bit s b = a OR push_bit s b" by (rule disjunctive_add)
  then show ?thesis by (simp add: push_bit_eq_mult)
qed

lemma byte_bits:
  assumes "n < 256"
  shows "unat ((of_nat n :: byte) AND 0x7F) = n mod 128" and "(of_nat n :: byte) AND 0x80 = 0 \<longleftrightarrow> n < 128"
proof -
  have u: "unat (of_nat n :: byte) = n" using assms by (simp add: unat_of_nat)
  have "n AND 127 = n mod 128" using take_bit_eq_mask [of 7 n] by (simp add: take_bit_eq_mod mask_eq_exp_minus_1)
  then show "unat ((of_nat n :: byte) AND 0x7F) = n mod 128" using u by (simp add: unsigned_and_eq)
  have "(of_nat n :: byte) AND 0x80 = 0 \<longleftrightarrow> n AND 2 ^ 7 = 0"
    using u by (simp add: unat_eq_0 [symmetric] unsigned_and_eq)
  also have "\<dots> \<longleftrightarrow> even (n div 128)"
    by (simp only: and_exp_eq_0_iff_not_bit bit_iff_odd not_not) simp
  also have "\<dots> \<longleftrightarrow> n < 128"
  proof -
    have "n div 128 = 0 \<or> n div 128 = 1" using assms by linarith
    moreover have "n div 128 = 0 \<longleftrightarrow> n < 128" by (simp add: div_eq_0_iff)
    ultimately show ?thesis by (metis even_zero odd_one)
  qed
  finally show "(of_nat n :: byte) AND 0x80 = 0 \<longleftrightarrow> n < 128" .
qed

lemma low_byte:
  assumes "m < 128"
  shows "(of_nat m :: byte) AND 0x80 = 0" and "unat ((of_nat m :: byte) AND 0x7F) = m"
    and "(of_nat (m OR 0x80) :: byte) AND 0x80 \<noteq> 0" and "unat ((of_nat (m OR 0x80) :: byte) AND 0x7F) = m"
proof -
  have "m OR push_bit 7 1 = m + 1 * 2 ^ 7" by (rule or_shift) (use assms in simp)
  then have "m OR 0x80 = m + 128" by simp
  then show "(of_nat (m OR 0x80) :: byte) AND 0x80 \<noteq> 0" "unat ((of_nat (m OR 0x80) :: byte) AND 0x7F) = m"
    using assms byte_bits [of "m + 128"] by (simp_all del: of_nat_add)
qed (use assms byte_bits [of m] in simp_all)

lemma write_u16_unfold:
  "write_u16_loop v =
     (if v < 128 then [of_nat v] else of_nat (v mod 128 OR 0x80) # write_u16_loop (v div 128))"
proof -
  have "v AND 0x7F = v mod 128" using take_bit_eq_mask [of 7 v] by (simp add: take_bit_eq_mod mask_eq_exp_minus_1)
  moreover have "drop_bit 7 v = v div 128" by (simp add: drop_bit_eq_div)
  moreover have "v div 128 \<noteq> 0 \<longleftrightarrow> \<not> v < 128" by (simp add: div_eq_0_iff)
  ultimately show ?thesis by (subst write_u16_loop.simps) (auto simp: Let_def)
qed

lemma read_write_loop:
  "v < 2 ^ (7 * Suc k) \<Longrightarrow> acc < 2 ^ shift \<Longrightarrow>
   read_u16_loop (Suc k) (pre @ write_u16_loop v @ rest) acc shift (length pre) =
     Inr (acc + v * 2 ^ shift, length pre + length (write_u16_loop v))"
proof (induction k arbitrary: pre v acc shift)
  case 0
  then have "v < 128" by simp
  with 0 show ?case
    by (simp add: write_u16_unfold [of v] low_byte or_shift nth_append)
next
  case (Suc k)
  show ?case
  proof (cases "v < 128")
    case True
    with Suc.prems show ?thesis
      by (simp add: write_u16_unfold [of v] low_byte or_shift nth_append)
  next
    case False
    let ?b = "of_nat (v mod 128 OR 0x80) :: byte"
    have m: "v mod 128 < 128" by simp
    have d: "v div 128 < 2 ^ (7 * Suc k)" using Suc.prems(1) by (simp add: less_mult_imp_div_less power_add mult.commute)
    have "acc + v mod 128 * 2 ^ shift < 2 ^ shift + 127 * 2 ^ shift" 
      using Suc.prems(2) m by (intro add_less_le_mono mult_right_mono) simp_all
    then have a: "acc + v mod 128 * 2 ^ shift < 2 ^ (shift + 7)" by (simp add: power_add)
    have "acc + x * 2 ^ shift + y * 2 ^ (shift + 7) = acc + (x + y * 128) * 2 ^ shift" for x y :: nat
      by (simp add: power_add add_mult_distrib)
    from this [of "v mod 128" "v div 128"]
    have e: "acc + v mod 128 * 2 ^ shift + v div 128 * 2 ^ (shift + 7) = acc + v * 2 ^ shift"
      by (simp only: mod_div_mult_eq)
    from Suc.IH [OF d a, of "pre @ [?b]"] e False show ?thesis
      using Suc.prems(2)
      by (simp add: write_u16_unfold [of v] low_byte [OF m] or_shift nth_append)
  qed
qed

lemma read_write_u16:
  "v < 2 ^ 21 \<Longrightarrow> read_compact_u16 (pre @ write_u16_loop v @ rest) (length pre) =
     Inr (v, length pre + length (write_u16_loop v))"
  using read_write_loop [of v 2 0 0 pre rest] by (simp add: read_compact_u16_def numeral_3_eq_3)

subsection \<open>What the parser reads back from what the builder wrote\<close>

text \<open>The unread part of a buffer.\<close>

definition unread :: "byte list \<Rightarrow> nat \<Rightarrow> byte list \<Rightarrow> bool" where
  "unread tx pos bs \<longleftrightarrow> pos \<le> length tx \<and> drop pos tx = bs"

lemma unread_append: "unread tx pos (bs @ cs) \<Longrightarrow> unread tx (pos + length bs) cs"
  unfolding unread_def by (metis append_eq_conv_conj drop_drop add.commute length_drop length_append le_add_diff_inverse add_le_cancel_left le_add1)

lemma unread_Cons: "unread tx pos (b # bs) \<Longrightarrow> pos < length tx \<and> tx ! pos = b \<and> unread tx (Suc pos) bs"
  using unread_append [of tx pos "[b]" bs] unfolding unread_def
  by (metis Suc_eq_plus1 append_Cons append_Nil drop_eq_Nil list.distinct(1) list.size(3,4) not_less nth_via_drop add_0)

lemma unread_length: "unread tx pos bs \<Longrightarrow> length tx = pos + length bs"
  unfolding unread_def by auto

lemma unread_take: "unread tx pos (bs @ cs) \<Longrightarrow> take (length bs) (drop pos tx) = bs"
  unfolding unread_def by simp

lemma unread_u16:
  assumes "unread tx pos (write_u16_loop v @ rest)" and "v < 2 ^ 21"
  shows "read_compact_u16 tx pos = Inr (v, pos + length (write_u16_loop v))"
proof -
  have "tx = take pos tx @ write_u16_loop v @ rest" "length (take pos tx) = pos"
    using assms(1) unfolding unread_def by (metis append_take_drop_id, simp)
  then show ?thesis using read_write_u16 [OF assms(2), of "take pos tx" rest] by simp
qed

lemma decode32_Inr: "decode32 key = Inr raw \<Longrightarrow> length raw = 32 \<and> b58encode raw = key"
  by (auto simp: decode32_def rbind_eq_Inr b58_unique split: if_splits)

lemma parse_keys_build:
  "build_keys keys = Inr bs \<Longrightarrow> unread tx pos (bs @ rest) \<Longrightarrow>
   parse_keys (length keys) tx pos = Inr (keys, pos + length bs)"
proof (induction keys arbitrary: bs pos)
  case (Cons key keys)
  then obtain raw cs where raw: "decode32 key = Inr raw" and cs: "build_keys keys = Inr cs" and bs: "bs = raw @ cs"
    by (auto simp: rbind_eq_Inr)
  note r = decode32_Inr [OF raw]
  have u: "unread tx pos (raw @ cs @ rest)" using Cons.prems(2) bs by simp
  then have "parse_keys (length keys) tx (pos + 32) = Inr (keys, pos + 32 + length cs)"
    using Cons.IH [OF cs] unread_append [OF u] r by simp
  moreover have "take 32 (drop pos tx) = raw" using unread_take [OF u] r by simp
  ultimately show ?case using unread_length [OF u] r bs by simp
qed simp

text \<open>What a raw instruction reads back as: its program resolved against the static keys.\<close>

definition parsed_of :: "string list \<Rightarrow> raw_ix \<Rightarrow> parsed_ix" where
  "parsed_of keys ix =
     (let i = (case prog_index keys ix of Inr i \<Rightarrow> nat i | Inl _ \<Rightarrow> 0) in
      \<lparr>pix_program_id = (if i < length keys then keys ! i else []),
       pix_program_id_index = of_nat i,
       pix_account_indices = map word_of_int (rix_accounts ix), pix_data = rix_data ix\<rparr>)"

text \<open>An instruction with an index past the static keys.\<close>

definition beyond_static :: "string list \<Rightarrow> parsed_ix \<Rightarrow> bool" where
  "beyond_static keys ix \<longleftrightarrow>
     (\<exists>i \<in> set (pix_program_id_index ix # pix_account_indices ix). length keys \<le> unat i)"

lemma as_bytes_Inr: "as_bytes ns = Inr bs \<Longrightarrow> bs = map word_of_int ns"
  by (induction ns arbitrary: bs) (auto simp: rbind_eq_Inr as_byte_def split: if_splits)

lemma parse_ix_build:
  assumes b: "build_ix keys ix = Inr bs" and u: "unread tx pos (bs @ rest)"
    and small: "length (rix_accounts ix) < 2 ^ 21" "length (rix_data ix) < 2 ^ 21"
  shows "parse_ix keys tx pos = Inr (parsed_of keys ix, beyond_static keys (parsed_of keys ix), pos + length bs)"
proof -
  obtain i where i: "prog_index keys ix = Inr i" "0 \<le> i" "i \<le> 255"
    and bs: "bs = word_of_int i # write_u16_loop (length (rix_accounts ix)) @ map word_of_int (rix_accounts ix) @
          write_u16_loop (length (rix_data ix)) @ rix_data ix"
    using b by (auto simp: build_ix_def rbind_eq_Inr as_byte_def dest: as_bytes_Inr split: if_splits)
  let ?na = "write_u16_loop (length (rix_accounts ix))" and ?acc = "map word_of_int (rix_accounts ix) :: byte list"
    and ?nd = "write_u16_loop (length (rix_data ix))" and ?d = "rix_data ix"
  have "unread tx pos (word_of_int i # ?na @ ?acc @ ?nd @ ?d @ rest)" using u bs by simp
  note u1 = unread_Cons [OF this]
  then have u2: "unread tx (Suc pos) (?na @ ?acc @ ?nd @ ?d @ rest)" by simp
  note u3 = unread_append [OF u2] and r1 = unread_u16 [OF u2 small(1)]
  note u4 = unread_append [OF u3] and t1 = unread_take [OF u3] and l1 = unread_length [OF u3]
  note u5 = unread_append [OF u4] and r2 = unread_u16 [OF u4 small(2)]
  note t2 = unread_take [OF u5] and l2 = unread_length [OF u5]
  have ui: "uint (word_of_int i :: byte) = i" "unat (word_of_int i :: byte) = nat i"
    using i by (simp_all add: uint_word_of_int unat_eq_nat_uint)
  have e: "(of_nat (nat i) :: byte) = word_of_int i" using i(2) by (metis int_nat_eq of_int_of_nat_eq)
  have res: "resolve_static keys i = Inr (if nat i < length keys then Some (keys ! nat i) else None)"
    using i(2) by (auto simp: resolve_static_def)
  show ?thesis
    using u1 r1 t1 l1 r2 t2 l2 i(2)
    by (simp add: parse_ix_def Let_def ui e res parsed_of_def i(1) beyond_static_def bs not_le
        split: if_splits)
qed

lemma parse_ixs_build:
  assumes "build_ixs keys ixs = Inr bs" and "unread tx pos (bs @ rest)"
    and "\<forall>ix \<in> set ixs. length (rix_accounts ix) < 2 ^ 21 \<and> length (rix_data ix) < 2 ^ 21"
  shows "parse_ixs (length ixs) keys tx pos =
     Inr (map (parsed_of keys) ixs, \<exists>ix \<in> set ixs. beyond_static keys (parsed_of keys ix), pos + length bs)"
  using assms
proof (induction ixs arbitrary: bs pos)
  case (Cons ix ixs)
  then obtain b cs where b: "build_ix keys ix = Inr b" and cs: "build_ixs keys ixs = Inr cs" and bs: "bs = b @ cs"
    by (auto simp: rbind_eq_Inr)
  have u: "unread tx pos (b @ cs @ rest)" using Cons.prems(2) bs by simp
  show ?case
    using parse_ix_build [OF b u] Cons.IH [OF cs unread_append [OF u]] Cons.prems(3) bs by simp
qed simp

lemma parse_alts_build:
  "unread tx pos (concat (replicate n (replicate 32 0 @ write_u16_loop 0 @ write_u16_loop 0)) @ rest) \<Longrightarrow>
   \<exists>p. parse_alts n tx pos = Inr p"
proof (induction n arbitrary: pos)
  case (Suc n)
  let ?w = "write_u16_loop 0" and ?z = "replicate 32 (0 :: byte)"
  let ?r = "concat (replicate n (?z @ ?w @ ?w)) @ rest"
  have u1: "unread tx pos (?z @ ?w @ ?w @ ?r)" using Suc.prems by simp
  note u2 = unread_append [OF u1] and l1 = unread_length [OF u1]
  note u3 = unread_append [OF u2] and r2 = unread_u16 [OF u2] and l2 = unread_length [OF u2]
  note u4 = unread_append [OF u3] and r3 = unread_u16 [OF u3] and l3 = unread_length [OF u3]
  obtain p where "parse_alts n tx (pos + 32 + length ?w + length ?w) = Inr p" using Suc.IH u4 by auto
  then show ?case using r2 r3 l1 l2 l3 by (auto simp: add.assoc)
qed simp

lemma parse_message_build:
  assumes ks: "build_keys keys = Inr ks" and bh: "decode32 bh = Inr bhr" and ibs: "build_ixs keys ixs = Inr ibs"
    and alts: "alts = (if v then write_u16_loop n @ concat (replicate n (replicate 32 0 @ write_u16_loop 0 @ write_u16_loop 0)) else [])"
    and u: "unread tx pos ([h1, h2, h3] @ write_u16_loop (length keys) @ ks @ bhr @ write_u16_loop (length ixs) @ ibs @ alts)"
    and small: "keys \<noteq> []" "length keys < 2 ^ 21" "length ixs < 2 ^ 21" "n < 2 ^ 21"
      "\<forall>ix \<in> set ixs. length (rix_accounts ix) < 2 ^ 21 \<and> length (rix_data ix) < 2 ^ 21"
  shows "parse_message v tx pos =
    Inr \<lparr>account_keys = keys, num_required_signatures = h1, payer = keys ! 0, recent_blockhash = bh,
         instructions = map (parsed_of keys) ixs, is_versioned = v,
         has_address_table_lookups = (\<exists>ix \<in> set ixs. beyond_static keys (parsed_of keys ix)) \<or> v \<and> 0 < n\<rparr>"
proof -
  note l0 = unread_length [OF u]
  have u1: "unread tx (pos + 3) (write_u16_loop (length keys) @ ks @ bhr @ write_u16_loop (length ixs) @ ibs @ alts)"
    using unread_append [OF u] by (simp add: numeral_3_eq_3)
  have h: "tx ! pos = h1" using unread_Cons [of tx pos h1] u by simp
  note r1 = unread_u16 [OF u1 small(2)] and u2 = unread_append [OF u1]
  note k = parse_keys_build [OF ks u2] and u3 = unread_append [OF u2]
  note b = decode32_Inr [OF bh]
  note l3 = unread_length [OF u3] and t3 = unread_take [OF u3] and u4 = unread_append [OF u3]
  note r4 = unread_u16 [OF u4 small(3)] and u5 = unread_append [OF u4]
  note p5 = parse_ixs_build [OF ibs u5 small(5)] and u6 = unread_append [OF u5]
  let ?q = "pos + 3 + length (write_u16_loop (length keys)) + length ks + 32 + length (write_u16_loop (length ixs)) + length ibs"
  have alt: "rbind (if v \<and> ?q < length tx
                 then rbind (read_compact_u16 tx ?q) (\<lambda>(n_alt, pos).
                      rbind (parse_alts n_alt tx pos) (\<lambda>_. Inr (hit \<or> 0 < n_alt)))
                 else Inr hit) f = f (hit \<or> v \<and> 0 < n)" for hit and f :: "bool \<Rightarrow> 'a result"
  proof (cases v)
    case True
    then have a: "alts = write_u16_loop n @ concat (replicate n (replicate 32 0 @ write_u16_loop 0 @ write_u16_loop 0)) @ []"
      using alts by simp
    have u7: "unread tx ?q (write_u16_loop n @ concat (replicate n (replicate 32 0 @ write_u16_loop 0 @ write_u16_loop 0)) @ [])"
      using u6 b unfolding a by simp
    have "?q < length tx" using unread_length [OF u7] write_u16_unfold [of n] by simp
    moreover obtain p where "parse_alts n tx (?q + length (write_u16_loop n)) = Inr p"
      using parse_alts_build [OF unread_append [OF u7]] by blast
    ultimately show ?thesis using unread_u16 [OF u7 small(4)] True by simp
  qed simp
  have r1': "read_compact_u16 tx (pos + 3) = Inr (length keys, pos + 3 + length (write_u16_loop (length keys)))"
    using r1 by simp
  have k': "parse_keys (length keys) tx (pos + 3 + length (write_u16_loop (length keys))) =
      Inr (keys, pos + 3 + length (write_u16_loop (length keys)) + length ks)"
    using k by simp
  let ?b = "pos + 3 + length (write_u16_loop (length keys)) + length ks"
  have t3': "take 32 (drop ?b tx) = bhr" using t3 b by simp
  have l3': "\<not> length tx < ?b + 32" "\<not> length tx < pos + 3" using l3 l0 b by simp_all
  have r4': "read_compact_u16 tx (?b + 32) = Inr (length ixs, ?b + 32 + length (write_u16_loop (length ixs)))"
    using r4 b by simp
  have p5': "parse_ixs (length ixs) keys tx (?b + 32 + length (write_u16_loop (length ixs))) =
     Inr (map (parsed_of keys) ixs, \<exists>ix \<in> set ixs. beyond_static keys (parsed_of keys ix), ?q)"
    using p5 b by simp
  show ?thesis
    unfolding parse_message_def Let_def l3' if_False r1' rbind_Inr split_conv k' t3' r4' p5' alt
    using small(1) l3' b h by simp
qed

text \<open>
  C25. The parser the signer trusts reads back exactly what the builder wrote: the same keys in the
  same order, the same payer, block hash, programs, account indices and data, and it reports a lookup
  table exactly when one was attached or an index leaves the static keys. Lengths must fit the
  three-byte length encoding, and a legacy message must not announce more than 127 signatures
  (its first byte would read as a version marker).
\<close>

theorem wire_parse_build_roundtrip:
  assumes "build_versioned_tx keys n_req bh ixs n_ro_signed n_ro_unsigned versioned n_alt = Inr tx"
    and "keys \<noteq> []" and "versioned \<or> n_req < 128"
    and "length keys < 2 ^ 21" and "length ixs < 2 ^ 21" and "n_alt < 2 ^ 21"
    and "\<forall>ix \<in> set ixs. length (rix_accounts ix) < 2 ^ 21 \<and> length (rix_data ix) < 2 ^ 21"
  shows "parse_transaction tx =
    Inr \<lparr>account_keys = keys, num_required_signatures = word_of_int n_req, payer = hd keys,
         recent_blockhash = bh, instructions = map (parsed_of keys) ixs, is_versioned = versioned,
         has_address_table_lookups =
           (\<exists>ix \<in> set ixs. beyond_static keys (parsed_of keys ix)) \<or> versioned \<and> 0 < n_alt\<rparr>"
proof -
  let ?alts = "if versioned then write_u16_loop (nat n_alt) @
      concat (replicate (nat n_alt) (replicate 32 0 @ write_u16_loop 0 @ write_u16_loop 0)) else []"
  obtain h1 h2 h3 ks bhr ibs where nr: "0 \<le> n_req" "n_req \<le> 255" and h1: "h1 = word_of_int n_req"
    and ks: "build_keys keys = Inr ks" and bh: "decode32 bh = Inr bhr" and ibs: "build_ixs keys ixs = Inr ibs"
    and tx: "tx = write_u16_loop (nat n_req) @ replicate (64 * nat n_req) 0 @ (if versioned then [0x80] else []) @
          [h1, h2, h3] @ write_u16_loop (length keys) @ ks @ bhr @ write_u16_loop (length ixs) @ ibs @ ?alts"
    using assms(1)
    by (auto simp: build_versioned_tx_def rbind_eq_Inr as_byte_def write_compact_u16_def split: if_splits)
  define body where "body = [h1, h2, h3] @ write_u16_loop (length keys) @ ks @ bhr @ write_u16_loop (length ixs) @ ibs @ ?alts"
  let ?p = "length (write_u16_loop (nat n_req)) + nat n_req * 64"
  have u0: "unread tx 0 (write_u16_loop (nat n_req) @ replicate (64 * nat n_req) 0 @ (if versioned then [0x80] else []) @ body)"
    by (simp add: unread_def tx body_def)
  have r: "read_compact_u16 tx 0 = Inr (nat n_req, length (write_u16_loop (nat n_req)))"
    using unread_u16 [OF u0] nr by simp
  have u2: "unread tx ?p ((if versioned then [0x80] else []) @ body)"
    using unread_append [OF unread_append [OF u0]] by (simp add: mult.commute)
  have msg: "parse_message versioned tx q = Inr \<lparr>account_keys = keys, num_required_signatures = h1, payer = keys ! 0,
      recent_blockhash = bh, instructions = map (parsed_of keys) ixs, is_versioned = versioned,
      has_address_table_lookups = (\<exists>ix \<in> set ixs. beyond_static keys (parsed_of keys ix)) \<or> versioned \<and> 0 < nat n_alt\<rparr>"
    if "unread tx q body" for q
    by (rule parse_message_build [OF ks bh ibs refl that [unfolded body_def]]) (use assms in simp_all)
  have "parse_transaction tx = parse_message versioned tx (?p + (if versioned then 1 else 0))"
  proof (cases versioned)
    case True
    then have "unread tx ?p (0x80 # body)" using u2 by simp
    note x = unread_Cons [OF this]
    show ?thesis using True x r by (simp add: parse_transaction_def)
  next
    case False
    then have "unread tx ?p (h1 # tl body)" using u2 by (simp add: body_def)
    note x = unread_Cons [OF this]
    have "(of_nat (nat n_req) :: byte) = h1" using nr(1) h1 by (metis int_nat_eq of_int_of_nat_eq)
    moreover have "nat n_req < 128" using False assms(3) by simp
    ultimately have "h1 AND 0x80 = 0" using low_byte(1) by metis
    then show ?thesis using False x r by (simp add: parse_transaction_def)
  qed
  moreover have "unread tx (?p + (if versioned then 1 else 0)) body"
    using unread_append [OF u2] by (simp split: if_splits)
  ultimately show ?thesis using msg h1 assms(2) by (simp add: hd_conv_nth)
qed


text \<open>A small transaction, used as the concrete input below.\<close>

definition demo_key :: string where
  "demo_key = ''11111111111111111111111111111111''"

definition demo_ix :: raw_ix where
  "demo_ix = \<lparr>rix_program_id = demo_key, rix_accounts = [0], rix_data = [7], rix_program_id_index_override = None\<rparr>"

definition demo_tx :: "byte list result" where
  "demo_tx = build_versioned_tx [demo_key] 1 demo_key [demo_ix] 0 0 False 0"

lemma demo_decode: "decode32 demo_key = Inr (replicate 32 0)"
  by code_simp

lemma demo_built: "\<exists>tx. demo_tx = Inr tx"
  by (simp add: demo_tx_def build_versioned_tx_def write_compact_u16_def as_byte_def demo_decode build_ix_def
      prog_index_def demo_ix_def list_index_def)

theorem wire_parse_build_roundtrip_witness:
  "\<exists>tx. build_versioned_tx [demo_key] 1 demo_key [demo_ix] 0 0 False 0 = Inr tx
     \<and> parse_transaction tx =
         Inr \<lparr>account_keys = [demo_key], num_required_signatures = 1, payer = demo_key,
              recent_blockhash = demo_key,
              instructions = [\<lparr>pix_program_id = demo_key, pix_program_id_index = 0,
                               pix_account_indices = [0], pix_data = [7]\<rparr>],
              is_versioned = False, has_address_table_lookups = False\<rparr>"
proof -
  obtain tx where tx: "build_versioned_tx [demo_key] 1 demo_key [demo_ix] 0 0 False 0 = Inr tx"
    using demo_built by (auto simp: demo_tx_def)
  show ?thesis
    using wire_parse_build_roundtrip [OF tx] tx
    by (simp add: demo_ix_def parsed_of_def prog_index_def list_index_def beyond_static_def)
qed

lemma parse_ix_static:
  assumes p: "parse_ix keys tx pos = Inr (ix, hit, pos')" and "\<not> hit"
  shows "\<not> beyond_static keys ix \<and> pix_program_id ix = keys ! unat (pix_program_id_index ix)"
proof -
  obtain r where r: "resolve_static keys (uint (pix_program_id_index ix)) = Inr r"
    and pid: "pix_program_id ix = (case r of None \<Rightarrow> [] | Some k \<Rightarrow> k)"
    and hit: "hit \<longleftrightarrow> r = None \<or> (\<exists>idx \<in> set (pix_account_indices ix). length keys \<le> unat idx)"
    using p by (auto simp: parse_ix_def Let_def rbind_eq_Inr split: if_splits)
  have u: "nat (uint (pix_program_id_index ix)) = unat (pix_program_id_index ix)" "0 \<le> uint (pix_program_id_index ix)"
    by (simp_all only: unat_eq_nat_uint uint_byte)
  have lt: "uint (pix_program_id_index ix) < int (length keys) \<Longrightarrow> unat (pix_program_id_index ix) < length keys"
    using u by linarith
  have "r = Some (keys ! unat (pix_program_id_index ix)) \<and> unat (pix_program_id_index ix) < length keys"
    using r hit assms(2) u lt by (auto simp: resolve_static_def not_le split: if_splits)
  then show ?thesis using pid hit assms(2) by (auto simp: beyond_static_def)
qed

lemma parse_ixs_static:
  "parse_ixs n keys tx pos = Inr (ixs, False, pos') \<Longrightarrow> ix \<in> set ixs \<Longrightarrow>
   \<not> beyond_static keys ix \<and> pix_program_id ix = keys ! unat (pix_program_id_index ix)"
proof (induction n arbitrary: pos ixs)
  case (Suc n)
  then obtain i p js where i: "parse_ix keys tx pos = Inr (i, False, p)"
    and js: "parse_ixs n keys tx p = Inr (js, False, pos')" and "ixs = i # js"
    by (auto simp: rbind_eq_Inr)
  then show ?case using Suc.IH [OF js] parse_ix_static [OF i] Suc.prems(2) by auto
qed simp

lemma parse_keys_decode:
  "parse_keys n tx pos = Inr (keys, pos') \<Longrightarrow>
   k \<in> set keys \<Longrightarrow> \<exists>raw. b58decode k = Inr raw \<and> length raw = 32"
proof (induction n arbitrary: pos keys)
  case (Suc n)
  then obtain ks where ks: "parse_keys n tx (pos + 32) = Inr (ks, pos')" and len: "\<not> length tx < pos + 32"
    and keys: "keys = b58encode (take 32 (drop pos tx)) # ks"
    by (auto simp: rbind_eq_Inr split: if_splits)
  show ?case
  proof (cases "k \<in> set ks")
    case True
    then show ?thesis by (rule Suc.IH [OF ks])
  next
    case False
    then have "b58decode k = Inr (take 32 (drop pos tx))" using Suc.prems(2) keys by (simp add: b58_decode_encode)
    then show ?thesis using len by simp
  qed
qed simp

text \<open>
  C30. A parse that reports no lookup table can be trusted on every index: the payer is the first key,
  every key is a 32-byte key, and each instruction's program and each of its accounts is one of the
  transaction's own static keys, so there is no account the policy has not seen.
\<close>

theorem wire_no_lookup_means_static:
  assumes "parse_transaction tx = Inr p" and "\<not> has_address_table_lookups p"
  shows "account_keys p \<noteq> [] \<and> payer p = hd (account_keys p)
    \<and> (\<forall>k \<in> set (account_keys p). \<exists>raw. b58decode k = Inr raw \<and> length raw = 32)
    \<and> (\<forall>ix \<in> set (instructions p).
         pix_program_id ix = account_keys p ! unat (pix_program_id_index ix)
         \<and> (\<forall>i \<in> set (pix_program_id_index ix # pix_account_indices ix). unat i < length (account_keys p)))"
proof -
  obtain v pos n kpos n' ipos hit ipos' where keys: "parse_keys n tx kpos = Inr (account_keys p, pos)"
    and ne: "account_keys p \<noteq> []" and pay: "payer p = account_keys p ! 0"
    and ixs: "parse_ixs n' (account_keys p) tx ipos = Inr (instructions p, hit, ipos')"
    and hit: "hit \<longrightarrow> has_address_table_lookups p"
    using assms(1)
    by (auto simp: parse_transaction_def parse_message_def Let_def rbind_eq_Inr split: if_splits)
  have "hit = False" using hit assms(2) by simp
  note st = parse_ixs_static [OF ixs [unfolded this]]
  show ?thesis
    using ne pay parse_keys_decode [OF keys] st by (auto simp: hd_conv_nth beyond_static_def not_le)
qed

lemma demo_parsed: "\<exists>tx p. demo_tx = Inr tx \<and> parse_transaction tx = Inr p \<and> \<not> has_address_table_lookups p
    \<and> instructions p \<noteq> []"
proof -
  have "case demo_tx of Inl e \<Rightarrow> False | Inr tx \<Rightarrow>
      (case parse_transaction tx of Inl e \<Rightarrow> False
       | Inr p \<Rightarrow> \<not> has_address_table_lookups p \<and> instructions p \<noteq> [])"
    by code_simp
  then show ?thesis by (auto split: sum.splits)
qed

theorem wire_no_lookup_means_static_witness:
  "\<exists>p. rbind demo_tx parse_transaction = Inr p \<and> instructions p \<noteq> []
     \<and> \<not> has_address_table_lookups p \<and> payer p = hd (account_keys p)"
proof -
  obtain tx p where tx: "demo_tx = Inr tx" and p: "parse_transaction tx = Inr p"
    and h: "\<not> has_address_table_lookups p" "instructions p \<noteq> []"
    using demo_parsed by blast
  have "rbind demo_tx parse_transaction = Inr p" unfolding tx rbind_Inr by (rule p)
  then show ?thesis using wire_no_lookup_means_static [OF p h(1)] h by blast
qed
end
