(* ===== verification/Signer.thy ===== *)
theory Signer
  imports Solana_Wire Safety_Gate
begin

unbundle bit_operations_syntax

text \<open>
  The policy the isolated signer applies to the bytes it is asked to sign:
  \<open>aats/execution/signer_enforcer.py\<close> (policy, velocity ledger, pricing, approval hygiene, own-account
  derivation, policy loading), \<open>aats/execution/ed25519_field.py\<close> and the request handler of
  \<open>aats/execution/signer_process.py\<close>.

  Third-party code enters as parameters: \<open>sha256\<close> (the hash behind program-derived addresses),
  \<open>native\<close> (the optional \<open>solders\<close> address search), the Ed25519 \<open>sign\<close> operation, the base64 codec
  and the spend decoders a policy registers. Clock readings are binary64 values.
\<close>

subsection \<open>Refusals\<close>

datatype refusal =
    signer_tx_unparseable
  | signer_payer_mismatch
  | signer_alt_unresolvable_security_account
  | signer_program_not_allowlisted
  | signer_unpinned_transfer
  | signer_spend_undecodable
  | signer_per_tx_cap_exceeded
  | signer_aggregate_cap_exceeded
  | signer_velocity_exceeded
  | signer_unbounded_approval
  | signer_wallet_id_mismatch

text \<open>What leaves a policy check: a \<open>SignerRefused\<close>, or an exception nobody translated.\<close>

datatype signer_exc = SignerRefused refusal | Raised py_exc

type_synonym 'a checked = "signer_exc + 'a"

definition cbind :: "'a checked \<Rightarrow> ('a \<Rightarrow> 'b checked) \<Rightarrow> 'b checked" where
  "cbind r f = (case r of Inl e \<Rightarrow> Inl e | Inr a \<Rightarrow> f a)"

lemma cbind_simps [simp]: "cbind (Inl e) f = Inl e" "cbind (Inr a) f = f a"
  by (simp_all add: cbind_def)

lemma cbind_eq_Inr: "cbind r f = Inr b \<longleftrightarrow> (\<exists>a. r = Inr a \<and> f a = Inr b)"
  by (cases r) simp_all

lemma cbind_eq_Inl: "cbind r f = Inl e \<longleftrightarrow> r = Inl e \<or> (\<exists>a. r = Inr a \<and> f a = Inl e)"
  by (cases r) simp_all

text \<open>\<open>except ValueError: raise SignerRefused(reason)\<close>.\<close>

definition refuse_value_error :: "refusal \<Rightarrow> 'a result \<Rightarrow> 'a checked" where
  "refuse_value_error reason r =
     (case r of
        Inr a \<Rightarrow> Inr a
      | Inl e \<Rightarrow> if e = ValueError then Inl (SignerRefused reason) else Inl (Raised e))"

definition refuse_key_or_value_error :: "refusal \<Rightarrow> 'a result \<Rightarrow> 'a checked" where
  "refuse_key_or_value_error reason r =
     (case r of
        Inr a \<Rightarrow> Inr a
      | Inl e \<Rightarrow> if e = KeyError \<or> e = ValueError then Inl (SignerRefused reason) else Inl (Raised e))"

subsection \<open>Policy and velocity ledger\<close>

type_synonym spend_decoder = "byte list \<Rightarrow> int result"

definition unverified_decoder :: spend_decoder where
  "unverified_decoder ix_data = Inl ValueError"

record signer_policy =
  per_tx_cap_lamports :: int
  aggregate_cap_lamports :: int
  window_seconds :: int
  max_sign_count :: int
  allowed_program_ids :: "string set"
  venue_program_ids :: "string set"
  pinned_tip_accounts :: "string set"
  ata_program_id :: string
  spl_token_program_id :: string
  venue_spend_decoders :: "string \<rightharpoonup> spend_decoder"
  system_program_id :: string
  compute_budget_program_id :: string

record ledger =
  lg_window_seconds :: int
  lg_entries :: "(rat \<times> int) list"

definition mk_VelocityLedger :: "int \<Rightarrow> ledger result" where
  "mk_VelocityLedger window =
     (if window \<le> 0 then Inl ValueError else Inr \<lparr>lg_window_seconds = window, lg_entries = []\<rparr>)"

definition prune :: "ledger \<Rightarrow> rat \<Rightarrow> ledger" where
  "prune l now =
     (let cutoff = fsub now (flt (of_int (lg_window_seconds l)))
      in l\<lparr>lg_entries := filter (\<lambda>(t, s). cutoff < t) (lg_entries l)\<rparr>)"

definition would_exceed :: "ledger \<Rightarrow> rat \<Rightarrow> int \<Rightarrow> int \<Rightarrow> int \<Rightarrow> ledger \<times> refusal option" where
  "would_exceed l now spend aggregate_cap max_count =
     (let l' = prune l now in
      (l', if aggregate_cap < sum_list (map snd (lg_entries l')) + spend then Some signer_aggregate_cap_exceeded
           else if max_count < int (length (lg_entries l')) + 1 then Some signer_velocity_exceeded
           else None))"

definition record_spend :: "ledger \<Rightarrow> rat \<Rightarrow> int \<Rightarrow> ledger" where
  "record_spend l now spend =
     (let l' = prune l now in l'\<lparr>lg_entries := lg_entries l' @ [(now, spend)]\<rparr>)"

subsection \<open>Instruction decoding\<close>

fun int_from_bytes_little :: "byte list \<Rightarrow> int" where
  "int_from_bytes_little [] = 0"
| "int_from_bytes_little (b # bs) = uint b + 256 * int_from_bytes_little bs"

definition SYSTEM_CREATE_ACCOUNT :: int where "SYSTEM_CREATE_ACCOUNT = 0"
definition SYSTEM_TRANSFER :: int where "SYSTEM_TRANSFER = 2"
definition SYSTEM_TRANSFER_WITH_SEED :: int where "SYSTEM_TRANSFER_WITH_SEED = 11"

definition UNBOUNDED_APPROVAL_THRESHOLD :: int where "UNBOUNDED_APPROVAL_THRESHOLD = 2 ^ 63"
definition PROTOCOL_MAX_CU_LIMIT :: int where "PROTOCOL_MAX_CU_LIMIT = 1400000"
definition MICROLAMPORTS_PER_LAMPORT :: int where "MICROLAMPORTS_PER_LAMPORT = 1000000"
definition ATA_CACHE_MAX_ENTRIES :: nat where "ATA_CACHE_MAX_ENTRIES = 4096"

definition resolve_key :: "string list \<Rightarrow> byte \<Rightarrow> string result" where
  "resolve_key keys index = (if length keys \<le> unat index then Inl ValueError else Inr (keys ! unat index))"

definition decode_transfer_at :: "nat \<Rightarrow> parsed_ix \<Rightarrow> string list \<Rightarrow> (string \<times> string \<times> int) option result" where
  "decode_transfer_at recipient_slot ix keys =
     (if length (pix_data ix) < 12 \<or> length (pix_account_indices ix) < recipient_slot + 1 then Inl ValueError
      else
        let lamports = int_from_bytes_little (take 8 (drop 4 (pix_data ix))) in
        rbind (resolve_key keys (pix_account_indices ix ! 0)) (\<lambda>source.
        rbind (resolve_key keys (pix_account_indices ix ! recipient_slot)) (\<lambda>recipient.
        Inr (Some (source, recipient, lamports)))))"

definition decode_system_transfer :: "parsed_ix \<Rightarrow> string list \<Rightarrow> (string \<times> string \<times> int) option result" where
  "decode_system_transfer ix keys =
     (if length (pix_data ix) < 4 then Inr None
      else
        let discriminant = int_from_bytes_little (take 4 (pix_data ix)) in
        if discriminant = SYSTEM_TRANSFER then decode_transfer_at 1 ix keys
        else if discriminant = SYSTEM_CREATE_ACCOUNT then decode_transfer_at 1 ix keys
        else if discriminant = SYSTEM_TRANSFER_WITH_SEED then decode_transfer_at 2 ix keys
        else Inr None)"

definition check_approval_hygiene :: "parsed_ix \<Rightarrow> string list \<Rightarrow> signer_policy \<Rightarrow> unit checked" where
  "check_approval_hygiene ix keys policy =
     (if length (pix_data ix) < 1 then Inr ()
      else
        let tag = pix_data ix ! 0 in
        if tag \<noteq> 4 \<and> tag \<noteq> 13 then Inr ()
        else if length (pix_data ix) < 9 then Inl (SignerRefused signer_tx_unparseable)
        else
          let amount = int_from_bytes_little (take 8 (drop 1 (pix_data ix)));
              delegate_slot = (if tag = 4 then 1 else 2) in
          if length (pix_account_indices ix) \<le> delegate_slot then Inl (SignerRefused signer_tx_unparseable)
          else
            cbind (refuse_value_error signer_tx_unparseable
                     (resolve_key keys (pix_account_indices ix ! delegate_slot))) (\<lambda>delegate.
            if UNBOUNDED_APPROVAL_THRESHOLD \<le> amount \<and> delegate \<notin> venue_program_ids policy
            then Inl (SignerRefused signer_unbounded_approval)
            else Inr ()))"

datatype budget_ix = Budget_limit int | Budget_price int

definition decode_compute_budget_ix :: "parsed_ix \<Rightarrow> budget_ix option result" where
  "decode_compute_budget_ix ix =
     (if length (pix_data ix) < 1 then Inr None
      else
        let tag = pix_data ix ! 0 in
        if tag = 2 then
          if length (pix_data ix) < 5 then Inl ValueError
          else Inr (Some (Budget_limit (int_from_bytes_little (take 4 (drop 1 (pix_data ix))))))
        else if tag = 3 then
          if length (pix_data ix) < 9 then Inl ValueError
          else Inr (Some (Budget_price (int_from_bytes_little (take 8 (drop 1 (pix_data ix))))))
        else Inr None)"

subsection \<open>Program-derived addresses\<close>

text \<open>Python's three-argument \<open>pow\<close>, by repeated squaring.\<close>

function powmod :: "int \<Rightarrow> nat \<Rightarrow> int \<Rightarrow> int" where
  "powmod b e m =
     (if e = 0 then 1 mod m
      else let h = powmod (b * b mod m) (e div 2) m in if odd e then b * h mod m else h)"
  by pat_completeness auto
termination
  by (relation "measure (\<lambda>(b, e, m). e)") auto

declare powmod.simps [simp del]

lemma powmod_power: "powmod b e m = b ^ e mod m"
proof (induction b e m rule: powmod.induct)
  case (1 b e m)
  show ?case
  proof (cases "e = 0")
    case True
    then show ?thesis by (simp add: powmod.simps)
  next
    case False
    have h: "powmod (b * b mod m) (e div 2) m = (b * b) ^ (e div 2) mod m"
      using 1 [OF False] by (simp add: power_mod)
    have sq: "(b * b) ^ (e div 2) = b ^ (2 * (e div 2))" by (simp add: power_mult power2_eq_square)
    show ?thesis
    proof (cases "odd e")
      case True
      then have e: "Suc (2 * (e div 2)) = e" by simp
      have "b * b ^ (2 * (e div 2)) = b ^ Suc (2 * (e div 2))" by (rule power_Suc [symmetric])
      then show ?thesis using False True h sq unfolding e
        by (subst powmod.simps) (simp only: Let_def not_False_eq_True if_True if_False mod_mult_right_eq)
    next
      case even: False
      then have "2 * (e div 2) = e" by simp
      then show ?thesis using False even h sq by (subst powmod.simps) (simp only: Let_def if_False)
    qed
  qed
qed

definition FIELD_Q :: int where "FIELD_Q = 2 ^ 255 - 19"
definition FIELD_D :: int where
  "FIELD_D = (- 121665 * powmod 121666 (nat (FIELD_Q - 2)) FIELD_Q) mod FIELD_Q"
definition FIELD_I :: int where
  "FIELD_I = powmod 2 (nat ((FIELD_Q - 1) div 4)) FIELD_Q"

definition field_inv :: "int \<Rightarrow> int" where
  "field_inv x = powmod x (nat (FIELD_Q - 2)) FIELD_Q"

definition x_recover :: "int \<Rightarrow> int option" where
  "x_recover y =
     (let xx = ((y * y - 1) * field_inv ((FIELD_D * y * y + 1) mod FIELD_Q)) mod FIELD_Q;
          x0 = powmod xx (nat ((FIELD_Q + 3) div 8)) FIELD_Q;
          x1 = (if (x0 * x0 - xx) mod FIELD_Q \<noteq> 0 then (x0 * FIELD_I) mod FIELD_Q else x0)
      in if (x1 * x1 - xx) mod FIELD_Q \<noteq> 0 then None else Some x1)"

definition is_on_curve :: "byte list \<Rightarrow> bool result" where
  "is_on_curve compressed =
     (if length compressed \<noteq> 32 then Inl ValueError
      else
        let y = int_from_bytes_little compressed AND (push_bit 255 1 - 1) in
        Inr (if FIELD_Q \<le> y then False else x_recover y \<noteq> None))"

definition PDA_MARKER :: "byte list" where
  "PDA_MARKER = map (\<lambda>c. of_nat (of_char c)) ''ProgramDerivedAddress''"

definition create_program_address ::
  "(byte list \<Rightarrow> byte list) \<Rightarrow> byte list list \<Rightarrow> byte list \<Rightarrow> byte list result" where
  "create_program_address sha256 seeds program_id =
     (if \<exists>s \<in> set seeds. 32 < length s then Inl ValueError
      else
        let candidate = sha256 (concat seeds @ program_id @ PDA_MARKER) in
        rbind (is_on_curve candidate) (\<lambda>on_curve. if on_curve then Inl ValueError else Inr candidate))"

text \<open>The bump loop \<open>range(255, -1, -1)\<close>: \<open>Suc b\<close> tries bump \<open>b\<close>.\<close>

fun bump_search :: "(byte list \<Rightarrow> byte list) \<Rightarrow> nat \<Rightarrow> byte list list \<Rightarrow> byte list \<Rightarrow> (byte list \<times> nat) result" where
  "bump_search sha256 0 seeds program_id = Inl ValueError"
| "bump_search sha256 (Suc bump) seeds program_id =
     (case create_program_address sha256 (seeds @ [[of_nat bump]]) program_id of
        Inr addr \<Rightarrow> Inr (addr, bump)
      | Inl e \<Rightarrow> if e = ValueError then bump_search sha256 bump seeds program_id else Inl e)"

definition find_program_address ::
  "(byte list \<Rightarrow> byte list) \<Rightarrow> byte list list \<Rightarrow> byte list \<Rightarrow> (byte list \<times> nat) result" where
  "find_program_address sha256 seeds program_id = bump_search sha256 256 seeds program_id"

definition derive_ata ::
  "(byte list \<Rightarrow> byte list) \<Rightarrow> string \<Rightarrow> string \<Rightarrow> string \<Rightarrow> string \<Rightarrow> string result" where
  "derive_ata sha256 wallet mint ata_program spl_token_program =
     rbind (b58decode wallet) (\<lambda>wallet_b.
     rbind (b58decode spl_token_program) (\<lambda>token_b.
     rbind (b58decode mint) (\<lambda>mint_b.
     rbind (b58decode ata_program) (\<lambda>program_b.
     if \<exists>b \<in> set [wallet_b, token_b, mint_b, program_b]. length b \<noteq> 32 then Inl ValueError
     else rbind (find_program_address sha256 [wallet_b, token_b, mint_b] program_b) (\<lambda>(addr, bump).
          Inr (b58encode addr))))))"

text \<open>
  \<open>_try_derive_ata\<close>: the native search when \<open>solders\<close> is installed (\<open>native = Some f\<close>; \<open>f\<close> is
  \<open>_derive_ata_native\<close>, which never raises), else the pure search with \<open>ValueError\<close> read as None.
  The pure search raises nothing else.
\<close>

type_synonym native_derive = "(string \<Rightarrow> string \<Rightarrow> string \<Rightarrow> string \<Rightarrow> string option) option"

definition try_derive_ata ::
  "(byte list \<Rightarrow> byte list) \<Rightarrow> native_derive \<Rightarrow> string \<Rightarrow> string \<Rightarrow> string \<Rightarrow> string \<Rightarrow> string option" where
  "try_derive_ata sha256 native wallet mint ata_program spl_token_program =
     (case native of
        Some f \<Rightarrow> f wallet mint ata_program spl_token_program
      | None \<Rightarrow>
          (case derive_ata sha256 wallet mint ata_program spl_token_program of
             Inr ata \<Rightarrow> Some ata
           | Inl _ \<Rightarrow> None))"

subsection \<open>The enforcer\<close>

type_synonym ata_cache = "((string \<times> string) \<times> string option) list"

record signer_enforcer =
  en_policy :: signer_policy
  en_ledger :: ledger
  en_price_cache :: "(byte list \<times> string \<times> parsed_tx \<times> int) option"
  en_ata_cache :: ata_cache

definition mk_Enforcer :: "signer_policy \<Rightarrow> ledger \<Rightarrow> signer_enforcer" where
  "mk_Enforcer policy l =
     \<lparr>en_policy = policy, en_ledger = l, en_price_cache = None, en_ata_cache = []\<rparr>"

text \<open>
  The loop of \<open>_is_own_ata\<close> over the transaction's keys; \<open>derive\<close> is \<open>_try_derive_ata\<close> at the
  policy's program ids.
\<close>

fun own_ata_loop ::
  "(string \<Rightarrow> string \<Rightarrow> string option) \<Rightarrow> string \<Rightarrow> string \<Rightarrow> string list \<Rightarrow> ata_cache \<Rightarrow> bool \<times> ata_cache" where
  "own_ata_loop derive recipient wallet [] cache = (False, cache)"
| "own_ata_loop derive recipient wallet (mint # mints) cache =
     (let (ata, cache') =
            (case map_of cache (wallet, mint) of
               Some ata \<Rightarrow> (ata, cache)
             | None \<Rightarrow> (let ata = derive wallet mint in (ata, cache @ [((wallet, mint), ata)])))
      in if ata = Some recipient then (True, cache')
         else own_ata_loop derive recipient wallet mints cache')"

definition is_own_ata ::
  "(string \<Rightarrow> string \<Rightarrow> string option) \<Rightarrow> string \<Rightarrow> string \<Rightarrow> string list \<Rightarrow> ata_cache \<Rightarrow> bool \<times> ata_cache" where
  "is_own_ata derive recipient wallet keys cache =
     own_ata_loop derive recipient wallet keys
       (if ATA_CACHE_MAX_ENTRIES \<le> length cache then [] else cache)"

definition check_programs :: "signer_policy \<Rightarrow> parsed_ix list \<Rightarrow> unit checked" where
  "check_programs policy ixs =
     (if \<exists>ix \<in> set ixs. pix_program_id ix \<notin> allowed_program_ids policy
      then Inl (SignerRefused signer_program_not_allowlisted) else Inr ())"

text \<open>The System-program loop: the derivation cache survives a refusal.\<close>

fun system_loop ::
  "signer_policy \<Rightarrow> (string \<Rightarrow> string \<Rightarrow> string option) \<Rightarrow> string \<Rightarrow> string list \<Rightarrow> parsed_ix list \<Rightarrow>
   int \<Rightarrow> ata_cache \<Rightarrow> ata_cache \<times> int checked" where
  "system_loop policy derive wallet keys [] spend cache = (cache, Inr spend)"
| "system_loop policy derive wallet keys (ix # ixs) spend cache =
     (if pix_program_id ix \<noteq> system_program_id policy then system_loop policy derive wallet keys ixs spend cache
      else
        case refuse_value_error signer_tx_unparseable (decode_system_transfer ix keys) of
          Inl e \<Rightarrow> (cache, Inl e)
        | Inr None \<Rightarrow> system_loop policy derive wallet keys ixs spend cache
        | Inr (Some (source, recipient, lamports)) \<Rightarrow>
            if source \<noteq> wallet then system_loop policy derive wallet keys ixs spend cache
            else if recipient \<in> pinned_tip_accounts policy \<or> recipient = wallet then
              system_loop policy derive wallet keys ixs (spend + lamports) cache
            else
              let (own, cache') = is_own_ata derive recipient wallet keys cache in
              if own then system_loop policy derive wallet keys ixs (spend + lamports) cache'
              else (cache', Inl (SignerRefused signer_unpinned_transfer)))"

fun venue_loop :: "signer_policy \<Rightarrow> parsed_ix list \<Rightarrow> int \<Rightarrow> int checked" where
  "venue_loop policy [] spend = Inr spend"
| "venue_loop policy (ix # ixs) spend =
     (if pix_program_id ix \<notin> venue_program_ids policy then venue_loop policy ixs spend
      else
        case venue_spend_decoders policy (pix_program_id ix) of
          None \<Rightarrow> Inl (SignerRefused signer_spend_undecodable)
        | Some decoder \<Rightarrow>
            cbind (refuse_key_or_value_error signer_spend_undecodable (decoder (pix_data ix)))
              (\<lambda>x. venue_loop policy ixs (spend + x)))"

fun budget_loop :: "signer_policy \<Rightarrow> parsed_ix list \<Rightarrow> int option \<Rightarrow> int \<Rightarrow> (int option \<times> int) checked" where
  "budget_loop policy [] cu_limit cu_price = Inr (cu_limit, cu_price)"
| "budget_loop policy (ix # ixs) cu_limit cu_price =
     (if pix_program_id ix \<noteq> compute_budget_program_id policy then budget_loop policy ixs cu_limit cu_price
      else
        cbind (refuse_value_error signer_tx_unparseable (decode_compute_budget_ix ix)) (\<lambda>decoded.
        case decoded of
          None \<Rightarrow> budget_loop policy ixs cu_limit cu_price
        | Some (Budget_limit v) \<Rightarrow>
            budget_loop policy ixs (Some (case cu_limit of None \<Rightarrow> v | Some l \<Rightarrow> max l v)) cu_price
        | Some (Budget_price v) \<Rightarrow> budget_loop policy ixs cu_limit (max cu_price v)))"

definition priority_fee :: "int option \<Rightarrow> int \<Rightarrow> int" where
  "priority_fee cu_limit cu_price =
     (if 0 < cu_price
      then - (- ((case cu_limit of None \<Rightarrow> PROTOCOL_MAX_CU_LIMIT | Some l \<Rightarrow> l) * cu_price)
              div MICROLAMPORTS_PER_LAMPORT)
      else 0)"

text \<open>\<open>_parse_and_price\<close>.\<close>

definition parse_and_price ::
  "(string \<Rightarrow> string \<Rightarrow> string option) \<Rightarrow> signer_enforcer \<Rightarrow> byte list \<Rightarrow> string \<Rightarrow>
   signer_enforcer \<times> (parsed_tx \<times> int) checked" where
  "parse_and_price derive en tx wallet =
     (let policy = en_policy en;
          miss =
            (case refuse_value_error signer_tx_unparseable (parse_transaction tx) of
               Inl e \<Rightarrow> (en, Inl e)
             | Inr parsed \<Rightarrow>
                 if payer parsed \<noteq> wallet then (en, Inl (SignerRefused signer_payer_mismatch))
                 else if has_address_table_lookups parsed
                 then (en, Inl (SignerRefused signer_alt_unresolvable_security_account))
                 else case check_programs policy (instructions parsed) of
                   Inl e \<Rightarrow> (en, Inl e)
                 | Inr _ \<Rightarrow>
                     (let (cache, sys) = system_loop policy derive wallet (account_keys parsed)
                            (instructions parsed) 0 (en_ata_cache en);
                          en' = en\<lparr>en_ata_cache := cache\<rparr>
                      in case sys of
                           Inl e \<Rightarrow> (en', Inl e)
                         | Inr system_spend \<Rightarrow>
                             (case cbind (venue_loop policy (instructions parsed) 0) (\<lambda>venue_spend.
                                   cbind (budget_loop policy (instructions parsed) None 0) (\<lambda>(cu_limit, cu_price).
                                   let total_spend = system_spend + venue_spend + priority_fee cu_limit cu_price in
                                   if per_tx_cap_lamports policy < total_spend
                                   then Inl (SignerRefused signer_per_tx_cap_exceeded) else Inr total_spend)) of
                                Inl e \<Rightarrow> (en', Inl e)
                              | Inr total_spend \<Rightarrow>
                                  (en'\<lparr>en_price_cache := Some (tx, wallet, parsed, total_spend)\<rparr>, Inr (parsed, total_spend)))))
      in case en_price_cache en of
           Some (ctx, cwallet, cparsed, cspend) \<Rightarrow>
             if ctx = tx \<and> cwallet = wallet then (en, Inr (cparsed, cspend)) else miss
         | None \<Rightarrow> miss)"

fun approval_loop :: "signer_policy \<Rightarrow> string list \<Rightarrow> parsed_ix list \<Rightarrow> unit checked" where
  "approval_loop policy keys [] = Inr ()"
| "approval_loop policy keys (ix # ixs) =
     (if pix_program_id ix = spl_token_program_id policy
      then cbind (check_approval_hygiene ix keys policy) (\<lambda>_. approval_loop policy keys ixs)
      else approval_loop policy keys ixs)"

definition enforce ::
  "(string \<Rightarrow> string \<Rightarrow> string option) \<Rightarrow> signer_enforcer \<Rightarrow> byte list \<Rightarrow> string \<Rightarrow> rat \<Rightarrow> signer_enforcer \<times> unit checked" where
  "enforce derive en tx wallet now =
     (case parse_and_price derive en tx wallet of
        (en1, Inl e) \<Rightarrow> (en1, Inl e)
      | (en1, Inr (parsed, total_spend)) \<Rightarrow>
          (let (l, violation) = would_exceed (en_ledger en1) now total_spend
                 (aggregate_cap_lamports (en_policy en1)) (max_sign_count (en_policy en1));
               en2 = en1\<lparr>en_ledger := l\<rparr>
           in case violation of
                Some v \<Rightarrow> (en2, Inl (SignerRefused v))
              | None \<Rightarrow> (en2, approval_loop (en_policy en2) (account_keys parsed) (instructions parsed))))"

definition compute_spend_lamports ::
  "(string \<Rightarrow> string \<Rightarrow> string option) \<Rightarrow> signer_enforcer \<Rightarrow> byte list \<Rightarrow> string \<Rightarrow> signer_enforcer \<times> int checked" where
  "compute_spend_lamports derive en tx wallet =
     (case parse_and_price derive en tx wallet of
        (en1, Inl e) \<Rightarrow> (en1, Inl e)
      | (en1, Inr (parsed, total_spend)) \<Rightarrow> (en1, Inr total_spend))"

subsection \<open>Signing requests\<close>

record ed25519_signer =
  pubkey_b58 :: string
  sign_message :: "byte list \<Rightarrow> byte list result"

definition sign_transaction :: "byte list \<Rightarrow> ed25519_signer \<Rightarrow> nat \<Rightarrow> byte list result" where
  "sign_transaction tx signer signer_index =
     rbind (read_compact_u16 tx 0) (\<lambda>(n_sigs, sigs_start).
     if n_sigs \<le> signer_index then Inl ValueError
     else
       let message_start = sigs_start + n_sigs * 64 in
       if length tx < message_start then Inl ValueError
       else
         rbind (sign_message signer (drop message_start tx)) (\<lambda>signature.
         if length signature \<noteq> 64 then Inl ValueError
         else
           let slot = sigs_start + signer_index * 64 in
           Inr (take slot tx @ signature @ drop (slot + 64) tx)))"

datatype sign_response = Signed string string | Refusal refusal

text \<open>
  \<open>handle_sign_request\<close>. The enforcer and the handler share one ledger, as \<open>boot_enforcer\<close> wires them,
  so the ledger the handler records on is the one in the enforcer. The signer's answer is a
  response, or an exception that escapes the handler.
\<close>

definition handle_sign_request ::
  "(string \<Rightarrow> string \<Rightarrow> string option) \<Rightarrow> (string \<Rightarrow> byte list result) \<Rightarrow> (byte list \<Rightarrow> string) \<Rightarrow>
   ed25519_signer \<Rightarrow> string option \<Rightarrow> signer_enforcer \<Rightarrow> rat \<Rightarrow> (string \<times> json) list \<Rightarrow>
   signer_enforcer \<times> sign_response result" where
  "handle_sign_request derive b64decode b64encode signer expected_wallet en now payload =
     (if expected_wallet \<noteq> None \<and> map_of payload ''wallet_id'' \<noteq> map_option JStr expected_wallet
      then (en, Inr (Refusal signer_wallet_id_mismatch))
      else case map_of payload ''tx_b64'' of
        Some (JStr tx_b64) \<Rightarrow>
          (case b64decode tx_b64 of
             Inl e \<Rightarrow> if e = ValueError then (en, Inr (Refusal signer_tx_unparseable)) else (en, Inl e)
           | Inr tx \<Rightarrow>
               (case enforce derive en tx (pubkey_b58 signer) now of
                  (en1, Inl (SignerRefused reason)) \<Rightarrow> (en1, Inr (Refusal reason))
                | (en1, Inl (Raised e)) \<Rightarrow> (en1, Inl e)
                | (en1, Inr _) \<Rightarrow>
                    (case sign_transaction tx signer 0 of
                       Inl e \<Rightarrow> if e = ValueError then (en1, Inr (Refusal signer_tx_unparseable)) else (en1, Inl e)
                     | Inr signed_bytes \<Rightarrow>
                         (case compute_spend_lamports derive en1 tx (pubkey_b58 signer) of
                            (en2, Inl (Raised e)) \<Rightarrow> (en2, Inl e)
                          | (en2, spend) \<Rightarrow>
                              (en2\<lparr>en_ledger := record_spend (en_ledger en2) now
                                 (case spend of Inr x \<Rightarrow> x | Inl _ \<Rightarrow> per_tx_cap_lamports (en_policy en2))\<rparr>,
                               Inr (Signed (b64encode signed_bytes) (pubkey_b58 signer)))))))
      | _ \<Rightarrow> (en, Inr (Refusal signer_tx_unparseable)))"

subsection \<open>Loading the policy\<close>

text \<open>
  The two JSON documents in their declared shape: an optional key is an \<open>option\<close>; a document that
  lacks a mandatory key never reaches this point.
\<close>

record allowlist_entry =
  ae_name :: string
  ae_program_id :: string
  ae_category :: "string option"
  ae_status :: "string option"
  ae_candidate :: bool

record allowlist_doc =
  admit_only_status :: "string list"
  allowed_programs :: "allowlist_entry list"

record decoder_entry =
  de_allowlist_name :: string
  de_status :: "string option"
  de_discriminator_hex :: "string option"

record policy_doc =
  pd_decoders :: "decoder_entry list"
  pd_per_tx_cap_lamports :: int
  pd_aggregate_cap_lamports :: int
  pd_window_seconds :: int
  pd_max_sign_count :: int

definition entry_is_live :: "string list \<Rightarrow> allowlist_entry \<Rightarrow> bool" where
  "entry_is_live live_statuses e =
     (case ae_status e of
        Some st \<Rightarrow> st \<in> set live_statuses
      | None \<Rightarrow> \<not> ae_candidate e)"

text \<open>The last live entry of a given name, or the empty string the loop starts from.\<close>

definition core_program :: "allowlist_entry list \<Rightarrow> string \<Rightarrow> string" where
  "core_program live name =
     fold (\<lambda>e pid. if ae_name e = name then ae_program_id e else pid) live []"

fun load_decoders ::
  "(string \<rightharpoonup> string) \<Rightarrow> decoder_entry list \<Rightarrow> (string \<rightharpoonup> spend_decoder) \<Rightarrow> (string \<rightharpoonup> spend_decoder) result" where
  "load_decoders by_name [] decoders = Inr decoders"
| "load_decoders by_name (d # ds) decoders =
     (case by_name (de_allowlist_name d) of
        None \<Rightarrow> load_decoders by_name ds decoders
      | Some pid \<Rightarrow>
          if de_status d = Some ''unverified'' \<or> de_discriminator_hex d = Some ''VERIFY_AT_BUILD''
          then load_decoders by_name ds (decoders(pid \<mapsto> unverified_decoder))
          else Inl RuntimeError)"

definition load_signer_policy :: "allowlist_doc \<Rightarrow> policy_doc \<Rightarrow> string set \<Rightarrow> signer_policy result" where
  "load_signer_policy allowlist pol tips =
     (let live = filter (entry_is_live (admit_only_status allowlist)) (allowed_programs allowlist);
          by_name = map_of (rev (map (\<lambda>e. (ae_name e, ae_program_id e)) (allowed_programs allowlist)));
          system_program = core_program live ''system_program'';
          ata_program = core_program live ''associated_token_account_program'';
          spl_token_program = core_program live ''spl_token_program'';
          compute_budget_program = core_program live ''compute_budget_program''
      in if system_program = [] \<or> ata_program = [] \<or> spl_token_program = [] \<or> compute_budget_program = []
         then Inl ValueError
         else rbind (load_decoders by_name (pd_decoders pol) Map.empty) (\<lambda>decoders.
           if 100000000 < pd_per_tx_cap_lamports pol then Inl ValueError
           else if 500000000 < pd_aggregate_cap_lamports pol then Inl ValueError
           else Inr
             \<lparr>per_tx_cap_lamports = pd_per_tx_cap_lamports pol,
              aggregate_cap_lamports = pd_aggregate_cap_lamports pol,
              window_seconds = pd_window_seconds pol, max_sign_count = pd_max_sign_count pol,
              allowed_program_ids = ae_program_id ` set live,
              venue_program_ids = ae_program_id ` set (filter (\<lambda>e. ae_category e = Some ''venue'') live),
              pinned_tip_accounts = tips, ata_program_id = ata_program,
              spl_token_program_id = spl_token_program, venue_spend_decoders = decoders,
              system_program_id = system_program, compute_budget_program_id = compute_budget_program\<rparr>))"

subsection \<open>Reference pricing, without caches\<close>

definition pinned ::
  "signer_policy \<Rightarrow> (string \<Rightarrow> string \<Rightarrow> string option) \<Rightarrow> string \<Rightarrow> string list \<Rightarrow> string \<Rightarrow> bool" where
  "pinned policy derive wallet keys recipient \<longleftrightarrow>
     recipient \<in> pinned_tip_accounts policy \<or> recipient = wallet \<or>
     (\<exists>mint \<in> set keys. derive wallet mint = Some recipient)"

fun system_ref ::
  "signer_policy \<Rightarrow> (string \<Rightarrow> string \<Rightarrow> string option) \<Rightarrow> string \<Rightarrow> string list \<Rightarrow> parsed_ix list \<Rightarrow> int \<Rightarrow> int checked" where
  "system_ref policy derive wallet keys [] spend = Inr spend"
| "system_ref policy derive wallet keys (ix # ixs) spend =
     (if pix_program_id ix \<noteq> system_program_id policy then system_ref policy derive wallet keys ixs spend
      else cbind (refuse_value_error signer_tx_unparseable (decode_system_transfer ix keys)) (\<lambda>t.
        case t of
          None \<Rightarrow> system_ref policy derive wallet keys ixs spend
        | Some (source, recipient, lamports) \<Rightarrow>
            if source \<noteq> wallet then system_ref policy derive wallet keys ixs spend
            else if pinned policy derive wallet keys recipient
            then system_ref policy derive wallet keys ixs (spend + lamports)
            else Inl (SignerRefused signer_unpinned_transfer)))"

definition price_ref ::
  "signer_policy \<Rightarrow> (string \<Rightarrow> string \<Rightarrow> string option) \<Rightarrow> byte list \<Rightarrow> string \<Rightarrow> (parsed_tx \<times> int) checked" where
  "price_ref policy derive tx wallet =
     cbind (refuse_value_error signer_tx_unparseable (parse_transaction tx)) (\<lambda>parsed.
     if payer parsed \<noteq> wallet then Inl (SignerRefused signer_payer_mismatch)
     else if has_address_table_lookups parsed then Inl (SignerRefused signer_alt_unresolvable_security_account)
     else
       cbind (check_programs policy (instructions parsed)) (\<lambda>_.
       cbind (system_ref policy derive wallet (account_keys parsed) (instructions parsed) 0) (\<lambda>system_spend.
       cbind (venue_loop policy (instructions parsed) 0) (\<lambda>venue_spend.
       cbind (budget_loop policy (instructions parsed) None 0) (\<lambda>(cu_limit, cu_price).
       let total_spend = system_spend + venue_spend + priority_fee cu_limit cu_price in
       if per_tx_cap_lamports policy < total_spend then Inl (SignerRefused signer_per_tx_cap_exceeded)
       else Inr (parsed, total_spend))))))"

definition ata_ok :: "(string \<Rightarrow> string \<Rightarrow> string option) \<Rightarrow> ata_cache \<Rightarrow> bool" where
  "ata_ok derive cache \<longleftrightarrow> (\<forall>((w, m), a) \<in> set cache. a = derive w m)"

definition price_ok ::
  "signer_policy \<Rightarrow> (string \<Rightarrow> string \<Rightarrow> string option) \<Rightarrow> (byte list \<times> string \<times> parsed_tx \<times> int) option \<Rightarrow> bool" where
  "price_ok policy derive pc \<longleftrightarrow>
     (\<forall>tx w parsed spend. pc = Some (tx, w, parsed, spend) \<longrightarrow> price_ref policy derive tx w = Inr (parsed, spend))"

definition caches_ok :: "(string \<Rightarrow> string \<Rightarrow> string option) \<Rightarrow> signer_enforcer \<Rightarrow> bool" where
  "caches_ok derive en \<longleftrightarrow>
     ata_ok derive (en_ata_cache en) \<and> price_ok (en_policy en) derive (en_price_cache en)"

lemma own_ata_loop_ref:
  "ata_ok derive cache \<Longrightarrow>
   fst (own_ata_loop derive r w keys cache) = (\<exists>mint \<in> set keys. derive w mint = Some r)
   \<and> ata_ok derive (snd (own_ata_loop derive r w keys cache))"
proof (induction keys arbitrary: cache)
  case (Cons mint keys)
  show ?case
  proof (cases "map_of cache (w, mint)")
    case None
    have "ata_ok derive (cache @ [((w, mint), derive w mint)])" using Cons.prems by (auto simp: ata_ok_def)
    from Cons.IH [OF this] show ?thesis using None \<open>ata_ok derive (cache @ _)\<close> by (auto simp: Let_def)
  next
    case (Some a)
    then have "a = derive w mint" using Cons.prems by (auto simp: ata_ok_def dest: map_of_SomeD)
    then show ?thesis using Cons Some by simp
  qed
qed simp

lemma is_own_ata_ref:
  assumes "ata_ok derive cache" and "is_own_ata derive r w keys cache = (own, cache')"
  shows "own = (\<exists>mint \<in> set keys. derive w mint = Some r) \<and> ata_ok derive cache'"
proof -
  have "ata_ok derive (if ATA_CACHE_MAX_ENTRIES \<le> length cache then [] else cache)"
    using assms(1) by (simp add: ata_ok_def)
  from own_ata_loop_ref [OF this, of r w keys] show ?thesis using assms(2) by (simp add: is_own_ata_def)
qed

lemma system_loop_ref:
  "ata_ok derive cache \<Longrightarrow>
   snd (system_loop policy derive wallet keys ixs spend cache) = system_ref policy derive wallet keys ixs spend
   \<and> ata_ok derive (fst (system_loop policy derive wallet keys ixs spend cache))"
proof (induction ixs arbitrary: spend cache)
  case (Cons ix ixs)
  show ?case
  proof (cases "pix_program_id ix = system_program_id policy")
    case True
    show ?thesis
    proof (cases "refuse_value_error signer_tx_unparseable (decode_system_transfer ix keys)")
      case (Inr t)
      show ?thesis
      proof (cases t)
        case (Some x)
        obtain source r lamports where x: "x = (source, r, lamports)" by (cases x)
        obtain own cache' where o: "is_own_ata derive r wallet keys cache = (own, cache')" by fastforce
        note is_own_ata_ref [OF Cons.prems o]
        then show ?thesis using Cons True Inr Some x o by (auto simp: pinned_def)
      qed (use Cons True Inr in simp)
    qed (use Cons True in simp)
  qed (use Cons in simp)
qed simp

lemma parse_and_price_ref:
  assumes "caches_ok derive en" and "parse_and_price derive en tx wallet = (en', r)"
  shows "r = price_ref (en_policy en) derive tx wallet \<and> caches_ok derive en'
    \<and> en_policy en' = en_policy en \<and> en_ledger en' = en_ledger en
    \<and> (\<forall>p s. r = Inr (p, s) \<longrightarrow> en_price_cache en' = Some (tx, wallet, p, s))"
proof (cases "\<exists>p s. en_price_cache en = Some (tx, wallet, p, s)")
  case True
  then show ?thesis using assms by (auto simp: parse_and_price_def caches_ok_def price_ok_def)
next
  case False
  show ?thesis
  proof (cases "\<exists>parsed. refuse_value_error signer_tx_unparseable (parse_transaction tx) = Inr parsed
      \<and> payer parsed = wallet \<and> \<not> has_address_table_lookups parsed \<and> check_programs (en_policy en) (instructions parsed) = Inr ()")
    case True
    then obtain parsed where p: "refuse_value_error signer_tx_unparseable (parse_transaction tx) = Inr parsed"
      "payer parsed = wallet" "\<not> has_address_table_lookups parsed" "check_programs (en_policy en) (instructions parsed) = Inr ()"
      by blast
    obtain cache sys where l: "system_loop (en_policy en) derive wallet (account_keys parsed) (instructions parsed) 0 (en_ata_cache en) = (cache, sys)"
      by fastforce
    have s: "sys = system_ref (en_policy en) derive wallet (account_keys parsed) (instructions parsed) 0" "ata_ok derive cache"
      using system_loop_ref [of derive "en_ata_cache en" "en_policy en" wallet "account_keys parsed" "instructions parsed" 0]
        l assms(1) by (simp_all add: caches_ok_def)
    let ?rest = "\<lambda>sp. cbind (venue_loop (en_policy en) (instructions parsed) 0) (\<lambda>v.
       cbind (budget_loop (en_policy en) (instructions parsed) None 0) (\<lambda>(cu_limit, cu_price).
       let t = sp + v + priority_fee cu_limit cu_price in
       if per_tx_cap_lamports (en_policy en) < t then Inl (SignerRefused signer_per_tx_cap_exceeded) else Inr t))"
    have pr: "price_ref (en_policy en) derive tx wallet = cbind sys (\<lambda>sp. cbind (?rest sp) (\<lambda>t. Inr (parsed, t)))"
      using p s by (auto simp: price_ref_def cbind_def Let_def split: sum.splits)
    have pp: "parse_and_price derive en tx wallet =
      (case sys of Inl e \<Rightarrow> (en\<lparr>en_ata_cache := cache\<rparr>, Inl e)
       | Inr sp \<Rightarrow> (case ?rest sp of Inl e \<Rightarrow> (en\<lparr>en_ata_cache := cache\<rparr>, Inl e)
          | Inr t \<Rightarrow> (en\<lparr>en_ata_cache := cache, en_price_cache := Some (tx, wallet, parsed, t)\<rparr>, Inr (parsed, t))))"
      using p l False by (auto simp: parse_and_price_def Let_def split: option.splits sum.splits)
    show ?thesis
      using assms(2) pp pr s(2) assms(1)
      by (auto simp: caches_ok_def price_ok_def split: sum.splits)
  next
    case no: False
    have "en' = en \<and> r = price_ref (en_policy en) derive tx wallet \<and> (\<exists>e. r = Inl e)"
      using assms(2) False no
      by (cases "refuse_value_error signer_tx_unparseable (parse_transaction tx)")
         (auto simp: parse_and_price_def price_ref_def Let_def check_programs_def split: option.splits if_splits)
    then show ?thesis using assms(1) by auto
  qed
qed

subsection \<open>The request handler without caches\<close>

text \<open>
  The abstract signer keeps the ledger only: each request is priced from its bytes alone.
\<close>

definition enforce_spec ::
  "signer_policy \<Rightarrow> (string \<Rightarrow> string \<Rightarrow> string option) \<Rightarrow> ledger \<Rightarrow> byte list \<Rightarrow> string \<Rightarrow> rat \<Rightarrow> ledger \<times> unit checked" where
  "enforce_spec policy derive l tx wallet now =
     (case price_ref policy derive tx wallet of
        Inl e \<Rightarrow> (l, Inl e)
      | Inr (parsed, spend) \<Rightarrow>
          (prune l now,
           case snd (would_exceed l now spend (aggregate_cap_lamports policy) (max_sign_count policy)) of
             Some v \<Rightarrow> Inl (SignerRefused v)
           | None \<Rightarrow> approval_loop policy (account_keys parsed) (instructions parsed)))"

definition spend_of :: "signer_policy \<Rightarrow> (string \<Rightarrow> string \<Rightarrow> string option) \<Rightarrow> byte list \<Rightarrow> string \<Rightarrow> int" where
  "spend_of policy derive tx wallet =
     (case price_ref policy derive tx wallet of Inr (parsed, spend) \<Rightarrow> spend | Inl _ \<Rightarrow> 0)"

definition handle_spec ::
  "signer_policy \<Rightarrow> (string \<Rightarrow> string \<Rightarrow> string option) \<Rightarrow> (string \<Rightarrow> byte list result) \<Rightarrow> (byte list \<Rightarrow> string) \<Rightarrow>
   ed25519_signer \<Rightarrow> string option \<Rightarrow> ledger \<Rightarrow> rat \<Rightarrow> (string \<times> json) list \<Rightarrow> ledger \<times> sign_response result" where
  "handle_spec policy derive b64decode b64encode signer expected_wallet l now payload =
     (if expected_wallet \<noteq> None \<and> map_of payload ''wallet_id'' \<noteq> map_option JStr expected_wallet
      then (l, Inr (Refusal signer_wallet_id_mismatch))
      else case map_of payload ''tx_b64'' of
        Some (JStr tx_b64) \<Rightarrow>
          (case b64decode tx_b64 of
             Inl e \<Rightarrow> if e = ValueError then (l, Inr (Refusal signer_tx_unparseable)) else (l, Inl e)
           | Inr tx \<Rightarrow>
               (case enforce_spec policy derive l tx (pubkey_b58 signer) now of
                  (l1, Inl (SignerRefused reason)) \<Rightarrow> (l1, Inr (Refusal reason))
                | (l1, Inl (Raised e)) \<Rightarrow> (l1, Inl e)
                | (l1, Inr _) \<Rightarrow>
                    (case sign_transaction tx signer 0 of
                       Inl e \<Rightarrow> if e = ValueError then (l1, Inr (Refusal signer_tx_unparseable)) else (l1, Inl e)
                     | Inr signed_bytes \<Rightarrow>
                         (record_spend l1 now (spend_of policy derive tx (pubkey_b58 signer)),
                          Inr (Signed (b64encode signed_bytes) (pubkey_b58 signer))))))
      | _ \<Rightarrow> (l, Inr (Refusal signer_tx_unparseable)))"

lemma would_exceed_fst [simp]: "fst (would_exceed l now s a m) = prune l now"
  by (simp add: would_exceed_def Let_def)

lemma enforce_refines:
  assumes "caches_ok derive en" and "enforce derive en tx wallet now = (en', r)"
  shows "caches_ok derive en' \<and> en_policy en' = en_policy en
    \<and> enforce_spec (en_policy en) derive (en_ledger en) tx wallet now = (en_ledger en', r)
    \<and> (r = Inr () \<longrightarrow> (\<exists>p s. en_price_cache en' = Some (tx, wallet, p, s)
                             \<and> price_ref (en_policy en) derive tx wallet = Inr (p, s)))"
proof -
  obtain en1 q where q: "parse_and_price derive en tx wallet = (en1, q)" by fastforce
  note pr = parse_and_price_ref [OF assms(1) q]
  show ?thesis
  proof (cases q)
    case (Inl e)
    then show ?thesis using assms(2) q pr by (auto simp: enforce_def enforce_spec_def)
  next
    case (Inr x)
    obtain p s where x: "x = (p, s)" by (cases x)
    obtain l v where w: "would_exceed (en_ledger en) now s (aggregate_cap_lamports (en_policy en))
        (max_sign_count (en_policy en)) = (l, v)" by fastforce
    have l: "l = prune (en_ledger en) now"
      using would_exceed_fst [of "en_ledger en" now s "aggregate_cap_lamports (en_policy en)" "max_sign_count (en_policy en)"] w
      by simp
    have q': "parse_and_price derive en tx wallet = (en1, Inr (p, s))" using q Inr x by simp
    have ref: "price_ref (en_policy en) derive tx wallet = Inr (p, s)" using pr Inr x by simp
    have e1: "en_policy en1 = en_policy en" "en_ledger en1 = en_ledger en" "caches_ok derive en1"
      "en_price_cache en1 = Some (tx, wallet, p, s)" using pr Inr x by simp_all
    show ?thesis
      using assms(2) w l e1
      by (cases v) (auto simp: enforce_def enforce_spec_def caches_ok_def q' ref)
  qed
qed

lemma spend_after_enforce:
  assumes "caches_ok derive en" and "en_price_cache en = Some (tx, wallet, p, s)"
  shows "compute_spend_lamports derive en tx wallet = (en, Inr s)"
  using assms by (simp add: compute_spend_lamports_def parse_and_price_def)

lemma handle_refines:
  assumes "caches_ok derive en"
    and "handle_sign_request derive b64d b64e signer ew en now payload = (en', r)"
  shows "caches_ok derive en' \<and> en_policy en' = en_policy en
    \<and> handle_spec (en_policy en) derive b64d b64e signer ew (en_ledger en) now payload = (en_ledger en', r)"
proof (cases "ew \<noteq> None \<and> map_of payload ''wallet_id'' \<noteq> map_option JStr ew")
  case True
  then show ?thesis using assms by (auto simp: handle_sign_request_def handle_spec_def)
next
  case False
  show ?thesis
  proof (cases "\<exists>b tx. map_of payload ''tx_b64'' = Some (JStr b) \<and> b64d b = Inr tx")
    case True
    then obtain b tx where b: "map_of payload ''tx_b64'' = Some (JStr b)" "b64d b = Inr tx" by blast
    obtain en1 q where q: "enforce derive en tx (pubkey_b58 signer) now = (en1, q)" by fastforce
    note er = enforce_refines [OF assms(1) q]
    show ?thesis
    proof (cases "q = Inr ()")
      case True
      then obtain p s where c: "en_price_cache en1 = Some (tx, pubkey_b58 signer, p, s)"
        "price_ref (en_policy en) derive tx (pubkey_b58 signer) = Inr (p, s)" using er by blast
      have sp: "compute_spend_lamports derive en1 tx (pubkey_b58 signer) = (en1, Inr s)"
        using spend_after_enforce er c(1) by blast
      show ?thesis
        using assms(2) False b q True er sp c(2)
        by (auto simp: handle_sign_request_def handle_spec_def spend_of_def caches_ok_def split: sum.splits if_splits)
    next
      case no: False
      then obtain e where "q = Inl e" by (cases q) auto
      then show ?thesis
        using assms(2) False b q er
        by (cases e) (auto simp: handle_sign_request_def handle_spec_def)
    qed
  next
    case no: False
    then show ?thesis
      using assms False
      by (auto simp: handle_sign_request_def handle_spec_def split: option.splits json.splits sum.splits if_splits)
  qed
qed

subsection \<open>Runs of requests\<close>

fun handle_run ::
  "(string \<Rightarrow> string \<Rightarrow> string option) \<Rightarrow> (string \<Rightarrow> byte list result) \<Rightarrow> (byte list \<Rightarrow> string) \<Rightarrow>
   ed25519_signer \<Rightarrow> string option \<Rightarrow> signer_enforcer \<Rightarrow> (rat \<times> (string \<times> json) list) list \<Rightarrow>
   signer_enforcer \<times> sign_response result list" where
  "handle_run derive b64d b64e signer ew en [] = (en, [])"
| "handle_run derive b64d b64e signer ew en ((now, payload) # reqs) =
     (let (en1, r) = handle_sign_request derive b64d b64e signer ew en now payload;
          (en2, rs) = handle_run derive b64d b64e signer ew en1 reqs
      in (en2, r # rs))"

fun spec_run ::
  "signer_policy \<Rightarrow> (string \<Rightarrow> string \<Rightarrow> string option) \<Rightarrow> (string \<Rightarrow> byte list result) \<Rightarrow> (byte list \<Rightarrow> string) \<Rightarrow>
   ed25519_signer \<Rightarrow> string option \<Rightarrow> ledger \<Rightarrow> (rat \<times> (string \<times> json) list) list \<Rightarrow>
   ledger \<times> sign_response result list" where
  "spec_run policy derive b64d b64e signer ew l [] = (l, [])"
| "spec_run policy derive b64d b64e signer ew l ((now, payload) # reqs) =
     (let (l1, r) = handle_spec policy derive b64d b64e signer ew l now payload;
          (l2, rs) = spec_run policy derive b64d b64e signer ew l1 reqs
      in (l2, r # rs))"

lemma handle_run_refines:
  "caches_ok derive en \<Longrightarrow> handle_run derive b64d b64e signer ew en reqs = (en', rs) \<Longrightarrow>
   caches_ok derive en' \<and> en_policy en' = en_policy en
   \<and> spec_run (en_policy en) derive b64d b64e signer ew (en_ledger en) reqs = (en_ledger en', rs)"
proof (induction reqs arbitrary: en rs)
  case (Cons req reqs)
  obtain now payload where req: "req = (now, payload)" by (cases req)
  obtain en1 r where h: "handle_sign_request derive b64d b64e signer ew en now payload = (en1, r)" by fastforce
  obtain rs' where t: "handle_run derive b64d b64e signer ew en1 reqs = (en', rs')" and rs: "rs = r # rs'"
    using Cons.prems(2) req h by (auto split: prod.splits)
  note one = handle_refines [OF Cons.prems(1) h]
  then have "caches_ok derive en1" by simp
  from Cons.IH [OF this t] one show ?case by (simp add: req rs)
qed simp

lemma cold_caches_ok: "caches_ok derive (mk_Enforcer policy l)"
  by (simp add: mk_Enforcer_def caches_ok_def ata_ok_def price_ok_def)

text \<open>
  C24. The signer's caches change no decision: over any run of requests, the enforcer with its memoised
  prices and its memoised account derivations (dropped in full when they reach 4096 entries) gives,
  request by request, exactly the answers and the ledger of a signer that has no cache and prices
  every transaction from its bytes.
\<close>

theorem signer_refines_cachefree:
  "(case handle_run derive b64d b64e signer ew (mk_Enforcer policy l) reqs of (en, rs) \<Rightarrow> (en_ledger en, rs))
     = spec_run policy derive b64d b64e signer ew l reqs"
proof -
  obtain en rs where r: "handle_run derive b64d b64e signer ew (mk_Enforcer policy l) reqs = (en, rs)" by fastforce
  from handle_run_refines [OF cold_caches_ok r] r show ?thesis by (simp add: mk_Enforcer_def)
qed

subsection \<open>What a signature implies\<close>

lemma system_ref_pinned:
  assumes "system_ref policy derive wallet keys ixs spend = Inr total_spend" and "ix \<in> set ixs"
    and "pix_program_id ix = system_program_id policy"
    and "decode_system_transfer ix keys = Inr (Some (wallet, recipient, lamports))"
  shows "pinned policy derive wallet keys recipient"
  using assms(1,2)
proof (induction ixs arbitrary: spend)
  case (Cons i ixs)
  show ?case
  proof (cases "i = ix")
    case True
    then show ?thesis using Cons.prems(1) assms(3,4) by (simp add: refuse_value_error_def split: if_splits)
  next
    case False
    then have "\<exists>spend'. system_ref policy derive wallet keys ixs spend' = Inr total_spend"
      using Cons.prems(1)
      by (cases "refuse_value_error signer_tx_unparseable (decode_system_transfer i keys)")
         (fastforce split: if_splits option.splits prod.splits)+
    then show ?thesis using Cons.IH Cons.prems(2) False by auto
  qed
qed simp

lemma approval_loop_ok:
  "approval_loop policy keys ixs = Inr () \<Longrightarrow> ix \<in> set ixs \<Longrightarrow>
   pix_program_id ix = spl_token_program_id policy \<Longrightarrow> check_approval_hygiene ix keys policy = Inr ()"
  by (induction ixs) (auto simp: cbind_eq_Inr split: if_splits)

lemma enforce_spec_ok:
  assumes "enforce_spec policy derive l tx wallet now = (l', Inr ())"
  shows "\<exists>parsed spend. price_ref policy derive tx wallet = Inr (parsed, spend)
    \<and> snd (would_exceed l now spend (aggregate_cap_lamports policy) (max_sign_count policy)) = None
    \<and> approval_loop policy (account_keys parsed) (instructions parsed) = Inr () \<and> l' = prune l now"
  using assms by (auto simp: enforce_spec_def split: sum.splits option.splits)

lemma enforce_spec_ledger: "enforce_spec policy derive l tx wallet now = (l', r) \<Longrightarrow> l' = l \<or> l' = prune l now"
  by (auto simp: enforce_spec_def split: sum.splits)

lemma handle_spec_signed:
  assumes "handle_spec policy derive b64d b64e signer ew l now payload = (l', Inr (Signed x y))"
  shows "\<exists>b tx parsed spend out. map_of payload ''tx_b64'' = Some (JStr b) \<and> b64d b = Inr tx
    \<and> price_ref policy derive tx (pubkey_b58 signer) = Inr (parsed, spend)
    \<and> snd (would_exceed l now spend (aggregate_cap_lamports policy) (max_sign_count policy)) = None
    \<and> approval_loop policy (account_keys parsed) (instructions parsed) = Inr ()
    \<and> sign_transaction tx signer 0 = Inr out \<and> x = b64e out \<and> y = pubkey_b58 signer
    \<and> l' = record_spend (prune l now) now spend"
proof -
  obtain b where b: "map_of payload ''tx_b64'' = Some (JStr b)"
    using assms by (auto simp: handle_spec_def split: if_splits option.splits json.splits)
  obtain tx where tx: "b64d b = Inr tx"
    using assms b by (auto simp: handle_spec_def split: if_splits sum.splits)
  obtain l1 r where r: "enforce_spec policy derive l tx (pubkey_b58 signer) now = (l1, r)" by fastforce
  have ok: "r = Inr ()"
    using assms b tx r by (cases r) (auto simp: handle_spec_def split: if_splits signer_exc.splits)
  obtain parsed spend where p: "price_ref policy derive tx (pubkey_b58 signer) = Inr (parsed, spend)"
    "snd (would_exceed l now spend (aggregate_cap_lamports policy) (max_sign_count policy)) = None"
    "approval_loop policy (account_keys parsed) (instructions parsed) = Inr ()" "l1 = prune l now"
    using enforce_spec_ok [OF r [unfolded ok]] by blast
  have "spend_of policy derive tx (pubkey_b58 signer) = spend" using p(1) by (simp add: spend_of_def)
  then have "\<exists>out. sign_transaction tx signer 0 = Inr out \<and> x = b64e out \<and> y = pubkey_b58 signer
      \<and> l' = record_spend l1 now spend"
    using assms b tx r ok by (auto simp: handle_spec_def split: if_splits sum.splits)
  then show ?thesis using b tx p by blast
qed

lemma handle_spec_unsigned:
  assumes "handle_spec policy derive b64d b64e signer ew l now payload = (l', r)" and "\<forall>x y. r \<noteq> Inr (Signed x y)"
  shows "l' = l \<or> l' = prune l now"
proof (cases "\<exists>b tx. map_of payload ''tx_b64'' = Some (JStr b) \<and> b64d b = Inr tx")
  case True
  then obtain b tx where b: "map_of payload ''tx_b64'' = Some (JStr b)" "b64d b = Inr tx" by blast
  obtain l1 q where q: "enforce_spec policy derive l tx (pubkey_b58 signer) now = (l1, q)" by fastforce
  have "l' = l \<or> l' = l1"
    using assms b q by (cases q) (auto simp: handle_spec_def split: if_splits sum.splits signer_exc.splits)
  then show ?thesis using enforce_spec_ledger [OF q] by blast
next
  case False
  then show ?thesis
    using assms(1) by (auto simp: handle_spec_def split: if_splits option.splits json.splits sum.splits)
qed

lemma price_ref_ok:
  assumes "price_ref policy derive tx wallet = Inr (parsed, spend)"
  shows "parse_transaction tx = Inr parsed \<and> payer parsed = wallet \<and> \<not> has_address_table_lookups parsed
    \<and> (\<forall>ix \<in> set (instructions parsed). pix_program_id ix \<in> allowed_program_ids policy)
    \<and> (\<exists>n. system_ref policy derive wallet (account_keys parsed) (instructions parsed) 0 = Inr n)
    \<and> spend \<le> per_tx_cap_lamports policy"
  using assms
  by (auto simp: price_ref_def cbind_eq_Inr refuse_value_error_def check_programs_def Let_def split: if_splits sum.splits)

text \<open>An SPL approval of at least half the token range to a delegate that is no venue program.\<close>

definition unbounded_approval :: "signer_policy \<Rightarrow> string list \<Rightarrow> parsed_ix \<Rightarrow> bool" where
  "unbounded_approval policy keys ix \<longleftrightarrow>
     (\<exists>slot delegate. pix_data ix \<noteq> []
        \<and> (pix_data ix ! 0 = 4 \<and> slot = 1 \<or> pix_data ix ! 0 = 13 \<and> slot = 2)
        \<and> slot < length (pix_account_indices ix)
        \<and> resolve_key keys (pix_account_indices ix ! slot) = Inr delegate
        \<and> delegate \<notin> venue_program_ids policy
        \<and> 2 ^ 63 \<le> int_from_bytes_little (take 8 (drop 1 (pix_data ix))))"

lemma approval_bounded: "check_approval_hygiene ix keys policy = Inr () \<Longrightarrow> \<not> unbounded_approval policy keys ix"
  by (auto simp: check_approval_hygiene_def unbounded_approval_def UNBOUNDED_APPROVAL_THRESHOLD_def Let_def
      refuse_value_error_def Suc_le_eq split: if_splits)

lemma handle_run_step:
  assumes "handle_run derive b64d b64e signer ew (mk_Enforcer policy l) reqs = (en, rs)"
    and "handle_sign_request derive b64d b64e signer ew en now payload = (en', r)"
  shows "spec_run policy derive b64d b64e signer ew l reqs = (en_ledger en, rs)
    \<and> handle_spec policy derive b64d b64e signer ew (en_ledger en) now payload = (en_ledger en', r)"
  using handle_run_refines [OF cold_caches_ok assms(1)] handle_refines [OF _ assms(2)]
  by (auto simp: mk_Enforcer_def)

text \<open>
  C6. Whatever requests came before, a signature is only ever put on a transaction that keeps the
  policy: its fee payer is the signer's own wallet, it uses no lookup table, it calls only allowed
  programs, every System transfer out of the wallet goes to a tip account, to the wallet or to one of
  its own token accounts, the priced spend is within the per-transaction cap, and no token approval
  is unbounded. The caller's own description of the request plays no part in the decision.
\<close>

theorem signer_signs_only_within_policy:
  assumes "handle_run derive b64d b64e signer ew (mk_Enforcer policy l) reqs = (en, rs)"
    and "handle_sign_request derive b64d b64e signer ew en now payload = (en', Inr (Signed out pk))"
  shows "\<exists>b tx p. map_of payload ''tx_b64'' = Some (JStr b) \<and> b64d b = Inr tx \<and> parse_transaction tx = Inr p
    \<and> pk = pubkey_b58 signer \<and> payer p = pk \<and> \<not> has_address_table_lookups p
    \<and> spend_of policy derive tx pk \<le> per_tx_cap_lamports policy
    \<and> (\<forall>ix \<in> set (instructions p). pix_program_id ix \<in> allowed_program_ids policy
         \<and> (pix_program_id ix = spl_token_program_id policy \<longrightarrow> \<not> unbounded_approval policy (account_keys p) ix)
         \<and> (\<forall>recipient lamports. pix_program_id ix = system_program_id policy \<longrightarrow>
              decode_system_transfer ix (account_keys p) = Inr (Some (pk, recipient, lamports)) \<longrightarrow>
              pinned policy derive pk (account_keys p) recipient))"
proof -
  have "handle_spec policy derive b64d b64e signer ew (en_ledger en) now payload = (en_ledger en', Inr (Signed out pk))"
    using handle_run_step [OF assms] by blast
  from handle_spec_signed [OF this] obtain b tx p spend where
    b: "map_of payload ''tx_b64'' = Some (JStr b)" "b64d b = Inr tx" "pk = pubkey_b58 signer"
    and pr: "price_ref policy derive tx (pubkey_b58 signer) = Inr (p, spend)"
    and ap: "approval_loop policy (account_keys p) (instructions p) = Inr ()" by blast
  note ok = price_ref_ok [OF pr]
  then obtain n where n: "system_ref policy derive (pubkey_b58 signer) (account_keys p) (instructions p) 0 = Inr n" by blast
  have "spend_of policy derive tx pk = spend" using pr b(3) by (simp add: spend_of_def)
  moreover have "\<not> unbounded_approval policy (account_keys p) ix"
    if "ix \<in> set (instructions p)" "pix_program_id ix = spl_token_program_id policy" for ix
    using approval_loop_ok [OF ap that] by (rule approval_bounded)
  moreover have "pinned policy derive pk (account_keys p) r"
    if "ix \<in> set (instructions p)" "pix_program_id ix = system_program_id policy"
      "decode_system_transfer ix (account_keys p) = Inr (Some (pk, r, lam))" for ix r lam
    using system_ref_pinned [OF n that(1,2)] that(3) b(3) by blast
  ultimately show ?thesis using b ok by blast
qed

subsection \<open>The rolling window\<close>

definition request_spend ::
  "signer_policy \<Rightarrow> (string \<Rightarrow> string \<Rightarrow> string option) \<Rightarrow> (string \<Rightarrow> byte list result) \<Rightarrow> string \<Rightarrow>
   (string \<times> json) list \<Rightarrow> int" where
  "request_spend policy derive b64d wallet payload =
     (case map_of payload ''tx_b64'' of
        Some (JStr b) \<Rightarrow> (case b64d b of Inr tx \<Rightarrow> spend_of policy derive tx wallet | Inl _ \<Rightarrow> 0)
      | _ \<Rightarrow> 0)"

text \<open>The signatures a run issued: when, and for how much.\<close>

fun signed_events ::
  "((string \<times> json) list \<Rightarrow> int) \<Rightarrow> (rat \<times> (string \<times> json) list) list \<Rightarrow> sign_response result list \<Rightarrow> (rat \<times> int) list" where
  "signed_events spend ((now, payload) # reqs) (Inr (Signed x y) # rs) =
     (now, spend payload) # signed_events spend reqs rs"
| "signed_events spend (_ # reqs) (_ # rs) = signed_events spend reqs rs"
| "signed_events spend _ _ = []"

definition window_of :: "int \<Rightarrow> rat \<Rightarrow> (rat \<times> int) list \<Rightarrow> (rat \<times> int) list" where
  "window_of window now es = filter (\<lambda>(t, s). fsub now (flt (of_int window)) < t) es"

lemma window_of_prune [simp]: "lg_entries (prune l now) = window_of (lg_window_seconds l) now (lg_entries l)"
  by (simp add: prune_def window_of_def Let_def)

lemma window_of_prune_window [simp]: "lg_window_seconds (prune l now) = lg_window_seconds l"
  by (simp add: prune_def Let_def)

lemma window_of_earlier: "t \<le> now \<Longrightarrow> window_of w now (window_of w t es) = window_of w now es"
proof -
  assume "t \<le> now"
  then have "fsub t (flt (of_int w)) \<le> fsub now (flt (of_int w))" by (simp add: fsub_def flt.rnd_mono)
  then show ?thesis by (auto simp: window_of_def intro!: filter_cong)
qed

lemma window_of_append: "window_of w now (es @ fs) = window_of w now es @ window_of w now fs"
  by (simp add: window_of_def)

lemma spec_run_window:
  "spec_run policy derive b64d b64e signer ew l reqs = (l', rs) \<Longrightarrow> \<forall>(t, _) \<in> set reqs. t \<le> now \<Longrightarrow>
   lg_window_seconds l' = lg_window_seconds l \<and>
   window_of (lg_window_seconds l) now (lg_entries l') =
     window_of (lg_window_seconds l) now
       (lg_entries l @ signed_events (request_spend policy derive b64d (pubkey_b58 signer)) reqs rs)"
proof (induction reqs arbitrary: l rs)
  case (Cons req reqs)
  obtain t payload where req: "req = (t, payload)" by (cases req)
  obtain l1 r where h: "handle_spec policy derive b64d b64e signer ew l t payload = (l1, r)" by fastforce
  obtain rs' where run: "spec_run policy derive b64d b64e signer ew l1 reqs = (l', rs')" and rs: "rs = r # rs'"
    using Cons.prems(1) req h by (auto split: prod.splits)
  let ?f = "request_spend policy derive b64d (pubkey_b58 signer)"
  note IH = Cons.IH [OF run]
  have t: "t \<le> now" using Cons.prems(2) req by simp
  have "lg_window_seconds l1 = lg_window_seconds l \<and>
    window_of (lg_window_seconds l) now (lg_entries l1 @ signed_events ?f reqs rs') =
    window_of (lg_window_seconds l) now (lg_entries l @ signed_events ?f (req # reqs) rs)"
  proof (cases "\<exists>x y. r = Inr (Signed x y)")
    case True
    then obtain x y where r: "r = Inr (Signed x y)" by blast
    from handle_spec_signed [OF h [unfolded r]] obtain b tx p spend where
      b: "map_of payload ''tx_b64'' = Some (JStr b)" "b64d b = Inr tx"
      and pr: "price_ref policy derive tx (pubkey_b58 signer) = Inr (p, spend)"
      and l1: "l1 = record_spend (prune l t) t spend" by blast
    have "?f payload = spend" using b pr by (simp add: request_spend_def spend_of_def)
    then show ?thesis
      using l1 r t by (simp add: record_spend_def Let_def window_of_append window_of_earlier rs req)
  next
    case False
    then have "l1 = l \<or> l1 = prune l t" using handle_spec_unsigned [OF h] by blast
    moreover have "signed_events ?f (req # reqs) rs = signed_events ?f reqs rs'"
      using False rs req by (cases r rule: sum.exhaust; cases "projr r") auto
    ultimately show ?thesis using t by (auto simp: window_of_append window_of_earlier)
  qed
  then show ?case using IH Cons.prems(2) by (simp add: window_of_append)
qed simp

text \<open>
  C7. The rolling caps hold over any sequence of requests whose clock does not run backwards: when a
  signature is issued, the spend of all signatures issued within the window, this one included, is
  within the aggregate cap and their number within the allowed count, even though the ledger forgets
  every entry that leaves the window.
\<close>

theorem signer_rolling_window_bounded:
  assumes "mk_VelocityLedger (window_seconds policy) = Inr l"
    and "handle_run derive b64d b64e signer ew (mk_Enforcer policy l) reqs = (en, rs)"
    and "\<forall>(t, _) \<in> set reqs. t \<le> now"
    and "handle_sign_request derive b64d b64e signer ew en now payload = (en', Inr (Signed out pk))"
  shows "let spend = request_spend policy derive b64d (pubkey_b58 signer);
             earlier = window_of (window_seconds policy) now (signed_events spend reqs rs)
         in sum_list (map snd earlier) + spend payload \<le> aggregate_cap_lamports policy
            \<and> int (length earlier) + 1 \<le> max_sign_count policy"
proof -
  let ?f = "request_spend policy derive b64d (pubkey_b58 signer)"
  note st = handle_run_step [OF assms(2,4)]
  have l: "lg_window_seconds l = window_seconds policy" "lg_entries l = []"
    using assms(1) by (auto simp: mk_VelocityLedger_def split: if_splits)
  have w: "lg_window_seconds (en_ledger en) = window_seconds policy"
    "window_of (window_seconds policy) now (lg_entries (en_ledger en)) =
     window_of (window_seconds policy) now (signed_events ?f reqs rs)"
    using spec_run_window [OF conjunct1 [OF st] assms(3)] l by simp_all
  from handle_spec_signed [OF conjunct2 [OF st]] obtain b tx p spend where
    b: "map_of payload ''tx_b64'' = Some (JStr b)" "b64d b = Inr tx"
    and pr: "price_ref policy derive tx (pubkey_b58 signer) = Inr (p, spend)"
    and ex: "snd (would_exceed (en_ledger en) now spend (aggregate_cap_lamports policy) (max_sign_count policy)) = None"
    by blast
  have "?f payload = spend" using b pr by (simp add: request_spend_def spend_of_def)
  then show ?thesis using ex w by (simp add: would_exceed_def Let_def split: if_splits)
qed

subsection \<open>The policy as loaded\<close>

lemma load_decoders_unverified:
  "load_decoders by_name ds acc = Inr decoders \<Longrightarrow> ran acc \<subseteq> {unverified_decoder} \<Longrightarrow>
   ran decoders \<subseteq> {unverified_decoder}"
proof (induction ds arbitrary: acc)
  case (Cons d ds)
  show ?case
  proof (cases "by_name (de_allowlist_name d)")
    case (Some pid)
    have "ran (acc(pid \<mapsto> unverified_decoder)) \<subseteq> {unverified_decoder}"
      using Cons.prems(2) by (auto simp: ran_def split: if_splits)
    moreover have "load_decoders by_name ds (acc(pid \<mapsto> unverified_decoder)) = Inr decoders"
      using Some Cons.prems(1) by (simp split: if_splits)
    ultimately show ?thesis by (intro Cons.IH)
  qed (use Cons in simp)
qed simp

lemma venue_loop_decodes:
  "venue_loop policy ixs spend = Inr n \<Longrightarrow> ix \<in> set ixs \<Longrightarrow> pix_program_id ix \<in> venue_program_ids policy \<Longrightarrow>
   \<exists>dcd x. venue_spend_decoders policy (pix_program_id ix) = Some dcd \<and> dcd (pix_data ix) = Inr x"
proof (induction ixs arbitrary: spend)
  case (Cons i ixs)
  show ?case
  proof (cases "pix_program_id i \<in> venue_program_ids policy")
    case True
    then obtain dcd x where "venue_spend_decoders policy (pix_program_id i) = Some dcd" "dcd (pix_data i) = Inr x"
      "venue_loop policy ixs (spend + x) = Inr n"
      using Cons.prems(1)
      by (auto simp: cbind_eq_Inr refuse_key_or_value_error_def split: option.splits sum.splits if_splits)
    then show ?thesis using Cons.IH Cons.prems(2,3) by auto
  qed (use Cons in auto)
qed simp

lemma price_ref_venue:
  "price_ref policy derive tx wallet = Inr (parsed, spend) \<Longrightarrow> \<exists>n. venue_loop policy (instructions parsed) 0 = Inr n"
  by (auto simp: price_ref_def cbind_eq_Inr Let_def split: if_splits)


text \<open>
  A System instruction other than Transfer, CreateAccount and TransferWithSeed is neither pinned nor
  priced, although CreateAccountWithSeed (discriminant 3) funds the new account from the wallet:
  wherever it stands in the transaction, with whatever amount and recipient, the recipient check and
  the priced spend are those of the transaction without it.
\<close>

theorem create_account_with_seed_unpriced:
  assumes "pix_program_id ix = system_program_id policy"
    and "4 \<le> length (pix_data ix)" and "int_from_bytes_little (take 4 (pix_data ix)) = 3"
  shows "system_loop policy derive wallet keys (pre @ ix # post) spend cache =
    system_loop policy derive wallet keys (pre @ post) spend cache"
proof -
  have "decode_system_transfer ix keys = Inr None"
    using assms(2,3)
    by (simp add: decode_system_transfer_def Let_def SYSTEM_TRANSFER_def SYSTEM_CREATE_ACCOUNT_def
        SYSTEM_TRANSFER_WITH_SEED_def)
  then have "system_loop policy derive wallet keys (ix # post) spend' cache' =
      system_loop policy derive wallet keys post spend' cache'" for spend' cache'
    using assms(1) by (simp add: refuse_value_error_def)
  then show ?thesis
    by (induction pre arbitrary: spend cache) (auto split: sum.split option.split prod.split)
qed

subsection \<open>A concrete signer\<close>

definition demo_wallet :: string where
  "demo_wallet = ''11111111111111111111111111111112''"

text \<open>A System transfer of 5 lamports from the wallet to itself.\<close>

definition demo_transfer :: "byte list result" where
  "demo_transfer =
     build_versioned_tx [demo_wallet, demo_key] 1 demo_key
       [\<lparr>rix_program_id = demo_key, rix_accounts = [0, 0], rix_data = [2, 0, 0, 0, 5, 0, 0, 0, 0, 0, 0, 0],
         rix_program_id_index_override = None\<rparr>] 0 0 False 0"

definition demo_allowlist :: allowlist_doc where
  "demo_allowlist =
     \<lparr>admit_only_status = [''live''],
      allowed_programs = map (\<lambda>(n, p, c). \<lparr>ae_name = n, ae_program_id = p, ae_category = c, ae_status = Some ''live'', ae_candidate = False\<rparr>)
        [(''system_program'', demo_key, None), (''associated_token_account_program'', ''A'', None),
         (''spl_token_program'', ''T'', None), (''compute_budget_program'', ''B'', None),
         (''pump_fun'', ''P'', Some ''venue'')]\<rparr>"

definition demo_policy_doc :: policy_doc where
  "demo_policy_doc =
     \<lparr>pd_decoders = [\<lparr>de_allowlist_name = ''pump_fun'', de_status = Some ''unverified'', de_discriminator_hex = None\<rparr>],
      pd_per_tx_cap_lamports = 100, pd_aggregate_cap_lamports = 1000, pd_window_seconds = 3600, pd_max_sign_count = 10\<rparr>"

definition demo_policy :: signer_policy where
  "demo_policy =
     \<lparr>per_tx_cap_lamports = 100, aggregate_cap_lamports = 1000, window_seconds = 3600, max_sign_count = 10,
      allowed_program_ids = {demo_key, ''A'', ''T'', ''B'', ''P''}, venue_program_ids = {''P''}, pinned_tip_accounts = {},
      ata_program_id = ''A'', spl_token_program_id = ''T'', venue_spend_decoders = [''P'' \<mapsto> unverified_decoder],
      system_program_id = demo_key, compute_budget_program_id = ''B''\<rparr>"

definition demo_signer :: ed25519_signer where
  "demo_signer = \<lparr>pubkey_b58 = demo_wallet, sign_message = (\<lambda>m. Inr (replicate 64 1))\<rparr>"

definition demo_handle :: "signer_enforcer \<Rightarrow> rat \<Rightarrow> signer_enforcer \<times> sign_response result" where
  "demo_handle en now = handle_sign_request (\<lambda>_ _. None) (\<lambda>_. demo_transfer) (\<lambda>_. ''signed'') demo_signer None en now
     [(''tx_b64'', JStr ''demo'')]"

abbreviation demo_run :: "signer_enforcer \<times> sign_response result list" where
  "demo_run \<equiv> handle_run (\<lambda>_ _. None) (\<lambda>_. demo_transfer) (\<lambda>_. ''signed'') demo_signer None
     (mk_Enforcer demo_policy \<lparr>lg_window_seconds = 3600, lg_entries = []\<rparr>) [(0, [(''tx_b64'', JStr ''demo'')])]"

lemma demo_loads: "load_signer_policy demo_allowlist demo_policy_doc {} = Inr demo_policy"
  by (simp add: load_signer_policy_def demo_allowlist_def demo_policy_doc_def demo_policy_def entry_is_live_def
      core_program_def Let_def demo_key_def)

lemma demo_signs_first: "snd demo_run = [Inr (Signed ''signed'' demo_wallet)]"
  by code_simp

lemma demo_signs_next: "snd (demo_handle (fst demo_run) 1) = Inr (Signed ''signed'' demo_wallet)"
  by code_simp

lemma demo_run_step:
  obtains en en' where
    "demo_run = (en, [Inr (Signed ''signed'' demo_wallet)])"
    and "handle_sign_request (\<lambda>_ _. None) (\<lambda>_. demo_transfer) (\<lambda>_. ''signed'') demo_signer None en 1
      [(''tx_b64'', JStr ''demo'')] = (en', Inr (Signed ''signed'' demo_wallet))"
  using demo_signs_first demo_signs_next unfolding demo_handle_def by (metis prod.collapse)

theorem signer_signs_only_within_policy_witness:
  "\<exists>tx p. demo_transfer = Inr tx \<and> parse_transaction tx = Inr p \<and> payer p = demo_wallet
     \<and> spend_of demo_policy (\<lambda>_ _. None) tx demo_wallet \<le> 100"
proof -
  obtain en en' where run: "demo_run = (en, [Inr (Signed ''signed'' demo_wallet)])"
    and step: "handle_sign_request (\<lambda>_ _. None) (\<lambda>_. demo_transfer) (\<lambda>_. ''signed'') demo_signer None en 1
      [(''tx_b64'', JStr ''demo'')] = (en', Inr (Signed ''signed'' demo_wallet))"
    by (rule demo_run_step)
  have "per_tx_cap_lamports demo_policy = 100" by (simp add: demo_policy_def)
  then show ?thesis using signer_signs_only_within_policy [OF run step] by auto
qed

theorem signer_rolling_window_bounded_witness:
  "let spend = request_spend demo_policy (\<lambda>_ _. None) (\<lambda>_. demo_transfer) demo_wallet;
       earlier = window_of 3600 1 [(0, spend [(''tx_b64'', JStr ''demo'')])]
   in sum_list (map snd earlier) + spend [(''tx_b64'', JStr ''demo'')] \<le> 1000 \<and> int (length earlier) + 1 \<le> 10"
proof -
  obtain en en' where run: "demo_run = (en, [Inr (Signed ''signed'' demo_wallet)])"
    and step: "handle_sign_request (\<lambda>_ _. None) (\<lambda>_. demo_transfer) (\<lambda>_. ''signed'') demo_signer None en 1
      [(''tx_b64'', JStr ''demo'')] = (en', Inr (Signed ''signed'' demo_wallet))"
    by (rule demo_run_step)
  have l: "mk_VelocityLedger (window_seconds demo_policy) = Inr \<lparr>lg_window_seconds = 3600, lg_entries = []\<rparr>"
    by (simp add: mk_VelocityLedger_def demo_policy_def)
  have v: "window_seconds demo_policy = 3600" "aggregate_cap_lamports demo_policy = 1000" "max_sign_count demo_policy = 10"
    "pubkey_b58 demo_signer = demo_wallet" by (simp_all add: demo_policy_def demo_signer_def)
  show ?thesis using signer_rolling_window_bounded [OF l run _ step] unfolding v by (simp add: Let_def)
qed


theorem create_account_with_seed_unpriced_witness:
  "system_loop demo_policy (\<lambda>_ _. None) demo_wallet [demo_wallet, ''Thief'', demo_key]
     [\<lparr>pix_program_id = demo_key, pix_program_id_index = 2, pix_account_indices = [0, 1],
       pix_data = [3, 0, 0, 0, 255, 255, 255, 255, 255, 255, 255, 127]\<rparr>] 0 [] = ([], Inr 0)"
proof -
  let ?ix = "\<lparr>pix_program_id = demo_key, pix_program_id_index = 2, pix_account_indices = [0, 1],
       pix_data = [3, 0, 0, 0, 255, 255, 255, 255, 255, 255, 255, 127]\<rparr>"
  have "int_from_bytes_little (take 4 (pix_data ?ix)) = 3" by code_simp
  then show ?thesis
    using create_account_with_seed_unpriced [of ?ix demo_policy "\<lambda>_ _. None" demo_wallet "[demo_wallet, ''Thief'', demo_key]" "[]" "[]" 0 "[]"]
    by (simp add: demo_policy_def)
qed

subsection \<open>The signature covers the message that was checked\<close>

definition agree :: "byte list \<Rightarrow> byte list \<Rightarrow> nat \<Rightarrow> bool" where
  "agree tx tx' pos \<longleftrightarrow> length tx = length tx' \<and> drop pos tx = drop pos tx'"

lemma agree_later: "agree tx tx' pos \<Longrightarrow> pos \<le> q \<Longrightarrow> agree tx tx' q"
  unfolding agree_def by (metis drop_drop le_add_diff_inverse2)

lemma agree_nth: "agree tx tx' pos \<Longrightarrow> pos < length tx \<Longrightarrow> tx ! pos = tx' ! pos"
  unfolding agree_def by (metis hd_drop_conv_nth)

lemma read_loop_agree: "agree tx tx' pos \<Longrightarrow> read_u16_loop k tx v sh pos = read_u16_loop k tx' v sh pos"
proof (induction k arbitrary: v sh pos)
  case (Suc k)
  have "length tx = length tx'" using Suc.prems by (simp add: agree_def)
  with Suc.IH [OF agree_later [OF Suc.prems, of "pos + 1"]] agree_nth [OF Suc.prems] show ?case
    by (auto simp: Let_def)
qed simp

lemma read_loop_forward: "read_u16_loop k tx v sh pos = Inr (n, q) \<Longrightarrow> pos < q \<and> q \<le> length tx"
  by (induction k arbitrary: v sh pos) (fastforce simp: Let_def split: if_splits)+

lemma read_agree: "agree tx tx' pos \<Longrightarrow> read_compact_u16 tx pos = read_compact_u16 tx' pos"
  unfolding read_compact_u16_def by (rule read_loop_agree)

lemma read_forward: "read_compact_u16 tx pos = Inr (n, q) \<Longrightarrow> pos < q \<and> q \<le> length tx"
  unfolding read_compact_u16_def by (rule read_loop_forward)

lemma parse_keys_agree: "agree tx tx' pos \<Longrightarrow> parse_keys n tx pos = parse_keys n tx' pos"
proof (induction n arbitrary: pos)
  case (Suc n)
  have "length tx = length tx'" "drop pos tx = drop pos tx'" using Suc.prems by (simp_all add: agree_def)
  then show ?case using Suc.IH [OF agree_later [OF Suc.prems, of "pos + 32"]] by simp
qed simp

lemma parse_keys_forward: "parse_keys n tx pos = Inr (ks, q) \<Longrightarrow> pos \<le> q"
  by (induction n arbitrary: pos ks) (fastforce simp: rbind_eq_Inr split: if_splits)+

lemma agree_parts: "agree tx tx' pos \<Longrightarrow> length tx = length tx' \<and> drop pos tx = drop pos tx'"
  by (simp add: agree_def)

lemma read_cases:
  assumes "agree tx tx' pos"
  obtains (fail) e where "read_compact_u16 tx pos = Inl e" "read_compact_u16 tx' pos = Inl e"
  | (ok) n q where "read_compact_u16 tx pos = Inr (n, q)" "read_compact_u16 tx' pos = Inr (n, q)" "agree tx tx' q" "pos < q"
proof (cases "read_compact_u16 tx pos")
  case (Inl e)
  then show thesis using read_agree [OF assms] fail by simp
next
  case (Inr x)
  obtain n q where x: "x = (n, q)" by (cases x)
  then show thesis using Inr read_agree [OF assms] read_forward [of tx pos n q] agree_later [OF assms, of q] ok by simp
qed

lemma parse_ix_agree: "agree tx tx' pos \<Longrightarrow> parse_ix keys tx pos = parse_ix keys tx' pos"
proof (cases "pos < length tx")
  case True
  assume a: "agree tx tx' pos"
  have len: "length tx = length tx'" using a by (simp add: agree_def)
  from agree_later [OF a, of "pos + 1"] have "agree tx tx' (pos + 1)" by simp
  then show ?thesis
  proof (cases rule: read_cases)
    case (fail e)
    then show ?thesis using len agree_nth [OF a True] by (simp add: parse_ix_def Let_def)
  next
    case (ok n q)
    then have d: "drop q tx = drop q tx'" by (simp add: agree_def)
    from agree_later [OF ok(3), of "q + n"] have "agree tx tx' (q + n)" by simp
    then show ?thesis
    proof (cases rule: read_cases)
      case (fail e)
      then show ?thesis using len agree_nth [OF a True] ok(1,2) d by (simp add: parse_ix_def Let_def cong: if_cong)
    next
      case ok2: (ok m r)
      then have "drop r tx = drop r tx'" by (simp add: agree_def)
      then show ?thesis using len agree_nth [OF a True] ok(1,2) ok2(1,2) d by (simp add: parse_ix_def Let_def cong: if_cong)
    qed
  qed
qed (simp add: parse_ix_def agree_def)

lemma parse_ix_forward: "parse_ix keys tx pos = Inr (ix, hit, q) \<Longrightarrow> pos \<le> q"
  by (fastforce simp: parse_ix_def Let_def rbind_eq_Inr dest!: read_forward split: if_splits)

lemma parse_ixs_agree: "agree tx tx' pos \<Longrightarrow> parse_ixs n keys tx pos = parse_ixs n keys tx' pos"
proof (induction n arbitrary: pos)
  case (Suc n)
  show ?case
  proof (cases "parse_ix keys tx pos")
    case (Inr x)
    obtain ix hit q where x: "x = (ix, hit, q)" by (cases x)
    then have "pos \<le> q" using Inr parse_ix_forward by blast
    from Suc.IH [OF agree_later [OF Suc.prems this]] show ?thesis
      using Inr x parse_ix_agree [OF Suc.prems, of keys] by simp
  qed (use parse_ix_agree [OF Suc.prems, of keys] in simp)
qed simp

lemma parse_ixs_forward: "parse_ixs n keys tx pos = Inr (ixs, hit, q) \<Longrightarrow> pos \<le> q"
  by (induction n arbitrary: pos ixs hit) (fastforce simp: rbind_eq_Inr dest: parse_ix_forward)+

lemma parse_alts_agree: "agree tx tx' pos \<Longrightarrow> parse_alts n tx pos = parse_alts n tx' pos"
proof (induction n arbitrary: pos)
  case (Suc n)
  have len: "length tx = length tx'" using Suc.prems by (simp add: agree_def)
  from agree_later [OF Suc.prems, of "pos + 32"] have "agree tx tx' (pos + 32)" by simp
  then show ?case
  proof (cases rule: read_cases)
    case (ok m q)
    from agree_later [OF ok(3), of "q + m"] have "agree tx tx' (q + m)" by simp
    then show ?thesis
    proof (cases rule: read_cases)
      case ok2: (ok k r)
      then show ?thesis using len ok(1,2) Suc.IH [OF agree_later [OF ok2(3), of "r + k"]] by simp
    qed (use len ok in simp)
  qed (use len in simp)
qed simp

lemma parse_message_agree: "agree tx tx' pos \<Longrightarrow> parse_message v tx pos = parse_message v tx' pos"
proof (cases "length tx < pos + 3")
  case False
  assume a: "agree tx tx' pos"
  have len: "length tx = length tx'" using a by (simp add: agree_def)
  have hd: "tx ! pos = tx' ! pos" using agree_nth [OF a] False by simp
  from agree_later [OF a, of "pos + 3"] have "agree tx tx' (pos + 3)" by simp
  then show ?thesis
  proof (cases rule: read_cases)
    case k: (ok n q)
    show ?thesis
    proof (cases "parse_keys n tx q")
      case (Inr x)
      obtain keys r where x: "x = (keys, r)" by (cases x)
      have k': "parse_keys n tx' q = Inr (keys, r)" using parse_keys_agree [OF k(3), of n] Inr x by simp
      have ar: "agree tx tx' r" using parse_keys_forward [of n tx q keys r] Inr x agree_later [OF k(3)] by simp
      then have d: "drop r tx = drop r tx'" by (simp add: agree_def)
      from agree_later [OF ar, of "r + 32"] have "agree tx tx' (r + 32)" by simp
      then show ?thesis
      proof (cases rule: read_cases)
        case i: (ok m s)
        show ?thesis
        proof (cases "parse_ixs m keys tx s")
          case y: (Inr y)
          obtain ixs hit t where y': "y = (ixs, hit, t)" by (cases y)
          have i': "parse_ixs m keys tx' s = Inr (ixs, hit, t)" using parse_ixs_agree [OF i(3), of m keys] y y' by simp
          have at: "agree tx tx' t" using parse_ixs_forward [of m keys tx s ixs hit t] y y' agree_later [OF i(3)] by simp
          then show ?thesis
          proof (cases rule: read_cases)
            case (ok u w)
            then show ?thesis
              using False len hd k(1,2) Inr x k' d i(1,2) y y' i' parse_alts_agree [OF ok(3), of u]
              by (simp add: parse_message_def Let_def)
          qed (use False len hd k(1,2) Inr x k' d i(1,2) y y' i' in \<open>simp add: parse_message_def Let_def\<close>)
        qed (use False len hd k(1,2) Inr x k' d i(1,2) parse_ixs_agree [OF i(3), of m keys] in \<open>simp add: parse_message_def Let_def\<close>)
      qed (use False len hd k(1,2) Inr x k' d in \<open>simp add: parse_message_def Let_def\<close>)
    qed (use False len hd k(1,2) parse_keys_agree [OF k(3), of n] in \<open>simp add: parse_message_def Let_def\<close>)
  qed (use False len hd in \<open>simp add: parse_message_def Let_def\<close>)
qed (simp add: parse_message_def agree_def)

text \<open>A read that succeeds looks only at the bytes before the position it returns.\<close>

lemma read_loop_prefix:
  "read_u16_loop k tx v sh pos = Inr (n, q) \<Longrightarrow> take q tx = take q tx' \<Longrightarrow> q \<le> length tx' \<Longrightarrow>
   read_u16_loop k tx' v sh pos = Inr (n, q)"
proof (induction k arbitrary: v sh pos)
  case (Suc k)
  have q: "pos < q" "q \<le> length tx" using read_loop_forward [OF Suc.prems(1)] by simp_all
  then have "tx ! pos = tx' ! pos" using Suc.prems(2) by (metis nth_take)
  moreover have "\<not> length tx \<le> pos" "\<not> length tx' \<le> pos" using q Suc.prems(3) by simp_all
  ultimately show ?case using Suc by (auto simp: Let_def split: if_splits)
qed simp

text \<open>
  What is signed is what was checked: a signed transaction has the length of the request, differs
  from it only inside the first signature slot, parses to the same transaction, and the bytes handed
  to the key are exactly the message those checks were made on.
\<close>

theorem signature_covers_checked_message:
  assumes "sign_transaction tx signer 0 = Inr out"
  shows "\<exists>n start. read_compact_u16 tx 0 = Inr (n, start) \<and> 0 < n
    \<and> sign_message signer (drop (start + n * 64) tx) = Inr (take 64 (drop start out))
    \<and> length out = length tx \<and> take start out = take start tx \<and> drop (start + 64) out = drop (start + 64) tx
    \<and> parse_transaction out = parse_transaction tx"
proof -
  obtain n start sig where r: "read_compact_u16 tx 0 = Inr (n, start)" and n: "0 < n"
    and len: "start + n * 64 \<le> length tx" and sg: "sign_message signer (drop (start + n * 64) tx) = Inr sig"
    and s64: "length sig = 64" and out: "out = take start tx @ sig @ drop (start + 64) tx"
    using assms by (auto simp: sign_transaction_def rbind_eq_Inr Let_def split: if_splits)
  have n64: "start + 64 \<le> start + n * 64" using n by simp
  then have l64: "start + 64 \<le> length tx" using len by linarith
  have shape: "length out = length tx" "take start out = take start tx" "drop (start + 64) out = drop (start + 64) tx"
    "take 64 (drop start out) = sig"
    using l64 s64 by (simp_all add: out)
  have r': "read_compact_u16 out 0 = Inr (n, start)"
    unfolding read_compact_u16_def
  proof (rule read_loop_prefix)
    show "read_u16_loop 3 tx 0 0 0 = Inr (n, start)" using r by (simp only: read_compact_u16_def)
  qed (use shape(1,2) l64 in simp_all)
  have ag: "agree out tx q" if "start + n * 64 \<le> q" for q
    using shape(1,3) that n64 agree_later [of out tx "start + 64" q] by (simp add: agree_def)
  have m: "parse_message v out q = parse_message v tx q" if "start + n * 64 \<le> q" for v q
    by (rule parse_message_agree [OF ag [OF that]])
  have h: "out ! (start + n * 64) = tx ! (start + n * 64)" if "start + n * 64 < length tx"
    using agree_nth [OF ag [OF le_refl]] that shape(1) by simp
  have "parse_transaction out = parse_transaction tx"
    using h by (simp add: parse_transaction_def r r' Let_def shape(1) m)
  then show ?thesis using r n sg shape by blast
qed

theorem signature_covers_checked_message_witness:
  "\<exists>tx out. demo_transfer = Inr tx \<and> sign_transaction tx demo_signer 0 = Inr out
     \<and> parse_transaction out = parse_transaction tx \<and> out \<noteq> tx"
proof -
  have "case demo_transfer of Inl e \<Rightarrow> False | Inr tx \<Rightarrow>
      (case sign_transaction tx demo_signer 0 of Inl e \<Rightarrow> False | Inr out \<Rightarrow> out \<noteq> tx)"
    by code_simp
  then obtain tx out where tx: "demo_transfer = Inr tx" and out: "sign_transaction tx demo_signer 0 = Inr out" "out \<noteq> tx"
    by (auto split: sum.splits)
  from signature_covers_checked_message [OF out(1)] show ?thesis using tx out by blast
qed
end
