(* ===== verification/Mev.thy ===== *)
theory Mev
  imports Exit_Engine
begin

text \<open>
  The speed lane (\<open>mev/\<close>): the tip stream and its offline implementation (\<open>tip_stream.py\<close>), the
  controller that prices a tip (\<open>tip_controller.py\<close>), the recorder of tip contention and the planner of
  split exits (\<open>split_exit.py\<close>), the atomic buy bundle (\<open>bundle_submitter.py\<close>) and the latency ledger
  (\<open>latency_tracer.py\<close>). Money is integer; the ceiling and the per-leg floors go through decimal products
  of 28 digits. What a live tip stream promises both of its clients is the locale \<open>tip_feed\<close>. The block
  engine is a parameter: its operations and its state.
\<close>

section \<open>Definitions\<close>

subsection \<open>The tip stream (\<open>tip_stream.py\<close>)\<close>

record tip_floor_snapshot =
  p25_lamports :: lamports
  p50_lamports :: lamports
  p75_lamports :: lamports
  p95_lamports :: lamports
  tip_accounts :: "string list"
  as_of_slot :: int
  as_of_block_time_ms :: millis

definition mk_TipFloorSnapshot :: "tip_floor_snapshot \<Rightarrow> tip_floor_snapshot result" where
  "mk_TipFloorSnapshot s =
     (if \<exists>x \<in> {p25_lamports s, p50_lamports s, p75_lamports s, p95_lamports s}. x < 0 then Inl ValueError
      else if \<not> (p25_lamports s \<le> p50_lamports s \<and> p50_lamports s \<le> p75_lamports s \<and> p75_lamports s \<le> p95_lamports s)
      then Inl ValueError
      else if tip_accounts s = [] then Inl ValueError
      else Inr s)"

definition snapshot_percentile :: "tip_floor_snapshot \<Rightarrow> int \<Rightarrow> lamports result" where
  "snapshot_percentile s pct =
     (case map_of [(25, p25_lamports s), (50, p50_lamports s), (75, p75_lamports s), (95, p95_lamports s)] pct of
        None \<Rightarrow> Inl ValueError
      | Some x \<Rightarrow> Inr x)"

datatype stale_tip_stream = StaleTipStreamError int "int option"

type_synonym tip_reader = "int \<Rightarrow> stale_tip_stream + tip_floor_snapshot"

definition mk_StaticTipStream :: "tip_floor_snapshot list \<Rightarrow> tip_floor_snapshot list result" where
  "mk_StaticTipStream snapshots =
     (if snapshots = [] then Inl ValueError else Inr (sort_key as_of_slot snapshots))"

definition static_current :: "tip_floor_snapshot list \<Rightarrow> tip_reader" where
  "static_current snapshots decision_slot =
     (let valid = filter (\<lambda>s. as_of_slot s \<le> decision_slot) snapshots in
      if valid = []
      then Inl (StaleTipStreamError decision_slot (case snapshots of [] \<Rightarrow> None | s # _ \<Rightarrow> Some (as_of_slot s)))
      else Inr (last valid))"

subsection \<open>Pricing a tip (\<open>tip_controller.py\<close>)\<close>

datatype contention_level = Low_contention | Medium_contention | High_contention

fun bucket_to_percentile :: "contention_level \<Rightarrow> int" where
  "bucket_to_percentile Low_contention = 50"
| "bucket_to_percentile Medium_contention = 75"
| "bucket_to_percentile High_contention = 95"

datatype tip_decision_kind = SUBMIT | DO_NOT_SUBMIT

record tip_decision =
  td_kind :: tip_decision_kind
  td_tip_lamports :: lamports
  td_expected_edge_lamports :: lamports
  td_edge_ceiling_lamports :: lamports
  td_live_floor_lamports :: lamports
  td_percentile_used :: int
  td_contention_bucket :: contention_level
  td_snapshot_slot :: int
  td_reason :: string
  td_tip_pct_of_edge_bps :: bps

record tip_controller =
  tc_stream :: tip_reader
  tc_edge_cap_frac :: decimal

definition DEFAULT_EDGE_CAP_FRAC :: decimal where
  "DEFAULT_EDGE_CAP_FRAC = 3 / 10"

definition mk_TipController :: "tip_reader \<Rightarrow> decimal \<Rightarrow> tip_controller result" where
  "mk_TipController stream cap =
     (if \<not> (0 < cap \<and> cap \<le> 1) then Inl ValueError
      else Inr \<lparr>tc_stream = stream, tc_edge_cap_frac = cap\<rparr>)"

definition pct_of_edge_bps :: "lamports \<Rightarrow> lamports \<Rightarrow> bps" where
  "pct_of_edge_bps tip edge = (if edge \<le> 0 then 0 else tip * 10000 div edge)"

definition tip_refuse :: "string \<Rightarrow> lamports \<Rightarrow> lamports \<Rightarrow> lamports \<Rightarrow> int \<Rightarrow> contention_level \<Rightarrow> int \<Rightarrow> tip_decision" where
  "tip_refuse reason edge ceil flr pct bucket snap_slot =
     \<lparr>td_kind = DO_NOT_SUBMIT, td_tip_lamports = 0, td_expected_edge_lamports = edge,
      td_edge_ceiling_lamports = ceil, td_live_floor_lamports = flr, td_percentile_used = pct,
      td_contention_bucket = bucket, td_snapshot_slot = snap_slot, td_reason = reason,
      td_tip_pct_of_edge_bps = pct_of_edge_bps flr edge\<rparr>"

definition floor_of_edge :: "decimal \<Rightarrow> lamports \<Rightarrow> lamports" where
  "floor_of_edge cap edge = \<lfloor>dmul cap (of_int edge)\<rfloor>"

definition price_tip :: "tip_controller \<Rightarrow> lamports \<Rightarrow> int \<Rightarrow> contention_level \<Rightarrow> tip_decision result" where
  "price_tip c edge decision_slot bucket =
     (if edge \<le> 0 then Inr (tip_refuse ''no_expected_edge'' (max 0 edge) 0 0 0 bucket (-1))
      else case tc_stream c decision_slot of
        Inl _ \<Rightarrow> Inr (tip_refuse ''no_live_tip_floor'' edge 0 0 0 bucket (-1))
      | Inr snap \<Rightarrow>
          rbind (snapshot_percentile snap (bucket_to_percentile bucket)) (\<lambda>live_floor.
            let ceil = floor_of_edge (tc_edge_cap_frac c) edge in
            if live_floor > ceil
            then Inr (tip_refuse ''priced_out_live_floor_exceeds_edge_ceiling'' edge ceil live_floor
                        (bucket_to_percentile bucket) bucket (as_of_slot snap))
            else Inr \<lparr>td_kind = SUBMIT, td_tip_lamports = live_floor, td_expected_edge_lamports = edge,
                      td_edge_ceiling_lamports = ceil, td_live_floor_lamports = live_floor,
                      td_percentile_used = bucket_to_percentile bucket, td_contention_bucket = bucket,
                      td_snapshot_slot = as_of_slot snap, td_reason = ''priced_at_live_floor_within_edge_ceiling'',
                      td_tip_pct_of_edge_bps = pct_of_edge_bps live_floor edge\<rparr>))"

definition log_tip_pct_of_pnl :: "lamports \<Rightarrow> lamports \<Rightarrow> bps" where
  "log_tip_pct_of_pnl tip pnl = (if pnl \<le> 0 then -1 else tip * 10000 div pnl)"

subsection \<open>Recording tip contention (\<open>split_exit.py\<close>)\<close>

datatype contention_bucket = LOW | MEDIUM | HIGH | PRICED_OUT

record tip_contention_stamp =
  ts_candidate_id :: string
  ts_mint :: mint
  ts_decision_slot :: int
  ts_as_of_slot :: int
  ts_as_of_block_time_ms :: millis
  live_p50_lamports :: lamports
  live_p75_lamports :: lamports
  live_p95_lamports :: lamports
  ts_live_floor_lamports :: lamports
  ts_edge_ceiling_lamports :: lamports
  ts_bucket :: contention_bucket
  priced_out :: bool

definition mk_TipContentionStamp :: "tip_contention_stamp \<Rightarrow> tip_contention_stamp result" where
  "mk_TipContentionStamp t =
     (if ts_as_of_slot t > ts_decision_slot t then Inl ValueError
      else if priced_out t \<and> ts_bucket t \<noteq> PRICED_OUT then Inl ValueError
      else if ts_bucket t = PRICED_OUT \<and> \<not> priced_out t then Inl ValueError
      else Inr t)"

record tip_recorder =
  rc_stream :: tip_reader
  rc_edge_cap_frac :: decimal
  rc_sink :: "tip_contention_stamp list option"

definition mk_TipContentionRecorder :: "tip_reader \<Rightarrow> decimal \<Rightarrow> tip_contention_stamp list option \<Rightarrow> tip_recorder result" where
  "mk_TipContentionRecorder stream cap sink =
     (if \<not> (0 < cap \<and> cap \<le> 1) then Inl ValueError
      else Inr \<lparr>rc_stream = stream, rc_edge_cap_frac = cap, rc_sink = sink\<rparr>)"

definition stamp_ceiling :: "tip_recorder \<Rightarrow> lamports \<Rightarrow> lamports" where
  "stamp_ceiling r edge = (if edge \<le> 0 then 0 else floor_of_edge (rc_edge_cap_frac r) edge)"

definition stamp_bucket :: "lamports \<Rightarrow> tip_floor_snapshot \<Rightarrow> bool \<Rightarrow> contention_bucket" where
  "stamp_bucket live_floor snap out =
     (if out then PRICED_OUT
      else if live_floor \<le> p50_lamports snap then LOW
      else if live_floor \<le> p75_lamports snap then MEDIUM
      else HIGH)"

definition stamp_emit :: "tip_recorder \<Rightarrow> tip_contention_stamp \<Rightarrow> tip_recorder" where
  "stamp_emit r t = r\<lparr>rc_sink := map_option (\<lambda>sink. sink @ [t]) (rc_sink r)\<rparr>"

definition recorder_stamp ::
  "tip_recorder \<Rightarrow> string \<Rightarrow> mint \<Rightarrow> lamports \<Rightarrow> int \<Rightarrow> int \<Rightarrow> tip_recorder \<times> tip_contention_stamp option result" where
  "recorder_stamp r candidate m edge decision_slot required_percentile =
     (case rc_stream r decision_slot of
        Inl _ \<Rightarrow> (r, Inr None)
      | Inr snap \<Rightarrow>
          (case snapshot_percentile snap required_percentile of
             Inl e \<Rightarrow> (r, Inl e)
           | Inr live_floor \<Rightarrow>
               let ceil = stamp_ceiling r edge; out = live_floor > ceil in
               (case mk_TipContentionStamp
                       \<lparr>ts_candidate_id = candidate, ts_mint = m, ts_decision_slot = decision_slot,
                        ts_as_of_slot = as_of_slot snap, ts_as_of_block_time_ms = as_of_block_time_ms snap,
                        live_p50_lamports = p50_lamports snap, live_p75_lamports = p75_lamports snap,
                        live_p95_lamports = p95_lamports snap, ts_live_floor_lamports = live_floor,
                        ts_edge_ceiling_lamports = ceil, ts_bucket = stamp_bucket live_floor snap out,
                        priced_out = out\<rparr> of
                  Inl e \<Rightarrow> (r, Inl e)
                | Inr t \<Rightarrow> (stamp_emit r t, Inr (Some t)))))"

subsection \<open>Planning a split exit (\<open>split_exit.py\<close>)\<close>

record exit_leg =
  leg_index :: int
  leg_fraction_bps :: bps
  min_out_base :: int
  leg_private :: bool

definition mk_ExitLeg :: "exit_leg \<Rightarrow> exit_leg result" where
  "mk_ExitLeg l =
     (if leg_index l < 0 then Inl ValueError
      else if \<not> (1 \<le> leg_fraction_bps l \<and> leg_fraction_bps l \<le> 10000) then Inl ValueError
      else if min_out_base l < 0 then Inl ValueError
      else Inr l)"

record split_exit_plan =
  sp_mint :: mint
  sp_mode :: exit_mode
  total_fraction_bps :: bps
  sp_legs :: "exit_leg list"
  modeled_sandwich_p_bps :: bps
  fast_baseline_sandwich_p_bps :: bps
  sp_reason :: audit

definition mk_SplitExitPlan :: "split_exit_plan \<Rightarrow> split_exit_plan result" where
  "mk_SplitExitPlan p =
     (if \<not> (1 \<le> total_fraction_bps p \<and> total_fraction_bps p \<le> 10000) then Inl ValueError
      else if sp_legs p = [] then Inl ValueError
      else if sum_list (map leg_fraction_bps (sp_legs p)) \<noteq> total_fraction_bps p then Inl ValueError
      else if \<not> (\<forall>l \<in> set (sp_legs p). leg_private l) then Inl ValueError
      else if \<not> (0 \<le> modeled_sandwich_p_bps p \<and> modeled_sandwich_p_bps p \<le> 10000) then Inl ValueError
      else if \<not> (0 \<le> fast_baseline_sandwich_p_bps p \<and> fast_baseline_sandwich_p_bps p \<le> 10000) then Inl ValueError
      else if modeled_sandwich_p_bps p > fast_baseline_sandwich_p_bps p then Inl ValueError
      else Inr p)"

record pool_liquidity =
  quote_reserve_base :: int
  sell_notional_base :: int

definition mk_PoolLiquidity :: "pool_liquidity \<Rightarrow> pool_liquidity result" where
  "mk_PoolLiquidity p =
     (if quote_reserve_base p < 0 \<or> sell_notional_base p < 0 then Inl ValueError else Inr p)"

definition sell_fraction_of_pool_bps :: "pool_liquidity \<Rightarrow> bps" where
  "sell_fraction_of_pool_bps p =
     (if quote_reserve_base p \<le> 0 then 10000
      else min (sell_notional_base p * 10000 div quote_reserve_base p) 10000)"

record exit_planner =
  max_legs :: int
  split_threshold_bps :: bps

definition mk_ExitProtectionPlanner :: "exit_planner \<Rightarrow> exit_planner result" where
  "mk_ExitProtectionPlanner pl =
     (if max_legs pl < 1 then Inl ValueError
      else if \<not> (1 \<le> split_threshold_bps pl \<and> split_threshold_bps pl \<le> 10000) then Inl ValueError
      else Inr pl)"

definition validate_exit_inputs :: "bps \<Rightarrow> bps \<Rightarrow> int \<Rightarrow> unit result" where
  "validate_exit_inputs fraction slip expected =
     (if \<not> (1 \<le> fraction \<and> fraction \<le> 10000) then Inl ValueError
      else if \<not> (0 \<le> slip \<and> slip < 10000) then Inl ValueError
      else if expected \<le> 0 then Inl ValueError
      else Inr ())"

definition leg_count :: "exit_planner \<Rightarrow> pool_liquidity \<Rightarrow> int" where
  "leg_count pl pool =
     (let fill_bps = sell_fraction_of_pool_bps pool in
      if fill_bps < split_threshold_bps pl then 1
      else max 1 (min (max_legs pl) (fill_bps div split_threshold_bps pl)))"

definition split_bps_evenly :: "bps \<Rightarrow> int \<Rightarrow> bps list result" where
  "split_bps_evenly total_bps n0 =
     (if n0 < 1 then Inl ValueError
      else let n = min n0 total_bps in
        if n = 0 then Inl DivisionByZero
        else let base = total_bps div n; rem = total_bps - base * n;
                 parts = map (\<lambda>i. base + (if int i < rem then 1 else 0)) [0..<nat n] in
          if sum_list parts \<noteq> total_bps then Inl AssertionError else Inr parts)"

definition modeled_split_sandwich_p_bps :: "bps \<Rightarrow> int \<Rightarrow> bps result" where
  "modeled_split_sandwich_p_bps base_p n = (if n < 1 then Inl ValueError else Inr (base_p div n))"

fun build_legs_from :: "int \<Rightarrow> bps \<Rightarrow> int \<Rightarrow> decimal \<Rightarrow> bps list \<Rightarrow> exit_leg list result" where
  "build_legs_from idx fraction expected keep [] = Inr []"
| "build_legs_from idx fraction expected keep (lf # lfs) =
     (let leg_tokens = expected * lf div fraction;
          min_out = \<lfloor>dmul (of_int leg_tokens) keep\<rfloor> in
      rbind (mk_ExitLeg \<lparr>leg_index = idx, leg_fraction_bps = lf, min_out_base = max min_out 0, leg_private = True\<rparr>) (\<lambda>leg.
      rbind (build_legs_from (idx + 1) fraction expected keep lfs) (\<lambda>legs.
      Inr (leg # legs))))"

definition build_legs :: "bps list \<Rightarrow> bps \<Rightarrow> int \<Rightarrow> bps \<Rightarrow> exit_leg list result" where
  "build_legs leg_fracs fraction expected slip =
     build_legs_from 0 fraction expected (ddiv (dsub 10000 (of_int slip)) 10000) leg_fracs"

definition plan_exit ::
  "exit_planner \<Rightarrow> mint \<Rightarrow> bps \<Rightarrow> exit_mode \<Rightarrow> pool_liquidity \<Rightarrow> bps \<Rightarrow> int \<Rightarrow> split_exit_plan result" where
  "plan_exit pl m fraction mode pool slip expected =
     rbind (validate_exit_inputs fraction slip expected) (\<lambda>_.
     let n_legs = leg_count pl pool in
     rbind (split_bps_evenly fraction n_legs) (\<lambda>leg_fracs.
     let fast_baseline_p = sandwich_p_bps (slippage_model_for Fast) in
     rbind (modeled_split_sandwich_p_bps (sandwich_p_bps (slippage_model_for mode)) n_legs) (\<lambda>p.
     let modeled_p = min p fast_baseline_p in
     rbind (build_legs leg_fracs fraction expected slip) (\<lambda>legs.
     mk_SplitExitPlan
       \<lparr>sp_mint = m, sp_mode = mode, total_fraction_bps = fraction, sp_legs = legs,
        modeled_sandwich_p_bps = modeled_p, fast_baseline_sandwich_p_bps = fast_baseline_p,
        sp_reason = Audit ''private split''
          (map of_int [n_legs, sell_fraction_of_pool_bps pool, slip, modeled_p, fast_baseline_p])\<rparr>))))"

subsection \<open>The atomic buy bundle (\<open>bundle_submitter.py\<close>)\<close>

datatype bundle_submit_mode = Submit_dry_run | Submit_live

datatype bundle_status = LANDED | REVERTED | DROPPED | DRY_RUN_status

record 'tx atomic_buy_bundle =
  signed_buy_tx :: 'tx
  bn_tip_lamports :: lamports
  tip_account :: string
  min_tokens_out_base :: int
  bn_client_intent_id :: string

definition mk_AtomicBuyBundle :: "'tx atomic_buy_bundle \<Rightarrow> 'tx atomic_buy_bundle result" where
  "mk_AtomicBuyBundle b =
     (if bn_tip_lamports b < 0 then Inl ValueError
      else if min_tokens_out_base b \<le> 0 then Inl ValueError
      else if tip_account b = [] then Inl ValueError
      else Inr b)"

record bundle_result =
  br_status :: bundle_status
  landed_buy :: bool
  br_bundle_id :: "string option"
  br_reason :: string
  br_tip_lamports :: lamports
  br_min_tokens_out_base :: int

definition mk_BundleResult :: "bundle_result \<Rightarrow> bundle_result result" where
  "mk_BundleResult r =
     (if landed_buy r \<and> br_status r \<noteq> LANDED then Inl ValueError
      else if br_status r \<noteq> LANDED \<and> landed_buy r then Inl ValueError
      else Inr r)"

record ('e, 'tx) block_engine_ops =
  send_bundle :: "'e \<Rightarrow> 'tx atomic_buy_bundle \<Rightarrow> 'e \<times> string result"
  poll_status :: "'e \<Rightarrow> string \<Rightarrow> bundle_status result"

definition submit_mode :: "bool \<Rightarrow> bool \<Rightarrow> bundle_submit_mode" where
  "submit_mode live_submit_enabled dry_run_env_disabled =
     (if live_submit_enabled \<and> dry_run_env_disabled then Submit_live else Submit_dry_run)"

definition assert_live_allowed :: "bool \<Rightarrow> bool \<Rightarrow> unit result" where
  "assert_live_allowed live_submit_enabled dry_run_env_disabled =
     (if \<not> live_submit_enabled then Inl RuntimeError
      else if \<not> dry_run_env_disabled then Inl RuntimeError
      else Inr ())"

fun bundle_reason :: "bundle_status \<Rightarrow> string" where
  "bundle_reason LANDED = ''bundle_landed''"
| "bundle_reason REVERTED = ''min_out_reverted_flat_state''"
| "bundle_reason DROPPED = ''bundle_dropped_flat_state''"
| "bundle_reason DRY_RUN_status = ''unknown''"

definition submit_atomic_buy ::
  "('e, 'tx) block_engine_ops \<Rightarrow> bool \<Rightarrow> bool \<Rightarrow> 'e \<Rightarrow> 'tx atomic_buy_bundle \<Rightarrow> 'e \<times> bundle_result result" where
  "submit_atomic_buy ops live env engine bundle =
     (if submit_mode live env = Submit_dry_run
      then (engine, mk_BundleResult
             \<lparr>br_status = DRY_RUN_status, landed_buy = False, br_bundle_id = None, br_reason = ''dry_run'',
              br_tip_lamports = bn_tip_lamports bundle, br_min_tokens_out_base = min_tokens_out_base bundle\<rparr>)
      else case assert_live_allowed live env of
        Inl e \<Rightarrow> (engine, Inl e)
      | Inr _ \<Rightarrow>
          (case send_bundle ops engine bundle of
             (engine', Inl e) \<Rightarrow> (engine', Inl e)
           | (engine', Inr bid) \<Rightarrow>
               (engine', rbind (poll_status ops engine' bid) (\<lambda>st. mk_BundleResult
                  \<lparr>br_status = st, landed_buy = (st = LANDED), br_bundle_id = Some bid, br_reason = bundle_reason st,
                   br_tip_lamports = bn_tip_lamports bundle, br_min_tokens_out_base = min_tokens_out_base bundle\<rparr>))))"

record 'tx mock_engine =
  mk_actual_tokens_out :: int
  mk_force_drop :: bool
  mk_submitted :: "(string \<times> 'tx atomic_buy_bundle) list"
  mk_counter :: int

definition mock_send :: "'tx mock_engine \<Rightarrow> 'tx atomic_buy_bundle \<Rightarrow> 'tx mock_engine \<times> string result" where
  "mock_send e b =
     (let n = mk_counter e + 1;
          bid = ''mock-bundle-'' @ str_int n @ ''-'' @ bn_client_intent_id b in
      (e\<lparr>mk_counter := n, mk_submitted := dict_set bid b (mk_submitted e)\<rparr>, Inr bid))"

definition mock_poll :: "'tx mock_engine \<Rightarrow> string \<Rightarrow> bundle_status result" where
  "mock_poll e bid =
     (case map_of (mk_submitted e) bid of
        None \<Rightarrow> Inr DROPPED
      | Some b \<Rightarrow>
          if mk_force_drop e then Inr DROPPED
          else if mk_actual_tokens_out e < min_tokens_out_base b then Inr REVERTED
          else Inr LANDED)"

definition mock_ops :: "('tx mock_engine, 'tx) block_engine_ops" where
  "mock_ops = \<lparr>send_bundle = mock_send, poll_status = mock_poll\<rparr>"

subsection \<open>The latency ledger (\<open>latency_tracer.py\<close>)\<close>

datatype hop_class = INTERNAL | SUBMISSION | LEADER_LAND

definition HOP_CLASS :: "(string \<times> hop_class) list" where
  "HOP_CLASS =
     [(''ingress_detect'', INTERNAL), (''decode'', INTERNAL), (''gate'', INTERNAL), (''decide'', INTERNAL),
      (''build_sign'', INTERNAL), (''submit_call'', INTERNAL), (''block_engine_rtt'', SUBMISSION),
      (''leader_land'', LEADER_LAND)]"

record hop_span =
  hop_name :: string
  span_class :: hop_class
  duration_us :: int

record latency_trace =
  lt_event_slot :: int
  lt_event_block_time_ms :: millis
  lt_wall_clock_ms :: millis
  spans :: "hop_span list"

definition add_hop :: "latency_trace \<Rightarrow> string \<Rightarrow> int \<Rightarrow> latency_trace result" where
  "add_hop tr name us =
     (case map_of HOP_CLASS name of
        None \<Rightarrow> Inl ValueError
      | Some cls \<Rightarrow>
          if us < 0 then Inl ValueError
          else Inr (tr\<lparr>spans := spans tr @ [\<lparr>hop_name = name, span_class = cls, duration_us = us\<rparr>]\<rparr>))"

definition class_total_us :: "hop_class \<Rightarrow> latency_trace \<Rightarrow> int" where
  "class_total_us cls tr = sum_list (map duration_us (filter (\<lambda>s. span_class s = cls) (spans tr)))"

definition internal_total_us :: "latency_trace \<Rightarrow> int" where
  "internal_total_us = class_total_us INTERNAL"

definition submission_rtt_us :: "latency_trace \<Rightarrow> int" where
  "submission_rtt_us = class_total_us SUBMISSION"

definition leader_land_us :: "latency_trace \<Rightarrow> int" where
  "leader_land_us = class_total_us LEADER_LAND"

record latency_tracer =
  samples :: "(string \<times> int list) list"
  internal_totals_us :: "int list"
  submission_us :: "int list"
  leader_lands_us :: "int list"

definition new_LatencyTracer :: latency_tracer where
  "new_LatencyTracer =
     \<lparr>samples = map (\<lambda>(h, c). (h, [])) HOP_CLASS, internal_totals_us = [], submission_us = [], leader_lands_us = []\<rparr>"

fun fold_spans :: "(string \<times> int list) list \<Rightarrow> hop_span list \<Rightarrow> (string \<times> int list) list \<times> unit result" where
  "fold_spans d [] = (d, Inr ())"
| "fold_spans d (s # ss) =
     (case map_of d (hop_name s) of
        None \<Rightarrow> (d, Inl KeyError)
      | Some xs \<Rightarrow> fold_spans (dict_set (hop_name s) (xs @ [duration_us s]) d) ss)"

definition tracer_record :: "latency_tracer \<Rightarrow> latency_trace \<Rightarrow> latency_tracer \<times> unit result" where
  "tracer_record t tr =
     (case fold_spans (samples t) (spans tr) of
        (d, Inl e) \<Rightarrow> (t\<lparr>samples := d\<rparr>, Inl e)
      | (d, Inr _) \<Rightarrow>
          (\<lparr>samples = d, internal_totals_us = internal_totals_us t @ [internal_total_us tr],
            submission_us = submission_us t @ [submission_rtt_us tr],
            leader_lands_us = leader_lands_us t @ [leader_land_us tr]\<rparr>, Inr ()))"

definition pctl_us :: "int list \<Rightarrow> int \<Rightarrow> int" where
  "pctl_us xs pct =
     (if xs = [] then 0
      else let ordered = sort xs;
               rank = (pct * int (length ordered) + 99) div 100;
               idx = min (max (rank - 1) 0) (int (length ordered) - 1) in
        ordered ! nat idx)"

section \<open>Tips\<close>

subsection \<open>What a tip stream promises\<close>

text \<open>
  Both clients of a stream rely on two promises: a snapshot is valid, and it is not from the future of
  the decision.
\<close>

locale tip_feed =
  fixes current :: "'s \<Rightarrow> tip_reader" and feed_ok :: "'s \<Rightarrow> bool"
  assumes current_valid: "feed_ok st \<Longrightarrow> current st d = Inr s \<Longrightarrow> mk_TipFloorSnapshot s = Inr s"
    and current_past: "feed_ok st \<Longrightarrow> current st d = Inr s \<Longrightarrow> as_of_slot s \<le> d"

lemma snapshot_percentile_supported:
  "snapshot_percentile s (bucket_to_percentile b) =
     Inr (case b of Low_contention \<Rightarrow> p50_lamports s | Medium_contention \<Rightarrow> p75_lamports s | High_contention \<Rightarrow> p95_lamports s)"
  by (cases b) (simp_all add: snapshot_percentile_def)

lemma mk_TipFloorSnapshot_iff:
  "mk_TipFloorSnapshot s = Inr s' \<longleftrightarrow> s' = s \<and> 0 \<le> p25_lamports s \<and> p25_lamports s \<le> p50_lamports s \<and>
     p50_lamports s \<le> p75_lamports s \<and> p75_lamports s \<le> p95_lamports s \<and> tip_accounts s \<noteq> []"
  by (auto simp: mk_TipFloorSnapshot_def)

lemma price_tip_no_edge: "edge \<le> 0 \<Longrightarrow> \<exists>td. price_tip c edge d b = Inr td \<and> td_kind td = DO_NOT_SUBMIT \<and> td_tip_lamports td = 0"
  by (simp add: price_tip_def tip_refuse_def)

text \<open>The ceiling never exceeds the edge, and the default ceiling is exactly three tenths of it.\<close>

lemma floor_of_edge_le:
  assumes "0 < cap" and "cap \<le> 1" and "0 < edge" and "edge \<le> 10 ^ 28"
  shows "0 \<le> floor_of_edge cap edge" and "floor_of_edge cap edge \<le> edge"
proof -
  have "dmul cap (of_int edge) = dmul (of_int edge) cap" by (simp add: dmul_def mult.commute)
  moreover have "dmul (of_int edge) cap \<le> of_int edge"
    using assms dec_rep_of_int [of edge] by (intro dmul_shrink) simp_all
  ultimately show "floor_of_edge cap edge \<le> edge"
    by (simp add: floor_of_edge_def floor_le_iff)
  show "0 \<le> floor_of_edge cap edge"
    using assms dmul_nonneg [of cap "of_int edge"] by (simp add: floor_of_edge_def)
qed

lemma default_floor_of_edge:
  assumes "0 < edge" and "edge \<le> 10 ^ 27"
  shows "floor_of_edge DEFAULT_EDGE_CAP_FRAC edge = 3 * edge div 10"
proof -
  have "dmul DEFAULT_EDGE_CAP_FRAC (of_int edge) = dec (of_int (3 * edge) / 10 ^ 1)"
    by (simp add: dmul_def DEFAULT_EDGE_CAP_FRAC_def)
  also have "\<dots> = of_int (3 * edge) / 10 ^ 1" using assms by (intro dec_frac) simp
  also have "\<dots> = of_int (3 * edge) / of_int 10" by simp
  finally show ?thesis unfolding floor_of_edge_def by (simp only: floor_divide_of_int_eq)
qed

context tip_feed
begin

lemma price_tip_submits_iff:
  assumes "feed_ok st" and "tc_stream c = current st"
  shows "\<exists>td. price_tip c edge d b = Inr td \<and>
    (td_kind td = SUBMIT \<longleftrightarrow> 0 < edge \<and> (\<exists>s. current st d = Inr s \<and>
       snapshot_percentile s (bucket_to_percentile b) = Inr (td_live_floor_lamports td) \<and>
       td_live_floor_lamports td \<le> floor_of_edge (tc_edge_cap_frac c) edge)) \<and>
    td_tip_lamports td = (if td_kind td = SUBMIT then td_live_floor_lamports td else 0) \<and>
    0 \<le> td_live_floor_lamports td \<and> td_snapshot_slot td \<le> max (- 1) d"
proof (cases "0 < edge")
  case True
  then show ?thesis
  proof (cases "current st d")
    case (Inr s)
    then have "0 \<le> p50_lamports s \<and> 0 \<le> p75_lamports s \<and> 0 \<le> p95_lamports s" "as_of_slot s \<le> d"
      using current_valid [OF assms(1)] current_past [OF assms(1)]
      by (fastforce simp: mk_TipFloorSnapshot_iff)+
    then show ?thesis using Inr True assms(2)
      by (auto simp: price_tip_def Let_def snapshot_percentile_supported tip_refuse_def split: contention_level.splits)
  qed (use assms(2) in \<open>simp add: price_tip_def tip_refuse_def\<close>)
qed (simp add: price_tip_def tip_refuse_def)

lemma stamp_total:
  assumes "feed_ok st" and "rc_stream r = current st" and "current st d = Inr s"
    and "snapshot_percentile s pct = Inr flr"
  shows "\<exists>t. recorder_stamp r candidate m edge d pct = (stamp_emit r t, Inr (Some t)) \<and>
    ts_live_floor_lamports t = flr \<and> (priced_out t \<longleftrightarrow> stamp_ceiling r edge < flr) \<and>
    (ts_bucket t = PRICED_OUT \<longleftrightarrow> priced_out t) \<and> ts_as_of_slot t = as_of_slot s \<and> ts_as_of_slot t \<le> d"
  using assms current_past [OF assms(1,3)]
  by (simp add: recorder_stamp_def Let_def mk_TipContentionStamp_def stamp_bucket_def)

lemma stamp_agrees:
  assumes "feed_ok st" and "rc_stream r = current st" and "tc_stream c = current st"
    and "rc_edge_cap_frac r = tc_edge_cap_frac c" and "0 < edge" and "current st d = Inr s"
  shows "\<exists>t td. recorder_stamp r candidate m edge d (bucket_to_percentile b) = (stamp_emit r t, Inr (Some t)) \<and>
    price_tip c edge d b = Inr td \<and> (priced_out t \<longleftrightarrow> td_kind td = DO_NOT_SUBMIT) \<and>
    ts_as_of_slot t \<le> d \<and> ts_live_floor_lamports t = td_live_floor_lamports td"
proof -
  obtain flr where flr: "snapshot_percentile s (bucket_to_percentile b) = Inr flr"
    by (simp add: snapshot_percentile_supported)
  obtain t where t: "recorder_stamp r candidate m edge d (bucket_to_percentile b) = (stamp_emit r t, Inr (Some t))"
    "ts_live_floor_lamports t = flr" "priced_out t \<longleftrightarrow> stamp_ceiling r edge < flr" "ts_as_of_slot t \<le> d"
    using stamp_total [OF assms(1,2,6) flr] by blast
  moreover have "\<exists>td. price_tip c edge d b = Inr td \<and> td_live_floor_lamports td = flr \<and>
      (td_kind td = DO_NOT_SUBMIT \<longleftrightarrow> stamp_ceiling r edge < flr)"
    using assms flr by (auto simp: price_tip_def Let_def tip_refuse_def stamp_ceiling_def)
  ultimately show ?thesis by metis
qed

end

text \<open>The offline stream keeps the promises, and what it returns is the freshest snapshot.\<close>

definition static_ok :: "tip_floor_snapshot list \<Rightarrow> bool" where
  "static_ok snaps \<longleftrightarrow> (\<forall>s \<in> set snaps. mk_TipFloorSnapshot s = Inr s)"

lemma static_current_Inr:
  "static_current snaps d = Inr s \<longleftrightarrow>
     filter (\<lambda>x. as_of_slot x \<le> d) snaps \<noteq> [] \<and> s = last (filter (\<lambda>x. as_of_slot x \<le> d) snaps)"
  by (auto simp: static_current_def Let_def)

lemma static_current_in: "static_current snaps d = Inr s \<Longrightarrow> s \<in> set snaps \<and> as_of_slot s \<le> d"
  using last_in_set [of "filter (\<lambda>x. as_of_slot x \<le> d) snaps"] by (auto simp: static_current_Inr)

interpretation static_tips: tip_feed static_current static_ok
  by unfold_locales (use static_current_in in \<open>auto simp: static_ok_def\<close>)

lemma last_is_max: "sorted (map f xs) \<Longrightarrow> x \<in> set xs \<Longrightarrow> f x \<le> f (last xs)"
  by (induction xs) auto

theorem static_stream_freshest:
  assumes "mk_StaticTipStream snaps = Inr st"
  shows "(\<forall>s. static_current st d = Inr s \<longrightarrow>
       s \<in> set snaps \<and> as_of_slot s \<le> d \<and> (\<forall>x \<in> set snaps. as_of_slot x \<le> d \<longrightarrow> as_of_slot x \<le> as_of_slot s)) \<and>
     ((\<exists>e. static_current st d = Inl e) \<longleftrightarrow> (\<forall>x \<in> set snaps. d < as_of_slot x))"
proof -
  have st: "st = sort_key as_of_slot snaps" using assms by (simp add: mk_StaticTipStream_def split: if_splits)
  let ?v = "filter (\<lambda>x. as_of_slot x \<le> d) st"
  have "sorted (map as_of_slot ?v)" using st by (simp add: sorted_filter)
  then have "as_of_slot x \<le> as_of_slot (last ?v)" if "x \<in> set snaps" "as_of_slot x \<le> d" for x
    using last_is_max [of as_of_slot ?v x] that st by simp
  moreover have "(\<exists>e. static_current st d = Inl e) \<longleftrightarrow> ?v = []" by (simp add: static_current_def Let_def)
  moreover have "?v = [] \<longleftrightarrow> (\<forall>x \<in> set snaps. d < as_of_slot x)"
    using st by (simp add: filter_empty_conv not_le)
  moreover have "s \<in> set snaps \<and> as_of_slot s \<le> d \<and> s = last ?v" if "static_current st d = Inr s" for s
    using static_current_in [OF that] that st by (simp add: static_current_Inr)
  ultimately show ?thesis by blast
qed

text \<open>
  C19. A tip never eats the edge. With a cap in (0, 1] and a stream that keeps its promises, pricing a tip
  always answers; it submits exactly when there is an edge, a live snapshot and a live floor within the
  capped share of the edge; the tip is then that floor and nothing otherwise, so it never exceeds the
  edge, and with the default cap not three tenths of it.
\<close>

theorem tip_never_exceeds_edge_share:
  assumes "mk_StaticTipStream snaps = Inr st" and "\<forall>s \<in> set snaps. mk_TipFloorSnapshot s = Inr s"
    and "mk_TipController (static_current st) cap = Inr c" and "edge \<le> 10 ^ 27"
  shows "\<exists>td. price_tip c edge d b = Inr td \<and>
    (td_kind td = SUBMIT \<longleftrightarrow> 0 < edge \<and> (\<exists>s. static_current st d = Inr s \<and>
       snapshot_percentile s (bucket_to_percentile b) = Inr (td_live_floor_lamports td) \<and>
       td_live_floor_lamports td \<le> floor_of_edge cap edge)) \<and>
    td_tip_lamports td = (if td_kind td = SUBMIT then td_live_floor_lamports td else 0) \<and>
    0 \<le> td_tip_lamports td \<and> td_tip_lamports td \<le> max 0 edge \<and>
    (cap = DEFAULT_EDGE_CAP_FRAC \<longrightarrow> 10 * td_tip_lamports td \<le> 3 * max 0 edge)"
proof -
  have c: "tc_stream c = static_current st" "tc_edge_cap_frac c = cap" "0 < cap" "cap \<le> 1"
    using assms(3) by (auto simp: mk_TipController_def split: if_splits)
  have "static_ok st" using assms(1,2) by (auto simp: static_ok_def mk_StaticTipStream_def split: if_splits)
  from static_tips.price_tip_submits_iff [OF this c(1), of edge d b] obtain td where
    td: "price_tip c edge d b = Inr td"
      "td_kind td = SUBMIT \<longleftrightarrow> 0 < edge \<and> (\<exists>s. static_current st d = Inr s \<and>
         snapshot_percentile s (bucket_to_percentile b) = Inr (td_live_floor_lamports td) \<and>
         td_live_floor_lamports td \<le> floor_of_edge cap edge)"
      "td_tip_lamports td = (if td_kind td = SUBMIT then td_live_floor_lamports td else 0)"
      "0 \<le> td_live_floor_lamports td"
    using c(2) by blast
  have "td_tip_lamports td \<le> max 0 edge \<and> (cap = DEFAULT_EDGE_CAP_FRAC \<longrightarrow> 10 * td_tip_lamports td \<le> 3 * max 0 edge)"
    using td(2,3) floor_of_edge_le(2) [OF c(3,4), of edge] default_floor_of_edge [of edge] assms(4) by fastforce
  with td show ?thesis by auto
qed

definition demo_snapshot :: tip_floor_snapshot where
  "demo_snapshot = \<lparr>p25_lamports = 10, p50_lamports = 20, p75_lamports = 30, p95_lamports = 50,
     tip_accounts = [''tip''], as_of_slot = 7, as_of_block_time_ms = 1000\<rparr>"

theorem tip_never_exceeds_edge_share_witness:
  "\<exists>td. price_tip \<lparr>tc_stream = static_current [demo_snapshot], tc_edge_cap_frac = DEFAULT_EDGE_CAP_FRAC\<rparr>
     100 8 Medium_contention = Inr td \<and> 10 * td_tip_lamports td \<le> 300"
proof -
  have "mk_StaticTipStream [demo_snapshot] = Inr [demo_snapshot]" by (simp add: mk_StaticTipStream_def)
  moreover have "mk_TipController (static_current [demo_snapshot]) DEFAULT_EDGE_CAP_FRAC =
    Inr \<lparr>tc_stream = static_current [demo_snapshot], tc_edge_cap_frac = DEFAULT_EDGE_CAP_FRAC\<rparr>"
    by (simp add: mk_TipController_def DEFAULT_EDGE_CAP_FRAC_def)
  moreover have "\<forall>s \<in> set [demo_snapshot]. mk_TipFloorSnapshot s = Inr s"
    by (simp add: mk_TipFloorSnapshot_def demo_snapshot_def)
  ultimately show ?thesis
    using tip_never_exceeds_edge_share [of "[demo_snapshot]" "[demo_snapshot]" DEFAULT_EDGE_CAP_FRAC _ 100 8 Medium_contention]
    by force
qed

text \<open>
  The audit stamp tells the truth about the controller. For a candidate with an edge and a live
  snapshot, the recorder with the same cap and percentile stamps the candidate as priced out exactly when
  the controller refuses to submit, with the same floor and a snapshot that is not from the future, and
  appends exactly that stamp to its sink.
\<close>

theorem contention_stamp_matches_controller:
  assumes "mk_StaticTipStream snaps = Inr st" and "\<forall>s \<in> set snaps. mk_TipFloorSnapshot s = Inr s"
    and "mk_TipController (static_current st) cap = Inr c"
    and "mk_TipContentionRecorder (static_current st) cap sink = Inr r"
    and "0 < edge" and "static_current st d = Inr s"
  shows "\<exists>t td r'. recorder_stamp r candidate m edge d (bucket_to_percentile b) = (r', Inr (Some t)) \<and>
    price_tip c edge d b = Inr td \<and> (priced_out t \<longleftrightarrow> td_kind td = DO_NOT_SUBMIT) \<and>
    ts_live_floor_lamports t = td_live_floor_lamports td \<and> ts_as_of_slot t \<le> d \<and>
    rc_sink r' = map_option (\<lambda>xs. xs @ [t]) sink"
proof -
  have r: "rc_stream r = static_current st" "rc_edge_cap_frac r = cap" "rc_sink r = sink"
    "tc_stream c = static_current st" "tc_edge_cap_frac c = cap"
    using assms(3,4) by (auto simp: mk_TipController_def mk_TipContentionRecorder_def split: if_splits)
  have "static_ok st" using assms(1,2) by (auto simp: static_ok_def mk_StaticTipStream_def split: if_splits)
  from static_tips.stamp_agrees [OF this r(1,4) _ assms(5,6), of candidate m b] r
  show ?thesis by (fastforce simp: stamp_emit_def)
qed

theorem contention_stamp_matches_controller_witness:
  "\<exists>t r'. recorder_stamp \<lparr>rc_stream = static_current [demo_snapshot], rc_edge_cap_frac = DEFAULT_EDGE_CAP_FRAC,
      rc_sink = Some []\<rparr> ''c'' ''m'' 60 8 75 = (r', Inr (Some t)) \<and> rc_sink r' = Some [t]"
proof -
  have "mk_StaticTipStream [demo_snapshot] = Inr [demo_snapshot]" by (simp add: mk_StaticTipStream_def)
  moreover have "mk_TipController (static_current [demo_snapshot]) DEFAULT_EDGE_CAP_FRAC =
    Inr \<lparr>tc_stream = static_current [demo_snapshot], tc_edge_cap_frac = DEFAULT_EDGE_CAP_FRAC\<rparr>"
    "mk_TipContentionRecorder (static_current [demo_snapshot]) DEFAULT_EDGE_CAP_FRAC (Some []) =
    Inr \<lparr>rc_stream = static_current [demo_snapshot], rc_edge_cap_frac = DEFAULT_EDGE_CAP_FRAC, rc_sink = Some []\<rparr>"
    by (simp_all add: mk_TipController_def mk_TipContentionRecorder_def DEFAULT_EDGE_CAP_FRAC_def)
  moreover have "\<forall>s \<in> set [demo_snapshot]. mk_TipFloorSnapshot s = Inr s" "static_current [demo_snapshot] 8 = Inr demo_snapshot"
    by (simp_all add: mk_TipFloorSnapshot_def static_current_def demo_snapshot_def)
  ultimately show ?thesis
    using contention_stamp_matches_controller
      [of "[demo_snapshot]" "[demo_snapshot]" DEFAULT_EDGE_CAP_FRAC _ "Some []" _ 60 8 demo_snapshot "''c''" "''m''" Medium_contention]
    by force
qed

section \<open>Split exits\<close>

lemma sum_even_parts:
  "sum_list (map (\<lambda>i. b + (if int i < r then 1 else 0)) [0..<n]) = b * int n + min (int n) (max 0 r)"
  by (induction n) (auto simp: algebra_simps)

lemma member_le_sum_int:
  fixes x :: int
  shows "\<forall>y \<in> set xs. 0 \<le> y \<Longrightarrow> x \<in> set xs \<Longrightarrow> x \<le> sum_list xs"
  by (induction xs) (auto intro: add_increasing add_increasing2 sum_list_nonneg)

lemma split_bps_evenly_exact:
  assumes "1 \<le> n" and "1 \<le> f"
  shows "\<exists>parts. split_bps_evenly f n = Inr parts \<and> int (length parts) = min n f \<and> sum_list parts = f \<and>
    (\<forall>x \<in> set parts. (x = f div min n f \<or> x = f div min n f + 1) \<and> 1 \<le> x \<and> x \<le> f)"
proof -
  define k where "k = min n f"
  define parts where "parts = map (\<lambda>i. f div k + (if int i < f - f div k * k then 1 else 0)) [0..<nat k]"
  have k: "0 < k" "k \<le> f" using assms by (auto simp: k_def)
  have "f - f div k * k = f mod k" by (simp add: minus_div_mult_eq_mod)
  then have total: "sum_list parts = f"
    using k pos_mod_bound [OF k(1), of f] by (simp add: parts_def sum_even_parts)
  have "1 \<le> f div k" using k pos_imp_zdiv_pos_iff [of k f] by simp
  then have parts: "(x = f div k \<or> x = f div k + 1) \<and> 1 \<le> x" if "x \<in> set parts" for x
    using that by (auto simp: parts_def)
  then have "x \<le> f" if "x \<in> set parts" for x
    using member_le_sum_int [of parts x] that total by fastforce
  moreover have "split_bps_evenly f n = Inr parts"
    using assms k total unfolding split_bps_evenly_def Let_def k_def [symmetric] parts_def [symmetric] by simp
  moreover have "int (length parts) = k" using k by (simp add: parts_def)
  ultimately show ?thesis using total parts unfolding k_def by blast
qed

lemma leg_keep_exact:
  assumes "0 \<le> slip" and "slip < 10000"
  shows "ddiv (dsub 10000 (of_int slip)) 10000 = of_int (10000 - slip) / 10 ^ 4"
proof -
  have "dsub 10000 (of_int slip) = dec (of_int (10000 - slip))" by (simp add: dsub_def)
  also have "\<dots> = of_int (10000 - slip)" using assms by (intro dec_of_int) simp
  finally have "ddiv (dsub 10000 (of_int slip)) 10000 = dec (of_int (10000 - slip) / 10 ^ 4)" by (simp add: ddiv_def)
  also have "\<dots> = of_int (10000 - slip) / 10 ^ 4" using assms by (intro dec_frac) simp
  finally show ?thesis .
qed

lemma leg_min_out_exact:
  assumes "0 \<le> slip" and "slip < 10000" and "0 \<le> t" and "t \<le> 10 ^ 24"
  shows "\<lfloor>dmul (of_int t) (of_int (10000 - slip) / 10 ^ 4)\<rfloor> = t * (10000 - slip) div 10000"
proof -
  have "t * (10000 - slip) \<le> 10 ^ 24 * 10 ^ 4" using assms by (intro mult_mono) simp_all
  then have "dec (of_int (t * (10000 - slip)) / 10 ^ 4) = of_int (t * (10000 - slip)) / 10 ^ 4"
    using assms by (intro dec_frac) simp
  then have "dmul (of_int t) (of_int (10000 - slip) / 10 ^ 4) = of_int (t * (10000 - slip)) / of_int 10000"
    by (simp add: dmul_def)
  then show ?thesis by (simp only: floor_divide_of_int_eq)
qed

lemma build_legs_exact:
  assumes "0 \<le> slip" and "slip < 10000" and "0 < expected" and "expected \<le> 10 ^ 24" and "0 < f" and "f \<le> 10000"
    and "\<forall>x \<in> set lfs. 1 \<le> x \<and> x \<le> f" and "0 \<le> idx"
  shows "\<exists>legs. build_legs_from idx f expected (of_int (10000 - slip) / 10 ^ 4) lfs = Inr legs \<and>
    map leg_fraction_bps legs = lfs \<and> (\<forall>l \<in> set legs. leg_private l \<and>
      min_out_base l = expected * leg_fraction_bps l div f * (10000 - slip) div 10000)"
  using assms(7,8)
proof (induction lfs arbitrary: idx)
  case (Cons lf lfs)
  let ?t = "expected * lf div f"
  have t: "0 \<le> ?t" "?t \<le> 10 ^ 24"
  proof -
    show "0 \<le> ?t" using assms Cons.prems by (simp add: pos_imp_zdiv_nonneg_iff)
    have "?t \<le> expected * f div f" using assms Cons.prems by (intro zdiv_mono1 mult_left_mono) simp_all
    then show "?t \<le> 10 ^ 24" using assms by simp
  qed
  have mo: "\<lfloor>dmul (of_int ?t) (of_int (10000 - slip) / 10 ^ 4)\<rfloor> = ?t * (10000 - slip) div 10000"
    using assms t by (intro leg_min_out_exact)
  have nonneg: "0 \<le> ?t * (10000 - slip) div 10000" using assms t by (simp add: pos_imp_zdiv_nonneg_iff)
  obtain legs where "build_legs_from (idx + 1) f expected (of_int (10000 - slip) / 10 ^ 4) lfs = Inr legs"
    "map leg_fraction_bps legs = lfs" "\<forall>l \<in> set legs. leg_private l \<and>
      min_out_base l = expected * leg_fraction_bps l div f * (10000 - slip) div 10000"
    using Cons.IH [of "idx + 1"] Cons.prems by auto
  then show ?case using Cons.prems assms(6) nonneg
    unfolding build_legs_from.simps(2) Let_def mo by (simp add: mk_ExitLeg_def)
qed simp

lemma times_div_le: "0 < b \<Longrightarrow> b * (a div b) \<le> a" for a b :: int
  by (simp add: minus_mod_eq_mult_div [symmetric])

lemma div_le_self: "0 \<le> a \<Longrightarrow> 1 \<le> b \<Longrightarrow> a div b \<le> a" for a b :: int
  using zdiv_mono2 [of a 1 b] by simp

lemma leg_floor_bound:
  fixes slip expected f x :: int
  assumes "0 \<le> slip" and "slip < 10000" and "0 < expected" and "0 < f" and "0 \<le> x"
  shows "10000 * f * (expected * x div f * (10000 - slip) div 10000) \<le> expected * (10000 - slip) * x"
proof -
  have "10000 * (expected * x div f * (10000 - slip) div 10000) \<le> expected * x div f * (10000 - slip)"
    by (rule times_div_le) simp
  then have "f * (10000 * (expected * x div f * (10000 - slip) div 10000)) \<le> f * (expected * x div f * (10000 - slip))"
    using assms by (intro mult_left_mono) simp_all
  also have "\<dots> = (f * (expected * x div f)) * (10000 - slip)" by simp
  also have "\<dots> \<le> (expected * x) * (10000 - slip)"
    using assms times_div_le by (intro mult_right_mono) simp_all
  finally show ?thesis by (simp add: ac_simps)
qed

lemma sum_leg_floors:
  fixes x :: "'a \<Rightarrow> int"
  shows "\<forall>l \<in> set ls. k * y l \<le> c * x l \<Longrightarrow> k * sum_list (map y ls) \<le> c * sum_list (map x ls)"
  by (induction ls) (auto simp: distrib_left intro: add_mono)

lemma leg_count_bounds:
  assumes "mk_ExitProtectionPlanner pl = Inr pl'"
  shows "1 \<le> leg_count pl pool" and "leg_count pl pool \<le> max_legs pl"
  using assms by (auto simp: leg_count_def Let_def mk_ExitProtectionPlanner_def split: if_splits)

lemma mode_sandwich: "0 \<le> sandwich_p_bps (slippage_model_for mode)" "sandwich_p_bps (slippage_model_for mode) \<le> 3000"
  "sandwich_p_bps (slippage_model_for Fast) = 3000"
  by (simp_all add: slippage_model_for_def)

text \<open>
  C36. A split exit sells exactly what was decided. With valid inputs the planner always returns a plan:
  between one and \<open>max_legs\<close> private legs whose fractions differ by at most one basis point and sum to
  the decided fraction, each with the floor of its share less the slippage bound, together asking for no
  more than the whole expectation less that bound, and with a modelled exposure of at most the mode's own
  and the fast baseline's. Invalid inputs raise \<open>ValueError\<close>.
\<close>

theorem split_exit_plan_exact:
  assumes "mk_ExitProtectionPlanner pl = Inr pl" and "expected \<le> 10 ^ 24"
  shows "if 1 \<le> f \<and> f \<le> 10000 \<and> 0 \<le> slip \<and> slip < 10000 \<and> 0 < expected
    then \<exists>p. plan_exit pl m f mode pool slip expected = Inr p \<and>
      sum_list (map leg_fraction_bps (sp_legs p)) = f \<and>
      1 \<le> length (sp_legs p) \<and> int (length (sp_legs p)) \<le> max_legs pl \<and>
      (\<forall>l \<in> set (sp_legs p). leg_private l \<and>
         f div int (length (sp_legs p)) \<le> leg_fraction_bps l \<and> leg_fraction_bps l \<le> f div int (length (sp_legs p)) + 1 \<and>
         min_out_base l = expected * leg_fraction_bps l div f * (10000 - slip) div 10000) \<and>
      10000 * sum_list (map min_out_base (sp_legs p)) \<le> expected * (10000 - slip) \<and>
      0 \<le> modeled_sandwich_p_bps p \<and> modeled_sandwich_p_bps p \<le> sandwich_p_bps (slippage_model_for mode) \<and>
      modeled_sandwich_p_bps p \<le> sandwich_p_bps (slippage_model_for Fast)
    else plan_exit pl m f mode pool slip expected = Inl ValueError"
proof (cases "1 \<le> f \<and> f \<le> 10000 \<and> 0 \<le> slip \<and> slip < 10000 \<and> 0 < expected")
  case True
  let ?n = "leg_count pl pool" and ?base = "sandwich_p_bps (slippage_model_for mode)"
  have n: "1 \<le> ?n" "?n \<le> max_legs pl" using leg_count_bounds [OF assms(1)] .
  obtain parts where parts: "split_bps_evenly f ?n = Inr parts" "int (length parts) = min ?n f" "sum_list parts = f"
    "\<forall>x \<in> set parts. (x = f div min ?n f \<or> x = f div min ?n f + 1) \<and> 1 \<le> x \<and> x \<le> f"
    using split_bps_evenly_exact [OF n(1)] True by blast
  obtain legs where legs: "build_legs parts f expected slip = Inr legs" "map leg_fraction_bps legs = parts"
    "\<forall>l \<in> set legs. leg_private l \<and> min_out_base l = expected * leg_fraction_bps l div f * (10000 - slip) div 10000"
    using build_legs_exact [of slip expected f parts 0] True assms(2) parts(4) leg_keep_exact [of slip]
    unfolding build_legs_def by auto
  have len: "length legs = length parts" using legs(2) length_map by metis
  have frac_in: "leg_fraction_bps l \<in> set parts" if "l \<in> set legs" for l using that legs(2) by (metis in_set_conv_nth length_map nth_map nth_mem)
  have p: "0 \<le> ?base div ?n" "?base div ?n \<le> ?base" "?base \<le> 3000"
    using n mode_sandwich(1,2) [of mode] by (simp_all add: pos_imp_zdiv_nonneg_iff div_le_self)
  have floors: "10000 * f * sum_list (map min_out_base legs) \<le> expected * (10000 - slip) * sum_list (map leg_fraction_bps legs)"
    using True legs(3) frac_in parts(4) by (intro sum_leg_floors) (fastforce intro!: leg_floor_bound)
  then have "f * (10000 * sum_list (map min_out_base legs)) \<le> f * (expected * (10000 - slip))"
    using legs(2) parts(3) by (simp add: ac_simps)
  then have "10000 * sum_list (map min_out_base legs) \<le> expected * (10000 - slip)"
    using True by (simp add: mult_le_cancel_left)
  moreover define p where "p = \<lparr>sp_mint = m, sp_mode = mode, total_fraction_bps = f, sp_legs = legs,
     modeled_sandwich_p_bps = min (?base div ?n) 3000, fast_baseline_sandwich_p_bps = 3000, sp_reason = Audit ''private split''
       (map of_int [?n, sell_fraction_of_pool_bps pool, slip, min (?base div ?n) 3000, 3000])\<rparr>"
  have "legs \<noteq> []" using len parts(2) n True by auto
  then have "mk_SplitExitPlan p = Inr p" using True p legs parts(3) by (simp add: mk_SplitExitPlan_def p_def)
  then have "plan_exit pl m f mode pool slip expected = Inr p"
    using True n parts(1) legs(1)
    by (simp add: plan_exit_def Let_def validate_exit_inputs_def modeled_split_sandwich_p_bps_def mode_sandwich(3) p_def)
  moreover have "\<forall>l \<in> set legs. f div int (length legs) \<le> leg_fraction_bps l \<and> leg_fraction_bps l \<le> f div int (length legs) + 1"
    using parts(2,4) len frac_in by fastforce
  moreover have "1 \<le> length legs" "int (length legs) \<le> max_legs pl" using \<open>legs \<noteq> []\<close> len parts(2) n
    by (auto simp: Suc_le_eq simp flip: length_greater_0_conv)
  ultimately show ?thesis
    using True legs parts(3) p mode_sandwich(3) by (simp add: p_def)
qed (auto simp: plan_exit_def validate_exit_inputs_def)

theorem split_exit_plan_exact_witness:
  "\<exists>p. plan_exit \<lparr>max_legs = 4, split_threshold_bps = 200\<rparr> ''m'' 5000 Secure
     \<lparr>quote_reserve_base = 1000, sell_notional_base = 50\<rparr> 100 999 = Inr p \<and>
     sum_list (map leg_fraction_bps (sp_legs p)) = 5000 \<and> 10000 * sum_list (map min_out_base (sp_legs p)) \<le> 999 * 9900"
proof -
  have "mk_ExitProtectionPlanner \<lparr>max_legs = 4, split_threshold_bps = 200\<rparr> = Inr \<lparr>max_legs = 4, split_threshold_bps = 200\<rparr>"
    by (simp add: mk_ExitProtectionPlanner_def)
  from split_exit_plan_exact [OF this, of 999 5000 100 "''m''" Secure "\<lparr>quote_reserve_base = 1000, sell_notional_base = 50\<rparr>"]
  show ?thesis by force
qed

text \<open>
  The modelled exposure divides by the planned number of legs, not by the number of legs that are built:
  an exit of one basis point from a thin pool is a single leg and is still credited with four.
\<close>

theorem tiny_exit_understates_exposure:
  "\<exists>p. plan_exit \<lparr>max_legs = 4, split_threshold_bps = 200\<rparr> m 1 Fast \<lparr>quote_reserve_base = 0, sell_notional_base = 1\<rparr> 0 1 = Inr p \<and>
     length (sp_legs p) = 1 \<and> modeled_sandwich_p_bps p = sandwich_p_bps (slippage_model_for Fast) div 4"
proof -
  have n: "leg_count \<lparr>max_legs = 4, split_threshold_bps = 200\<rparr> \<lparr>quote_reserve_base = 0, sell_notional_base = 1\<rparr> = 4"
    by (simp add: leg_count_def sell_fraction_of_pool_bps_def)
  have "build_legs [1] 1 1 0 = Inr [\<lparr>leg_index = 0, leg_fraction_bps = 1, min_out_base = 1, leg_private = True\<rparr>]"
    using leg_keep_exact [of 0] leg_min_out_exact [of 0 1] by (simp add: build_legs_def mk_ExitLeg_def)
  then show ?thesis using n
    by (simp add: plan_exit_def Let_def validate_exit_inputs_def split_bps_evenly_def modeled_split_sandwich_p_bps_def
        mode_sandwich(3) mk_SplitExitPlan_def)
qed

section \<open>Atomic buys\<close>

lemma dict_set_value: "v \<in> snd ` set (dict_set k v d)"
  by (induction k v d rule: dict_set.induct) auto

text \<open>
  A buy exists only if the bundle landed. Whatever was submitted before, a submission answers; without
  both live gates it never reaches the block engine and reports no buy; with them it reports a buy
  exactly when the engine did not drop the bundle and the buy received at least its minimum.
\<close>

theorem atomic_buy_flat_unless_landed:
  "\<exists>e' r. submit_atomic_buy mock_ops live env e b = (e', Inr r) \<and>
     (landed_buy r \<longleftrightarrow> live \<and> env \<and> \<not> mk_force_drop e \<and> min_tokens_out_base b \<le> mk_actual_tokens_out e) \<and>
     (landed_buy r \<longleftrightarrow> br_status r = LANDED) \<and>
     (if live \<and> env then mk_counter e' = mk_counter e + 1 \<and> b \<in> set (dict_values (mk_submitted e')) else e' = e)"
  by (cases live; cases env) (simp_all add: submit_atomic_buy_def submit_mode_def assert_live_allowed_def mock_ops_def
      mock_send_def mock_poll_def Let_def mk_BundleResult_def dict_set_value not_less)

section \<open>The ledger\<close>

lemma class_totals_partition:
  "internal_total_us tr + submission_rtt_us tr + leader_land_us tr = sum_list (map duration_us (spans tr))"
proof -
  have "sum_list (map duration_us (filter (\<lambda>s. span_class s = INTERNAL) ss)) +
      sum_list (map duration_us (filter (\<lambda>s. span_class s = SUBMISSION) ss)) +
      sum_list (map duration_us (filter (\<lambda>s. span_class s = LEADER_LAND) ss)) = sum_list (map duration_us ss)" for ss
    by (induction ss) (auto split: hop_class.splits intro: hop_class.exhaust)
  then show ?thesis by (simp add: internal_total_us_def submission_rtt_us_def leader_land_us_def class_total_us_def)
qed

lemma sorted_count_le: "sorted s \<Longrightarrow> i < length s \<Longrightarrow> Suc i \<le> length (filter (\<lambda>x. x \<le> s ! i) s)"
proof -
  assume s: "sorted s" "i < length s"
  have "x \<le> s ! i" if "x \<in> set (take (Suc i) s)" for x
    using that s by (auto simp: in_set_conv_nth sorted_iff_nth_mono)
  then have "filter (\<lambda>x. x \<le> s ! i) (take (Suc i) s) = take (Suc i) s" by (simp add: filter_id_conv)
  moreover have "filter P s = filter P (take (Suc i) s) @ filter P (drop (Suc i) s)" for P
    by (metis append_take_drop_id filter_append)
  ultimately show ?thesis using s(2) by simp
qed

lemma sorted_count_less: "sorted s \<Longrightarrow> i < length s \<Longrightarrow> length (filter (\<lambda>x. x < s ! i) s) \<le> i"
proof -
  assume s: "sorted s" "i < length s"
  have "\<not> x < s ! i" if "x \<in> set (drop i s)" for x
    using that s by (auto simp: in_set_conv_nth sorted_iff_nth_mono not_less)
  then have "filter (\<lambda>x. x < s ! i) (drop i s) = []" by (simp add: filter_empty_conv)
  moreover have "filter P s = filter P (take i s) @ filter P (drop i s)" for P
    by (metis append_take_drop_id filter_append)
  ultimately have "length (filter (\<lambda>x. x < s ! i) s) \<le> length (take i s)" by (metis append_Nil2 length_filter_le)
  then show ?thesis by simp
qed

lemma length_filter_sort: "length (filter P (sort xs)) = length (filter P xs)"
  by (simp add: filter_sort)

text \<open>
  The percentiles of the latency ledger are nearest-rank percentiles: of a non-empty sample the value
  reported for a percentage is one of the samples, at least that share of the samples is at most the
  value, and less than that share lies strictly below it.
\<close>

theorem pctl_nearest_rank:
  assumes "xs \<noteq> []" and "0 < pct" and "pct \<le> 100"
  shows "pctl_us xs pct \<in> set xs \<and>
    pct * int (length xs) \<le> 100 * int (length (filter (\<lambda>x. x \<le> pctl_us xs pct) xs)) \<and>
    100 * int (length (filter (\<lambda>x. x < pctl_us xs pct) xs)) < pct * int (length xs)"
proof -
  define n where "n = int (length xs)"
  define rank where "rank = (pct * n + 99) div 100"
  define i where "i = nat (rank - 1)"
  have n: "0 < n" using assms(1) by (simp add: n_def)
  define q where "q = pct * n"
  have q: "0 < q" "q \<le> 100 * n" using assms n mult_right_mono [of pct 100 n] by (simp_all add: q_def)
  have "100 * rank \<le> q + 99" "q + 99 < 100 * rank + 100"
    unfolding rank_def q_def by (simp_all add: times_div_le)
  with q have "1 \<le> rank" "rank \<le> n" "q \<le> 100 * rank" "100 * (rank - 1) < q" by simp_all
  then have rank: "1 \<le> rank" "rank \<le> n" "pct * n \<le> 100 * rank" "100 * (rank - 1) < pct * n"
    by (simp_all add: q_def)
  have v: "pctl_us xs pct = sort xs ! i" and i: "i < length (sort xs)" "int i = rank - 1"
    using assms(1) rank by (simp_all add: pctl_us_def Let_def i_def n_def [symmetric] rank_def [symmetric] nat_less_iff)
  have "Suc i \<le> length (filter (\<lambda>x. x \<le> pctl_us xs pct) xs)" "length (filter (\<lambda>x. x < pctl_us xs pct) xs) \<le> i"
    using sorted_count_le [OF sorted_sort i(1)] sorted_count_less [OF sorted_sort i(1)]
    by (simp_all only: v length_filter_sort)
  moreover have "pctl_us xs pct \<in> set xs" using i(1) v nth_mem [OF i(1)] by simp
  ultimately show ?thesis using rank i(2) unfolding n_def by simp
qed

theorem pctl_nearest_rank_witness: "pctl_us [30, 10, 20] 95 \<in> {10, 20, 30}"
  using pctl_nearest_rank [of "[30, 10, 20]" 95] by auto

text \<open>
  A trace built hop by hop carries every hop with its own class and its three totals add up to the time of
  all its hops; recording it never fails and appends, for every hop of the ledger, exactly the durations
  the trace has for it.
\<close>

definition trace_ok :: "latency_trace \<Rightarrow> bool" where
  "trace_ok tr \<longleftrightarrow> (\<forall>s \<in> set (spans tr). map_of HOP_CLASS (hop_name s) = Some (span_class s) \<and> 0 \<le> duration_us s)"

definition hop_durations :: "string \<Rightarrow> hop_span list \<Rightarrow> int list" where
  "hop_durations h ss = map duration_us (filter (\<lambda>s. hop_name s = h) ss)"

definition tracer_ok :: "latency_tracer \<Rightarrow> bool" where
  "tracer_ok t \<longleftrightarrow> (\<forall>h c. map_of HOP_CLASS h = Some c \<longrightarrow> (\<exists>xs. map_of (samples t) h = Some xs))"

lemma add_hop_ok: "trace_ok tr \<Longrightarrow> add_hop tr h us = Inr tr' \<Longrightarrow> trace_ok tr'"
  by (auto simp: add_hop_def trace_ok_def split: option.splits if_splits)

lemma new_tracer_ok: "tracer_ok new_LatencyTracer"
  by (auto simp: tracer_ok_def new_LatencyTracer_def HOP_CLASS_def split: if_splits)

lemma fold_spans_total:
  assumes "\<forall>s \<in> set ss. \<exists>xs. map_of d (hop_name s) = Some xs"
  shows "\<exists>d'. fold_spans d ss = (d', Inr ()) \<and> (\<forall>h. map_of d' h = map_option (\<lambda>xs. xs @ hop_durations h ss) (map_of d h))"
  using assms
proof (induction ss arbitrary: d)
  case (Cons s ss)
  then obtain xs where xs: "map_of d (hop_name s) = Some xs" by auto
  let ?d = "dict_set (hop_name s) (xs @ [duration_us s]) d"
  have "\<forall>s' \<in> set ss. \<exists>ys. map_of ?d (hop_name s') = Some ys" using Cons.prems by simp
  from Cons.IH [OF this] obtain d' where "fold_spans ?d ss = (d', Inr ())"
    "\<forall>h. map_of d' h = map_option (\<lambda>xs. xs @ hop_durations h ss) (map_of ?d h)" by blast
  then show ?case using xs by (auto simp: hop_durations_def)
qed (simp add: hop_durations_def option.map_ident)

theorem ledger_records_every_hop:
  assumes "tracer_ok t" and "trace_ok tr"
  shows "\<exists>t'. tracer_record t tr = (t', Inr ()) \<and> tracer_ok t' \<and>
    (\<forall>h. map_of (samples t') h = map_option (\<lambda>xs. xs @ hop_durations h (spans tr)) (map_of (samples t) h)) \<and>
    internal_totals_us t' = internal_totals_us t @ [internal_total_us tr] \<and>
    internal_total_us tr + submission_rtt_us tr + leader_land_us tr = sum_list (map duration_us (spans tr))"
proof -
  have "\<forall>s \<in> set (spans tr). \<exists>xs. map_of (samples t) (hop_name s) = Some xs"
    using assms by (auto simp: tracer_ok_def trace_ok_def)
  from fold_spans_total [OF this] obtain d' where d': "fold_spans (samples t) (spans tr) = (d', Inr ())"
    "\<forall>h. map_of d' h = map_option (\<lambda>xs. xs @ hop_durations h (spans tr)) (map_of (samples t) h)" by blast
  then show ?thesis using assms(1) class_totals_partition
    by (auto simp: tracer_record_def tracer_ok_def)
qed

theorem ledger_records_every_hop_witness:
  "\<exists>t'. tracer_record new_LatencyTracer \<lparr>lt_event_slot = 1, lt_event_block_time_ms = 1, lt_wall_clock_ms = 1,
      spans = [\<lparr>hop_name = ''decode'', span_class = INTERNAL, duration_us = 5\<rparr>]\<rparr> = (t', Inr ()) \<and>
    map_of (samples t') ''decode'' = Some [5]"
  using ledger_records_every_hop [OF new_tracer_ok, of "\<lparr>lt_event_slot = 1, lt_event_block_time_ms = 1, lt_wall_clock_ms = 1,
      spans = [\<lparr>hop_name = ''decode'', span_class = INTERNAL, duration_us = 5\<rparr>]\<rparr>"]
  by (auto simp: trace_ok_def HOP_CLASS_def hop_durations_def new_LatencyTracer_def)

end
