(* ===== verification/Multi_Wallet.thy ===== *)
theory Multi_Wallet
  imports Contracts Rounding
begin

text \<open>
  Execution over several wallets (\<open>execution/multi_wallet.py\<close>): the ledger that caps what one mint may
  receive, the orchestrator that splits an entry over its wallet slots, the aggregation of their fills and
  the reconciler. The venue is a parameter: a function from a slot's intent and the event to a fill or an
  exception. A slot's identifier is the entry's with the slot's suffix.
\<close>

section \<open>Definitions\<close>

datatype mw_exc =
    AntiClusterCapExceeded mint lamports lamports lamports
  | MultiWalletConfigError
  | Mw_raised py_exc

text \<open>A fill as the venue returns it to a slot, with the tip and the priority fee it paid.\<close>

record slot_fill_result = fill_result +
  fl_tip_lamports :: lamports
  fl_priority_lamports :: lamports

record wallet_slot_fill =
  ws_wallet_id :: string
  ws_intent_id :: client_id
  ws_fill :: slot_fill_result
  sol_allocated_lamports :: lamports

record bundle_fill_result =
  wallet_fills :: "wallet_slot_fill list"
  any_landed :: bool
  total_tokens_out :: int
  total_sol_spent_lamports :: lamports
  total_tip_lamports :: lamports
  total_priority_lamports :: lamports
  partial_fill :: bool
  aggregate_effective_price :: decimal

subsection \<open>The ledger\<close>

record exposure_ledger =
  xl_cap :: lamports
  xl_exposure :: "(mint \<times> lamports) list"

definition mk_MintExposureLedger :: "lamports \<Rightarrow> mw_exc + exposure_ledger" where
  "mk_MintExposureLedger cap =
     (if cap \<le> 0 then Inl MultiWalletConfigError else Inr \<lparr>xl_cap = cap, xl_exposure = []\<rparr>)"

definition get_exposure :: "exposure_ledger \<Rightarrow> mint \<Rightarrow> lamports" where
  "get_exposure l m = (case map_of (xl_exposure l) m of None \<Rightarrow> 0 | Some x \<Rightarrow> x)"

definition check_and_reserve :: "exposure_ledger \<Rightarrow> mint \<Rightarrow> lamports \<Rightarrow> mw_exc + exposure_ledger" where
  "check_and_reserve l m sol =
     (let current = get_exposure l m; proposed = current + sol in
      if proposed > xl_cap l then Inl (AntiClusterCapExceeded m sol current (xl_cap l))
      else Inr (l\<lparr>xl_exposure := dict_set m proposed (xl_exposure l)\<rparr>))"

definition ledger_release :: "exposure_ledger \<Rightarrow> mint \<Rightarrow> lamports \<Rightarrow> exposure_ledger" where
  "ledger_release l m sol = l\<lparr>xl_exposure := dict_set m (max 0 (get_exposure l m - sol)) (xl_exposure l)\<rparr>"

definition ledger_reset_mint :: "exposure_ledger \<Rightarrow> mint \<Rightarrow> exposure_ledger" where
  "ledger_reset_mint l m = l\<lparr>xl_exposure := dict_pop m (xl_exposure l)\<rparr>"

subsection \<open>The orchestrator\<close>

definition N_WALLETS_MAX_DEFAULT :: int where "N_WALLETS_MAX_DEFAULT = 1"
definition N_WALLETS_MAX_HARD_CEILING :: int where "N_WALLETS_MAX_HARD_CEILING = 5"

text \<open>
  The environment enters as two readings: whether more wallets are enabled, and the outcome of reading the
  configured number as an integer.
\<close>

definition resolve_n_max :: "int option \<Rightarrow> bool \<Rightarrow> int option \<Rightarrow> mw_exc + int" where
  "resolve_n_max override enabled configured =
     (let checked = (\<lambda>n. if n < 1 then Inl MultiWalletConfigError
                         else if n > N_WALLETS_MAX_HARD_CEILING then Inl MultiWalletConfigError
                         else Inr n) in
      case override of
        Some n \<Rightarrow> checked n
      | None \<Rightarrow>
          if \<not> enabled then Inr N_WALLETS_MAX_DEFAULT
          else (case configured of None \<Rightarrow> Inl MultiWalletConfigError | Some n \<Rightarrow> checked n))"

definition signer_wallet_aligned :: "string option \<Rightarrow> string list \<Rightarrow> bool" where
  "signer_wallet_aligned provisioned wallets =
     (case provisioned of None \<Rightarrow> True | Some w \<Rightarrow> w = [] \<or> w \<in> set wallets)"

record wallet_orchestrator =
  mw_wallet_ids :: "string list"
  mw_ledger :: exposure_ledger
  mw_n_max :: int

definition mk_MultiWalletOrchestrator ::
  "string list \<Rightarrow> exposure_ledger \<Rightarrow> int option \<Rightarrow> bool \<Rightarrow> int option \<Rightarrow> string option \<Rightarrow> mw_exc + wallet_orchestrator" where
  "mk_MultiWalletOrchestrator wallets ledger override enabled configured provisioned =
     (case resolve_n_max override enabled configured of
        Inl e \<Rightarrow> Inl e
      | Inr n_max \<Rightarrow>
          if wallets = [] then Inl MultiWalletConfigError
          else if int (length wallets) > n_max then Inl MultiWalletConfigError
          else if \<not> distinct wallets then Inl MultiWalletConfigError
          else if \<not> signer_wallet_aligned provisioned wallets then Inl MultiWalletConfigError
          else Inr \<lparr>mw_wallet_ids = wallets, mw_ledger = ledger, mw_n_max = n_max\<rparr>)"

definition slot_sols :: "lamports \<Rightarrow> nat \<Rightarrow> lamports list" where
  "slot_sols total_sol n =
     (let base_sol = total_sol div int n; remainder = total_sol - base_sol * int n in
      map (\<lambda>i. if i = n - 1 then base_sol + remainder else base_sol) [0..<n])"

fun slot_intent_id :: "client_id \<Rightarrow> nat \<Rightarrow> client_id" where
  "slot_intent_id (Cid kind m args) i = Cid (kind @ '':w'' @ str_nat i) m args"

definition derive_slot_intent :: "entry_intent \<Rightarrow> string \<Rightarrow> lamports \<Rightarrow> client_id \<Rightarrow> entry_intent result" where
  "derive_slot_intent base wallet sol sid =
     rbind (mk_CostStack (en_cost_stack base)) (\<lambda>stack.
     mk_EntryIntent \<lparr>en_client_intent_id = sid, en_mint = en_mint base, en_event_time = en_event_time base,
       en_sol_in_lamports = sol, en_slippage_bps = en_slippage_bps base, en_tip_lamports = en_tip_lamports base,
       en_cu_price_microlamports = en_cu_price_microlamports base, en_target_slot = en_target_slot base,
       en_cost_stack = stack, en_venue = en_venue base, en_wallet_id = wallet\<rparr>)"

fun exc_name :: "py_exc \<Rightarrow> string" where
  "exc_name ValueError = ''ValueError''"
| "exc_name TypeError = ''TypeError''"
| "exc_name KeyError = ''KeyError''"
| "exc_name AssertionError = ''AssertionError''"
| "exc_name PermissionError = ''PermissionError''"
| "exc_name BreakerNotTripped = ''BreakerNotTripped''"
| "exc_name DivisionByZero = ''ZeroDivisionError''"
| "exc_name AttributeError = ''AttributeError''"
| "exc_name IndexError = ''IndexError''"
| "exc_name RuntimeError = ''RuntimeError''"

definition slot_exception :: "py_exc \<Rightarrow> slot_fill_result" where
  "slot_exception e =
     \<lparr>landed = False, fl_reason = ''slot_exception:'' @ exc_name e, tokens_out = 0, effective_price = 0,
      fl_entry_slippage_bps = 0, fl_tip_lamports = 0, fl_priority_lamports = 0\<rparr>"

type_synonym slot_venue = "entry_intent \<Rightarrow> launch_event \<Rightarrow> slot_fill_result result"

text \<open>
  The loop over the slots returns the fills and the intents handed to the venue; an exception of a slot's
  own construction leaves the loop, one of the venue is a failed fill.
\<close>

fun run_slots ::
  "slot_venue \<Rightarrow> entry_intent \<Rightarrow> launch_event \<Rightarrow> nat \<Rightarrow> (string \<times> lamports) list \<Rightarrow>
   wallet_slot_fill list result \<times> entry_intent list" where
  "run_slots execute base ev i [] = (Inr [], [])"
| "run_slots execute base ev i ((wallet, sol) # slots) =
     (case derive_slot_intent base wallet sol (slot_intent_id (en_client_intent_id base) i) of
        Inl e \<Rightarrow> (Inl e, [])
      | Inr intent \<Rightarrow>
          (case run_slots execute base ev (Suc i) slots of (rest, sent) \<Rightarrow>
            (rbind rest (\<lambda>fills. Inr
               (\<lparr>ws_wallet_id = wallet, ws_intent_id = slot_intent_id (en_client_intent_id base) i,
                 ws_fill = (case execute intent ev of Inl e \<Rightarrow> slot_exception e | Inr fill \<Rightarrow> fill),
                 sol_allocated_lamports = sol\<rparr> # fills)),
             intent # sent)))"

definition aggregate_fills :: "wallet_slot_fill list \<Rightarrow> bundle_fill_result" where
  "aggregate_fills fills =
     (let hits = filter (\<lambda>s. landed (ws_fill s)) fills;
          tokens = sum_list (map (\<lambda>s. tokens_out (ws_fill s)) hits);
          sol = sum_list (map sol_allocated_lamports hits) in
      \<lparr>wallet_fills = fills, any_landed = (hits \<noteq> []), total_tokens_out = tokens, total_sol_spent_lamports = sol,
       total_tip_lamports = sum_list (map (\<lambda>s. fl_tip_lamports (ws_fill s)) hits),
       total_priority_lamports = sum_list (map (\<lambda>s. fl_priority_lamports (ws_fill s)) hits),
       partial_fill = (hits \<noteq> [] \<and> length hits < length fills),
       aggregate_effective_price = (if 0 < tokens \<and> 0 < sol then ddiv (of_int sol) (of_int tokens) else 0)\<rparr>)"

definition execute_bundle ::
  "slot_venue \<Rightarrow> wallet_orchestrator \<Rightarrow> entry_intent \<Rightarrow> launch_event \<Rightarrow>
   wallet_orchestrator \<times> (mw_exc + bundle_fill_result) \<times> entry_intent list" where
  "execute_bundle execute w intent ev =
     (let m = en_mint intent; sol_total = en_sol_in_lamports intent; n = length (mw_wallet_ids w) in
      case check_and_reserve (mw_ledger w) m sol_total of
        Inl e \<Rightarrow> (w, Inl e, [])
      | Inr ledger \<Rightarrow>
          let w' = w\<lparr>mw_ledger := ledger\<rparr>;
              released = w'\<lparr>mw_ledger := ledger_release ledger m sol_total\<rparr>;
              sols = slot_sols sol_total n in
          if n = 0 then (released, Inl (Mw_raised DivisionByZero), [])
          else if sum_list sols \<noteq> sol_total then (released, Inl (Mw_raised AssertionError), [])
          else (case run_slots execute intent ev 0 (zip (mw_wallet_ids w) sols) of
              (Inl e, sent) \<Rightarrow> (released, Inl (Mw_raised e), sent)
            | (Inr fills, sent) \<Rightarrow> (w', Inr (aggregate_fills fills), sent)))"

subsection \<open>Reconciling partial fills\<close>

record partial_fill_summary =
  landed_slots :: nat
  total_slots :: nat
  net_sol_spent_lamports :: lamports
  tokens_received :: int
  partial_fill_ratio_bps :: bps
  pf_total_tip_lamports :: lamports
  pf_total_priority_lamports :: lamports
  pf_effective_price :: decimal
  is_partial_fill :: bool

definition partial_reconcile :: "bundle_fill_result \<Rightarrow> int \<Rightarrow> partial_fill_summary" where
  "partial_reconcile bundle expected =
     (let hits = filter (\<lambda>s. landed (ws_fill s)) (wallet_fills bundle); tokens = total_tokens_out bundle in
      \<lparr>landed_slots = length hits, total_slots = length (wallet_fills bundle),
       net_sol_spent_lamports = sum_list (map sol_allocated_lamports hits), tokens_received = tokens,
       partial_fill_ratio_bps =
         (if 0 < expected \<and> 0 \<le> tokens then max 0 (min 10000 (tokens * 10000 div expected)) else 0),
       pf_total_tip_lamports = total_tip_lamports bundle,
       pf_total_priority_lamports = total_priority_lamports bundle,
       pf_effective_price = aggregate_effective_price bundle, is_partial_fill = partial_fill bundle\<rparr>)"

definition make_single_wallet_orchestrator ::
  "string \<Rightarrow> int option \<Rightarrow> int option \<Rightarrow> string option \<Rightarrow> mw_exc + wallet_orchestrator" where
  "make_single_wallet_orchestrator wallet cap_override cap_configured provisioned =
     (case (case cap_override of Some c \<Rightarrow> Some c | None \<Rightarrow> cap_configured) of
        None \<Rightarrow> Inl MultiWalletConfigError
      | Some cap \<Rightarrow>
          (case mk_MintExposureLedger cap of
             Inl e \<Rightarrow> Inl e
           | Inr ledger \<Rightarrow>
               mk_MultiWalletOrchestrator [wallet] ledger (Some N_WALLETS_MAX_DEFAULT) False None provisioned))"

section \<open>Splitting an entry\<close>

lemma slot_sols_exact:
  assumes "0 < n"
  shows "length (slot_sols t n) = n" and "sum_list (slot_sols t n) = t" and "0 \<le> t \<Longrightarrow> \<forall>x \<in> set (slot_sols t n). 0 \<le> x"
proof -
  obtain k where n: "n = Suc k" using assms gr0_implies_Suc by blast
  have "map (\<lambda>i. if i = k then a else b) [0..<k] = replicate k b" for a b :: int
    by (intro nth_equalityI) auto
  then have split: "slot_sols t n = replicate k (t div int n) @ [t div int n + (t - t div int n * int n)]"
    by (simp add: slot_sols_def Let_def n)
  show "length (slot_sols t n) = n" unfolding split by (simp add: n)
  show "sum_list (slot_sols t n) = t"
    unfolding split by (simp add: sum_list_replicate n algebra_simps)
  show "\<forall>x \<in> set (slot_sols t n). 0 \<le> x" if "0 \<le> t" using that assms
    unfolding split minus_div_mult_eq_mod by (auto simp: pos_imp_zdiv_nonneg_iff)
qed

definition intent_ok :: "entry_intent \<Rightarrow> bool" where
  "intent_ok i \<longleftrightarrow> mk_CostStack (en_cost_stack i) = Inr (en_cost_stack i) \<and> mk_EntryIntent i = Inr i \<and> 0 \<le> en_sol_in_lamports i"

lemma derive_slot_intent_ok:
  assumes "intent_ok base"
  shows "derive_slot_intent base wallet sol sid =
    Inr (base\<lparr>en_client_intent_id := sid, en_sol_in_lamports := sol, en_wallet_id := wallet\<rparr>)"
  using assms by (auto simp: derive_slot_intent_def intent_ok_def mk_EntryIntent_def split: if_splits)

lemma run_slots_ok:
  assumes "intent_ok base"
  shows "\<exists>fills sent. run_slots execute base ev i slots = (Inr fills, sent) \<and>
    map sol_allocated_lamports fills = map snd slots \<and> map ws_wallet_id fills = map fst slots \<and>
    map en_sol_in_lamports sent = map snd slots \<and> map en_wallet_id sent = map fst slots \<and>
    (\<forall>x \<in> set sent. en_mint x = en_mint base)"
proof (induction slots arbitrary: i)
  case (Cons slot slots)
  obtain wallet sol where "slot = (wallet, sol)" by fastforce
  then show ?case using Cons [of "Suc i"] derive_slot_intent_ok [OF assms] by auto
qed simp

lemma execute_bundle_cases:
  assumes "intent_ok i" and "mw_wallet_ids w \<noteq> []"
  shows "if xl_cap (mw_ledger w) < get_exposure (mw_ledger w) (en_mint i) + en_sol_in_lamports i
    then execute_bundle execute w i ev = (w, Inl (AntiClusterCapExceeded (en_mint i) (en_sol_in_lamports i)
           (get_exposure (mw_ledger w) (en_mint i)) (xl_cap (mw_ledger w))), [])
    else \<exists>fills sent. execute_bundle execute w i ev =
        (w\<lparr>mw_ledger := (mw_ledger w)\<lparr>xl_exposure := dict_set (en_mint i)
            (get_exposure (mw_ledger w) (en_mint i) + en_sol_in_lamports i) (xl_exposure (mw_ledger w))\<rparr>\<rparr>,
         Inr (aggregate_fills fills), sent) \<and>
      map sol_allocated_lamports fills = slot_sols (en_sol_in_lamports i) (length (mw_wallet_ids w)) \<and>
      map ws_wallet_id fills = mw_wallet_ids w \<and>
      map en_sol_in_lamports sent = slot_sols (en_sol_in_lamports i) (length (mw_wallet_ids w)) \<and>
      map en_wallet_id sent = mw_wallet_ids w \<and> (\<forall>x \<in> set sent. en_mint x = en_mint i)"
proof -
  let ?sols = "slot_sols (en_sol_in_lamports i) (length (mw_wallet_ids w))"
  have n: "0 < length (mw_wallet_ids w)" using assms(2) by simp
  obtain fills sent where "run_slots execute i ev 0 (zip (mw_wallet_ids w) ?sols) = (Inr fills, sent)"
    "map sol_allocated_lamports fills = ?sols" "map ws_wallet_id fills = mw_wallet_ids w"
    "map en_sol_in_lamports sent = ?sols" "map en_wallet_id sent = mw_wallet_ids w" "\<forall>x \<in> set sent. en_mint x = en_mint i"
    using run_slots_ok [OF assms(1), of execute ev 0 "zip (mw_wallet_ids w) ?sols"] slot_sols_exact(1) [OF n] by auto
  then show ?thesis
    using assms(2) slot_sols_exact(2) [OF n] by (auto simp: execute_bundle_def check_and_reserve_def Let_def)
qed

text \<open>The identifiers of the slots differ, so a retry cannot land a slot twice under another's name.\<close>

lemma slot_intent_id_inj: "slot_intent_id c i = slot_intent_id c j \<longleftrightarrow> i = j"
  by (cases c) (auto dest: arg_cong [where f = num_of] simp: num_of_str_nat)

section \<open>The cap over a run\<close>

text \<open>
  A run of the orchestrator: entries, and positions that are closed, whose mint is then reset in the
  ledger. What is outstanding are the intents handed to the venue for mints not closed since.
\<close>

datatype mw_event = Enter_bundle entry_intent launch_event | Mint_closed mint

fun mw_step :: "slot_venue \<Rightarrow> wallet_orchestrator \<times> entry_intent list \<Rightarrow> mw_event \<Rightarrow> wallet_orchestrator \<times> entry_intent list" where
  "mw_step execute (w, out) (Enter_bundle i ev) =
     (case execute_bundle execute w i ev of (w', _, sent) \<Rightarrow> (w', out @ sent))"
| "mw_step execute (w, out) (Mint_closed m) =
     (w\<lparr>mw_ledger := ledger_reset_mint (mw_ledger w) m\<rparr>, filter (\<lambda>i. en_mint i \<noteq> m) out)"

definition sol_for :: "mint \<Rightarrow> entry_intent list \<Rightarrow> lamports" where
  "sol_for m is = sum_list (map en_sol_in_lamports (filter (\<lambda>i. en_mint i = m) is))"

definition outstanding_ok :: "lamports \<Rightarrow> wallet_orchestrator \<times> entry_intent list \<Rightarrow> bool" where
  "outstanding_ok cap = (\<lambda>(w, out). mw_wallet_ids w \<noteq> [] \<and> xl_cap (mw_ledger w) = cap \<and>
     (\<forall>m. get_exposure (mw_ledger w) m = sol_for m out \<and> sol_for m out \<le> cap))"

lemma sol_for_append: "sol_for m (xs @ ys) = sol_for m xs + sol_for m ys"
  by (simp add: sol_for_def)

lemma get_exposure_set: "get_exposure (l\<lparr>xl_exposure := dict_set m x (xl_exposure l)\<rparr>) m' = (if m' = m then x else get_exposure l m')"
  by (simp add: get_exposure_def)

lemma mw_step_ok:
  assumes "outstanding_ok cap s" and "0 \<le> cap" and "case e of Enter_bundle i ev \<Rightarrow> intent_ok i | Mint_closed m \<Rightarrow> True"
  shows "outstanding_ok cap (mw_step execute s e)"
proof (cases e)
  case (Enter_bundle i ev)
  obtain w out where s: "s = (w, out)" by fastforce
  have ok: "intent_ok i" "mw_wallet_ids w \<noteq> []" using assms Enter_bundle s by (auto simp: outstanding_ok_def)
  then have n: "0 < length (mw_wallet_ids w)" by simp
  show ?thesis
  proof (cases "xl_cap (mw_ledger w) < get_exposure (mw_ledger w) (en_mint i) + en_sol_in_lamports i")
    case True
    then show ?thesis using execute_bundle_cases [OF ok, of execute ev] assms(1) Enter_bundle s by simp
  next
    case False
    then obtain fills sent where run: "execute_bundle execute w i ev =
        (w\<lparr>mw_ledger := (mw_ledger w)\<lparr>xl_exposure := dict_set (en_mint i)
            (get_exposure (mw_ledger w) (en_mint i) + en_sol_in_lamports i) (xl_exposure (mw_ledger w))\<rparr>\<rparr>,
         Inr (aggregate_fills fills), sent)"
      "map en_sol_in_lamports sent = slot_sols (en_sol_in_lamports i) (length (mw_wallet_ids w))"
      "\<forall>x \<in> set sent. en_mint x = en_mint i"
      using execute_bundle_cases [OF ok, of execute ev] by auto
    then have "sol_for m sent = (if m = en_mint i then en_sol_in_lamports i else 0)" for m
      using slot_sols_exact(2) [OF n, of "en_sol_in_lamports i"] by (auto simp: sol_for_def filter_id_conv [THEN iffD2] filter_empty_conv [THEN iffD2])
    then show ?thesis using run assms(1) False Enter_bundle s
      by (auto simp: outstanding_ok_def sol_for_append get_exposure_set)
  qed
next
  case (Mint_closed m)
  have "sol_for m' (filter (\<lambda>i. en_mint i \<noteq> m) out) = (if m' = m then 0 else sol_for m' out)" for m' out
    by (auto simp: sol_for_def intro!: arg_cong [where f = sum_list] arg_cong [where f = "map _"] filter_cong)
  then show ?thesis using assms(1,2) Mint_closed
    by (cases s) (auto simp: outstanding_ok_def ledger_reset_mint_def get_exposure_def)
qed

text \<open>
  C20. The blast radius of one mint. From a fresh orchestrator, over any run of validated entries and closed
  positions and whatever the venue answers, the amounts handed to the venue for a mint since it was last
  closed, summed over all wallets, never exceed the cap, and the ledger shows exactly that sum.
\<close>

theorem outstanding_within_mint_cap:
  assumes "mk_MintExposureLedger cap = Inr ledger"
    and "mk_MultiWalletOrchestrator wallets ledger override enabled configured provisioned = Inr w"
    and "\<forall>e \<in> set es. case e of Enter_bundle i ev \<Rightarrow> intent_ok i | Mint_closed m \<Rightarrow> True"
    and "foldl (mw_step execute) (w, []) es = (w', out)"
  shows "sol_for m out \<le> cap \<and> get_exposure (mw_ledger w') m = sol_for m out"
proof -
  have cap: "0 \<le> cap" "ledger = \<lparr>xl_cap = cap, xl_exposure = []\<rparr>"
    using assms(1) by (auto simp: mk_MintExposureLedger_def split: if_splits)
  have "outstanding_ok cap (w, [])"
    using assms(2) cap
    by (auto simp: outstanding_ok_def mk_MultiWalletOrchestrator_def sol_for_def get_exposure_def split: sum.splits if_splits)
  then have "outstanding_ok cap (foldl (mw_step execute) (w, []) es)"
    using assms(3)
  proof (induction es arbitrary: w rule: rev_induct)
    case (snoc e es)
    then show ?case using mw_step_ok [OF _ cap(1), of "foldl (mw_step execute) (w, []) es" e execute] by simp
  qed simp
  then show ?thesis using assms(4) by (simp add: outstanding_ok_def)
qed

definition demo_bundle_intent :: entry_intent where
  "demo_bundle_intent =
     \<lparr>en_client_intent_id = Cid ''entry'' ''m'' [1], en_mint = ''m'',
      en_event_time = \<lparr>slot = 1, block_time_ms = 1000, wall_clock_ms = 1000\<rparr>, en_sol_in_lamports = 70,
      en_slippage_bps = 100, en_tip_lamports = 1, en_cu_price_microlamports = 1, en_target_slot = 6,
      en_cost_stack = \<lparr>expected_edge_bps = 500, jito_tip_bps = 0, priority_fee_bps = 0, cs_entry_slippage_bps = 0,
        amm_fee_bps = 0, exit_slippage_bps = 0, adverse_selection_bps = 150, total_cost_bps = 150\<rparr>,
      en_venue = ''pump'', en_wallet_id = ''wallet-0''\<rparr>"

definition demo_launch :: launch_event where
  "demo_launch = \<lparr>le_mint = ''m'', le_event_time = \<lparr>slot = 1, block_time_ms = 1000, wall_clock_ms = 1000\<rparr>,
     sol_reserve_lamports = 1, token_reserve_base = 1, data_staleness_ms = 0\<rparr>"

definition demo_wallets :: wallet_orchestrator where
  "demo_wallets = \<lparr>mw_wallet_ids = [''a'', ''b'', ''c''], mw_ledger = \<lparr>xl_cap = 100, xl_exposure = []\<rparr>, mw_n_max = 3\<rparr>"

lemma demo_bundle_ok: "intent_ok demo_bundle_intent" "en_mint demo_bundle_intent = ''m''"
  "en_sol_in_lamports demo_bundle_intent = 70"
  by (simp_all add: intent_ok_def demo_bundle_intent_def mk_CostStack_def mk_EntryIntent_def)

lemma demo_wallets_built:
  "mk_MintExposureLedger 100 = Inr \<lparr>xl_cap = 100, xl_exposure = []\<rparr>"
  "mk_MultiWalletOrchestrator [''a'', ''b'', ''c''] \<lparr>xl_cap = 100, xl_exposure = []\<rparr> (Some 3) False None None = Inr demo_wallets"
  by (simp_all add: mk_MintExposureLedger_def mk_MultiWalletOrchestrator_def resolve_n_max_def Let_def
      N_WALLETS_MAX_HARD_CEILING_def signer_wallet_aligned_def demo_wallets_def)

theorem outstanding_within_mint_cap_witness:
  "sol_for ''m'' (snd (foldl (mw_step (\<lambda>_ _. Inl RuntimeError)) (demo_wallets, [])
     [Enter_bundle demo_bundle_intent demo_launch, Mint_closed ''m'', Enter_bundle demo_bundle_intent demo_launch])) \<le> 100"
proof -
  let ?es = "[Enter_bundle demo_bundle_intent demo_launch, Mint_closed ''m'', Enter_bundle demo_bundle_intent demo_launch]"
  have "\<forall>e \<in> set ?es. case e of Enter_bundle i ev \<Rightarrow> intent_ok i | Mint_closed m \<Rightarrow> True" by (simp add: demo_bundle_ok)
  from outstanding_within_mint_cap [OF demo_wallets_built this surjective_pairing]
  show ?thesis by blast
qed

text \<open>
  A bundle is split exactly and accounted for exactly. A validated entry is refused, with nothing sent
  and nothing changed, exactly when it would take its mint over the cap. Otherwise every wallet receives
  one intent, the amounts sum to the entry's, the totals of the result are those of the landed slots, the
  reconciler reports the amount the landed slots spent, and its ratio is between 0 and 10000.
\<close>

theorem bundle_split_and_accounted:
  assumes "intent_ok i" and "mw_wallet_ids w \<noteq> []"
  shows "if xl_cap (mw_ledger w) < get_exposure (mw_ledger w) (en_mint i) + en_sol_in_lamports i
    then \<exists>e. execute_bundle execute w i ev = (w, Inl e, [])
    else \<exists>w' b sent. execute_bundle execute w i ev = (w', Inr b, sent) \<and>
      map en_wallet_id sent = mw_wallet_ids w \<and> map ws_wallet_id (wallet_fills b) = mw_wallet_ids w \<and>
      sum_list (map en_sol_in_lamports sent) = en_sol_in_lamports i \<and>
      0 \<le> total_sol_spent_lamports b \<and> total_sol_spent_lamports b \<le> en_sol_in_lamports i \<and>
      net_sol_spent_lamports (partial_reconcile b expected) = total_sol_spent_lamports b \<and>
      (partial_fill b \<longleftrightarrow> (\<exists>s \<in> set (wallet_fills b). landed (ws_fill s)) \<and> (\<exists>s \<in> set (wallet_fills b). \<not> landed (ws_fill s))) \<and>
      partial_fill_ratio_bps (partial_reconcile b expected) \<in> {0..10000}"
proof (cases "xl_cap (mw_ledger w) < get_exposure (mw_ledger w) (en_mint i) + en_sol_in_lamports i")
  case True
  then show ?thesis using execute_bundle_cases [OF assms, of execute ev] by simp
next
  case False
  let ?sols = "slot_sols (en_sol_in_lamports i) (length (mw_wallet_ids w))"
  obtain fills sent w' where run: "execute_bundle execute w i ev = (w', Inr (aggregate_fills fills), sent)"
    "map sol_allocated_lamports fills = ?sols" "map ws_wallet_id fills = mw_wallet_ids w"
    "map en_sol_in_lamports sent = ?sols" "map en_wallet_id sent = mw_wallet_ids w"
    using execute_bundle_cases [OF assms, of execute ev] False by auto
  have n: "0 < length (mw_wallet_ids w)" using assms(2) by simp
  have "sum_list ?sols = en_sol_in_lamports i" using slot_sols_exact(2) [OF n] .
  moreover have pos: "\<forall>s \<in> set fills. 0 \<le> sol_allocated_lamports s"
    using slot_sols_exact(3) [OF n, of "en_sol_in_lamports i"] assms(1) run(2) by (metis imageI intent_ok_def list.set_map)
  then have "0 \<le> sum_list (map sol_allocated_lamports (filter P fills)) \<and>
      sum_list (map sol_allocated_lamports (filter P fills)) \<le> sum_list (map sol_allocated_lamports fills)" for P
    by (induction fills) auto
  moreover have "length (filter P fills) < length fills \<longleftrightarrow> (\<exists>s \<in> set fills. \<not> P s)" for P
    by (metis filter_id_conv length_filter_le length_filter_less less_irrefl order_le_less)
  ultimately show ?thesis using run False
    by (auto simp: aggregate_fills_def partial_reconcile_def Let_def filter_empty_conv)
qed

theorem bundle_split_and_accounted_witness:
  "\<exists>w' b sent. execute_bundle (\<lambda>_ _. Inl RuntimeError) demo_wallets demo_bundle_intent demo_launch = (w', Inr b, sent) \<and>
     sum_list (map en_sol_in_lamports sent) = 70 \<and> map en_wallet_id sent = [''a'', ''b'', ''c'']"
proof -
  have "mw_wallet_ids demo_wallets \<noteq> []" "mw_wallet_ids demo_wallets = [''a'', ''b'', ''c'']"
    "\<not> xl_cap (mw_ledger demo_wallets) < get_exposure (mw_ledger demo_wallets) (en_mint demo_bundle_intent) + en_sol_in_lamports demo_bundle_intent"
    by (simp_all add: demo_wallets_def get_exposure_def demo_bundle_ok)
  with bundle_split_and_accounted [OF demo_bundle_ok(1), of demo_wallets "\<lambda>_ _. Inl RuntimeError" demo_launch 0]
  show ?thesis by (auto simp: demo_bundle_ok)
qed

text \<open>
  A bundle that fails keeps its reservation: when the venue lands nothing, no slot spent anything, but the
  mint's exposure stays at the full amount, and the same entry is refused from then on as soon as twice
  its amount is above the cap.
\<close>

theorem failed_bundle_keeps_reservation:
  assumes "intent_ok i" and "mw_wallet_ids w \<noteq> []" and "get_exposure (mw_ledger w) (en_mint i) = 0"
    and "en_sol_in_lamports i \<le> xl_cap (mw_ledger w)" and "xl_cap (mw_ledger w) < 2 * en_sol_in_lamports i"
    and "\<And>x. execute x ev = Inl RuntimeError"
  shows "\<exists>w' b sent e. execute_bundle execute w i ev = (w', Inr b, sent) \<and> total_sol_spent_lamports b = 0 \<and>
    get_exposure (mw_ledger w') (en_mint i) = en_sol_in_lamports i \<and> execute_bundle execute w' i ev = (w', Inl e, [])"
proof -
  have none: "run_slots execute base ev k slots = (Inr fills, sent) \<Longrightarrow> filter (\<lambda>s. landed (ws_fill s)) fills = []" for base k slots fills sent
    by (induction slots arbitrary: k fills sent)
      (auto simp: assms(6) slot_exception_def result_simps split: sum.splits prod.splits)
  obtain fills sent w' where run: "execute_bundle execute w i ev = (w', Inr (aggregate_fills fills), sent)"
    "w' = w\<lparr>mw_ledger := (mw_ledger w)\<lparr>xl_exposure := dict_set (en_mint i) (en_sol_in_lamports i) (xl_exposure (mw_ledger w))\<rparr>\<rparr>"
    using execute_bundle_cases [OF assms(1,2), of execute ev] assms(3,4) by auto
  have "wallet_fills (aggregate_fills fs) = fs" for fs by (simp add: aggregate_fills_def Let_def)
  then have "\<exists>slots sent. run_slots execute i ev 0 slots = (Inr fills, sent)"
    using run(1) by (auto simp: execute_bundle_def Let_def split: sum.splits prod.splits if_splits) metis
  then have "total_sol_spent_lamports (aggregate_fills fills) = 0"
    using none by (fastforce simp: aggregate_fills_def Let_def)
  moreover have "get_exposure (mw_ledger w') (en_mint i) = en_sol_in_lamports i" using run(2) by (simp add: get_exposure_def)
  moreover have "\<exists>e. execute_bundle execute w' i ev = (w', Inl e, [])"
    using execute_bundle_cases [OF assms(1), of w' execute ev] assms(2,5) run(2) by (simp add: get_exposure_def)
  ultimately show ?thesis using run(1) by blast
qed

theorem failed_bundle_keeps_reservation_witness:
  "\<exists>w' b sent. execute_bundle (\<lambda>_ _. Inl RuntimeError) demo_wallets demo_bundle_intent demo_launch = (w', Inr b, sent) \<and>
     total_sol_spent_lamports b = 0 \<and> get_exposure (mw_ledger w') ''m'' = 70"
proof -
  have "mw_wallet_ids demo_wallets \<noteq> []" "get_exposure (mw_ledger demo_wallets) (en_mint demo_bundle_intent) = 0"
    "en_sol_in_lamports demo_bundle_intent \<le> xl_cap (mw_ledger demo_wallets)"
    "xl_cap (mw_ledger demo_wallets) < 2 * en_sol_in_lamports demo_bundle_intent"
    by (simp_all add: demo_wallets_def get_exposure_def demo_bundle_ok)
  from failed_bundle_keeps_reservation [OF demo_bundle_ok(1) this, where execute = "\<lambda>_ _. Inl RuntimeError" and ev = demo_launch]
  show ?thesis by (auto simp: demo_bundle_ok)
qed

end
