(* ===== verification/Launch_History.thy ===== *)
theory Launch_History
  imports Conviction_Gates
begin

text \<open>
  What is known of a deployer before a launch: the record of earlier launches
  (\<open>ingestion/deployer_reputation.py\<close>), the age of the wallet's first funding
  (\<open>ingestion/dev_funding_age.py\<close>) and where that funding came from (\<open>ingestion/funding_lineage.py\<close>). The
  indexes are buckets sorted by slot, searched by the standard library's bisection; the node's history
  is a transport that may fail on every call. Every answer is as of a slot, and the locale
  \<open>slot_view\<close> states once that nothing later can show in it. The reader of the Parquet corpus is a
  parameter: the outcomes it yields.
\<close>

section \<open>Definitions\<close>

subsection \<open>Bisection (\<open>bisect.bisect_left\<close>)\<close>

function bisect_from :: "('a \<Rightarrow> int) \<Rightarrow> 'a list \<Rightarrow> int \<Rightarrow> nat \<Rightarrow> nat \<Rightarrow> nat" where
  "bisect_from key xs x lo hi =
     (if lo < hi
      then let mid = (lo + hi) div 2 in
        if key (xs ! mid) < x then bisect_from key xs x (Suc mid) hi else bisect_from key xs x lo mid
      else lo)"
  by pat_completeness auto
termination
  by (relation "measure (\<lambda>(key, xs, x, lo, hi). hi - lo)") auto

declare bisect_from.simps [simp del]

definition bisect_left :: "('a \<Rightarrow> int) \<Rightarrow> 'a list \<Rightarrow> int \<Rightarrow> nat" where
  "bisect_left key xs x = bisect_from key xs x 0 (length xs)"

definition insert_pos :: "nat \<Rightarrow> 'a \<Rightarrow> 'a list \<Rightarrow> 'a list" where
  "insert_pos p v xs = take p xs @ v # drop p xs"

definition bucket_of :: "'k \<Rightarrow> ('k \<times> 'v list) list \<Rightarrow> 'v list" where
  "bucket_of k d = (case map_of d k of None \<Rightarrow> [] | Some b \<Rightarrow> b)"

definition insert_bucket :: "('v \<Rightarrow> int) \<Rightarrow> 'k \<Rightarrow> 'v \<Rightarrow> ('k \<times> 'v list) list \<Rightarrow> ('k \<times> 'v list) list" where
  "insert_bucket key k v d = (let b = bucket_of k d in dict_set k (insert_pos (bisect_left key b (key v)) v b) d)"

subsection \<open>Deployer reputation (\<open>deployer_reputation.py\<close>)\<close>

datatype launch_outcome_label = SURVIVED | RUGGED | FADED | CENSORED

record deployer_outcome =
  do_creator_wallet :: string
  do_mint :: mint
  do_launch_event_slot :: int
  do_outcome_slot :: int
  do_label :: launch_outcome_label
  do_fingerprint :: "string option"

definition mk_DeployerLaunchOutcome :: "deployer_outcome \<Rightarrow> deployer_outcome result" where
  "mk_DeployerLaunchOutcome x =
     (if do_creator_wallet x = [] then Inl ValueError
      else if do_mint x = [] then Inl ValueError
      else if do_launch_event_slot x < 0 \<or> do_outcome_slot x < 0 then Inl ValueError
      else if do_outcome_slot x \<le> do_launch_event_slot x then Inl ValueError
      else Inr x)"

type_synonym outcome_index = "(string \<times> deployer_outcome list) list"

definition outcome_insert_sorted :: "string \<Rightarrow> deployer_outcome \<Rightarrow> outcome_index \<Rightarrow> outcome_index" where
  "outcome_insert_sorted k x index = insert_bucket do_outcome_slot k x index"

definition strictly_before :: "deployer_outcome list \<Rightarrow> int \<Rightarrow> deployer_outcome list" where
  "strictly_before bucket as_of = take (bisect_left do_outcome_slot bucket as_of) bucket"

record outcome_store =
  by_wallet :: outcome_index
  by_fingerprint :: outcome_index

definition add_outcome :: "outcome_store \<Rightarrow> deployer_outcome \<Rightarrow> outcome_store" where
  "add_outcome s x =
     (let s1 = s\<lparr>by_wallet := outcome_insert_sorted (do_creator_wallet x) x (by_wallet s)\<rparr> in
      case do_fingerprint x of
        None \<Rightarrow> s1
      | Some fp \<Rightarrow> if fp = [] then s1 else s1\<lparr>by_fingerprint := outcome_insert_sorted fp x (by_fingerprint s1)\<rparr>)"

definition new_outcome_store :: "deployer_outcome list \<Rightarrow> outcome_store" where
  "new_outcome_store xs = foldl add_outcome \<lparr>by_wallet = [], by_fingerprint = []\<rparr> xs"

definition get_outcomes :: "outcome_store \<Rightarrow> string \<Rightarrow> int \<Rightarrow> deployer_outcome list" where
  "get_outcomes s wallet as_of = strictly_before (bucket_of wallet (by_wallet s)) as_of"

definition get_outcomes_by_fingerprint :: "outcome_store \<Rightarrow> string \<Rightarrow> int \<Rightarrow> deployer_outcome list" where
  "get_outcomes_by_fingerprint s fp as_of = strictly_before (bucket_of fp (by_fingerprint s)) as_of"

text \<open>The lazily loaded store: the first access reads the corpus, \<open>reload\<close> forgets it.\<close>

definition parquet_ensure_loaded :: "(unit \<Rightarrow> deployer_outcome list) \<Rightarrow> outcome_store option \<Rightarrow> outcome_store" where
  "parquet_ensure_loaded read loaded = (case loaded of Some s \<Rightarrow> s | None \<Rightarrow> new_outcome_store (read ()))"

definition parquet_reload :: "outcome_store option \<Rightarrow> outcome_store option" where
  "parquet_reload loaded = None"

definition mk_DeployerReputationTally :: "deployer_tally \<Rightarrow> deployer_tally result" where
  "mk_DeployerReputationTally t =
     (if tl_prior_launches t < 0 \<or> tl_prior_rugs t < 0 then Inl ValueError
      else if tl_prior_rugs t > tl_prior_launches t then Inl ValueError
      else Inr t)"

fun tally_loop :: "string set \<times> int \<times> int \<Rightarrow> deployer_outcome list \<Rightarrow> string set \<times> int \<times> int" where
  "tally_loop acc [] = acc"
| "tally_loop (seen, launches, rugs) (x # xs) =
     (if do_mint x \<in> seen then tally_loop (seen, launches, rugs) xs
      else
        let seen' = insert (do_mint x) seen in
        if do_label x = CENSORED then tally_loop (seen', launches, rugs) xs
        else tally_loop (seen', launches + 1, if do_label x = RUGGED then rugs + 1 else rugs) xs)"

definition lookup_deployer_reputation :: "outcome_store \<Rightarrow> string \<Rightarrow> int \<Rightarrow> string option \<Rightarrow> deployer_tally result" where
  "lookup_deployer_reputation s wallet as_of fp =
     (let acc = tally_loop ({}, 0, 0) (get_outcomes s wallet as_of);
          (seen, launches, rugs) =
            (case fp of
               None \<Rightarrow> acc
             | Some f \<Rightarrow> if f = [] then acc else tally_loop acc (get_outcomes_by_fingerprint s f as_of)) in
      mk_DeployerReputationTally
        \<lparr>tl_creator_wallet = wallet, tl_deploy_template_fingerprint = fp, tl_as_of_event_slot = as_of,
         tl_prior_launches = launches, tl_prior_rugs = rugs\<rparr>)"

subsection \<open>Funding age (\<open>dev_funding_age.py\<close>)\<close>

record signature_info =
  si_signature :: string
  si_slot :: int
  si_block_time_ms :: "millis option"
  si_failed :: bool

record raw_tx_meta =
  tm_slot :: int
  tm_block_time_ms :: "millis option"
  tm_failed :: bool
  tm_account_keys :: "string list"
  tm_pre_balances :: "lamports list"
  tm_post_balances :: "lamports list"

datatype transport_error = ConnectionError

record history_transport =
  get_signatures_for_address :: "string \<Rightarrow> string option \<Rightarrow> nat \<Rightarrow> transport_error + signature_info list"
  get_transaction :: "string \<Rightarrow> transport_error + raw_tx_meta option"

record static_history =
  sh_by_wallet :: "(string \<times> signature_info list) list"
  sh_transactions :: "(string \<times> raw_tx_meta) list"
  sh_raise_on_signatures :: "string set"
  sh_raise_on_transaction :: "string set"

definition sh_add_signature :: "static_history \<Rightarrow> string \<Rightarrow> signature_info \<Rightarrow> static_history" where
  "sh_add_signature h wallet sig =
     h\<lparr>sh_by_wallet := dict_set wallet (sort_key (\<lambda>s. - si_slot s) (bucket_of wallet (sh_by_wallet h) @ [sig])) (sh_by_wallet h)\<rparr>"

definition sh_add_transaction :: "static_history \<Rightarrow> string \<Rightarrow> raw_tx_meta \<Rightarrow> static_history" where
  "sh_add_transaction h sig tx = h\<lparr>sh_transactions := dict_set sig tx (sh_transactions h)\<rparr>"

fun after_signature :: "string \<Rightarrow> signature_info list \<Rightarrow> signature_info list" where
  "after_signature before [] = []"
| "after_signature before (s # ss) = (if si_signature s = before then ss else after_signature before ss)"

definition static_transport :: "static_history \<Rightarrow> history_transport" where
  "static_transport h =
     \<lparr>get_signatures_for_address = (\<lambda>wallet before limit.
        if wallet \<in> sh_raise_on_signatures h then Inl ConnectionError
        else let bucket = bucket_of wallet (sh_by_wallet h);
                 page = (case before of None \<Rightarrow> bucket | Some sig \<Rightarrow> after_signature sig bucket) in
          Inr (take limit page)),
      get_transaction = (\<lambda>sig.
        if sig \<in> sh_raise_on_transaction h then Inl ConnectionError
        else Inr (map_of (sh_transactions h) sig))\<rparr>"

datatype funding_age_status = FOUND | UNDECODABLE

fun funding_status_str :: "funding_age_status \<Rightarrow> string" where
  "funding_status_str FOUND = ''found''"
| "funding_status_str UNDECODABLE = ''undecodable''"

record dev_funding_age_result = dev_funding_result +
  first_funding_slot :: "int option"
  first_funding_block_time_ms :: "millis option"
  first_funding_amount_lamports :: "lamports option"
  first_funding_signature :: "string option"
  fr_ingest_time_ms :: millis
  fr_data_staleness_ms :: millis

definition check_min :: "int \<Rightarrow> int \<Rightarrow> unit result" where
  "check_min v m = guard (m \<le> v) ValueError"

definition mk_DevFundingAgeResult :: "dev_funding_age_result \<Rightarrow> dev_funding_age_result result" where
  "mk_DevFundingAgeResult r =
     rbind (guard (fr_creator_wallet r \<noteq> []) ValueError) (\<lambda>_.
     rbind (check_min (fr_deploy_event_slot r) 0) (\<lambda>_.
     rbind (check_min (fr_deploy_block_time_ms r) 1) (\<lambda>_.
     rbind (check_min (fr_ingest_time_ms r) 0) (\<lambda>_.
     rbind (check_min (fr_data_staleness_ms r) 0) (\<lambda>_.
     if fr_status r = funding_status_str UNDECODABLE
     then (if first_funding_slot r \<noteq> None \<or> first_funding_block_time_ms r \<noteq> None \<or> first_funding_signature r \<noteq> None \<or>
              fr_funding_age_slots r \<noteq> None \<or> fr_funding_age_ms r \<noteq> None
           then Inl ValueError else Inr r)
     else case (first_funding_slot r, first_funding_block_time_ms r, first_funding_signature r,
                fr_funding_age_slots r, fr_funding_age_ms r) of
       (Some first_slot, Some first_block_time, Some sig, Some age_slots, Some age_ms) \<Rightarrow>
         rbind (check_min first_slot 0) (\<lambda>_.
         rbind (check_min first_block_time 1) (\<lambda>_.
         rbind (guard (sig \<noteq> []) ValueError) (\<lambda>_.
         rbind (case first_funding_amount_lamports r of None \<Rightarrow> Inr () | Some a \<Rightarrow> check_min a 1) (\<lambda>_.
         rbind (check_min age_slots 0) (\<lambda>_.
         rbind (check_min age_ms 0) (\<lambda>_.
         if first_slot > fr_deploy_event_slot r then Inl ValueError
         else if first_block_time > fr_deploy_block_time_ms r then Inl ValueError
         else if age_slots \<noteq> fr_deploy_event_slot r - first_slot then Inl ValueError
         else if age_ms \<noteq> fr_deploy_block_time_ms r - first_block_time then Inl ValueError
         else Inr r))))))
     | _ \<Rightarrow> Inl ValueError)))))"

record funding_stats =
  fs_lookups :: nat
  fs_found :: nat
  undecodable_rpc_error :: nat
  undecodable_no_history :: nat
  undecodable_budget_exhausted :: nat
  undecodable_no_confirmed_funding :: nat

record funding_provider =
  fp_page_size :: nat
  fp_max_pages :: nat
  fp_max_transactions_decoded :: nat
  fp_stats :: funding_stats

definition mk_RpcFundingHistoryProvider :: "int \<Rightarrow> int \<Rightarrow> int \<Rightarrow> funding_provider result" where
  "mk_RpcFundingHistoryProvider page_size max_pages max_tx =
     rbind (check_min page_size 1) (\<lambda>_. rbind (check_min max_pages 1) (\<lambda>_. rbind (check_min max_tx 1) (\<lambda>_.
     Inr \<lparr>fp_page_size = nat page_size, fp_max_pages = nat max_pages, fp_max_transactions_decoded = nat max_tx,
          fp_stats = \<lparr>fs_lookups = 0, fs_found = 0, undecodable_rpc_error = 0, undecodable_no_history = 0,
            undecodable_budget_exhausted = 0, undecodable_no_confirmed_funding = 0\<rparr>\<rparr>)))"

definition qualifying :: "int \<Rightarrow> signature_info \<Rightarrow> bool" where
  "qualifying deploy_slot s \<longleftrightarrow> \<not> si_failed s \<and> si_block_time_ms s \<noteq> None \<and> si_slot s \<le> deploy_slot"

fun page_loop ::
  "history_transport \<Rightarrow> string \<Rightarrow> nat \<Rightarrow> int \<Rightarrow> nat \<Rightarrow> string option \<Rightarrow> signature_info list \<Rightarrow>
   transport_error + bool \<times> signature_info list" where
  "page_loop tr wallet page_size deploy_slot 0 cursor candidates = Inr (False, candidates)"
| "page_loop tr wallet page_size deploy_slot (Suc pages) cursor candidates =
     (case get_signatures_for_address tr wallet cursor page_size of
        Inl e \<Rightarrow> Inl e
      | Inr page \<Rightarrow>
          if page = [] then Inr (True, candidates)
          else let candidates' = candidates @ filter (qualifying deploy_slot) page in
            if length page < page_size then Inr (True, candidates')
            else page_loop tr wallet page_size deploy_slot pages (Some (si_signature (last page))) candidates')"

fun index_of :: "'a \<Rightarrow> 'a list \<Rightarrow> nat option" where
  "index_of x [] = None"
| "index_of x (y # ys) = (if y = x then Some 0 else map_option Suc (index_of x ys))"

definition confirms_funding :: "string \<Rightarrow> int \<Rightarrow> millis \<Rightarrow> signature_info \<Rightarrow> raw_tx_meta \<Rightarrow> (lamports \<times> millis) option" where
  "confirms_funding wallet deploy_slot deploy_bt sig tx =
     (if tm_failed tx then None
      else if tm_slot tx > deploy_slot then None
      else case index_of wallet (tm_account_keys tx) of
        None \<Rightarrow> None
      | Some idx \<Rightarrow>
          if length (tm_pre_balances tx) \<le> idx \<or> length (tm_post_balances tx) \<le> idx then None
          else let delta = tm_post_balances tx ! idx - tm_pre_balances tx ! idx in
            if delta \<le> 0 then None
            else case (case tm_block_time_ms tx of Some b \<Rightarrow> Some b | None \<Rightarrow> si_block_time_ms sig) of
              None \<Rightarrow> None
            | Some bt \<Rightarrow> if bt > deploy_bt then None else Some (delta, bt))"

fun decode_loop ::
  "history_transport \<Rightarrow> string \<Rightarrow> int \<Rightarrow> millis \<Rightarrow> nat \<Rightarrow> signature_info list \<Rightarrow>
   (signature_info \<times> raw_tx_meta \<times> lamports \<times> millis) option" where
  "decode_loop tr wallet deploy_slot deploy_bt budget [] = None"
| "decode_loop tr wallet deploy_slot deploy_bt 0 (s # ss) = None"
| "decode_loop tr wallet deploy_slot deploy_bt (Suc budget) (s # ss) =
     (case get_transaction tr (si_signature s) of
        Inr (Some tx) \<Rightarrow>
          (case confirms_funding wallet deploy_slot deploy_bt s tx of
             Some (delta, bt) \<Rightarrow> Some (s, tx, delta, bt)
           | None \<Rightarrow> decode_loop tr wallet deploy_slot deploy_bt budget ss)
      | _ \<Rightarrow> decode_loop tr wallet deploy_slot deploy_bt budget ss)"

definition undecodable_result :: "string \<Rightarrow> int \<Rightarrow> millis \<Rightarrow> millis \<Rightarrow> dev_funding_age_result result" where
  "undecodable_result wallet deploy_slot deploy_bt now =
     mk_DevFundingAgeResult
       \<lparr>fr_creator_wallet = wallet, fr_deploy_event_slot = deploy_slot, fr_deploy_block_time_ms = deploy_bt,
        fr_status = funding_status_str UNDECODABLE, fr_funding_age_slots = None, fr_funding_age_ms = None,
        first_funding_slot = None, first_funding_block_time_ms = None, first_funding_amount_lamports = None,
        first_funding_signature = None, fr_ingest_time_ms = now, fr_data_staleness_ms = max 0 (now - deploy_bt)\<rparr>"

definition funding_lookup ::
  "history_transport \<Rightarrow> millis \<Rightarrow> funding_provider \<Rightarrow> string \<Rightarrow> int \<Rightarrow> millis \<Rightarrow>
   funding_provider \<times> dev_funding_age_result result" where
  "funding_lookup tr now p wallet deploy_slot deploy_bt =
     (case rbind (guard (wallet \<noteq> []) ValueError) (\<lambda>_. rbind (check_min deploy_slot 0) (\<lambda>_. check_min deploy_bt 1)) of
        Inl e \<Rightarrow> (p, Inl e)
      | Inr _ \<Rightarrow>
          let p1 = p\<lparr>fp_stats := (fp_stats p)\<lparr>fs_lookups := Suc (fs_lookups (fp_stats p))\<rparr>\<rparr>;
              counted = (\<lambda>bump. p1\<lparr>fp_stats := bump (fp_stats p1)\<rparr>);
              undecodable = undecodable_result wallet deploy_slot deploy_bt now in
          (case page_loop tr wallet (fp_page_size p) deploy_slot (fp_max_pages p) None [] of
             Inl _ \<Rightarrow> (counted (\<lambda>s. s\<lparr>undecodable_rpc_error := Suc (undecodable_rpc_error s)\<rparr>), undecodable)
           | Inr (reached_genesis, candidates) \<Rightarrow>
               if \<not> reached_genesis
               then (counted (\<lambda>s. s\<lparr>undecodable_budget_exhausted := Suc (undecodable_budget_exhausted s)\<rparr>), undecodable)
               else if candidates = []
               then (counted (\<lambda>s. s\<lparr>undecodable_no_history := Suc (undecodable_no_history s)\<rparr>), undecodable)
               else
                 (case decode_loop tr wallet deploy_slot deploy_bt (fp_max_transactions_decoded p) (sort_key si_slot candidates) of
                    None \<Rightarrow> (counted (\<lambda>s. s\<lparr>undecodable_no_confirmed_funding := Suc (undecodable_no_confirmed_funding s)\<rparr>), undecodable)
                  | Some (sig, tx, delta, bt) \<Rightarrow>
                      (counted (\<lambda>s. s\<lparr>fs_found := Suc (fs_found s)\<rparr>),
                       mk_DevFundingAgeResult
                         \<lparr>fr_creator_wallet = wallet, fr_deploy_event_slot = deploy_slot, fr_deploy_block_time_ms = deploy_bt,
                          fr_status = funding_status_str FOUND, fr_funding_age_slots = Some (deploy_slot - tm_slot tx),
                          fr_funding_age_ms = Some (deploy_bt - bt), first_funding_slot = Some (tm_slot tx),
                          first_funding_block_time_ms = Some bt, first_funding_amount_lamports = Some delta,
                          first_funding_signature = Some (si_signature sig), fr_ingest_time_ms = now,
                          fr_data_staleness_ms = max 0 (now - deploy_bt)\<rparr>))))"

subsection \<open>Funding lineage (\<open>funding_lineage.py\<close>)\<close>

fun debits_of :: "nat \<Rightarrow> nat \<Rightarrow> string list \<Rightarrow> lamports list \<Rightarrow> lamports list \<Rightarrow> (lamports \<times> string) list" where
  "debits_of funded idx [] pre post = []"
| "debits_of funded idx (k # ks) pre post =
     (if idx = funded \<or> length pre \<le> idx \<or> length post \<le> idx then debits_of funded (Suc idx) ks pre post
      else let delta = post ! idx - pre ! idx in
        if delta < 0 then (- delta, k) # debits_of funded (Suc idx) ks pre post
        else debits_of funded (Suc idx) ks pre post)"

definition identify_funding_source :: "raw_tx_meta \<Rightarrow> string \<Rightarrow> string option" where
  "identify_funding_source tx wallet =
     (case index_of wallet (tm_account_keys tx) of
        None \<Rightarrow> None
      | Some funded \<Rightarrow>
          (case sort_key (\<lambda>d. - fst d) (debits_of funded 0 (tm_account_keys tx) (tm_pre_balances tx) (tm_post_balances tx)) of
             [] \<Rightarrow> None
           | [d] \<Rightarrow> Some (snd d)
           | d1 # d2 # _ \<Rightarrow> if fst d1 = fst d2 then None else Some (snd d1)))"

record launch_sighting =
  ls_mint :: mint
  ls_event_slot :: int

record funding_sighting =
  fg_creator_wallet :: string
  fg_mint :: mint
  fg_event_slot :: int

record lineage_registry =
  lr_by_wallet :: "(string \<times> launch_sighting list) list"
  lr_wallet_mints :: "(string \<times> mint list) list"
  lr_by_source :: "(string \<times> funding_sighting list) list"
  lr_source_keys :: "(string \<times> (string \<times> mint) list) list"

definition new_lineage_registry :: lineage_registry where
  "new_lineage_registry = \<lparr>lr_by_wallet = [], lr_wallet_mints = [], lr_by_source = [], lr_source_keys = []\<rparr>"

definition record_launch :: "lineage_registry \<Rightarrow> string \<Rightarrow> mint \<Rightarrow> int \<Rightarrow> lineage_registry \<times> unit result" where
  "record_launch r wallet m event_slot =
     (if wallet = [] \<or> m = [] \<or> event_slot < 0 then (r, Inl ValueError)
      else
        let seen = bucket_of wallet (lr_wallet_mints r);
            r1 = r\<lparr>lr_wallet_mints := dict_set wallet seen (lr_wallet_mints r)\<rparr> in
        if m \<in> set seen then (r1, Inr ())
        else (r1\<lparr>lr_wallet_mints := dict_set wallet (m # seen) (lr_wallet_mints r1),
                 lr_by_wallet := insert_bucket ls_event_slot wallet \<lparr>ls_mint = m, ls_event_slot = event_slot\<rparr> (lr_by_wallet r1)\<rparr>,
              Inr ()))"

definition record_funding_source ::
  "lineage_registry \<Rightarrow> string \<Rightarrow> string \<Rightarrow> mint \<Rightarrow> int \<Rightarrow> lineage_registry \<times> unit result" where
  "record_funding_source r source wallet m event_slot =
     (if source = [] \<or> wallet = [] \<or> m = [] \<or> event_slot < 0 then (r, Inl ValueError)
      else
        let seen = bucket_of source (lr_source_keys r);
            r1 = r\<lparr>lr_source_keys := dict_set source seen (lr_source_keys r)\<rparr> in
        if (wallet, m) \<in> set seen then (r1, Inr ())
        else (r1\<lparr>lr_source_keys := dict_set source ((wallet, m) # seen) (lr_source_keys r1),
                 lr_by_source := insert_bucket fg_event_slot source
                   \<lparr>fg_creator_wallet = wallet, fg_mint = m, fg_event_slot = event_slot\<rparr> (lr_by_source r1)\<rparr>,
              Inr ()))"

definition prior_launch_count :: "lineage_registry \<Rightarrow> string \<Rightarrow> int \<Rightarrow> int" where
  "prior_launch_count r wallet as_of = int (bisect_left ls_event_slot (bucket_of wallet (lr_by_wallet r)) as_of)"

definition funding_source_seen_before :: "lineage_registry \<Rightarrow> string \<Rightarrow> string \<Rightarrow> int \<Rightarrow> bool" where
  "funding_source_seen_before r source wallet as_of =
     (let bucket = bucket_of source (lr_by_source r);
          idx = bisect_left fg_event_slot bucket as_of in
      \<exists>g \<in> set (take idx bucket). fg_creator_wallet g \<noteq> wallet)"

record funding_lineage_result =
  fl_creator_wallet :: string
  fl_deploy_event_slot :: int
  fl_deploy_block_time_ms :: millis
  fl_prior_launch_count :: int
  fl_funding_source_wallet :: "string option"
  fl_funding_source_seen_before :: bool
  fl_funding_source_status :: funding_age_status
  fl_ingest_time_ms :: millis
  fl_data_staleness_ms :: millis

definition mk_FundingLineageResult :: "funding_lineage_result \<Rightarrow> funding_lineage_result result" where
  "mk_FundingLineageResult r =
     (if fl_creator_wallet r = [] \<or> fl_deploy_event_slot r < 0 \<or> fl_deploy_block_time_ms r < 1 \<or>
         fl_prior_launch_count r < 0 \<or> fl_funding_source_wallet r = Some [] \<or> fl_ingest_time_ms r < 0 \<or>
         fl_data_staleness_ms r < 0 then Inl ValueError
      else if fl_funding_source_status r = UNDECODABLE
      then (if fl_funding_source_wallet r \<noteq> None \<or> fl_funding_source_seen_before r then Inl ValueError else Inr r)
      else if fl_funding_source_wallet r = None then Inl ValueError
      else Inr r)"

record lineage_stats =
  ln_lookups :: nat
  ln_source_found :: nat
  ln_undecodable_age :: nat
  ln_undecodable_tx_fetch :: nat
  ln_undecodable_ambiguous :: nat
  ln_seen_before_true :: nat

record lineage_provider =
  ln_registry :: lineage_registry
  ln_age_provider :: funding_provider
  ln_stats :: lineage_stats

definition lineage_source ::
  "history_transport \<Rightarrow> string \<Rightarrow> dev_funding_age_result \<Rightarrow> lineage_stats \<Rightarrow> lineage_stats \<times> string option" where
  "lineage_source tr wallet age st =
     (if fr_status age = funding_status_str FOUND
      then (case get_transaction tr (case first_funding_signature age of Some sig \<Rightarrow> sig | None \<Rightarrow> []) of
          Inl _ \<Rightarrow> (st\<lparr>ln_undecodable_tx_fetch := Suc (ln_undecodable_tx_fetch st)\<rparr>, None)
        | Inr None \<Rightarrow> (st, None)
        | Inr (Some tx) \<Rightarrow>
            if tm_failed tx then (st\<lparr>ln_undecodable_ambiguous := Suc (ln_undecodable_ambiguous st)\<rparr>, None)
            else (case identify_funding_source tx wallet of
                Some source \<Rightarrow> (st\<lparr>ln_source_found := Suc (ln_source_found st)\<rparr>, Some source)
              | None \<Rightarrow> (st\<lparr>ln_undecodable_ambiguous := Suc (ln_undecodable_ambiguous st)\<rparr>, None)))
      else (st\<lparr>ln_undecodable_age := Suc (ln_undecodable_age st)\<rparr>, None))"

definition lineage_lookup ::
  "history_transport \<Rightarrow> millis \<Rightarrow> lineage_provider \<Rightarrow> string \<Rightarrow> mint \<Rightarrow> int \<Rightarrow> millis \<Rightarrow>
   lineage_provider \<times> funding_lineage_result result" where
  "lineage_lookup tr now p wallet m deploy_slot deploy_bt =
     (if wallet = [] \<or> m = [] \<or> deploy_slot < 0 \<or> deploy_bt < 1 then (p, Inl ValueError)
      else
        let p1 = p\<lparr>ln_stats := (ln_stats p)\<lparr>ln_lookups := Suc (ln_lookups (ln_stats p))\<rparr>\<rparr>;
            prior = prior_launch_count (ln_registry p) wallet deploy_slot in
        (case funding_lookup tr now (ln_age_provider p1) wallet deploy_slot deploy_bt of
           (ap, Inl e) \<Rightarrow> (p1\<lparr>ln_age_provider := ap\<rparr>, Inl e)
         | (ap, Inr age) \<Rightarrow>
             (case lineage_source tr wallet age (ln_stats p1) of (st, source) \<Rightarrow>
               let seen = (case source of
                     None \<Rightarrow> False
                   | Some sw \<Rightarrow> funding_source_seen_before (ln_registry p) sw wallet deploy_slot);
                   st' = (if seen then st\<lparr>ln_seen_before_true := Suc (ln_seen_before_true st)\<rparr> else st);
                   p2 = p1\<lparr>ln_age_provider := ap, ln_stats := st'\<rparr> in
               (case record_launch (ln_registry p) wallet m deploy_slot of
                  (r1, Inl e) \<Rightarrow> (p2\<lparr>ln_registry := r1\<rparr>, Inl e)
                | (r1, Inr _) \<Rightarrow>
                    (case (case source of None \<Rightarrow> (r1, Inr ()) | Some sw \<Rightarrow> record_funding_source r1 sw wallet m deploy_slot) of
                       (r2, Inl e) \<Rightarrow> (p2\<lparr>ln_registry := r2\<rparr>, Inl e)
                     | (r2, Inr _) \<Rightarrow>
                         (p2\<lparr>ln_registry := r2\<rparr>,
                          mk_FundingLineageResult
                            \<lparr>fl_creator_wallet = wallet, fl_deploy_event_slot = deploy_slot, fl_deploy_block_time_ms = deploy_bt,
                             fl_prior_launch_count = prior, fl_funding_source_wallet = source,
                             fl_funding_source_seen_before = seen,
                             fl_funding_source_status = (if source = None then UNDECODABLE else FOUND),
                             fl_ingest_time_ms = now, fl_data_staleness_ms = max 0 (now - deploy_bt)\<rparr>))))))"

section \<open>Sorted buckets\<close>

lemma bisect_from_split:
  assumes "sorted (map key xs)" and "lo \<le> hi" and "hi \<le> length xs"
    and "\<forall>i < lo. key (xs ! i) < x" and "\<forall>i. hi \<le> i \<and> i < length xs \<longrightarrow> x \<le> key (xs ! i)"
  shows "bisect_from key xs x lo hi \<le> length xs \<and> (\<forall>i < bisect_from key xs x lo hi. key (xs ! i) < x) \<and>
    (\<forall>i. bisect_from key xs x lo hi \<le> i \<and> i < length xs \<longrightarrow> x \<le> key (xs ! i))"
  using assms
proof (induction key xs x lo hi rule: bisect_from.induct)
  case (1 key xs x lo hi)
  show ?case
  proof (cases "lo < hi")
    case True
    define mid where "mid = (lo + hi) div 2"
    have mid: "lo \<le> mid" "mid < hi" "mid < length xs" using True "1.prems" by (auto simp: mid_def)
    have mono: "key (xs ! i) \<le> key (xs ! j)" if "i \<le> j" "j < length xs" for i j
      using "1.prems"(1) that by (auto simp: sorted_iff_nth_mono)
    show ?thesis
    proof (cases "key (xs ! mid) < x")
      case True
      have "\<forall>i < Suc mid. key (xs ! i) < x"
      proof (intro allI impI)
        fix i assume "i < Suc mid"
        then show "key (xs ! i) < x" using mono [of i mid] mid True by simp
      qed
      moreover have "bisect_from key xs x lo hi = bisect_from key xs x (Suc mid) hi"
        by (subst bisect_from.simps) (simp add: \<open>lo < hi\<close> Let_def mid_def [symmetric] True)
      ultimately show ?thesis
        using "1.IH"(1) [OF \<open>lo < hi\<close> mid_def True "1.prems"(1) _ "1.prems"(3) _ "1.prems"(5)] mid by simp
    next
      case False
      have "\<forall>i. mid \<le> i \<and> i < length xs \<longrightarrow> x \<le> key (xs ! i)"
      proof (intro allI impI)
        fix i assume "mid \<le> i \<and> i < length xs"
        then show "x \<le> key (xs ! i)" using mono [of mid i] False by simp
      qed
      moreover have "bisect_from key xs x lo hi = bisect_from key xs x lo mid"
        by (subst bisect_from.simps) (simp add: \<open>lo < hi\<close> Let_def mid_def [symmetric] False)
      ultimately show ?thesis
        using "1.IH"(2) [OF \<open>lo < hi\<close> mid_def False "1.prems"(1) mid(1) _ "1.prems"(4)] mid by simp
    qed
  next
    case False
    then show ?thesis using "1.prems" by (simp add: bisect_from.simps)
  qed
qed

text \<open>On a sorted bucket, bisection finds the number of entries strictly before, and the entries before it.\<close>

lemma bisect_left_split:
  assumes "sorted (map key xs)"
  shows "take (bisect_left key xs x) xs = filter (\<lambda>y. key y < x) xs"
    and "drop (bisect_left key xs x) xs = filter (\<lambda>y. x \<le> key y) xs"
    and "bisect_left key xs x = length (filter (\<lambda>y. key y < x) xs)"
proof -
  define p where "p = bisect_left key xs x"
  have p: "p \<le> length xs" "\<forall>i < p. key (xs ! i) < x" "\<forall>i. p \<le> i \<and> i < length xs \<longrightarrow> x \<le> key (xs ! i)"
    using bisect_from_split [of key xs 0 "length xs" x] assms by (auto simp: p_def bisect_left_def)
  have lo: "\<forall>y \<in> set (take p xs). key y < x" using p by (auto simp: in_set_conv_nth)
  have hi: "\<forall>y \<in> set (drop p xs). x \<le> key y" using p by (auto simp: in_set_conv_nth)
  have "filter P xs = filter P (take p xs) @ filter P (drop p xs)" for P by (metis append_take_drop_id filter_append)
  then show before: "take p xs = filter (\<lambda>y. key y < x) xs" and "drop p xs = filter (\<lambda>y. x \<le> key y) xs"
    using lo hi by (simp_all add: filter_id_conv [THEN iffD2] filter_empty_conv [THEN iffD2] not_less not_le)
  show "p = length (filter (\<lambda>y. key y < x) xs)" using p(1) by (simp add: before [symmetric])
qed

lemma insert_pos_sorted:
  assumes "sorted (map key xs)"
  shows "sorted (map key (insert_pos (bisect_left key xs (key v)) v xs))"
  using assms sorted_filter [of key xs "\<lambda>y. key y < key v"] sorted_filter [of key xs "\<lambda>y. key v \<le> key y"]
  by (auto simp: insert_pos_def bisect_left_split(1,2) sorted_append)

lemma insert_pos_before:
  assumes "sorted (map key xs)"
  shows "filter (\<lambda>y. key y < d) (insert_pos (bisect_left key xs (key v)) v xs) =
    (let before = filter (\<lambda>y. key y < d) xs in if key v < d then insert_pos (bisect_left key before (key v)) v before else before)"
proof -
  have s: "sorted (map key (filter (\<lambda>y. key y < d) xs))" using assms by (rule sorted_filter)
  have "filter (\<lambda>y. key y < d) (insert_pos (bisect_left key xs (key v)) v xs) =
      filter (\<lambda>y. key y < d \<and> key y < key v) xs @ (if key v < d then [v] else []) @ filter (\<lambda>y. key y < d \<and> key v \<le> key y) xs"
    using assms by (simp add: insert_pos_def bisect_left_split(1,2) conj_commute)
  also have "\<dots> = (if key v < d then insert_pos (bisect_left key (filter (\<lambda>y. key y < d) xs) (key v)) v (filter (\<lambda>y. key y < d) xs)
      else filter (\<lambda>y. key y < d) xs)"
  proof (cases "key v < d")
    case True
    then show ?thesis using s by (simp add: insert_pos_def bisect_left_split(1,2) conj_commute)
  next
    case False
    have "filter (\<lambda>y. key y < d \<and> key y < key v) xs = filter (\<lambda>y. key y < d) xs"
      "filter (\<lambda>y. key y < d \<and> key v \<le> key y) xs = []"
      using False by (auto intro!: filter_cong simp: filter_empty_conv)
    then show ?thesis using False by simp
  qed
  finally show ?thesis by (simp add: Let_def)
qed

subsection \<open>Answers as of a slot\<close>

text \<open>
  A source of history promises: a fact with a slot before the queried one updates what is visible, and a
  fact at or after it leaves it alone. Then what is visible after any sequence of facts is what the earlier
  ones of them give.
\<close>

locale slot_view =
  fixes add :: "'s \<Rightarrow> 'f \<Rightarrow> 's" and view :: "'s \<Rightarrow> int \<Rightarrow> 'v" and upd :: "'v \<Rightarrow> 'f \<Rightarrow> 'v"
    and slot_of :: "'f \<Rightarrow> int" and inv :: "'s \<Rightarrow> bool"
  assumes add_inv: "inv s \<Longrightarrow> inv (add s f)"
    and add_view: "inv s \<Longrightarrow> view (add s f) d = (if slot_of f < d then upd (view s d) f else view s d)"
begin

lemma run_inv: "inv s \<Longrightarrow> inv (foldl add s fs)"
  by (induction fs arbitrary: s) (simp_all add: add_inv)

lemma run_view: "inv s \<Longrightarrow> view (foldl add s fs) d = foldl upd (view s d) (filter (\<lambda>f. slot_of f < d) fs)"
  by (induction fs arbitrary: s) (simp_all add: add_inv add_view)

lemma no_lookahead: "inv s \<Longrightarrow> view (foldl add s fs) d = view (foldl add s (filter (\<lambda>f. slot_of f < d) fs)) d"
  by (simp add: run_view)

end

definition index_ok :: "('v \<Rightarrow> int) \<Rightarrow> ('k \<times> 'v list) list \<Rightarrow> bool" where
  "index_ok key d \<longleftrightarrow> (\<forall>k. sorted (map key (bucket_of k d)))"

definition upd_bucket :: "('v \<Rightarrow> int) \<Rightarrow> 'v \<Rightarrow> 'v list \<Rightarrow> 'v list" where
  "upd_bucket key v b = insert_pos (bisect_left key b (key v)) v b"

lemma bucket_of_empty [simp]: "bucket_of k [] = []"
  by (simp add: bucket_of_def)

lemma bucket_of_dict_set: "bucket_of k (dict_set k' b d) = (if k = k' then b else bucket_of k d)"
  by (simp add: bucket_of_def)

lemma bucket_of_insert:
  "bucket_of k (insert_bucket key k' v d) = (if k = k' then upd_bucket key v (bucket_of k d) else bucket_of k d)"
  by (simp add: insert_bucket_def Let_def bucket_of_dict_set upd_bucket_def)

lemma insert_bucket_ok: "index_ok key d \<Longrightarrow> index_ok key (insert_bucket key k v d)"
  by (simp add: index_ok_def bucket_of_insert upd_bucket_def insert_pos_sorted)

lemma set_upd_bucket: "set (upd_bucket key v b) = insert v (set b)"
  unfolding upd_bucket_def insert_pos_def by (metis Un_insert_right append_take_drop_id list.simps(15) set_append)

lemma length_upd_bucket: "length (upd_bucket key v b) = Suc (length b)"
  by (simp add: upd_bucket_def insert_pos_def)

lemma upd_bucket_before:
  "sorted (map key b) \<Longrightarrow> filter (\<lambda>y. key y < d) (upd_bucket key v b) =
     (if key v < d then upd_bucket key v (filter (\<lambda>y. key y < d) b) else filter (\<lambda>y. key y < d) b)"
  by (simp add: upd_bucket_def insert_pos_before Let_def)

section \<open>Deployer reputation\<close>

definition store_index_ok :: "outcome_store \<Rightarrow> bool" where
  "store_index_ok s \<longleftrightarrow> index_ok do_outcome_slot (by_wallet s) \<and> index_ok do_outcome_slot (by_fingerprint s)"

definition visible :: "outcome_store \<Rightarrow> int \<Rightarrow> (string \<Rightarrow> deployer_outcome list) \<times> (string \<Rightarrow> deployer_outcome list)" where
  "visible s d = (\<lambda>w. get_outcomes s w d, \<lambda>fp. get_outcomes_by_fingerprint s fp d)"

definition see_outcome ::
  "(string \<Rightarrow> deployer_outcome list) \<times> (string \<Rightarrow> deployer_outcome list) \<Rightarrow> deployer_outcome \<Rightarrow>
   (string \<Rightarrow> deployer_outcome list) \<times> (string \<Rightarrow> deployer_outcome list)" where
  "see_outcome v x =
     (\<lambda>w. if w = do_creator_wallet x then upd_bucket do_outcome_slot x (fst v w) else fst v w,
      \<lambda>fp. if do_fingerprint x = Some fp \<and> fp \<noteq> [] then upd_bucket do_outcome_slot x (snd v fp) else snd v fp)"

lemma get_outcomes_filter:
  "store_index_ok s \<Longrightarrow> get_outcomes s w d = filter (\<lambda>x. do_outcome_slot x < d) (bucket_of w (by_wallet s))"
  "store_index_ok s \<Longrightarrow> get_outcomes_by_fingerprint s fp d = filter (\<lambda>x. do_outcome_slot x < d) (bucket_of fp (by_fingerprint s))"
  by (simp_all add: get_outcomes_def get_outcomes_by_fingerprint_def strictly_before_def bisect_left_split(1)
      store_index_ok_def index_ok_def)

lemma add_outcome_ok: "store_index_ok s \<Longrightarrow> store_index_ok (add_outcome s x)"
  by (auto simp: add_outcome_def store_index_ok_def outcome_insert_sorted_def insert_bucket_ok Let_def split: option.splits)

lemma add_outcome_buckets:
  "bucket_of w (by_wallet (add_outcome s x)) =
     (if w = do_creator_wallet x then upd_bucket do_outcome_slot x (bucket_of w (by_wallet s)) else bucket_of w (by_wallet s))"
  "bucket_of fp (by_fingerprint (add_outcome s x)) =
     (if do_fingerprint x = Some fp \<and> fp \<noteq> [] then upd_bucket do_outcome_slot x (bucket_of fp (by_fingerprint s))
      else bucket_of fp (by_fingerprint s))"
  by (auto simp: add_outcome_def outcome_insert_sorted_def bucket_of_insert Let_def split: option.splits)

lemma empty_store_ok: "store_index_ok \<lparr>by_wallet = [], by_fingerprint = []\<rparr>"
  by (simp add: store_index_ok_def index_ok_def)

interpretation outcomes: slot_view add_outcome visible see_outcome do_outcome_slot store_index_ok
proof
  fix s x d assume ok: "store_index_ok s"
  show "store_index_ok (add_outcome s x)" using ok by (rule add_outcome_ok)
  have sorted: "sorted (map do_outcome_slot (bucket_of w (by_wallet s)))"
    "sorted (map do_outcome_slot (bucket_of w (by_fingerprint s)))" for w
    using ok by (simp_all add: store_index_ok_def index_ok_def)
  show "visible (add_outcome s x) d = (if do_outcome_slot x < d then see_outcome (visible s d) x else visible s d)"
    using sorted by (auto simp: visible_def see_outcome_def get_outcomes_filter ok add_outcome_ok add_outcome_buckets
        upd_bucket_before fun_eq_iff)
qed

lemma lookup_reputation_view:
  "visible s d = visible s' d \<Longrightarrow> lookup_deployer_reputation s w d fp = lookup_deployer_reputation s' w d fp"
  by (cases fp) (simp_all add: lookup_deployer_reputation_def visible_def fun_eq_iff Let_def)

text \<open>
  No lookahead: a tally as of a slot depends only on the outcomes resolved strictly before it, whatever
  later outcomes the store holds and in whatever order they were added.
\<close>

theorem reputation_no_lookahead:
  "lookup_deployer_reputation (new_outcome_store xs) w d fp =
   lookup_deployer_reputation (new_outcome_store (filter (\<lambda>x. do_outcome_slot x < d) xs)) w d fp"
  using outcomes.no_lookahead [OF empty_store_ok] unfolding new_outcome_store_def
  by (intro lookup_reputation_view) simp

definition mints_with :: "(launch_outcome_label \<Rightarrow> bool) \<Rightarrow> deployer_outcome set \<Rightarrow> mint set" where
  "mints_with P X = do_mint ` {x \<in> X. P (do_label x)}"

definition one_label :: "deployer_outcome set \<Rightarrow> bool" where
  "one_label X \<longleftrightarrow> (\<forall>x \<in> X. \<forall>y \<in> X. do_mint x = do_mint y \<longrightarrow> do_label x = do_label y)"

abbreviation resolved :: "launch_outcome_label \<Rightarrow> bool" where
  "resolved l \<equiv> l \<noteq> CENSORED"

abbreviation rugged :: "launch_outcome_label \<Rightarrow> bool" where
  "rugged l \<equiv> l = RUGGED"

lemma one_labelD: "one_label X \<Longrightarrow> x \<in> X \<Longrightarrow> y \<in> X \<Longrightarrow> do_mint x = do_mint y \<Longrightarrow> do_label x = do_label y"
  unfolding one_label_def by blast

lemma one_label_subset: "one_label X \<Longrightarrow> Y \<subseteq> X \<Longrightarrow> one_label Y"
  unfolding one_label_def by blast

lemma mints_with_insert: "mints_with P (insert x X) = (if P (do_label x) then insert (do_mint x) (mints_with P X) else mints_with P X)"
  by (auto simp: mints_with_def)

lemma mints_with_finite [simp]: "finite (mints_with P (set xs))"
  by (simp add: mints_with_def)

lemma new_mint_card:
  assumes "one_label (insert x (set xs))" and "do_mint x \<notin> seen"
  shows "int (card (mints_with P (insert x (set xs)) - seen)) =
    (if P (do_label x) then 1 else 0) + int (card (mints_with P (set xs) - insert (do_mint x) seen))"
proof (cases "P (do_label x)")
  case True
  have "mints_with P (insert x (set xs)) - seen = insert (do_mint x) (mints_with P (set xs) - insert (do_mint x) seen)"
    using True assms(2) by (auto simp: mints_with_insert)
  then show ?thesis using True by simp
next
  case False
  have "do_mint x \<notin> mints_with P (set xs)"
  proof
    assume "do_mint x \<in> mints_with P (set xs)"
    then obtain y where y: "y \<in> set xs" "P (do_label y)" "do_mint x = do_mint y" unfolding mints_with_def by blast
    with one_labelD [OF assms(1), of x y] False show False by simp
  qed
  then have "mints_with P (insert x (set xs)) - seen = mints_with P (set xs) - insert (do_mint x) seen"
    using False by (auto simp: mints_with_insert)
  then show ?thesis using False by simp
qed

lemma tally_loop_counts:
  "one_label (set xs) \<Longrightarrow> tally_loop (seen, l, r) xs =
     (seen \<union> do_mint ` set xs, l + int (card (mints_with resolved (set xs) - seen)),
      r + int (card (mints_with rugged (set xs) - seen)))"
proof (induction xs arbitrary: seen l r)
  case (Cons x xs)
  have "one_label (set xs)" using Cons.prems by (rule one_label_subset) auto
  note IH = Cons.IH [OF this]
  show ?case
  proof (cases "do_mint x \<in> seen")
    case True
    then have "mints_with P (set (x # xs)) - seen = mints_with P (set xs) - seen" for P by (auto simp: mints_with_insert)
    then show ?thesis using True IH by (simp add: insert_absorb)
  next
    case False
    note card = new_mint_card [OF Cons.prems [simplified] False]
    then show ?thesis using False IH by (simp add: Let_def card)
  qed
qed (simp add: mints_with_def)

lemma two_sources_card:
  assumes "one_label (set xs \<union> set ys)"
  shows "card (mints_with P (set xs)) + card (mints_with P (set ys) - do_mint ` set xs) = card (mints_with P (set xs \<union> set ys))"
proof -
  have "mints_with P (set xs \<union> set ys) = mints_with P (set xs) \<union> (mints_with P (set ys) - do_mint ` set xs)"
  proof (intro equalityI subsetI)
    fix m assume "m \<in> mints_with P (set xs \<union> set ys)"
    then obtain y where y: "y \<in> set xs \<union> set ys" "P (do_label y)" "m = do_mint y" unfolding mints_with_def by blast
    show "m \<in> mints_with P (set xs) \<union> (mints_with P (set ys) - do_mint ` set xs)"
    proof (cases "m \<in> do_mint ` set xs")
      case True
      then obtain x where x: "x \<in> set xs" "m = do_mint x" by blast
      with one_labelD [OF assms, of x y] y have "P (do_label x)" by simp
      with x show ?thesis unfolding mints_with_def by blast
    next
      case False
      with y show ?thesis unfolding mints_with_def by blast
    qed
  qed (auto simp: mints_with_def)
  moreover have "mints_with P (set xs) \<inter> (mints_with P (set ys) - do_mint ` set xs) = {}" by (auto simp: mints_with_def)
  ultimately show ?thesis by (simp add: card_Un_disjoint)
qed

lemma new_store_buckets:
  "store_index_ok (new_outcome_store xs)"
  "set (bucket_of w (by_wallet (new_outcome_store xs))) = {x \<in> set xs. do_creator_wallet x = w}"
  "set (bucket_of fp (by_fingerprint (new_outcome_store xs))) = {x \<in> set xs. do_fingerprint x = Some fp \<and> fp \<noteq> []}"
proof -
  have "store_index_ok (new_outcome_store xs) \<and>
    set (bucket_of w (by_wallet (new_outcome_store xs))) = {x \<in> set xs. do_creator_wallet x = w} \<and>
    set (bucket_of fp (by_fingerprint (new_outcome_store xs))) = {x \<in> set xs. do_fingerprint x = Some fp \<and> fp \<noteq> []}"
    unfolding new_outcome_store_def
    by (induction xs rule: rev_induct) (auto simp: empty_store_ok add_outcome_ok add_outcome_buckets set_upd_bucket)
  then show "store_index_ok (new_outcome_store xs)"
    "set (bucket_of w (by_wallet (new_outcome_store xs))) = {x \<in> set xs. do_creator_wallet x = w}"
    "set (bucket_of fp (by_fingerprint (new_outcome_store xs))) = {x \<in> set xs. do_fingerprint x = Some fp \<and> fp \<noteq> []}"
    by auto
qed

definition history_before :: "deployer_outcome list \<Rightarrow> string \<Rightarrow> string option \<Rightarrow> int \<Rightarrow> deployer_outcome set" where
  "history_before xs w fp d =
     {x \<in> set xs. do_outcome_slot x < d \<and> (do_creator_wallet x = w \<or> (fp \<noteq> None \<and> fp \<noteq> Some [] \<and> do_fingerprint x = fp))}"


definition demo_outcome :: "mint \<Rightarrow> int \<Rightarrow> launch_outcome_label \<Rightarrow> deployer_outcome" where
  "demo_outcome m sl label = \<lparr>do_creator_wallet = ''w'', do_mint = m, do_launch_event_slot = 0, do_outcome_slot = sl,
     do_label = label, do_fingerprint = None\<rparr>"


text \<open>
  An unresolved record hides a later rug of the same mint: the mint is marked as seen before its label is
  looked at, so an outcome recorded first as censored and then as rugged does not count.
\<close>

theorem censored_record_hides_rug:
  "lookup_deployer_reputation (new_outcome_store [demo_outcome ''a'' 10 CENSORED, demo_outcome ''a'' 20 RUGGED]) ''w'' 30 None =
   Inr \<lparr>tl_creator_wallet = ''w'', tl_deploy_template_fingerprint = None, tl_as_of_event_slot = 30,
        tl_prior_launches = 0, tl_prior_rugs = 0\<rparr>"
  by code_simp

section \<open>Funding age\<close>

lemma after_signature_drop:
  "distinct (map si_signature ss) \<Longrightarrow> i < length ss \<Longrightarrow> after_signature (si_signature (ss ! i)) ss = drop (Suc i) ss"
proof (induction ss arbitrary: i)
  case (Cons s ss)
  then show ?case by (cases i) (auto dest: nth_mem)
qed simp

text \<open>Paging reassembles the history: every page starts where the last one ended.\<close>

lemma page_loop_static:
  assumes "w \<notin> sh_raise_on_signatures h" and "distinct (map si_signature (bucket_of w (sh_by_wallet h)))" and "0 < ps"
    and "pos \<le> length (bucket_of w (sh_by_wallet h))"
    and "cursor = (if pos = 0 then None else Some (si_signature (bucket_of w (sh_by_wallet h) ! (pos - 1))))"
  shows "page_loop (static_transport h) w ps d n cursor cand =
    Inr (length (bucket_of w (sh_by_wallet h)) - pos < n * ps,
         cand @ filter (qualifying d) (take (n * ps) (drop pos (bucket_of w (sh_by_wallet h)))))"
  using assms(4,5)
proof (induction n arbitrary: pos cursor cand)
  case (Suc n)
  define B where "B = bucket_of w (sh_by_wallet h)"
  define page where "page = take ps (drop pos B)"
  have page: "get_signatures_for_address (static_transport h) w cursor ps = Inr page"
    using assms(1,2) Suc.prems after_signature_drop [of B "pos - 1"]
    by (simp add: static_transport_def page_def B_def Let_def)
  have len: "length page = min ps (length B - pos)" by (simp add: page_def)
  show ?case
  proof (cases "length B - pos < ps")
    case True
    then have "page = drop pos B" by (simp add: page_def)
    moreover have "take (Suc n * ps) (drop pos B) = drop pos B" using True by simp
    ultimately show ?thesis using page True assms(3) len unfolding B_def [symmetric]
      by (simp add: Let_def trans_less_add1)
  next
    case False
    then have full: "length page = ps" "page \<noteq> []" using len assms(3) by auto
    have "last page = B ! (pos + ps - 1)"
      using full False assms(3) unfolding page_def by (simp add: last_conv_nth)
    moreover have "pos + ps \<le> length B" using False Suc.prems(1) assms(3) unfolding B_def by linarith
    ultimately have "page_loop (static_transport h) w ps d n (Some (si_signature (last page))) c =
        Inr (length B - (pos + ps) < n * ps, c @ filter (qualifying d) (take (n * ps) (drop (pos + ps) B)))" for c
      using Suc.IH [of "pos + ps" "Some (si_signature (last page))" c] assms(3) unfolding B_def by simp
    moreover have "take (Suc n * ps) (drop pos B) = page @ take (n * ps) (drop (pos + ps) B)"
      by (simp add: page_def take_add ac_simps)
    moreover have "length B - pos < Suc n * ps \<longleftrightarrow> length B - (pos + ps) < n * ps" using False by auto
    ultimately show ?thesis using page full unfolding B_def [symmetric] by (simp add: Let_def)
  qed
qed simp

definition confirmed :: "static_history \<Rightarrow> string \<Rightarrow> int \<Rightarrow> millis \<Rightarrow> signature_info \<Rightarrow> bool" where
  "confirmed h w d bt s \<longleftrightarrow>
     (\<exists>tx. map_of (sh_transactions h) (si_signature s) = Some tx \<and> confirms_funding w d bt s tx \<noteq> None)"

lemma decode_loop_first:
  assumes "sh_raise_on_transaction h = {}" and "length ss \<le> budget"
  shows "case decode_loop (static_transport h) w d bt budget ss of
      None \<Rightarrow> \<forall>s \<in> set ss. \<not> confirmed h w d bt s
    | Some (s, tx, delta, t) \<Rightarrow> map_of (sh_transactions h) (si_signature s) = Some tx \<and>
        confirms_funding w d bt s tx = Some (delta, t) \<and>
        (\<exists>pre post. ss = pre @ s # post \<and> (\<forall>x \<in> set pre. \<not> confirmed h w d bt x))"
  using assms(2)
proof (induction ss arbitrary: budget)
  case (Cons s ss)
  then obtain b where b: "budget = Suc b" "length ss \<le> b" by (cases budget) auto
  have tx: "get_transaction (static_transport h) (si_signature s) = Inr (map_of (sh_transactions h) (si_signature s))"
    using assms(1) by (simp add: static_transport_def)
  show ?case
  proof (cases "confirmed h w d bt s")
    case True
    then obtain tx delta t where "map_of (sh_transactions h) (si_signature s) = Some tx" "confirms_funding w d bt s tx = Some (delta, t)"
      by (auto simp: confirmed_def)
    then show ?thesis using tx b(1) by (auto intro: exI [of _ "[]"])
  next
    case False
    then have "decode_loop (static_transport h) w d bt budget (s # ss) = decode_loop (static_transport h) w d bt b ss"
      using tx b(1) by (auto simp: confirmed_def split: option.splits)
    then show ?thesis using Cons.IH [OF b(2)] False
      by (auto split: option.splits) (metis append_Cons set_ConsD)
  qed
qed simp

lemma decode_loop_none:
  assumes "sh_raise_on_transaction h = {}" and "length ss \<le> budget" and "\<forall>s \<in> set ss. \<not> confirmed h w d bt s"
  shows "decode_loop (static_transport h) w d bt budget ss = None"
proof (cases "decode_loop (static_transport h) w d bt budget ss")
  case (Some q)
  obtain s tx delta t where q: "q = (s, tx, delta, t)" by (metis prod_cases4)
  have "s \<in> set ss \<and> confirmed h w d bt s"
    using decode_loop_first [OF assms(1,2), of w d bt] by (auto simp: Some q confirmed_def)
  with assms(3) show ?thesis by blast
qed

lemma decode_loop_some:
  assumes "sh_raise_on_transaction h = {}" and "length ss \<le> budget" and "x \<in> set ss" and "confirmed h w d bt x"
  obtains s tx delta t pre post where "decode_loop (static_transport h) w d bt budget ss = Some (s, tx, delta, t)"
    "map_of (sh_transactions h) (si_signature s) = Some tx" "confirms_funding w d bt s tx = Some (delta, t)"
    "ss = pre @ s # post" "\<forall>x \<in> set pre. \<not> confirmed h w d bt x"
proof (cases "decode_loop (static_transport h) w d bt budget ss")
  case None
  then show thesis using decode_loop_first [OF assms(1,2), of w d bt] assms(3,4) by simp
next
  case (Some q)
  obtain s tx delta t where q: "q = (s, tx, delta, t)" by (metis prod_cases4)
  from decode_loop_first [OF assms(1,2), of w d bt] obtain pre post where
    "map_of (sh_transactions h) (si_signature s) = Some tx" "confirms_funding w d bt s tx = Some (delta, t)"
    "ss = pre @ s # post" "\<forall>x \<in> set pre. \<not> confirmed h w d bt x"
    unfolding Some q option.case prod.case by blast
  then show thesis using that Some q by blast
qed

lemma confirms_funding_facts:
  "confirms_funding w d bt s tx = Some (delta, t) \<Longrightarrow> tm_slot tx \<le> d \<and> 1 \<le> delta \<and> t \<le> bt \<and>
     (tm_block_time_ms tx = Some t \<or> tm_block_time_ms tx = None \<and> si_block_time_ms s = Some t)"
  by (auto simp: confirms_funding_def Let_def split: if_splits option.splits)

definition history_ok :: "static_history \<Rightarrow> string \<Rightarrow> bool" where
  "history_ok h w \<longleftrightarrow> w \<notin> sh_raise_on_signatures h \<and> sh_raise_on_transaction h = {} \<and>
     distinct (map si_signature (bucket_of w (sh_by_wallet h))) \<and>
     (\<forall>s \<in> set (bucket_of w (sh_by_wallet h)). 0 \<le> si_slot s \<and> si_signature s \<noteq> [] \<and>
        (\<forall>b. si_block_time_ms s = Some b \<longrightarrow> 1 \<le> b) \<and>
        (\<forall>tx. map_of (sh_transactions h) (si_signature s) = Some tx \<longrightarrow>
           tm_slot tx = si_slot s \<and> (\<forall>b. tm_block_time_ms tx = Some b \<longrightarrow> 1 \<le> b)))"

definition funding_slots :: "static_history \<Rightarrow> string \<Rightarrow> int \<Rightarrow> millis \<Rightarrow> int set" where
  "funding_slots h w d bt = si_slot ` {s \<in> set (bucket_of w (sh_by_wallet h)). qualifying d s \<and> confirmed h w d bt s}"

lemma mk_undecodable:
  "w \<noteq> [] \<Longrightarrow> 0 \<le> d \<Longrightarrow> 1 \<le> bt \<Longrightarrow> 0 \<le> now \<Longrightarrow>
   \<exists>r. undecodable_result w d bt now = Inr r \<and> fr_status r = ''undecodable'' \<and> first_funding_slot r = None"
  by (simp add: undecodable_result_def mk_DevFundingAgeResult_def check_min_def guard_def)

lemma mk_found:
  assumes "w \<noteq> []" and "0 \<le> d" and "1 \<le> bt" and "0 \<le> now" and "0 \<le> sl" and "sl \<le> d" and "1 \<le> t" and "t \<le> bt"
    and "sig \<noteq> []" and "1 \<le> delta"
  shows "mk_DevFundingAgeResult
     \<lparr>fr_creator_wallet = w, fr_deploy_event_slot = d, fr_deploy_block_time_ms = bt,
      fr_status = ''found'', fr_funding_age_slots = Some (d - sl),
      fr_funding_age_ms = Some (bt - t), first_funding_slot = Some sl,
      first_funding_block_time_ms = Some t, first_funding_amount_lamports = Some delta,
      first_funding_signature = Some sig, fr_ingest_time_ms = now, fr_data_staleness_ms = max 0 (now - bt)\<rparr> =
   Inr \<lparr>fr_creator_wallet = w, fr_deploy_event_slot = d, fr_deploy_block_time_ms = bt,
      fr_status = ''found'', fr_funding_age_slots = Some (d - sl),
      fr_funding_age_ms = Some (bt - t), first_funding_slot = Some sl,
      first_funding_block_time_ms = Some t, first_funding_amount_lamports = Some delta,
      first_funding_signature = Some sig, fr_ingest_time_ms = now, fr_data_staleness_ms = max 0 (now - bt)\<rparr>"
  using assms by (simp add: mk_DevFundingAgeResult_def check_min_def guard_def)


definition demo_history :: "string set \<Rightarrow> static_history" where
  "demo_history failing =
     \<lparr>sh_by_wallet = [(''w'', [\<lparr>si_signature = ''s2'', si_slot = 20, si_block_time_ms = Some 2000, si_failed = False\<rparr>,
         \<lparr>si_signature = ''s1'', si_slot = 10, si_block_time_ms = Some 1000, si_failed = False\<rparr>])],
      sh_transactions = [(''s2'', \<lparr>tm_slot = 20, tm_block_time_ms = Some 2000, tm_failed = False, tm_account_keys = [''b'', ''w''],
           tm_pre_balances = [9, 5], tm_post_balances = [4, 10]\<rparr>),
         (''s1'', \<lparr>tm_slot = 10, tm_block_time_ms = Some 1000, tm_failed = False, tm_account_keys = [''a'', ''w''],
           tm_pre_balances = [9, 0], tm_post_balances = [4, 5]\<rparr>)],
      sh_raise_on_signatures = {}, sh_raise_on_transaction = failing\<rparr>"

definition demo_provider :: funding_provider where
  "demo_provider = \<lparr>fp_page_size = 1000, fp_max_pages = 10, fp_max_transactions_decoded = 50,
     fp_stats = \<lparr>fs_lookups = 0, fs_found = 0, undecodable_rpc_error = 0, undecodable_no_history = 0,
       undecodable_budget_exhausted = 0, undecodable_no_confirmed_funding = 0\<rparr>\<rparr>"

lemma demo_slots: "funding_slots (demo_history {}) ''w'' 30 3000 = {10, 20}"
proof -
  have "confirmed (demo_history {}) ''w'' 30 3000 s \<and> qualifying 30 s"
    if "s \<in> set (bucket_of ''w'' (sh_by_wallet (demo_history {})))" for s
    using that by (auto simp: demo_history_def bucket_of_def confirmed_def confirms_funding_def qualifying_def)
  then have "funding_slots (demo_history {}) ''w'' 30 3000 = si_slot ` set (bucket_of ''w'' (sh_by_wallet (demo_history {})))"
    unfolding funding_slots_def by blast
  then show ?thesis by (auto simp: demo_history_def bucket_of_def)
qed


text \<open>
  A failing call makes a later funding the first: when the transaction of the earliest credit cannot be
  fetched, the lookup goes on to the next candidate and reports its slot as the first funding, although
  an earlier one is in the history it has just read.
\<close>

theorem failed_fetch_reports_later_funding:
  "\<exists>p' r. funding_lookup (static_transport (demo_history {''s1''})) 5000 demo_provider ''w'' 30 3000 = (p', Inr r) \<and>
     is_found (dev_funding_result.truncate r) \<and> first_funding_slot r = Some 20 \<and>
     Min (funding_slots (demo_history {}) ''w'' 30 3000) = 10"
proof -
  have "case funding_lookup (static_transport (demo_history {''s1''})) 5000 demo_provider ''w'' 30 3000 of
      (p', Inl e) \<Rightarrow> False | (p', Inr r) \<Rightarrow> fr_status r = ''found'' \<and> first_funding_slot r = Some 20"
    by code_simp
  then show ?thesis using demo_slots
    by (auto simp: is_found_def dev_funding_result.truncate_def split: prod.splits sum.splits)
qed

section \<open>Funding lineage\<close>

lemma lookup_ignores_stats:
  assumes "fp_page_size p' = fp_page_size p" and "fp_max_pages p' = fp_max_pages p"
    and "fp_max_transactions_decoded p' = fp_max_transactions_decoded p"
  shows "snd (funding_lookup tr now p' w d bt) = snd (funding_lookup tr now p w d bt)"
  using assms by (simp add: funding_lookup_def Let_def split: sum.split prod.split option.split)

lemma lookup_keeps_sizes:
  "fp_page_size (fst (funding_lookup tr now p w d bt)) = fp_page_size p \<and>
   fp_max_pages (fst (funding_lookup tr now p w d bt)) = fp_max_pages p \<and>
   fp_max_transactions_decoded (fst (funding_lookup tr now p w d bt)) = fp_max_transactions_decoded p"
  by (simp add: funding_lookup_def Let_def split: sum.split prod.split option.split)

definition registry_sorted :: "lineage_registry \<Rightarrow> bool" where
  "registry_sorted r \<longleftrightarrow> index_ok ls_event_slot (lr_by_wallet r) \<and> index_ok fg_event_slot (lr_by_source r)"

lemma record_launch_sorted: "registry_sorted r \<Longrightarrow> registry_sorted (fst (record_launch r w m d))"
  by (simp add: record_launch_def registry_sorted_def Let_def insert_bucket_ok)

lemma record_source_sorted: "registry_sorted r \<Longrightarrow> registry_sorted (fst (record_funding_source r sw w m d))"
  by (simp add: record_funding_source_def registry_sorted_def Let_def insert_bucket_ok)

lemma prior_count_filter:
  "registry_sorted r \<Longrightarrow> prior_launch_count r w d = int (length (filter (\<lambda>x. ls_event_slot x < d) (bucket_of w (lr_by_wallet r))))"
  by (simp add: prior_launch_count_def registry_sorted_def index_ok_def bisect_left_split(3))

lemma seen_before_filter:
  "registry_sorted r \<Longrightarrow> funding_source_seen_before r sw w d \<longleftrightarrow>
     (\<exists>g \<in> set (bucket_of sw (lr_by_source r)). fg_event_slot g < d \<and> fg_creator_wallet g \<noteq> w)"
  by (auto simp: funding_source_seen_before_def Let_def registry_sorted_def index_ok_def bisect_left_split(1))

definition recorded :: "(string \<times> mint \<times> int) list \<Rightarrow> lineage_registry" where
  "recorded ls = foldl (\<lambda>r (w, m, sl). fst (record_launch r w m sl)) new_lineage_registry ls"

definition launches_ok :: "(string \<times> mint \<times> int) set \<Rightarrow> bool" where
  "launches_ok L \<longleftrightarrow> (\<forall>(w, m, sl) \<in> L. w \<noteq> [] \<and> m \<noteq> [] \<and> 0 \<le> sl \<and> (\<forall>sl'. (w, m, sl') \<in> L \<longrightarrow> sl' = sl))"

lemma launches_ok_subset: "launches_ok L \<Longrightarrow> L' \<subseteq> L \<Longrightarrow> launches_ok L'"
  unfolding launches_ok_def by blast

lemma recorded_snoc: "recorded (ls @ [(w, m, sl)]) = fst (record_launch (recorded ls) w m sl)"
  by (simp add: recorded_def)

lemma recorded_sorted: "registry_sorted (recorded ls)"
proof (induction ls rule: rev_induct)
  case Nil show ?case by (simp add: recorded_def new_lineage_registry_def registry_sorted_def index_ok_def)
next
  case (snoc x xs) then show ?case by (cases x) (simp add: recorded_snoc record_launch_sorted)
qed

lemma record_launch_buckets:
  assumes "w' \<noteq> []" and "m \<noteq> []" and "0 \<le> sl"
  shows "bucket_of w (lr_wallet_mints (fst (record_launch r w' m sl))) =
      (if w = w' \<and> m \<notin> set (bucket_of w (lr_wallet_mints r)) then m # bucket_of w (lr_wallet_mints r)
       else bucket_of w (lr_wallet_mints r))"
    and "bucket_of w (lr_by_wallet (fst (record_launch r w' m sl))) =
      (if w = w' \<and> m \<notin> set (bucket_of w (lr_wallet_mints r))
       then upd_bucket ls_event_slot \<lparr>ls_mint = m, ls_event_slot = sl\<rparr> (bucket_of w (lr_by_wallet r))
       else bucket_of w (lr_by_wallet r))"
  using assms by (auto simp: record_launch_def Let_def bucket_of_dict_set bucket_of_insert)

lemma distinct_upd_bucket: "distinct (map f (upd_bucket key v b)) \<longleftrightarrow> f v \<notin> f ` set b \<and> distinct (map f b)"
proof -
  let ?n = "bisect_left key b (key v)"
  obtain xs ys where b: "b = xs @ ys" "take ?n b = xs" "drop ?n b = ys" by (metis append_take_drop_id)
  then show ?thesis by (auto simp: upd_bucket_def insert_pos_def)
qed

lemma recorded_bucket:
  assumes "launches_ok (set ls)"
  shows "set (bucket_of w (lr_wallet_mints (recorded ls))) = {m. \<exists>sl. (w, m, sl) \<in> set ls} \<and>
    distinct (map ls_mint (bucket_of w (lr_by_wallet (recorded ls)))) \<and>
    (\<lambda>x. (ls_mint x, ls_event_slot x)) ` set (bucket_of w (lr_by_wallet (recorded ls))) = {(m, sl). (w, m, sl) \<in> set ls}"
  using assms
proof (induction ls rule: rev_induct)
  case Nil show ?case by (simp add: recorded_def new_lineage_registry_def)
next
  case (snoc l ls)
  obtain w' m sl where l: "l = (w', m, sl)" by (cases l)
  have ok: "w' \<noteq> []" "m \<noteq> []" "0 \<le> sl" and same: "\<And>sl'. (w', m, sl') \<in> set ls \<Longrightarrow> sl' = sl"
    using snoc.prems l by (auto simp: launches_ok_def)
  have IH: "set (bucket_of w (lr_wallet_mints (recorded ls))) = {m. \<exists>sl. (w, m, sl) \<in> set ls}"
    "distinct (map ls_mint (bucket_of w (lr_by_wallet (recorded ls))))"
    "(\<lambda>x. (ls_mint x, ls_event_slot x)) ` set (bucket_of w (lr_by_wallet (recorded ls))) = {(m, sl). (w, m, sl) \<in> set ls}"
    using snoc.IH launches_ok_subset [OF snoc.prems] by auto
  have mints: "ls_mint ` set (bucket_of w (lr_by_wallet (recorded ls))) = {m. \<exists>sl. (w, m, sl) \<in> set ls}"
  proof -
    have "ls_mint ` set (bucket_of w (lr_by_wallet (recorded ls))) = fst ` {(m, sl). (w, m, sl) \<in> set ls}"
      using arg_cong [OF IH(3), of "(`) fst"] unfolding image_image by simp
    also have "\<dots> = {m. \<exists>sl. (w, m, sl) \<in> set ls}" by (auto simp: image_iff)
    finally show ?thesis .
  qed
  note step = l recorded_snoc record_launch_buckets [OF ok] IH(1)
  show ?case
  proof (cases "w = w' \<and> (\<forall>sl. (w, m, sl) \<notin> set ls)")
    case True
    then have w: "w' = w" and fresh: "m \<notin> {m. \<exists>sl. (w, m, sl) \<in> set ls}" by auto
    have "{(m', sl'). (w, m', sl') \<in> set (ls @ [l])} = insert (m, sl) {(m', sl'). (w, m', sl') \<in> set ls}"
      "{m'. \<exists>sl'. (w, m', sl') \<in> set (ls @ [l])} = insert m {m'. \<exists>sl'. (w, m', sl') \<in> set ls}"
      by (auto simp: l w)
    then show ?thesis using fresh IH by (simp only:) (simp add: step record_launch_buckets [OF ok [unfolded w]] w mints set_upd_bucket distinct_upd_bucket)
  next
    case False
    then have "\<not> (w = w' \<and> m \<notin> set (bucket_of w (lr_wallet_mints (recorded ls))))" by (simp add: IH(1))
    then have "bucket_of w (lr_wallet_mints (recorded (ls @ [l]))) = bucket_of w (lr_wallet_mints (recorded ls))"
      "bucket_of w (lr_by_wallet (recorded (ls @ [l]))) = bucket_of w (lr_by_wallet (recorded ls))"
      unfolding l recorded_snoc record_launch_buckets [OF ok] by (simp_all only: if_False)
    moreover have "{(m', sl'). (w, m', sl') \<in> set (ls @ [l])} = {(m', sl'). (w, m', sl') \<in> set ls}"
      "{m'. \<exists>sl'. (w, m', sl') \<in> set (ls @ [l])} = {m'. \<exists>sl'. (w, m', sl') \<in> set ls}"
      using False same by (auto simp: l)
    ultimately show ?thesis using IH by (simp only:)
  qed
qed

text \<open>
  C37. Earlier launches are counted once each. However often and in whatever order the launches of the
  bus are delivered, the count at a slot is the number of different mints the wallet launched strictly
  before it.
\<close>

theorem prior_launches_counted_once:
  assumes "launches_ok (set ls)"
  shows "prior_launch_count (recorded ls) w d = int (card {m. \<exists>sl < d. (w, m, sl) \<in> set ls})"
proof -
  let ?b = "bucket_of w (lr_by_wallet (recorded ls))"
  let ?before = "filter (\<lambda>x. ls_event_slot x < d) ?b"
  note b = recorded_bucket [OF assms, of w]
  have "distinct (map ls_mint ?before)" using b by (simp add: distinct_map_filter)
  then have "length ?before = card (ls_mint ` set ?before)" by (metis distinct_card length_map set_map)
  also have "ls_mint ` set ?before = {m. \<exists>sl < d. (w, m, sl) \<in> set ls}"
  proof -
    have "(w, m, sl) \<in> set ls \<longleftrightarrow> (\<exists>x \<in> set ?b. m = ls_mint x \<and> sl = ls_event_slot x)" for m sl
      using b by (auto simp: set_eq_iff image_iff)
    then show ?thesis by auto
  qed
  finally show ?thesis by (simp add: prior_count_filter recorded_sorted)
qed

theorem prior_launches_counted_once_witness:
  "prior_launch_count (recorded [(''w'', ''a'', 5), (''w'', ''b'', 3), (''w'', ''a'', 5), (''v'', ''c'', 1)]) ''w'' 5 = 1"
proof -
  let ?ls = "[(''w'', ''a'', 5), (''w'', ''b'', 3), (''w'', ''a'', 5), (''v'', ''c'', 1)] :: (string \<times> mint \<times> int) list"
  have "{m. \<exists>sl < 5. (''w'', m, sl) \<in> set ?ls} = {''b''}" by auto
  then show ?thesis using prior_launches_counted_once [of ?ls "''w''" 5] by (simp add: launches_ok_def)
qed

end
