(* ===== verification/Venue.thy ===== *)
theory Venue
  imports Signer Conviction_Gates
begin

text \<open>
  The production venue (\<open>execution/jito_jupiter_venue.py\<close>) and the builder of its transactions
  (\<open>execution/tx_builder.py\<close>): quote, build, sign, simulate, land with retries, reconcile. The node and the
  signer are parameters with a state of their own; every call may raise. An operation is a function on
  that state which returns a value or an exception, and it records the calls it makes, so that the order
  of simulations and sends can be stated. Base64 and JSON text of an unsigned transaction is the payload
  it encodes; the package that compiles transactions (\<open>solders\<close>) enters through what it accepts. What a
  truthful node promises is the locale \<open>honest_node\<close>.
\<close>

section \<open>Definitions\<close>

subsection \<open>Contracts of the venue (\<open>contracts/venue.py\<close>, \<open>execution/exceptions.py\<close>)\<close>

datatype submit_kind = SIMULATION | DRY_RUN | DEVNET | LIVE

datatype trade_side = Side_buy | Side_sell

datatype venue_exc =
    VenueError string
  | Signer_refused string
  | SimulationReverted string
  | QuoteStalenessError string
  | LiveSubmitBlocked string
  | DevnetSubmitBlocked string
  | Other_exception

record quote =
  qt_mint :: mint
  qt_side :: trade_side
  qt_price :: decimal
  amount_in_base :: int
  amount_out_base :: int
  valid_until_slot :: int

record venue_sim =
  sim_success :: bool
  cu_consumed :: int
  revert_reason :: "string option"

record land_result =
  lr_submitted :: bool
  lr_reason :: string
  lr_signature :: "string option"
  lr_land_slot :: "int option"

record venue_fill = fill_result +
  vf_land_slot :: "int option"
  vf_tip_lamports :: lamports
  vf_priority_lamports :: lamports

record venue_event = launch_event +
  venue_program_id :: string
  le_source :: string

subsection \<open>Building transactions (\<open>tx_builder.py\<close>)\<close>

text \<open>
  The allow-list file as read: the name and identifier of every program, unless an entry lacks one of
  them, and the tip accounts, unless the file has no such key.
\<close>

record allowlist_file =
  af_programs :: "(string \<times> string) list option"
  af_tip_accounts :: "string list option"

definition load_program_ids :: "allowlist_file option \<Rightarrow> (string \<times> string) list" where
  "load_program_ids read =
     (case read of
        None \<Rightarrow> []
      | Some f \<Rightarrow> (case af_programs f of None \<Rightarrow> [] | Some ps \<Rightarrow> foldl (\<lambda>d (k, v). dict_set k v d) [] ps))"

definition get_program_ids :: "(string \<times> string) list \<Rightarrow> allowlist_file option \<Rightarrow> (string \<times> string) list" where
  "get_program_ids loaded read = (if loaded = [] then load_program_ids read else loaded)"

definition CU_CEILING :: int where "CU_CEILING = 400000"

definition size_cu_limit :: "int \<Rightarrow> int" where
  "size_cu_limit simulated =
     (if simulated \<le> 0 then CU_CEILING
      else min (trunc (dmul (of_int simulated) (5 / 4))) CU_CEILING)"

record stub_payload =
  st_intent_kind :: string
  st_mint :: mint
  st_client_intent_id :: client_id
  st_sol_in_lamports :: lamports
  st_tip_lamports :: lamports
  st_cu_price_microlamports :: int
  st_cu_limit :: int
  st_pool_program :: string
  st_blockhash :: string
  st_extra :: "(string \<times> audit) list"

record account_meta =
  am_pubkey :: string
  am_is_signer :: bool
  am_is_writable :: bool

record instruction =
  in_program_id :: string
  in_accounts :: "account_meta list"
  in_data :: "byte list"

text \<open>The two compute-budget instructions come from \<open>solders\<close> and stand for themselves.\<close>

datatype entry_ix = Set_compute_unit_limit int | Set_compute_unit_price int | Ix instruction

datatype tx_bytes = Stub stub_payload | Compiled string "entry_ix list" string

record solders_lib =
  pubkey_ok :: "string \<Rightarrow> bool"
  hash_ok :: "string \<Rightarrow> bool"
  compile_ok :: "string \<Rightarrow> entry_ix list \<Rightarrow> string \<Rightarrow> bool"

definition ebind :: "venue_exc + 'a \<Rightarrow> ('a \<Rightarrow> venue_exc + 'b) \<Rightarrow> venue_exc + 'b" where
  "ebind r f = (case r of Inl e \<Rightarrow> Inl e | Inr a \<Rightarrow> f a)"

definition require :: "bool \<Rightarrow> venue_exc \<Rightarrow> venue_exc + unit" where
  "require ok e = (if ok then Inr () else Inl e)"

definition lookup_id :: "(string \<times> string) list \<Rightarrow> string \<Rightarrow> string \<Rightarrow> venue_exc + string" where
  "lookup_id d key reason =
     (case map_of d key of None \<Rightarrow> Inl (VenueError reason) | Some v \<Rightarrow> if v = [] then Inl (VenueError reason) else Inr v)"

definition get_tip_accounts_from_allowlist :: "allowlist_file option \<Rightarrow> venue_exc + string list" where
  "get_tip_accounts_from_allowlist read =
     (case read of
        None \<Rightarrow> Inl (VenueError ''tip_accounts_load_failed'')
      | Some f \<Rightarrow>
          (case af_tip_accounts f of
             None \<Rightarrow> Inl (VenueError ''tip_accounts_key_missing'')
           | Some accounts \<Rightarrow> if accounts = [] then Inl (VenueError ''tip_accounts_empty'') else Inr accounts))"

definition zero_key :: string where
  "zero_key = replicate 32 (CHR ''1'')"

definition build_swap_accounts ::
  "solders_lib \<Rightarrow> string \<Rightarrow> (string \<times> string) list \<Rightarrow> mint \<Rightarrow> (string \<times> string) list \<Rightarrow> venue_exc + account_meta list" where
  "build_swap_accounts lib wallet pool_keys m program_ids =
     ebind (require (pubkey_ok lib wallet) Other_exception) (\<lambda>_.
     ebind (lookup_id program_ids ''spl_token_program'' ''program_id_missing'') (\<lambda>spl_token.
     ebind (lookup_id program_ids ''associated_token_account_program'' ''program_id_missing'') (\<lambda>ata.
     let pk = (\<lambda>k. case map_of pool_keys k of None \<Rightarrow> zero_key | Some v \<Rightarrow> v) in
     ebind (require (\<forall>k \<in> set [spl_token, ata, pk ''pool'', pk ''vault_sol'', pk ''vault_token'', m]. pubkey_ok lib k)
              Other_exception) (\<lambda>_.
     Inr [\<lparr>am_pubkey = wallet, am_is_signer = True, am_is_writable = True\<rparr>,
          \<lparr>am_pubkey = pk ''pool'', am_is_signer = False, am_is_writable = True\<rparr>,
          \<lparr>am_pubkey = pk ''vault_sol'', am_is_signer = False, am_is_writable = True\<rparr>,
          \<lparr>am_pubkey = pk ''vault_token'', am_is_signer = False, am_is_writable = True\<rparr>,
          \<lparr>am_pubkey = m, am_is_signer = False, am_is_writable = False\<rparr>,
          \<lparr>am_pubkey = spl_token, am_is_signer = False, am_is_writable = False\<rparr>,
          \<lparr>am_pubkey = ata, am_is_signer = False, am_is_writable = False\<rparr>]))))"

definition pack_u64_big :: "int \<Rightarrow> venue_exc + byte list" where
  "pack_u64_big n = (if 0 \<le> n \<and> n < 2 ^ 64 then Inr (to_bytes_big 8 n) else Inl Other_exception)"

definition pack_u64_little :: "int \<Rightarrow> venue_exc + byte list" where
  "pack_u64_little n = (if 0 \<le> n \<and> n < 2 ^ 64 then Inr (rev (to_bytes_big 8 n)) else Inl Other_exception)"

definition SWAP_DISCRIMINATOR :: "byte list" where
  "SWAP_DISCRIMINATOR = [0x66, 0x06, 0x3d, 0x12, 0x01, 0xda, 0xeb, 0xea]"

definition TIP_DISCRIMINATOR :: "byte list" where
  "TIP_DISCRIMINATOR = [0x00, 0x00, 0x00, 0x00, 0x02, 0x00, 0x00, 0x00]"

definition tip_instruction :: "string \<Rightarrow> string \<Rightarrow> string \<Rightarrow> lamports \<Rightarrow> venue_exc + instruction" where
  "tip_instruction system_program wallet tip_account tip =
     ebind (pack_u64_little tip) (\<lambda>amount.
     Inr \<lparr>in_program_id = system_program,
          in_accounts = [\<lparr>am_pubkey = wallet, am_is_signer = True, am_is_writable = True\<rparr>,
                         \<lparr>am_pubkey = tip_account, am_is_signer = False, am_is_writable = True\<rparr>],
          in_data = TIP_DISCRIMINATOR @ amount\<rparr>)"

definition build_real_entry_tx ::
  "solders_lib \<Rightarrow> allowlist_file option \<Rightarrow> string \<Rightarrow> (string \<times> string) list \<Rightarrow> entry_intent \<Rightarrow> int \<Rightarrow> int \<Rightarrow> string \<Rightarrow>
   venue_exc + tx_bytes" where
  "build_real_entry_tx lib read wallet pool_keys i min_tokens_out cu_limit blockhash =
     (let program_ids = load_program_ids read in
      ebind (lookup_id program_ids ''system_program'' ''program_id_missing'') (\<lambda>system_program.
      ebind (require (pubkey_ok lib system_program) Other_exception) (\<lambda>_.
      ebind (case map_of pool_keys ''program_id'' of
               Some p \<Rightarrow> if p \<noteq> [] then Inr p else lookup_id pool_keys ''program'' ''pool_program_id_missing''
             | None \<Rightarrow> lookup_id pool_keys ''program'' ''pool_program_id_missing'') (\<lambda>pool_program.
      ebind (require (pubkey_ok lib pool_program \<and> pubkey_ok lib wallet) Other_exception) (\<lambda>_.
      ebind (get_tip_accounts_from_allowlist read) (\<lambda>tip_accounts.
      ebind (require (pubkey_ok lib (tip_accounts ! 0) \<and> 0 \<le> cu_limit \<and> cu_limit < 2 ^ 32 \<and>
                      0 \<le> en_cu_price_microlamports i \<and> en_cu_price_microlamports i < 2 ^ 64) Other_exception) (\<lambda>_.
      ebind (build_swap_accounts lib wallet pool_keys (en_mint i) program_ids) (\<lambda>accounts.
      ebind (pack_u64_big (en_sol_in_lamports i)) (\<lambda>sol_in.
      ebind (pack_u64_big min_tokens_out) (\<lambda>min_out.
      ebind (tip_instruction system_program wallet (tip_accounts ! 0) (en_tip_lamports i)) (\<lambda>tip_ix.
      let ixs = [Set_compute_unit_limit cu_limit, Set_compute_unit_price (en_cu_price_microlamports i),
                 Ix \<lparr>in_program_id = pool_program, in_accounts = accounts, in_data = SWAP_DISCRIMINATOR @ sol_in @ min_out\<rparr>,
                 Ix tip_ix] in
      ebind (require (hash_ok lib blockhash \<and> compile_ok lib wallet ixs blockhash) Other_exception) (\<lambda>_.
      Inr (Compiled wallet ixs blockhash)))))))))))))"

record unsigned_tx =
  ut_bytes :: tx_bytes
  ut_intent_kind :: string
  ut_mint :: mint
  ut_client_intent_id :: client_id

definition build_entry_tx ::
  "solders_lib option \<Rightarrow> allowlist_file option \<Rightarrow> entry_intent \<Rightarrow> (string \<times> string) list \<Rightarrow> string \<Rightarrow> string \<Rightarrow> string \<Rightarrow> int \<Rightarrow> int \<Rightarrow>
   unsigned_tx" where
  "build_entry_tx solders read i pool_keys pool_program wallet blockhash cu_limit min_tokens_out =
     (let stub = Stub
            \<lparr>st_intent_kind = ''ENTRY'', st_mint = en_mint i, st_client_intent_id = en_client_intent_id i,
             st_sol_in_lamports = en_sol_in_lamports i, st_tip_lamports = en_tip_lamports i,
             st_cu_price_microlamports = en_cu_price_microlamports i, st_cu_limit = cu_limit,
             st_pool_program = pool_program, st_blockhash = blockhash,
             st_extra = [(''min_tokens_out'', Audit [] [of_int min_tokens_out])]\<rparr> in
      \<lparr>ut_bytes =
         (case solders of
            None \<Rightarrow> stub
          | Some lib \<Rightarrow>
              (case build_real_entry_tx lib read wallet pool_keys i min_tokens_out cu_limit blockhash of
                 Inl _ \<Rightarrow> stub
               | Inr b \<Rightarrow> b)),
       ut_intent_kind = ''ENTRY'', ut_mint = en_mint i, ut_client_intent_id = en_client_intent_id i\<rparr>)"

text \<open>An exit or a reduction, with the fields the venue reads of either.\<close>

type_synonym sell_intent = "exit_intent + reduce_intent"

fun sell_kind :: "sell_intent \<Rightarrow> string" where
  "sell_kind (Inl _) = ''EXIT''"
| "sell_kind (Inr _) = ''REDUCE''"

fun sell_mint :: "sell_intent \<Rightarrow> mint" where
  "sell_mint (Inl i) = ex_mint i"
| "sell_mint (Inr i) = rd_mint i"

fun sell_id :: "sell_intent \<Rightarrow> client_id" where
  "sell_id (Inl i) = ex_client_intent_id i"
| "sell_id (Inr i) = rd_client_intent_id i"

definition build_exit_tx :: "sell_intent \<Rightarrow> string \<Rightarrow> string \<Rightarrow> int \<Rightarrow> lamports \<Rightarrow> int \<Rightarrow> unsigned_tx" where
  "build_exit_tx i jupiter_swap blockhash cu_limit tip cu_price =
     \<lparr>ut_bytes = Stub
        \<lparr>st_intent_kind = sell_kind i, st_mint = sell_mint i, st_client_intent_id = sell_id i,
         st_sol_in_lamports = 0, st_tip_lamports = tip, st_cu_price_microlamports = cu_price,
         st_cu_limit = cu_limit, st_pool_program = ''jupiter_aggregator_v6'', st_blockhash = blockhash,
         st_extra = (if jupiter_swap = [] then []
                     else [(''jupiter_swap_b64'', Audit (take 32 jupiter_swap @ ''...(truncated)'') [])])\<rparr>,
      ut_intent_kind = sell_kind i, ut_mint = sell_mint i, ut_client_intent_id = sell_id i\<rparr>"

subsection \<open>The node and the signer\<close>

record signed_tx =
  sx_bytes :: string
  sx_client_intent_id :: client_id

record land_attempt =
  la_submitted :: bool
  la_signature :: "string option"
  la_land_slot :: "int option"
  la_reason :: string

record signature_status =
  ss_confirmed :: bool
  ss_slot :: "int option"
  ss_failed :: bool

record confirm_result =
  cr_confirmed :: bool
  cr_land_slot :: "int option"
  cr_error :: "string option"

text \<open>The last two operations of a node client are optional, as the venue asks for them by name.\<close>

record 'e node_client =
  rpc_get_latest_blockhash :: "'e \<Rightarrow> 'e \<times> (venue_exc + string)"
  rpc_get_current_slot :: "'e \<Rightarrow> 'e \<times> (venue_exc + int)"
  rpc_simulate_transaction :: "'e \<Rightarrow> string \<Rightarrow> 'e \<times> (venue_exc + venue_sim)"
  rpc_send_transaction :: "'e \<Rightarrow> string \<Rightarrow> 'e \<times> (venue_exc + land_attempt)"
  rpc_get_signature_statuses :: "('e \<Rightarrow> string list \<Rightarrow> 'e \<times> (venue_exc + signature_status option list)) option"
  rpc_confirm_transaction :: "('e \<Rightarrow> string \<Rightarrow> int \<Rightarrow> rat \<Rightarrow> 'e \<times> (venue_exc + confirm_result)) option"

type_synonym 'e signer_client = "'e \<Rightarrow> unsigned_tx \<Rightarrow> string \<Rightarrow> 'e \<times> (venue_exc + signed_tx)"

text \<open>
  The venue object. The readings of the environment are fields: whether \<open>DRY_RUN_ENABLED\<close> is \<open>false\<close>, whether
  \<open>RPC_DEVNET\<close> is set, and the numbers, \<open>None\<close> when the text is not one.
\<close>

record 'e jito_venue =
  vn_wallet_pubkey :: string
  vn_rpc :: "'e node_client"
  vn_signer :: "'e signer_client"
  vn_live_submit_enabled :: bool
  vn_cluster :: string
  vn_dry_run_env_disabled :: bool
  vn_rpc_devnet_set :: bool
  vn_default_tip :: "lamports option"
  vn_default_cu_price :: "int option"
  vn_confirm_params :: "(int \<times> rat) option"
  vn_solders :: "solders_lib option"
  vn_allowlist :: "allowlist_file option"
  vn_local_signature :: "string \<Rightarrow> string"

definition dry_run_env_disabled :: "string option \<Rightarrow> bool" where
  "dry_run_env_disabled setting = (map lower_char (py_strip (case setting of None \<Rightarrow> ''true'' | Some v \<Rightarrow> v)) = ''false'')"

definition resolve_cluster :: "string option \<Rightarrow> string option \<Rightarrow> string" where
  "resolve_cluster given setting =
     map lower_char (py_strip
       (case given of
          Some c \<Rightarrow> if c \<noteq> [] then c else (case setting of None \<Rightarrow> ''mainnet'' | Some v \<Rightarrow> v)
        | None \<Rightarrow> (case setting of None \<Rightarrow> ''mainnet'' | Some v \<Rightarrow> v)))"

text \<open>The calls an operation makes, in their order; a simulation and a send with their outcome.\<close>

datatype venue_call =
    Called_blockhash
  | Called_slot
  | Called_sign unsigned_tx
  | Called_simulate string bool
  | Called_send string
  | Called_statuses string
  | Called_confirm string

record 'e jito_state =
  vs_env :: 'e
  submitted_intent_ids :: "client_id list"
  vs_calls :: "venue_call list"

type_synonym ('e, 'a) venue_op = "'e jito_state \<Rightarrow> 'e jito_state \<times> (venue_exc + 'a)"

definition vreturn :: "'a \<Rightarrow> ('e, 'a) venue_op" where
  "vreturn a = (\<lambda>s. (s, Inr a))"

definition vlift :: "venue_exc + 'a \<Rightarrow> ('e, 'a) venue_op" where
  "vlift r = (\<lambda>s. (s, r))"

definition vbind :: "('e, 'a) venue_op \<Rightarrow> ('a \<Rightarrow> ('e, 'b) venue_op) \<Rightarrow> ('e, 'b) venue_op" where
  "vbind m f = (\<lambda>s. case m s of (s', Inl e) \<Rightarrow> (s', Inl e) | (s', Inr a) \<Rightarrow> f a s')"

definition vcall :: "(venue_exc + 'a \<Rightarrow> venue_call) \<Rightarrow> ('e \<Rightarrow> 'e \<times> (venue_exc + 'a)) \<Rightarrow> ('e, 'a) venue_op" where
  "vcall note f = (\<lambda>s. case f (vs_env s) of (e, r) \<Rightarrow> (s\<lparr>vs_env := e, vs_calls := vs_calls s @ [note r]\<rparr>, r))"

subsection \<open>The venue (\<open>jito_jupiter_venue.py\<close>)\<close>

definition mk_JitoJupiterVenue :: "'e node_client option \<Rightarrow> 'e signer_client option \<Rightarrow> 'e jito_venue \<Rightarrow> venue_exc + 'e jito_venue" where
  "mk_JitoJupiterVenue rpc signer v =
     (case (rpc, signer) of
        (Some r, Some s) \<Rightarrow> Inr (v\<lparr>vn_rpc := r, vn_signer := s\<rparr>)
      | _ \<Rightarrow> Inl (VenueError ''venue_misconfigured_no_client_injected''))"

definition venue_submit_mode :: "'e jito_venue \<Rightarrow> submit_kind" where
  "venue_submit_mode v =
     (if vn_cluster v = ''devnet'' then DEVNET
      else if vn_live_submit_enabled v \<and> vn_dry_run_env_disabled v then LIVE
      else DRY_RUN)"

definition get_blockhash :: "'e jito_venue \<Rightarrow> ('e, string) venue_op" where
  "get_blockhash v = vcall (\<lambda>_. Called_blockhash) (rpc_get_latest_blockhash (vn_rpc v))"

definition get_slot :: "'e jito_venue \<Rightarrow> ('e, int) venue_op" where
  "get_slot v = vcall (\<lambda>_. Called_slot) (rpc_get_current_slot (vn_rpc v))"

definition QUOTE_MAX_AGE_SLOTS :: int where "QUOTE_MAX_AGE_SLOTS = 3"
definition DEFAULT_CU_LIMIT :: int where "DEFAULT_CU_LIMIT = 300000"
definition MIN_TOKENS_OUT_GUARD :: int where "MIN_TOKENS_OUT_GUARD = 1"
definition MAX_LAND_ATTEMPTS :: nat where "MAX_LAND_ATTEMPTS = 3"

definition BLOCKHASH_EXPIRY_RETRY_REASONS :: "string list" where
  "BLOCKHASH_EXPIRY_RETRY_REASONS = [''blockhash_expired'', ''BlockhashNotFound'', ''node_lag'']"

definition venue_quote :: "'e jito_venue \<Rightarrow> mint \<Rightarrow> trade_side \<Rightarrow> int \<Rightarrow> ('e, quote) venue_op" where
  "venue_quote v m side amount =
     vbind (get_slot v) (\<lambda>current_slot.
       if amount \<le> 0
       then vreturn \<lparr>qt_mint = m, qt_side = side, qt_price = 0, amount_in_base = 0, amount_out_base = 0,
                     valid_until_slot = current_slot + QUOTE_MAX_AGE_SLOTS\<rparr>
       else let out = amount * 9975 div 10000 in
         vreturn \<lparr>qt_mint = m, qt_side = side,
                  qt_price = (if 0 < out then ddiv (of_int amount) (of_int out) else 0),
                  amount_in_base = amount, amount_out_base = out,
                  valid_until_slot = current_slot + QUOTE_MAX_AGE_SLOTS\<rparr>)"

definition venue_sign :: "'e jito_venue \<Rightarrow> unsigned_tx \<Rightarrow> string \<Rightarrow> ('e, signed_tx) venue_op" where
  "venue_sign v tx wallet = vcall (\<lambda>_. Called_sign tx) (\<lambda>e. vn_signer v e tx wallet)"

definition venue_simulate :: "'e jito_venue \<Rightarrow> signed_tx \<Rightarrow> ('e, venue_sim) venue_op" where
  "venue_simulate v tx =
     vcall (\<lambda>r. Called_simulate (sx_bytes tx) (case r of Inl _ \<Rightarrow> False | Inr sim \<Rightarrow> sim_success sim))
       (\<lambda>e. rpc_simulate_transaction (vn_rpc v) e (sx_bytes tx))"

definition sim_revert :: "venue_sim \<Rightarrow> string" where
  "sim_revert sim = ''sim_revert:'' @ (case revert_reason sim of None \<Rightarrow> ''unknown'' | Some r \<Rightarrow> if r = [] then ''unknown'' else r)"

definition assert_sim_success :: "venue_sim \<Rightarrow> venue_exc + unit" where
  "assert_sim_success sim = require (sim_success sim) (SimulationReverted (sim_revert sim))"

definition assert_quote_fresh :: "quote \<Rightarrow> int \<Rightarrow> venue_exc + unit" where
  "assert_quote_fresh q current_slot = require (current_slot \<le> valid_until_slot q) (QuoteStalenessError ''quote_stale'')"

definition compute_min_tokens_out :: "int \<Rightarrow> bps \<Rightarrow> venue_exc + int" where
  "compute_min_tokens_out amount_out slip =
     (if slip < 0 \<or> 10000 < slip then Inl Other_exception else Inr (amount_out * (10000 - slip) div 10000))"

definition compute_entry_slippage_bps :: "int \<Rightarrow> int \<Rightarrow> bps" where
  "compute_entry_slippage_bps amount_in amount_out =
     (if amount_out \<le> 0 \<or> amount_in \<le> 0 then 0 else max 0 ((amount_in - amount_out) * 10000 div amount_in))"

definition compute_priority_lamports :: "int \<Rightarrow> int \<Rightarrow> lamports" where
  "compute_priority_lamports cu_price cu_limit = cu_price * cu_limit div 1000000"

definition not_submitted :: "string \<Rightarrow> land_result" where
  "not_submitted reason = \<lparr>lr_submitted = False, lr_reason = reason, lr_signature = None, lr_land_slot = None\<rparr>"

definition venue_send :: "'e jito_venue \<Rightarrow> signed_tx \<Rightarrow> ('e, land_attempt) venue_op" where
  "venue_send v tx = vcall (\<lambda>_. Called_send (sx_bytes tx)) (\<lambda>e. rpc_send_transaction (vn_rpc v) e (sx_bytes tx))"

definition send_once :: "'e jito_venue \<Rightarrow> signed_tx \<Rightarrow> ('e, land_result) venue_op" where
  "send_once v tx =
     vbind (venue_send v tx) (\<lambda>a.
       vreturn (if la_submitted a
         then \<lparr>lr_submitted = True, lr_reason = ''landed'', lr_signature = la_signature a, lr_land_slot = la_land_slot a\<rparr>
         else not_submitted (la_reason a)))"

definition send_and_confirm_devnet :: "'e jito_venue \<Rightarrow> signed_tx \<Rightarrow> ('e, land_result) venue_op" where
  "send_and_confirm_devnet v tx =
     vbind (venue_send v tx) (\<lambda>a.
       case (if la_submitted a then la_signature a else None) of
         None \<Rightarrow> vreturn (not_submitted (la_reason a))
       | Some sig \<Rightarrow>
           if sig = [] then vreturn (not_submitted (la_reason a))
           else (case vn_confirm_params v of
               None \<Rightarrow> vlift (Inl Other_exception)
             | Some (polls, interval) \<Rightarrow>
                 (case rpc_confirm_transaction (vn_rpc v) of
                    None \<Rightarrow> vlift (Inl Other_exception)
                  | Some confirm \<Rightarrow>
                      vbind (vcall (\<lambda>_. Called_confirm sig) (\<lambda>e. confirm e sig polls interval)) (\<lambda>c.
                        vreturn (if cr_confirmed c
                          then \<lparr>lr_submitted = True, lr_reason = ''devnet_landed'', lr_signature = Some sig, lr_land_slot = cr_land_slot c\<rparr>
                          else \<lparr>lr_submitted = True,
                                lr_reason = ''devnet_confirm_failed:'' @
                                  (case cr_error c of None \<Rightarrow> ''timeout'' | Some e \<Rightarrow> if e = [] then ''timeout'' else e),
                                lr_signature = Some sig, lr_land_slot = None\<rparr>)))))"

definition assert_devnet_allowed :: "'e jito_venue \<Rightarrow> venue_exc + unit" where
  "assert_devnet_allowed v =
     require (rpc_confirm_transaction (vn_rpc v) \<noteq> None \<or> vn_rpc_devnet_set v) (DevnetSubmitBlocked ''devnet_rpc_not_configured'')"

definition venue_assert_live_allowed :: "'e jito_venue \<Rightarrow> venue_exc + unit" where
  "venue_assert_live_allowed v =
     require (vn_live_submit_enabled v \<and> vn_dry_run_env_disabled v) (LiveSubmitBlocked ''live_requires_dry_run_disabled_and_ceo_auth'')"

definition assert_submit_allowed :: "'e jito_venue \<Rightarrow> venue_exc + unit" where
  "assert_submit_allowed v = (if venue_submit_mode v = DEVNET then assert_devnet_allowed v else venue_assert_live_allowed v)"

definition send_in_mode :: "'e jito_venue \<Rightarrow> signed_tx \<Rightarrow> ('e, land_result) venue_op" where
  "send_in_mode v tx = (if venue_submit_mode v = DEVNET then send_and_confirm_devnet v tx else send_once v tx)"

definition venue_land :: "'e jito_venue \<Rightarrow> signed_tx \<Rightarrow> ('e, land_result) venue_op" where
  "venue_land v tx =
     (if venue_submit_mode v = DRY_RUN then vreturn (not_submitted ''dry_run'')
      else vbind (vlift (assert_submit_allowed v)) (\<lambda>_. send_in_mode v tx))"

text \<open>The check before a retry: did the attempt that was reported as failed land after all?\<close>

definition recheck_signature_before_resend :: "'e jito_venue \<Rightarrow> signed_tx \<Rightarrow> ('e, land_result option) venue_op" where
  "recheck_signature_before_resend v tx =
     (case rpc_get_signature_statuses (vn_rpc v) of
        None \<Rightarrow> vreturn None
      | Some statuses \<Rightarrow>
          let sig = vn_local_signature v (sx_bytes tx) in
          vbind (vcall (\<lambda>_. Called_statuses sig) (\<lambda>e. statuses e [sig])) (\<lambda>sts.
            vreturn (case sts of
                Some st # _ \<Rightarrow>
                  if ss_confirmed st \<and> \<not> ss_failed st
                  then Some \<lparr>lr_submitted = True, lr_reason = ''landed'', lr_signature = Some sig, lr_land_slot = ss_slot st\<rparr>
                  else None
              | _ \<Rightarrow> None)))"

text \<open>
  The retry loop of entries and of exits, which differ in how they rebuild the transaction with a fresh
  block hash. The counter is the number of attempts left.
\<close>

fun attempt_loop ::
  "'e jito_venue \<Rightarrow> (string \<Rightarrow> unsigned_tx) \<Rightarrow> string \<Rightarrow> nat \<Rightarrow> bool \<Rightarrow> signed_tx \<Rightarrow> string \<Rightarrow> ('e, land_result) venue_op" where
  "attempt_loop v rebuild wallet 0 retry tx last_reason = vreturn (not_submitted last_reason)"
| "attempt_loop v rebuild wallet (Suc n) retry tx last_reason =
     vbind
       (if \<not> retry then vreturn (Inr tx)
        else vbind (recheck_signature_before_resend v tx) (\<lambda>phantom.
          case phantom of
            Some hit \<Rightarrow> vreturn (Inl hit)
          | None \<Rightarrow>
              vbind (get_blockhash v) (\<lambda>fresh.
              vbind (venue_sign v (rebuild fresh) wallet) (\<lambda>tx'.
              vbind (venue_simulate v tx') (\<lambda>sim.
              vreturn (if sim_success sim then Inr tx' else Inl (not_submitted (sim_revert sim))))))))
       (\<lambda>prep. case prep of
          Inl result \<Rightarrow> vreturn result
        | Inr tx' \<Rightarrow>
            vbind (send_in_mode v tx') (\<lambda>result.
              if lr_submitted result then vreturn result
              else if lr_reason result \<notin> set BLOCKHASH_EXPIRY_RETRY_REASONS then vreturn (not_submitted (lr_reason result))
              else attempt_loop v rebuild wallet n True tx' (lr_reason result)))"

definition land_with_retry :: "'e jito_venue \<Rightarrow> (string \<Rightarrow> unsigned_tx) \<Rightarrow> string \<Rightarrow> signed_tx \<Rightarrow> ('e, land_result) venue_op" where
  "land_with_retry v rebuild wallet tx =
     (if venue_submit_mode v = DRY_RUN then vreturn (not_submitted ''dry_run'')
      else vbind (vlift (assert_submit_allowed v)) (\<lambda>_.
        attempt_loop v rebuild wallet MAX_LAND_ATTEMPTS False tx ''unknown''))"

definition no_fill :: "string \<Rightarrow> int option \<Rightarrow> venue_fill" where
  "no_fill reason lslot = \<lparr>landed = False, fl_reason = reason, tokens_out = 0, effective_price = 0, fl_entry_slippage_bps = 0,
     vf_land_slot = lslot, vf_tip_lamports = 0, vf_priority_lamports = 0\<rparr>"

definition venue_reconcile :: "land_result \<Rightarrow> venue_fill" where
  "venue_reconcile l =
     (if lr_submitted l \<and> (case lr_signature l of None \<Rightarrow> False | Some sig \<Rightarrow> sig \<noteq> []) \<and>
         lr_reason l \<in> {''landed'', ''devnet_landed''}
      then (no_fill ''filled'' (lr_land_slot l))\<lparr>landed := True\<rparr>
      else no_fill (lr_reason l) (lr_land_slot l))"

definition enrich_fill :: "venue_fill \<Rightarrow> lamports \<Rightarrow> lamports \<Rightarrow> int \<Rightarrow> decimal \<Rightarrow> bps \<Rightarrow> int option \<Rightarrow> venue_fill" where
  "enrich_fill f tip priority tokens price slip lslot =
     \<lparr>landed = landed f, fl_reason = fl_reason f, tokens_out = (if landed f then tokens else 0),
      effective_price = (if landed f then price else 0), fl_entry_slippage_bps = (if landed f then slip else 0),
      vf_land_slot = (case lslot of Some n \<Rightarrow> if n \<noteq> 0 then lslot else vf_land_slot f | None \<Rightarrow> vf_land_slot f),
      vf_tip_lamports = (if landed f then tip else 0), vf_priority_lamports = (if landed f then priority else 0)\<rparr>"

definition remember_if_landed :: "client_id \<Rightarrow> venue_fill \<Rightarrow> ('e, unit) venue_op" where
  "remember_if_landed cid f =
     (\<lambda>s. (if landed f then s\<lparr>submitted_intent_ids := List.insert cid (submitted_intent_ids s)\<rparr> else s, Inr ()))"

definition resolve_pool_keys :: "venue_event \<Rightarrow> (string \<times> string) list" where
  "resolve_pool_keys ev =
     [(''program_id'', venue_program_id ev), (''pool'', zero_key), (''vault_sol'', zero_key), (''vault_token'', zero_key)]"

definition entry_tx :: "'e jito_venue \<Rightarrow> entry_intent \<Rightarrow> venue_event \<Rightarrow> int \<Rightarrow> int \<Rightarrow> string \<Rightarrow> unsigned_tx" where
  "entry_tx v i ev min_out cu_limit blockhash =
     build_entry_tx (vn_solders v) (vn_allowlist v) i (resolve_pool_keys ev) (le_source ev) (vn_wallet_pubkey v)
       blockhash cu_limit min_out"

definition land_with_retry_entry ::
  "'e jito_venue \<Rightarrow> signed_tx \<Rightarrow> entry_intent \<Rightarrow> venue_event \<Rightarrow> int \<Rightarrow> int \<Rightarrow> ('e, land_result) venue_op" where
  "land_with_retry_entry v tx i ev min_out cu_limit = land_with_retry v (entry_tx v i ev min_out cu_limit) (en_wallet_id i) tx"

definition land_with_retry_exit ::
  "'e jito_venue \<Rightarrow> signed_tx \<Rightarrow> sell_intent \<Rightarrow> string \<Rightarrow> lamports \<Rightarrow> int \<Rightarrow> int \<Rightarrow> ('e, land_result) venue_op" where
  "land_with_retry_exit v tx i wallet tip cu_price cu_limit =
     land_with_retry v (\<lambda>blockhash. build_exit_tx i [] blockhash cu_limit tip cu_price) wallet tx"

text \<open>Signing and simulating a built transaction; a revert is an exception.\<close>

definition sign_and_simulate :: "'e jito_venue \<Rightarrow> unsigned_tx \<Rightarrow> string \<Rightarrow> ('e, signed_tx \<times> venue_sim) venue_op" where
  "sign_and_simulate v tx wallet =
     vbind (venue_sign v tx wallet) (\<lambda>stx.
     vbind (venue_simulate v stx) (\<lambda>sim.
     vbind (vlift (assert_sim_success sim)) (\<lambda>_.
     vreturn (stx, sim))))"

definition entry_steps :: "'e jito_venue \<Rightarrow> entry_intent \<Rightarrow> venue_event \<Rightarrow> ('e, venue_fill) venue_op" where
  "entry_steps v i ev =
     vbind (venue_quote v (en_mint i) Side_buy (en_sol_in_lamports i)) (\<lambda>q.
     vbind (get_slot v) (\<lambda>current_slot.
     vbind (vlift (assert_quote_fresh q current_slot)) (\<lambda>_.
     vbind (vlift (compute_min_tokens_out (amount_out_base q) (en_slippage_bps i))) (\<lambda>min_out.
     if min_out < MIN_TOKENS_OUT_GUARD then vreturn (no_fill ''zero_output_reverted'' None)
     else
       vbind (get_blockhash v) (\<lambda>blockhash.
       vbind (sign_and_simulate v (entry_tx v i ev min_out DEFAULT_CU_LIMIT blockhash) (en_wallet_id i)) (\<lambda>(_, sim).
       let cu_limit = size_cu_limit (cu_consumed sim) in
       vbind (sign_and_simulate v (entry_tx v i ev min_out cu_limit blockhash) (en_wallet_id i)) (\<lambda>(stx, _).
       vbind (land_with_retry_entry v stx i ev min_out cu_limit) (\<lambda>l.
       let fill = venue_reconcile l in
       vbind (remember_if_landed (en_client_intent_id i) fill) (\<lambda>_.
       vreturn (enrich_fill fill (en_tip_lamports i) (compute_priority_lamports (en_cu_price_microlamports i) cu_limit)
         (if landed fill then amount_out_base q else 0) (qt_price q)
         (compute_entry_slippage_bps (amount_in_base q) (amount_out_base q)) (lr_land_slot l)))))))))))"

fun entry_refusal :: "venue_exc \<Rightarrow> string" where
  "entry_refusal (Signer_refused reason) = reason"
| "entry_refusal (SimulationReverted reason) = reason"
| "entry_refusal (QuoteStalenessError reason) = reason"
| "entry_refusal (LiveSubmitBlocked reason) = reason"
| "entry_refusal _ = ''unexpected_error''"

fun exit_refusal :: "venue_exc \<Rightarrow> string" where
  "exit_refusal (Signer_refused reason) = reason"
| "exit_refusal (SimulationReverted reason) = reason"
| "exit_refusal _ = ''unexpected_error''"

definition venue_answer :: "(venue_exc \<Rightarrow> string) \<Rightarrow> 'e jito_state \<times> (venue_exc + venue_fill) \<Rightarrow> 'e jito_state \<times> venue_fill" where
  "venue_answer refusal r = (fst r, case snd r of Inl e \<Rightarrow> no_fill (refusal e) None | Inr f \<Rightarrow> f)"

definition jito_execute :: "'e jito_venue \<Rightarrow> entry_intent \<Rightarrow> venue_event \<Rightarrow> 'e jito_state \<Rightarrow> 'e jito_state \<times> venue_fill" where
  "jito_execute v i ev s =
     (if en_client_intent_id i \<in> set (submitted_intent_ids s) then (s, no_fill ''idempotency_key_conflict'' None)
      else venue_answer entry_refusal (entry_steps v i ev s))"

definition exit_steps :: "'e jito_venue \<Rightarrow> sell_intent \<Rightarrow> string option \<Rightarrow> ('e, venue_fill) venue_op" where
  "exit_steps v i position_wallet =
     (let wallet = (case position_wallet of None \<Rightarrow> ''wallet-0'' | Some w \<Rightarrow> w) in
     vbind (vlift (case vn_default_tip v of None \<Rightarrow> Inl Other_exception | Some tip \<Rightarrow> Inr tip)) (\<lambda>tip.
     vbind (vlift (case vn_default_cu_price v of None \<Rightarrow> Inl Other_exception | Some p \<Rightarrow> Inr p)) (\<lambda>cu_price.
     vbind (venue_quote v (sell_mint i) Side_sell 0) (\<lambda>q.
     vbind (get_blockhash v) (\<lambda>blockhash.
     vbind (sign_and_simulate v (build_exit_tx i [] blockhash DEFAULT_CU_LIMIT tip cu_price) wallet) (\<lambda>(stx, sim).
     let cu_limit = size_cu_limit (cu_consumed sim) in
     vbind (land_with_retry_exit v stx i wallet tip cu_price cu_limit) (\<lambda>l.
     let fill = venue_reconcile l in
     vbind (remember_if_landed (sell_id i) fill) (\<lambda>_.
     vreturn (enrich_fill fill tip (compute_priority_lamports cu_price cu_limit) 0 (qt_price q) 0 (lr_land_slot l))))))))))"

definition jito_exit :: "'e jito_venue \<Rightarrow> sell_intent \<Rightarrow> string option \<Rightarrow> 'e jito_state \<Rightarrow> 'e jito_state \<times> venue_fill" where
  "jito_exit v i position_wallet s =
     (if sell_id i \<in> set (submitted_intent_ids s) then (s, no_fill ''idempotency_key_conflict'' None)
      else venue_answer exit_refusal (exit_steps v i position_wallet s))"

definition venue_build :: "'e jito_venue \<Rightarrow> entry_intent + sell_intent \<Rightarrow> ('e, unsigned_tx) venue_op" where
  "venue_build v i =
     vbind (get_blockhash v) (\<lambda>blockhash.
       case i of
         Inl en \<Rightarrow>
           vreturn (build_entry_tx (vn_solders v) (vn_allowlist v) en
             [(''program_id'', zero_key), (''pool'', zero_key), (''vault_sol'', zero_key), (''vault_token'', zero_key)]
             (en_venue en) (vn_wallet_pubkey v) blockhash DEFAULT_CU_LIMIT MIN_TOKENS_OUT_GUARD)
       | Inr sell \<Rightarrow>
           vbind (vlift (case vn_default_tip v of None \<Rightarrow> Inl Other_exception | Some tip \<Rightarrow> Inr tip)) (\<lambda>tip.
           vbind (vlift (case vn_default_cu_price v of None \<Rightarrow> Inl Other_exception | Some p \<Rightarrow> Inr p)) (\<lambda>cu_price.
           vreturn (build_exit_tx sell [] blockhash DEFAULT_CU_LIMIT tip cu_price))))"

text \<open>A run of orders against the venue.\<close>

datatype venue_order = Order_entry entry_intent venue_event | Order_exit sell_intent "string option"

fun order_id :: "venue_order \<Rightarrow> client_id" where
  "order_id (Order_entry i _) = en_client_intent_id i"
| "order_id (Order_exit i _) = sell_id i"

fun place_order :: "'e jito_venue \<Rightarrow> 'e jito_state \<Rightarrow> venue_order \<Rightarrow> 'e jito_state \<times> venue_fill" where
  "place_order v s (Order_entry i ev) = jito_execute v i ev s"
| "place_order v s (Order_exit i w) = jito_exit v i w s"

definition venue_run :: "'e jito_venue \<Rightarrow> 'e jito_state \<Rightarrow> venue_order list \<Rightarrow> 'e jito_state" where
  "venue_run v s orders = foldl (\<lambda>s x. fst (place_order v s x)) s orders"

section \<open>Pre- and postconditions\<close>

text \<open>
  A triple holds of an operation when every run from a state with the precondition ends in a result and a
  state with the postcondition; exceptions are results like others.
\<close>

definition triple :: "('e jito_state \<Rightarrow> bool) \<Rightarrow> ('e, 'a) venue_op \<Rightarrow> (venue_exc + 'a \<Rightarrow> 'e jito_state \<Rightarrow> bool) \<Rightarrow> bool" where
  "triple P m Q \<longleftrightarrow> (\<forall>s. P s \<longrightarrow> Q (snd (m s)) (fst (m s)))"

lemma tripleD: "triple P m Q \<Longrightarrow> P s \<Longrightarrow> Q (snd (m s)) (fst (m s))"
  by (simp add: triple_def)

lemma triple_weaken: "triple P' m Q' \<Longrightarrow> (\<And>s. P s \<Longrightarrow> P' s) \<Longrightarrow> (\<And>r s. Q' r s \<Longrightarrow> Q r s) \<Longrightarrow> triple P m Q"
  by (simp add: triple_def)

lemma triple_pre: "triple P' m Q \<Longrightarrow> (\<And>s. P s \<Longrightarrow> P' s) \<Longrightarrow> triple P m Q"
  by (simp add: triple_def)

lemma triple_return [intro!]: "(\<And>s. P s \<Longrightarrow> Q (Inr a) s) \<Longrightarrow> triple P (vreturn a) Q"
  by (simp add: triple_def vreturn_def)

lemma triple_lift: "(\<And>s. P s \<Longrightarrow> Q r s) \<Longrightarrow> triple P (vlift r) Q"
  by (simp add: triple_def vlift_def)

lemma triple_bind:
  assumes "triple P m R" and "\<And>a. triple (R (Inr a)) (f a) Q" and "\<And>e s. R (Inl e) s \<Longrightarrow> Q (Inl e) s"
  shows "triple P (vbind m f) Q"
  unfolding triple_def
proof (intro allI impI)
  fix s assume "P s"
  then have "R (snd (m s)) (fst (m s))" using assms(1) by (simp add: triple_def)
  then show "Q (snd (vbind m f s)) (fst (vbind m f s))"
    using assms(2,3) by (cases "m s"; cases "snd (m s)") (auto simp: vbind_def triple_def)
qed

lemma triple_call:
  assumes "\<And>s e r. P s \<Longrightarrow> f (vs_env s) = (e, r) \<Longrightarrow> Q r (s\<lparr>vs_env := e, vs_calls := vs_calls s @ [note r]\<rparr>)"
  shows "triple P (vcall note f) Q"
  using assms by (simp add: triple_def vcall_def split: prod.split)

text \<open>An invariant is kept whatever the result.\<close>

definition keeps :: "('e jito_state \<Rightarrow> bool) \<Rightarrow> ('e, 'a) venue_op \<Rightarrow> bool" where
  "keeps I m \<longleftrightarrow> triple I m (\<lambda>_. I)"

lemma keeps_return [intro!]: "keeps I (vreturn a)"
  by (simp add: keeps_def triple_def vreturn_def)

lemma keeps_lift [intro!]: "keeps I (vlift r)"
  by (simp add: keeps_def triple_def vlift_def)

lemma keeps_bind: "keeps I m \<Longrightarrow> (\<And>a. keeps I (f a)) \<Longrightarrow> keeps I (vbind m f)"
  unfolding keeps_def by (rule triple_bind) auto

lemma keeps_call:
  "(\<And>s e r. I s \<Longrightarrow> f (vs_env s) = (e, r) \<Longrightarrow> I (s\<lparr>vs_env := e, vs_calls := vs_calls s @ [note r]\<rparr>)) \<Longrightarrow> keeps I (vcall note f)"
  unfolding keeps_def by (rule triple_call)

section \<open>What is sent\<close>

definition is_send :: "venue_call \<Rightarrow> bool" where
  "is_send c \<longleftrightarrow> (\<exists>b. c = Called_send b)"

text \<open>Every send is of bytes that an earlier call has simulated with success.\<close>

definition covered :: "venue_call list \<Rightarrow> bool" where
  "covered calls \<longleftrightarrow> (\<forall>xs b ys. calls = xs @ Called_send b # ys \<longrightarrow> Called_simulate b True \<in> set xs)"

lemma covered_Nil [simp]: "covered []"
  by (simp add: covered_def)

lemma covered_snoc: "covered (calls @ [c]) \<longleftrightarrow> covered calls \<and> (\<forall>b. c = Called_send b \<longrightarrow> Called_simulate b True \<in> set calls)"
proof
  assume *: "covered (calls @ [c])"
  have "covered calls" unfolding covered_def
  proof (intro allI impI)
    fix xs b ys assume "calls = xs @ Called_send b # ys"
    then have "calls @ [c] = xs @ Called_send b # (ys @ [c])" by simp
    then show "Called_simulate b True \<in> set xs" using * unfolding covered_def by blast
  qed
  moreover have "\<forall>b. c = Called_send b \<longrightarrow> Called_simulate b True \<in> set calls" using * unfolding covered_def by blast
  ultimately show "covered calls \<and> (\<forall>b. c = Called_send b \<longrightarrow> Called_simulate b True \<in> set calls)" ..
next
  assume *: "covered calls \<and> (\<forall>b. c = Called_send b \<longrightarrow> Called_simulate b True \<in> set calls)"
  show "covered (calls @ [c])" unfolding covered_def
  proof (intro allI impI)
    fix xs b ys assume split: "calls @ [c] = xs @ Called_send b # ys"
    show "Called_simulate b True \<in> set xs"
    proof (cases ys rule: rev_cases)
      case Nil then show ?thesis using split * by auto
    next
      case (snoc zs z) then have "calls = xs @ Called_send b # zs" using split by auto
      then show ?thesis using * unfolding covered_def by blast
    qed
  qed
qed

text \<open>
  The state of an operation that began with the calls \<open>C\<close> and may still send \<open>n\<close> times, and the
  transaction it has just simulated.
\<close>

definition progress :: "venue_call list \<Rightarrow> nat \<Rightarrow> 'e jito_state \<Rightarrow> bool" where
  "progress C n s \<longleftrightarrow>
     (\<exists>new. vs_calls s = C @ new \<and> covered new \<and> length (filter is_send new) + n \<le> MAX_LAND_ATTEMPTS)"

definition simulated :: "venue_call list \<Rightarrow> signed_tx \<Rightarrow> 'e jito_state \<Rightarrow> bool" where
  "simulated C tx s \<longleftrightarrow> (\<exists>new. vs_calls s = C @ new \<and> Called_simulate (sx_bytes tx) True \<in> set new)"

lemma progress_call:
  "progress C n s \<Longrightarrow> \<not> is_send c \<Longrightarrow> progress C n (s\<lparr>vs_env := e, vs_calls := vs_calls s @ [c]\<rparr>)"
  unfolding progress_def by (auto simp: covered_snoc is_send_def)

lemma progress_send:
  "progress C (Suc n) s \<Longrightarrow> simulated C tx s \<Longrightarrow>
   progress C n (s\<lparr>vs_env := e, vs_calls := vs_calls s @ [Called_send (sx_bytes tx)]\<rparr>)"
  unfolding progress_def simulated_def by (auto simp: covered_snoc is_send_def)

lemma progress_less: "progress C (Suc n) s \<Longrightarrow> progress C n s"
  unfolding progress_def by auto

lemma passive_ops:
  "keeps (progress C n) (get_blockhash v)"
  "keeps (progress C n) (get_slot v)"
  "keeps (progress C n) (venue_sign v utx wallet)"
  "keeps (progress C n) (venue_simulate v tx)"
  "keeps (progress C n) (recheck_signature_before_resend v tx)"
  "keeps (progress C n) (venue_quote v m side amount)"
  "keeps (progress C n) (remember_if_landed cid f)"
proof -
  show slot: "keeps (progress C n) (get_slot v)" unfolding get_slot_def by (rule keeps_call) (simp add: progress_call is_send_def)
  show "keeps (progress C n) (get_blockhash v)" unfolding get_blockhash_def by (rule keeps_call) (simp add: progress_call is_send_def)
  show "keeps (progress C n) (venue_sign v utx wallet)" unfolding venue_sign_def by (rule keeps_call) (simp add: progress_call is_send_def)
  show "keeps (progress C n) (venue_simulate v tx)" unfolding venue_simulate_def by (rule keeps_call) (simp add: progress_call is_send_def)
  show "keeps (progress C n) (recheck_signature_before_resend v tx)"
    unfolding recheck_signature_before_resend_def Let_def
    by (auto split: option.split intro!: keeps_bind keeps_call simp: progress_call is_send_def)
  show "keeps (progress C n) (venue_quote v m side amount)"
    unfolding venue_quote_def Let_def using slot by (auto intro!: keeps_bind)
  show "keeps (progress C n) (remember_if_landed cid f)"
    by (simp add: remember_if_landed_def keeps_def triple_def progress_def)
qed

lemma simulate_ready:
  "triple (progress C n) (venue_simulate v tx)
     (\<lambda>r s. progress C n s \<and> (\<forall>sim. r = Inr sim \<longrightarrow> sim_success sim \<longrightarrow> simulated C tx s))"
  unfolding venue_simulate_def
  by (rule triple_call) (auto simp: progress_call is_send_def, auto simp: progress_def simulated_def)

lemma sign_and_simulate_ready:
  "triple (progress C n) (sign_and_simulate v utx wallet)
     (\<lambda>r s. progress C n s \<and> (\<forall>stx sim. r = Inr (stx, sim) \<longrightarrow> simulated C stx s))"
  unfolding sign_and_simulate_def
proof (rule triple_bind)
  show "triple (progress C n) (venue_sign v utx wallet) (\<lambda>_. progress C n)"
    using passive_ops(3) by (simp add: keeps_def)
  fix stx
  show "triple (progress C n)
     (vbind (venue_simulate v stx) (\<lambda>sim. vbind (vlift (assert_sim_success sim)) (\<lambda>_. vreturn (stx, sim))))
     (\<lambda>r s. progress C n s \<and> (\<forall>stx sim. r = Inr (stx, sim) \<longrightarrow> simulated C stx s))"
    by (rule triple_bind [OF simulate_ready])
      (auto intro!: triple_bind [where R = "\<lambda>r s. progress C n s \<and> (\<forall>u. r = Inr u \<longrightarrow> simulated C stx s)"] triple_lift
        simp: assert_sim_success_def require_def)
qed simp

lemma send_progress:
  "triple (\<lambda>s. progress C (Suc n) s \<and> simulated C tx s) (send_in_mode v tx) (\<lambda>_. progress C n)"
proof -
  have send: "triple (\<lambda>s. progress C (Suc n) s \<and> simulated C tx s) (venue_send v tx) (\<lambda>_. progress C n)"
    unfolding venue_send_def by (rule triple_call) (simp add: progress_send)
  have confirm: "keeps (progress C n) (vcall (\<lambda>_. Called_confirm sig) f)" for sig f
    by (rule keeps_call) (simp add: progress_call is_send_def)
  show ?thesis
    unfolding send_in_mode_def send_once_def send_and_confirm_devnet_def
    by (auto intro!: triple_bind [OF send] triple_lift triple_bind [OF confirm [unfolded keeps_def]]
        split: option.split prod.split if_splits)
qed

lemma attempt_loop_progress:
  "triple (\<lambda>s. progress C n s \<and> (\<not> retry \<longrightarrow> simulated C tx s)) (attempt_loop v rebuild wallet n retry tx reason)
     (\<lambda>_. progress C 0)"
proof (induction n arbitrary: retry tx reason)
  case 0 show ?case by (auto simp: triple_def vreturn_def)
next
  case (Suc n)
  let ?ready = "\<lambda>r s. progress C (Suc n) s \<and> (\<forall>tx'. r = Inr (Inr tx') \<longrightarrow> simulated C tx' s)"
  have zero: "progress C 0 s" if "progress C k s" for k s using that by (auto simp: progress_def)
  have prepare: "triple (\<lambda>s. progress C (Suc n) s \<and> (\<not> retry \<longrightarrow> simulated C tx s))
      (if \<not> retry then vreturn (Inr tx)
        else vbind (recheck_signature_before_resend v tx) (\<lambda>phantom.
          case phantom of
            Some hit \<Rightarrow> vreturn (Inl hit)
          | None \<Rightarrow>
              vbind (get_blockhash v) (\<lambda>fresh.
              vbind (venue_sign v (rebuild fresh) wallet) (\<lambda>tx'.
              vbind (venue_simulate v tx') (\<lambda>sim.
              vreturn (if sim_success sim then Inr tx' else Inl (not_submitted (sim_revert sim)))))))) ?ready"
    by (auto intro!: triple_bind [OF triple_pre [OF passive_ops(5) [unfolded keeps_def]]]
        triple_bind [OF passive_ops(1) [unfolded keeps_def]] triple_bind [OF passive_ops(3) [unfolded keeps_def]]
        triple_bind [OF simulate_ready] split: option.split if_splits)
  have after: "triple (progress C n) (attempt_loop v rebuild wallet n True tx' reason') (\<lambda>_. progress C 0)" for tx' reason'
    using Suc.IH [of True tx' reason'] by simp
  show ?case
    unfolding attempt_loop.simps
  proof (rule triple_bind [OF prepare])
    fix prep
    show "triple (?ready (Inr prep)) (case prep of Inl result \<Rightarrow> vreturn result
        | Inr tx' \<Rightarrow> vbind (send_in_mode v tx') (\<lambda>result.
            if lr_submitted result then vreturn result
            else if lr_reason result \<notin> set BLOCKHASH_EXPIRY_RETRY_REASONS then vreturn (not_submitted (lr_reason result))
            else attempt_loop v rebuild wallet n True tx' (lr_reason result))) (\<lambda>_. progress C 0)"
      by (auto simp: zero intro!: triple_bind [OF triple_pre [OF send_progress]] after split: sum.split)
  qed (simp add: zero)
qed

lemma land_with_retry_progress:
  "triple (\<lambda>s. progress C MAX_LAND_ATTEMPTS s \<and> simulated C tx s) (land_with_retry v rebuild wallet tx)
     (\<lambda>_. progress C (if venue_submit_mode v = DRY_RUN then MAX_LAND_ATTEMPTS else 0))"
proof (cases "venue_submit_mode v = DRY_RUN")
  case False
  have zero: "progress C MAX_LAND_ATTEMPTS s \<Longrightarrow> progress C 0 s" for s by (auto simp: progress_def)
  have "triple (\<lambda>s. progress C MAX_LAND_ATTEMPTS s \<and> simulated C tx s) (vlift (assert_submit_allowed v))
      (\<lambda>_ s. progress C MAX_LAND_ATTEMPTS s \<and> simulated C tx s)" by (auto intro!: triple_lift)
  then show ?thesis using False attempt_loop_progress [of C MAX_LAND_ATTEMPTS False tx v rebuild wallet "''unknown''"]
    by (auto simp: land_with_retry_def zero intro!: triple_bind)
qed (auto simp: land_with_retry_def)

definition sends_left :: "'e jito_venue \<Rightarrow> nat" where
  "sends_left v = (if venue_submit_mode v = DRY_RUN then MAX_LAND_ATTEMPTS else 0)"

lemma progress_end: "progress C MAX_LAND_ATTEMPTS s \<Longrightarrow> progress C (sends_left v) s"
  by (auto simp: progress_def sends_left_def)

lemmas keeps_progress = passive_ops [where n = MAX_LAND_ATTEMPTS, unfolded keeps_def]

lemma entry_steps_progress: "triple (progress C MAX_LAND_ATTEMPTS) (entry_steps v i ev) (\<lambda>_. progress C (sends_left v))"
  unfolding entry_steps_def Let_def land_with_retry_entry_def
  by (auto simp: progress_end intro!: triple_bind [OF keeps_progress(6)] triple_bind [OF keeps_progress(2)]
      triple_bind [OF keeps_progress(1)] triple_bind [OF sign_and_simulate_ready]
      triple_bind [OF triple_pre [OF sign_and_simulate_ready]]
      triple_bind [OF triple_pre [OF land_with_retry_progress [folded sends_left_def]]]
      triple_bind [OF passive_ops(7) [unfolded keeps_def]]
      triple_bind [OF keeps_lift [where I = "progress C MAX_LAND_ATTEMPTS", unfolded keeps_def]])

lemma exit_steps_progress: "triple (progress C MAX_LAND_ATTEMPTS) (exit_steps v i w) (\<lambda>_. progress C (sends_left v))"
  unfolding exit_steps_def Let_def land_with_retry_exit_def
  by (auto simp: progress_end intro!: triple_bind [OF keeps_progress(6)] triple_bind [OF keeps_progress(2)]
      triple_bind [OF keeps_progress(1)] triple_bind [OF sign_and_simulate_ready]
      triple_bind [OF triple_pre [OF land_with_retry_progress [folded sends_left_def]]]
      triple_bind [OF passive_ops(7) [unfolded keeps_def]]
      triple_bind [OF keeps_lift [where I = "progress C MAX_LAND_ATTEMPTS", unfolded keeps_def]])

lemma place_order_steps:
  obtains "order_id x \<in> set (submitted_intent_ids s)" "place_order v s x = (s, no_fill ''idempotency_key_conflict'' None)"
  | i ev where "x = Order_entry i ev" "order_id x \<notin> set (submitted_intent_ids s)"
      "place_order v s x = venue_answer entry_refusal (entry_steps v i ev s)"
  | i w where "x = Order_exit i w" "order_id x \<notin> set (submitted_intent_ids s)"
      "place_order v s x = venue_answer exit_refusal (exit_steps v i w s)"
  by (cases x) (auto simp: jito_execute_def jito_exit_def split: if_splits)

text \<open>
  C13. Nothing is sent that was not simulated. Whatever the node and the signer answer, an entry or an exit
  sends at most three times, every send is of bytes that a call of the same order has simulated with
  success, and in dry-run mode nothing is sent at all.
\<close>

theorem sends_simulated_and_bounded:
  "\<exists>new. vs_calls (fst (place_order v s x)) = vs_calls s @ new \<and> covered new \<and>
     length (filter is_send new) \<le> 3 \<and> (venue_submit_mode v = DRY_RUN \<longrightarrow> (\<forall>b. Called_send b \<notin> set new))"
proof -
  have start: "progress (vs_calls s) MAX_LAND_ATTEMPTS s" by (auto simp: progress_def)
  have "progress (vs_calls s) (sends_left v) (fst (place_order v s x))"
  proof (rule place_order_steps [of x s v])
    assume "place_order v s x = (s, no_fill ''idempotency_key_conflict'' None)"
    then show ?thesis using progress_end [OF start] by simp
  next
    fix i ev assume "place_order v s x = venue_answer entry_refusal (entry_steps v i ev s)"
    then show ?thesis using tripleD [OF entry_steps_progress start] by (simp add: venue_answer_def)
  next
    fix i w assume "place_order v s x = venue_answer exit_refusal (exit_steps v i w s)"
    then show ?thesis using tripleD [OF exit_steps_progress start] by (simp add: venue_answer_def)
  qed
  then show ?thesis
    by (auto simp: progress_def sends_left_def MAX_LAND_ATTEMPTS_def is_send_def filter_empty_conv split: if_splits) blast
qed

section \<open>An order that landed is not repeated\<close>

lemma ids_grow:
  fixes A :: "client_id set"
  defines "I \<equiv> \<lambda>s :: 'e jito_state. A \<subseteq> set (submitted_intent_ids s)"
  shows "keeps I (entry_steps v i ev)" and "keeps I (exit_steps v sell w)"
proof -
  have call: "keeps I (vcall g f)" for g and f :: "'e \<Rightarrow> 'e \<times> (venue_exc + 'b)" by (rule keeps_call) (simp add: I_def)
  have recall: "keeps I (recheck_signature_before_resend v tx)" for v :: "'e jito_venue" and tx
    unfolding recheck_signature_before_resend_def Let_def by (auto split: option.split intro!: keeps_bind call)
  have basic: "keeps I (get_blockhash v)" "keeps I (get_slot v)" "keeps I (venue_sign v utx wallet)" "keeps I (venue_simulate v tx)"
    for v :: "'e jito_venue" and utx wallet tx
    by (simp_all add: get_blockhash_def get_slot_def venue_sign_def venue_simulate_def call)
  have send: "keeps I (send_in_mode v tx)" for v :: "'e jito_venue" and tx
    unfolding send_in_mode_def send_once_def send_and_confirm_devnet_def venue_send_def
    by (auto intro!: keeps_bind call split: option.split prod.split if_splits)
  have "keeps I (attempt_loop v rebuild wallet n retry tx reason)" for v :: "'e jito_venue" and rebuild wallet n retry tx reason
    by (induction n arbitrary: retry tx reason) (auto intro!: keeps_bind recall basic send split: sum.split option.split)
  then have land: "keeps I (land_with_retry v rebuild wallet tx)" for v :: "'e jito_venue" and rebuild wallet tx
    unfolding land_with_retry_def by (auto intro!: keeps_bind)
  have quote: "keeps I (venue_quote v m side amount)" for v :: "'e jito_venue" and m side amount
    unfolding venue_quote_def Let_def by (auto intro!: keeps_bind basic)
  have sim: "keeps I (sign_and_simulate v utx wallet)" for v :: "'e jito_venue" and utx wallet
    unfolding sign_and_simulate_def by (auto intro!: keeps_bind basic)
  have remember: "keeps I (remember_if_landed cid f :: ('e, unit) venue_op)" for cid f
    by (auto simp: keeps_def triple_def remember_if_landed_def I_def)
  show "keeps I (entry_steps v i ev)"
    unfolding entry_steps_def Let_def land_with_retry_entry_def
    by (auto intro!: keeps_bind quote basic sim land remember)
  show "keeps I (exit_steps v sell w)"
    unfolding exit_steps_def Let_def land_with_retry_exit_def
    by (auto intro!: keeps_bind quote basic sim land remember)
qed

lemma place_order_ids: "set (submitted_intent_ids s) \<subseteq> set (submitted_intent_ids (fst (place_order v s x)))"
proof (rule place_order_steps [of x s v])
  fix i ev assume "place_order v s x = venue_answer entry_refusal (entry_steps v i ev s)"
  then show ?thesis using tripleD [OF ids_grow(1) [unfolded keeps_def], of "set (submitted_intent_ids s)" s v i ev] by (simp add: venue_answer_def)
next
  fix i w assume "place_order v s x = venue_answer exit_refusal (exit_steps v i w s)"
  then show ?thesis using tripleD [OF ids_grow(2) [unfolded keeps_def], of "set (submitted_intent_ids s)" s v i w] by (simp add: venue_answer_def)
qed simp

lemma run_ids: "set (submitted_intent_ids s) \<subseteq> set (submitted_intent_ids (venue_run v s orders))"
  unfolding venue_run_def by (induction orders arbitrary: s) (use place_order_ids in fastforce)+

lemma bind_last:
  assumes "\<And>a s. Q (f a s)" and "\<And>e s. Q (s, Inl e)"
  shows "Q (vbind m f s)"
  using assms by (simp add: vbind_def split: prod.split sum.split)

definition recorded_if_landed :: "client_id \<Rightarrow> 'e jito_state \<times> (venue_exc + venue_fill) \<Rightarrow> bool" where
  "recorded_if_landed cid r \<longleftrightarrow> (\<forall>f. snd r = Inr f \<longrightarrow> landed f \<longrightarrow> cid \<in> set (submitted_intent_ids (fst r)))"

lemma remember_recorded:
  "recorded_if_landed cid (vbind (remember_if_landed cid f) (\<lambda>_. vreturn (enrich_fill f tip prio tokens price slip lslot)) s)"
  by (auto simp: recorded_if_landed_def vbind_def remember_if_landed_def vreturn_def enrich_fill_def)

lemma steps_recorded:
  "recorded_if_landed (en_client_intent_id i) (entry_steps v i ev s)"
  "recorded_if_landed (sell_id sell) (exit_steps v sell w s)"
proof -
  have err: "recorded_if_landed cid (t, Inl e)" for cid and t :: "'e jito_state" and e by (simp add: recorded_if_landed_def)
  have flat: "recorded_if_landed cid (vreturn (no_fill why None) t)" for cid why and t :: "'e jito_state"
    by (simp add: recorded_if_landed_def vreturn_def no_fill_def)
  show "recorded_if_landed (en_client_intent_id i) (entry_steps v i ev s)"
    unfolding entry_steps_def Let_def
    by (auto intro!: bind_last [where Q = "recorded_if_landed (en_client_intent_id i)"] err flat remember_recorded split: prod.split)
  show "recorded_if_landed (sell_id sell) (exit_steps v sell w s)"
    unfolding exit_steps_def Let_def
    by (auto intro!: bind_last [where Q = "recorded_if_landed (sell_id sell)"] err remember_recorded split: prod.split)
qed

text \<open>
  C21. An order that was reported as landed is never placed again: after any further orders, an order with
  the same identifier is answered with a conflict, and neither the node nor the signer is called.
\<close>

theorem landed_order_never_repeated:
  assumes "place_order v s x = (s', f)" and "landed f" and "order_id y = order_id x"
  shows "place_order v (venue_run v s' orders) y = (venue_run v s' orders, no_fill ''idempotency_key_conflict'' None)"
proof -
  have "order_id x \<in> set (submitted_intent_ids s')"
  proof (rule place_order_steps [of x s v])
    assume "place_order v s x = (s, no_fill ''idempotency_key_conflict'' None)"
    then show ?thesis using assms(1,2) by (simp add: no_fill_def)
  next
    fix i ev assume "x = Order_entry i ev" "place_order v s x = venue_answer entry_refusal (entry_steps v i ev s)"
    then show ?thesis using assms(1,2) steps_recorded(1) [of i v ev s]
      by (auto simp: venue_answer_def recorded_if_landed_def no_fill_def split: sum.splits)
  next
    fix i w assume "x = Order_exit i w" "place_order v s x = venue_answer exit_refusal (exit_steps v i w s)"
    then show ?thesis using assms(1,2) steps_recorded(2) [of i v w s]
      by (auto simp: venue_answer_def recorded_if_landed_def no_fill_def split: sum.splits)
  qed
  then have "order_id y \<in> set (submitted_intent_ids (venue_run v s' orders))" using run_ids assms(3) by fastforce
  then show ?thesis by (cases y) (simp_all add: jito_execute_def jito_exit_def)
qed

section \<open>At most one landing\<close>

text \<open>
  What a truthful node promises, about the set of signed bytes that are on chain: only a send adds to it,
  and at most what was sent; and asked for the signature of bytes that are on chain it says so.
\<close>

locale honest_node =
  fixes v :: "'e jito_venue" and on_chain :: "'e \<Rightarrow> string set"
  assumes blockhash_quiet: "rpc_get_latest_blockhash (vn_rpc v) e = (e', rb) \<Longrightarrow> on_chain e' = on_chain e"
    and slot_quiet: "rpc_get_current_slot (vn_rpc v) e = (e', rl) \<Longrightarrow> on_chain e' = on_chain e"
    and simulate_quiet: "rpc_simulate_transaction (vn_rpc v) e b = (e', rs) \<Longrightarrow> on_chain e' = on_chain e"
    and sign_quiet: "vn_signer v e utx w = (e', rg) \<Longrightarrow> on_chain e' = on_chain e"
    and confirm_quiet: "rpc_confirm_transaction (vn_rpc v) = Some f \<Longrightarrow> f e sig k t = (e', rc) \<Longrightarrow> on_chain e' = on_chain e"
    and send_adds: "rpc_send_transaction (vn_rpc v) e b = (e', ra) \<Longrightarrow> on_chain e' \<subseteq> insert b (on_chain e)"
    and statuses_known: "rpc_get_signature_statuses (vn_rpc v) \<noteq> None"
    and statuses_quiet: "rpc_get_signature_statuses (vn_rpc v) = Some g \<Longrightarrow> g e sigs = (e', rt) \<Longrightarrow> on_chain e' = on_chain e"
    and statuses_true: "rpc_get_signature_statuses (vn_rpc v) = Some g \<Longrightarrow> g e [vn_local_signature v b] = (e', Inr sts) \<Longrightarrow>
      b \<in> on_chain e \<Longrightarrow> \<exists>st rest. sts = Some st # rest \<and> ss_confirmed st \<and> \<not> ss_failed st"
begin

definition chain_in :: "string set \<Rightarrow> 'e jito_state \<Rightarrow> bool" where
  "chain_in L s \<longleftrightarrow> on_chain (vs_env s) \<subseteq> L"

definition one_more :: "string set \<Rightarrow> 'e jito_state \<Rightarrow> bool" where
  "one_more L s \<longleftrightarrow> (\<exists>b. chain_in (insert b L) s)"

lemma chain_in_one_more: "chain_in L s \<Longrightarrow> one_more L s"
  unfolding one_more_def chain_in_def by blast

lemma quiet_ops:
  "keeps (chain_in L) (get_blockhash v)"
  "keeps (chain_in L) (get_slot v)"
  "keeps (chain_in L) (venue_sign v utx wallet)"
  "keeps (chain_in L) (venue_simulate v tx)"
  "keeps (chain_in L) (venue_quote v m side amount)"
  "keeps (chain_in L) (sign_and_simulate v utx wallet)"
proof -
  show slot: "keeps (chain_in L) (get_slot v)"
    unfolding get_slot_def by (rule keeps_call) (auto simp: chain_in_def dest: slot_quiet)
  show "keeps (chain_in L) (get_blockhash v)"
    unfolding get_blockhash_def by (rule keeps_call) (auto simp: chain_in_def dest: blockhash_quiet)
  show sign: "keeps (chain_in L) (venue_sign v utx wallet)" for utx wallet
    unfolding venue_sign_def by (rule keeps_call) (auto simp: chain_in_def dest: sign_quiet)
  show simulate: "keeps (chain_in L) (venue_simulate v tx)" for tx
    unfolding venue_simulate_def by (rule keeps_call) (auto simp: chain_in_def dest: simulate_quiet)
  show "keeps (chain_in L) (venue_quote v m side amount)"
    unfolding venue_quote_def Let_def using slot by (auto intro!: keeps_bind)
  show "keeps (chain_in L) (sign_and_simulate v utx wallet)"
    unfolding sign_and_simulate_def using sign simulate by (auto intro!: keeps_bind)
qed

lemma recheck_tells:
  "triple (chain_in (insert (sx_bytes tx) L)) (recheck_signature_before_resend v tx)
     (\<lambda>r s. chain_in (insert (sx_bytes tx) L) s \<and> (r = Inr None \<longrightarrow> chain_in L s))"
proof -
  obtain g where g: "rpc_get_signature_statuses (vn_rpc v) = Some g" using statuses_known by blast
  let ?ask = "vcall (\<lambda>_. Called_statuses (vn_local_signature v (sx_bytes tx))) (\<lambda>e. g e [vn_local_signature v (sx_bytes tx)])"
  have "triple (chain_in (insert (sx_bytes tx) L)) ?ask
      (\<lambda>r s. chain_in (insert (sx_bytes tx) L) s \<and>
         (\<forall>sts. r = Inr sts \<longrightarrow> chain_in L s \<or> (\<exists>st rest. sts = Some st # rest \<and> ss_confirmed st \<and> \<not> ss_failed st)))"
  proof (rule triple_call)
    fix s e r assume s: "chain_in (insert (sx_bytes tx) L) s" and call: "g (vs_env s) [vn_local_signature v (sx_bytes tx)] = (e, r)"
    have same: "on_chain e = on_chain (vs_env s)" by (rule statuses_quiet [OF g call])
    have "chain_in L (s\<lparr>vs_env := e, vs_calls := c\<rparr>)" if "sx_bytes tx \<notin> on_chain (vs_env s)" for c
      using s same that by (auto simp: chain_in_def)
    then show "chain_in (insert (sx_bytes tx) L) (s\<lparr>vs_env := e, vs_calls := vs_calls s @ [Called_statuses (vn_local_signature v (sx_bytes tx))]\<rparr>) \<and>
        (\<forall>sts. r = Inr sts \<longrightarrow> chain_in L (s\<lparr>vs_env := e, vs_calls := vs_calls s @ [Called_statuses (vn_local_signature v (sx_bytes tx))]\<rparr>) \<or>
          (\<exists>st rest. sts = Some st # rest \<and> ss_confirmed st \<and> \<not> ss_failed st))"
      using s same call statuses_true [OF g] by (auto simp: chain_in_def)
  qed
  then show ?thesis
    unfolding recheck_signature_before_resend_def g option.case Let_def
    by (rule triple_bind) (auto split: list.split option.split if_splits)
qed

lemma send_adds_one: "triple (chain_in L) (send_in_mode v tx) (\<lambda>_. chain_in (insert (sx_bytes tx) L))"
proof -
  have send: "triple (chain_in L) (venue_send v tx) (\<lambda>_. chain_in (insert (sx_bytes tx) L))"
    unfolding venue_send_def by (rule triple_call) (use send_adds in \<open>fastforce simp: chain_in_def\<close>)
  have confirm: "triple (chain_in M) (vcall (\<lambda>_. Called_confirm sig) (\<lambda>e. f e sig k t)) (\<lambda>_. chain_in M)"
    if "rpc_confirm_transaction (vn_rpc v) = Some f" for M sig f k t
    by (rule triple_call) (use confirm_quiet [OF that] in \<open>auto simp: chain_in_def\<close>)
  show ?thesis
    unfolding send_in_mode_def send_once_def send_and_confirm_devnet_def
    by (auto intro!: triple_bind [OF send] triple_lift triple_bind [OF confirm] split: option.split prod.split if_splits)
qed

lemma attempts_land_once:
  "triple (chain_in (if retry then insert (sx_bytes tx) L else L)) (attempt_loop v rebuild wallet n retry tx reason) (\<lambda>_. one_more L)"
proof (induction n arbitrary: retry tx reason)
  case 0
  then show ?case by (auto simp: one_more_def chain_in_def)
next
  case (Suc n)
  let ?P = "chain_in (if retry then insert (sx_bytes tx) L else L)"
  let ?ready = "\<lambda>r s. one_more L s \<and> (\<forall>tx'. r = Inr (Inr tx') \<longrightarrow> chain_in L s)"
  have more: "chain_in (insert b L) s \<Longrightarrow> one_more L s" for b s by (auto simp: one_more_def)
  have prepare: "triple ?P
      (if \<not> retry then vreturn (Inr tx)
        else vbind (recheck_signature_before_resend v tx) (\<lambda>phantom.
          case phantom of
            Some hit \<Rightarrow> vreturn (Inl hit)
          | None \<Rightarrow>
              vbind (get_blockhash v) (\<lambda>fresh.
              vbind (venue_sign v (rebuild fresh) wallet) (\<lambda>tx'.
              vbind (venue_simulate v tx') (\<lambda>sim.
              vreturn (if sim_success sim then Inr tx' else Inl (not_submitted (sim_revert sim)))))))) ?ready"
    by (auto simp: chain_in_one_more more intro!: triple_bind [OF triple_pre [OF recheck_tells]]
        triple_bind [OF triple_pre [OF quiet_ops(1) [unfolded keeps_def]]] triple_bind [OF quiet_ops(3) [unfolded keeps_def]]
        triple_bind [OF quiet_ops(4) [unfolded keeps_def]] split: option.split)
  show ?case
    unfolding attempt_loop.simps
  proof (rule triple_bind [OF prepare])
    fix prep
    show "triple (?ready (Inr prep)) (case prep of Inl result \<Rightarrow> vreturn result
        | Inr tx' \<Rightarrow> vbind (send_in_mode v tx') (\<lambda>result.
            if lr_submitted result then vreturn result
            else if lr_reason result \<notin> set BLOCKHASH_EXPIRY_RETRY_REASONS then vreturn (not_submitted (lr_reason result))
            else attempt_loop v rebuild wallet n True tx' (lr_reason result))) (\<lambda>_. one_more L)"
      using Suc.IH [of True]
      by (auto simp: more intro!: triple_bind [OF triple_pre [OF send_adds_one]] split: sum.split)
  qed simp
qed

lemma land_with_retry_once: "triple (chain_in L) (land_with_retry v rebuild wallet tx) (\<lambda>_. one_more L)"
  unfolding land_with_retry_def using attempts_land_once [of False tx L]
  by (auto simp: chain_in_one_more intro!: triple_bind [OF keeps_lift [where I = "chain_in L", unfolded keeps_def]])

lemma remember_one_more: "triple (one_more L) (remember_if_landed cid f) (\<lambda>_. one_more L)"
  by (simp add: triple_def remember_if_landed_def one_more_def chain_in_def)

lemmas quiet_triples = quiet_ops [unfolded keeps_def]

lemma steps_land_once:
  "triple (chain_in L) (entry_steps v i ev) (\<lambda>_. one_more L)"
  "triple (chain_in L) (exit_steps v sell w) (\<lambda>_. one_more L)"
  unfolding entry_steps_def exit_steps_def Let_def land_with_retry_entry_def land_with_retry_exit_def
  by (auto simp: chain_in_one_more intro!: triple_bind [OF quiet_triples(5)] triple_bind [OF quiet_triples(2)]
      triple_bind [OF quiet_triples(1)] triple_bind [OF quiet_triples(6)] triple_bind [OF land_with_retry_once]
      triple_bind [OF remember_one_more] triple_bind [OF keeps_lift [where I = "chain_in L", unfolded keeps_def]])

lemma place_order_once: "\<exists>b. on_chain (vs_env (fst (place_order v s x))) \<subseteq> insert b (on_chain (vs_env s))"
proof -
  have start: "chain_in (on_chain (vs_env s)) s" by (simp add: chain_in_def)
  have "one_more (on_chain (vs_env s)) (fst (place_order v s x))"
  proof (rule place_order_steps [of x s v])
    assume "place_order v s x = (s, no_fill ''idempotency_key_conflict'' None)"
    then show ?thesis using chain_in_one_more [OF start] by simp
  next
    fix i ev assume "place_order v s x = venue_answer entry_refusal (entry_steps v i ev s)"
    then show ?thesis using tripleD [OF steps_land_once(1) start] by (simp add: venue_answer_def)
  next
    fix i w assume "place_order v s x = venue_answer exit_refusal (exit_steps v i w s)"
    then show ?thesis using tripleD [OF steps_land_once(2) start] by (simp add: venue_answer_def)
  qed
  then show ?thesis by (simp add: one_more_def chain_in_def)
qed

end


subsection \<open>The offline clients (\<open>rpc_client.py\<close>, \<open>signer_client.py\<close>)\<close>

record mock_rpc =
  mr_slot :: int
  mr_cu_consumed :: int
  mr_blockhash :: string
  simulate_calls :: nat
  send_calls :: nat
  signature_status_calls :: nat
  landed_signatures :: "(string \<times> int) list"

definition mark_signature_landed :: "mock_rpc \<Rightarrow> string \<Rightarrow> int option \<Rightarrow> mock_rpc" where
  "mark_signature_landed e sig lslot =
     e\<lparr>landed_signatures := dict_set sig (case lslot of None \<Rightarrow> mr_slot e | Some n \<Rightarrow> n) (landed_signatures e)\<rparr>"

definition mock_statuses :: "mock_rpc \<Rightarrow> string list \<Rightarrow> mock_rpc \<times> (venue_exc + signature_status option list)" where
  "mock_statuses e sigs =
     (e\<lparr>signature_status_calls := Suc (signature_status_calls e)\<rparr>,
      Inr (map (\<lambda>sig. map_option (\<lambda>n. \<lparr>ss_confirmed = True, ss_slot = Some n, ss_failed = False\<rparr>)
                 (map_of (landed_signatures e) sig)) sigs))"

definition mock_simulate :: "mock_rpc \<Rightarrow> string \<Rightarrow> mock_rpc \<times> (venue_exc + venue_sim)" where
  "mock_simulate e b =
     (e\<lparr>simulate_calls := Suc (simulate_calls e)\<rparr>,
      Inr \<lparr>sim_success = True, cu_consumed = mr_cu_consumed e, revert_reason = None\<rparr>)"

definition mock_send_transaction :: "mock_rpc \<Rightarrow> string \<Rightarrow> mock_rpc \<times> (venue_exc + land_attempt)" where
  "mock_send_transaction e b =
     (e\<lparr>send_calls := Suc (send_calls e)\<rparr>,
      Inr \<lparr>la_submitted = True, la_signature = Some ''MockSig1111111111111111111111111111111111111111111111111'',
           la_land_slot = Some (mr_slot e + 2), la_reason = ''landed''\<rparr>)"

definition phantom_send :: "(string \<Rightarrow> string) \<Rightarrow> int option \<Rightarrow> mock_rpc \<Rightarrow> string \<Rightarrow> mock_rpc \<times> (venue_exc + land_attempt)" where
  "phantom_send local_sig land_slot e b =
     (let e1 = e\<lparr>send_calls := Suc (send_calls e)\<rparr> in
      (mark_signature_landed e1 (local_sig b) (Some (case land_slot of Some n \<Rightarrow> n | None \<Rightarrow> mr_slot e1 + 1)),
       Inr \<lparr>la_submitted = False, la_signature = None, la_land_slot = None, la_reason = ''node_lag''\<rparr>))"

definition MockRpcClient :: "mock_rpc node_client" where
  "MockRpcClient =
     \<lparr>rpc_get_latest_blockhash = (\<lambda>e. (e, Inr (mr_blockhash e))), rpc_get_current_slot = (\<lambda>e. (e, Inr (mr_slot e))),
      rpc_simulate_transaction = mock_simulate, rpc_send_transaction = mock_send_transaction,
      rpc_get_signature_statuses = Some mock_statuses, rpc_confirm_transaction = None\<rparr>"

definition MockRpcClientPhantomLand :: "(string \<Rightarrow> string) \<Rightarrow> mock_rpc node_client" where
  "MockRpcClientPhantomLand local_sig = MockRpcClient\<lparr>rpc_send_transaction := phantom_send local_sig None\<rparr>"

text \<open>The mock signer wraps the bytes of the transaction; their text is a parameter.\<close>

definition MockSignerClient :: "(tx_bytes \<Rightarrow> string) \<Rightarrow> 'e signer_client" where
  "MockSignerClient render e tx wallet =
     (e, Inr \<lparr>sx_bytes = ''mock_sig:'' @ wallet @ '':'' @ render (ut_bytes tx), sx_client_intent_id = ut_client_intent_id tx\<rparr>)"

definition MockSignerClientRefusing :: "string \<Rightarrow> 'e signer_client" where
  "MockSignerClientRefusing reason e tx wallet = (e, Inl (Signer_refused reason))"

definition mock_on_chain :: "(string \<Rightarrow> string) \<Rightarrow> mock_rpc \<Rightarrow> string set" where
  "mock_on_chain local_sig e = {b. map_of (landed_signatures e) (local_sig b) \<noteq> None}"

text \<open>A sample venue: the signature of bytes is their text with a prefix, the text of a stub its block hash.\<close>

definition local_sig :: "string \<Rightarrow> string" where
  "local_sig b = ''local-sig-'' @ b"

fun hash_text :: "tx_bytes \<Rightarrow> string" where
  "hash_text (Stub p) = st_blockhash p"
| "hash_text (Compiled _ _ blockhash) = blockhash"

definition demo_jito :: "'e node_client \<Rightarrow> 'e jito_venue" where
  "demo_jito rpc =
     \<lparr>vn_wallet_pubkey = ''W'', vn_rpc = rpc, vn_signer = MockSignerClient hash_text, vn_live_submit_enabled = True,
      vn_cluster = ''mainnet'', vn_dry_run_env_disabled = True, vn_rpc_devnet_set = False,
      vn_default_tip = Some 200000, vn_default_cu_price = Some 100000, vn_confirm_params = Some (30, 1 / 2),
      vn_solders = None, vn_allowlist = None, vn_local_signature = local_sig\<rparr>"

lemma demo_jito_fields [simp]:
  "vn_rpc (demo_jito rpc) = rpc" "vn_signer (demo_jito rpc) = MockSignerClient hash_text"
  "vn_local_signature (demo_jito rpc) = local_sig"
  by (simp_all add: demo_jito_def)

interpretation phantom: honest_node "demo_jito (MockRpcClientPhantomLand local_sig)" "mock_on_chain local_sig"
  by unfold_locales
    (auto simp: MockRpcClientPhantomLand_def MockRpcClient_def mock_on_chain_def mock_simulate_def MockSignerClient_def
      phantom_send_def mark_signature_landed_def mock_statuses_def local_sig_def Let_def split: if_splits)

definition demo_mock :: mock_rpc where
  "demo_mock = \<lparr>mr_slot = 300000000, mr_cu_consumed = 180000, mr_blockhash = ''B'', simulate_calls = 0, send_calls = 0,
     signature_status_calls = 0, landed_signatures = []\<rparr>"

definition fresh_state :: "'e \<Rightarrow> 'e jito_state" where
  "fresh_state e = \<lparr>vs_env = e, submitted_intent_ids = [], vs_calls = []\<rparr>"

definition demo_order :: venue_order where
  "demo_order = Order_entry
     \<lparr>en_client_intent_id = Cid ''entry'' ''m'' [1], en_mint = ''m'',
      en_event_time = \<lparr>slot = 1, block_time_ms = 1000, wall_clock_ms = 1000\<rparr>, en_sol_in_lamports = 1000000,
      en_slippage_bps = 100, en_tip_lamports = 200000, en_cu_price_microlamports = 100000, en_target_slot = 6,
      en_cost_stack = \<lparr>expected_edge_bps = 300, jito_tip_bps = 0, priority_fee_bps = 0, cs_entry_slippage_bps = 0,
        amm_fee_bps = 0, exit_slippage_bps = 0, adverse_selection_bps = 150, total_cost_bps = 150\<rparr>,
      en_venue = ''pumpswap'', en_wallet_id = ''wallet-0''\<rparr>
     \<lparr>le_mint = ''m'', le_event_time = \<lparr>slot = 1, block_time_ms = 1000, wall_clock_ms = 1000\<rparr>, sol_reserve_lamports = 1,
      token_reserve_base = 1, data_staleness_ms = 0, venue_program_id = ''P'', le_source = ''pumpswap''\<rparr>"

theorem sends_simulated_and_bounded_witness:
  "\<exists>new. vs_calls (fst (place_order ((demo_jito (MockRpcClientPhantomLand local_sig))\<lparr>vn_live_submit_enabled := False\<rparr>)
       (fresh_state demo_mock) demo_order)) = new \<and> (\<forall>b. Called_send b \<notin> set new)"
  using sends_simulated_and_bounded [of "(demo_jito (MockRpcClientPhantomLand local_sig))\<lparr>vn_live_submit_enabled := False\<rparr>"
      "fresh_state demo_mock" demo_order]
  by (auto simp: fresh_state_def venue_submit_mode_def demo_jito_def)


text \<open>Evaluation from the outside: a continuation is not touched before it is reached.\<close>

lemma vbind_outside: "m = m' \<Longrightarrow> vbind m f = vbind m' f"
  by simp

lemmas venue_steps = vbind_def vreturn_def vlift_def vcall_def get_blockhash_def get_slot_def venue_quote_def venue_sign_def
  venue_simulate_def sign_and_simulate_def assert_sim_success_def assert_quote_fresh_def require_def compute_min_tokens_out_def
  venue_send_def send_once_def send_in_mode_def recheck_signature_before_resend_def land_with_retry_def land_with_retry_entry_def
  assert_submit_allowed_def venue_assert_live_allowed_def venue_submit_mode_def entry_steps_def jito_execute_def venue_answer_def
  venue_reconcile_def remember_if_landed_def enrich_fill_def no_fill_def not_submitted_def BLOCKHASH_EXPIRY_RETRY_REASONS_def
  QUOTE_MAX_AGE_SLOTS_def MIN_TOKENS_OUT_GUARD_def MAX_LAND_ATTEMPTS_def entry_tx_def build_entry_tx_def Let_def numeral_3_eq_3

lemmas demo_simps = venue_steps demo_jito_def demo_mock_def demo_order_def fresh_state_def local_sig_def MockRpcClient_def
  MockSignerClient_def mock_simulate_def mock_statuses_def mock_send_transaction_def

lemma phantom_caught:
  "case place_order (demo_jito (MockRpcClientPhantomLand local_sig)) (fresh_state demo_mock) demo_order of
     (s, f) \<Rightarrow> landed f \<and> tokens_out f = 997500 \<and> send_calls (vs_env s) = 1 \<and> length (landed_signatures (vs_env s)) = 1"
  by (simp add: demo_simps MockRpcClientPhantomLand_def phantom_send_def mark_signature_landed_def)

theorem landed_order_never_repeated_witness:
  "\<exists>s. place_order (demo_jito (MockRpcClientPhantomLand local_sig)) s demo_order = (s, no_fill ''idempotency_key_conflict'' None)"
proof -
  let ?v = "demo_jito (MockRpcClientPhantomLand local_sig)"
  obtain s f where *: "place_order ?v (fresh_state demo_mock) demo_order = (s, f)" by (cases "place_order ?v (fresh_state demo_mock) demo_order")
  then have "landed f" using phantom_caught by simp
  then show ?thesis using landed_order_never_repeated [OF *, of demo_order "[]"] by (auto simp: venue_run_def)
qed

subsection \<open>Where the reports and the chain part\<close>

text \<open>
  A live fill is reported on acceptance: the plain node accepts the transaction and has no status for its
  signature, and the entry is still answered as landed and its identifier taken.
\<close>

theorem live_fill_without_confirmation:
  "\<exists>s f. place_order (demo_jito MockRpcClient) (fresh_state demo_mock) demo_order = (s, f) \<and> landed f \<and>
     order_id demo_order \<in> set (submitted_intent_ids s) \<and> mock_on_chain local_sig (vs_env s) = {}"
  by (simp add: demo_simps mock_on_chain_def)

text \<open>
  The last attempt is not checked. A node that answers every send with \<open>node_lag\<close> and lets every third
  transaction land is truthful, yet the entry is reported as not landed; its identifier stays free, and
  placing the same order again puts a second transaction on chain.
\<close>

definition lagging_send :: "mock_rpc \<Rightarrow> string \<Rightarrow> mock_rpc \<times> (venue_exc + land_attempt)" where
  "lagging_send e b =
     (let e1 = e\<lparr>send_calls := Suc (send_calls e)\<rparr> in
      (if Suc (send_calls e) mod 3 = 0 then mark_signature_landed e1 (local_sig b) None else e1,
       Inr \<lparr>la_submitted = False, la_signature = None, la_land_slot = None, la_reason = ''node_lag''\<rparr>))"

definition lagging_node :: "mock_rpc node_client" where
  "lagging_node = MockRpcClient\<lparr>rpc_get_latest_blockhash := (\<lambda>e. (e, Inr (replicate (send_calls e) (CHR ''B'')))),
     rpc_send_transaction := lagging_send\<rparr>"

interpretation lagging: honest_node "demo_jito lagging_node" "mock_on_chain local_sig"
  by unfold_locales
    (auto simp: lagging_node_def MockRpcClient_def mock_on_chain_def mock_simulate_def MockSignerClient_def
      lagging_send_def mark_signature_landed_def mock_statuses_def local_sig_def Let_def split: if_splits)

text \<open>What one attempt does to the lagging node; the loop is then three such steps.\<close>

definition lag_step :: "mock_rpc jito_state \<Rightarrow> string \<Rightarrow> mock_rpc jito_state \<Rightarrow> bool" where
  "lag_step s b s' \<longleftrightarrow> submitted_intent_ids s' = submitted_intent_ids s \<and> mr_slot (vs_env s') = mr_slot (vs_env s) \<and>
     send_calls (vs_env s') = Suc (send_calls (vs_env s)) \<and>
     landed_signatures (vs_env s') =
       (if Suc (send_calls (vs_env s)) mod 3 = 0 then dict_set (local_sig b) (mr_slot (vs_env s)) (landed_signatures (vs_env s))
        else landed_signatures (vs_env s))"

definition lag_text :: "string \<Rightarrow> nat \<Rightarrow> string" where
  "lag_text wallet n = ''mock_sig:'' @ wallet @ '':'' @ replicate n (CHR ''B'')"

lemmas lag_simps = lagging_node_def lagging_send_def mark_signature_landed_def MockRpcClient_def MockSignerClient_def
  mock_simulate_def mock_statuses_def demo_jito_def venue_submit_mode_def vbind_def vreturn_def vcall_def Let_def

lemma lag_first:
  obtains s' where "attempt_loop (demo_jito lagging_node) rebuild wallet (Suc n) False tx reason s =
      attempt_loop (demo_jito lagging_node) rebuild wallet n True tx ''node_lag'' s'" "lag_step s (sx_bytes tx) s'"
proof
  let ?s = "s\<lparr>vs_env := fst (lagging_send (vs_env s) (sx_bytes tx)), vs_calls := vs_calls s @ [Called_send (sx_bytes tx)]\<rparr>"
  show "attempt_loop (demo_jito lagging_node) rebuild wallet (Suc n) False tx reason s =
      attempt_loop (demo_jito lagging_node) rebuild wallet n True tx ''node_lag'' ?s"
    by (simp add: lag_simps venue_send_def send_once_def send_in_mode_def not_submitted_def BLOCKHASH_EXPIRY_RETRY_REASONS_def)
  show "lag_step s (sx_bytes tx) ?s" by (simp add: lag_step_def lagging_send_def mark_signature_landed_def Let_def)
qed

lemma lag_retry:
  assumes "map_of (landed_signatures (vs_env s)) (local_sig (sx_bytes tx)) = None" and "\<And>h. hash_text (ut_bytes (rebuild h)) = h"
  obtains s' tx' where "attempt_loop (demo_jito lagging_node) rebuild wallet (Suc n) True tx reason s =
      attempt_loop (demo_jito lagging_node) rebuild wallet n True tx' ''node_lag'' s'"
    "sx_bytes tx' = lag_text wallet (send_calls (vs_env s))" "lag_step s (sx_bytes tx') s'"
proof
  let ?h = "replicate (send_calls (vs_env s)) (CHR ''B'')"
  let ?tx = "\<lparr>sx_bytes = lag_text wallet (send_calls (vs_env s)), sx_client_intent_id = ut_client_intent_id (rebuild ?h)\<rparr>"
  let ?e = "(vs_env s)\<lparr>signature_status_calls := Suc (signature_status_calls (vs_env s)), simulate_calls := Suc (simulate_calls (vs_env s))\<rparr>"
  let ?s = "s\<lparr>vs_env := fst (lagging_send ?e (sx_bytes ?tx)), vs_calls := vs_calls s @ [Called_statuses (local_sig (sx_bytes tx)),
     Called_blockhash, Called_sign (rebuild ?h), Called_simulate (sx_bytes ?tx) True, Called_send (sx_bytes ?tx)]\<rparr>"
  show "attempt_loop (demo_jito lagging_node) rebuild wallet (Suc n) True tx reason s =
      attempt_loop (demo_jito lagging_node) rebuild wallet n True ?tx ''node_lag'' ?s"
    using assms
    by (simp add: lag_simps lag_text_def venue_send_def send_once_def send_in_mode_def not_submitted_def BLOCKHASH_EXPIRY_RETRY_REASONS_def
        recheck_signature_before_resend_def get_blockhash_def venue_sign_def venue_simulate_def)
  show "lag_step s (sx_bytes ?tx) ?s" by (simp add: lag_step_def lagging_send_def mark_signature_landed_def Let_def)
  show "sx_bytes ?tx = lag_text wallet (send_calls (vs_env s))" by simp
qed

lemma lag_text_inj: "local_sig (lag_text w m) = local_sig (lag_text w n) \<longleftrightarrow> m = n"
  by (simp add: local_sig_def lag_text_def)

declare attempt_loop.simps [simp del]

lemma lag_loop:
  assumes "send_calls (vs_env s) = 3 * k" and "sx_bytes tx = lag_text wallet (3 * k)" and "\<And>h. hash_text (ut_bytes (rebuild h)) = h"
    and "\<forall>n \<ge> 3 * k. map_of (landed_signatures (vs_env s)) (local_sig (lag_text wallet n)) = None"
  obtains s' where "attempt_loop (demo_jito lagging_node) rebuild wallet 3 False tx reason s = (s', Inr (not_submitted ''node_lag''))"
    "submitted_intent_ids s' = submitted_intent_ids s" "send_calls (vs_env s') = 3 * Suc k"
    "landed_signatures (vs_env s') = dict_set (local_sig (lag_text wallet (3 * k + 2))) (mr_slot (vs_env s)) (landed_signatures (vs_env s))"
proof -
  let ?loop = "attempt_loop (demo_jito lagging_node) rebuild wallet"
  have mods: "Suc (3 * k) mod 3 \<noteq> 0" "Suc (Suc (3 * k)) mod 3 \<noteq> 0" "Suc (Suc (Suc (3 * k))) mod 3 = 0" by presburger+
  obtain s1 where 1: "?loop (Suc (Suc (Suc 0))) False tx reason s = ?loop (Suc (Suc 0)) True tx ''node_lag'' s1" "lag_step s (sx_bytes tx) s1"
    by (rule lag_first)
  have s1: "map_of (landed_signatures (vs_env s1)) (local_sig (sx_bytes tx)) = None"
    using 1(2) assms(1,2,4) mods by (simp add: lag_step_def)
  obtain s2 tx2 where 2: "?loop (Suc (Suc 0)) True tx ''node_lag'' s1 = ?loop (Suc 0) True tx2 ''node_lag'' s2"
      "sx_bytes tx2 = lag_text wallet (send_calls (vs_env s1))" "lag_step s1 (sx_bytes tx2) s2"
    by (rule lag_retry [OF s1 assms(3)])
  have s2: "map_of (landed_signatures (vs_env s2)) (local_sig (sx_bytes tx2)) = None"
    using 1(2) 2(2,3) assms(1,4) mods by (simp add: lag_step_def)
  obtain s3 tx3 where 3: "?loop (Suc 0) True tx2 ''node_lag'' s2 = ?loop 0 True tx3 ''node_lag'' s3"
      "sx_bytes tx3 = lag_text wallet (send_calls (vs_env s2))" "lag_step s2 (sx_bytes tx3) s3"
    by (rule lag_retry [OF s2 assms(3)])
  show thesis
  proof (rule that)
    show "attempt_loop (demo_jito lagging_node) rebuild wallet 3 False tx reason s = (s3, Inr (not_submitted ''node_lag''))"
      using 1(1) 2(1) 3(1) by (simp add: numeral_3_eq_3 vreturn_def attempt_loop.simps(1))
    show "submitted_intent_ids s3 = submitted_intent_ids s" "send_calls (vs_env s3) = 3 * Suc k"
      "landed_signatures (vs_env s3) = dict_set (local_sig (lag_text wallet (3 * k + 2))) (mr_slot (vs_env s)) (landed_signatures (vs_env s))"
      using 1(2) 2(3) 3(2,3) assms(1) mods by (auto simp: lag_step_def)
  qed
qed

lemma entry_tx_text [simp]: "hash_text (ut_bytes (entry_tx (demo_jito lagging_node) i ev min_out cu_limit h)) = h"
  by (simp add: entry_tx_def build_entry_tx_def demo_jito_def Let_def)

lemma lag_order:
  assumes "submitted_intent_ids s = []" and "send_calls (vs_env s) = 3 * k" 
    and "\<forall>n \<ge> 3 * k. map_of (landed_signatures (vs_env s)) (local_sig (lag_text ''wallet-0'' n)) = None"
  obtains s' f where "place_order (demo_jito lagging_node) s demo_order = (s', f)" "\<not> landed f" "submitted_intent_ids s' = []"
    "send_calls (vs_env s') = 3 * Suc k" 
    "landed_signatures (vs_env s') =
       dict_set (local_sig (lag_text ''wallet-0'' (3 * k + 2))) (mr_slot (vs_env s)) (landed_signatures (vs_env s))"
proof -
  obtain i ev where buy: "demo_order = Order_entry i ev" "en_wallet_id i = ''wallet-0''" "en_sol_in_lamports i = 1000000"
    "en_slippage_bps i = 100" by (simp add: demo_order_def)
  let ?v = "demo_jito lagging_node"
  let ?h = "replicate (3 * k) (CHR ''B'')"
  let ?stx = "\<lparr>sx_bytes = lag_text ''wallet-0'' (3 * k), sx_client_intent_id = en_client_intent_id i\<rparr>"
  have sim: "sign_and_simulate ?v (entry_tx ?v i ev 987525 c ?h) ''wallet-0'' t =
      (t\<lparr>vs_env := (vs_env t)\<lparr>simulate_calls := Suc (simulate_calls (vs_env t))\<rparr>,
         vs_calls := vs_calls t @ [Called_sign (entry_tx ?v i ev 987525 c ?h), Called_simulate (sx_bytes ?stx) True]\<rparr>,
       Inr (?stx, \<lparr>sim_success = True, cu_consumed = mr_cu_consumed (vs_env t), revert_reason = None\<rparr>))" for c t
    by (simp add: lag_simps lag_text_def sign_and_simulate_def venue_sign_def venue_simulate_def assert_sim_success_def require_def
        vlift_def entry_tx_def build_entry_tx_def)
  let ?cu = "size_cu_limit (mr_cu_consumed (vs_env s))"
  obtain t where t: "submitted_intent_ids t = []" "mr_slot (vs_env t) = mr_slot (vs_env s)" "send_calls (vs_env t) = 3 * k"
    "landed_signatures (vs_env t) = landed_signatures (vs_env s)"
    and steps: "entry_steps ?v i ev s = vbind (attempt_loop ?v (entry_tx ?v i ev 987525 ?cu) ''wallet-0'' 3 False ?stx ''unknown'') (\<lambda>l.
       vbind (remember_if_landed (en_client_intent_id i) (venue_reconcile l)) (\<lambda>_.
       vreturn (enrich_fill (venue_reconcile l) (en_tip_lamports i) (compute_priority_lamports (en_cu_price_microlamports i) ?cu)
         (if landed (venue_reconcile l) then 997500 else 0) (ddiv 1000000 997500)
         (compute_entry_slippage_bps 1000000 997500) (lr_land_slot l)))) t"
  proof (rule that)
    let ?c = "[Called_slot, Called_slot, Called_blockhash,
      Called_sign (entry_tx ?v i ev 987525 DEFAULT_CU_LIMIT ?h), Called_simulate (sx_bytes ?stx) True,
      Called_sign (entry_tx ?v i ev 987525 ?cu ?h), Called_simulate (sx_bytes ?stx) True]"
    let ?t = "s\<lparr>vs_env := (vs_env s)\<lparr>simulate_calls := Suc (Suc (simulate_calls (vs_env s)))\<rparr>, vs_calls := vs_calls s @ ?c\<rparr>"
    show "submitted_intent_ids ?t = []" "mr_slot (vs_env ?t) = mr_slot (vs_env s)" "send_calls (vs_env ?t) = 3 * k"
      "landed_signatures (vs_env ?t) = landed_signatures (vs_env s)" using assms by simp_all
    have live: "venue_submit_mode ?v = LIVE" "assert_submit_allowed ?v = Inr ()"
      by (simp_all add: lag_simps assert_submit_allowed_def venue_assert_live_allowed_def require_def)
    have slot: "get_slot ?v t = (t\<lparr>vs_calls := vs_calls t @ [Called_slot]\<rparr>, Inr (mr_slot (vs_env t)))" for t
      by (simp add: lag_simps get_slot_def)
    have hash: "get_blockhash ?v t = (t\<lparr>vs_calls := vs_calls t @ [Called_blockhash]\<rparr>, Inr ?h)" if "send_calls (vs_env t) = 3 * k" for t
      using that by (simp add: lag_simps get_blockhash_def)
    show "entry_steps ?v i ev s = vbind (attempt_loop ?v (entry_tx ?v i ev 987525 ?cu) ''wallet-0'' 3 False ?stx ''unknown'') (\<lambda>l.
       vbind (remember_if_landed (en_client_intent_id i) (venue_reconcile l)) (\<lambda>_.
       vreturn (enrich_fill (venue_reconcile l) (en_tip_lamports i) (compute_priority_lamports (en_cu_price_microlamports i) ?cu)
         (if landed (venue_reconcile l) then 997500 else 0) (ddiv 1000000 997500)
         (compute_entry_slippage_bps 1000000 997500) (lr_land_slot l)))) ?t"
      using assms(2) buy
      by (simp add: entry_steps_def venue_quote_def vbind_def vlift_def vreturn_def slot hash sim assert_quote_fresh_def require_def
          compute_min_tokens_out_def QUOTE_MAX_AGE_SLOTS_def MIN_TOKENS_OUT_GUARD_def land_with_retry_entry_def land_with_retry_def
          live MAX_LAND_ATTEMPTS_def Let_def cong: if_cong)
  qed
  have free: "\<forall>n \<ge> 3 * k. map_of (landed_signatures (vs_env t)) (local_sig (lag_text ''wallet-0'' n)) = None"
    using assms(3) t(4) by simp
  obtain t' where t': "attempt_loop ?v (entry_tx ?v i ev 987525 ?cu) ''wallet-0'' 3 False ?stx ''unknown'' t = (t', Inr (not_submitted ''node_lag''))"
    "submitted_intent_ids t' = submitted_intent_ids t" "send_calls (vs_env t') = 3 * Suc k"
    "landed_signatures (vs_env t') = dict_set (local_sig (lag_text ''wallet-0'' (3 * k + 2))) (mr_slot (vs_env t)) (landed_signatures (vs_env t))"
    by (rule lag_loop [OF t(3) _ _ free, where tx = ?stx and rebuild = "entry_tx ?v i ev 987525 ?cu" and reason = "''unknown''"]) simp_all
  have "\<exists>f. place_order ?v s demo_order = (t', f) \<and> \<not> landed f"
    using assms(1) t'(1) steps
    by (simp add: buy(1) jito_execute_def venue_answer_def vbind_def remember_if_landed_def venue_reconcile_def not_submitted_def
        no_fill_def vreturn_def enrich_fill_def)
  then show thesis using that t' t by auto
qed

theorem unchecked_last_attempt_lands_twice:
  "\<exists>s1 f1 s2 f2. place_order (demo_jito lagging_node) (fresh_state demo_mock) demo_order = (s1, f1) \<and>
     \<not> landed f1 \<and> length (landed_signatures (vs_env s1)) = 1 \<and>
     place_order (demo_jito lagging_node) s1 demo_order = (s2, f2) \<and> length (landed_signatures (vs_env s2)) = 2"
proof -
  obtain s1 f1 where 1: "place_order (demo_jito lagging_node) (fresh_state demo_mock) demo_order = (s1, f1)" "\<not> landed f1"
      "submitted_intent_ids s1 = []" "send_calls (vs_env s1) = 3 * Suc 0"
      "landed_signatures (vs_env s1) = [(local_sig (lag_text ''wallet-0'' 2), 300000000)]"
    by (rule lag_order [of "fresh_state demo_mock" 0]) (simp_all add: fresh_state_def demo_mock_def numeral_2_eq_2)
  obtain s2 f2 where "place_order (demo_jito lagging_node) s1 demo_order = (s2, f2)"
      "landed_signatures (vs_env s2) =
        dict_set (local_sig (lag_text ''wallet-0'' 5)) (mr_slot (vs_env s1)) (landed_signatures (vs_env s1))"
    by (rule lag_order [OF 1(3,4)]) (simp_all add: 1(5) lag_text_inj)
  then show ?thesis using 1 by (auto simp: lag_text_inj)
qed

subsection \<open>The built bytes and the signer\<close>

lemma little_prefix: "k \<le> m \<Longrightarrow> int_from_bytes_little (take k (rev (to_bytes_big m n))) = n mod 256 ^ k"
proof (induction m arbitrary: k n)
  case (Suc m)
  show ?case
  proof (cases k)
    case (Suc j)
    have "uint (word_of_int n :: byte) = n mod 256" by (simp add: uint_word_of_int)
    moreover have "n mod (256 * 256 ^ j) = n mod 256 + 256 * (n div 256 mod 256 ^ j)" by (simp add: mod_mult2_eq' zmod_zmult2_eq)
    ultimately show ?thesis using Suc Suc.prems Suc.IH [of j "n div 256"] by simp
  qed simp
qed simp

text \<open>
  The tip instruction of a built entry is not a transfer. The builder puts four zero bytes in front of the
  discriminant 2, so the signer reads the creation of an account, with 2 plus \<open>2\<^sup>3\<^sup>2\<close> times the tip (modulo
  \<open>2\<^sup>3\<^sup>2\<close>) lamports: more than four SOL for any tip below \<open>2\<^sup>3\<^sup>2\<close>.
\<close>

theorem built_tip_priced_as_account_creation:
  assumes "tip_instruction system_program wallet account tip = Inr ix"
    and "pix_data p = in_data ix" and "pix_account_indices p = [0, 1]" and "keys = wallet # account # rest"
  shows "decode_system_transfer p keys = Inr (Some (wallet, account, 2 + 2 ^ 32 * (tip mod 2 ^ 32)))"
proof -
  have data: "pix_data p = TIP_DISCRIMINATOR @ rev (to_bytes_big 8 tip)" and "0 \<le> tip"
    using assms(1,2) by (auto simp: tip_instruction_def pack_u64_little_def ebind_def split: if_splits)
  have len: "length (to_bytes_big m n) = m" for m n by (induction m arbitrary: n) simp_all
  have "take 8 (drop 4 (pix_data p)) = [2, 0, 0, 0] @ take 4 (rev (to_bytes_big 8 tip))"
    by (simp add: data TIP_DISCRIMINATOR_def)
  then have "int_from_bytes_little (take 8 (drop 4 (pix_data p))) = 2 + 2 ^ 32 * (tip mod 2 ^ 32)"
    using little_prefix [of 4 8 tip] by simp
  moreover have "take 4 (pix_data p) = [0, 0, 0, 0]" "\<not> length (pix_data p) < 12"
    by (simp_all add: data TIP_DISCRIMINATOR_def len)
  ultimately show ?thesis
    using assms(3,4)
    by (simp add: decode_system_transfer_def decode_transfer_at_def resolve_key_def SYSTEM_TRANSFER_def SYSTEM_CREATE_ACCOUNT_def)
qed

theorem built_tip_priced_as_account_creation_witness:
  "\<exists>ix. tip_instruction ''S'' ''W'' ''T'' 200000 = Inr ix \<and>
     decode_system_transfer \<lparr>pix_program_id = ''S'', pix_program_id_index = 2, pix_account_indices = [0, 1], pix_data = in_data ix\<rparr>
       [''W'', ''T'', ''S''] = Inr (Some (''W'', ''T'', 858993459200002))"
proof -
  obtain ix where ix: "tip_instruction ''S'' ''W'' ''T'' 200000 = Inr ix"
    by (auto simp: tip_instruction_def pack_u64_little_def ebind_def)
  then show ?thesis
    using built_tip_priced_as_account_creation [OF ix, of "\<lparr>pix_program_id = ''S'', pix_program_id_index = 2,
      pix_account_indices = [0, 1], pix_data = in_data ix\<rparr>" "[''W'', ''T'', ''S'']" "[''S'']"] by simp
qed

text \<open>
  A stub is not a transaction: text that begins with a brace announces 123 signatures, so shorter text than
  that is refused by the parser. Exits are always built as stubs.
\<close>

theorem stub_text_is_unparseable:
  assumes "length bs < 123 * 64"
  shows "parse_transaction (0x7b # bs) = Inl ValueError"
proof -
  have "read_compact_u16 (0x7b # bs) 0 = Inr (123, 1)" by (simp add: read_compact_u16_def numeral_3_eq_3 Let_def)
  then show ?thesis using assms by (simp add: parse_transaction_def Let_def)
qed

end
