(* ===== verification/Presets.thy ===== *)
theory Presets
  imports Safety_Gate Sizing Exit_Engine
begin

text \<open>
  The micro entry preset (\<open>risk/presets.py\<close>), the discovery screen (\<open>risk/screener.py\<close>) and the walk of a
  position along a price path with which exit rules are compared (\<open>risk/exit_sim.py\<close>). A screened reading is
  the decimal of its printed form. The random generator of the walk is a parameter: its draws, by index;
  the generated paths are a parameter too.
\<close>

section \<open>Definitions\<close>

subsection \<open>The micro preset (\<open>presets.py\<close>)\<close>

definition MICRO_TOP5_CONCENTRATION_MAX_BPS :: bps where "MICRO_TOP5_CONCENTRATION_MAX_BPS = 2000"
definition MICRO_MIN_LP_LOCK_DAYS :: int where "MICRO_MIN_LP_LOCK_DAYS = 30"
definition MICRO_SIZE_FRACTION_BPS :: bps where "MICRO_SIZE_FRACTION_BPS = 50"

definition MICRO_SAFETY_THRESHOLDS :: safety_thresholds where
  "MICRO_SAFETY_THRESHOLDS =
     \<lparr>min_lp_locked_bps = 10000, max_holder_concentration_top10_bps = 2000, min_distinct_holders = 10,
      max_dev_bundle_cluster_bps = 2000, max_sell_tax_bps = 500, max_buy_tax_bps = 500, max_staleness_ms = 2000\<rparr>"

datatype micro_red_flag = NOT_VERIFIED | LP_LOCK_TOO_SHORT | TOP5_CONCENTRATION_HIGH

record micro_safety_facts =
  verified :: "bool option"
  lp_lock_age_days :: "int option"
  holder_concentration_top5_bps :: "bps option"

definition mk_MicroSafetyFacts :: "micro_safety_facts \<Rightarrow> micro_safety_facts result" where
  "mk_MicroSafetyFacts f =
     (if (case lp_lock_age_days f of None \<Rightarrow> False | Some d \<Rightarrow> d < 0) then Inl ValueError
      else if (case holder_concentration_top5_bps f of None \<Rightarrow> False | Some c \<Rightarrow> c < 0) then Inl ValueError
      else Inr f)"

text \<open>A hit of the micro checks is an incomplete-input hit that also carries its own code.\<close>

record micro_hit = red_flag_hit +
  micro_code :: "micro_red_flag option"

definition plain_hit :: "red_flag_hit \<Rightarrow> micro_hit" where
  "plain_hit h = \<lparr>hit_flag = hit_flag h, hit_measured = hit_measured h, hit_threshold = hit_threshold h, micro_code = None\<rparr>"

definition micro_hit_of :: "micro_red_flag \<Rightarrow> int option \<Rightarrow> int option \<Rightarrow> micro_hit" where
  "micro_hit_of code measured threshold =
     \<lparr>hit_flag = INPUT_INCOMPLETE, hit_measured = measured, hit_threshold = threshold, micro_code = Some code\<rparr>"

definition micro_incomplete :: micro_hit where
  "micro_incomplete = plain_hit (RedFlagHit INPUT_INCOMPLETE None None)"

definition micro_extra_flags :: "micro_safety_facts \<Rightarrow> micro_hit list" where
  "micro_extra_flags f =
     (case verified f of
        None \<Rightarrow> [micro_incomplete]
      | Some ok \<Rightarrow> if \<not> ok then [micro_hit_of NOT_VERIFIED None None] else []) @
     (case lp_lock_age_days f of
        None \<Rightarrow> [micro_incomplete]
      | Some d \<Rightarrow>
          if d < MICRO_MIN_LP_LOCK_DAYS then [micro_hit_of LP_LOCK_TOO_SHORT (Some d) (Some MICRO_MIN_LP_LOCK_DAYS)] else []) @
     (case holder_concentration_top5_bps f of
        None \<Rightarrow> [micro_incomplete]
      | Some c \<Rightarrow>
          if MICRO_TOP5_CONCENTRATION_MAX_BPS \<le> c
          then [micro_hit_of TOP5_CONCENTRATION_HIGH (Some c) (Some MICRO_TOP5_CONCENTRATION_MAX_BPS)] else [])"

record micro_decision =
  mg_mint :: mint
  mg_verdict :: gate_verdict
  mg_red_flags :: "micro_hit list"
  mg_event_slot :: int
  mg_event_block_time_ms :: millis

text \<open>The code of a hit: the micro code when it has one, else the red flag.\<close>

definition micro_red_flag_codes :: "micro_decision \<Rightarrow> (micro_red_flag + red_flag) list" where
  "micro_red_flag_codes d =
     map (\<lambda>h. case micro_code h of Some c \<Rightarrow> Inl c | None \<Rightarrow> Inr (hit_flag h)) (mg_red_flags d)"

definition evaluate_safety ::
  "safety_thresholds \<Rightarrow> safety_inputs \<Rightarrow> micro_safety_facts \<Rightarrow> (mint \<Rightarrow> int \<Rightarrow> bool) option \<Rightarrow> micro_decision" where
  "evaluate_safety t i f probe =
     (let hits = map plain_hit (gd_red_flags (scan_all t i)) @ micro_extra_flags f @
                 (case check_sellability i probe of None \<Rightarrow> [] | Some h \<Rightarrow> [plain_hit h]) in
      \<lparr>mg_mint = si_mint i, mg_verdict = (if hits \<noteq> [] then REJECT else PASS), mg_red_flags = hits,
       mg_event_slot = si_event_slot i, mg_event_block_time_ms = si_event_block_time_ms i\<rparr>)"

definition MICRO_EXIT_CONFIG :: exit_config where
  "MICRO_EXIT_CONFIG =
     \<lparr>xc_label = ''micro'',
      tp_ladder = [\<lparr>trigger_r = 13 / 10, rung_fraction_bps = 3500\<rparr>, \<lparr>trigger_r = 9 / 5, rung_fraction_bps = 3500\<rparr>],
      hard_stop_r = 41 / 50, trail_arm_r = 3 / 2, trail_drawdown_bps = 2000, max_hold_steps = 24,
      ratchet_ladder = [\<lparr>at_r = 13 / 10, lock_r = 19 / 20\<rparr>, \<lparr>at_r = 3 / 2, lock_r = 1\<rparr>, \<lparr>at_r = 2, lock_r = 7 / 5\<rparr>],
      time_stop_hours = Some 24, time_stop_flat_band_bps = 2000, time_stop_narrative_cooled_at = 1,
      default_exit_mode = Secure\<rparr>"

record micro_sizing_result =
  final_lamports :: lamports
  kelly_decision :: sizing_decision
  micro_ceiling_lamports :: lamports

definition mk_MicroSizingResult :: "micro_sizing_result \<Rightarrow> micro_sizing_result result" where
  "mk_MicroSizingResult r = (if final_lamports r < 0 then Inl ValueError else Inr r)"

definition micro_size ::
  "risk_config \<Rightarrow> decimal \<Rightarrow> rat \<Rightarrow> rat \<Rightarrow> lamports \<Rightarrow> lamports \<Rightarrow> derisk_signals option \<Rightarrow> micro_sizing_result result" where
  "micro_size config net_odds p unc current_aggregate bankroll signals =
     (if bankroll < 0 then Inl ValueError
      else rbind (kelly_size config p unc current_aggregate signals net_odds) (\<lambda>kelly.
        let roof = bankroll * MICRO_SIZE_FRACTION_BPS div 10000;
            final = min (size_lamports kelly) roof in
        mk_MicroSizingResult
          \<lparr>final_lamports = (if final < 0 then 0 else final), kelly_decision = kelly, micro_ceiling_lamports = roof\<rparr>))"

record micro_preset =
  mp_label :: string
  mp_safety_thresholds :: safety_thresholds
  mp_exit_config :: exit_config
  mp_size_fraction_bps :: bps
  mp_min_lp_lock_days :: int
  mp_top5_concentration_max_bps :: bps

definition MICRO_PRESET :: micro_preset where
  "MICRO_PRESET =
     \<lparr>mp_label = ''micro'', mp_safety_thresholds = MICRO_SAFETY_THRESHOLDS, mp_exit_config = MICRO_EXIT_CONFIG,
      mp_size_fraction_bps = MICRO_SIZE_FRACTION_BPS, mp_min_lp_lock_days = MICRO_MIN_LP_LOCK_DAYS,
      mp_top5_concentration_max_bps = MICRO_TOP5_CONCENTRATION_MAX_BPS\<rparr>"

definition entry_preset :: "string option \<Rightarrow> micro_preset result" where
  "entry_preset label =
     (case map_of [(''micro'', MICRO_PRESET)] (case label of None \<Rightarrow> ''micro'' | Some l \<Rightarrow> l) of
        None \<Rightarrow> Inl KeyError
      | Some p \<Rightarrow> Inr p)"

subsection \<open>The discovery screen (\<open>screener.py\<close>)\<close>

datatype screen_reason =
    MCAP_BELOW_BAND
  | MCAP_ABOVE_BAND
  | LIQUIDITY_BELOW_MIN
  | VOLUME_TO_MCAP_BELOW_MIN
  | SCREEN_INPUT_INCOMPLETE
  | SCREEN_INPUT_STALE
  | IN_SURVIVOR_BAND
  | VOLUME_SPIKE

fun is_exclusion :: "screen_reason \<Rightarrow> bool" where
  "is_exclusion IN_SURVIVOR_BAND = False"
| "is_exclusion VOLUME_SPIKE = False"
| "is_exclusion _ = True"

record screener_thresholds =
  mcap_min_usd :: decimal
  mcap_max_usd :: decimal
  min_liquidity_usd :: decimal
  min_volume_to_mcap_ratio :: decimal
  volume_spike_multiplier :: decimal
  sc_max_staleness_ms :: millis

definition default_screener_thresholds :: screener_thresholds where
  "default_screener_thresholds =
     \<lparr>mcap_min_usd = 70000, mcap_max_usd = 11000000, min_liquidity_usd = 20000, min_volume_to_mcap_ratio = 1 / 10,
      volume_spike_multiplier = 3, sc_max_staleness_ms = 60000\<rparr>"

definition mk_ScreenerThresholds :: "screener_thresholds \<Rightarrow> screener_thresholds result" where
  "mk_ScreenerThresholds t =
     (if mcap_min_usd t < 0 \<or> mcap_max_usd t < 0 \<or> min_liquidity_usd t < 0 then Inl ValueError
      else if mcap_min_usd t > mcap_max_usd t then Inl ValueError
      else if \<not> (0 \<le> min_volume_to_mcap_ratio t \<and> min_volume_to_mcap_ratio t \<le> 1) then Inl ValueError
      else if volume_spike_multiplier t < 1 then Inl ValueError
      else if sc_max_staleness_ms t < 0 then Inl ValueError
      else Inr t)"

record screen_inputs =
  sc_mint :: mint
  sc_event_slot :: int
  sc_event_block_time_ms :: millis
  sc_data_staleness_ms :: millis
  market_cap_usd :: "decimal option"
  sc_liquidity_usd :: "decimal option"
  volume_usd_h24 :: "decimal option"
  baseline_volume_usd_h24 :: "decimal option"

definition mk_ScreenInputs :: "screen_inputs \<Rightarrow> screen_inputs result" where
  "mk_ScreenInputs i =
     (if sc_event_block_time_ms i \<le> 0 then Inl ValueError
      else if sc_data_staleness_ms i < 0 then Inl ValueError
      else Inr i)"

text \<open>
  An enrichment bundle as the screen reads it: the two sources it takes the market cap and the volume
  from, and the answers of its methods for the liquidity and the staleness (-1 without a source).
\<close>

record enrichment_source =
  es_market_cap_usd :: "decimal option"
  es_volume_usd_h24 :: "decimal option"

record enrichment_bundle =
  eb_mint :: mint
  eb_request_slot :: int
  eb_block_time_ms :: millis
  dexscreener :: "enrichment_source option"
  birdeye :: "enrichment_source option"
  eb_liquidity_usd :: "decimal option"
  eb_max_staleness_ms :: millis

definition from_source :: "(enrichment_source \<Rightarrow> decimal option) \<Rightarrow> enrichment_source option \<Rightarrow> enrichment_source option \<Rightarrow> decimal option" where
  "from_source read first second =
     (case Option.bind first read of Some x \<Rightarrow> Some x | None \<Rightarrow> Option.bind second read)"

definition from_enrichment_bundle :: "enrichment_bundle \<Rightarrow> screen_inputs result" where
  "from_enrichment_bundle b =
     (let anchor = eb_block_time_ms b; stale = eb_max_staleness_ms b in
      mk_ScreenInputs
        \<lparr>sc_mint = eb_mint b, sc_event_slot = eb_request_slot b, sc_event_block_time_ms = (if 0 < anchor then anchor else 1),
         sc_data_staleness_ms = (if 0 \<le> stale then stale else if 0 < anchor then anchor else 1),
         market_cap_usd = from_source es_market_cap_usd (birdeye b) (dexscreener b),
         sc_liquidity_usd = eb_liquidity_usd b,
         volume_usd_h24 = from_source es_volume_usd_h24 (dexscreener b) (birdeye b),
         baseline_volume_usd_h24 = None\<rparr>)"

record screen_reason_hit =
  sr_reason :: screen_reason
  sr_measured :: "decimal option"
  sr_threshold :: "decimal option"

abbreviation ScreenReasonHit :: "screen_reason \<Rightarrow> decimal option \<Rightarrow> decimal option \<Rightarrow> screen_reason_hit" where
  "ScreenReasonHit r m t \<equiv> \<lparr>sr_reason = r, sr_measured = m, sr_threshold = t\<rparr>"

record screen_decision =
  sd_mint :: mint
  sd_verdict :: gate_verdict
  sd_reasons :: "screen_reason_hit list"
  sd_event_slot :: int
  sd_event_block_time_ms :: millis

definition exclusion_codes :: "screen_decision \<Rightarrow> screen_reason list" where
  "exclusion_codes d = filter is_exclusion (map sr_reason (sd_reasons d))"

definition has_volume_spike :: "screen_decision \<Rightarrow> bool" where
  "has_volume_spike d \<longleftrightarrow> VOLUME_SPIKE \<in> sr_reason ` set (sd_reasons d)"

definition screen_finalize :: "screen_inputs \<Rightarrow> screen_reason_hit list \<Rightarrow> screen_decision" where
  "screen_finalize i reasons =
     (let excluded = list_ex (\<lambda>h. is_exclusion (sr_reason h)) reasons in
      \<lparr>sd_mint = sc_mint i, sd_verdict = (if excluded then REJECT else PASS),
       sd_reasons = (if excluded then reasons else reasons @ [ScreenReasonHit IN_SURVIVOR_BAND None None]),
       sd_event_slot = sc_event_slot i, sd_event_block_time_ms = sc_event_block_time_ms i\<rparr>)"

definition mcap_reasons :: "screener_thresholds \<Rightarrow> screen_inputs \<Rightarrow> screen_reason_hit list" where
  "mcap_reasons t i =
     (case market_cap_usd i of
        None \<Rightarrow> [ScreenReasonHit SCREEN_INPUT_INCOMPLETE None None]
      | Some mcap \<Rightarrow>
          if mcap < mcap_min_usd t then [ScreenReasonHit MCAP_BELOW_BAND (Some mcap) (Some (mcap_min_usd t))]
          else if mcap > mcap_max_usd t then [ScreenReasonHit MCAP_ABOVE_BAND (Some mcap) (Some (mcap_max_usd t))]
          else [])"

definition liquidity_reasons :: "screener_thresholds \<Rightarrow> screen_inputs \<Rightarrow> screen_reason_hit list" where
  "liquidity_reasons t i =
     (case sc_liquidity_usd i of
        None \<Rightarrow> [ScreenReasonHit SCREEN_INPUT_INCOMPLETE None None]
      | Some liq \<Rightarrow>
          if liq < min_liquidity_usd t then [ScreenReasonHit LIQUIDITY_BELOW_MIN (Some liq) (Some (min_liquidity_usd t))] else [])"

definition turnover_reasons :: "screener_thresholds \<Rightarrow> screen_inputs \<Rightarrow> screen_reason_hit list" where
  "turnover_reasons t i =
     (case (volume_usd_h24 i, market_cap_usd i) of
        (Some volume, Some mcap) \<Rightarrow>
          if mcap \<le> 0 then [ScreenReasonHit SCREEN_INPUT_INCOMPLETE None None]
          else let ratio = ddiv volume mcap in
            if ratio < min_volume_to_mcap_ratio t
            then [ScreenReasonHit VOLUME_TO_MCAP_BELOW_MIN (Some ratio) (Some (min_volume_to_mcap_ratio t))] else []
      | _ \<Rightarrow> [ScreenReasonHit SCREEN_INPUT_INCOMPLETE None None])"

definition spike_reasons :: "screener_thresholds \<Rightarrow> screen_inputs \<Rightarrow> screen_reason_hit list" where
  "spike_reasons t i =
     (case (volume_usd_h24 i, baseline_volume_usd_h24 i) of
        (Some volume, Some baseline) \<Rightarrow>
          let bar = dmul baseline (volume_spike_multiplier t) in
          if 0 < baseline \<and> bar \<le> volume then [ScreenReasonHit VOLUME_SPIKE (Some volume) (Some bar)] else []
      | _ \<Rightarrow> [])"

definition screen :: "screener_thresholds \<Rightarrow> screen_inputs \<Rightarrow> screen_decision" where
  "screen t i =
     (if sc_data_staleness_ms i > sc_max_staleness_ms t
      then screen_finalize i
             [ScreenReasonHit SCREEN_INPUT_STALE (Some (of_int (sc_data_staleness_ms i))) (Some (of_int (sc_max_staleness_ms t)))]
      else screen_finalize i (mcap_reasons t i @ liquidity_reasons t i @ turnover_reasons t i @ spike_reasons t i))"

definition screen_bundle :: "screener_thresholds \<Rightarrow> enrichment_bundle \<Rightarrow> screen_decision result" where
  "screen_bundle t b = rbind (from_enrichment_bundle b) (\<lambda>i. Inr (screen t i))"

subsection \<open>Walking a position along a path (\<open>exit_sim.py\<close>)\<close>

record walk_result =
  wr_mint :: mint
  wr_sol_in_lamports :: lamports
  gross_pnl_lamports :: lamports
  proceeds_lamports :: lamports
  wr_exits :: "(exit_reason \<times> bps) list"
  final_remaining_bps :: bps

type_synonym draws = "nat \<Rightarrow> rat"

definition sell_proceeds_lamports :: "draws \<Rightarrow> nat \<Rightarrow> lamports \<Rightarrow> decimal \<Rightarrow> exit_mode \<Rightarrow> lamports" where
  "sell_proceeds_lamports draw n notional r mode =
     (let model = slippage_model_for mode;
          haircut = msm_exit_slippage_bps model +
            (if draw n < flt (of_int (sandwich_p_bps model) / 10000) then sandwich_loss_bps model else 0);
          keep = ddiv (dsub 10000 (of_int haircut)) 10000 in
      trunc (dmul (dmul (of_int notional) r) keep))"

record walk_state =
  wk_state :: exit_state
  wk_proceeds :: lamports
  wk_exits :: "(exit_reason \<times> bps) list"
  wk_draws :: nat

definition walk_tick :: "decimal \<Rightarrow> millis \<Rightarrow> bool \<Rightarrow> exit_tick" where
  "walk_tick mark bt narrative_failure =
     \<lparr>tk_mark_price = mark, tk_block_time_ms = bt, tk_narrative_failure = narrative_failure, tk_insider_dump = False,
      tk_sellability_degraded = False, tk_lp_unlock_approaching = False, tk_narrative_score = None\<rparr>"

fun walk_loop ::
  "exit_config \<Rightarrow> draws \<Rightarrow> lamports \<Rightarrow> decimal \<Rightarrow> millis \<Rightarrow> millis \<Rightarrow> int option \<Rightarrow> int \<Rightarrow> decimal list \<Rightarrow> walk_state \<Rightarrow>
   walk_state result" where
  "walk_loop c draw sol_in entry bt0 dt fail_at step [] w = Inr w"
| "walk_loop c draw sol_in entry bt0 dt fail_at step (x # xs) w =
     (if remaining_bps (wk_state w) \<le> 0 then Inr w
      else
        let mark = dmul entry x;
            notional_before = sol_in * remaining_bps (wk_state w) div 10000 in
        rbind (exit_on_tick c (wk_state w) (walk_tick mark (bt0 + step * dt) (fail_at = Some step))) (\<lambda>d.
        let w' = (if ed_intent d \<noteq> None
                  then w\<lparr>wk_proceeds := wk_proceeds w +
                           sell_proceeds_lamports draw (wk_draws w) (notional_before * ed_fraction_bps d div 10000)
                             (realized_r (wk_state w) mark) (case ed_exit_mode d of None \<Rightarrow> Secure | Some m \<Rightarrow> m),
                         wk_exits := wk_exits w @ [(ed_reason d, ed_fraction_bps d)], wk_draws := Suc (wk_draws w)\<rparr>
                  else w) in
        walk_loop c draw sol_in entry bt0 dt fail_at (step + 1) xs (w'\<lparr>wk_state := ed_next_state d\<rparr>)))"

definition walk_position ::
  "exit_config \<Rightarrow> draws \<Rightarrow> mint \<Rightarrow> lamports \<Rightarrow> decimal \<Rightarrow> decimal list \<Rightarrow> millis \<Rightarrow> millis \<Rightarrow> int option \<Rightarrow> walk_result result" where
  "walk_position c draw m sol_in entry path bt0 dt fail_at =
     (if sol_in \<le> 0 then Inl ValueError
      else rbind (exit_state_at_entry m entry c) (\<lambda>s.
        rbind (walk_loop c draw sol_in entry bt0 dt fail_at 0 path \<lparr>wk_state = s, wk_proceeds = 0, wk_exits = [], wk_draws = 0\<rparr>) (\<lambda>w.
        let left = remaining_bps (wk_state w) in
        if 0 < left \<and> path \<noteq> []
        then rbind (exit_replace (wk_state w) ((wk_state w)\<lparr>remaining_bps := 0\<rparr>)) (\<lambda>s'.
          let proceeds = wk_proceeds w +
                sell_proceeds_lamports draw (wk_draws w) (sol_in * left div 10000)
                  (realized_r (wk_state w) (dmul entry (last path))) Secure in
          Inr \<lparr>wr_mint = m, wr_sol_in_lamports = sol_in, gross_pnl_lamports = proceeds - sol_in, proceeds_lamports = proceeds,
               wr_exits = wk_exits w @ [(TIMEOUT, 10000)], final_remaining_bps = remaining_bps s'\<rparr>)
        else Inr \<lparr>wr_mint = m, wr_sol_in_lamports = sol_in, gross_pnl_lamports = wk_proceeds w - sol_in,
                  proceeds_lamports = wk_proceeds w, wr_exits = wk_exits w, final_remaining_bps = left\<rparr>)))"

definition naive_walk_position :: "draws \<Rightarrow> mint \<Rightarrow> lamports \<Rightarrow> decimal list \<Rightarrow> exit_mode \<Rightarrow> walk_result" where
  "naive_walk_position draw m sol_in path mode =
     (if path = []
      then \<lparr>wr_mint = m, wr_sol_in_lamports = sol_in, gross_pnl_lamports = - sol_in, proceeds_lamports = 0, wr_exits = [],
            final_remaining_bps = 0\<rparr>
      else let exit_r = ddiv (dmul (Max (set path)) 5000) 10000;
               proceeds = sell_proceeds_lamports draw 0 sol_in exit_r mode in
        \<lparr>wr_mint = m, wr_sol_in_lamports = sol_in, gross_pnl_lamports = proceeds - sol_in, proceeds_lamports = proceeds,
         wr_exits = [(TAKE_PROFIT, 10000)], final_remaining_bps = 0\<rparr>)"

record scenario_launch =
  sn_mint :: mint
  sn_entry_fill_price :: decimal
  sn_sol_in_lamports :: lamports

record ab_result =
  ab_n :: nat
  naive_net_lamports :: lamports
  ladder_net_lamports :: lamports
  lift_lamports :: lamports
  lift_pct_of_abs_naive :: "decimal option"

definition quantize_hundredth :: "decimal \<Rightarrow> decimal" where
  "quantize_hundredth x = of_int (half_even (x * 100)) / 100"

text \<open>The seeded path of a launch and the draws of its two walks are parameters of the comparison.\<close>

fun ab_loop ::
  "exit_config \<Rightarrow> (scenario_launch \<Rightarrow> decimal list) \<Rightarrow> (scenario_launch \<Rightarrow> draws) \<Rightarrow> (scenario_launch \<Rightarrow> draws) \<Rightarrow>
   scenario_launch list \<Rightarrow> lamports \<Rightarrow> lamports \<Rightarrow> (lamports \<times> lamports) result" where
  "ab_loop c path_of draw_naive draw_ladder [] naive ladder = Inr (naive, ladder)"
| "ab_loop c path_of draw_naive draw_ladder (l # ls) naive ladder =
     rbind (walk_position c (draw_ladder l) (sn_mint l) (sn_sol_in_lamports l) (sn_entry_fill_price l) (path_of l)
              1700000000000 400 None) (\<lambda>w.
     ab_loop c path_of draw_naive draw_ladder ls
       (naive + gross_pnl_lamports (naive_walk_position (draw_naive l) (sn_mint l) (sn_sol_in_lamports l) (path_of l) Secure))
       (ladder + gross_pnl_lamports w))"

definition run_ab ::
  "exit_config \<Rightarrow> (scenario_launch \<Rightarrow> decimal list) \<Rightarrow> (scenario_launch \<Rightarrow> draws) \<Rightarrow> (scenario_launch \<Rightarrow> draws) \<Rightarrow>
   scenario_launch list \<Rightarrow> ab_result result" where
  "run_ab c path_of draw_naive draw_ladder launches =
     rbind (ab_loop c path_of draw_naive draw_ladder launches 0 0) (\<lambda>(naive, ladder).
       let lift = ladder - naive in
       Inr \<lparr>ab_n = length launches, naive_net_lamports = naive, ladder_net_lamports = ladder, lift_lamports = lift,
            lift_pct_of_abs_naive =
              (if naive \<noteq> 0 then Some (quantize_hundredth (dmul (ddiv (of_int lift) (of_int \<bar>naive\<bar>)) 100)) else None)\<rparr>)"

section \<open>The micro gate and its size\<close>

definition micro_clean :: "safety_inputs \<Rightarrow> micro_safety_facts \<Rightarrow> (mint \<Rightarrow> int \<Rightarrow> bool) option \<Rightarrow> bool" where
  "micro_clean i f probe \<longleftrightarrow>
     safety_clean MICRO_SAFETY_THRESHOLDS i \<and> verified f = Some True \<and>
     (\<exists>d. lp_lock_age_days f = Some d \<and> 30 \<le> d) \<and> (\<exists>c. holder_concentration_top5_bps f = Some c \<and> c < 2000) \<and>
     (\<exists>sellable. probe = Some sellable \<and> sellable (si_mint i) (si_event_slot i))"

lemma scan_all_flags: "gd_red_flags (scan_all t i) = [] \<longleftrightarrow> safety_clean t i"
  using scan_all_passed_iff [of t i] by (auto simp: scan_all_def gd_passed_def gate_pass_def gate_reject_def Let_def)

text \<open>
  C40. The micro preset only tightens. It passes exactly the candidates that its own thresholds find clean,
  that are verified, whose liquidity has been locked for thirty days, whose five largest holders own less
  than a fifth, and whose sale a probe has simulated; whatever it passes, the standard gate passes too.
\<close>

theorem micro_gate_tightens:
  "(mg_verdict (evaluate_safety MICRO_SAFETY_THRESHOLDS i f probe) = PASS \<longleftrightarrow> micro_clean i f probe) \<and>
   (mg_verdict (evaluate_safety MICRO_SAFETY_THRESHOLDS i f probe) = PASS \<longrightarrow>
      gd_passed (evaluate_fast default_safety_thresholds i))"
proof -
  have extra: "micro_extra_flags f = [] \<longleftrightarrow> verified f = Some True \<and> (\<exists>d. lp_lock_age_days f = Some d \<and> 30 \<le> d) \<and>
      (\<exists>c. holder_concentration_top5_bps f = Some c \<and> c < 2000)"
    by (auto simp: micro_extra_flags_def MICRO_MIN_LP_LOCK_DAYS_def MICRO_TOP5_CONCENTRATION_MAX_BPS_def split: option.splits if_splits)
  have sell: "check_sellability i probe = None \<longleftrightarrow> (\<exists>sellable. probe = Some sellable \<and> sellable (si_mint i) (si_event_slot i))"
    by (auto simp: check_sellability_def split: option.splits)
  have "mg_verdict (evaluate_safety MICRO_SAFETY_THRESHOLDS i f probe) = PASS \<longleftrightarrow>
      gd_red_flags (scan_all MICRO_SAFETY_THRESHOLDS i) = [] \<and> micro_extra_flags f = [] \<and> check_sellability i probe = None"
    by (auto simp: evaluate_safety_def Let_def split: option.splits)
  then have exact: "mg_verdict (evaluate_safety MICRO_SAFETY_THRESHOLDS i f probe) = PASS \<longleftrightarrow> micro_clean i f probe"
    by (simp add: scan_all_flags extra sell micro_clean_def)
  have "micro_clean i f probe \<Longrightarrow> safety_clean default_safety_thresholds i"
    by (auto simp: micro_clean_def safety_clean_def MICRO_SAFETY_THRESHOLDS_def default_safety_thresholds_def)
  then show ?thesis using exact evaluate_fast_passed_iff by blast
qed

definition demo_safe_inputs :: safety_inputs where
  "demo_safe_inputs =
     \<lparr>si_mint = ''m'', si_event_slot = 1, si_event_block_time_ms = 1000, si_data_staleness_ms = 10, freeze_authority = None,
      mint_authority = None, lp_locked_or_burned_bps = Some 10000, dev_bundle_cluster_bps = Some 100,
      holder_concentration_top10_bps = Some 1500, sell_tax_bps = Some 0, buy_tax_bps = Some 0, authorities_decoded = True,
      holder_count = Some 50\<rparr>"

theorem micro_gate_tightens_witness: "gd_passed (evaluate_fast default_safety_thresholds demo_safe_inputs)"
proof -
  let ?f = "\<lparr>verified = Some True, lp_lock_age_days = Some 40, holder_concentration_top5_bps = Some 900\<rparr>"
  have "micro_clean demo_safe_inputs ?f (Some (\<lambda>_ _. True))"
    by (simp add: micro_clean_def safety_clean_def MICRO_SAFETY_THRESHOLDS_def demo_safe_inputs_def truthy_def)
  then show ?thesis using micro_gate_tightens [of demo_safe_inputs ?f "Some (\<lambda>_ _. True)"] by blast
qed

text \<open>
  The micro size is at most half a percent of the bankroll and at most what the sizer allows, so the
  per-trade and the aggregate cap hold for it.
\<close>

theorem micro_size_bounded:
  assumes "micro_size config net_odds p unc cur bankroll signals = Inr r"
  shows "0 \<le> final_lamports r \<and> 10000 * final_lamports r \<le> 50 * bankroll \<and>
    final_lamports r \<le> max 0 (per_trade_cap_lamports config) \<and>
    cur + final_lamports r \<le> max cur (max_aggregate_lamports config)"
proof -
  obtain k where k: "kelly_size config p unc cur signals net_odds = Inr k" and "0 \<le> bankroll"
    and r: "final_lamports r = (if min (size_lamports k) (bankroll * 50 div 10000) < 0 then 0
      else min (size_lamports k) (bankroll * 50 div 10000))"
    using assms unfolding micro_size_def MICRO_SIZE_FRACTION_BPS_def Let_def mk_MicroSizingResult_def
    by (cases "kelly_size config p unc cur signals net_odds") (auto simp del: min_less_iff_disj split: if_split_asm)
  have "0 \<le> bankroll * 50 div 10000" using \<open>0 \<le> bankroll\<close> by simp
  moreover have "10000 * (bankroll * 50 div 10000) \<le> 50 * bankroll"
    using mult_div_mod_eq [of 10000 "bankroll * 50"] pos_mod_sign [of 10000 "bankroll * 50"] by linarith
  ultimately show ?thesis using kelly_size_caps [OF k] r by (simp add: max_def min_def)
qed

section \<open>The screen\<close>

definition in_band :: "screener_thresholds \<Rightarrow> screen_inputs \<Rightarrow> bool" where
  "in_band t i \<longleftrightarrow> sc_data_staleness_ms i \<le> sc_max_staleness_ms t \<and>
     (\<exists>mcap liq vol. market_cap_usd i = Some mcap \<and> sc_liquidity_usd i = Some liq \<and> volume_usd_h24 i = Some vol \<and>
        mcap_min_usd t \<le> mcap \<and> mcap \<le> mcap_max_usd t \<and> 0 < mcap \<and> min_liquidity_usd t \<le> liq \<and>
        min_volume_to_mcap_ratio t \<le> ddiv vol mcap)"

lemma spike_no_exclusion: "\<not> list_ex (\<lambda>h. is_exclusion (sr_reason h)) (spike_reasons t i)"
  by (auto simp: spike_reasons_def Let_def split: option.splits)

lemma band_reasons: 
  "list_ex (\<lambda>h. is_exclusion (sr_reason h)) (mcap_reasons t i) \<longleftrightarrow>
     \<not> (\<exists>mcap. market_cap_usd i = Some mcap \<and> mcap_min_usd t \<le> mcap \<and> mcap \<le> mcap_max_usd t)"
  "list_ex (\<lambda>h. is_exclusion (sr_reason h)) (liquidity_reasons t i) \<longleftrightarrow>
     \<not> (\<exists>liq. sc_liquidity_usd i = Some liq \<and> min_liquidity_usd t \<le> liq)"
  "list_ex (\<lambda>h. is_exclusion (sr_reason h)) (turnover_reasons t i) \<longleftrightarrow>
     \<not> (\<exists>mcap vol. market_cap_usd i = Some mcap \<and> volume_usd_h24 i = Some vol \<and> 0 < mcap \<and> min_volume_to_mcap_ratio t \<le> ddiv vol mcap)"
  by (auto simp: mcap_reasons_def liquidity_reasons_def turnover_reasons_def Let_def not_less not_le split: option.splits)

text \<open>
  The screen passes exactly the fresh candidates whose readings are all present and in their band, and
  a rejected one names a reason; a volume spike is recorded but never decides.
\<close>

theorem screen_exact:
  "(sd_verdict (screen t i) = PASS \<longleftrightarrow> in_band t i) \<and> (sd_verdict (screen t i) = REJECT \<longleftrightarrow> exclusion_codes (screen t i) \<noteq> []) \<and>
   sd_verdict (screen t (i\<lparr>baseline_volume_usd_h24 := b\<rparr>)) = sd_verdict (screen t i)"
proof -
  have exact: "sd_verdict (screen t i) = PASS \<longleftrightarrow> in_band t i" for i
    by (auto simp: screen_def screen_finalize_def Let_def in_band_def spike_no_exclusion band_reasons)
  have "sd_verdict (screen_finalize i rs) = REJECT \<longleftrightarrow> exclusion_codes (screen_finalize i rs) \<noteq> []" for rs
    by (auto simp: screen_finalize_def exclusion_codes_def Let_def filter_empty_conv list_ex_iff)
  then have "sd_verdict (screen t i) = REJECT \<longleftrightarrow> exclusion_codes (screen t i) \<noteq> []" by (auto simp: screen_def)
  moreover have "in_band t (i\<lparr>baseline_volume_usd_h24 := b\<rparr>) \<longleftrightarrow> in_band t i" by (simp add: in_band_def)
  moreover have "a = b" if "a = PASS \<longleftrightarrow> b = PASS" for a b :: gate_verdict using that by (cases a; cases b) simp_all
  ultimately show ?thesis using exact by simp
qed

section \<open>The walk\<close>

lemma sell_proceeds_nonneg:
  assumes "0 \<le> notional" and "0 \<le> r"
  shows "0 \<le> sell_proceeds_lamports draw n notional r mode"
proof -
  define h where "h = msm_exit_slippage_bps (slippage_model_for mode) +
      (if draw n < flt (of_int (sandwich_p_bps (slippage_model_for mode)) / 10000) then sandwich_loss_bps (slippage_model_for mode) else 0)"
  have "h \<le> 10000" by (auto simp: h_def slippage_model_for_def)
  then have "(of_int h :: decimal) \<le> of_int 10000" by (rule of_int_le_iff [THEN iffD2])
  then have "0 \<le> dsub 10000 (of_int h)" by (simp add: dsub_def dec.rnd_nonneg)
  then have keep: "0 \<le> ddiv (dsub 10000 (of_int h)) 10000" by (simp add: ddiv_nonneg)
  have "0 \<le> dmul (of_int notional) r" using assms by (simp add: dmul_nonneg)
  then have "0 \<le> trunc (dmul (dmul (of_int notional) r) (ddiv (dsub 10000 (of_int h)) 10000))"
    using keep by (simp add: trunc_nonneg dmul_nonneg)
  then show ?thesis by (simp only: sell_proceeds_lamports_def Let_def h_def)
qed

lemma decision_spec_sale:
  assumes "exit_config_ok c" and "0 < remaining_bps t" and "decision_spec c t tk r d"
  shows "0 \<le> ed_fraction_bps d \<and> (ed_intent d = None \<longrightarrow> ed_next_state d = t)"
proof (cases "first_rule (exit_rules c t tk r)")
  case (Some why)
  then show ?thesis using assms(3) by (auto simp: decision_spec_def)
next
  case None
  show ?thesis
  proof (cases "\<exists>i. unfired_hit c t r i")
    case True
    then obtain i x where i: "unfired_hit c t r i" "ed_intent d = Some (Reduce x)" "ed_fraction_bps d = rd_fraction_bps x"
        "rd_fraction_bps x = min (rung_fraction_bps (tp_ladder c ! i)) (remaining_bps t)"
      using assms(3) None unfolding decision_spec_def by auto
    then have "tp_ladder c ! i \<in> set (tp_ladder c)" by (simp add: unfired_hit_def)
    from tp_rung_bounds(2) [OF assms(1) this] show ?thesis using i assms(2) by simp
  next
    case False
    then show ?thesis using assms(3) None by (simp add: decision_spec_def exit_hold_def)
  qed
qed

definition walk_ok :: "walk_state \<Rightarrow> bool" where
  "walk_ok w \<longleftrightarrow> exit_state_ok (wk_state w) \<and> (wk_exits w = [] \<longrightarrow> remaining_bps (wk_state w) = 10000)"

lemma walk_loop_returns:
  assumes "exit_config_ok c" and "walk_ok w" and "0 \<le> bt0" and "0 \<le> dt" and "0 \<le> step"
  shows "\<exists>w'. walk_loop c draw sol_in entry bt0 dt fail_at step path w = Inr w' \<and> walk_ok w' \<and>
    (0 \<le> sol_in \<longrightarrow> 0 \<le> entry \<longrightarrow> (\<forall>x \<in> set path. 0 \<le> x) \<longrightarrow> 0 \<le> wk_proceeds w \<longrightarrow> 0 \<le> wk_proceeds w')"
  using assms(2,5)
proof (induction path arbitrary: step w)
  case (Cons x xs)
  let ?s = "wk_state w"
  let ?tk = "walk_tick (dmul entry x) (bt0 + step * dt) (fail_at = Some step)"
  show ?case
  proof (cases "remaining_bps ?s \<le> 0")
    case False
    have "exit_tick_ok ?tk" using assms(3,4) Cons.prems(2) by (simp add: exit_tick_ok_def walk_tick_def)
    then obtain t d where t: "stepped_from c (realized_r ?s (dmul entry x)) ?s t" and d: "exit_on_tick c ?s ?tk = Inr d"
      "decision_spec c t ?tk (realized_r ?s (dmul entry x)) d"
      using exit_on_tick_live [of c ?s ?tk] assms(1) Cons.prems(1) False by (auto simp: walk_ok_def walk_tick_def)
    define w' where "w' = (if ed_intent d \<noteq> None
        then w\<lparr>wk_proceeds := wk_proceeds w +
                 sell_proceeds_lamports draw (wk_draws w) (sol_in * remaining_bps ?s div 10000 * ed_fraction_bps d div 10000)
                   (realized_r ?s (dmul entry x)) (case ed_exit_mode d of None \<Rightarrow> Secure | Some m \<Rightarrow> m),
               wk_exits := wk_exits w @ [(ed_reason d, ed_fraction_bps d)], wk_draws := Suc (wk_draws w)\<rparr>
        else w)\<lparr>wk_state := ed_next_state d\<rparr>"
    have moves: "exit_state_ok (ed_next_state d)"
      using decision_spec_moves [OF assms(1) t _ d(2)] False by (simp add: exit_moves_def)
    have left: "remaining_bps t = remaining_bps ?s" using t by (simp add: stepped_from_def)
    have share: "0 \<le> ed_fraction_bps d" and held: "ed_intent d = None \<longrightarrow> ed_next_state d = t"
      using decision_spec_sale [OF assms(1) _ d(2)] False left by auto
    have ok: "walk_ok w'"
    proof (cases "ed_intent d")
      case None
      then show ?thesis using Cons.prems(1) moves held left by (simp add: walk_ok_def w'_def)
    next
      case (Some y)
      then show ?thesis using moves by (simp add: walk_ok_def w'_def)
    qed
    have "0 \<le> wk_proceeds w'" if "0 \<le> sol_in" "0 \<le> entry" "0 \<le> x" "0 \<le> wk_proceeds w"
    proof -
      have "0 < xs_entry_fill_price ?s" using Cons.prems(1) by (simp add: walk_ok_def exit_state_ok_def)
      then have "0 \<le> realized_r ?s (dmul entry x)" using that by (simp add: realized_r_def ddiv_nonneg dmul_nonneg)
      moreover have "0 \<le> sol_in * remaining_bps ?s div 10000 * ed_fraction_bps d div 10000"
        using that(1) False share by (simp add: pos_imp_zdiv_nonneg_iff)
      ultimately show ?thesis using sell_proceeds_nonneg that(4) by (auto simp: w'_def)
    qed
    then show ?thesis using Cons.IH [OF ok, of "step + 1"] Cons.prems(2) False d(1)
      by (auto simp: Let_def w'_def)
  qed (use Cons.prems in auto)
qed auto

text \<open>
  The walk always answers and ends flat: for a valid configuration and a path that is not empty the
  simulation raises no exception, some exit is recorded, nothing of the position is left, and the proceeds
  are never negative.
\<close>

theorem walk_ends_flat:
  assumes "exit_config_ok c" and "stop_thresholds c = Inr th" and "th < 10000" and "0 < entry" and "dec_rep entry"
    and "0 < sol_in" and "0 \<le> bt0" and "0 \<le> dt" and "path \<noteq> []" and "\<forall>x \<in> set path. 0 \<le> x"
  shows "\<exists>w. walk_position c draw m sol_in entry path bt0 dt fail_at = Inr w \<and> final_remaining_bps w = 0 \<and>
    wr_exits w \<noteq> [] \<and> 0 \<le> proceeds_lamports w \<and> gross_pnl_lamports w = proceeds_lamports w - sol_in"
proof -
  obtain s where s: "exit_state_at_entry m entry c = Inr s" "exit_state_ok s" "remaining_bps s = 10000"
    using exit_state_at_entry_returns [OF assms(2-5)] by blast
  let ?w0 = "\<lparr>wk_state = s, wk_proceeds = 0, wk_exits = [], wk_draws = 0\<rparr>"
  have "walk_ok ?w0" using s by (simp add: walk_ok_def)
  from walk_loop_returns [OF assms(1) this assms(7,8), of 0 draw sol_in entry fail_at path] obtain w where
    w: "walk_loop c draw sol_in entry bt0 dt fail_at 0 path ?w0 = Inr w" "walk_ok w" "0 \<le> wk_proceeds w"
    using assms(4,6,10) by auto
  have ok: "exit_state_ok (wk_state w)" using w(2) by (simp add: walk_ok_def)
  show ?thesis
  proof (cases "0 < remaining_bps (wk_state w)")
    case True
    have "exit_replace (wk_state w) ((wk_state w)\<lparr>remaining_bps := 0\<rparr>) = Inr ((wk_state w)\<lparr>remaining_bps := 0\<rparr>)"
      using ok True by (intro exit_replace_ok) (auto simp: exit_state_ok_def)
    moreover have "0 \<le> realized_r (wk_state w) (dmul entry (last path))"
      using ok assms(4,9,10) by (simp add: realized_r_def ddiv_nonneg dmul_nonneg exit_state_ok_def)
    then have "0 \<le> sell_proceeds_lamports draw (wk_draws w) (sol_in * remaining_bps (wk_state w) div 10000)
        (realized_r (wk_state w) (dmul entry (last path))) Secure"
      using True assms(6) by (intro sell_proceeds_nonneg) (simp_all add: pos_imp_zdiv_nonneg_iff)
    ultimately show ?thesis using assms(6,9) s(1) w(1,3) True by (simp add: walk_position_def Let_def)
  next
    case False
    then have "remaining_bps (wk_state w) = 0" using ok by (simp add: exit_state_ok_def)
    then show ?thesis using assms(6) s(1) w False by (auto simp: walk_position_def walk_ok_def Let_def)
  qed
qed

lemma micro_exit_valid: "exit_config_ok MICRO_EXIT_CONFIG" "stop_thresholds MICRO_EXIT_CONFIG = Inr 1800"
proof -
  show "exit_config_ok MICRO_EXIT_CONFIG"
    by (simp add: exit_config_ok_def mk_ExitConfig_def MICRO_EXIT_CONFIG_def mk_TpRung_def mk_RatchetRung_def)
  have "trunc (dmul (dsub 1 (41 / 50)) 10000) = 1800" by code_simp
  then show "stop_thresholds MICRO_EXIT_CONFIG = Inr 1800"
    by (simp add: stop_thresholds_def mk_StopThresholds_def MICRO_EXIT_CONFIG_def)
qed

theorem walk_ends_flat_witness:
  "\<exists>w. walk_position MICRO_EXIT_CONFIG (\<lambda>n. 1) ''m'' 1000000 1 [1, 2, 1 / 2] 1000 400 None = Inr w \<and> final_remaining_bps w = 0 \<and>
     wr_exits w \<noteq> []"
  using walk_ends_flat [OF micro_exit_valid _ _ dec.rep_1, of 1000000 1000 400 "[1, 2, 1 / 2]" "\<lambda>n. 1" "''m''" None] by auto

end
