(* ===== verification/Spec2Isabelle.thy ===== *)
theory Spec2Isabelle
  imports Stop_Layers Controller Resting_Orders Signer Mev Multi_Wallet Launch_History Venue Presets
begin

text \<open>
  A verification development for the trading core of AATS (\<open>src/aats\<close>), a bot that enters newly
  launched tokens, holds them under mechanical exit rules and must never increase risk by accident.

  \<^bold>\<open>The program.\<close> The SNIPE loop (\<open>controller/snipe_loop.py\<close>) turns a launch event into at most
  one entry order: it reads the breaker projection, cooldown, pre-staged score, veto and safety
  gate, sizes the order, claims the mint in the shared store, checks the cost stack, writes the
  entering position ahead and submits. The FAST loop (\<open>controller/fast_loop.py\<close>) reconciles fills,
  ticks every open position through the exit engine (\<open>risk/exit_engine.py\<close>), feeds the
  mark-to-market to the circuit breaker (\<open>risk/circuit_breaker.py\<close>), whose trip flattens the book,
  and runs the Layer-2 stop enforcer (\<open>risk/secondary_enforcer.py\<close>). Positions move through the
  state machine of \<open>controller/fsm.py\<close>; both loops share the store of \<open>controller/state.py\<close>. A
  dead-man's switch (\<open>risk/deadman.py\<close>) flattens everything when heartbeats stop. In front of an entry
  stand the pre-trade gates: deny list, red-flag gate, liquidity sanity, and the conviction gates that
  scale a signal down or refuse it. While a position is open, a sweep re-probes whether it can still be
  sold and a watcher looks for the unlocking of its pool; both raise flags in the store that the FAST
  loop reads. The SLOW loop (\<open>controller/slow_loop.py\<close>) publishes scores and the verdicts of a
  language-model reasoner (\<open>reasoning/\<close>), whose answers are clamped to de-risk actions; regime and
  survivor models (\<open>controller/regime_wiring.py\<close>) and a detector of insider sells
  (\<open>ingestion/insider_dump.py\<close>) raise further flags. The orchestrator (\<open>controller/loops.py\<close>) composes
  the loops, reconciles the store with the venue at startup and between ticks
  (\<open>controller/reconcile.py\<close>) and takes the operator's requests (\<open>controller/control_api.py\<close>): kill,
  flatten, breaker reset. A stop exists three times: in process, resting at the venue
  (\<open>risk/venue_native_stop.py\<close>, kept in step by \<open>risk/survivable_stop_coordinator.py\<close>) and as pre-signed
  flattens that a watchdog in its own process submits when the heartbeat goes silent
  (\<open>risk/presigned_flatten.py\<close>, \<open>risk/dms_service.py\<close>). Resting orders (\<open>risk/resting_orders.py\<close>) wait for a trigger and then pass the same
  entry gates. Every transaction is signed by an isolated process (\<open>execution/signer_process.py\<close>) that
  parses the bytes itself and applies its own policy (\<open>execution/signer_enforcer.py\<close>). The production
  venue (\<open>execution/jito_jupiter_venue.py\<close>) quotes, builds (\<open>execution/tx_builder.py\<close>), signs, simulates
  and sends an order with up to three attempts; \<open>mev/\<close> prices its tip from a stream of floor tips, splits
  exits into chunks and submits atomic bundles; \<open>execution/multi_wallet.py\<close> spreads an entry over several
  wallets under a cap per mint. What is known of a deployer (\<open>ingestion/deployer_reputation.py\<close>,
  \<open>ingestion/dev_funding_age.py\<close>, \<open>ingestion/funding_lineage.py\<close>) feeds the conviction gates. A micro preset
  (\<open>risk/presets.py\<close>) tightens gate, size and exits; a screen (\<open>risk/screener.py\<close>) filters candidates, and
  \<open>risk/exit_sim.py\<close> walks a position along a price path to compare exit rules.

  \<^bold>\<open>Theories.\<close>
  \<^item> \<open>Prelude\<close>: the result type of a Python call (an exception or a value), insertion-ordered
    dictionaries, truncation. \<open>Rounding\<close>: decimal arithmetic with 28 significant digits, half-even
    (\<open>dadd\<close>, \<open>dsub\<close>, \<open>dmul\<close>, \<open>ddiv\<close>), and binary64 rounding of clock readings, both as an
    instance of one locale of rounding to a number of significant digits. Decimal values are
    rationals; the exponent range of the formats is unbounded.
  \<^item> \<open>Contracts\<close>: the validated classes of \<open>contracts/\<close> (risk configuration, breaker state, event
    time, cost stack, the four intents and their de-risk factory, fills, signals, launch events,
    positions). A constructor is a function \<open>mk_...\<close> returning the value or the exception of its
    validators. Identifiers that the code hashes are their pre-images; audit strings keep their
    kind and their numbers. The type checks that reject floats and booleans are the types.
  \<^item> \<open>Interfaces\<close>: the contracts as locales (\<open>ratchet\<close>, \<open>derisk_stage\<close>, \<open>ttl_cell\<close>,
    \<open>once_window\<close>, \<open>position_store\<close>, \<open>sizing_engine\<close>, \<open>ordered_gate\<close>, \<open>conviction_gate\<close>), each
    interpreted in the theory of the component that provides it. Four more stand beside their one
    client: \<open>stop_venue\<close> (what a venue of resting stops promises the coordinator), \<open>verdict_source\<close>
    (what the router promises the reasoner), \<open>flag_producer\<close> (advice never touches the book) and
    \<open>position_sweep\<close> (a pass over the stored positions decides each on its own). So do \<open>tip_feed\<close> (what
    a stream of tip floors promises the tip controller), \<open>slot_view\<close> (what a source of past launches
    answers as of a slot) and \<open>honest_node\<close> (what a truthful node promises the venue).
  \<^item> \<open>Cost_Gate\<close> (\<open>risk/cost_model.py\<close>), \<open>Sizing\<close> (\<open>risk/sizing.py\<close>), \<open>Stop_Rules\<close>
    (\<open>risk/survivable_stop.py\<close>, \<open>risk/rule_engine.py\<close>, \<open>risk/secondary_enforcer.py\<close>),
    \<open>Exit_Engine\<close> (\<open>risk/exit_engine.py\<close>), \<open>Breaker\<close> (\<open>risk/circuit_breaker.py\<close>), \<open>Deadman\<close>
    (\<open>risk/deadman.py\<close>): the risk lane, one function per method on a record of the object's fields.
  \<^item> \<open>State_Store\<close> (the in-memory store of \<open>controller/state.py\<close>), \<open>Position_FSM\<close>
    (\<open>controller/fsm.py\<close>), \<open>Snipe_Loop\<close> (\<open>controller/snipe_loop.py\<close>), \<open>Fast_Loop\<close>
    (\<open>controller/fast_loop.py\<close> and \<open>controller/enforcer_wiring.py\<close>): the controller. \<open>PositionFSM\<close>
    objects are shared by reference between the registry and a running tick, so the FAST loop has
    an explicit heap of them.
  \<^item> \<open>Safety_Gate\<close> (\<open>risk/pretrade_gate.py\<close>, \<open>risk/liquidity_sanity.py\<close>, \<open>risk/blacklist.py\<close>),
    \<open>Conviction_Gates\<close> (\<open>risk/lp_unlock_gate.py\<close>, \<open>risk/dev_funding_age_gate.py\<close>,
    \<open>risk/deployer_reputation_gate.py\<close>, \<open>risk/anti_fomo.py\<close>), \<open>Sellability\<close>
    (\<open>execution/sell_sim.py\<close>, \<open>risk/sellability_reprobe.py\<close>), \<open>Resting_Orders\<close>
    (\<open>risk/resting_orders.py\<close>): the gates before and during a position. \<open>Flag_Exits\<close> joins the
    sweep and the unlock watcher with the store and the FAST loop.
  \<^item> \<open>Stop_Layers\<close> (\<open>risk/venue_native_stop.py\<close>, \<open>risk/survivable_stop_coordinator.py\<close>,
    \<open>risk/presigned_flatten.py\<close>, \<open>risk/dms_service.py\<close>): the placer over an abstract venue and the
    simulated venue with its keeper, the coordinator of the layers, the holder of pre-signed flattens
    and the watchdog on a heartbeat record.
  \<^item> \<open>Reasoning\<close> (\<open>reasoning/schema.py\<close>, \<open>clamp.py\<close>, \<open>matrix.py\<close>, \<open>prompt.py\<close>, \<open>router.py\<close>,
    \<open>reasoner.py\<close>): verdict labels, the clamp and the conflict matrix, the router with its cache,
    budget and retries, the reasoner. A backend is a function from a prompt and an attempt to a reply
    with its latency or a failure. \<open>Slow_Loop\<close> (\<open>controller/slow_loop.py\<close>,
    \<open>controller/regime_wiring.py\<close>, \<open>ingestion/insider_dump.py\<close>, \<open>controller/enrichment_wiring.py\<close>): the
    producers of the flags.
  \<^item> \<open>Controller\<close> (\<open>controller/reconcile.py\<close>, \<open>controller/loops.py\<close>, \<open>controller/control_api.py\<close>): the
    orchestrator over both loops and one store, reconciliation and the operator's requests.
  \<^item> \<open>Solana_Wire\<close> (\<open>execution/solana_wire.py\<close>): base58, compact-u16, the transaction parser and
    builder on bytes. \<open>Signer\<close> (\<open>execution/signer_enforcer.py\<close>, \<open>execution/ed25519_field.py\<close> and the
    request handler of \<open>execution/signer_process.py\<close>): policy, ledger, pricing with its caches,
    address derivation, policy loading, signature splicing. SHA-256, the native derivation, Ed25519
    signing, base64 and registered spend decoders are parameters.
  \<^item> \<open>Venue\<close> (\<open>execution/jito_jupiter_venue.py\<close>, \<open>execution/tx_builder.py\<close>, the offline clients of
    \<open>execution/rpc_client.py\<close> and \<open>execution/signer_client.py\<close>): node and signer are functions on an
    environment, every call is recorded, an operation is a state transformer with exceptions and its
    properties are Hoare triples. The compiler of \<open>solders\<close> is a parameter.
  \<^item> \<open>Mev\<close> (\<open>mev/tip_stream.py\<close>, \<open>tip_controller.py\<close>, \<open>split_exit.py\<close>, \<open>bundle_submitter.py\<close>,
    \<open>latency_tracer.py\<close>), \<open>Multi_Wallet\<close> (\<open>execution/multi_wallet.py\<close>), \<open>Launch_History\<close>
    (\<open>ingestion/deployer_reputation.py\<close>, \<open>dev_funding_age.py\<close>, \<open>funding_lineage.py\<close>) and \<open>Presets\<close>
    (\<open>risk/presets.py\<close>, \<open>risk/screener.py\<close>, \<open>risk/exit_sim.py\<close>). Relays, node transports, the record files
    and the random generator of the walks are parameters.
  \<^item> This theory: the properties that span the two loops.

  \<^bold>\<open>What is shown.\<close> Breaker: it trips exactly at its limits, is durable before the flatten, latches
  until an operator resets it and restores point in time. Exit engine: every tick is answered by the
  first rule of the documented hierarchy; share, floor, peak and stop move one way; profit lock,
  trailing stop and maximum holding time are guarantees over every run. Stops never widen. Sizing
  stays under a quarter Kelly and both caps; the cost gate accepts exactly the stacks it should.
  Store: claims are exclusive, flags live until their expiry, exposure is exact. State machine:
  write-ahead and monotone. SNIPE: an order has passed every gate, is sent once, and keeps the
  aggregate cap. FAST: only de-risk orders leave it, a kill or a trip sells the whole tracked book,
  a missing price fails closed. Switch: silence flattens once. Gates: the fail-fast gate agrees with
  the exhaustive scan, unreadable lists keep the last good denials, a chain of conviction gates only
  lowers a conviction, and a degraded or unlocking position is sold on the next tick. Resting orders:
  nothing fires without its trigger and every gate, and the book survives a restart. Codec: base58
  and compact-u16 are inverted exactly and the parser reads back what the builder wrote. Signer: it
  signs only within its policy, over any run the rolling caps hold, its caches change no answer, and
  the signature covers the message that was checked. Stop layers: the in-process stop and the resting
  one fire on the same ticks, and a silent heartbeat submits every pre-signed flatten once. Reasoner:
  over any run its verdicts are at least as strong as the conflict matrix demands and its intents only
  shed risk, whatever the backends answer. Flag producers: a forced exit is sold on the next tick, the
  insider detector counts exactly, and no producer touches the book. Controller: reconciliation decides
  every stored position, no entry stays pending, and a killed controller never enters. Venue: nothing is
  sent that was not simulated, an order that was reported as landed is never placed again, and with a
  truthful node an order lands at most once. Tips: never above the share of the edge; a split exit sells
  exactly its share; an atomic buy that did not land leaves the wallet flat. Several wallets: the
  outstanding amount of a mint stays under its cap over any run. Deployer history: the gate rejects exactly
  the serial ruggers known at the slot, the funding age is that of the first funding, a prior launch counts
  once. Presets: the micro gate only tightens, the screen passes exactly its band, a walk ends flat.
  Several theorems state what the code does where a comment promises more:
  \<open>tight_floor_never_trips\<close>, \<open>restart_lifts_recovered_pause\<close>, \<open>dms_failed_flatten_not_retried\<close>,
  \<open>bookkeeping_resurrects_closed_position\<close>, \<open>second_entry_overwrites_open_position\<close>,
  \<open>full_exit_ignores_landing\<close>, \<open>sell_tax_check_inert_on_real_client\<close>, \<open>restart_orphans_keeper_orders\<close>,
  \<open>schedule_only_tranche_waits_for_unit_mark\<close>, \<open>create_account_with_seed_unpriced\<close>,
  \<open>restarted_writer_trips_watchdog\<close>, \<open>veto_weakens_sell\<close>, \<open>bucket_verdict_is_final\<close>,
  \<open>reduce_verdict_shortens_veto\<close>, \<open>unseeded_detector_never_flags\<close>,
  \<open>breaker_reset_does_not_resume_sniping\<close>, \<open>flatten_request_sells_whole_book\<close>,
  \<open>tiny_exit_understates_exposure\<close>, \<open>failed_bundle_keeps_reservation\<close>, \<open>censored_record_hides_rug\<close>,
  \<open>failed_fetch_reports_later_funding\<close>, \<open>live_fill_without_confirmation\<close>,
  \<open>unchecked_last_attempt_lands_twice\<close>, \<open>built_tip_priced_as_account_creation\<close>,
  \<open>stub_text_is_unparseable\<close> and, below,
  \<open>soft_pause_does_not_stop_sniping\<close>.

  \<^bold>\<open>Choices.\<close> Every definition is a total executable function: the loops of the code run over finite
  dictionaries and ladders, so no fuel is needed. A method that raises keeps the writes made before
  the raise. Locks make each method of a shared object atomic, so an interleaving is a sequence of
  operations; the runs \<open>breaker_step\<close>, \<open>dms_step\<close>, \<open>fsm_step\<close>, \<open>snipe_run\<close>, \<open>fast_step\<close>, \<open>co_step\<close>,
  \<open>watchdog_run\<close>, \<open>reasoner_run\<close>, \<open>insider_run\<close>, \<open>producer_step\<close>, \<open>mw_step\<close>, \<open>venue_run\<close> and \<open>controller_run\<close> are those
  sequences, with restarts and the other loop's writes as events. Parameters stand for the venue,
  the price feed, the safety gate, an injected sizer or cost model, the flatten handler and the
  clocks. Where the code iterates a set (mints fired by Layer 2) the model uses insertion order.

  \<^bold>\<open>Not modelled.\<close> Logging, telemetry callbacks, metrics and the candidate feed; readers of
  environment variables (thresholds enter through their validated constructors); the Redis store (an
  external service behind the same interface); sockets and key loading of the signer process;
  the process entry points (\<open>controller/__main__.py\<close>, \<open>risk/dms_main.py\<close>); the read-only views of the
  control API, the bus publisher, the mock backend and the rendering of prompts to text; calibration
  of the reasoner; decoding of third-party programs, sentiment, features, model training and
  inference, HTTP and socket transports, the random paths of the exit simulation, back-tests, control
  plane, Telegram, the dashboard, the Go and Rust programs.
\<close>

subsection \<open>From the FAST loop to the SNIPE loop\<close>

lemma record_pnl_returns_state: "record_pnl handler b ev = (b', Inr st) \<Longrightarrow> st = b_state b'"
  by (cases rule: record_pnl_cases [of b ev handler])
    (auto simp: record_pnl_def split: prod.splits sum.splits)

lemma tick_pnl_projects:
  assumes "tick_pnl venue bt fs m i pos xs mark = (gs, Inr ())"
    and "0 < xs_entry_fill_price xs" and "0 < tokens_out_base pos"
  shows "load_breaker_state (fs_store gs) = Some (b_state (fs_breaker gs))"
  using assms record_pnl_returns_state
  by (fastforce simp: tick_pnl_def Let_def load_breaker_state_def save_breaker_state_def flatten_all_breaker
      split: sum.splits prod.splits if_splits)

text \<open>
  A trip in the FAST loop stops the SNIPE loop: after a position's tick that left the breaker
  tripped, every launch event is skipped before anything is read or written, whatever the gates,
  the sizing and the signal say.
\<close>

theorem tripped_tick_stops_sniping:
  assumes "tick_pnl venue bt fs m i pos xs mark = (gs, Inr ())"
    and "0 < xs_entry_fill_price xs" and "0 < tokens_out_base pos" and "is_tripped (fs_breaker gs)"
  shows "process_event execute sl (fs_store gs) now elapsed ev =
    (fs_store gs, Inr (Skipped BREAKER_TRIPPED), [])"
  using snipe_refuses_tripped [OF tick_pnl_projects [OF assms(1-3)]] assms(4) by (simp add: is_tripped_def)

lemma demo_tick_trips:
  "\<exists>gs. tick_pnl (\<lambda>_ _ _. demo_fill) 1000
     (demo_loop\<lparr>fs_breaker := (fresh_breaker default_risk_config)\<lparr>b_day_pnl := [0 \<mapsto> -14999500]\<rparr>\<rparr>)
     ''m'' 0 demo_position balanced_entry 1 = (gs, Inr ()) \<and> is_tripped (fs_breaker gs)"
proof -
  let ?fs = "demo_loop\<lparr>fs_breaker := (fresh_breaker default_risk_config)\<lparr>b_day_pnl := [0 \<mapsto> -14999500]\<rparr>\<rparr>"
  let ?ev = "\<lparr>pe_mint = ''m'', pe_block_time_ms = 1000, pe_delta_lamports = -990\<rparr>"
  have "pnl_net (fs_breaker ?fs) ?ev \<le> pct_limit_lamports (b_config (fs_breaker ?fs))"
    by (simp add: pnl_net_def utc_day_key_def default_limits)
  then obtain b' where rec: "record_pnl (\<lambda>_. None) (fs_breaker ?fs) ?ev = (b', Inr (b_state b'))"
    "status (b_state b') = TRIPPED" "b_flattens b' \<noteq> b_flattens (fs_breaker ?fs)"
    using record_pnl_trips [of "fs_breaker ?fs" ?ev] default_tiers_ordered by auto
  have "trunc (dmul (dsub 1 (xs_entry_fill_price balanced_entry)) (of_int (tokens_out_base demo_position))) = -990"
    "0 < tokens_out_base demo_position" "unrealized_pnl_net_lamports demo_position = 0"
    using demo_crash(1) by (simp_all add: balanced_entry_def demo_position_def)
  then show ?thesis
    using rec demo_crash(2)
    by (simp add: tick_pnl_def Let_def mk_PnLEvent_def flatten_all_breaker is_tripped_def)
qed

theorem tripped_tick_stops_sniping_witness:
  "\<exists>gs. fst (tick_pnl (\<lambda>_ _ _. demo_fill) 1000
     (demo_loop\<lparr>fs_breaker := (fresh_breaker default_risk_config)\<lparr>b_day_pnl := [0 \<mapsto> -14999500]\<rparr>\<rparr>)
     ''m'' 0 demo_position balanced_entry 1) = gs \<and>
     process_event (\<lambda>_ _. demo_fill) demo_snipe (fs_store gs) 0 20 demo_event =
       (fs_store gs, Inr (Skipped BREAKER_TRIPPED), [])"
proof -
  have "0 < tokens_out_base demo_position" by (simp add: demo_position_def)
  moreover obtain gs where gs: "tick_pnl (\<lambda>_ _ _. demo_fill) 1000
     (demo_loop\<lparr>fs_breaker := (fresh_breaker default_risk_config)\<lparr>b_day_pnl := [0 \<mapsto> -14999500]\<rparr>\<rparr>)
     ''m'' 0 demo_position balanced_entry 1 = (gs, Inr ())" "is_tripped (fs_breaker gs)"
    using demo_tick_trips by blast
  ultimately show ?thesis
    using tripped_tick_stops_sniping [OF gs(1) demo_crash(2) _ gs(2)] by simp
qed

text \<open>
  The soft tier does not reach the SNIPE loop: a breaker is reachable that is armed but soft
  reduced and refuses entries, and with exactly its state projected in the store a launch event
  is still submitted to the venue.
\<close>

theorem soft_pause_does_not_stop_sniping:
  "\<exists>b t r intent. breaker_reachable (\<lambda>_. None) b \<and> is_soft_reduced b \<and> \<not> entries_allowed b \<and>
     process_event (\<lambda>_ _. demo_fill) demo_snipe (save_breaker_state (demo_store []) (b_state b)) 0 20 demo_event =
       (t, r, [intent])"
proof -
  let ?h = "\<lambda>_ :: audit option. None :: py_exc option"
  let ?ev = "\<lparr>pe_mint = ''m'', pe_block_time_ms = 1000, pe_delta_lamports = -12000000\<rparr>"
  let ?b = "fst (record_pnl ?h (fresh_breaker default_risk_config) ?ev)"
  have reach: "breaker_reachable ?h ?b"
    using breaker_reachable.step [OF fresh_reachable, of ?h default_risk_config "Record ?ev"]
    by (simp add: breaker_step_def)
  have b: "?b = (pnl_marked (fresh_breaker default_risk_config) ?ev True)
      \<lparr>b_state := pnl_synced (fresh_breaker default_risk_config) ?ev,
       b_store := Some (pnl_synced (fresh_breaker default_risk_config) ?ev)\<rparr>"
    by (subst record_quiet) (simp_all add: pnl_net_def default_limits)
  have soft: "is_soft_reduced ?b" "\<not> entries_allowed ?b" "status (b_state ?b) = ARMED"
    unfolding b by (simp_all add: is_soft_reduced_def entries_allowed_def risk_posture_def)
  let ?s = "save_breaker_state (demo_store []) (b_state ?b)"
  have gates: "snipe_gates_pass demo_snipe ?s 0 demo_event demo_signal"
    using demo_gates [of "[]"] soft(3)
    by (auto simp: snipe_gates_pass_def save_breaker_state_def load_breaker_state_def in_cooldown_def
        get_decision_signal_def get_veto_flag_def case_prod_beta)
  have size: "snipe_size demo_snipe ?s demo_signal = Inr 10000000"
    by (simp add: snipe_size_def demo_snipe_def get_aggregate_open_lamports_def demo_store_free
        default_risk_config_def save_breaker_state_def)
  have free: "\<not> intent_held ?s (entry_id demo_event) 0" "\<not> lock_held ?s (le_mint demo_event) 0"
    using demo_store_free by (simp_all add: save_breaker_state_def intent_held_def lock_held_def get_fsm_lock_def)
  have budget: "\<forall>budget. latency_budget_ms demo_snipe = Some budget \<longrightarrow> (20 :: int) \<le> budget"
    by (simp add: demo_snipe_def)
  from process_event_goes [OF gates size _ free demo_costs _ budget, of "\<lambda>_ _. demo_fill"]
  obtain t r intent where "process_event (\<lambda>_ _. demo_fill) demo_snipe ?s 0 20 demo_event = (t, r, [intent])" by auto
  with reach soft(1,2) show ?thesis by blast
qed

subsection \<open>From the SNIPE loop to the FAST loop\<close>

text \<open>
  C27. The life of an entry: when the SNIPE loop has submitted an intent and the FAST loop, which
  does not yet track the mint, reconciles a landed fill for it, the store holds the position
  open with exactly the size of the intent and the filled quantity, the loop tracks that very
  record, the entry lock is free, the aggregate exposure is unchanged by the fill, and the
  position has the exit state (with its hard stop) of the loop's configuration at the fill price.
\<close>

theorem snipe_then_fill_opens_position:
  assumes "process_event execute sl s now elapsed ev = (t, r, [intent])" and "store_ok s"
    and "fs_store fs = t" and "map_of (fs_registry fs) (le_mint ev) = None" and "fs_wiring fs = None"
    and "landed fill" and "exit_state_at_entry (le_mint ev) (fill_entry_price fill) (fs_exit_config fs) = Inr xs"
    and "reconcile_fill now' fs (le_mint ev) fill = (gs, r')"
  shows "\<exists>q. r' = Inr True \<and> load_position (fs_store gs) (le_mint ev) = Some q \<and> synced_at gs q \<and>
    fsm_state q = OPEN \<and> sol_in_lamports q = en_sol_in_lamports intent \<and> tokens_out_base q = tokens_out fill \<and>
    (\<forall>x. \<not> lock_held (fs_store gs) (le_mint ev) x) \<and>
    get_aggregate_open_lamports (fs_store gs) = get_aggregate_open_lamports t \<and>
    map_of (fs_exit_states gs) (le_mint ev) = Some xs \<and> fs_exits gs = fs_exits fs"
proof -
  have "[intent] \<noteq> []" by simp
  from process_event_submits [OF assms(1) this] obtain s1 sg sol cs where
    e: "same_core s s1" "\<not> intent_held s (entry_id ev) now" "\<not> lock_held s (le_mint ev) now"
      "t = save_position (claimed_store s1 now ev) (entering_position ev sg sol cs)"
      "intent = snipe_intent sl ev sol cs" by (metis list.inject)
  let ?p = "entering_position ev sg sol cs"
  let ?q = "?p\<lparr>fsm_state := OPEN, tokens_out_base := tokens_out fill,
      entry_slippage_bps := fl_entry_slippage_bps fill, unrealized_pnl_net_lamports := 0, pos_status := Open_status\<rparr>"
  have lp: "load_position t (le_mint ev) = Some ?p" by (simp add: e(4) table.load_save)
  have core: "positions (claimed_store s1 now ev) = positions s1" "store_ok s1"
    using claimed_store_facts(1) [of s1 ev now] e(2,3) assms(2) same_core_facts [OF e(1)] by simp_all
  then have ok: "store_ok t" unfolding e(4) by (intro store_ok_save) (simp add: store_ok_def)
  have g: "gs = fs\<lparr>fs_store := release_entering (save_position t ?q) (le_mint ev),
        fs_objs := fs_objs fs @ [?q],
        fs_registry := dict_set (le_mint ev) (length (fs_objs fs)) (fs_registry fs),
        fs_exit_states := dict_set (le_mint ev) xs (fs_exit_states fs)\<rparr>" "r' = Inr True"
    using assms(3-8) lp
    by (auto simp: reconcile_fill_def fsm_for_def new_fsm_def transition_to_open_def fsm_at_def Let_def
        validate_fsm_transition_def FSM_LEGAL_TRANSITIONS_def put_fsm_def arm_layer2_def)
  have ld: "load_position (fs_store gs) (le_mint ev) = Some ?q"
    using table.load_save [of t ?q] by (simp add: g(1))
  have agg: "get_aggregate_open_lamports (fs_store gs) = get_aggregate_open_lamports t"
    using aggregate_save [OF ok, of ?q] aggregate_split [OF ok, of "le_mint ev"] lp
    by (simp add: g(1) get_aggregate_open_lamports_def release_entering_def)
  have "synced_at gs ?q" using ld by (simp add: synced_at_def g(1))
  with ld agg show ?thesis by (intro exI [of _ ?q]) (simp add: g e(5) snipe_intent_def)
qed

lemma balanced_entry_built: "exit_state_at_entry ''m'' 100 secure_balanced = Inr balanced_entry"
proof -
  have "stop_thresholds secure_balanced = Inr 4000" by code_simp
  moreover have "derive_stop_trigger_price 100 4000 = Inr 60" by code_simp
  ultimately show ?thesis
    by (simp add: exit_state_at_entry_def stop_at_entry_def mk_StopState_def mk_ExitState_def balanced_entry_def)
qed

theorem snipe_then_fill_opens_position_witness:
  "\<exists>t r intent gs r' q.
     process_event (\<lambda>_ _. demo_fill) demo_snipe (demo_store []) 0 20 demo_event = (t, r, [intent]) \<and>
     reconcile_fill 100 (demo_loop\<lparr>fs_store := t, fs_objs := [], fs_registry := [], fs_exit_states := []\<rparr>) ''m''
       (demo_fill\<lparr>effective_price := 100\<rparr>) = (gs, r') \<and>
     load_position (fs_store gs) ''m'' = Some q \<and> fsm_state q = OPEN"
proof -
  have size: "snipe_size demo_snipe (demo_store []) demo_signal = Inr 10000000"
    by (simp add: snipe_size_def demo_snipe_def get_aggregate_open_lamports_def demo_store_free default_risk_config_def)
  have budget: "\<forall>budget. latency_budget_ms demo_snipe = Some budget \<longrightarrow> (20 :: int) \<le> budget"
    by (simp add: demo_snipe_def)
  obtain t r intent where run: "process_event (\<lambda>_ _. demo_fill) demo_snipe (demo_store []) 0 20 demo_event = (t, r, [intent])"
    using process_event_goes [OF demo_gates size _ demo_store_free(2,1) demo_costs _ budget, of "\<lambda>_ _. demo_fill"] by auto
  let ?fs = "demo_loop\<lparr>fs_store := t, fs_objs := [], fs_registry := [], fs_exit_states := []\<rparr>"
  let ?fill = "demo_fill\<lparr>effective_price := 100\<rparr>"
  obtain gs r' where rec: "reconcile_fill 100 ?fs (le_mint demo_event) ?fill = (gs, r')"
    by (cases "reconcile_fill 100 ?fs (le_mint demo_event) ?fill")
  have ok: "store_ok (demo_store [])" by (simp add: store_ok_def demo_store_free)
  have m: "le_mint demo_event = ''m''" by (simp add: demo_event_def)
  have entry: "exit_state_at_entry (le_mint demo_event) (fill_entry_price ?fill) (fs_exit_config ?fs) = Inr balanced_entry"
    using balanced_entry_built by (simp add: m fill_entry_price_def demo_loop_def)
  have "landed ?fill" "fs_wiring ?fs = None" "map_of (fs_registry ?fs) (le_mint demo_event) = None" "fs_store ?fs = t"
    by (simp_all add: demo_fill_def demo_loop_def)
  from snipe_then_fill_opens_position [OF run ok this(4,3,2,1) entry rec]
  obtain q where q: "load_position (fs_store gs) ''m'' = Some q" "fsm_state q = OPEN" unfolding m by blast
  have rec': "reconcile_fill 100 ?fs ''m'' ?fill = (gs, r')" using rec by (simp add: m)
  from run rec' q show ?thesis by blast
qed

end
